(* ===== verification/EnetBase.thy ===== *)
theory EnetBase
  imports Main "HOL-Library.Word"
begin

text \<open>
  The prelude of the development.  It holds the machine integer types of
  \<^verbatim>\<open>enet/types.h\<close>, the byte order macros of \<^verbatim>\<open>enet/unix.h\<close>, the little macros of
  \<^verbatim>\<open>enet/utility.h\<close> and \<^verbatim>\<open>enet/time.h\<close>, the named constants of \<^verbatim>\<open>enet/enet.h\<close> and
  \<^verbatim>\<open>enet/protocol.h\<close>, the memory image of 8, 16 and 32 bit integers, and the generic
  lemmas about words and lists that the components share.

  The machine is a little endian one with a 64 bit \<^verbatim>\<open>size_t\<close> and a 32 bit \<^verbatim>\<open>int\<close> (x86-64
  or ARM64, the platforms the README names).  So \<^verbatim>\<open>htons\<close>/\<^verbatim>\<open>htonl\<close> reverse the bytes and an
  integer is stored with its low byte first.
\<close>

unbundle bit_operations_syntax

section \<open>Machine integers\<close>

type_synonym u8 = "8 word"
type_synonym u16 = "16 word"
type_synonym u32 = "32 word"
type_synonym size_t = "64 word"

named_theorems bytes_simps \<open>memory images of integers\<close>
named_theorems enet_consts \<open>unfolding of the named constants\<close>

section \<open>Named constants\<close>

text \<open>The constants keep the names of the two headers.  They are abbreviations, so that
  the simplifier sees the numerals.\<close>

abbreviation (input) ENET_PROTOCOL_MINIMUM_MTU :: "'a::numeral" where
  "ENET_PROTOCOL_MINIMUM_MTU \<equiv> 576"
abbreviation (input) ENET_PROTOCOL_MAXIMUM_MTU :: "'a::numeral" where
  "ENET_PROTOCOL_MAXIMUM_MTU \<equiv> 4096"
abbreviation (input) ENET_PROTOCOL_MAXIMUM_PACKET_COMMANDS :: "'a::numeral" where
  "ENET_PROTOCOL_MAXIMUM_PACKET_COMMANDS \<equiv> 32"
abbreviation (input) ENET_PROTOCOL_MINIMUM_WINDOW_SIZE :: "'a::numeral" where
  "ENET_PROTOCOL_MINIMUM_WINDOW_SIZE \<equiv> 4096"
abbreviation (input) ENET_PROTOCOL_MAXIMUM_WINDOW_SIZE :: "'a::numeral" where
  "ENET_PROTOCOL_MAXIMUM_WINDOW_SIZE \<equiv> 65536"
abbreviation (input) ENET_PROTOCOL_MINIMUM_CHANNEL_COUNT :: "'a::one" where
  "ENET_PROTOCOL_MINIMUM_CHANNEL_COUNT \<equiv> 1"
abbreviation (input) ENET_PROTOCOL_MAXIMUM_CHANNEL_COUNT :: "'a::numeral" where
  "ENET_PROTOCOL_MAXIMUM_CHANNEL_COUNT \<equiv> 255"
abbreviation (input) ENET_PROTOCOL_MAXIMUM_PEER_ID :: "'a::numeral" where
  "ENET_PROTOCOL_MAXIMUM_PEER_ID \<equiv> 0xFFF"
abbreviation (input) ENET_PROTOCOL_MAXIMUM_FRAGMENT_COUNT :: "'a::numeral" where
  "ENET_PROTOCOL_MAXIMUM_FRAGMENT_COUNT \<equiv> 1048576"

abbreviation (input) ENET_PROTOCOL_COMMAND_NONE :: u8 where
  "ENET_PROTOCOL_COMMAND_NONE \<equiv> 0"
abbreviation (input) ENET_PROTOCOL_COMMAND_ACKNOWLEDGE :: u8 where
  "ENET_PROTOCOL_COMMAND_ACKNOWLEDGE \<equiv> 1"
abbreviation (input) ENET_PROTOCOL_COMMAND_CONNECT :: u8 where
  "ENET_PROTOCOL_COMMAND_CONNECT \<equiv> 2"
abbreviation (input) ENET_PROTOCOL_COMMAND_VERIFY_CONNECT :: u8 where
  "ENET_PROTOCOL_COMMAND_VERIFY_CONNECT \<equiv> 3"
abbreviation (input) ENET_PROTOCOL_COMMAND_DISCONNECT :: u8 where
  "ENET_PROTOCOL_COMMAND_DISCONNECT \<equiv> 4"
abbreviation (input) ENET_PROTOCOL_COMMAND_PING :: u8 where
  "ENET_PROTOCOL_COMMAND_PING \<equiv> 5"
abbreviation (input) ENET_PROTOCOL_COMMAND_SEND_RELIABLE :: u8 where
  "ENET_PROTOCOL_COMMAND_SEND_RELIABLE \<equiv> 6"
abbreviation (input) ENET_PROTOCOL_COMMAND_SEND_UNRELIABLE :: u8 where
  "ENET_PROTOCOL_COMMAND_SEND_UNRELIABLE \<equiv> 7"
abbreviation (input) ENET_PROTOCOL_COMMAND_SEND_FRAGMENT :: u8 where
  "ENET_PROTOCOL_COMMAND_SEND_FRAGMENT \<equiv> 8"
abbreviation (input) ENET_PROTOCOL_COMMAND_SEND_UNSEQUENCED :: u8 where
  "ENET_PROTOCOL_COMMAND_SEND_UNSEQUENCED \<equiv> 9"
abbreviation (input) ENET_PROTOCOL_COMMAND_BANDWIDTH_LIMIT :: u8 where
  "ENET_PROTOCOL_COMMAND_BANDWIDTH_LIMIT \<equiv> 10"
abbreviation (input) ENET_PROTOCOL_COMMAND_THROTTLE_CONFIGURE :: u8 where
  "ENET_PROTOCOL_COMMAND_THROTTLE_CONFIGURE \<equiv> 11"
abbreviation (input) ENET_PROTOCOL_COMMAND_SEND_UNRELIABLE_FRAGMENT :: u8 where
  "ENET_PROTOCOL_COMMAND_SEND_UNRELIABLE_FRAGMENT \<equiv> 12"
abbreviation (input) ENET_PROTOCOL_COMMAND_COUNT :: u8 where
  "ENET_PROTOCOL_COMMAND_COUNT \<equiv> 13"
abbreviation (input) ENET_PROTOCOL_COMMAND_MASK :: u8 where
  "ENET_PROTOCOL_COMMAND_MASK \<equiv> 0x0F"

abbreviation (input) ENET_PROTOCOL_COMMAND_FLAG_ACKNOWLEDGE :: u8 where
  "ENET_PROTOCOL_COMMAND_FLAG_ACKNOWLEDGE \<equiv> 128"
abbreviation (input) ENET_PROTOCOL_COMMAND_FLAG_UNSEQUENCED :: u8 where
  "ENET_PROTOCOL_COMMAND_FLAG_UNSEQUENCED \<equiv> 64"
abbreviation (input) ENET_PROTOCOL_HEADER_FLAG_COMPRESSED :: u16 where
  "ENET_PROTOCOL_HEADER_FLAG_COMPRESSED \<equiv> 0x4000"
abbreviation (input) ENET_PROTOCOL_HEADER_FLAG_SENT_TIME :: u16 where
  "ENET_PROTOCOL_HEADER_FLAG_SENT_TIME \<equiv> 0x8000"
abbreviation (input) ENET_PROTOCOL_HEADER_FLAG_MASK :: u16 where
  "ENET_PROTOCOL_HEADER_FLAG_MASK \<equiv> 0xC000"
abbreviation (input) ENET_PROTOCOL_HEADER_SESSION_MASK :: u16 where
  "ENET_PROTOCOL_HEADER_SESSION_MASK \<equiv> 0x3000"
abbreviation (input) ENET_PROTOCOL_HEADER_SESSION_SHIFT :: nat where
  "ENET_PROTOCOL_HEADER_SESSION_SHIFT \<equiv> 12"

abbreviation (input) ENET_PACKET_FLAG_RELIABLE :: u32 where
  "ENET_PACKET_FLAG_RELIABLE \<equiv> 1"
abbreviation (input) ENET_PACKET_FLAG_UNSEQUENCED :: u32 where
  "ENET_PACKET_FLAG_UNSEQUENCED \<equiv> 2"
abbreviation (input) ENET_PACKET_FLAG_NO_ALLOCATE :: u32 where
  "ENET_PACKET_FLAG_NO_ALLOCATE \<equiv> 4"
abbreviation (input) ENET_PACKET_FLAG_UNRELIABLE_FRAGMENT :: u32 where
  "ENET_PACKET_FLAG_UNRELIABLE_FRAGMENT \<equiv> 8"
abbreviation (input) ENET_PACKET_FLAG_SENT :: u32 where
  "ENET_PACKET_FLAG_SENT \<equiv> 256"

abbreviation (input) ENET_BUFFER_MAXIMUM :: "'a::numeral" where
  "ENET_BUFFER_MAXIMUM \<equiv> 65"
abbreviation (input) ENET_HOST_BANDWIDTH_THROTTLE_INTERVAL :: "'a::numeral" where
  "ENET_HOST_BANDWIDTH_THROTTLE_INTERVAL \<equiv> 1000"
abbreviation (input) ENET_HOST_DEFAULT_MTU :: "'a::numeral" where
  "ENET_HOST_DEFAULT_MTU \<equiv> 1400"
abbreviation (input) ENET_HOST_DEFAULT_MAXIMUM_PACKET_SIZE :: "'a::numeral" where
  "ENET_HOST_DEFAULT_MAXIMUM_PACKET_SIZE \<equiv> 33554432"
abbreviation (input) ENET_HOST_DEFAULT_MAXIMUM_WAITING_DATA :: "'a::numeral" where
  "ENET_HOST_DEFAULT_MAXIMUM_WAITING_DATA \<equiv> 33554432"
abbreviation (input) ENET_PEER_DEFAULT_ROUND_TRIP_TIME :: "'a::numeral" where
  "ENET_PEER_DEFAULT_ROUND_TRIP_TIME \<equiv> 500"
abbreviation (input) ENET_PEER_DEFAULT_PACKET_THROTTLE :: "'a::numeral" where
  "ENET_PEER_DEFAULT_PACKET_THROTTLE \<equiv> 32"
abbreviation (input) ENET_PEER_PACKET_THROTTLE_SCALE :: "'a::numeral" where
  "ENET_PEER_PACKET_THROTTLE_SCALE \<equiv> 32"
abbreviation (input) ENET_PEER_PACKET_THROTTLE_COUNTER :: "'a::numeral" where
  "ENET_PEER_PACKET_THROTTLE_COUNTER \<equiv> 7"
abbreviation (input) ENET_PEER_PACKET_THROTTLE_ACCELERATION :: "'a::numeral" where
  "ENET_PEER_PACKET_THROTTLE_ACCELERATION \<equiv> 2"
abbreviation (input) ENET_PEER_PACKET_THROTTLE_DECELERATION :: "'a::numeral" where
  "ENET_PEER_PACKET_THROTTLE_DECELERATION \<equiv> 2"
abbreviation (input) ENET_PEER_PACKET_THROTTLE_INTERVAL :: "'a::numeral" where
  "ENET_PEER_PACKET_THROTTLE_INTERVAL \<equiv> 5000"
abbreviation (input) ENET_PEER_PACKET_LOSS_SCALE :: "'a::numeral" where
  "ENET_PEER_PACKET_LOSS_SCALE \<equiv> 65536"
abbreviation (input) ENET_PEER_PACKET_LOSS_INTERVAL :: "'a::numeral" where
  "ENET_PEER_PACKET_LOSS_INTERVAL \<equiv> 10000"
abbreviation (input) ENET_PEER_WINDOW_SIZE_SCALE :: "'a::numeral" where
  "ENET_PEER_WINDOW_SIZE_SCALE \<equiv> 65536"
abbreviation (input) ENET_PEER_TIMEOUT_LIMIT :: "'a::numeral" where
  "ENET_PEER_TIMEOUT_LIMIT \<equiv> 32"
abbreviation (input) ENET_PEER_TIMEOUT_MINIMUM :: "'a::numeral" where
  "ENET_PEER_TIMEOUT_MINIMUM \<equiv> 5000"
abbreviation (input) ENET_PEER_TIMEOUT_MAXIMUM :: "'a::numeral" where
  "ENET_PEER_TIMEOUT_MAXIMUM \<equiv> 30000"
abbreviation (input) ENET_PEER_PING_INTERVAL :: "'a::numeral" where
  "ENET_PEER_PING_INTERVAL \<equiv> 500"
abbreviation (input) ENET_PEER_UNSEQUENCED_WINDOW_SIZE :: "'a::numeral" where
  "ENET_PEER_UNSEQUENCED_WINDOW_SIZE \<equiv> 1024"
abbreviation (input) ENET_PEER_FREE_UNSEQUENCED_WINDOWS :: "'a::numeral" where
  "ENET_PEER_FREE_UNSEQUENCED_WINDOWS \<equiv> 32"
abbreviation (input) ENET_PEER_RELIABLE_WINDOWS :: "'a::numeral" where
  "ENET_PEER_RELIABLE_WINDOWS \<equiv> 16"
abbreviation (input) ENET_PEER_RELIABLE_WINDOW_SIZE :: "'a::numeral" where
  "ENET_PEER_RELIABLE_WINDOW_SIZE \<equiv> 0x1000"
abbreviation (input) ENET_PEER_FREE_RELIABLE_WINDOWS :: "'a::numeral" where
  "ENET_PEER_FREE_RELIABLE_WINDOWS \<equiv> 8"
abbreviation (input) ENET_HOST_ANY :: u32 where
  "ENET_HOST_ANY \<equiv> 0"
abbreviation (input) ENET_HOST_BROADCAST :: u32 where
  "ENET_HOST_BROADCAST \<equiv> 0xFFFFFFFF"

section \<open>utility.h and time.h\<close>

definition ENET_MAX :: "'a::linorder \<Rightarrow> 'a \<Rightarrow> 'a" where
  "ENET_MAX x y = (if x > y then x else y)"

definition ENET_MIN :: "'a::linorder \<Rightarrow> 'a \<Rightarrow> 'a" where
  "ENET_MIN x y = (if x < y then x else y)"

text \<open>Times are 32 bit millisecond counters that wrap.\<close>

abbreviation (input) ENET_TIME_OVERFLOW :: u32 where
  "ENET_TIME_OVERFLOW \<equiv> 86400000"

definition ENET_TIME_LESS :: "u32 \<Rightarrow> u32 \<Rightarrow> bool" where
  "ENET_TIME_LESS a b \<longleftrightarrow> a - b \<ge> ENET_TIME_OVERFLOW"

definition ENET_TIME_GREATER :: "u32 \<Rightarrow> u32 \<Rightarrow> bool" where
  "ENET_TIME_GREATER a b \<longleftrightarrow> b - a \<ge> ENET_TIME_OVERFLOW"

definition ENET_TIME_LESS_EQUAL :: "u32 \<Rightarrow> u32 \<Rightarrow> bool" where
  "ENET_TIME_LESS_EQUAL a b \<longleftrightarrow> \<not> ENET_TIME_GREATER a b"

definition ENET_TIME_GREATER_EQUAL :: "u32 \<Rightarrow> u32 \<Rightarrow> bool" where
  "ENET_TIME_GREATER_EQUAL a b \<longleftrightarrow> \<not> ENET_TIME_LESS a b"

definition ENET_TIME_DIFFERENCE :: "u32 \<Rightarrow> u32 \<Rightarrow> u32" where
  "ENET_TIME_DIFFERENCE a b = (if a - b \<ge> ENET_TIME_OVERFLOW then b - a else a - b)"

lemma ENET_MAX_eq [simp]: "ENET_MAX x y = max x y"
  by (auto simp: ENET_MAX_def max_def)

lemma ENET_MIN_eq [simp]: "ENET_MIN x y = min x y"
  by (auto simp: ENET_MIN_def min_def)

section \<open>Byte order and memory images\<close>

definition ENET_HOST_TO_NET_16 :: "u16 \<Rightarrow> u16" where
  "ENET_HOST_TO_NET_16 value = push_bit 8 value OR drop_bit 8 value"

definition ENET_NET_TO_HOST_16 :: "u16 \<Rightarrow> u16" where
  "ENET_NET_TO_HOST_16 value = push_bit 8 value OR drop_bit 8 value"

definition ENET_HOST_TO_NET_32 :: "u32 \<Rightarrow> u32" where
  "ENET_HOST_TO_NET_32 value =
     push_bit 24 value OR push_bit 16 (take_bit 8 (drop_bit 8 value)) OR
     push_bit 8 (take_bit 8 (drop_bit 16 value)) OR drop_bit 24 value"

definition ENET_NET_TO_HOST_32 :: "u32 \<Rightarrow> u32" where
  "ENET_NET_TO_HOST_32 value =
     push_bit 24 value OR push_bit 16 (take_bit 8 (drop_bit 8 value)) OR
     push_bit 8 (take_bit 8 (drop_bit 16 value)) OR drop_bit 24 value"

lemma NTOH_HTON_16 [simp]: "ENET_NET_TO_HOST_16 (ENET_HOST_TO_NET_16 x) = x"
  unfolding ENET_HOST_TO_NET_16_def ENET_NET_TO_HOST_16_def
  by (rule bit_word_eqI) (auto simp: bit_simps)

lemma HTON_NTOH_16 [simp]: "ENET_HOST_TO_NET_16 (ENET_NET_TO_HOST_16 x) = x"
  unfolding ENET_HOST_TO_NET_16_def ENET_NET_TO_HOST_16_def
  by (rule bit_word_eqI) (auto simp: bit_simps)

text \<open>Byte positions of a 32 bit word, for the bit level proofs.\<close>

lemma byte_cases:
  obtains "n < 8" | "8 \<le> n" "n < 16" "n - 8 < 8"
  | "16 \<le> n" "n < 24" "\<not> n - 8 < 8" "n - 16 < 8"
  | "24 \<le> n" "n < (32::nat)" "\<not> n - 8 < 8" "\<not> n - 16 < 8" "n - 24 < 8" | "32 \<le> n"
  by linarith

lemma bit_HTON_32 [bytes_simps]:
  "n < 32 \<Longrightarrow> bit (ENET_HOST_TO_NET_32 x) n \<longleftrightarrow>
     bit x (if n < 8 then 24 + n else if n < 16 then 8 + n else if n < 24 then n - 8 else n - 24)"
  by (cases n rule: byte_cases) (auto simp: ENET_HOST_TO_NET_32_def bit_simps dest: bit_imp_le_length)

lemma NTOH_eq_HTON_32: "ENET_NET_TO_HOST_32 = ENET_HOST_TO_NET_32"
  by (rule ext) (simp add: ENET_HOST_TO_NET_32_def ENET_NET_TO_HOST_32_def)

lemma NTOH_HTON_32 [simp]: "ENET_NET_TO_HOST_32 (ENET_HOST_TO_NET_32 x) = x"
  by (rule bit_word_eqI) (auto simp: bit_HTON_32 NTOH_eq_HTON_32)

lemma HTON_NTOH_32 [simp]: "ENET_HOST_TO_NET_32 (ENET_NET_TO_HOST_32 x) = x"
  using NTOH_HTON_32 [of x] by (simp add: NTOH_eq_HTON_32)

lemma HTON_16_inject [simp]: "ENET_HOST_TO_NET_16 x = ENET_HOST_TO_NET_16 y \<longleftrightarrow> x = y"
  by (metis NTOH_HTON_16)

text \<open>The bytes of an integer in memory, low byte first, and the integer they hold.\<close>

definition bytes16 :: "u16 \<Rightarrow> u8 list" where
  "bytes16 x = [ucast x, ucast (drop_bit 8 x)]"

definition bytes32 :: "u32 \<Rightarrow> u8 list" where
  "bytes32 x = [ucast x, ucast (drop_bit 8 x), ucast (drop_bit 16 x), ucast (drop_bit 24 x)]"

definition load16 :: "u8 list \<Rightarrow> nat \<Rightarrow> u16" where
  "load16 bs i = ucast (bs ! i) OR push_bit 8 (ucast (bs ! (i + 1)))"

definition load32 :: "u8 list \<Rightarrow> nat \<Rightarrow> u32" where
  "load32 bs i = ucast (bs ! i) OR push_bit 8 (ucast (bs ! (i + 1))) OR
     push_bit 16 (ucast (bs ! (i + 2))) OR push_bit 24 (ucast (bs ! (i + 3)))"

lemma length_bytes16 [simp, bytes_simps]: "length (bytes16 x) = 2"
  by (simp add: bytes16_def)

lemma length_bytes32 [simp, bytes_simps]: "length (bytes32 x) = 4"
  by (simp add: bytes32_def)

lemma word16_of_bytes [bytes_simps]:
  "ucast (ucast (x::u16) :: u8) OR push_bit 8 (ucast (ucast (drop_bit 8 x) :: u8)) = x"
  by (rule bit_word_eqI) (auto simp: bit_simps)

lemma word32_of_bytes [bytes_simps]:
  "ucast (ucast (x::u32) :: u8) OR push_bit 8 (ucast (ucast (drop_bit 8 x) :: u8)) OR
   push_bit 16 (ucast (ucast (drop_bit 16 x) :: u8)) OR
   push_bit 24 (ucast (ucast (drop_bit 24 x) :: u8)) = x" (is "?l = x")
proof (rule bit_word_eqI)
  fix n :: nat
  assume "n < LENGTH(32)"
  then show "bit ?l n = bit x n"
    by (cases n rule: byte_cases) (simp_all add: bit_simps)
qed

lemma bytes_of_word16 [bytes_simps]:
  "(ucast (ucast a OR push_bit 8 (ucast b :: u16)) :: u8) = a"
  "(ucast (drop_bit 8 (ucast a OR push_bit 8 (ucast b :: u16))) :: u8) = b"
  by (rule bit_word_eqI; auto simp: bit_simps dest: bit_imp_le_length)+

lemma bytes_of_word32 [bytes_simps]:
  fixes a b c d :: u8
  defines "w \<equiv> ucast a OR push_bit 8 (ucast b) OR push_bit 16 (ucast c) OR push_bit 24 (ucast d :: u32)"
  shows "ucast w = a" "ucast (drop_bit 8 w) = b" "ucast (drop_bit 16 w) = c"
    "ucast (drop_bit 24 w) = d"
  unfolding w_def
  by (rule bit_word_eqI; auto simp: bit_simps dest: bit_imp_le_length)+

section \<open>Shared list facts\<close>

lemma nth_list_update_id [simp]: "i < length xs \<Longrightarrow> xs[i := xs ! i] = xs"
  by simp

lemma map_upd_same: "i < length xs \<Longrightarrow> f y = f (xs ! i) \<Longrightarrow> map f (xs[i := y]) = map f xs"
  by (metis list_update_id map_update)

section \<open>Widening and narrowing\<close>

lemma unat_ucast_le:
  "unat x < 2 ^ LENGTH('b) \<Longrightarrow> unat (ucast (x :: 'a::len word) :: 'b::len word) = unat x"
  by (simp add: unsigned_ucast_eq take_bit_nat_eq_self)

lemma unat_ucast_up:
  "LENGTH('a) \<le> LENGTH('b) \<Longrightarrow> unat (ucast (x :: 'a::len word) :: 'b::len word) = unat x"
  by (rule unat_ucast_le)
     (metis unsigned_less less_le_trans one_le_numeral power_increasing)

lemma unat_widen [simp]:
  "unat (ucast (x::u32) :: size_t) = unat x" "unat (ucast (y::u16) :: size_t) = unat y"
  "unat (ucast (z::u8) :: size_t) = unat z" "unat (ucast (y::u16) :: u32) = unat y"
  by (simp_all add: unat_ucast_up)

end
