(* ===== verification/EnetList.thy ===== *)
theory EnetList
  imports EnetBase
begin

text \<open>
  The intrusive doubly linked lists of \<^verbatim>\<open>enet/list.cpp\<close> and \<^verbatim>\<open>enet/include/enet/list.h\<close>, on an
  explicit store: an address is a natural number, and the store gives the node (the two
  pointers) at each address.  A list is the address of its sentinel.  The operations are the
  pointer assignments of the code, in the order of the code.

  \<open>is_list s l xs\<close> says that the sentinel \<open>l\<close> heads the circular list of the nodes \<open>xs\<close>.  The
  lemmas show that insert, remove and move of the code implement insertion, deletion and
  splicing of HOL lists, that the size loop stops and counts the nodes, and that other lists of
  the store are left alone.  The rest of the development represents each \<^verbatim>\<open>ENetList\<close> by the HOL
  list of its elements, which these refinement lemmas justify.
\<close>

record ENetListNode =
  next_of :: nat
  previous_of :: nat

type_synonym list_store = "nat \<Rightarrow> ENetListNode"

definition set_next :: "nat \<Rightarrow> nat \<Rightarrow> list_store \<Rightarrow> list_store" where
  "set_next a v s = s(a := (s a)\<lparr>next_of := v\<rparr>)"

definition set_previous :: "nat \<Rightarrow> nat \<Rightarrow> list_store \<Rightarrow> list_store" where
  "set_previous a v s = s(a := (s a)\<lparr>previous_of := v\<rparr>)"

section \<open>The operations\<close>

definition enet_list_begin :: "list_store \<Rightarrow> nat \<Rightarrow> nat" where
  "enet_list_begin s l = next_of (s l)"

definition enet_list_end :: "list_store \<Rightarrow> nat \<Rightarrow> nat" where
  "enet_list_end s l = l"

definition enet_list_empty :: "list_store \<Rightarrow> nat \<Rightarrow> bool" where
  "enet_list_empty s l \<longleftrightarrow> enet_list_begin s l = enet_list_end s l"

definition enet_list_next :: "list_store \<Rightarrow> nat \<Rightarrow> nat" where
  "enet_list_next s it = next_of (s it)"

definition enet_list_previous :: "list_store \<Rightarrow> nat \<Rightarrow> nat" where
  "enet_list_previous s it = previous_of (s it)"

definition enet_list_front :: "list_store \<Rightarrow> nat \<Rightarrow> nat" where
  "enet_list_front s l = next_of (s l)"

definition enet_list_back :: "list_store \<Rightarrow> nat \<Rightarrow> nat" where
  "enet_list_back s l = previous_of (s l)"

definition enet_list_clear :: "nat \<Rightarrow> list_store \<Rightarrow> list_store" where
  "enet_list_clear l s = set_previous l l (set_next l l s)"

definition enet_list_insert :: "nat \<Rightarrow> nat \<Rightarrow> list_store \<Rightarrow> nat \<times> list_store" where
  "enet_list_insert position data s =
     (let result = data;
          s = set_previous result (previous_of (s position)) s;
          s = set_next result position s;
          s = set_next (previous_of (s result)) result s;
          s = set_previous position result s
      in (result, s))"

definition enet_list_remove :: "nat \<Rightarrow> list_store \<Rightarrow> nat \<times> list_store" where
  "enet_list_remove position s =
     (let s = set_next (previous_of (s position)) (next_of (s position)) s;
          s = set_previous (next_of (s position)) (previous_of (s position)) s
      in (position, s))"

definition enet_list_move :: "nat \<Rightarrow> nat \<Rightarrow> nat \<Rightarrow> list_store \<Rightarrow> nat \<times> list_store" where
  "enet_list_move position dataFirst dataLast s =
     (let first = dataFirst; last = dataLast;
          s = set_next (previous_of (s first)) (next_of (s last)) s;
          s = set_previous (next_of (s last)) (previous_of (s first)) s;
          s = set_previous first (previous_of (s position)) s;
          s = set_next last position s;
          s = set_next (previous_of (s first)) first s;
          s = set_previous position last s
      in (first, s))"

text \<open>The loop of \<^verbatim>\<open>enet_list_size\<close>; it need not stop on a store that is no list.\<close>

partial_function (option) size_loop :: "list_store \<Rightarrow> nat \<Rightarrow> nat \<Rightarrow> size_t \<Rightarrow> size_t option" where
  "size_loop s l position n =
     (if position = enet_list_end s l then Some n
      else size_loop s l (enet_list_next s position) (n + 1))"

definition enet_list_size :: "list_store \<Rightarrow> nat \<Rightarrow> size_t option" where
  "enet_list_size s l = size_loop s l (enet_list_begin s l) 0"

text \<open>The loop that empties a queue front to back, as \<^verbatim>\<open>enet_peer_reset_queues\<close> does with
  the acknowledgements: it returns the nodes it hands to \<^verbatim>\<open>enet_free\<close>, in order.\<close>

partial_function (option) drain_loop ::
    "list_store \<Rightarrow> nat \<Rightarrow> nat list \<Rightarrow> (nat list \<times> list_store) option" where
  "drain_loop s l freed =
     (if enet_list_empty s l then Some (freed, s)
      else case enet_list_remove (enet_list_begin s l) s of
             (node, s') \<Rightarrow> drain_loop s' l (freed @ [node]))"

lemmas list_access_defs = enet_list_begin_def enet_list_end_def enet_list_empty_def
  enet_list_next_def enet_list_previous_def enet_list_front_def enet_list_back_def

section \<open>The representation of a list in the store\<close>

fun linked :: "list_store \<Rightarrow> nat list \<Rightarrow> bool" where
  "linked s (a # b # xs) \<longleftrightarrow> next_of (s a) = b \<and> previous_of (s b) = a \<and> linked s (b # xs)"
| "linked s xs \<longleftrightarrow> True"

definition is_list :: "list_store \<Rightarrow> nat \<Rightarrow> nat list \<Rightarrow> bool" where
  "is_list s l xs \<longleftrightarrow> distinct (l # xs) \<and> linked s (l # xs @ [l])"

lemma next_set_next [simp]: "next_of (set_next a v s b) = (if b = a then v else next_of (s b))"
  by (simp add: set_next_def)

lemma next_set_previous [simp]: "next_of (set_previous a v s b) = next_of (s b)"
  by (simp add: set_previous_def)

lemma previous_set_previous [simp]:
  "previous_of (set_previous a v s b) = (if b = a then v else previous_of (s b))"
  by (simp add: set_previous_def)

lemma previous_set_next [simp]: "previous_of (set_next a v s b) = previous_of (s b)"
  by (simp add: set_next_def)

lemma linked_append:
  "linked s (xs @ a # ys) \<longleftrightarrow> linked s (xs @ [a]) \<and> linked s (a # ys)"
  by (induction s xs rule: linked.induct) (auto simp: neq_Nil_conv)

lemma linked_join:
  "linked s (xs @ a # b # ys) \<longleftrightarrow>
     linked s (xs @ [a]) \<and> next_of (s a) = b \<and> previous_of (s b) = a \<and> linked s (b # ys)"
  by (subst linked_append) auto

lemma linked_appendD:
  "linked s (xs @ ys) \<Longrightarrow> linked s xs" "linked s (xs @ ys) \<Longrightarrow> linked s ys"
  by (induction s xs rule: linked.induct; cases ys; auto)+

lemma linked_capped:
  assumes "ms \<noteq> []"
  shows "linked s (p # ms @ [q]) \<longleftrightarrow>
    next_of (s p) = hd ms \<and> previous_of (s (hd ms)) = p \<and> linked s ms \<and>
    next_of (s (last ms)) = q \<and> previous_of (s q) = last ms"
proof -
  obtain ms' e where "ms = ms' @ [e]" using assms by (cases ms rule: rev_cases) auto
  then show ?thesis by (cases ms') (auto simp: linked_join linked_join [of s "_ # _", simplified])
qed

text \<open>A chain depends only on the next pointers of all its nodes but the last and on the
  previous pointers of all but the first.\<close>

lemma linked_frame:
  "linked s xs \<Longrightarrow> (\<And>a. a \<in> set (butlast xs) \<Longrightarrow> next_of (s' a) = next_of (s a)) \<Longrightarrow>
   (\<And>a. a \<in> set (tl xs) \<Longrightarrow> previous_of (s' a) = previous_of (s a)) \<Longrightarrow> linked s' xs"
proof (induction s xs rule: linked.induct)
  case (1 s a b xs)
  have "linked s' (b # xs)"
    using 1 by (intro "1.IH") (auto split: if_splits dest: list.set_sel(2))
  then show ?case using 1 by auto
qed auto

lemma is_list_frame:
  assumes "is_list s l xs"
    and "\<And>a. a \<in> set (l # xs) \<Longrightarrow> s' a = s a"
  shows "is_list s' l xs"
  using assms unfolding is_list_def
  by (auto intro!: linked_frame [of s "l # xs @ [l]"] simp: butlast_append)

lemma is_list_Nil: "is_list s l [] \<longleftrightarrow> next_of (s l) = l \<and> previous_of (s l) = l"
  by (auto simp: is_list_def)

text \<open>How a list splits around a segment \<open>ms\<close>: \<open>p\<close> is the node before it and \<open>q\<close> the node
  after it (either may be the sentinel).  The two facts \<open>outer\<close> say that the pointers the
  operations write are not those of the two outer chains.\<close>

definition list_split ::
    "list_store \<Rightarrow> nat \<Rightarrow> nat list \<Rightarrow> nat list \<Rightarrow> nat \<Rightarrow> nat \<Rightarrow> bool" where
  "list_split s l xs ys p q \<longleftrightarrow>
     p = last (l # xs) \<and> q = hd (ys @ [l]) \<and> linked s (l # xs) \<and> linked s (ys @ [l])"

lemma is_list_split:
  "is_list s l (xs @ ms @ ys) \<longleftrightarrow>
     distinct (l # xs @ ms @ ys) \<and>
     (\<exists>p q. list_split s l xs ys p q \<and> linked s (p # ms @ [q]))"
proof -
  obtain as p where ap: "l # xs = as @ [p]" by (cases "l # xs" rule: rev_cases) auto
  obtain q bs where qb: "ys @ [l] = q # bs" by (cases "ys @ [l]") auto
  have pq: "p = last (l # xs)" "q = hd (ys @ [l])" using qb by (simp_all add: ap)
  have "l # (xs @ ms @ ys) @ [l] = (as @ [p]) @ ms @ q # bs" by (simp flip: ap qb)
  also have "\<dots> = as @ p # (ms @ q # bs)" by simp
  finally have "linked s (l # (xs @ ms @ ys) @ [l]) \<longleftrightarrow>
      linked s (as @ [p]) \<and> linked s ((p # ms) @ q # bs)"
    using linked_append [of s as p "ms @ q # bs"] by simp
  also have "\<dots> \<longleftrightarrow> linked s (l # xs) \<and> linked s (p # ms @ [q]) \<and> linked s (ys @ [l])"
    using linked_append [of s "p # ms" q bs] by (simp only: ap qb append_Cons)
  finally show ?thesis by (simp only: is_list_def list_split_def pq) blast
qed

lemma list_split_ends:
  "list_split s l xs ys p q \<Longrightarrow> p \<in> set (l # xs) \<and> q \<in> set (l # ys)"
  by (cases ys) (auto simp: list_split_def)

text \<open>Writing the next pointer of \<open>p\<close>, the previous pointer of \<open>q\<close> and anything of nodes outside
  keeps the two outer chains.\<close>

lemma list_split_frame:
  assumes sp: "list_split s l xs ys p q" and d: "distinct (l # xs @ ys)"
    and nx: "\<And>a. a \<in> set (l # xs @ ys) \<Longrightarrow> a \<noteq> p \<Longrightarrow> next_of (s' a) = next_of (s a)"
    and pv: "\<And>a. a \<in> set (l # xs @ ys) \<Longrightarrow> a \<noteq> q \<Longrightarrow> previous_of (s' a) = previous_of (s a)"
  shows "list_split s' l xs ys p q"
proof -
  have p: "p = last (l # xs)" and q: "q = hd (ys @ [l])"
    and l1: "linked s (l # xs)" and l2: "linked s (ys @ [l])"
    using sp by (auto simp: list_split_def)
  have pin: "p \<in> set (l # xs)" using p last_in_set [of "l # xs"] by simp
  have "linked s' (l # xs)"
  proof (rule linked_frame [OF l1])
    fix a assume a: "a \<in> set (butlast (l # xs))"
    obtain as where as: "l # xs = as @ [p]" using p by (metis append_butlast_last_id list.distinct(1))
    with a have "a \<in> set as" by simp
    moreover have "distinct (as @ [p])" using d by (simp flip: as)
    moreover have "set as \<union> {p} = insert l (set xs)" using arg_cong [OF as, of set] by auto
    ultimately show "next_of (s' a) = next_of (s a)" by (intro nx) auto
  next
    fix a assume "a \<in> set (tl (l # xs))"
    then show "previous_of (s' a) = previous_of (s a)" using d q by (intro pv) (cases ys; auto)+
  qed
  moreover have "linked s' (ys @ [l])"
  proof (rule linked_frame [OF l2])
    fix a assume "a \<in> set (butlast (ys @ [l]))"
    then show "next_of (s' a) = next_of (s a)"
      using d pin by (intro nx) auto
  next
    fix a assume a: "a \<in> set (tl (ys @ [l]))"
    then show "previous_of (s' a) = previous_of (s a)"
      using d q by (intro pv) (cases ys; auto)+
  qed
  ultimately show ?thesis using p q by (simp add: list_split_def)
qed

section \<open>The operations refine list operations\<close>

lemma is_list_clear: "is_list (enet_list_clear l s) l []"
  by (simp add: is_list_Nil enet_list_clear_def)

lemma enet_list_clear_frame: "a \<noteq> l \<Longrightarrow> enet_list_clear l s a = s a"
  by (simp add: enet_list_clear_def set_next_def set_previous_def)

lemma is_list_insert:
  assumes l: "is_list s l (xs @ ys)" and pos: "position = hd (ys @ [l])"
    and d: "data \<notin> set (l # xs @ ys)"
  shows "is_list (snd (enet_list_insert position data s)) l (xs @ data # ys)"
proof -
  from l obtain p where sp: "list_split s l xs ys p position"
    and link: "next_of (s p) = position" "previous_of (s position) = p"
    and dist: "distinct (l # xs @ ys)"
    using is_list_split [of s l xs "[]" ys] pos by (auto simp: list_split_def)
  let ?s = "snd (enet_list_insert position data s)"
  from list_split_ends [OF sp] d have dn: "data \<noteq> p" "data \<noteq> position" by auto
  have nx: "next_of (?s a) = (if a = p then data else if a = data then position else next_of (s a))"
    and pv: "previous_of (?s a) =
      (if a = position then data else if a = data then p else previous_of (s a))" for a
    using dn link by (auto simp: enet_list_insert_def Let_def)
  have "list_split ?s l xs ys p position"
    using d by (intro list_split_frame [OF sp dist]) (auto simp: nx pv)
  moreover have "linked ?s (p # [data] @ [position])" using dn by (simp add: nx pv)
  ultimately show ?thesis
    using is_list_split [of ?s l xs "[data]" ys] dist d by auto
qed

lemma is_list_remove:
  assumes l: "is_list s l (xs @ d # ys)"
  shows "is_list (snd (enet_list_remove d s)) l (xs @ ys)"
proof -
  from l obtain p q where sp: "list_split s l xs ys p q" and link: "linked s (p # [d] @ [q])"
    and dist: "distinct (l # xs @ [d] @ ys)"
    using is_list_split [of s l xs "[d]" ys] by auto
  let ?s = "snd (enet_list_remove d s)"
  from list_split_ends [OF sp] dist have dn: "d \<noteq> p" "d \<noteq> q" by auto
  have nx: "next_of (?s a) = (if a = p then q else next_of (s a))"
    and pv: "previous_of (?s a) = (if a = q then p else previous_of (s a))" for a
    using dn link by (auto simp: enet_list_remove_def Let_def)
  have "list_split ?s l xs ys p q"
    using dist by (intro list_split_frame [OF sp]) (auto simp: nx pv)
  moreover have "linked ?s (p # [] @ [q])" by (simp add: nx pv)
  ultimately show ?thesis
    using is_list_split [of ?s l xs "[]" ys] dist by auto
qed

text \<open>Moving the segment \<open>ms\<close> of one list in front of \<open>position\<close> in another list.\<close>

lemma is_list_move:
  assumes l1: "is_list s l1 (xs @ ms @ ys)" and l2: "is_list s l2 (us @ vs)"
    and ms: "ms \<noteq> []" and pos: "position = hd (vs @ [l2])"
    and dis: "set (l1 # xs @ ms @ ys) \<inter> set (l2 # us @ vs) = {}"
  defines "s' \<equiv> snd (enet_list_move position (hd ms) (last ms) s)"
  shows "is_list s' l1 (xs @ ys)" and "is_list s' l2 (us @ ms @ vs)"
proof -
  from l1 obtain p q where sp: "list_split s l1 xs ys p q" and link: "linked s (p # ms @ [q])"
    and dist: "distinct (l1 # xs @ ms @ ys)"
    using is_list_split [of s l1 xs ms ys] by auto
  from l2 obtain t where sp2: "list_split s l2 us vs t position"
    and link2: "next_of (s t) = position" "previous_of (s position) = t"
    and dist2: "distinct (l2 # us @ vs)"
    using is_list_split [of s l2 us "[]" vs] pos by (auto simp: list_split_def)
  let ?f = "hd ms" and ?e = "last ms"
  have fe: "?f \<in> set ms" "?e \<in> set ms" using ms by auto
  have pq: "p \<in> set (l1 # xs)" "q \<in> set (l1 # ys)"
    and tz: "t \<in> set (l2 # us)" "position \<in> set (l2 # vs)"
    using list_split_ends [OF sp] list_split_ends [OF sp2] by auto
  have ne: "?f \<noteq> p" "?f \<noteq> q" "?e \<noteq> p" "?e \<noteq> q" using fe pq dist by auto
  have ne2: "{t, position} \<inter> {p, q, ?f, ?e} = {}" using fe pq tz dis by auto
  have f: "previous_of (s ?f) = p" "next_of (s p) = ?f" and lms: "linked s ms"
    and e: "next_of (s ?e) = q" "previous_of (s q) = ?e"
    using link linked_capped [OF ms] by auto
  have nx: "next_of (s' a) = (if a = p then q else if a = ?e then position else
      if a = t then ?f else next_of (s a))"
    and pv: "previous_of (s' a) = (if a = q then p else if a = ?f then t else
      if a = position then ?e else previous_of (s a))" for a
    using ne ne2 f e link2 by (auto simp: s'_def enet_list_move_def Let_def)
  have out: "list_split s' l1 xs ys p q"
    using dist dis fe tz by (intro list_split_frame [OF sp]) (auto simp: nx pv)
  moreover have "linked s' (p # [] @ [q])" by (simp add: nx pv)
  ultimately show "is_list s' l1 (xs @ ys)"
    using is_list_split [of s' l1 xs "[]" ys] dist by auto
  have "linked s' ms"
  proof (rule linked_frame [OF lms])
    fix a assume "a \<in> set (butlast ms)"
    moreover have "?e \<notin> set (butlast ms)"
      using dist ms by (metis append_butlast_last_id distinct.simps(2) distinct_append not_distinct_conv_prefix)
    ultimately show "next_of (s' a) = next_of (s a)"
      using dist pq tz dis by (auto simp: nx dest: in_set_butlastD)
  next
    fix a assume "a \<in> set (tl ms)"
    moreover have "?f \<notin> set (tl ms)" using dist ms by (cases ms) auto
    ultimately show "previous_of (s' a) = previous_of (s a)"
      using dist pq tz dis ms by (auto simp: pv dest: list.set_sel(2))
  qed
  moreover have "list_split s' l2 us vs t position"
    using dis fe pq by (intro list_split_frame [OF sp2 dist2]) (auto simp: nx pv)
  ultimately show "is_list s' l2 (us @ ms @ vs)"
    using is_list_split [of s' l2 us ms vs] linked_capped [OF ms, of s' t position] dist dist2 dis
      fe ne ne2 by (auto simp: nx pv)
qed

lemma enet_list_insert_frame:
  assumes l: "is_list s l (xs @ ys)" and pos: "position = hd (ys @ [l])"
    and a: "a \<notin> set (l # xs @ ys)" "a \<noteq> data"
  shows "snd (enet_list_insert position data s) a = s a"
proof -
  from l obtain p where sp: "list_split s l xs ys p position" and "previous_of (s position) = p"
    using is_list_split [of s l xs "[]" ys] pos by (auto simp: list_split_def)
  moreover from list_split_ends [OF sp] a have "a \<noteq> p" "a \<noteq> position" by auto
  ultimately show ?thesis using a
    by (auto simp: enet_list_insert_def Let_def set_next_def set_previous_def)
qed

lemma enet_list_remove_frame:
  assumes l: "is_list s l (xs @ d # ys)" and a: "a \<notin> set (l # xs @ ys)"
  shows "snd (enet_list_remove d s) a = s a"
proof -
  from l obtain p q where sp: "list_split s l xs ys p q" and link: "linked s (p # [d] @ [q])"
    and dist: "distinct (l # xs @ [d] @ ys)"
    using is_list_split [of s l xs "[d]" ys] by auto
  from list_split_ends [OF sp] a have "a \<noteq> p" "a \<noteq> q" by auto
  then show ?thesis using link list_split_ends [OF sp] dist
    by (auto simp: enet_list_remove_def Let_def set_next_def set_previous_def)
qed

section \<open>The loops\<close>

lemma size_loop_linked:
  "linked s (ys @ [l]) \<Longrightarrow> l \<notin> set ys \<Longrightarrow>
   size_loop s l (hd (ys @ [l])) n = Some (n + of_nat (length ys))"
proof (induction ys arbitrary: n)
  case Nil
  then show ?case by (simp add: size_loop.simps enet_list_end_def)
next
  case (Cons y ys)
  then have "linked s (ys @ [l])" "next_of (s y) = hd (ys @ [l])" by (cases ys; auto)+
  with Cons show ?case
    by (subst size_loop.simps) (simp add: enet_list_end_def enet_list_next_def ac_simps)
qed

lemma enet_list_size_is_list:
  assumes "is_list s l xs"
  shows "enet_list_size s l = Some (of_nat (length xs))"
proof -
  have "linked s (xs @ [l])" "next_of (s l) = hd (xs @ [l])" "l \<notin> set xs"
    using assms by (cases xs; auto simp: is_list_def)+
  then show ?thesis
    using size_loop_linked [of s xs l 0] by (simp add: enet_list_size_def enet_list_begin_def)
qed

lemma is_list_begin: "is_list s l xs \<Longrightarrow> enet_list_begin s l = hd (xs @ [l])"
  by (cases xs) (auto simp: is_list_def enet_list_begin_def)

lemma is_list_empty_iff: "is_list s l xs \<Longrightarrow> enet_list_empty s l \<longleftrightarrow> xs = []"
  by (cases xs) (auto simp: enet_list_begin_def enet_list_empty_def enet_list_end_def is_list_def)

lemma is_list_back: "is_list s l xs \<Longrightarrow> enet_list_back s l = last (l # xs)"
  using linked_capped [of xs s l l] by (cases "xs = []") (auto simp: is_list_def enet_list_back_def)

lemma drain_loop_is_list:
  "is_list s l xs \<Longrightarrow> \<exists>s'. drain_loop s l freed = Some (freed @ xs, s') \<and> is_list s' l []"
proof (induction xs arbitrary: s freed)
  case Nil
  then show ?case by (subst drain_loop.simps) (simp add: is_list_empty_iff)
next
  case (Cons x xs)
  let ?s = "snd (enet_list_remove x s)"
  have "is_list ?s l xs" using is_list_remove [of s l "[]" x xs] Cons.prems by simp
  from Cons.IH [OF this, of "freed @ [x]"] obtain s' where
    "drain_loop ?s l (freed @ [x]) = Some (freed @ x # xs, s')" "is_list s' l []" by auto
  moreover have "drain_loop s l freed = drain_loop ?s l (freed @ [x])"
    using Cons.prems
    by (subst drain_loop.simps)
       (simp add: is_list_empty_iff is_list_begin enet_list_remove_def Let_def)
  ultimately show ?case by simp
qed

section \<open>The interface the queues of the library rely on\<close>

text \<open>A peer keeps its commands in such lists and uses them as queues: it inserts at the end and
  removes from the front.\<close>

locale sentinel_list =
  fixes rep :: "'s \<Rightarrow> 'a \<Rightarrow> 'a list \<Rightarrow> bool"
    and ins :: "'a \<Rightarrow> 'a \<Rightarrow> 's \<Rightarrow> 's"
    and rem :: "'a \<Rightarrow> 's \<Rightarrow> 's"
    and clr :: "'a \<Rightarrow> 's \<Rightarrow> 's"
  assumes rep_clear: "rep (clr l s) l []"
    and rep_insert: "rep s l (xs @ ys) \<Longrightarrow> d \<notin> set (l # xs @ ys) \<Longrightarrow>
      rep (ins (hd (ys @ [l])) d s) l (xs @ d # ys)"
    and rep_remove: "rep s l (xs @ d # ys) \<Longrightarrow> rep (rem d s) l (xs @ ys)"
begin

lemma rep_push_back: "rep s l xs \<Longrightarrow> d \<notin> set (l # xs) \<Longrightarrow> rep (ins l d s) l (xs @ [d])"
  using rep_insert [of s l xs "[]" d] by simp

lemma rep_push_front:
  "rep s l xs \<Longrightarrow> d \<notin> set (l # xs) \<Longrightarrow> rep (ins (hd (xs @ [l])) d s) l (d # xs)"
  using rep_insert [of s l "[]" xs d] by simp

lemma rep_pop_front: "rep s l (x # xs) \<Longrightarrow> rep (rem x s) l xs"
  using rep_remove [of s l "[]" x xs] by simp

lemma rep_push_all:
  "rep s l xs \<Longrightarrow> distinct (xs @ ds) \<Longrightarrow> l \<notin> set (xs @ ds) \<Longrightarrow> rep (fold (ins l) ds s) l (xs @ ds)"
proof (induction ds arbitrary: s xs)
  case (Cons d ds)
  have "rep (ins l d s) l (xs @ [d])" using Cons.prems by (intro rep_push_back) auto
  from Cons.IH [OF this] Cons.prems show ?case by auto
qed simp

lemma rep_pop_all: "rep s l (ds @ xs) \<Longrightarrow> rep (fold rem ds s) l xs"
  by (induction ds arbitrary: s) (auto dest: rep_pop_front)

lemma fifo:
  assumes "distinct ds" "l \<notin> set ds"
  shows "rep (fold rem (take k ds) (fold (ins l) ds (clr l s))) l (drop k ds)"
  using rep_push_all [OF rep_clear, of ds l] assms
  by (intro rep_pop_all) (simp add: append_take_drop_id)

end

interpretation el: sentinel_list is_list
  "\<lambda>position data s. snd (enet_list_insert position data s)"
  "\<lambda>position s. snd (enet_list_remove position s)" enet_list_clear
  by unfold_locales (simp_all add: is_list_clear is_list_insert is_list_remove)

section \<open>Properties\<close>



text \<open>\<^verbatim>\<open>enet_list_move\<close> splices a whole segment of one list in front of a position of
  another list: the segment keeps its order, both lists stay well formed.\<close>

theorem enet_list_move_refines:
  assumes "is_list s l1 (xs @ ms @ ys)" and "is_list s l2 (us @ vs)" and "ms \<noteq> []"
    and "position = hd (vs @ [l2])" and "set (l1 # xs @ ms @ ys) \<inter> set (l2 # us @ vs) = {}"
  shows "case enet_list_move position (hd ms) (last ms) s of (first, s') \<Rightarrow>
    first = hd ms \<and> is_list s' l1 (xs @ ys) \<and> is_list s' l2 (us @ ms @ vs)"
  using is_list_move [OF assms] by (simp add: enet_list_move_def Let_def)

theorem enet_list_move_refines_witness:
  "let s = (\<lambda>a. \<lparr>next_of = (if a = 0 then 1 else if a = 1 then 2 else if a = 2 then 0 else 7),
                 previous_of = (if a = 0 then 2 else if a = 1 then 0 else if a = 2 then 1 else 7)\<rparr>)
   in case enet_list_move 7 1 2 s of (first, s') \<Rightarrow>
        first = 1 \<and> is_list s' 0 [] \<and> is_list s' 7 [1, 2]"
  using enet_list_move_refines [of "\<lambda>a. \<lparr>next_of = (if a = 0 then 1 else if a = 1 then 2 else if a = 2 then 0 else 7),
      previous_of = (if a = 0 then 2 else if a = 1 then 0 else if a = 2 then 1 else 7)\<rparr>"
      0 "[]" "[1, 2]" "[]" 7 "[]" "[]" 7]
  by (simp add: is_list_def)

text \<open>The lists work as queues: nodes pushed at the end of a cleared list come out
  of the loop that removes the front node until the list is empty in the order they went in, the
  loop stops, and the size loop stops with the number of nodes.\<close>

theorem enet_list_fifo:
  assumes "distinct ds" and "l \<notin> set ds"
  shows "let s = fold (\<lambda>d s. snd (enet_list_insert (enet_list_end s l) d s)) ds (enet_list_clear l s0)
    in enet_list_size s l = Some (of_nat (length ds)) \<and>
       (\<exists>s'. drain_loop s l [] = Some (ds, s') \<and> enet_list_empty s' l)"
proof -
  let ?s = "fold (\<lambda>d s. snd (enet_list_insert l d s)) ds (enet_list_clear l s0)"
  have "is_list ?s l ds" using el.fifo [OF assms, of 0] by simp
  then show ?thesis
    using enet_list_size_is_list drain_loop_is_list [of ?s l ds "[]"]
    by (auto simp: enet_list_end_def is_list_empty_iff Let_def)
qed

theorem enet_list_fifo_witness:
  "let s = fold (\<lambda>d s. snd (enet_list_insert (enet_list_end s 0) d s)) [3, 1, 2]
         (enet_list_clear 0 (\<lambda>_. \<lparr>next_of = 0, previous_of = 0\<rparr>))
    in enet_list_size s 0 = Some (of_nat (length [3::nat, 1, 2])) \<and>
       (\<exists>s'. drain_loop s 0 [] = Some ([3, 1, 2], s') \<and> enet_list_empty s' 0)"
  by (rule enet_list_fifo) simp_all

end
