(* ===== verification/EnetPacket.thy ===== *)
theory EnetPacket
  imports EnetBase
begin

text \<open>
  Packets and their life time (\<^verbatim>\<open>enet/packet.cpp\<close>), on an explicit heap, and the CRC32 of the
  same file.

  The heap holds the packets by address.  \<^verbatim>\<open>enet_malloc\<close> may fail: \<open>mallocFails\<close> says which
  calls do (any function), so every out of memory branch of the code is a branch here.  Fresh
  memory holds arbitrary bytes (\<open>junk\<close>).  The user's free callback is an address that destroying
  a packet logs.
\<close>

section \<open>Packets and the heap\<close>

record ENetPacket =
  pk_referenceCount :: size_t
  pk_flags :: u32
  pk_data :: "u8 list option"
  pk_dataLength :: size_t
  pk_freeCallback :: "nat option"
  pk_userData :: nat

record heap =
  hp_packets :: "nat \<Rightarrow> ENetPacket option"
  hp_next :: nat
  hp_mallocFails :: "nat \<Rightarrow> bool"
  hp_mallocs :: nat
  hp_junk :: "nat \<Rightarrow> u8"
  hp_callbacks :: "(nat \<times> nat) list"

text \<open>One allocation: whether it succeeded (a non-NULL pointer), and the heap.\<close>

definition enet_malloc :: "heap \<Rightarrow> bool \<times> heap" where
  "enet_malloc hp = (\<not> hp_mallocFails hp (hp_mallocs hp), hp\<lparr>hp_mallocs := Suc (hp_mallocs hp)\<rparr>)"

definition deref_packet :: "heap \<Rightarrow> nat \<Rightarrow> ENetPacket" where
  "deref_packet hp p = the (hp_packets hp p)"

definition update_packet :: "nat \<Rightarrow> (ENetPacket \<Rightarrow> ENetPacket) \<Rightarrow> heap \<Rightarrow> heap" where
  "update_packet p f hp = hp\<lparr>hp_packets := (hp_packets hp)(p := map_option f (hp_packets hp p))\<rparr>"

text \<open>\<open>n\<close> bytes copied from \<open>src\<close> into fresh memory of \<open>size\<close> bytes; what \<open>src\<close> does not cover
  stays arbitrary.\<close>

definition fresh_copy :: "heap \<Rightarrow> nat \<Rightarrow> u8 list \<Rightarrow> nat \<Rightarrow> u8 list" where
  "fresh_copy hp sz src n =
     map (\<lambda>i. if i < n \<and> i < length src then src ! i else hp_junk hp i) [0..<sz]"

definition insert_packet :: "heap \<Rightarrow> u8 list option \<Rightarrow> size_t \<Rightarrow> u32 \<Rightarrow> nat option \<times> heap" where
  "insert_packet hp data dataLength flags =
     (Some (hp_next hp),
      hp\<lparr>hp_packets := (hp_packets hp)(hp_next hp \<mapsto>
            \<lparr>pk_referenceCount = 0, pk_flags = flags, pk_data = data, pk_dataLength = dataLength,
             pk_freeCallback = None, pk_userData = 0\<rparr>),
          hp_next := Suc (hp_next hp)\<rparr>)"

definition enet_packet_create :: "heap \<Rightarrow> u8 list option \<Rightarrow> size_t \<Rightarrow> u32 \<Rightarrow> nat option \<times> heap" where
  "enet_packet_create hp data dataLength flags =
     (case enet_malloc hp of (ok, hp) \<Rightarrow>
        if \<not> ok then (None, hp)
        else if flags AND ENET_PACKET_FLAG_NO_ALLOCATE \<noteq> 0 then insert_packet hp data dataLength flags
        else if dataLength \<le> 0 then insert_packet hp None dataLength flags
        else case enet_malloc hp of (ok, hp) \<Rightarrow>
          if \<not> ok then (None, hp)
          else insert_packet hp
                 (Some (case data of
                    None \<Rightarrow> fresh_copy hp (unat dataLength) [] 0
                  | Some d \<Rightarrow> fresh_copy hp (unat dataLength) d (unat dataLength)))
                 dataLength flags)"

text \<open>The callback runs first, then the data (unless it is the caller's) and the packet are
  freed.\<close>

definition enet_packet_destroy :: "nat option \<Rightarrow> heap \<Rightarrow> heap" where
  "enet_packet_destroy packet hp =
     (case packet of
        None \<Rightarrow> hp
      | Some p \<Rightarrow>
          let hp = (case pk_freeCallback (deref_packet hp p) of
                      None \<Rightarrow> hp
                    | Some callback \<Rightarrow> hp\<lparr>hp_callbacks := hp_callbacks hp @ [(callback, p)]\<rparr>)
          in hp\<lparr>hp_packets := (hp_packets hp)(p := None)\<rparr>)"

definition enet_packet_resize :: "nat \<Rightarrow> size_t \<Rightarrow> heap \<Rightarrow> int \<times> heap" where
  "enet_packet_resize p dataLength hp =
     (let packet = deref_packet hp p in
      if dataLength \<le> pk_dataLength packet \<or> pk_flags packet AND ENET_PACKET_FLAG_NO_ALLOCATE \<noteq> 0
      then (0, update_packet p (pk_dataLength_update (\<lambda>_. dataLength)) hp)
      else case enet_malloc hp of (ok, hp) \<Rightarrow>
        if \<not> ok then (-1, hp)
        else
          let newData = fresh_copy hp (unat dataLength)
                (case pk_data packet of None \<Rightarrow> [] | Some d \<Rightarrow> d) (unat (pk_dataLength packet))
          in (0, update_packet p (\<lambda>k. k\<lparr>pk_data := Some newData, pk_dataLength := dataLength\<rparr>) hp))"

text \<open>The reference count idiom of the callers: a command takes a packet, and drops it again,
  destroying it with the last reference.\<close>

definition packet_ref :: "nat \<Rightarrow> heap \<Rightarrow> heap" where
  "packet_ref p = update_packet p (\<lambda>k. k\<lparr>pk_referenceCount := pk_referenceCount k + 1\<rparr>)"

definition packet_unref :: "nat \<Rightarrow> heap \<Rightarrow> heap" where
  "packet_unref p hp =
     (let hp = update_packet p (\<lambda>k. k\<lparr>pk_referenceCount := pk_referenceCount k - 1\<rparr>) hp
      in if pk_referenceCount (deref_packet hp p) = 0 then enet_packet_destroy (Some p) hp else hp)"

text \<open>The bytes the packet presents: the first \<open>dataLength\<close> of its data.\<close>

definition packet_bytes :: "heap \<Rightarrow> nat \<Rightarrow> u8 list" where
  "packet_bytes hp p =
     (let k = deref_packet hp p
      in take (unat (pk_dataLength k)) (case pk_data k of None \<Rightarrow> [] | Some d \<Rightarrow> d))"

lemma update_packet_packets [simp]:
  "hp_packets (update_packet p f hp) =
     (hp_packets hp)(p := map_option f (hp_packets hp p))"
  by (simp add: update_packet_def)

lemma deref_update_packet:
  "hp_packets hp p \<noteq> None \<Longrightarrow> deref_packet (update_packet p f hp) p = f (deref_packet hp p)"
  by (auto simp: deref_packet_def)

lemma hp_malloc [simp]:
  "hp_packets (snd (enet_malloc hp)) = hp_packets hp" "hp_next (snd (enet_malloc hp)) = hp_next hp"
  "hp_junk (snd (enet_malloc hp)) = hp_junk hp"
  by (simp_all add: enet_malloc_def)

lemma length_fresh_copy [simp]: "length (fresh_copy hp sz src n) = sz"
  by (simp add: fresh_copy_def)

lemma fresh_copy_full: "sz \<le> n \<Longrightarrow> sz \<le> length src \<Longrightarrow> fresh_copy hp sz src n = take sz src"
  by (rule nth_equalityI) (auto simp: fresh_copy_def)

lemma take_fresh_copy:
  "m \<le> n \<Longrightarrow> m \<le> sz \<Longrightarrow> m \<le> length src \<Longrightarrow> take m (fresh_copy hp sz src n) = take m src"
  by (rule nth_equalityI) (auto simp: fresh_copy_def)

text \<open>The reference count idiom in one equation, on a packet that is alive.\<close>

lemma packet_unref_packets:
  assumes "hp_packets hp p = Some k"
  shows "hp_packets (packet_unref p hp) =
    (hp_packets hp)(p := if pk_referenceCount k = 1 then None
       else Some (k\<lparr>pk_referenceCount := pk_referenceCount k - 1\<rparr>))"
  using assms
  by (auto simp: packet_unref_def Let_def deref_packet_def enet_packet_destroy_def
      split: option.splits)

lemma packet_unref_other [simp]: "q \<noteq> p \<Longrightarrow> hp_packets (packet_unref p hp) q = hp_packets hp q"
  by (auto simp: packet_unref_def Let_def enet_packet_destroy_def split: option.splits)

lemma packet_ref_packets:
  "hp_packets hp p = Some k \<Longrightarrow>
   hp_packets (packet_ref p hp) = (hp_packets hp)(p \<mapsto> k\<lparr>pk_referenceCount := pk_referenceCount k + 1\<rparr>)"
  by (simp add: packet_ref_def)

section \<open>CRC32\<close>

text \<open>\<^verbatim>\<open>reflect_crc\<close> works on \<^verbatim>\<open>int\<close>: the value is shifted right arithmetically.\<close>

definition reflect_step :: "nat \<Rightarrow> nat \<Rightarrow> u32 \<times> u32 \<Rightarrow> u32 \<times> u32" where
  "reflect_step bits b = (\<lambda>(result, val).
     (if val AND 1 \<noteq> 0 then result OR push_bit (bits - 1 - b) 1 else result,
      signed_drop_bit 1 val))"

definition reflect_crc :: "u32 \<Rightarrow> nat \<Rightarrow> u32" where
  "reflect_crc val bits = fst (fold (reflect_step bits) [0..<bits] (0, val))"

definition crc_step :: "u32 \<Rightarrow> u32" where
  "crc_step crc =
     (if crc AND 0x80000000 \<noteq> 0 then push_bit 1 crc XOR 0x04c11db7 else push_bit 1 crc)"

definition initialize_crc32 :: "u32 list" where
  "initialize_crc32 =
     map (\<lambda>b. let crc = push_bit 24 (reflect_crc (of_nat b) 8);
                 crc = (crc_step ^^ 8) crc
             in reflect_crc crc 32) [0..<256]"

definition enet_crc32 :: "u8 list list \<Rightarrow> u32" where
  "enet_crc32 buffers =
     (let crcTable = initialize_crc32;
          crc = fold (\<lambda>data crc.
            fold (\<lambda>byte crc. drop_bit 8 crc XOR crcTable ! unat ((crc AND 0xFF) XOR ucast byte))
              data crc) buffers 0xFFFFFFFF
      in ENET_HOST_TO_NET_32 (NOT crc))"

text \<open>The reference: the reflected CRC32, one bit at a time.\<close>

definition crc32_bit :: "u32 \<Rightarrow> u32" where
  "crc32_bit c = (if bit c 0 then drop_bit 1 c XOR 0xEDB88320 else drop_bit 1 c)"

definition crc32_byte :: "u8 \<Rightarrow> u32 \<Rightarrow> u32" where
  "crc32_byte b c = (crc32_bit ^^ 8) (c XOR ucast b)"

definition crc32_reference :: "u8 list \<Rightarrow> u32" where
  "crc32_reference bs = NOT (fold crc32_byte bs 0xFFFFFFFF)"

lemma word_and_1_neq_0: "(v::u32) AND 1 \<noteq> 0 \<longleftrightarrow> bit v 0"
  by (simp add: and_one_eq mod2_eq_if bit_0)

lemma reflect_fold:
  "k \<le> 32 \<Longrightarrow>
   bit (fst (fold (reflect_step bits) [0..<k] (0, val))) n \<longleftrightarrow>
     (\<exists>j<k. n = bits - 1 - j \<and> n < 32 \<and> bit val j)"
  "k \<le> 32 \<Longrightarrow> n + k < 32 \<Longrightarrow>
   bit (snd (fold (reflect_step bits) [0..<k] (0, val))) n \<longleftrightarrow> bit val (n + k)"
proof (induction k arbitrary: n)
  case 0
  { case 1 then show ?case by simp }
  { case 2 then show ?case by simp }
next
  case (Suc k)
  obtain r v where rv: "fold (reflect_step bits) [0..<k] (0, val) = (r, v)"
    by fastforce
  have s: "fold (reflect_step bits) [0..<Suc k] (0, val) = reflect_step bits k (r, v)"
    using rv by simp
  { case 1
    then have v: "v AND 1 \<noteq> 0 \<longleftrightarrow> bit val k" using Suc.IH(2) [of 0] rv
      by (simp add: word_and_1_neq_0)
    have r: "bit r n \<longleftrightarrow> (\<exists>j<k. n = bits - 1 - j \<and> n < 32 \<and> bit val j)"
      using 1 Suc.IH(1) [of n] rv by simp
    show ?case unfolding s
      by (auto simp: reflect_step_def v r bit_simps less_Suc_eq) }
  { case 2
    then have "bit v (Suc n) \<longleftrightarrow> bit val (Suc n + k)" using Suc.IH(2) [of "Suc n"] rv by simp
    then show ?case using 2 unfolding s
      by (auto simp: reflect_step_def bit_signed_drop_bit_iff) }
qed

lemma bit_reflect_crc:
  "bits \<le> 32 \<Longrightarrow> bit (reflect_crc val bits) n \<longleftrightarrow> n < bits \<and> bit val (bits - 1 - n)"
  using reflect_fold(1) [of bits bits val n] unfolding reflect_crc_def
  by (auto intro!: exI [of _ "bits - 1 - n"])

text \<open>Reflecting turns the left shifting step of the code into the reference's right shifting
  one.\<close>

lemma crc_step_alt: "crc_step c = (if bit c 31 then push_bit 1 c XOR 0x04c11db7 else push_bit 1 c)"
proof -
  have "c AND 0x80000000 = (if bit c 31 then 0x80000000 else 0)"
  proof -
    have eq: "(0x80000000 :: u32) = 2 ^ 31" by simp
    have "bit (0x80000000 :: u32) n \<longleftrightarrow> n = 31" if "n < 32" for n
      using that by (subst eq, subst bit_exp_iff) auto
    then show ?thesis by (auto intro!: bit_word_eqI simp: bit_and_iff)
  qed
  then show ?thesis by (simp add: crc_step_def)
qed

lemma reflect_crc_xor: "reflect_crc (a XOR b) 32 = reflect_crc a 32 XOR reflect_crc b 32"
  by (rule bit_word_eqI) (auto simp: bit_reflect_crc bit_simps)

lemma reflect_crc_step: "reflect_crc (crc_step c) 32 = crc32_bit (reflect_crc c 32)"
proof -
  have "reflect_crc 0x04c11db7 32 = 0xEDB88320" by code_simp
  moreover have "reflect_crc (push_bit 1 c) 32 = drop_bit 1 (reflect_crc c 32)"
    by (rule bit_word_eqI) (auto simp: bit_reflect_crc bit_simps mult.commute [of c 2] bit_double_iff)
  moreover have "bit (reflect_crc c 32) 0 \<longleftrightarrow> bit c 31" by (simp add: bit_reflect_crc)
  ultimately show ?thesis by (simp add: crc_step_alt crc32_bit_def reflect_crc_xor)
qed

lemma reflect_crc_steps: "reflect_crc ((crc_step ^^ k) c) 32 = (crc32_bit ^^ k) (reflect_crc c 32)"
  by (induction k) (simp_all add: reflect_crc_step)

lemma crc_table_entry:
  assumes "b < 256"
  shows "initialize_crc32 ! b = (crc32_bit ^^ 8) (of_nat b)"
proof -
  have "take_bit 8 b = b" using assms by (simp add: take_bit_nat_eq_self)
  then have n8: "n < 8" if "bit b n" for n
    using that by (metis bit_take_bit_iff)
  have "reflect_crc (push_bit 24 (reflect_crc (of_nat b) 8)) 32 = of_nat b"
  proof (rule bit_word_eqI)
    fix n :: nat
    assume "n < LENGTH(32)"
    then show "bit (reflect_crc (push_bit 24 (reflect_crc (of_nat b) 8)) 32) n = bit (of_nat b :: u32) n"
      by (cases "n < 8") (auto simp: bit_reflect_crc bit_simps dest: n8)
  qed
  then show ?thesis using assms by (simp add: initialize_crc32_def reflect_crc_steps)
qed

text \<open>Linearity of the bit step gives the table step.\<close>

lemma crc32_bit_xor: "crc32_bit (a XOR b) = crc32_bit a XOR crc32_bit b"
  by (auto simp: crc32_bit_def bit_simps ac_simps)

lemma crc32_bits_xor: "(crc32_bit ^^ k) (a XOR b) = (crc32_bit ^^ k) a XOR (crc32_bit ^^ k) b"
  by (induction k) (simp_all add: crc32_bit_xor)

lemma crc32_bits_high:
  "(\<And>n. n < k \<Longrightarrow> \<not> bit a n) \<Longrightarrow> (crc32_bit ^^ k) a = drop_bit k a"
proof (induction k arbitrary: a)
  case (Suc k)
  have "crc32_bit a = drop_bit 1 a" using Suc.prems [of 0] by (simp add: crc32_bit_def)
  then show ?case using Suc.IH [of "drop_bit 1 a"] Suc.prems
    by (simp add: funpow_Suc_right bit_drop_bit_eq del: funpow.simps)
qed simp

lemma crc32_table_step:
  "drop_bit 8 c XOR initialize_crc32 ! unat ((c AND 0xFF) XOR ucast b) = crc32_byte b c"
proof -
  let ?x = "c XOR ucast b" and ?m = "0xFF :: u32"
  have m: "?m = mask 8" by (simp add: mask_numeral)
  have lo: "(c AND ?m) XOR ucast b = take_bit 8 ?x"
    by (rule bit_word_eqI) (auto simp: m bit_simps dest: bit_imp_le_length)
  have hi: "drop_bit 8 (?x XOR take_bit 8 ?x) = drop_bit 8 c"
    by (rule bit_word_eqI) (auto simp: bit_simps dest: bit_imp_le_length)
  have "?x = (?x XOR t) XOR t" for t by (simp add: xor.assoc)
  then have "(crc32_bit ^^ 8) ?x =
      (crc32_bit ^^ 8) (?x XOR take_bit 8 ?x) XOR (crc32_bit ^^ 8) (take_bit 8 ?x)"
    by (metis (no_types) crc32_bits_xor)
  also have "(crc32_bit ^^ 8) (?x XOR take_bit 8 ?x) = drop_bit 8 c"
  proof -
    have "\<not> bit (?x XOR take_bit 8 ?x) n" if "n < 8" for n using that by (auto simp: bit_simps)
    from crc32_bits_high [OF this, of 8] hi show ?thesis by (simp only:)
  qed
  also have "(crc32_bit ^^ 8) (take_bit 8 ?x) = initialize_crc32 ! unat (take_bit 8 ?x)"
  proof -
    have "unat (take_bit 8 ?x) < 256"
      using take_bit_nat_less_exp [of 8 "unat ?x"]
      by (simp only: unsigned_take_bit_eq) simp
    then show ?thesis by (simp add: crc_table_entry)
  qed
  finally show ?thesis by (simp add: crc32_byte_def lo)
qed

lemma crc32_fold_buffers:
  "fold (fold crc32_byte) bufs c = fold crc32_byte (concat bufs) c"
  by (induction bufs arbitrary: c) simp_all

section \<open>Properties\<close>

text \<open>Property C2.  The table driven checksum of \<^verbatim>\<open>enet_crc32\<close>, with the table that
  \<^verbatim>\<open>initialize_crc32\<close> builds by reflecting and left shifting, is the standard reflected CRC32
  (polynomial 0xEDB88320, one bit at a time) of the concatenated buffers, in network byte order.
  In particular it does not depend on how the data is cut into buffers.\<close>

theorem enet_crc32_is_crc32:
  "enet_crc32 buffers = ENET_HOST_TO_NET_32 (crc32_reference (concat buffers))"
  by (simp only: enet_crc32_def crc32_reference_def Let_def crc32_table_step crc32_fold_buffers)

text \<open>The reference is the usual CRC32: its check value on the digits 1 to 9.\<close>

lemma crc32_byte_unfold:
  "crc32_byte b c = crc32_bit (crc32_bit (crc32_bit (crc32_bit
     (crc32_bit (crc32_bit (crc32_bit (crc32_bit (c XOR ucast b))))))))"
  by (simp add: crc32_byte_def eval_nat_numeral)

lemma crc32_check_value:
  "crc32_reference [0x31, 0x32, 0x33, 0x34, 0x35, 0x36, 0x37, 0x38, 0x39] = 0xCBF43926"
  by (simp add: crc32_byte_unfold crc32_bit_def crc32_reference_def)

text \<open>Creating a packet, with memory available, gives a fresh address with reference
  count 0, the flags and the length asked for, and a copy of the caller's bytes; every other packet
  is untouched.\<close>

theorem enet_packet_create_ok:
  assumes "\<not> hp_mallocFails hp (hp_mallocs hp)" and "\<not> hp_mallocFails hp (Suc (hp_mallocs hp))"
    and "hp_packets hp (hp_next hp) = None" and "unat dataLength \<le> length d"
  shows "case enet_packet_create hp (Some d) dataLength flags of (result, hp') \<Rightarrow>
    result = Some (hp_next hp) \<and> packet_bytes hp' (hp_next hp) = take (unat dataLength) d \<and>
    pk_referenceCount (deref_packet hp' (hp_next hp)) = 0 \<and>
    pk_flags (deref_packet hp' (hp_next hp)) = flags \<and>
    pk_dataLength (deref_packet hp' (hp_next hp)) = dataLength \<and>
    (\<forall>q. q \<noteq> hp_next hp \<longrightarrow> hp_packets hp' q = hp_packets hp q)"
  using assms
  by (auto simp: enet_packet_create_def enet_malloc_def insert_packet_def deref_packet_def
      packet_bytes_def fresh_copy_full)

theorem enet_packet_create_ok_witness:
  "case enet_packet_create \<lparr>hp_packets = Map.empty, hp_next = 3, hp_mallocFails = (\<lambda>_. False),
      hp_mallocs = 0, hp_junk = (\<lambda>_. 0xCC), hp_callbacks = []\<rparr> (Some [1, 2, 3]) 2 1 of
    (result, hp') \<Rightarrow> result = Some 3 \<and> packet_bytes hp' 3 = [1, 2]"
  using enet_packet_create_ok [of "\<lparr>hp_packets = Map.empty, hp_next = 3,
      hp_mallocFails = (\<lambda>_. False), hp_mallocs = 0, hp_junk = (\<lambda>_. 0xCC), hp_callbacks = []\<rparr>"
      2 "[1, 2, 3]" 1]
  by (auto split: prod.splits)

text \<open>Resizing keeps the bytes both lengths have in common, sets the new length and
  answers 0, or, when the packet has to grow and memory is exhausted, answers -1 and changes no
  packet.\<close>

theorem enet_packet_resize_bytes:
  assumes "hp_packets hp p = Some k" and "pk_data k = Some d" and "unat (pk_dataLength k) \<le> length d"
    and "pk_flags k AND ENET_PACKET_FLAG_NO_ALLOCATE = 0"
  shows "case enet_packet_resize p n hp of (result, hp') \<Rightarrow>
    (result = 0 \<and> pk_dataLength (deref_packet hp' p) = n \<and>
       length (packet_bytes hp' p) = unat n \<and>
       take (unat (min n (pk_dataLength k))) (packet_bytes hp' p) =
         take (unat (min n (pk_dataLength k))) d) \<or>
    (result = -1 \<and> n > pk_dataLength k \<and> hp_mallocFails hp (hp_mallocs hp) \<and>
       hp_packets hp' = hp_packets hp)"
proof (cases "n \<le> pk_dataLength k")
  case True
  then have "unat n \<le> length d" using assms(3) by (simp add: word_le_nat_alt)
  with True assms show ?thesis
    by (simp add: enet_packet_resize_def deref_packet_def packet_bytes_def Let_def min_absorb1)
next
  case False
  then have "unat (pk_dataLength k) \<le> unat n" by (simp add: word_le_nat_alt)
  with False assms show ?thesis
    by (auto simp: enet_packet_resize_def deref_packet_def packet_bytes_def Let_def enet_malloc_def
        take_fresh_copy min_absorb2)
qed

theorem enet_packet_resize_bytes_witness:
  "case enet_packet_resize 3 5 \<lparr>hp_packets = [3 \<mapsto> \<lparr>pk_referenceCount = 0, pk_flags = 1,
      pk_data = Some [7, 8], pk_dataLength = 2, pk_freeCallback = None, pk_userData = 0\<rparr>],
      hp_next = 4, hp_mallocFails = (\<lambda>_. False), hp_mallocs = 2, hp_junk = (\<lambda>_. 0xCC),
      hp_callbacks = []\<rparr> of (result, hp') \<Rightarrow> result = 0 \<and> take 2 (packet_bytes hp' 3) = [7, 8]"
  using enet_packet_resize_bytes [of "\<lparr>hp_packets = [3 \<mapsto> \<lparr>pk_referenceCount = 0, pk_flags = 1,
      pk_data = Some [7, 8], pk_dataLength = 2, pk_freeCallback = None, pk_userData = 0\<rparr>],
      hp_next = 4, hp_mallocFails = (\<lambda>_. False), hp_mallocs = 2, hp_junk = (\<lambda>_. 0xCC),
      hp_callbacks = []\<rparr>" 3 "\<lparr>pk_referenceCount = 0, pk_flags = 1,
      pk_data = Some [7, 8], pk_dataLength = 2, pk_freeCallback = None, pk_userData = 0\<rparr>" "[7, 8]" 5]
  by (auto split: prod.splits)

end
