(* ===== verification/EnetCommand.thy ===== *)
theory EnetCommand
  imports EnetBase
begin

text \<open>
  The commands of the protocol (\<^verbatim>\<open>enet/include/enet/protocol.h\<close>) and their memory image.

  The C union \<^verbatim>\<open>ENetProtocol\<close> is a header and one variant of \<open>ENetProtocolBody\<close>.  As in the
  code, the fields hold the bits as they lie in the packed struct: multi byte integers are in
  network byte order except \<^verbatim>\<open>connectID\<close>, and the code converts at each access.  The bytes of a
  command are the concatenated memory images of its fields.
\<close>

section \<open>The structs\<close>

record ENetProtocolCommandHeader =
  hd_command :: u8
  hd_channelID :: u8
  hd_reliableSequenceNumber :: u16

record ENetProtocolConnect =
  co_outgoingPeerID :: u16
  co_incomingSessionID :: u8
  co_outgoingSessionID :: u8
  co_mtu :: u32
  co_windowSize :: u32
  co_channelCount :: u32
  co_incomingBandwidth :: u32
  co_outgoingBandwidth :: u32
  co_packetThrottleInterval :: u32
  co_packetThrottleAcceleration :: u32
  co_packetThrottleDeceleration :: u32
  co_connectID :: u32
  co_data :: u32

record ENetProtocolVerifyConnect =
  vc_outgoingPeerID :: u16
  vc_incomingSessionID :: u8
  vc_outgoingSessionID :: u8
  vc_mtu :: u32
  vc_windowSize :: u32
  vc_channelCount :: u32
  vc_incomingBandwidth :: u32
  vc_outgoingBandwidth :: u32
  vc_packetThrottleInterval :: u32
  vc_packetThrottleAcceleration :: u32
  vc_packetThrottleDeceleration :: u32
  vc_connectID :: u32

record ENetProtocolSendFragment =
  sf_startSequenceNumber :: u16
  sf_dataLength :: u16
  sf_fragmentCount :: u32
  sf_fragmentNumber :: u32
  sf_totalLength :: u32
  sf_fragmentOffset :: u32

datatype ENetProtocolBody =
    Acknowledge (ack_receivedReliableSequenceNumber: u16) (ack_receivedSentTime: u16)
  | Connect (connect_body: ENetProtocolConnect)
  | VerifyConnect (verify_body: ENetProtocolVerifyConnect)
  | Disconnect (disconnect_data: u32)
  | Ping
  | SendReliable (sendReliable_dataLength: u16)
  | SendUnreliable (unreliable_sequence: u16) (sendUnreliable_dataLength: u16)
  | SendUnsequenced (sendUnsequenced_group: u16) (sendUnsequenced_dataLength: u16)
  | SendFragment (fragment_body: ENetProtocolSendFragment)
  | BandwidthLimit (limit_incomingBandwidth: u32) (limit_outgoingBandwidth: u32)
  | ThrottleConfigure (throttle_interval: u32) (throttle_acceleration: u32)
      (throttle_deceleration: u32)

record ENetProtocol =
  pr_header :: ENetProtocolCommandHeader
  pr_body :: ENetProtocolBody

abbreviation command_of :: "ENetProtocol \<Rightarrow> u8" where
  "command_of c \<equiv> hd_command (pr_header c)"
abbreviation channel_of :: "ENetProtocol \<Rightarrow> u8" where
  "channel_of c \<equiv> hd_channelID (pr_header c)"
abbreviation number_of :: "ENetProtocol \<Rightarrow> u8" where
  "number_of c \<equiv> command_of c AND ENET_PROTOCOL_COMMAND_MASK"

definition make_command :: "u8 \<Rightarrow> u8 \<Rightarrow> ENetProtocolBody \<Rightarrow> ENetProtocol" where
  "make_command command channelID body =
     \<lparr>pr_header = \<lparr>hd_command = command, hd_channelID = channelID, hd_reliableSequenceNumber = 0\<rparr>,
      pr_body = body\<rparr>"

text \<open>\<^verbatim>\<open>command -> sendUnreliable.unreliableSequenceNumber\<close> as the union gives it: the 16 bits after
  the header.  \<^verbatim>\<open>enet_peer_queue_incoming_command\<close> reads it of fragments too, where these bits are
  \<^verbatim>\<open>startSequenceNumber\<close>.\<close>

definition sendUnreliable_unreliableSequenceNumber :: "ENetProtocolBody \<Rightarrow> u16" where
  "sendUnreliable_unreliableSequenceNumber body =
     (case body of
        SendUnreliable u _ \<Rightarrow> u
      | SendFragment f \<Rightarrow> sf_startSequenceNumber f
      | SendUnsequenced g _ \<Rightarrow> g
      | SendReliable l \<Rightarrow> l
      | Acknowledge s _ \<Rightarrow> s
      | Connect c \<Rightarrow> co_outgoingPeerID c
      | VerifyConnect v \<Rightarrow> vc_outgoingPeerID v
      | Disconnect d \<Rightarrow> ucast d
      | BandwidthLimit i _ \<Rightarrow> ucast i
      | ThrottleConfigure i _ _ \<Rightarrow> ucast i
      | Ping \<Rightarrow> 0)"

section \<open>Sizes\<close>

text \<open>\<^verbatim>\<open>commandSizes\<close>: the packed struct sizes by command number, and 0 for no command.\<close>

definition commandSizes :: "nat list" where
  "commandSizes = [0, 8, 48, 44, 8, 4, 6, 8, 24, 8, 12, 16, 24]"

definition enet_protocol_command_size :: "u8 \<Rightarrow> size_t" where
  "enet_protocol_command_size commandNumber =
     of_nat (commandSizes ! unat (commandNumber AND ENET_PROTOCOL_COMMAND_MASK))"

section \<open>The memory image\<close>

definition encode_header :: "ENetProtocolCommandHeader \<Rightarrow> u8 list" where
  "encode_header h = [hd_command h, hd_channelID h] @ bytes16 (hd_reliableSequenceNumber h)"

fun encode_body :: "ENetProtocolBody \<Rightarrow> u8 list" where
  "encode_body (Acknowledge s t) = bytes16 s @ bytes16 t"
| "encode_body (Connect c) =
     bytes16 (co_outgoingPeerID c) @ [co_incomingSessionID c, co_outgoingSessionID c] @
     bytes32 (co_mtu c) @ bytes32 (co_windowSize c) @ bytes32 (co_channelCount c) @
     bytes32 (co_incomingBandwidth c) @ bytes32 (co_outgoingBandwidth c) @
     bytes32 (co_packetThrottleInterval c) @ bytes32 (co_packetThrottleAcceleration c) @
     bytes32 (co_packetThrottleDeceleration c) @ bytes32 (co_connectID c) @ bytes32 (co_data c)"
| "encode_body (VerifyConnect v) =
     bytes16 (vc_outgoingPeerID v) @ [vc_incomingSessionID v, vc_outgoingSessionID v] @
     bytes32 (vc_mtu v) @ bytes32 (vc_windowSize v) @ bytes32 (vc_channelCount v) @
     bytes32 (vc_incomingBandwidth v) @ bytes32 (vc_outgoingBandwidth v) @
     bytes32 (vc_packetThrottleInterval v) @ bytes32 (vc_packetThrottleAcceleration v) @
     bytes32 (vc_packetThrottleDeceleration v) @ bytes32 (vc_connectID v)"
| "encode_body (Disconnect d) = bytes32 d"
| "encode_body Ping = []"
| "encode_body (SendReliable l) = bytes16 l"
| "encode_body (SendUnreliable s l) = bytes16 s @ bytes16 l"
| "encode_body (SendUnsequenced g l) = bytes16 g @ bytes16 l"
| "encode_body (SendFragment f) =
     bytes16 (sf_startSequenceNumber f) @ bytes16 (sf_dataLength f) @
     bytes32 (sf_fragmentCount f) @ bytes32 (sf_fragmentNumber f) @
     bytes32 (sf_totalLength f) @ bytes32 (sf_fragmentOffset f)"
| "encode_body (BandwidthLimit i out) = bytes32 i @ bytes32 out"
| "encode_body (ThrottleConfigure i a d) = bytes32 i @ bytes32 a @ bytes32 d"

definition encode_command :: "ENetProtocol \<Rightarrow> u8 list" where
  "encode_command c = encode_header (pr_header c) @ encode_body (pr_body c)"

text \<open>Reading the union at an offset of the received data: the variant is the one the command
  number selects.  Numbers 0 and 13 to 15 have no variant; the code rejects them before it reads
  a body.\<close>

definition decode_header :: "u8 list \<Rightarrow> nat \<Rightarrow> ENetProtocolCommandHeader" where
  "decode_header bs i = \<lparr>hd_command = bs ! i, hd_channelID = bs ! (i + 1),
     hd_reliableSequenceNumber = load16 bs (i + 2)\<rparr>"

definition decode_connect :: "u8 list \<Rightarrow> nat \<Rightarrow> ENetProtocolConnect" where
  "decode_connect bs i = \<lparr>co_outgoingPeerID = load16 bs i, co_incomingSessionID = bs ! (i + 2),
     co_outgoingSessionID = bs ! (i + 3), co_mtu = load32 bs (i + 4),
     co_windowSize = load32 bs (i + 8), co_channelCount = load32 bs (i + 12),
     co_incomingBandwidth = load32 bs (i + 16), co_outgoingBandwidth = load32 bs (i + 20),
     co_packetThrottleInterval = load32 bs (i + 24),
     co_packetThrottleAcceleration = load32 bs (i + 28),
     co_packetThrottleDeceleration = load32 bs (i + 32), co_connectID = load32 bs (i + 36),
     co_data = load32 bs (i + 40)\<rparr>"

definition decode_verify :: "u8 list \<Rightarrow> nat \<Rightarrow> ENetProtocolVerifyConnect" where
  "decode_verify bs i = \<lparr>vc_outgoingPeerID = load16 bs i, vc_incomingSessionID = bs ! (i + 2),
     vc_outgoingSessionID = bs ! (i + 3), vc_mtu = load32 bs (i + 4),
     vc_windowSize = load32 bs (i + 8), vc_channelCount = load32 bs (i + 12),
     vc_incomingBandwidth = load32 bs (i + 16), vc_outgoingBandwidth = load32 bs (i + 20),
     vc_packetThrottleInterval = load32 bs (i + 24),
     vc_packetThrottleAcceleration = load32 bs (i + 28),
     vc_packetThrottleDeceleration = load32 bs (i + 32), vc_connectID = load32 bs (i + 36)\<rparr>"

definition decode_fragment :: "u8 list \<Rightarrow> nat \<Rightarrow> ENetProtocolSendFragment" where
  "decode_fragment bs i = \<lparr>sf_startSequenceNumber = load16 bs i, sf_dataLength = load16 bs (i + 2),
     sf_fragmentCount = load32 bs (i + 4), sf_fragmentNumber = load32 bs (i + 8),
     sf_totalLength = load32 bs (i + 12), sf_fragmentOffset = load32 bs (i + 16)\<rparr>"

definition decode_body :: "u8 \<Rightarrow> u8 list \<Rightarrow> nat \<Rightarrow> ENetProtocolBody" where
  "decode_body commandNumber bs i =
     (if commandNumber = ENET_PROTOCOL_COMMAND_ACKNOWLEDGE
        then Acknowledge (load16 bs i) (load16 bs (i + 2))
      else if commandNumber = ENET_PROTOCOL_COMMAND_CONNECT then Connect (decode_connect bs i)
      else if commandNumber = ENET_PROTOCOL_COMMAND_VERIFY_CONNECT
        then VerifyConnect (decode_verify bs i)
      else if commandNumber = ENET_PROTOCOL_COMMAND_DISCONNECT then Disconnect (load32 bs i)
      else if commandNumber = ENET_PROTOCOL_COMMAND_SEND_RELIABLE then SendReliable (load16 bs i)
      else if commandNumber = ENET_PROTOCOL_COMMAND_SEND_UNRELIABLE
        then SendUnreliable (load16 bs i) (load16 bs (i + 2))
      else if commandNumber = ENET_PROTOCOL_COMMAND_SEND_FRAGMENT \<or>
              commandNumber = ENET_PROTOCOL_COMMAND_SEND_UNRELIABLE_FRAGMENT
        then SendFragment (decode_fragment bs i)
      else if commandNumber = ENET_PROTOCOL_COMMAND_SEND_UNSEQUENCED
        then SendUnsequenced (load16 bs i) (load16 bs (i + 2))
      else if commandNumber = ENET_PROTOCOL_COMMAND_BANDWIDTH_LIMIT
        then BandwidthLimit (load32 bs i) (load32 bs (i + 4))
      else if commandNumber = ENET_PROTOCOL_COMMAND_THROTTLE_CONFIGURE
        then ThrottleConfigure (load32 bs i) (load32 bs (i + 4)) (load32 bs (i + 8))
      else Ping)"

definition decode_command :: "u8 list \<Rightarrow> nat \<Rightarrow> ENetProtocol" where
  "decode_command bs i =
     (let h = decode_header bs i
      in \<lparr>pr_header = h,
          pr_body = decode_body (hd_command h AND ENET_PROTOCOL_COMMAND_MASK) bs (i + 4)\<rparr>)"

text \<open>A command whose body is the variant of its command number.\<close>

fun body_matches :: "u8 \<Rightarrow> ENetProtocolBody \<Rightarrow> bool" where
  "body_matches n (Acknowledge _ _) \<longleftrightarrow> n = ENET_PROTOCOL_COMMAND_ACKNOWLEDGE"
| "body_matches n (Connect _) \<longleftrightarrow> n = ENET_PROTOCOL_COMMAND_CONNECT"
| "body_matches n (VerifyConnect _) \<longleftrightarrow> n = ENET_PROTOCOL_COMMAND_VERIFY_CONNECT"
| "body_matches n (Disconnect _) \<longleftrightarrow> n = ENET_PROTOCOL_COMMAND_DISCONNECT"
| "body_matches n Ping \<longleftrightarrow> n = ENET_PROTOCOL_COMMAND_PING"
| "body_matches n (SendReliable _) \<longleftrightarrow> n = ENET_PROTOCOL_COMMAND_SEND_RELIABLE"
| "body_matches n (SendUnreliable _ _) \<longleftrightarrow> n = ENET_PROTOCOL_COMMAND_SEND_UNRELIABLE"
| "body_matches n (SendUnsequenced _ _) \<longleftrightarrow> n = ENET_PROTOCOL_COMMAND_SEND_UNSEQUENCED"
| "body_matches n (SendFragment _) \<longleftrightarrow> n = ENET_PROTOCOL_COMMAND_SEND_FRAGMENT \<or>
     n = ENET_PROTOCOL_COMMAND_SEND_UNRELIABLE_FRAGMENT"
| "body_matches n (BandwidthLimit _ _) \<longleftrightarrow> n = ENET_PROTOCOL_COMMAND_BANDWIDTH_LIMIT"
| "body_matches n (ThrottleConfigure _ _ _) \<longleftrightarrow> n = ENET_PROTOCOL_COMMAND_THROTTLE_CONFIGURE"

definition wf_command :: "ENetProtocol \<Rightarrow> bool" where
  "wf_command c \<longleftrightarrow> body_matches (number_of c) (pr_body c)"

text \<open>The wire has no tag but the command number, so the variant is determined by it.\<close>

fun_cases body_matches_elim: "body_matches n b"

lemma decode_shift [bytes_simps]:
  "load16 (pre @ xs) (length pre + i) = load16 xs i"
  "load32 (pre @ xs) (length pre + i) = load32 xs i"
  "(pre @ xs) ! (length pre + i) = xs ! i"
  by (simp_all add: load16_def load32_def add.assoc nth_append)

lemma decode_body_shift:
  "decode_body n (pre @ xs) (length pre + i) = decode_body n xs i"
  by (simp only: decode_body_def decode_connect_def decode_verify_def decode_fragment_def
      decode_shift add.assoc)

lemma decode_command_shift: "decode_command (pre @ xs) (length pre) = decode_command xs 0"
proof -
  have "(pre @ xs) ! length pre = xs ! 0" by (simp add: nth_append)
  then show ?thesis
    by (simp only: decode_command_def decode_header_def Let_def decode_shift decode_body_shift add_0)
qed

lemmas image_simps = bytes16_def bytes32_def load16_def load32_def bytes_simps

lemma decode_encode_body:
  "body_matches n b \<Longrightarrow> decode_body n (h0 # h1 # h2 # h3 # encode_body b @ rest) 4 = b"
  by (cases b)
     (auto simp: decode_body_def decode_connect_def decode_verify_def decode_fragment_def image_simps)

lemma decode_encode_command:
  assumes "wf_command c"
  shows "decode_command (pre @ encode_command c @ rest) (length pre) = c"
proof -
  have "decode_header (encode_command c @ rest) 0 = pr_header c"
    by (simp add: decode_header_def encode_command_def encode_header_def image_simps)
  moreover have "decode_body (number_of c) (encode_command c @ rest) 4 = pr_body c"
    using decode_encode_body assms
    by (simp add: encode_command_def encode_header_def bytes16_def wf_command_def)
  ultimately show ?thesis
    by (subst decode_command_shift) (simp add: decode_command_def decode_header_def Let_def)
qed

lemma length_encode_command:
  assumes "wf_command c"
  shows "length (encode_command c) = commandSizes ! unat (number_of c)"
  using assms
  by (cases "pr_body c")
     (auto simp: wf_command_def encode_command_def encode_header_def commandSizes_def)

lemma unat_number_of: "unat (number_of c) < 16"
proof -
  have "number_of c \<le> 15" by (rule word_and_le1)
  then show ?thesis by (simp add: word_le_nat_alt)
qed

lemma command_size_wf:
  "wf_command c \<Longrightarrow> unat (enet_protocol_command_size (command_of c)) = length (encode_command c)"
  by (cases "pr_body c")
     (auto simp: length_encode_command enet_protocol_command_size_def wf_command_def commandSizes_def)

section \<open>Properties\<close>

text \<open>Property C3.  Round trip of the wire format: a command written with its variant, anywhere in a
  datagram, is read back by the parser unchanged, and it takes exactly the bytes that
  \<^verbatim>\<open>enet_protocol_command_size\<close> announces, so the next command starts right after it.\<close>

theorem command_roundtrip:
  assumes "wf_command c"
  shows "decode_command (pre @ encode_command c @ rest) (length pre) = c \<and>
    length (encode_command c) = unat (enet_protocol_command_size (command_of c))"
  using decode_encode_command [OF assms] command_size_wf [OF assms] by simp

theorem command_roundtrip_witness:
  "let c = make_command (ENET_PROTOCOL_COMMAND_SEND_UNRELIABLE) 3
             (SendUnreliable (ENET_HOST_TO_NET_16 7) (ENET_HOST_TO_NET_16 2))
   in encode_command c = [7, 3, 0, 0, 0, 7, 0, 2] \<and>
      decode_command ([9, 9] @ encode_command c @ [1, 2]) (length [9::u8, 9]) = c"
  using command_roundtrip [of "make_command (ENET_PROTOCOL_COMMAND_SEND_UNRELIABLE) 3
      (SendUnreliable (ENET_HOST_TO_NET_16 7) (ENET_HOST_TO_NET_16 2))" "[9, 9]" "[1, 2]"]
  by (simp add: make_command_def wf_command_def encode_command_def encode_header_def bytes16_def
      ENET_HOST_TO_NET_16_def)

end
