(* ===== verification/EnetState.thy ===== *)
theory EnetState
  imports EnetPacket EnetCommand
begin

text \<open>
  The data of \<^verbatim>\<open>enet/include/enet/enet.h\<close>: addresses, queued commands, channels, peers, the
  host and events, field by field.

  An \<open>ENetList\<close> is the HOL list of its elements (\<open>EnetList\<close> shows the list code implements this);
  the link fields of the elements are left out.  A pointer to a peer is its index in the host's
  array, so a peer has no \<open>host\<close> field; a pointer to a packet or to an incoming command is its
  address, and a packet lives in the host's heap.  The dispatch queue is the list of the indices
  of the peers in it.  \<open>channels = []\<close> is the NULL pointer.

  The host carries two model fields: the heap, and the world outside the program.
\<close>

section \<open>Peers\<close>

record ENetAddress =
  addr_host :: u32
  addr_port :: u16

record ENetAcknowledgement =
  ak_sentTime :: u32
  ak_command :: ENetProtocol

record ENetOutgoingCommand =
  oc_reliableSequenceNumber :: u16
  oc_unreliableSequenceNumber :: u16
  oc_sentTime :: u32
  oc_roundTripTimeout :: u32
  oc_roundTripTimeoutLimit :: u32
  oc_fragmentOffset :: u32
  oc_fragmentLength :: u16
  oc_sendAttempts :: u16
  oc_command :: ENetProtocol
  oc_packet :: "nat option"

text \<open>\<open>ic_address\<close> is the address of the struct.  \<open>ic_fragments\<close> is the bit set of the fragments
  received, or \<open>None\<close> for the NULL pointer.\<close>

record ENetIncomingCommand =
  ic_address :: nat
  ic_reliableSequenceNumber :: u16
  ic_unreliableSequenceNumber :: u16
  ic_command :: ENetProtocol
  ic_fragmentCount :: u32
  ic_fragmentsRemaining :: u32
  ic_fragments :: "u32 list option"
  ic_packet :: "nat option"

datatype ENetPeerState =
    ENET_PEER_STATE_DISCONNECTED
  | ENET_PEER_STATE_CONNECTING
  | ENET_PEER_STATE_ACKNOWLEDGING_CONNECT
  | ENET_PEER_STATE_CONNECTION_PENDING
  | ENET_PEER_STATE_CONNECTION_SUCCEEDED
  | ENET_PEER_STATE_CONNECTED
  | ENET_PEER_STATE_DISCONNECT_LATER
  | ENET_PEER_STATE_DISCONNECTING
  | ENET_PEER_STATE_ACKNOWLEDGING_DISCONNECT
  | ENET_PEER_STATE_ZOMBIE

text \<open>The code compares states by their enumeration value.\<close>

fun state_number :: "ENetPeerState \<Rightarrow> nat" where
  "state_number ENET_PEER_STATE_DISCONNECTED = 0"
| "state_number ENET_PEER_STATE_CONNECTING = 1"
| "state_number ENET_PEER_STATE_ACKNOWLEDGING_CONNECT = 2"
| "state_number ENET_PEER_STATE_CONNECTION_PENDING = 3"
| "state_number ENET_PEER_STATE_CONNECTION_SUCCEEDED = 4"
| "state_number ENET_PEER_STATE_CONNECTED = 5"
| "state_number ENET_PEER_STATE_DISCONNECT_LATER = 6"
| "state_number ENET_PEER_STATE_DISCONNECTING = 7"
| "state_number ENET_PEER_STATE_ACKNOWLEDGING_DISCONNECT = 8"
| "state_number ENET_PEER_STATE_ZOMBIE = 9"

lemma state_number_inject [simp]: "state_number s = state_number t \<longleftrightarrow> s = t"
  by (cases s; cases t; simp)

instantiation ENetPeerState :: linorder
begin

definition less_eq_ENetPeerState :: "ENetPeerState \<Rightarrow> ENetPeerState \<Rightarrow> bool" where
  "less_eq_ENetPeerState s t \<longleftrightarrow> state_number s \<le> state_number t"

definition less_ENetPeerState :: "ENetPeerState \<Rightarrow> ENetPeerState \<Rightarrow> bool" where
  "less_ENetPeerState s t \<longleftrightarrow> state_number s < state_number t"

instance
proof
  fix s t u :: ENetPeerState
  show "s < t \<longleftrightarrow> s \<le> t \<and> \<not> t \<le> s"
    by (auto simp: less_eq_ENetPeerState_def less_ENetPeerState_def)
  show "s \<le> s" by (simp add: less_eq_ENetPeerState_def)
  show "s \<le> u" if "s \<le> t" "t \<le> u" using that by (simp add: less_eq_ENetPeerState_def)
  show "s = t" if "s \<le> t" "t \<le> s"
    using that state_number_inject [of s t] by (simp add: less_eq_ENetPeerState_def)
  show "s \<le> t \<or> t \<le> s" by (auto simp: less_eq_ENetPeerState_def)
qed

end

lemmas state_order = less_eq_ENetPeerState_def less_ENetPeerState_def

abbreviation (input) is_connected :: "ENetPeerState \<Rightarrow> bool" where
  "is_connected s \<equiv> s = ENET_PEER_STATE_CONNECTED \<or> s = ENET_PEER_STATE_DISCONNECT_LATER"

record ENetChannel =
  ch_outgoingReliableSequenceNumber :: u16
  ch_outgoingUnreliableSequenceNumber :: u16
  ch_usedReliableWindows :: u16
  ch_reliableWindows :: "u16 list"
  ch_incomingReliableSequenceNumber :: u16
  ch_incomingUnreliableSequenceNumber :: u16
  ch_incomingReliableCommands :: "ENetIncomingCommand list"
  ch_incomingUnreliableCommands :: "ENetIncomingCommand list"

text \<open>A channel as \<^verbatim>\<open>enet_host_connect\<close> and \<^verbatim>\<open>enet_protocol_handle_connect\<close> initialise it.\<close>

definition new_channel :: ENetChannel where
  "new_channel = \<lparr>
     ch_outgoingReliableSequenceNumber = 0, ch_outgoingUnreliableSequenceNumber = 0,
     ch_usedReliableWindows = 0, ch_reliableWindows = replicate (ENET_PEER_RELIABLE_WINDOWS) 0,
     ch_incomingReliableSequenceNumber = 0, ch_incomingUnreliableSequenceNumber = 0,
     ch_incomingReliableCommands = [], ch_incomingUnreliableCommands = []\<rparr>"

record ENetPeer =
  p_outgoingPeerID :: u16
  p_incomingPeerID :: u16
  p_connectID :: u32
  p_outgoingSessionID :: u8
  p_incomingSessionID :: u8
  p_address :: ENetAddress
  p_data :: nat
  p_state :: ENetPeerState
  p_channels :: "ENetChannel list"
  p_channelCount :: size_t
  p_incomingBandwidth :: u32
  p_outgoingBandwidth :: u32
  p_incomingBandwidthThrottleEpoch :: u32
  p_outgoingBandwidthThrottleEpoch :: u32
  p_incomingDataTotal :: u32
  p_outgoingDataTotal :: u32
  p_lastSendTime :: u32
  p_lastReceiveTime :: u32
  p_nextTimeout :: u32
  p_earliestTimeout :: u32
  p_packetLossEpoch :: u32
  p_packetsSent :: u32
  p_packetsLost :: u32
  p_packetLoss :: u32
  p_packetLossVariance :: u32
  p_packetThrottle :: u32
  p_packetThrottleLimit :: u32
  p_packetThrottleCounter :: u32
  p_packetThrottleEpoch :: u32
  p_packetThrottleAcceleration :: u32
  p_packetThrottleDeceleration :: u32
  p_packetThrottleInterval :: u32
  p_pingInterval :: u32
  p_timeoutLimit :: u32
  p_timeoutMinimum :: u32
  p_timeoutMaximum :: u32
  p_lastRoundTripTime :: u32
  p_lowestRoundTripTime :: u32
  p_lastRoundTripTimeVariance :: u32
  p_highestRoundTripTimeVariance :: u32
  p_roundTripTime :: u32
  p_roundTripTimeVariance :: u32
  p_mtu :: u32
  p_windowSize :: u32
  p_reliableDataInTransit :: u32
  p_outgoingReliableSequenceNumber :: u16
  p_acknowledgements :: "ENetAcknowledgement list"
  p_sentReliableCommands :: "ENetOutgoingCommand list"
  p_sentUnreliableCommands :: "ENetOutgoingCommand list"
  p_outgoingReliableCommands :: "ENetOutgoingCommand list"
  p_outgoingUnreliableCommands :: "ENetOutgoingCommand list"
  p_dispatchedCommands :: "ENetIncomingCommand list"
  p_needsDispatch :: bool
  p_incomingUnsequencedGroup :: u16
  p_outgoingUnsequencedGroup :: u16
  p_unsequencedWindow :: "u32 list"
  p_eventData :: u32
  p_totalWaitingData :: size_t

section \<open>The host\<close>

text \<open>An \<open>ENetBuffer\<close> points into the header on the stack, into \<open>commands\<close>, into the data of a
  packet, or into \<open>packetData[1]\<close>; the packet may be freed while a buffer still points to it.\<close>

datatype ENetBuffer =
    NoBuffer
  | HeaderBuffer (buffer_length: size_t)
  | CommandBuffer nat (buffer_length: size_t)
  | PacketBuffer nat nat (buffer_length: size_t)
  | CompressedBuffer (buffer_length: size_t)

datatype ENetEventType =
    ENET_EVENT_TYPE_NONE
  | ENET_EVENT_TYPE_CONNECT
  | ENET_EVENT_TYPE_DISCONNECT
  | ENET_EVENT_TYPE_RECEIVE

record ENetEvent =
  ev_type :: ENetEventType
  ev_peer :: "nat option"
  ev_channelID :: u8
  ev_data :: u32
  ev_packet :: "nat option"

text \<open>The outside: the clock, and what the socket calls return, by the number of the call; the
  datagrams handed to \<^verbatim>\<open>enet_socket_send\<close>, with \<open>None\<close> for a buffer that points into freed
  memory.  A received datagram fills the start of the receive buffer; \<open>w_stale\<close> is what lies behind
  it, by the number of the call and the index.\<close>

datatype received = ReceiveError | ReceiveNothing | ReceiveData ENetAddress "u8 list"

record world =
  w_clock :: "nat \<Rightarrow> u32"
  w_clockCalls :: nat
  w_sendResult :: "nat \<Rightarrow> int"
  w_sent :: "(ENetAddress \<times> u8 list option list) list"
  w_received :: "nat \<Rightarrow> received"
  w_stale :: "nat \<Rightarrow> nat \<Rightarrow> u8"
  w_receiveCalls :: nat
  w_waitResult :: "nat \<Rightarrow> int \<times> u32"
  w_waitCalls :: nat

text \<open>The callbacks of the user.  The checksum gets the bytes of the buffers.  The compressor gets
  the bytes and the limits and returns the size and the bytes it wrote; it is \<open>None\<close> when the
  context or the function pointer is NULL.\<close>

type_synonym checksum_callback = "u8 list list \<Rightarrow> u32"
type_synonym compress_callback = "u8 list list \<Rightarrow> size_t \<Rightarrow> size_t \<Rightarrow> size_t \<times> u8 list"
type_synonym decompress_callback = "u8 list \<Rightarrow> size_t \<Rightarrow> size_t \<Rightarrow> size_t \<times> u8 list"

text \<open>The intercept callback reads the datagram and may fill the event.\<close>

type_synonym intercept_callback =
  "ENetAddress \<Rightarrow> u8 list \<Rightarrow> ENetEvent option \<Rightarrow> int \<times> ENetEvent option"

record ENetCompressor =
  cp_context :: "nat option"
  cp_compress :: "compress_callback option"
  cp_decompress :: "decompress_callback option"
  cp_destroy :: bool

record ENetHost =
  h_address :: ENetAddress
  h_incomingBandwidth :: u32
  h_outgoingBandwidth :: u32
  h_bandwidthThrottleEpoch :: u32
  h_mtu :: u32
  h_randomSeed :: u32
  h_recalculateBandwidthLimits :: bool
  h_peers :: "ENetPeer list"
  h_channelLimit :: size_t
  h_serviceTime :: u32
  h_dispatchQueue :: "nat list"
  h_continueSending :: bool
  h_packetSize :: size_t
  h_headerFlags :: u16
  h_commands :: "ENetProtocol list"
  h_commandCount :: nat
  h_buffers :: "ENetBuffer list"
  h_bufferCount :: nat
  h_checksum :: "checksum_callback option"
  h_intercept :: "intercept_callback option"
  h_compressor :: ENetCompressor
  h_packetData1 :: "u8 list"
  h_receivedAddress :: ENetAddress
  h_receivedData :: "u8 list"
  h_receivedDataLength :: size_t
  h_totalSentData :: u32
  h_totalSentPackets :: u32
  h_totalReceivedData :: u32
  h_totalReceivedPackets :: u32
  h_connectedPeers :: size_t
  h_bandwidthLimitedPeers :: size_t
  h_duplicatePeers :: size_t
  h_maximumPacketSize :: size_t
  h_maximumWaitingData :: size_t
  h_heap :: heap
  h_world :: world

definition upd_peer :: "nat \<Rightarrow> (ENetPeer \<Rightarrow> ENetPeer) \<Rightarrow> ENetHost \<Rightarrow> ENetHost" where
  "upd_peer i f h = h\<lparr>h_peers := (h_peers h)[i := f (h_peers h ! i)]\<rparr>"

definition upd_channel :: "nat \<Rightarrow> (ENetChannel \<Rightarrow> ENetChannel) \<Rightarrow> ENetPeer \<Rightarrow> ENetPeer" where
  "upd_channel c f p = p\<lparr>p_channels := (p_channels p)[c := f (p_channels p ! c)]\<rparr>"

abbreviation peer_at :: "ENetHost \<Rightarrow> nat \<Rightarrow> ENetPeer" where
  "peer_at h i \<equiv> h_peers h ! i"
abbreviation state_at :: "ENetHost \<Rightarrow> nat \<Rightarrow> ENetPeerState" where
  "state_at h i \<equiv> p_state (peer_at h i)"
abbreviation channel_at :: "ENetPeer \<Rightarrow> u8 \<Rightarrow> ENetChannel" where
  "channel_at p c \<equiv> p_channels p ! unat c"

text \<open>An operation that works on the heap and one peer, run on peer \<open>i\<close> of the host.\<close>

definition on_peer :: "nat \<Rightarrow> (heap \<Rightarrow> ENetPeer \<Rightarrow> 'a \<times> heap \<times> ENetPeer) \<Rightarrow> ENetHost \<Rightarrow> 'a \<times> ENetHost" where
  "on_peer i f h =
     (case f (h_heap h) (peer_at h i) of
        (r, hp, p) \<Rightarrow> (r, upd_peer i (\<lambda>_. p) (h\<lparr>h_heap := hp\<rparr>)))"

text \<open>\<^verbatim>\<open>enet_time_get\<close>.\<close>

definition enet_time_get :: "ENetHost \<Rightarrow> u32 \<times> ENetHost" where
  "enet_time_get h =
     (let w = h_world h
      in (w_clock w (w_clockCalls w), h\<lparr>h_world := w\<lparr>w_clockCalls := Suc (w_clockCalls w)\<rparr>\<rparr>))"

section \<open>Zeroed memory\<close>

text \<open>The structs as \<^verbatim>\<open>memset\<close> in \<^verbatim>\<open>enet_host_create\<close> leaves them.  A zero word for a command is
  command number 0; it is never read before it is written.\<close>

definition zero_command :: ENetProtocol where
  "zero_command = make_command 0 0 Ping"

definition zero_peer :: ENetPeer where
  "zero_peer = \<lparr>
     p_outgoingPeerID = 0, p_incomingPeerID = 0, p_connectID = 0, p_outgoingSessionID = 0,
     p_incomingSessionID = 0, p_address = \<lparr>addr_host = 0, addr_port = 0\<rparr>,
     p_data = 0, p_state = ENET_PEER_STATE_DISCONNECTED, p_channels = [], p_channelCount = 0,
     p_incomingBandwidth = 0, p_outgoingBandwidth = 0, p_incomingBandwidthThrottleEpoch = 0,
     p_outgoingBandwidthThrottleEpoch = 0, p_incomingDataTotal = 0, p_outgoingDataTotal = 0,
     p_lastSendTime = 0, p_lastReceiveTime = 0, p_nextTimeout = 0, p_earliestTimeout = 0,
     p_packetLossEpoch = 0, p_packetsSent = 0, p_packetsLost = 0, p_packetLoss = 0,
     p_packetLossVariance = 0, p_packetThrottle = 0, p_packetThrottleLimit = 0,
     p_packetThrottleCounter = 0, p_packetThrottleEpoch = 0, p_packetThrottleAcceleration = 0,
     p_packetThrottleDeceleration = 0, p_packetThrottleInterval = 0, p_pingInterval = 0,
     p_timeoutLimit = 0, p_timeoutMinimum = 0, p_timeoutMaximum = 0, p_lastRoundTripTime = 0,
     p_lowestRoundTripTime = 0, p_lastRoundTripTimeVariance = 0,
     p_highestRoundTripTimeVariance = 0, p_roundTripTime = 0, p_roundTripTimeVariance = 0,
     p_mtu = 0, p_windowSize = 0, p_reliableDataInTransit = 0,
     p_outgoingReliableSequenceNumber = 0, p_acknowledgements = [], p_sentReliableCommands = [],
     p_sentUnreliableCommands = [], p_outgoingReliableCommands = [],
     p_outgoingUnreliableCommands = [], p_dispatchedCommands = [], p_needsDispatch = False,
     p_incomingUnsequencedGroup = 0, p_outgoingUnsequencedGroup = 0,
     p_unsequencedWindow = replicate 32 0, p_eventData = 0, p_totalWaitingData = 0\<rparr>"

definition zero_host :: "heap \<Rightarrow> world \<Rightarrow> ENetHost" where
  "zero_host hp w = \<lparr>
     h_address = \<lparr>addr_host = 0, addr_port = 0\<rparr>, h_incomingBandwidth = 0,
     h_outgoingBandwidth = 0, h_bandwidthThrottleEpoch = 0, h_mtu = 0, h_randomSeed = 0,
     h_recalculateBandwidthLimits = False, h_peers = [], h_channelLimit = 0, h_serviceTime = 0,
     h_dispatchQueue = [], h_continueSending = False, h_packetSize = 0, h_headerFlags = 0,
     h_commands = replicate (ENET_PROTOCOL_MAXIMUM_PACKET_COMMANDS) zero_command,
     h_commandCount = 0, h_buffers = replicate (ENET_BUFFER_MAXIMUM) NoBuffer, h_bufferCount = 0,
     h_checksum = None, h_intercept = None,
     h_compressor = \<lparr>cp_context = None, cp_compress = None, cp_decompress = None, cp_destroy = False\<rparr>,
     h_packetData1 = replicate (ENET_PROTOCOL_MAXIMUM_MTU) 0,
     h_receivedAddress = \<lparr>addr_host = 0, addr_port = 0\<rparr>, h_receivedData = [], h_receivedDataLength = 0,
     h_totalSentData = 0, h_totalSentPackets = 0, h_totalReceivedData = 0,
     h_totalReceivedPackets = 0, h_connectedPeers = 0, h_bandwidthLimitedPeers = 0,
     h_duplicatePeers = 0, h_maximumPacketSize = 0, h_maximumWaitingData = 0, h_heap = hp,
     h_world = w\<rparr>"

text \<open>An empty heap whose allocations succeed, and a world in which time stands still and nothing
  arrives.\<close>

definition fresh_heap :: heap where
  "fresh_heap = \<lparr>hp_packets = (\<lambda>_. None), hp_next = 0, hp_mallocFails = (\<lambda>_. False), hp_mallocs = 0,
     hp_junk = (\<lambda>_. 0), hp_callbacks = []\<rparr>"

definition quiet_world :: world where
  "quiet_world = \<lparr>w_clock = (\<lambda>_. 0), w_clockCalls = 0, w_sendResult = (\<lambda>_. 0), w_sent = [],
     w_received = (\<lambda>_. ReceiveNothing), w_stale = (\<lambda>_ _. 0), w_receiveCalls = 0, w_waitResult = (\<lambda>_. (0, 0)),
     w_waitCalls = 0\<rparr>"

lemma peers_upd_peer [simp]: "h_peers (upd_peer i f h) = (h_peers h)[i := f (h_peers h ! i)]"
  by (simp add: upd_peer_def)

lemma channels_upd_channel [simp]:
  "p_channels (upd_channel c f p) = (p_channels p)[c := f (p_channels p ! c)]"
  by (simp add: upd_channel_def)

lemma upd_peer_fields [simp]:
  "h_heap (upd_peer i f h) = h_heap h" "h_dispatchQueue (upd_peer i f h) = h_dispatchQueue h"
  "h_world (upd_peer i f h) = h_world h" "h_serviceTime (upd_peer i f h) = h_serviceTime h"
  "h_connectedPeers (upd_peer i f h) = h_connectedPeers h"
  "h_bandwidthLimitedPeers (upd_peer i f h) = h_bandwidthLimitedPeers h"
  "h_commands (upd_peer i f h) = h_commands h" "h_buffers (upd_peer i f h) = h_buffers h"
  "h_commandCount (upd_peer i f h) = h_commandCount h"
  "h_bufferCount (upd_peer i f h) = h_bufferCount h"
  "h_maximumPacketSize (upd_peer i f h) = h_maximumPacketSize h"
  "h_maximumWaitingData (upd_peer i f h) = h_maximumWaitingData h"
  "h_checksum (upd_peer i f h) = h_checksum h"
  by (simp_all add: upd_peer_def)

lemma upd_channel_fields [simp]:
  "p_state (upd_channel c f p) = p_state p" "p_channelCount (upd_channel c f p) = p_channelCount p"
  "p_needsDispatch (upd_channel c f p) = p_needsDispatch p"
  "p_dispatchedCommands (upd_channel c f p) = p_dispatchedCommands p"
  "p_outgoingReliableCommands (upd_channel c f p) = p_outgoingReliableCommands p"
  "p_outgoingUnreliableCommands (upd_channel c f p) = p_outgoingUnreliableCommands p"
  by (simp_all add: upd_channel_def)

end
