(* ===== verification/EnetIncoming.thy ===== *)
theory EnetIncoming
  imports EnetState "HOL-Library.Multiset" "HOL-Library.Sublist"
begin

text \<open>
  Incoming commands of a channel (\<^verbatim>\<open>enet/peer.cpp\<close>): where a command is inserted or that it is
  discarded, which commands are moved to the peer's dispatched list, and receiving from it.

  The loops over a list are recursions on it: backwards loops run on the reversed list, and a
  position is the number of elements in front of it.
\<close>

section \<open>The dispatch queue\<close>

text \<open>The repeated block \<^verbatim>\<open>if (! peer -> needsDispatch) ...\<close>.\<close>

definition enet_needs_dispatch :: "nat \<Rightarrow> ENetHost \<Rightarrow> ENetHost" where
  "enet_needs_dispatch i h =
     (if \<not> p_needsDispatch (peer_at h i)
      then upd_peer i (p_needsDispatch_update (\<lambda>_. True)) (h\<lparr>h_dispatchQueue := h_dispatchQueue h @ [i]\<rparr>)
      else h)"

section \<open>Receiving and releasing\<close>

definition enet_peer_receive :: "nat \<Rightarrow> ENetHost \<Rightarrow> (nat \<times> u8) option \<times> ENetHost" where
  "enet_peer_receive i h =
     (case p_dispatchedCommands (peer_at h i) of
        [] \<Rightarrow> (None, h)
      | incomingCommand # rest \<Rightarrow>
          let packet = the (ic_packet incomingCommand);
              hp = update_packet packet (\<lambda>k. k\<lparr>pk_referenceCount := pk_referenceCount k - 1\<rparr>) (h_heap h)
          in (Some (packet, channel_of (ic_command incomingCommand)),
              upd_peer i (\<lambda>p. p\<lparr>p_dispatchedCommands := rest,
                  p_totalWaitingData := p_totalWaitingData p - pk_dataLength (deref_packet hp packet)\<rparr>)
                (h\<lparr>h_heap := hp\<rparr>)))"

text \<open>Freeing a command: its packet loses a reference.\<close>

definition release_packet :: "nat option \<Rightarrow> heap \<Rightarrow> heap" where
  "release_packet packet hp = (case packet of None \<Rightarrow> hp | Some k \<Rightarrow> packet_unref k hp)"

definition enet_peer_reset_outgoing_commands :: "ENetOutgoingCommand list \<Rightarrow> heap \<Rightarrow> heap" where
  "enet_peer_reset_outgoing_commands queue hp = fold (\<lambda>oc. release_packet (oc_packet oc)) queue hp"

text \<open>Removing the commands from the start of a list up to a position.\<close>

definition enet_peer_remove_incoming_commands ::
    "nat \<Rightarrow> ENetIncomingCommand list \<Rightarrow> heap \<Rightarrow> ENetIncomingCommand list \<times> heap" where
  "enet_peer_remove_incoming_commands n queue hp =
     (drop n queue, fold (\<lambda>ic. release_packet (ic_packet ic)) (take n queue) hp)"

definition enet_peer_reset_incoming_commands :: "ENetIncomingCommand list \<Rightarrow> heap \<Rightarrow> heap" where
  "enet_peer_reset_incoming_commands queue hp =
     snd (enet_peer_remove_incoming_commands (length queue) queue hp)"

section \<open>Windows\<close>

definition reliable_window :: "u16 \<Rightarrow> nat" where
  "reliable_window s = unat s div ENET_PEER_RELIABLE_WINDOW_SIZE"

text \<open>The window of a sequence number that may have wrapped, as C's \<^verbatim>\<open>int\<close> arithmetic computes it:
  it is at most 31, so nothing overflows.\<close>

definition wrapped_window :: "u16 \<Rightarrow> u16 \<Rightarrow> nat" where
  "wrapped_window s current = reliable_window s + (if s < current then ENET_PEER_RELIABLE_WINDOWS else 0)"

definition outside_window :: "u16 \<Rightarrow> u16 \<Rightarrow> bool" where
  "outside_window s current \<longleftrightarrow>
     wrapped_window s current < reliable_window current \<or>
     wrapped_window s current \<ge> reliable_window current + ENET_PEER_FREE_RELIABLE_WINDOWS - 1"

section \<open>Dispatching\<close>

text \<open>The loop of \<^verbatim>\<open>enet_peer_dispatch_incoming_unreliable_commands\<close>.  At each turn the list is
  \<open>kept @ segment @ rest\<close>: \<open>startCommand\<close> points to the start of the segment,
  \<open>currentCommand\<close> to the start of \<open>rest\<close>, and \<open>droppedCommand\<close> to the element at position
  \<open>dropped\<close>, which is never inside the segment behind its start.  \<open>moved\<close> collects what goes to
  \<open>dispatchedCommands\<close>.  The result is the list left, the position of \<open>droppedCommand\<close> in it,
  the moved commands and the channel's unreliable sequence number.\<close>

fun dispatch_unreliable_loop ::
    "u16 \<Rightarrow> u16 \<Rightarrow> ENetIncomingCommand list \<Rightarrow> ENetIncomingCommand list \<Rightarrow> nat \<Rightarrow>
     ENetIncomingCommand list \<Rightarrow> ENetIncomingCommand list \<Rightarrow>
     ENetIncomingCommand list \<times> nat \<times> ENetIncomingCommand list \<times> u16" where
  "dispatch_unreliable_loop current unreliable kept segment dropped moved [] =
     (kept, if segment \<noteq> [] then length kept else dropped, moved @ segment, unreliable)"
| "dispatch_unreliable_loop current unreliable kept segment dropped moved (c # rest) =
     (if number_of (ic_command c) = ENET_PROTOCOL_COMMAND_SEND_UNSEQUENCED
      then dispatch_unreliable_loop current unreliable kept (segment @ [c]) dropped moved rest
      else if ic_reliableSequenceNumber c = current then
        if ic_fragmentsRemaining c \<le> 0
        then dispatch_unreliable_loop current (ic_unreliableSequenceNumber c) kept (segment @ [c]) dropped
               moved rest
        else
          let dropped = (if segment \<noteq> [] then length kept
                         else if dropped \<noteq> length kept then length kept - 1 else dropped)
          in dispatch_unreliable_loop current unreliable (kept @ [c]) [] dropped (moved @ segment) rest
      else if wrapped_window (ic_reliableSequenceNumber c) current \<ge> reliable_window current \<and>
              wrapped_window (ic_reliableSequenceNumber c) current
                < reliable_window current + ENET_PEER_FREE_RELIABLE_WINDOWS - 1
      then (kept @ c # rest, if segment \<noteq> [] then length kept else dropped, moved @ segment, unreliable)
      else dispatch_unreliable_loop current unreliable (kept @ [c]) [] (length kept + 1) (moved @ segment) rest)"

definition enet_peer_dispatch_incoming_unreliable_commands :: "nat \<Rightarrow> nat \<Rightarrow> ENetHost \<Rightarrow> ENetHost" where
  "enet_peer_dispatch_incoming_unreliable_commands i c h =
     (let p = peer_at h i; channel = p_channels p ! c
      in case dispatch_unreliable_loop (ch_incomingReliableSequenceNumber channel)
               (ch_incomingUnreliableSequenceNumber channel) [] [] 0 []
               (ch_incomingUnreliableCommands channel) of
           (commands, dropped, moved, unreliable) \<Rightarrow>
             let h = (if moved \<noteq> [] then enet_needs_dispatch i h else h)
             in case enet_peer_remove_incoming_commands dropped commands (h_heap h) of
                  (commands, hp) \<Rightarrow>
                    upd_peer i
                      (\<lambda>p. upd_channel c (\<lambda>ch. ch\<lparr>ch_incomingUnreliableSequenceNumber := unreliable,
                                                 ch_incomingUnreliableCommands := commands\<rparr>)
                             (p\<lparr>p_dispatchedCommands := p_dispatchedCommands p @ moved\<rparr>))
                      (h\<lparr>h_heap := hp\<rparr>))"

text \<open>The loop of \<^verbatim>\<open>enet_peer_dispatch_incoming_reliable_commands\<close>: the commands in front of
  \<open>currentCommand\<close> when it ends, the rest, and the channel's sequence number.\<close>

fun dispatch_reliable_loop ::
    "u16 \<Rightarrow> ENetIncomingCommand list \<Rightarrow> ENetIncomingCommand list \<times> ENetIncomingCommand list \<times> u16" where
  "dispatch_reliable_loop s [] = ([], [], s)"
| "dispatch_reliable_loop s (c # rest) =
     (if ic_fragmentsRemaining c > 0 \<or> ic_reliableSequenceNumber c \<noteq> s + 1 then ([], c # rest, s)
      else
        let s = ic_reliableSequenceNumber c;
            s = (if ic_fragmentCount c > 0 then s + ucast (ic_fragmentCount c - 1) else s)
        in case dispatch_reliable_loop s rest of (ready, rest, s) \<Rightarrow> (c # ready, rest, s))"

definition enet_peer_dispatch_incoming_reliable_commands :: "nat \<Rightarrow> nat \<Rightarrow> ENetHost \<Rightarrow> ENetHost" where
  "enet_peer_dispatch_incoming_reliable_commands i c h =
     (let channel = p_channels (peer_at h i) ! c
      in case dispatch_reliable_loop (ch_incomingReliableSequenceNumber channel)
               (ch_incomingReliableCommands channel) of
           (ready, rest, s) \<Rightarrow>
             if ready = [] then h
             else
               let h = upd_peer i
                     (\<lambda>p. upd_channel c (\<lambda>ch. ch\<lparr>ch_incomingReliableSequenceNumber := s,
                                                ch_incomingUnreliableSequenceNumber := 0,
                                                ch_incomingReliableCommands := rest\<rparr>)
                            (p\<lparr>p_dispatchedCommands := p_dispatchedCommands p @ ready\<rparr>)) h;
                   h = enet_needs_dispatch i h
               in if ch_incomingUnreliableCommands (p_channels (peer_at h i) ! c) \<noteq> []
                  then enet_peer_dispatch_incoming_unreliable_commands i c h
                  else h)"

section \<open>Queueing\<close>

text \<open>The backwards search for the place of a reliable command with number \<open>s\<close> in a list given in
  reverse: how many elements stay in front of it, or \<open>None\<close> for a duplicate.\<close>

fun reliable_position :: "u16 \<Rightarrow> u16 \<Rightarrow> ENetIncomingCommand list \<Rightarrow> nat option" where
  "reliable_position s current [] = Some 0"
| "reliable_position s current (c # before) =
     (let r = ic_reliableSequenceNumber c
      in if s \<ge> current \<and> r < current then reliable_position s current before
         else if \<not> s \<ge> current \<and> r \<ge> current then Some (Suc (length before))
         else if r \<le> s then if r < s then Some (Suc (length before)) else None
         else reliable_position s current before)"

text \<open>The same for an unreliable command with the numbers \<open>s\<close> and \<open>u\<close>.  \<open>unsequenced\<close> is the test
  of the code on the new command's own number.\<close>

fun unreliable_position ::
    "bool \<Rightarrow> u16 \<Rightarrow> u16 \<Rightarrow> u16 \<Rightarrow> ENetIncomingCommand list \<Rightarrow> nat option" where
  "unreliable_position unsequenced s u current [] = Some 0"
| "unreliable_position unsequenced s u current (c # before) =
     (let r = ic_reliableSequenceNumber c
      in if unsequenced then unreliable_position unsequenced s u current before
         else if s \<ge> current \<and> r < current then unreliable_position unsequenced s u current before
         else if \<not> s \<ge> current \<and> r \<ge> current then Some (Suc (length before))
         else if r < s then Some (Suc (length before))
         else if r > s then unreliable_position unsequenced s u current before
         else if ic_unreliableSequenceNumber c \<le> u
         then if ic_unreliableSequenceNumber c < u then Some (Suc (length before)) else None
         else unreliable_position unsequenced s u current before)"

text \<open>What the pointer that \<^verbatim>\<open>enet_peer_queue_incoming_command\<close> returns says: NULL, the dummy
  command of a discarded one, or the command queued.\<close>

datatype queued = NotifyError | DummyCommand | Queued (queued_address: nat)

text \<open>The first switch: the position for the command and its unreliable number, or \<open>None\<close> for
  \<^verbatim>\<open>goto discardCommand\<close>.\<close>

definition incoming_position :: "ENetProtocol \<Rightarrow> ENetPeerState \<Rightarrow> ENetChannel \<Rightarrow> (nat \<times> u16) option" where
  "incoming_position command state channel =
     (let n = number_of command;
          current = ch_incomingReliableSequenceNumber channel;
          s = (if n \<noteq> ENET_PROTOCOL_COMMAND_SEND_UNSEQUENCED
               then hd_reliableSequenceNumber (pr_header command) else 0)
      in if state = ENET_PEER_STATE_DISCONNECT_LATER then None
         else if n \<noteq> ENET_PROTOCOL_COMMAND_SEND_UNSEQUENCED \<and> outside_window s current then None
         else if n = ENET_PROTOCOL_COMMAND_SEND_FRAGMENT \<or> n = ENET_PROTOCOL_COMMAND_SEND_RELIABLE then
           if s = current then None
           else map_option (\<lambda>k. (k, 0))
                  (reliable_position s current (rev (ch_incomingReliableCommands channel)))
         else if n = ENET_PROTOCOL_COMMAND_SEND_UNRELIABLE \<or>
                 n = ENET_PROTOCOL_COMMAND_SEND_UNRELIABLE_FRAGMENT then
           let u = ENET_NET_TO_HOST_16 (sendUnreliable_unreliableSequenceNumber (pr_body command))
           in if s = current \<and> u \<le> ch_incomingUnreliableSequenceNumber channel then None
              else map_option (\<lambda>k. (k, u))
                     (unreliable_position (n = ENET_PROTOCOL_COMMAND_SEND_UNSEQUENCED) s u current
                        (rev (ch_incomingUnreliableCommands channel)))
         else if n = ENET_PROTOCOL_COMMAND_SEND_UNSEQUENCED then Some (0, 0)
         else None)"

text \<open>The allocations of the command and of the bit set of its fragments.  A failure destroys the
  packet, which has no reference yet.\<close>

definition new_incoming ::
    "ENetProtocol \<Rightarrow> u16 \<Rightarrow> u32 \<Rightarrow> nat \<Rightarrow> heap \<Rightarrow> ENetIncomingCommand option \<times> heap" where
  "new_incoming command unreliable fragmentCount packet hp =
     (case enet_malloc hp of (ok, hp) \<Rightarrow>
        if \<not> ok then (None, enet_packet_destroy (Some packet) hp)
        else
          let ic = \<lparr>ic_address = hp_next hp,
                ic_reliableSequenceNumber = hd_reliableSequenceNumber (pr_header command),
                ic_unreliableSequenceNumber = unreliable, ic_command = command,
                ic_fragmentCount = fragmentCount, ic_fragmentsRemaining = fragmentCount,
                ic_fragments = None, ic_packet = Some packet\<rparr>;
              hp = hp\<lparr>hp_next := Suc (hp_next hp)\<rparr>
          in if fragmentCount > 0 then
               if fragmentCount \<le> ENET_PROTOCOL_MAXIMUM_FRAGMENT_COUNT then
                 case enet_malloc hp of (ok, hp) \<Rightarrow>
                   if ok then (Some (ic\<lparr>ic_fragments :=
                                Some (replicate (unat ((fragmentCount + 31) div 32)) 0)\<rparr>), hp)
                   else (None, enet_packet_destroy (Some packet) hp)
               else (None, enet_packet_destroy (Some packet) hp)
             else (Some ic, hp))"

text \<open>Linking the new command in front of the position and dispatching.\<close>

definition insert_incoming :: "nat \<Rightarrow> ENetIncomingCommand \<Rightarrow> ENetIncomingCommand list \<Rightarrow> ENetIncomingCommand list" where
  "insert_incoming k ic ics = take k ics @ ic # drop k ics"

definition link_incoming :: "nat \<Rightarrow> nat \<Rightarrow> nat \<Rightarrow> ENetIncomingCommand \<Rightarrow> ENetHost \<Rightarrow> ENetHost" where
  "link_incoming i c k ic h =
     (let packet = the (ic_packet ic); n = number_of (ic_command ic);
          reliable = (n = ENET_PROTOCOL_COMMAND_SEND_FRAGMENT \<or> n = ENET_PROTOCOL_COMMAND_SEND_RELIABLE);
          hp = packet_ref packet (h_heap h);
          h = upd_peer i
            (\<lambda>p. upd_channel c
              (\<lambda>ch. if reliable
                     then ch\<lparr>ch_incomingReliableCommands := insert_incoming k ic (ch_incomingReliableCommands ch)\<rparr>
                     else ch\<lparr>ch_incomingUnreliableCommands := insert_incoming k ic (ch_incomingUnreliableCommands ch)\<rparr>)
              (p\<lparr>p_totalWaitingData := p_totalWaitingData p + pk_dataLength (deref_packet hp packet)\<rparr>))
            (h\<lparr>h_heap := hp\<rparr>)
      in if reliable then enet_peer_dispatch_incoming_reliable_commands i c h
         else enet_peer_dispatch_incoming_unreliable_commands i c h)"

definition enet_peer_queue_incoming_command ::
    "nat \<Rightarrow> ENetProtocol \<Rightarrow> u8 list option \<Rightarrow> size_t \<Rightarrow> u32 \<Rightarrow> u32 \<Rightarrow> ENetHost \<Rightarrow> queued \<times> ENetHost" where
  "enet_peer_queue_incoming_command i command data dataLength flags fragmentCount h =
     (let p = peer_at h i; c = unat (channel_of command)
      in case incoming_position command (p_state p) (p_channels p ! c) of
           None \<Rightarrow> (if fragmentCount > 0 then NotifyError else DummyCommand, h)
         | Some (k, unreliable) \<Rightarrow>
             if p_totalWaitingData p \<ge> h_maximumWaitingData h then (NotifyError, h)
             else case enet_packet_create (h_heap h) data dataLength flags of
               (None, hp) \<Rightarrow> (NotifyError, h\<lparr>h_heap := hp\<rparr>)
             | (Some packet, hp) \<Rightarrow>
                 (case new_incoming command unreliable fragmentCount packet hp of
                    (None, hp) \<Rightarrow> (NotifyError, h\<lparr>h_heap := hp\<rparr>)
                  | (Some ic, hp) \<Rightarrow> (Queued (ic_address ic), link_incoming i c k ic (h\<lparr>h_heap := hp\<rparr>))))"

section \<open>The circular order of sequence numbers\<close>

text \<open>How far a number is ahead of the channel's current one.\<close>

definition ahead :: "u16 \<Rightarrow> u16 \<Rightarrow> nat" where
  "ahead current s = unat (s - current)"

lemma ahead_eq:
  "ahead current s = (if current \<le> s then unat s - unat current else unat s + 65536 - unat current)"
  by (simp add: ahead_def unat_sub_if' word_le_nat_alt)

lemma ahead_inject [simp]: "ahead current r = ahead current s \<longleftrightarrow> r = s"
  by (simp add: ahead_def flip: word_unat_eq_iff)

lemma unat_u16_less: "unat (s :: u16) < 65536"
  using unsigned_less [of s, where 'a = nat] by simp

lemma ahead_less:
  "ahead current r < ahead current s \<longleftrightarrow>
     (if s \<ge> current \<and> r < current then False
      else if \<not> s \<ge> current \<and> r \<ge> current then True else r < s)"
  using unat_u16_less [of r] unat_u16_less [of s] unat_u16_less [of current]
  by (auto simp: ahead_eq word_le_nat_alt word_less_nat_alt)

definition circular_sorted :: "u16 \<Rightarrow> ENetIncomingCommand list \<Rightarrow> bool" where
  "circular_sorted current ics \<longleftrightarrow>
     sorted_wrt (\<lambda>a b. ahead current (ic_reliableSequenceNumber a) < ahead current (ic_reliableSequenceNumber b)) ics"

text \<open>The search is a search in that order.\<close>

lemma reliable_position_step:
  "reliable_position s current (c # before) =
     (if ahead current s < ahead current (ic_reliableSequenceNumber c) then reliable_position s current before
      else if ic_reliableSequenceNumber c = s then None else Some (Suc (length before)))"
  by (auto simp: ahead_less Let_def)

declare reliable_position.simps(2) [simp del]

lemma reliable_position_spec:
  assumes "circular_sorted current xs"
  shows "case reliable_position s current (rev xs) of
      None \<Rightarrow> \<exists>c\<in>set xs. ic_reliableSequenceNumber c = s
    | Some k \<Rightarrow> k \<le> length xs \<and>
        (\<forall>c\<in>set (take k xs). ahead current (ic_reliableSequenceNumber c) < ahead current s) \<and>
        (\<forall>c\<in>set (drop k xs). ahead current s < ahead current (ic_reliableSequenceNumber c))"
  using assms
proof (induction xs rule: rev_induct)
  case (snoc c xs)
  then have IH: "case reliable_position s current (rev xs) of
      None \<Rightarrow> \<exists>c\<in>set xs. ic_reliableSequenceNumber c = s
    | Some k \<Rightarrow> k \<le> length xs \<and>
        (\<forall>c\<in>set (take k xs). ahead current (ic_reliableSequenceNumber c) < ahead current s) \<and>
        (\<forall>c\<in>set (drop k xs). ahead current s < ahead current (ic_reliableSequenceNumber c))"
    and last: "\<forall>x\<in>set xs. ahead current (ic_reliableSequenceNumber x) < ahead current (ic_reliableSequenceNumber c)"
    by (simp_all add: circular_sorted_def sorted_wrt_append)
  consider "ahead current s < ahead current (ic_reliableSequenceNumber c)" | "ic_reliableSequenceNumber c = s"
    | "ahead current (ic_reliableSequenceNumber c) < ahead current s"
    by (metis ahead_inject nat_neq_iff)
  then show ?case
  proof cases
    case 1
    then show ?thesis
      using IH by (auto simp: reliable_position_step split: option.splits)
  next
    case 2
    then show ?thesis by (simp add: reliable_position_step)
  next
    case 3
    then have "\<not> ahead current s < ahead current (ic_reliableSequenceNumber c)"
      "ic_reliableSequenceNumber c \<noteq> s" by auto
    then show ?thesis using 3 last by (auto simp: reliable_position_step)
  qed
qed simp

lemma insert_incoming_sorted:
  assumes "circular_sorted current xs" "reliable_position (ic_reliableSequenceNumber ic) current (rev xs) = Some k"
  shows "circular_sorted current (insert_incoming k ic xs)"
proof -
  have "circular_sorted current (take k xs @ drop k xs)" using assms by simp
  then show ?thesis
    using reliable_position_spec [OF assms(1), of "ic_reliableSequenceNumber ic"] assms(2)
    by (auto simp: circular_sorted_def insert_incoming_def sorted_wrt_append
        intro: less_trans [of _ "ahead current (ic_reliableSequenceNumber ic)"])
qed

section \<open>What the dispatch loops do\<close>

text \<open>The numbers a reliable command takes: one, or one for each fragment.\<close>

definition numbers_taken :: "ENetIncomingCommand \<Rightarrow> u16" where
  "numbers_taken c = (if ic_fragmentCount c > 0 then ucast (ic_fragmentCount c) else 1)"

lemma ucast_minus_one: "(ucast (n - 1 :: u32) :: u16) = ucast n - 1"
proof transfer
  fix n :: int
  have "take_bit 16 (take_bit 32 n - 1) = take_bit 16 (take_bit 16 (take_bit 32 n) - take_bit 16 1)"
    by (rule take_bit_diff [symmetric])
  also have "\<dots> = take_bit 16 (take_bit 16 n - take_bit 16 1)" by simp
  also have "\<dots> = take_bit 16 (n - 1)" by (rule take_bit_diff)
  finally show "take_bit LENGTH(16) (take_bit LENGTH(32) (n - 1)) =
      take_bit LENGTH(16) (take_bit LENGTH(32) n - 1)" by simp
qed

text \<open>Complete commands that follow the number \<open>s\<close> without a gap.\<close>

fun follows :: "u16 \<Rightarrow> ENetIncomingCommand list \<Rightarrow> bool" where
  "follows s [] \<longleftrightarrow> True"
| "follows s (c # cs) \<longleftrightarrow> ic_fragmentsRemaining c = 0 \<and> ic_reliableSequenceNumber c = s + 1 \<and>
     follows (s + numbers_taken c) cs"

lemma dispatch_reliable_loop_spec:
  assumes "dispatch_reliable_loop s xs = (ready, rest, s')"
  shows "xs = ready @ rest \<and> follows s ready \<and> s' = s + sum_list (map numbers_taken ready) \<and>
    (rest \<noteq> [] \<longrightarrow> ic_fragmentsRemaining (hd rest) > 0 \<or> ic_reliableSequenceNumber (hd rest) \<noteq> s' + 1)"
  using assms
proof (induction s xs arbitrary: ready rest s' rule: dispatch_reliable_loop.induct)
  case (2 s c xs)
  show ?case
  proof (cases "ic_fragmentsRemaining c > 0 \<or> ic_reliableSequenceNumber c \<noteq> s + 1")
    case True
    then show ?thesis using "2.prems" by auto
  next
    case False
    define t where "t = s + numbers_taken c"
    have t: "t = (if ic_fragmentCount c > 0 then s + 1 + ucast (ic_fragmentCount c - 1) else s + 1)"
      by (simp add: t_def numbers_taken_def ucast_minus_one)
    obtain r where r: "ready = c # r" "dispatch_reliable_loop t xs = (r, rest, s')"
      using "2.prems" False by (auto simp: t Let_def split: prod.splits if_splits)
    have "xs = r @ rest \<and> follows t r \<and> s' = t + sum_list (map numbers_taken r) \<and>
      (rest \<noteq> [] \<longrightarrow> ic_fragmentsRemaining (hd rest) > 0 \<or> ic_reliableSequenceNumber (hd rest) \<noteq> s' + 1)"
    proof -
      have t': "t = (if ic_fragmentCount c > 0 then ic_reliableSequenceNumber c + ucast (ic_fragmentCount c - 1)
          else ic_reliableSequenceNumber c)" using False by (simp add: t)
      show ?thesis using "2.IH" [OF False refl refl, folded t', OF r(2)] .
    qed
    then show ?thesis
      using r(1) False by (auto simp: t_def word_gt_0 add.assoc)
  qed
qed simp

text \<open>What the unreliable loop may hand over: commands that are unsequenced, or complete and bound to
  the current reliable number.\<close>

definition deliverable :: "u16 \<Rightarrow> ENetIncomingCommand \<Rightarrow> bool" where
  "deliverable current c \<longleftrightarrow> number_of (ic_command c) = ENET_PROTOCOL_COMMAND_SEND_UNSEQUENCED \<or>
     ic_reliableSequenceNumber c = current \<and> ic_fragmentsRemaining c = 0"

definition unreliable_split ::
    "u16 \<Rightarrow> ENetIncomingCommand list \<Rightarrow> ENetIncomingCommand list \<Rightarrow> ENetIncomingCommand list \<Rightarrow>
     ENetIncomingCommand list \<Rightarrow> ENetIncomingCommand list \<times> nat \<times> ENetIncomingCommand list \<times> u16 \<Rightarrow> bool"
where
  "unreliable_split current kept segment moved xs = (\<lambda>(left, dropped, moved', u).
     dropped \<le> length left \<and>
     (\<exists>m. moved' = moved @ m \<and> (\<forall>c\<in>set m. deliverable current c) \<and>
       mset m + mset left = mset kept + mset segment + mset xs \<and>
       subseq m (segment @ xs) \<and> subseq left (kept @ xs)))"

lemma unreliable_split_pass:
  "unreliable_split current kept (segment @ [c]) moved rest r \<Longrightarrow>
   unreliable_split current kept segment moved (c # rest) r"
  by (cases r) (auto simp: unreliable_split_def ac_simps
      intro: subseq_order.trans [OF _ list_emb_append_mono [OF subseq_order.refl list_emb_Cons [OF subseq_order.refl]]])

lemma unreliable_split_keep:
  "\<forall>c\<in>set segment. deliverable current c \<Longrightarrow>
   unreliable_split current (kept @ [c]) [] (moved @ segment) rest r \<Longrightarrow>
   unreliable_split current kept segment moved (c # rest) r"
  by (cases r) (auto simp: unreliable_split_def ac_simps
      intro: list_emb_append_mono [OF subseq_order.refl list_emb_Cons])

lemma unreliable_split_stop:
  "\<forall>c\<in>set segment. deliverable current c \<Longrightarrow> d \<le> length kept \<Longrightarrow>
   unreliable_split current kept segment moved xs
     (kept @ xs, if segment \<noteq> [] then length kept else d, moved @ segment, u)"
  by (auto simp: unreliable_split_def)

lemma dispatch_unreliable_loop_spec:
  "d \<le> length kept \<Longrightarrow> \<forall>c\<in>set segment. deliverable current c \<Longrightarrow>
   unreliable_split current kept segment moved xs
     (dispatch_unreliable_loop current u kept segment d moved xs)"
proof (induction current u kept segment d moved xs rule: dispatch_unreliable_loop.induct)
  case (1 current u kept segment d moved)
  then show ?case using unreliable_split_stop [of segment current d kept moved "[]" u] by simp
next
  case (2 current u kept segment d moved c rest)
  note prems = "2.prems"
  show ?case
  proof (cases "number_of (ic_command c) = ENET_PROTOCOL_COMMAND_SEND_UNSEQUENCED")
    case True
    then show ?thesis using "2.IH"(1) prems by (auto simp: deliverable_def intro!: unreliable_split_pass)
  next
    case seq: False
    show ?thesis
    proof (cases "ic_reliableSequenceNumber c = current")
      case here: True
      show ?thesis
      proof (cases "ic_fragmentsRemaining c \<le> 0")
        case True
        then show ?thesis
          using "2.IH"(2) [OF seq here] seq here prems
          by (auto simp: deliverable_def intro!: unreliable_split_pass)
      next
        case False
        define e where "e = (if segment \<noteq> [] then length kept
            else if d \<noteq> length kept then length kept - 1 else d)"
        have "unreliable_split current (kept @ [c]) [] (moved @ segment) rest
            (dispatch_unreliable_loop current u (kept @ [c]) [] e (moved @ segment) rest)"
        proof (rule "2.IH"(3) [OF seq here False e_def])
          show "e \<le> length (kept @ [c])" using prems by (auto simp: e_def)
        qed simp
        then show ?thesis
          using unreliable_split_keep [OF prems(2)] seq here False by (simp add: e_def Let_def)
      qed
    next
      case other: False
      show ?thesis
      proof (cases "wrapped_window (ic_reliableSequenceNumber c) current \<ge> reliable_window current \<and>
          wrapped_window (ic_reliableSequenceNumber c) current
            < reliable_window current + ENET_PEER_FREE_RELIABLE_WINDOWS - 1")
        case True
        then show ?thesis
          using unreliable_split_stop [OF prems(2,1), of moved "c # rest" u] seq other by simp
      next
        case False
        have eq: "dispatch_unreliable_loop current u kept segment d moved (c # rest) =
            dispatch_unreliable_loop current u (kept @ [c]) [] (length kept + 1) (moved @ segment) rest"
          by (simp only: dispatch_unreliable_loop.simps(2) if_not_P [OF seq] if_not_P [OF other]
              if_not_P [OF False])
        show ?thesis
          unfolding eq by (rule unreliable_split_keep [OF prems(2) "2.IH"(4) [OF seq other False]]) auto
      qed
    qed
  qed
qed

section \<open>Windows and the circular order\<close>

lemma wrapped_window_ahead:
  "wrapped_window s current = (unat current + ahead current s) div 4096"
proof (cases "current \<le> s")
  case True
  then have "\<not> s < current" "unat current + ahead current s = unat s"
    by (auto simp: ahead_eq word_le_nat_alt word_less_nat_alt)
  then show ?thesis by (simp add: wrapped_window_def reliable_window_def)
next
  case False
  then have "unat current + ahead current s = unat s + 16 * 4096"
    using unat_u16_less [of current] by (simp add: ahead_eq)
  then show ?thesis using False by (simp add: wrapped_window_def reliable_window_def not_le)
qed

lemma outside_window_ahead:
  "outside_window s current \<longleftrightarrow> unat current div 4096 + 7 \<le> (unat current + ahead current s) div 4096"
  using div_le_mono [of "unat current" "unat current + ahead current s" 4096]
  by (auto simp: outside_window_def wrapped_window_ahead reliable_window_def)

lemma far_outside: "ahead current s \<ge> 32768 \<Longrightarrow> outside_window s current"
  using div_le_mono [of "unat current + 32768" "unat current + ahead current s" 4096]
  by (simp add: outside_window_ahead)

lemma near_inside: "ahead current s \<le> 24576 \<Longrightarrow> \<not> outside_window s current"
  using div_le_mono [of "unat current + ahead current s" "unat current + 6 * 4096" 4096]
  by (simp add: outside_window_ahead)

section \<open>Properties of queueing and dispatching\<close>

lemma peer_at_needs_dispatch:
  "peer_at (enet_needs_dispatch i h) j =
     (if j = i \<and> i < length (h_peers h) then (peer_at h i)\<lparr>p_needsDispatch := True\<rparr> else peer_at h j)"
  by (auto simp: enet_needs_dispatch_def upd_peer_def not_less list_update_beyond)

lemma needs_dispatch_fields [simp]:
  "h_heap (enet_needs_dispatch i h) = h_heap h"
  "length (h_peers (enet_needs_dispatch i h)) = length (h_peers h)"
  by (simp_all add: enet_needs_dispatch_def)

text \<open>Property C5.  In a channel whose reliable commands are in circular order after the current
  number, a reliable command or fragment inside the window, with a number other than the current
  one, is discarded exactly if its number is already there, and otherwise gets the place that
  keeps the order, over the wrap of the 16 bit numbers.\<close>

theorem reliable_command_order:
  assumes "number_of command = ENET_PROTOCOL_COMMAND_SEND_RELIABLE \<or>
      number_of command = ENET_PROTOCOL_COMMAND_SEND_FRAGMENT"
    and "state \<noteq> ENET_PEER_STATE_DISCONNECT_LATER"
    and "hd_reliableSequenceNumber (pr_header command) = s"
    and "s \<noteq> ch_incomingReliableSequenceNumber ch"
    and "ahead (ch_incomingReliableSequenceNumber ch) s \<le> 24576"
    and "circular_sorted (ch_incomingReliableSequenceNumber ch) (ch_incomingReliableCommands ch)"
    and "ic_reliableSequenceNumber ic = s"
  shows "case incoming_position command state ch of
      None \<Rightarrow> s \<in> ic_reliableSequenceNumber ` set (ch_incomingReliableCommands ch)
    | Some (k, u) \<Rightarrow> s \<notin> ic_reliableSequenceNumber ` set (ch_incomingReliableCommands ch) \<and>
        circular_sorted (ch_incomingReliableSequenceNumber ch)
          (insert_incoming k ic (ch_incomingReliableCommands ch))"
proof -
  let ?cur = "ch_incomingReliableSequenceNumber ch" and ?xs = "ch_incomingReliableCommands ch"
  have pos: "incoming_position command state ch =
      map_option (\<lambda>k. (k, 0)) (reliable_position s ?cur (rev ?xs))"
    using assms(1-5) near_inside [OF assms(5)] by (auto simp: incoming_position_def Let_def)
  show ?thesis
  proof (cases "reliable_position s ?cur (rev ?xs)")
    case None
    then show ?thesis using reliable_position_spec [OF assms(6), of s] by (auto simp: pos)
  next
    case (Some k)
    have "s \<noteq> ic_reliableSequenceNumber c" if "c \<in> set ?xs" for c
    proof -
      have "c \<in> set (take k ?xs) \<or> c \<in> set (drop k ?xs)"
        using that by (metis append_take_drop_id in_set_conv_decomp set_append Un_iff)
      then show ?thesis using reliable_position_spec [OF assms(6), of s] Some by auto
    qed
    then show ?thesis
      using Some insert_incoming_sorted [OF assms(6), of ic k] assms(7) by (auto simp: pos)
  qed
qed

definition reliable_example :: "u16 \<Rightarrow> ENetIncomingCommand" where
  "reliable_example s = \<lparr>ic_address = 0, ic_reliableSequenceNumber = s, ic_unreliableSequenceNumber = 0,
     ic_command = make_command (ENET_PROTOCOL_COMMAND_SEND_RELIABLE) 0 (SendReliable 0),
     ic_fragmentCount = 0, ic_fragmentsRemaining = 0, ic_fragments = None, ic_packet = Some 0\<rparr>"

theorem reliable_command_order_witness:
  "let ch = new_channel\<lparr>ch_incomingReliableSequenceNumber := 65534,
         ch_incomingReliableCommands := [reliable_example 0, reliable_example 3]\<rparr>;
       command = \<lparr>pr_header = \<lparr>hd_command = 6, hd_channelID = 0, hd_reliableSequenceNumber = 2\<rparr>,
                  pr_body = SendReliable 0\<rparr>
   in incoming_position command ENET_PEER_STATE_CONNECTED ch = Some (1, 0) \<and>
      circular_sorted 65534 (insert_incoming 1 (reliable_example 2) (ch_incomingReliableCommands ch))"
  using reliable_command_order [of "\<lparr>pr_header = \<lparr>hd_command = 6, hd_channelID = 0,
        hd_reliableSequenceNumber = 2\<rparr>, pr_body = SendReliable 0\<rparr>" "ENET_PEER_STATE_CONNECTED" 2
      "new_channel\<lparr>ch_incomingReliableSequenceNumber := 65534,
         ch_incomingReliableCommands := [reliable_example 0, reliable_example 3]\<rparr>" "reliable_example 2"]
  by (simp add: incoming_position_def outside_window_ahead ahead_eq circular_sorted_def
      reliable_example_def reliable_position_step insert_incoming_def)

text \<open>A reliable command that was delivered is not delivered again: one whose number
  is the current one, or up to eight windows (32768 numbers) behind it, is discarded, wherever the
  16 bit numbers wrap.\<close>

theorem stale_command_discarded:
  assumes "number_of command = ENET_PROTOCOL_COMMAND_SEND_RELIABLE \<or>
      number_of command = ENET_PROTOCOL_COMMAND_SEND_FRAGMENT"
    and "n \<le> 32768"
    and "hd_reliableSequenceNumber (pr_header command) = ch_incomingReliableSequenceNumber ch - of_nat n"
  shows "incoming_position command state ch = None"
proof (cases "n = 0")
  case True
  then show ?thesis using assms(1,3) by (auto simp: incoming_position_def Let_def)
next
  case False
  have "ahead (ch_incomingReliableSequenceNumber ch) (hd_reliableSequenceNumber (pr_header command)) =
      65536 - n"
  proof -
    have "(- of_nat n :: u16) = of_nat (65536 - n)" using assms(2) by (simp add: of_nat_diff)
    then show ?thesis
      using False by (simp add: assms(3) ahead_def unsigned_of_nat take_bit_nat_eq_self)
  qed
  then have "outside_window (hd_reliableSequenceNumber (pr_header command))
      (ch_incomingReliableSequenceNumber ch)"
    using assms(2) by (intro far_outside) simp
  then show ?thesis using assms(1) by (auto simp: incoming_position_def Let_def)
qed

theorem stale_command_discarded_witness:
  "incoming_position \<lparr>pr_header = \<lparr>hd_command = 6, hd_channelID = 0, hd_reliableSequenceNumber = 65534\<rparr>,
       pr_body = SendReliable 0\<rparr> ENET_PEER_STATE_CONNECTED
     (new_channel\<lparr>ch_incomingReliableSequenceNumber := 1\<rparr>) = None"
  by (rule stale_command_discarded [where n = 3]) simp_all

lemma queue_length_dispatch [simp]:
  "length (h_peers (enet_peer_dispatch_incoming_unreliable_commands i c h)) = length (h_peers h)"
  by (simp add: enet_peer_dispatch_incoming_unreliable_commands_def enet_peer_remove_incoming_commands_def
      Let_def split: prod.split)

lemma dispatch_unreliable_peer:
  assumes "i < length (h_peers h)" "c < length (p_channels (peer_at h i))"
    and "dispatch_unreliable_loop (ch_incomingReliableSequenceNumber (p_channels (peer_at h i) ! c))
      (ch_incomingUnreliableSequenceNumber (p_channels (peer_at h i) ! c)) [] [] 0 []
      (ch_incomingUnreliableCommands (p_channels (peer_at h i) ! c)) = (left, d, m, u)"
  shows "let h' = enet_peer_dispatch_incoming_unreliable_commands i c h; p' = peer_at h' i
    in p_dispatchedCommands p' = p_dispatchedCommands (peer_at h i) @ m \<and>
       p_channels p' = (p_channels (peer_at h i))[c := (p_channels (peer_at h i) ! c)\<lparr>
         ch_incomingUnreliableSequenceNumber := u, ch_incomingUnreliableCommands := drop d left\<rparr>] \<and>
       h_heap h' = fold (\<lambda>ic. release_packet (ic_packet ic)) (take d left) (h_heap h)"
  using assms
  by (simp add: enet_peer_dispatch_incoming_unreliable_commands_def
      enet_peer_remove_incoming_commands_def Let_def peer_at_needs_dispatch upd_channel_def)


text \<open>A host with one peer for the witnesses.\<close>

definition incoming_example :: "ENetChannel \<Rightarrow> ENetHost" where
  "incoming_example ch = (zero_host fresh_heap quiet_world)
     \<lparr>h_peers := [zero_peer\<lparr>p_state := ENET_PEER_STATE_CONNECTED, p_mtu := 576,
        p_channels := [ch], p_channelCount := 1\<rparr>], h_maximumPacketSize := 1000,
      h_maximumWaitingData := 1000\<rparr>"

lemma incoming_example_simps [simp]:
  "h_peers (incoming_example ch) = [zero_peer\<lparr>p_state := ENET_PEER_STATE_CONNECTED, p_mtu := 576,
        p_channels := [ch], p_channelCount := 1\<rparr>]"
  "h_heap (incoming_example ch) = fresh_heap" "h_dispatchQueue (incoming_example ch) = []"
  "h_maximumWaitingData (incoming_example ch) = 1000"
  by (simp_all add: incoming_example_def zero_host_def)

definition unreliable_example :: "u16 \<Rightarrow> u32 \<Rightarrow> ENetIncomingCommand" where
  "unreliable_example u remaining = \<lparr>ic_address = 0, ic_reliableSequenceNumber = 0,
     ic_unreliableSequenceNumber = u,
     ic_command = make_command (ENET_PROTOCOL_COMMAND_SEND_UNRELIABLE) 0 (SendUnreliable 0 0),
     ic_fragmentCount = remaining, ic_fragmentsRemaining = remaining, ic_fragments = None,
     ic_packet = None\<rparr>"


lemma dispatch_reliable_peer:
  assumes "i < length (h_peers h)" "c < length (p_channels (peer_at h i))"
    and "dispatch_reliable_loop (ch_incomingReliableSequenceNumber (p_channels (peer_at h i) ! c))
      (ch_incomingReliableCommands (p_channels (peer_at h i) ! c)) = (ready, rest, s)"
    and "ready \<noteq> []"
  shows "let h' = enet_peer_dispatch_incoming_reliable_commands i c h; p' = peer_at h' i;
             ch' = p_channels p' ! c
    in ch_incomingReliableCommands ch' = rest \<and> ch_incomingReliableSequenceNumber ch' = s \<and>
       (\<exists>more. p_dispatchedCommands p' = p_dispatchedCommands (peer_at h i) @ ready @ more \<and>
         (\<forall>ic\<in>set more. deliverable s ic) \<and>
         (ch_incomingUnreliableCommands (p_channels (peer_at h i) ! c) = [] \<longrightarrow> more = []))"
proof -
  let ?p = "peer_at h i"
  define h1 where "h1 = enet_needs_dispatch i (upd_peer i
      (\<lambda>p. upd_channel c (\<lambda>ch. ch\<lparr>ch_incomingReliableSequenceNumber := s,
          ch_incomingUnreliableSequenceNumber := 0, ch_incomingReliableCommands := rest\<rparr>)
        (p\<lparr>p_dispatchedCommands := p_dispatchedCommands p @ ready\<rparr>)) h)"
  have h1: "i < length (h_peers h1)" "c < length (p_channels (peer_at h1 i))"
    "p_channels (peer_at h1 i) ! c = (p_channels ?p ! c)\<lparr>ch_incomingReliableSequenceNumber := s,
        ch_incomingUnreliableSequenceNumber := 0, ch_incomingReliableCommands := rest\<rparr>"
    "p_dispatchedCommands (peer_at h1 i) = p_dispatchedCommands ?p @ ready"
    using assms(1,2) by (simp_all add: h1_def peer_at_needs_dispatch)
  have eq: "enet_peer_dispatch_incoming_reliable_commands i c h =
      (if ch_incomingUnreliableCommands (p_channels (peer_at h1 i) ! c) \<noteq> []
       then enet_peer_dispatch_incoming_unreliable_commands i c h1 else h1)"
    using assms(3,4)
    by (simp add: enet_peer_dispatch_incoming_reliable_commands_def Let_def h1_def)
  obtain left d m u where r: "dispatch_unreliable_loop (ch_incomingReliableSequenceNumber (p_channels (peer_at h1 i) ! c))
      (ch_incomingUnreliableSequenceNumber (p_channels (peer_at h1 i) ! c)) [] [] 0 []
      (ch_incomingUnreliableCommands (p_channels (peer_at h1 i) ! c)) = (left, d, m, u)"
    by (metis prod_cases4)
  have "unreliable_split s [] [] [] (ch_incomingUnreliableCommands (p_channels (peer_at h1 i) ! c)) (left, d, m, u)"
    by (subst r [symmetric], subst h1(3), simp) (rule dispatch_unreliable_loop_spec, simp_all)
  then have m: "\<forall>ic\<in>set m. deliverable s ic" by (auto simp: unreliable_split_def)
  show ?thesis
    using dispatch_unreliable_peer [OF h1(1,2) r] m h1 assms(1,2)
    by (auto simp: eq Let_def)
qed

text \<open>Property C7.  Reliable delivery is in order and without gaps: the commands handed over are the
  complete ones at the front of the channel that continue its sequence number, each taking the
  numbers of its fragments; the number advances by exactly these; and the first command left is
  incomplete or not the next one.\<close>

theorem dispatch_reliable_in_order:
  assumes "i < length (h_peers h)" "c < length (p_channels (peer_at h i))"
    and "h' = enet_peer_dispatch_incoming_reliable_commands i c h"
    and "ch = p_channels (peer_at h i) ! c" "ch' = p_channels (peer_at h' i) ! c"
  shows "\<exists>ready more.
    ch_incomingReliableCommands ch = ready @ ch_incomingReliableCommands ch' \<and>
    follows (ch_incomingReliableSequenceNumber ch) ready \<and>
    ch_incomingReliableSequenceNumber ch' =
      ch_incomingReliableSequenceNumber ch + sum_list (map numbers_taken ready) \<and>
    p_dispatchedCommands (peer_at h' i) = p_dispatchedCommands (peer_at h i) @ ready @ more \<and>
    (\<forall>ic\<in>set more. deliverable (ch_incomingReliableSequenceNumber ch') ic) \<and>
    (ch_incomingReliableCommands ch' \<noteq> [] \<longrightarrow>
      ic_fragmentsRemaining (hd (ch_incomingReliableCommands ch')) > 0 \<or>
      ic_reliableSequenceNumber (hd (ch_incomingReliableCommands ch')) \<noteq>
        ch_incomingReliableSequenceNumber ch' + 1)"
proof -
  obtain ready rest s where r: "dispatch_reliable_loop (ch_incomingReliableSequenceNumber ch)
      (ch_incomingReliableCommands ch) = (ready, rest, s)" by (metis prod_cases3)
  note spec = dispatch_reliable_loop_spec [OF r]
  show ?thesis
  proof (cases "ready = []")
    case True
    then have "h' = h"
      using r assms(3,4) by (simp add: enet_peer_dispatch_incoming_reliable_commands_def Let_def)
    then show ?thesis using spec True assms(4,5) by (intro exI [of _ "[]"]) auto
  next
    case False
    then show ?thesis
      using dispatch_reliable_peer [OF assms(1,2) r [unfolded assms(4)] False, folded assms(3)] spec
      by (auto simp: Let_def assms(5))
  qed
qed

theorem dispatch_reliable_in_order_witness:
  "let h = incoming_example (new_channel\<lparr>ch_incomingReliableSequenceNumber := 65534,
         ch_incomingReliableCommands := map reliable_example [65535, 0, 2]\<rparr>);
       h' = enet_peer_dispatch_incoming_reliable_commands 0 0 h
   in \<exists>ready. p_dispatchedCommands (peer_at h' 0) = ready \<and> follows 65534 (take 2 ready) \<and>
        ch_incomingReliableSequenceNumber (p_channels (peer_at h' 0) ! 0) = 0"
  using dispatch_reliable_in_order [of 0 "incoming_example (new_channel\<lparr>
      ch_incomingReliableSequenceNumber := 65534,
      ch_incomingReliableCommands := map reliable_example [65535, 0, 2]\<rparr>)" 0, OF _ _ refl refl refl]
    dispatch_reliable_peer [of 0 "incoming_example (new_channel\<lparr>
      ch_incomingReliableSequenceNumber := 65534,
      ch_incomingReliableCommands := map reliable_example [65535, 0, 2]\<rparr>)" 0
      "map reliable_example [65535, 0]" "[reliable_example 2]" 0]
  by (auto simp: Let_def reliable_example_def zero_peer_def numbers_taken_def)

lemma packet_create_refused:
  "enet_packet_create hp data len flags = (None, hp') \<Longrightarrow> hp_packets hp' = hp_packets hp"
  by (auto simp: enet_packet_create_def enet_malloc_def insert_packet_def split: if_splits prod.splits)

lemma packet_create_made:
  "enet_packet_create hp data len flags = (Some k, hp') \<Longrightarrow>
   k = hp_next hp \<and> pk_freeCallback (deref_packet hp' k) = None \<and>
   hp_packets hp' = (hp_packets hp)(k \<mapsto> deref_packet hp' k)"
  by (auto simp: enet_packet_create_def enet_malloc_def insert_packet_def deref_packet_def
      split: if_splits prod.splits)

lemma new_incoming_refused:
  "new_incoming command u n k hp = (None, hp') \<Longrightarrow> hp_packets hp k = Some pk \<Longrightarrow>
   pk_freeCallback pk = None \<Longrightarrow> hp_packets hp' = (hp_packets hp)(k := None)"
  by (auto simp: new_incoming_def enet_malloc_def enet_packet_destroy_def deref_packet_def Let_def
      split: if_splits)

text \<open>Property C8.  A command that is discarded or refused leaves no trace: no peer, no dispatch
  queue entry and no packet changes, whichever allocation failed, and the packet made for it is
  destroyed again.  A discarded fragment is always an error to the caller.\<close>

theorem queue_incoming_refused:
  assumes "enet_peer_queue_incoming_command i command data len flags n h = (q, h')"
    and "q = NotifyError \<or> q = DummyCommand"
    and "hp_packets (h_heap h) (hp_next (h_heap h)) = None"
  shows "h_peers h' = h_peers h \<and> h_dispatchQueue h' = h_dispatchQueue h \<and>
    hp_packets (h_heap h') = hp_packets (h_heap h) \<and> (n > 0 \<longrightarrow> q = NotifyError)"
proof (cases "incoming_position command (p_state (peer_at h i))
    (p_channels (peer_at h i) ! unat (channel_of command))")
  case None
  then show ?thesis using assms(1) by (auto simp: enet_peer_queue_incoming_command_def Let_def)
next
  case (Some ku)
  obtain made hp1 where made: "enet_packet_create (h_heap h) data len flags = (made, hp1)" by force
  show ?thesis
  proof (cases "p_totalWaitingData (peer_at h i) \<ge> h_maximumWaitingData h \<or> made = None")
    case True
    then show ?thesis
      using assms(1) Some made packet_create_refused
      by (auto simp: enet_peer_queue_incoming_command_def Let_def split: prod.splits if_splits)
  next
    case False
    then obtain k where k: "made = Some k" by auto
    obtain pk where pk: "k = hp_next (h_heap h)" "pk_freeCallback pk = None"
        "hp_packets hp1 = (hp_packets (h_heap h))(k \<mapsto> pk)"
      using packet_create_made made k by blast
    obtain ic hp2 where ic: "new_incoming command (snd ku) n k hp1 = (ic, hp2)" by force
    have "ic = None" and h': "q = NotifyError" "h' = h\<lparr>h_heap := hp2\<rparr>"
      using assms(1,2) Some made k False ic
      by (auto simp: enet_peer_queue_incoming_command_def Let_def split: prod.splits option.splits)
    then have "hp_packets hp2 = (hp_packets hp1)(k := None)"
      using new_incoming_refused [of command "snd ku" n k hp1 hp2 pk] ic pk by simp
    then show ?thesis using h' pk assms(3) by auto
  qed
qed

theorem queue_incoming_refused_witness:
  "let h = (incoming_example new_channel)\<lparr>h_heap := fresh_heap\<lparr>hp_mallocFails := (\<lambda>j. j = 2)\<rparr>\<rparr>;
       r = enet_peer_queue_incoming_command 0
             (\<lparr>pr_header = \<lparr>hd_command = 6, hd_channelID = 0, hd_reliableSequenceNumber = 1\<rparr>,
               pr_body = SendReliable 0\<rparr>) (Some [5, 6]) 2 1 0 h
   in fst r = NotifyError \<and> hp_packets (h_heap (snd r)) = (\<lambda>_. None) \<and> h_peers (snd r) = h_peers h"
proof -
  let ?h = "(incoming_example new_channel)\<lparr>h_heap := fresh_heap\<lparr>hp_mallocFails := (\<lambda>j. j = 2)\<rparr>\<rparr>"
  let ?r = "enet_peer_queue_incoming_command 0
             (\<lparr>pr_header = \<lparr>hd_command = 6, hd_channelID = 0, hd_reliableSequenceNumber = 1\<rparr>,
               pr_body = SendReliable 0\<rparr>) (Some [5, 6]) 2 1 0 ?h"
  have "fst ?r = NotifyError"
    by (simp add: enet_peer_queue_incoming_command_def incoming_position_def Let_def zero_peer_def
        new_channel_def outside_window_ahead ahead_eq enet_packet_create_def insert_packet_def
        enet_malloc_def new_incoming_def fresh_heap_def)
  moreover have "hp_packets (h_heap ?h) (hp_next (h_heap ?h)) = None" by (simp add: fresh_heap_def)
  ultimately show ?thesis
    using queue_incoming_refused [OF surjective_pairing [of ?r]] by (simp add: Let_def fresh_heap_def)
qed

lemma new_incoming_plain:
  assumes "\<forall>j. \<not> hp_mallocFails hp j"
  shows "\<exists>hp'. new_incoming command u 0 k hp =
      (Some \<lparr>ic_address = hp_next hp, ic_reliableSequenceNumber = hd_reliableSequenceNumber (pr_header command),
         ic_unreliableSequenceNumber = u, ic_command = command, ic_fragmentCount = 0,
         ic_fragmentsRemaining = 0, ic_fragments = None, ic_packet = Some k\<rparr>, hp') \<and>
      hp_packets hp' = hp_packets hp"
  using assms by (simp add: new_incoming_def enet_malloc_def Let_def)

lemma packet_create_plain:
  assumes "\<forall>j. \<not> hp_mallocFails hp j" "flags AND ENET_PACKET_FLAG_NO_ALLOCATE = 0"
    "unat len \<le> length d"
  shows "\<exists>hp' pk. enet_packet_create hp (Some d) len flags = (Some (hp_next hp), hp') \<and>
    hp_packets hp' = (hp_packets hp)(hp_next hp \<mapsto> pk) \<and> pk_referenceCount pk = 0 \<and>
    pk_dataLength pk = len \<and> packet_bytes hp' (hp_next hp) = take (unat len) d \<and>
    (\<forall>j. \<not> hp_mallocFails hp' j)"
  using assms
  by (auto simp: enet_packet_create_def enet_malloc_def insert_packet_def packet_bytes_def Let_def
      deref_packet_def fresh_copy_full fun_upd_same)

lemma link_next_reliable:
  assumes "i < length (h_peers h)" "c < length (p_channels (peer_at h i))"
    and "ch_incomingReliableCommands (p_channels (peer_at h i) ! c) = []"
    and "ch_incomingUnreliableCommands (p_channels (peer_at h i) ! c) = []"
    and "p_dispatchedCommands (peer_at h i) = []"
    and "number_of (ic_command ic) = ENET_PROTOCOL_COMMAND_SEND_RELIABLE"
    and "ic_fragmentsRemaining ic = 0" "ic_packet ic = Some k"
    and "ic_reliableSequenceNumber ic =
      ch_incomingReliableSequenceNumber (p_channels (peer_at h i) ! c) + 1"
    and "p_needsDispatch (peer_at h i) \<Longrightarrow> i \<in> set (h_dispatchQueue h)"
  shows "let h' = link_incoming i c 0 ic h
    in p_dispatchedCommands (peer_at h' i) = [ic] \<and> h_heap h' = packet_ref k (h_heap h) \<and>
       i \<in> set (h_dispatchQueue h') \<and> length (h_peers h') = length (h_peers h)"
  using assms
  by (auto simp: link_incoming_def insert_incoming_def Let_def upd_channel_def
      enet_peer_dispatch_incoming_reliable_commands_def enet_needs_dispatch_def)

lemma packet_bytes_cong:
  "pk_data (deref_packet hp k) = pk_data (deref_packet hp' k) \<Longrightarrow>
   pk_dataLength (deref_packet hp k) = pk_dataLength (deref_packet hp' k) \<Longrightarrow>
   packet_bytes hp k = packet_bytes hp' k"
  by (simp add: packet_bytes_def Let_def)

text \<open>Property C9.  From the datagram to the application: a reliable command that carries the next
  number of an idle channel of a connected peer is queued, puts the peer in the dispatch queue, and
  the next \<^verbatim>\<open>enet_peer_receive\<close> returns its channel and a packet with exactly the bytes received,
  owned by the caller.\<close>

theorem reliable_command_delivered:
  assumes i: "i < length (h_peers h)" and c: "unat (channel_of command) < length (p_channels (peer_at h i))"
    and ch: "ch = p_channels (peer_at h i) ! unat (channel_of command)"
      "ch_incomingReliableCommands ch = []" "ch_incomingUnreliableCommands ch = []"
      "p_dispatchedCommands (peer_at h i) = []"
    and n: "number_of command = ENET_PROTOCOL_COMMAND_SEND_RELIABLE"
      "hd_reliableSequenceNumber (pr_header command) = ch_incomingReliableSequenceNumber ch + 1"
    and st: "p_state (peer_at h i) = ENET_PEER_STATE_CONNECTED"
      "p_totalWaitingData (peer_at h i) < h_maximumWaitingData h"
      "p_needsDispatch (peer_at h i) \<Longrightarrow> i \<in> set (h_dispatchQueue h)"
    and hp: "\<forall>j. \<not> hp_mallocFails (h_heap h) j" "flags AND ENET_PACKET_FLAG_NO_ALLOCATE = 0"
      "unat len \<le> length d"
  shows "\<exists>a h1 k h2. enet_peer_queue_incoming_command i command (Some d) len flags 0 h = (Queued a, h1) \<and>
    i \<in> set (h_dispatchQueue h1) \<and>
    enet_peer_receive i h1 = (Some (k, channel_of command), h2) \<and>
    packet_bytes (h_heap h2) k = take (unat len) d \<and>
    pk_referenceCount (deref_packet (h_heap h2) k) = 0"
proof -
  define k where "k = hp_next (h_heap h)"
  obtain hp1 pk where create: "enet_packet_create (h_heap h) (Some d) len flags = (Some k, hp1)"
      "hp_packets hp1 = (hp_packets (h_heap h))(k \<mapsto> pk)" "pk_referenceCount pk = 0"
      "packet_bytes hp1 k = take (unat len) d" "\<forall>j. \<not> hp_mallocFails hp1 j"
    using packet_create_plain [OF hp] by (auto simp: k_def)
  obtain ic hp2 where ic: "new_incoming command 0 0 k hp1 = (Some ic, hp2)"
      "hp_packets hp2 = hp_packets hp1" "ic_packet ic = Some k" "ic_command ic = command"
      "ic_fragmentsRemaining ic = 0"
      "ic_reliableSequenceNumber ic = hd_reliableSequenceNumber (pr_header command)"
    using new_incoming_plain [OF create(5), of command 0 k] by auto
  define h1 where "h1 = link_incoming i (unat (channel_of command)) 0 ic (h\<lparr>h_heap := hp2\<rparr>)"
  have "\<not> outside_window (ch_incomingReliableSequenceNumber ch + 1) (ch_incomingReliableSequenceNumber ch)"
    by (rule near_inside) (simp add: ahead_def)
  then have "incoming_position command (p_state (peer_at h i))
      (p_channels (peer_at h i) ! unat (channel_of command)) = Some (0, 0)"
    using n st(1) ch(2) by (simp add: incoming_position_def Let_def ch(1) [symmetric])
  then have queued: "enet_peer_queue_incoming_command i command (Some d) len flags 0 h =
      (Queued (ic_address ic), h1)"
    using st(2) create(1) ic(1)
    by (simp add: enet_peer_queue_incoming_command_def Let_def h1_def not_le)
  have linked: "p_dispatchedCommands (peer_at h1 i) = [ic]" "h_heap h1 = packet_ref k hp2"
      "i \<in> set (h_dispatchQueue h1)" "length (h_peers h1) = length (h_peers h)"
    using link_next_reliable [of i "h\<lparr>h_heap := hp2\<rparr>" "unat (channel_of command)" ic k] i c ch n st(3) ic
    by (auto simp: h1_def Let_def)
  define h2 where "h2 = snd (enet_peer_receive i h1)"
  have packets: "hp_packets (h_heap h1) = (hp_packets hp1)(k \<mapsto> pk\<lparr>pk_referenceCount := 1\<rparr>)"
    using create(2,3) ic(2) by (simp add: linked(2) packet_ref_def)
  have recv: "enet_peer_receive i h1 = (Some (k, channel_of command), h2)"
    using linked(1) ic(3,4) by (simp add: enet_peer_receive_def h2_def Let_def)
  have "deref_packet (h_heap h2) k = pk"
    using linked(1) ic(3) packets create(3)
    by (simp add: enet_peer_receive_def h2_def Let_def deref_packet_def)
  then have "packet_bytes (h_heap h2) k = take (unat len) d" "pk_referenceCount (deref_packet (h_heap h2) k) = 0"
    using create(2,3,4) packet_bytes_cong [of "h_heap h2" k hp1] by (simp_all add: deref_packet_def)
  then show ?thesis using queued linked(3) recv by blast
qed

theorem reliable_command_delivered_witness:
  "\<exists>a h1 k h2. enet_peer_queue_incoming_command 0 \<lparr>pr_header = \<lparr>hd_command = 134, hd_channelID = 0,
        hd_reliableSequenceNumber = 0\<rparr>, pr_body = SendReliable 0\<rparr> (Some [5, 6, 7]) 2 1 0
        (incoming_example (new_channel\<lparr>ch_incomingReliableSequenceNumber := 65535\<rparr>)) = (Queued a, h1) \<and>
     enet_peer_receive 0 h1 = (Some (k, 0), h2) \<and> packet_bytes (h_heap h2) k = [5, 6]"
  using reliable_command_delivered [of 0
      "incoming_example (new_channel\<lparr>ch_incomingReliableSequenceNumber := 65535\<rparr>)"
      "\<lparr>pr_header = \<lparr>hd_command = 134, hd_channelID = 0, hd_reliableSequenceNumber = 0\<rparr>,
        pr_body = SendReliable 0\<rparr>" "new_channel\<lparr>ch_incomingReliableSequenceNumber := 65535\<rparr>" 1 2 "[5, 6, 7]"]
  by (fastforce simp: zero_peer_def new_channel_def fresh_heap_def)

end
