(* ===== verification/EnetOutgoing.thy ===== *)
theory EnetOutgoing
  imports EnetState
begin

text \<open>
  Queueing outgoing traffic on a peer (\<^verbatim>\<open>enet/peer.cpp\<close>): the sequence numbers a command gets,
  the fragmentation of large packets, pings, and the packet throttle.

  The operations that touch only the peer and the packet heap are functions on these two;
  \<open>enet_peer_send\<close> reads the host's limits as well.  The fragmentation loop is a
  \<open>partial_function\<close>: \<open>None\<close> is the value of a loop that does not end, and the properties show
  that it ends on every peer whose MTU is in the range the protocol enforces.
\<close>

section \<open>Sequence numbers\<close>

text \<open>The chain of \<^verbatim>\<open>if\<close>s that numbers a command.\<close>

definition number_outgoing ::
    "ENetPeer \<Rightarrow> ENetOutgoingCommand \<Rightarrow> ENetPeer \<times> ENetOutgoingCommand" where
  "number_outgoing p oc =
     (let c = channel_of (oc_command oc); channel = channel_at p c
      in if c = 0xFF then
           let p = p\<lparr>p_outgoingReliableSequenceNumber := p_outgoingReliableSequenceNumber p + 1\<rparr>
           in (p, oc\<lparr>oc_reliableSequenceNumber := p_outgoingReliableSequenceNumber p,
                     oc_unreliableSequenceNumber := 0\<rparr>)
         else if command_of (oc_command oc) AND ENET_PROTOCOL_COMMAND_FLAG_ACKNOWLEDGE \<noteq> 0 then
           let channel = channel\<lparr>ch_outgoingReliableSequenceNumber :=
                                   ch_outgoingReliableSequenceNumber channel + 1,
                                 ch_outgoingUnreliableSequenceNumber := 0\<rparr>
           in (upd_channel (unat c) (\<lambda>_. channel) p,
               oc\<lparr>oc_reliableSequenceNumber := ch_outgoingReliableSequenceNumber channel,
                  oc_unreliableSequenceNumber := 0\<rparr>)
         else if command_of (oc_command oc) AND ENET_PROTOCOL_COMMAND_FLAG_UNSEQUENCED \<noteq> 0 then
           (p\<lparr>p_outgoingUnsequencedGroup := p_outgoingUnsequencedGroup p + 1\<rparr>,
            oc\<lparr>oc_reliableSequenceNumber := 0, oc_unreliableSequenceNumber := 0\<rparr>)
         else
           let channel = (if oc_fragmentOffset oc = 0
                 then channel\<lparr>ch_outgoingUnreliableSequenceNumber :=
                                ch_outgoingUnreliableSequenceNumber channel + 1\<rparr>
                 else channel)
           in (upd_channel (unat c) (\<lambda>_. channel) p,
               oc\<lparr>oc_reliableSequenceNumber := ch_outgoingReliableSequenceNumber channel,
                  oc_unreliableSequenceNumber := ch_outgoingUnreliableSequenceNumber channel\<rparr>))"

text \<open>Writing the number into the variant of the union.\<close>

definition set_unreliableSequenceNumber :: "u16 \<Rightarrow> ENetProtocolBody \<Rightarrow> ENetProtocolBody" where
  "set_unreliableSequenceNumber s b = (case b of SendUnreliable _ l \<Rightarrow> SendUnreliable s l | _ \<Rightarrow> b)"

definition set_unsequencedGroup :: "u16 \<Rightarrow> ENetProtocolBody \<Rightarrow> ENetProtocolBody" where
  "set_unsequencedGroup g b = (case b of SendUnsequenced _ l \<Rightarrow> SendUnsequenced g l | _ \<Rightarrow> b)"

definition outgoing_body :: "ENetPeer \<Rightarrow> ENetOutgoingCommand \<Rightarrow> ENetProtocolBody" where
  "outgoing_body p oc =
     (let n = number_of (oc_command oc); b = pr_body (oc_command oc)
      in if n = ENET_PROTOCOL_COMMAND_SEND_UNRELIABLE
         then set_unreliableSequenceNumber (ENET_HOST_TO_NET_16 (oc_unreliableSequenceNumber oc)) b
         else if n = ENET_PROTOCOL_COMMAND_SEND_UNSEQUENCED
         then set_unsequencedGroup (ENET_HOST_TO_NET_16 (p_outgoingUnsequencedGroup p)) b
         else b)"

text \<open>The command as it enters the queue.\<close>

definition prepare_outgoing ::
    "ENetPeer \<Rightarrow> ENetOutgoingCommand \<Rightarrow> ENetPeer \<times> ENetOutgoingCommand" where
  "prepare_outgoing p oc =
     (let p = p\<lparr>p_outgoingDataTotal := p_outgoingDataTotal p +
            ucast (enet_protocol_command_size (command_of (oc_command oc)) +
                   ucast (oc_fragmentLength oc))\<rparr>
      in case number_outgoing p oc of (p, oc) \<Rightarrow>
        let command = oc_command oc;
            header = (pr_header command)\<lparr>hd_reliableSequenceNumber :=
                        ENET_HOST_TO_NET_16 (oc_reliableSequenceNumber oc)\<rparr>
        in (p, oc\<lparr>oc_sendAttempts := 0, oc_sentTime := 0, oc_roundTripTimeout := 0,
                  oc_roundTripTimeoutLimit := 0,
                  oc_command := \<lparr>pr_header = header, pr_body = outgoing_body p oc\<rparr>\<rparr>))"

definition enet_peer_setup_outgoing_command :: "ENetPeer \<Rightarrow> ENetOutgoingCommand \<Rightarrow> ENetPeer" where
  "enet_peer_setup_outgoing_command p oc =
     (case prepare_outgoing p oc of (p, oc) \<Rightarrow>
        if command_of (oc_command oc) AND ENET_PROTOCOL_COMMAND_FLAG_ACKNOWLEDGE \<noteq> 0
        then p\<lparr>p_outgoingReliableCommands := p_outgoingReliableCommands p @ [oc]\<rparr>
        else p\<lparr>p_outgoingUnreliableCommands := p_outgoingUnreliableCommands p @ [oc]\<rparr>)"

text \<open>The struct as \<^verbatim>\<open>enet_malloc\<close> returns it; the caller sets the fields it names, and
  \<open>enet_peer_setup_outgoing_command\<close> all others.\<close>

definition new_outgoing :: "ENetProtocol \<Rightarrow> nat option \<Rightarrow> u32 \<Rightarrow> u16 \<Rightarrow> ENetOutgoingCommand" where
  "new_outgoing command packet offset len =
     \<lparr>oc_reliableSequenceNumber = 0, oc_unreliableSequenceNumber = 0, oc_sentTime = 0,
      oc_roundTripTimeout = 0, oc_roundTripTimeoutLimit = 0, oc_fragmentOffset = offset,
      oc_fragmentLength = len, oc_sendAttempts = 0, oc_command = command, oc_packet = packet\<rparr>"

text \<open>The result says whether the returned pointer is not NULL.\<close>

definition enet_peer_queue_outgoing_command ::
    "ENetProtocol \<Rightarrow> nat option \<Rightarrow> u32 \<Rightarrow> u16 \<Rightarrow> heap \<Rightarrow> ENetPeer \<Rightarrow> bool \<times> heap \<times> ENetPeer" where
  "enet_peer_queue_outgoing_command command packet offset len hp p =
     (case enet_malloc hp of (ok, hp) \<Rightarrow>
        if \<not> ok then (False, hp, p)
        else (True,
              case packet of None \<Rightarrow> hp | Some k \<Rightarrow> packet_ref k hp,
              enet_peer_setup_outgoing_command p (new_outgoing command packet offset len)))"

section \<open>Throttle and ping\<close>

definition enet_peer_throttle_configure ::
    "u32 \<Rightarrow> u32 \<Rightarrow> u32 \<Rightarrow> heap \<Rightarrow> ENetPeer \<Rightarrow> bool \<times> heap \<times> ENetPeer" where
  "enet_peer_throttle_configure interval acceleration deceleration hp p =
     (let p = p\<lparr>p_packetThrottleInterval := interval, p_packetThrottleAcceleration := acceleration,
               p_packetThrottleDeceleration := deceleration\<rparr>;
          command = make_command
            (ENET_PROTOCOL_COMMAND_THROTTLE_CONFIGURE OR ENET_PROTOCOL_COMMAND_FLAG_ACKNOWLEDGE) 0xFF
            (ThrottleConfigure (ENET_HOST_TO_NET_32 interval) (ENET_HOST_TO_NET_32 acceleration)
               (ENET_HOST_TO_NET_32 deceleration))
      in enet_peer_queue_outgoing_command command None 0 0 hp p)"

definition enet_peer_throttle :: "u32 \<Rightarrow> ENetPeer \<Rightarrow> int \<times> ENetPeer" where
  "enet_peer_throttle rtt p =
     (if p_lastRoundTripTime p \<le> p_lastRoundTripTimeVariance p
      then (0, p\<lparr>p_packetThrottle := p_packetThrottleLimit p\<rparr>)
      else if rtt < p_lastRoundTripTime p then
        let p = p\<lparr>p_packetThrottle := p_packetThrottle p + p_packetThrottleAcceleration p\<rparr>
        in (1, if p_packetThrottle p > p_packetThrottleLimit p
               then p\<lparr>p_packetThrottle := p_packetThrottleLimit p\<rparr> else p)
      else if rtt > p_lastRoundTripTime p + 2 * p_lastRoundTripTimeVariance p then
        (-1, if p_packetThrottle p > p_packetThrottleDeceleration p
             then p\<lparr>p_packetThrottle := p_packetThrottle p - p_packetThrottleDeceleration p\<rparr>
             else p\<lparr>p_packetThrottle := 0\<rparr>)
      else (0, p))"

definition enet_peer_ping :: "heap \<Rightarrow> ENetPeer \<Rightarrow> bool \<times> heap \<times> ENetPeer" where
  "enet_peer_ping hp p =
     (if p_state p \<noteq> ENET_PEER_STATE_CONNECTED then (False, hp, p)
      else enet_peer_queue_outgoing_command
             (make_command (ENET_PROTOCOL_COMMAND_PING OR ENET_PROTOCOL_COMMAND_FLAG_ACKNOWLEDGE)
                0xFF Ping) None 0 0 hp p)"

definition enet_peer_ping_interval :: "u32 \<Rightarrow> ENetPeer \<Rightarrow> ENetPeer" where
  "enet_peer_ping_interval pingInterval p =
     p\<lparr>p_pingInterval := (if pingInterval \<noteq> 0 then pingInterval else ENET_PEER_PING_INTERVAL)\<rparr>"

definition enet_peer_timeout :: "u32 \<Rightarrow> u32 \<Rightarrow> u32 \<Rightarrow> ENetPeer \<Rightarrow> ENetPeer" where
  "enet_peer_timeout timeoutLimit timeoutMinimum timeoutMaximum p =
     p\<lparr>p_timeoutLimit := (if timeoutLimit \<noteq> 0 then timeoutLimit else ENET_PEER_TIMEOUT_LIMIT),
       p_timeoutMinimum := (if timeoutMinimum \<noteq> 0 then timeoutMinimum else ENET_PEER_TIMEOUT_MINIMUM),
       p_timeoutMaximum := (if timeoutMaximum \<noteq> 0 then timeoutMaximum else ENET_PEER_TIMEOUT_MAXIMUM)\<rparr>"

section \<open>Sending a packet\<close>

text \<open>The fragment the loop of \<^verbatim>\<open>enet_peer_send\<close> allocates in one turn.\<close>

definition make_fragment ::
    "nat \<Rightarrow> size_t \<Rightarrow> u8 \<Rightarrow> u8 \<Rightarrow> u16 \<Rightarrow> u32 \<Rightarrow> u32 \<Rightarrow> u32 \<Rightarrow> size_t \<Rightarrow> ENetOutgoingCommand" where
  "make_fragment packet dataLength commandNumber channelID startSequenceNumber fragmentCount
     fragmentNumber fragmentOffset fragmentLength =
     new_outgoing
       (make_command commandNumber channelID (SendFragment
          \<lparr>sf_startSequenceNumber = startSequenceNumber,
           sf_dataLength = ENET_HOST_TO_NET_16 (ucast fragmentLength),
           sf_fragmentCount = ENET_HOST_TO_NET_32 fragmentCount,
           sf_fragmentNumber = ENET_HOST_TO_NET_32 fragmentNumber,
           sf_totalLength = ENET_HOST_TO_NET_32 (ucast dataLength),
           sf_fragmentOffset = ENET_NET_TO_HOST_32 fragmentOffset\<rparr>))
       (Some packet) fragmentOffset (ucast fragmentLength)"

text \<open>The loop.  An allocation that fails makes the code free the fragments and return -1: the
  inner \<open>None\<close>.\<close>

partial_function (option) fragment_loop ::
    "(u32 \<Rightarrow> u32 \<Rightarrow> size_t \<Rightarrow> ENetOutgoingCommand) \<Rightarrow> size_t \<Rightarrow> u32 \<Rightarrow> u32 \<Rightarrow> size_t \<Rightarrow>
     ENetOutgoingCommand list \<Rightarrow> heap \<Rightarrow> ((u32 \<times> ENetOutgoingCommand list) option \<times> heap) option" where
  "fragment_loop fragment dataLength fragmentNumber fragmentOffset fragmentLength fragments hp =
     (if \<not> ucast fragmentOffset < dataLength then Some (Some (fragmentNumber, fragments), hp)
      else
        let fragmentLength = (if dataLength - ucast fragmentOffset < fragmentLength
                              then dataLength - ucast fragmentOffset else fragmentLength)
        in case enet_malloc hp of (ok, hp) \<Rightarrow>
          if \<not> ok then Some (None, hp)
          else fragment_loop fragment dataLength (fragmentNumber + 1)
                 (fragmentOffset + ucast fragmentLength) fragmentLength
                 (fragments @ [fragment fragmentNumber fragmentOffset fragmentLength]) hp)"

definition send_fragmentLength :: "ENetHost \<Rightarrow> ENetPeer \<Rightarrow> size_t" where
  "send_fragmentLength h p =
     (let fragmentLength = ucast (p_mtu p) - 4 - 24
      in if h_checksum h \<noteq> None then fragmentLength - 4 else fragmentLength)"

text \<open>The branch for packets larger than a fragment.\<close>

definition send_fragments ::
    "nat \<Rightarrow> u8 \<Rightarrow> size_t \<Rightarrow> heap \<Rightarrow> ENetPeer \<Rightarrow> (int \<times> heap \<times> ENetPeer) option" where
  "send_fragments packet channelID fragmentLength hp p =
     (let k = deref_packet hp packet; dataLength = pk_dataLength k;
          channel = channel_at p channelID;
          fragmentCount = ucast ((dataLength + fragmentLength - 1) div fragmentLength)
      in if fragmentCount > ENET_PROTOCOL_MAXIMUM_FRAGMENT_COUNT then Some (-1, hp, p)
         else
           let unreliable =
                 pk_flags k AND (ENET_PACKET_FLAG_RELIABLE OR ENET_PACKET_FLAG_UNRELIABLE_FRAGMENT)
                   = ENET_PACKET_FLAG_UNRELIABLE_FRAGMENT \<and>
                 ch_outgoingUnreliableSequenceNumber channel < 0xFFFF;
               commandNumber = (if unreliable then ENET_PROTOCOL_COMMAND_SEND_UNRELIABLE_FRAGMENT
                 else ENET_PROTOCOL_COMMAND_SEND_FRAGMENT OR ENET_PROTOCOL_COMMAND_FLAG_ACKNOWLEDGE);
               startSequenceNumber = ENET_HOST_TO_NET_16
                 (if unreliable then ch_outgoingUnreliableSequenceNumber channel + 1
                  else ch_outgoingReliableSequenceNumber channel + 1)
           in case fragment_loop
                (make_fragment packet dataLength commandNumber channelID startSequenceNumber
                   fragmentCount) dataLength 0 0 fragmentLength [] hp of
                None \<Rightarrow> None
              | Some (None, hp) \<Rightarrow> Some (-1, hp, p)
              | Some (Some (fragmentNumber, fragments), hp) \<Rightarrow>
                  Some (0,
                    update_packet packet (\<lambda>k. k\<lparr>pk_referenceCount :=
                      pk_referenceCount k + ucast fragmentNumber\<rparr>) hp,
                    fold (\<lambda>fragment p. enet_peer_setup_outgoing_command p fragment) fragments p))"

text \<open>The command for a packet that fits.\<close>

definition send_command :: "ENetPacket \<Rightarrow> u8 \<Rightarrow> ENetChannel \<Rightarrow> ENetProtocol" where
  "send_command k channelID channel =
     (let len = ENET_HOST_TO_NET_16 (ucast (pk_dataLength k))
      in if pk_flags k AND (ENET_PACKET_FLAG_RELIABLE OR ENET_PACKET_FLAG_UNSEQUENCED)
              = ENET_PACKET_FLAG_UNSEQUENCED
         then make_command
                (ENET_PROTOCOL_COMMAND_SEND_UNSEQUENCED OR ENET_PROTOCOL_COMMAND_FLAG_UNSEQUENCED)
                channelID (SendUnsequenced 0 len)
         else if pk_flags k AND ENET_PACKET_FLAG_RELIABLE \<noteq> 0 \<or>
                 ch_outgoingUnreliableSequenceNumber channel \<ge> 0xFFFF
         then make_command
                (ENET_PROTOCOL_COMMAND_SEND_RELIABLE OR ENET_PROTOCOL_COMMAND_FLAG_ACKNOWLEDGE)
                channelID (SendReliable len)
         else make_command (ENET_PROTOCOL_COMMAND_SEND_UNRELIABLE) channelID (SendUnreliable 0 len))"

definition enet_peer_send_queue ::
    "nat \<Rightarrow> u8 \<Rightarrow> size_t \<Rightarrow> heap \<Rightarrow> ENetPeer \<Rightarrow> (int \<times> heap \<times> ENetPeer) option" where
  "enet_peer_send_queue packet channelID fragmentLength hp p =
     (let k = deref_packet hp packet
      in if pk_dataLength k > fragmentLength
         then send_fragments packet channelID fragmentLength hp p
         else case enet_peer_queue_outgoing_command
                     (send_command k channelID (channel_at p channelID)) (Some packet) 0
                     (ucast (pk_dataLength k)) hp p of
                (queued, hp, p) \<Rightarrow> Some (if queued then 0 else -1, hp, p))"

definition enet_peer_send :: "nat \<Rightarrow> u8 \<Rightarrow> nat \<Rightarrow> ENetHost \<Rightarrow> (int \<times> ENetHost) option" where
  "enet_peer_send i channelID packet h =
     (let p = peer_at h i; k = deref_packet (h_heap h) packet
      in if p_state p \<noteq> ENET_PEER_STATE_CONNECTED \<or> ucast channelID \<ge> p_channelCount p \<or>
            pk_dataLength k > h_maximumPacketSize h
         then Some (-1, h)
         else case enet_peer_send_queue packet channelID (send_fragmentLength h p) (h_heap h) p of
                None \<Rightarrow> None
              | Some (r, hp, p) \<Rightarrow> Some (r, upd_peer i (\<lambda>_. p) (h\<lparr>h_heap := hp\<rparr>)))"

section \<open>Fragments cover the packet\<close>

text \<open>Offsets and lengths of the fragments, on numbers.\<close>

function chunks :: "nat \<Rightarrow> nat \<Rightarrow> nat \<Rightarrow> (nat \<times> nat) list" where
  "chunks n off len =
     (if off < n \<and> 0 < len then (off, min len (n - off)) # chunks n (off + min len (n - off)) (min len (n - off))
      else [])"
  by pat_completeness auto
termination by (relation "measure (\<lambda>(n, off, len). n - off)") auto

declare chunks.simps [simp del]

fun fragments_of ::
    "(u32 \<Rightarrow> u32 \<Rightarrow> size_t \<Rightarrow> ENetOutgoingCommand) \<Rightarrow> u32 \<Rightarrow> (nat \<times> nat) list \<Rightarrow> ENetOutgoingCommand list"
where
  "fragments_of fragment num [] = []"
| "fragments_of fragment num ((off, len) # cs) =
     fragment num (of_nat off) (of_nat len) # fragments_of fragment (num + 1) cs"

lemma length_fragments_of [simp]: "length (fragments_of f num cs) = length cs"
  by (induction f num cs rule: fragments_of.induct) auto

lemma chunks_cover:
  "off \<le> n \<Longrightarrow> 0 < len \<Longrightarrow> length xs = n \<Longrightarrow>
   concat (map (\<lambda>(off, len). take len (drop off xs)) (chunks n off len)) = drop off xs"
proof (induction n off len rule: chunks.induct)
  case (1 n off len)
  show ?case
  proof (cases "off < n")
    case True
    let ?m = "min len (n - off)"
    have "concat (map (\<lambda>(off, len). take len (drop off xs)) (chunks n (off + ?m) ?m)) = drop (off + ?m) xs"
      using 1 True by (intro "1.IH") auto
    moreover have "take ?m (drop off xs) @ drop (off + ?m) xs = drop off xs"
      using append_take_drop_id [of ?m "drop off xs"] by (simp add: add.commute)
    ultimately show ?thesis
      using True "1.prems" by (subst chunks.simps) simp
  next
    case False
    then show ?thesis using 1 by (subst chunks.simps) simp
  qed
qed

lemma chunks_length:
  "off \<le> n \<Longrightarrow> 0 < len \<Longrightarrow> length (chunks n off len) = (n - off + len - 1) div len"
proof (induction n off len rule: chunks.induct)
  case (1 n off len)
  consider "off = n" | "off < n" "n - off \<le> len" | "off < n" "len < n - off"
    using "1.prems" by linarith
  then show ?case
  proof cases
    case 1
    then show ?thesis using \<open>0 < len\<close> by (subst chunks.simps) simp
  next
    case 2
    then have "chunks n (off + min len (n - off)) (min len (n - off)) = []"
      by (subst chunks.simps) simp
    moreover have "(n - off + len - 1) div len = 1"
      using 2 by (intro div_nat_eqI) auto
    ultimately show ?thesis using 2 \<open>0 < len\<close> by (subst chunks.simps) simp
  next
    case 3
    then have "length (chunks n (off + len) len) = (n - (off + len) + len - 1) div len"
      using 1 by auto
    moreover have "n - off + len - 1 = (n - (off + len) + len - 1) + len" using 3 by simp
    then have "(n - off + len - 1) div len = Suc ((n - (off + len) + len - 1) div len)"
      using \<open>0 < len\<close> by (metis Suc_eq_plus1 div_add_self2 less_numeral_extra(3))
    ultimately show ?thesis using 3 \<open>0 < len\<close> by (subst chunks.simps) simp
  qed
qed

lemma chunks_bounds:
  "off' \<le> off \<Longrightarrow> (a, b) \<in> set (chunks n off len) \<Longrightarrow> off' \<le> a \<and> 0 < b \<and> b \<le> len \<and> a + b \<le> n"
proof (induction n off len arbitrary: off' rule: chunks.induct)
  case (1 n off len)
  let ?m = "min len (n - off)"
  have *: "off < n \<and> 0 < len" using 1(3) by (subst (asm) chunks.simps) (auto split: if_splits)
  consider "a = off" "b = ?m" | "(a, b) \<in> set (chunks n (off + ?m) ?m)"
    using 1(3) * by (subst (asm) chunks.simps) auto
  then show ?case
  proof cases
    case 1
    then show ?thesis using * \<open>off' \<le> off\<close> by auto
  next
    case 2
    with * show ?thesis using "1.IH" [of off'] \<open>off' \<le> off\<close> by force
  qed
qed

lemma fragment_loop_result:
  "0 < unat fl \<Longrightarrow> unat dl < 2 ^ 32 \<Longrightarrow> unat off \<le> unat dl \<Longrightarrow>
   \<exists>m. fragment_loop f dl num off fl fs hp = Some (None, hp\<lparr>hp_mallocs := m\<rparr>) \<and>
         (\<exists>j. hp_mallocFails hp j) \<or>
       fragment_loop f dl num off fl fs hp =
         Some (Some (num + of_nat (length (chunks (unat dl) (unat off) (unat fl))),
                     fs @ fragments_of f num (chunks (unat dl) (unat off) (unat fl))),
               hp\<lparr>hp_mallocs := m\<rparr>)"
proof (induction "unat dl - unat off" arbitrary: num off fl fs hp rule: less_induct)
  case less
  have cast: "unat (ucast off :: size_t) = unat off" by simp
  show ?case
  proof (cases "unat off < unat dl")
    case False
    then have "\<not> ucast off < dl" by (simp add: word_less_nat_alt cast)
    moreover have "chunks (unat dl) (unat off) (unat fl) = []" using False by (subst chunks.simps) simp
    ultimately have "fragment_loop f dl num off fl fs hp =
        Some (Some (num, fs), hp\<lparr>hp_mallocs := hp_mallocs hp\<rparr>)"
      by (subst fragment_loop.simps) simp
    then show ?thesis
      using \<open>chunks (unat dl) (unat off) (unat fl) = []\<close>
      by (intro exI [of _ "hp_mallocs hp"]) simp
  next
    case True
    define fl' where "fl' = (if dl - ucast off < fl then dl - ucast off else fl)"
    have sub: "unat (dl - ucast off) = unat dl - unat off"
      using True by (simp add: unat_sub_if' cast)
    have fl': "unat fl' = min (unat fl) (unat dl - unat off)"
      by (simp add: fl'_def word_less_nat_alt sub)
    have bound: "unat off + unat fl' < 2 ^ 32" using True less.prems fl' by simp
    have "unat fl' < 2 ^ 32" using bound by simp
    then have c2: "unat (ucast fl' :: u32) = unat fl'" by (simp add: unat_ucast_le)
    have off': "unat (off + ucast fl') = unat off + unat fl'"
      using bound by (simp add: unat_word_ariths c2)
    have unfold: "fragment_loop f dl num off fl fs hp =
        (if hp_mallocFails hp (hp_mallocs hp) then Some (None, hp\<lparr>hp_mallocs := Suc (hp_mallocs hp)\<rparr>)
         else fragment_loop f dl (num + 1) (off + ucast fl') fl' (fs @ [f num off fl'])
                (hp\<lparr>hp_mallocs := Suc (hp_mallocs hp)\<rparr>))"
      using True
      by (subst fragment_loop.simps) (simp add: word_less_nat_alt cast fl'_def enet_malloc_def Let_def)
    have step: "chunks (unat dl) (unat off) (unat fl) =
        (unat off, unat fl') # chunks (unat dl) (unat (off + ucast fl')) (unat fl')"
      using True less.prems by (subst chunks.simps) (simp add: fl' off')
    show ?thesis
    proof (cases "hp_mallocFails hp (hp_mallocs hp)")
      case True
      then show ?thesis using unfold by auto
    next
      case False
      have "\<exists>m. fragment_loop f dl (num + 1) (off + ucast fl') fl' (fs @ [f num off fl'])
               (hp\<lparr>hp_mallocs := Suc (hp_mallocs hp)\<rparr>) =
             Some (None, (hp\<lparr>hp_mallocs := Suc (hp_mallocs hp)\<rparr>)\<lparr>hp_mallocs := m\<rparr>) \<and>
             (\<exists>j. hp_mallocFails (hp\<lparr>hp_mallocs := Suc (hp_mallocs hp)\<rparr>) j) \<or>
           fragment_loop f dl (num + 1) (off + ucast fl') fl' (fs @ [f num off fl'])
               (hp\<lparr>hp_mallocs := Suc (hp_mallocs hp)\<rparr>) =
             Some (Some (num + 1 + of_nat (length (chunks (unat dl) (unat (off + ucast fl')) (unat fl'))),
               (fs @ [f num off fl']) @ fragments_of f (num + 1)
                 (chunks (unat dl) (unat (off + ucast fl')) (unat fl'))),
               (hp\<lparr>hp_mallocs := Suc (hp_mallocs hp)\<rparr>)\<lparr>hp_mallocs := m\<rparr>)"
        using True less.prems fl' off' by (intro less.hyps) auto
      then show ?thesis using False unfold step by (simp add: add.assoc)
    qed
  qed
qed

section \<open>Numbering a run of reliable commands\<close>

text \<open>The command as the reliable branch leaves it.\<close>

definition reliable_outgoing :: "u16 \<Rightarrow> ENetOutgoingCommand \<Rightarrow> ENetOutgoingCommand" where
  "reliable_outgoing s oc = oc\<lparr>oc_reliableSequenceNumber := s, oc_unreliableSequenceNumber := 0,
     oc_sendAttempts := 0, oc_sentTime := 0, oc_roundTripTimeout := 0, oc_roundTripTimeoutLimit := 0,
     oc_command := (oc_command oc)\<lparr>pr_header := (pr_header (oc_command oc))\<lparr>
       hd_reliableSequenceNumber := ENET_HOST_TO_NET_16 s\<rparr>\<rparr>\<rparr>"

fun reliable_run :: "u16 \<Rightarrow> ENetOutgoingCommand list \<Rightarrow> ENetOutgoingCommand list" where
  "reliable_run s [] = []"
| "reliable_run s (oc # ocs) = reliable_outgoing s oc # reliable_run (s + 1) ocs"

text \<open>A command with the acknowledge flag on channel \<open>c\<close> that is no unreliable or unsequenced send.\<close>

definition reliable_on :: "u8 \<Rightarrow> ENetOutgoingCommand \<Rightarrow> bool" where
  "reliable_on c oc \<longleftrightarrow> channel_of (oc_command oc) = c \<and>
     command_of (oc_command oc) AND ENET_PROTOCOL_COMMAND_FLAG_ACKNOWLEDGE \<noteq> 0 \<and>
     number_of (oc_command oc) \<noteq> ENET_PROTOCOL_COMMAND_SEND_UNRELIABLE \<and>
     number_of (oc_command oc) \<noteq> ENET_PROTOCOL_COMMAND_SEND_UNSEQUENCED"

lemma setup_reliable:
  assumes "reliable_on c oc" "c \<noteq> 0xFF" "unat c < length (p_channels p)"
  shows "\<exists>total. enet_peer_setup_outgoing_command p oc =
    p\<lparr>p_outgoingDataTotal := total,
      p_channels := (p_channels p)[unat c := (channel_at p c)\<lparr>
        ch_outgoingReliableSequenceNumber := ch_outgoingReliableSequenceNumber (channel_at p c) + 1,
        ch_outgoingUnreliableSequenceNumber := 0\<rparr>],
      p_outgoingReliableCommands := p_outgoingReliableCommands p @
        [reliable_outgoing (ch_outgoingReliableSequenceNumber (channel_at p c) + 1) oc]\<rparr>"
  using assms
  by (intro exI [of _ "p_outgoingDataTotal p + ucast (enet_protocol_command_size
        (command_of (oc_command oc)) + ucast (oc_fragmentLength oc))"])
     (simp add: enet_peer_setup_outgoing_command_def prepare_outgoing_def number_outgoing_def Let_def
       reliable_on_def reliable_outgoing_def outgoing_body_def upd_channel_def)

lemma setup_reliable_run:
  assumes "\<forall>oc\<in>set ocs. reliable_on c oc" "c \<noteq> 0xFF" "unat c < length (p_channels p)"
  shows "let p' = fold (\<lambda>oc p. enet_peer_setup_outgoing_command p oc) ocs p;
             s = ch_outgoingReliableSequenceNumber (channel_at p c)
         in p_outgoingReliableCommands p' = p_outgoingReliableCommands p @ reliable_run (s + 1) ocs \<and>
            p_outgoingUnreliableCommands p' = p_outgoingUnreliableCommands p \<and>
            length (p_channels p') = length (p_channels p) \<and>
            ch_outgoingReliableSequenceNumber (channel_at p' c) = s + of_nat (length ocs)"
  using assms
proof (induction ocs arbitrary: p)
  case (Cons oc ocs)
  let ?s = "ch_outgoingReliableSequenceNumber (channel_at p c)"
  obtain total where q: "enet_peer_setup_outgoing_command p oc =
      p\<lparr>p_outgoingDataTotal := total,
        p_channels := (p_channels p)[unat c := (channel_at p c)\<lparr>
          ch_outgoingReliableSequenceNumber := ?s + 1, ch_outgoingUnreliableSequenceNumber := 0\<rparr>],
        p_outgoingReliableCommands := p_outgoingReliableCommands p @ [reliable_outgoing (?s + 1) oc]\<rparr>"
    using setup_reliable Cons.prems by fastforce
  then show ?case
    using Cons.IH [of "enet_peer_setup_outgoing_command p oc"] Cons.prems
    by (simp add: Let_def algebra_simps)
qed (simp add: Let_def)

section \<open>What a queued command carries\<close>

definition command_payload :: "heap \<Rightarrow> ENetOutgoingCommand \<Rightarrow> u8 list" where
  "command_payload hp oc = (case oc_packet oc of
     None \<Rightarrow> []
   | Some k \<Rightarrow> take (unat (oc_fragmentLength oc)) (drop (unat (oc_fragmentOffset oc)) (packet_bytes hp k)))"

lemma payload_reliable_outgoing [simp]:
  "command_payload hp (reliable_outgoing s oc) = command_payload hp oc"
  by (simp add: command_payload_def reliable_outgoing_def split: option.split)

lemma payload_reliable_run [simp]:
  "map (command_payload hp) (reliable_run s ocs) = map (command_payload hp) ocs"
  by (induction s ocs rule: reliable_run.induct) auto

lemma length_reliable_run [simp]: "length (reliable_run s ocs) = length ocs"
  by (induction s ocs rule: reliable_run.induct) auto

lemma nth_reliable_run:
  "j < length ocs \<Longrightarrow> reliable_run s ocs ! j = reliable_outgoing (s + of_nat j) (ocs ! j)"
proof (induction s ocs arbitrary: j rule: reliable_run.induct)
  case (2 s oc ocs)
  then show ?case by (cases j) (auto simp: algebra_simps)
qed simp

lemma nth_fragments_of:
  "j < length cs \<Longrightarrow>
   fragments_of f num cs ! j = f (num + of_nat j) (of_nat (fst (cs ! j))) (of_nat (snd (cs ! j)))"
proof (induction f num cs arbitrary: j rule: fragments_of.induct)
  case (2 f num off len cs)
  then show ?case by (cases j) (auto simp: algebra_simps)
qed simp

lemma payload_make_fragment:
  assumes "off < 2 ^ 32" "len < 2 ^ 16"
  shows "command_payload hp (make_fragment k dl n c start cnt num (of_nat off) (of_nat len)) =
    take len (drop off (packet_bytes hp k))"
proof -
  have "unat (ucast (of_nat len :: size_t) :: u16) = len"
    using assms by (simp add: unat_ucast_le unat_of_nat take_bit_nat_eq_self unsigned_of_nat)
  moreover have "unat (of_nat off :: u32) = off"
    using assms by (simp add: unsigned_of_nat take_bit_nat_eq_self)
  ultimately show ?thesis
    by (simp add: command_payload_def make_fragment_def new_outgoing_def)
qed

lemma payload_fragments:
  assumes "\<forall>(a, b)\<in>set cs. a < 2 ^ 32 \<and> b < 2 ^ 16"
  shows "map (command_payload hp) (fragments_of (make_fragment k dl n c start cnt) num cs) =
    map (\<lambda>(a, b). take b (drop a (packet_bytes hp k))) cs"
  using assms
proof (induction cs arbitrary: num)
  case (Cons ab cs)
  then show ?case by (cases ab) (auto simp: payload_make_fragment)
qed simp

lemma reliable_on_fragments:
  "oc \<in> set (fragments_of (make_fragment k dl
      (ENET_PROTOCOL_COMMAND_SEND_FRAGMENT OR ENET_PROTOCOL_COMMAND_FLAG_ACKNOWLEDGE) c start cnt) num cs) \<Longrightarrow>
   reliable_on c oc"
  by (induction cs arbitrary: num)
     (auto simp: make_fragment_def new_outgoing_def make_command_def reliable_on_def)

lemma send_fragmentLength_bounds:
  assumes "ENET_PROTOCOL_MINIMUM_MTU \<le> p_mtu p" "p_mtu p \<le> ENET_PROTOCOL_MAXIMUM_MTU"
  shows "544 \<le> unat (send_fragmentLength h p)" "unat (send_fragmentLength h p) \<le> 4068"
    "unat (send_fragmentLength h p) + 28 \<le> unat (p_mtu p)"
proof -
  have m: "576 \<le> unat (p_mtu p)" "unat (p_mtu p) \<le> 4096"
    using assms by (simp_all add: word_le_nat_alt)
  have a: "unat (ucast (p_mtu p) - 4 :: size_t) = unat (p_mtu p) - 4"
    using m by (subst unat_sub) (simp_all add: word_le_nat_alt)
  have b: "unat (ucast (p_mtu p) - 4 - 24 :: size_t) = unat (p_mtu p) - 28"
    using m a by (subst unat_sub) (simp_all add: word_le_nat_alt)
  have c: "unat (ucast (p_mtu p) - 4 - 24 - 4 :: size_t) = unat (p_mtu p) - 32"
    using m b by (subst unat_sub) (simp_all add: word_le_nat_alt)
  have eq: "unat (send_fragmentLength h p) = unat (p_mtu p) - (if h_checksum h \<noteq> None then 32 else 28)"
    unfolding send_fragmentLength_def Let_def using b c by (simp only: split: if_split) simp
  show "544 \<le> unat (send_fragmentLength h p)" "unat (send_fragmentLength h p) \<le> 4068"
    "unat (send_fragmentLength h p) + 28 \<le> unat (p_mtu p)"
    using m eq by auto
qed

section \<open>Properties\<close>

text \<open>What a send needs: a connected peer, a channel it has, the packet's data.\<close>

definition sendable :: "nat \<Rightarrow> u8 \<Rightarrow> nat \<Rightarrow> ENetHost \<Rightarrow> bool" where
  "sendable i c k h \<longleftrightarrow>
     (let p = peer_at h i; pk = deref_packet (h_heap h) k
      in i < length (h_peers h) \<and> p_state p = ENET_PEER_STATE_CONNECTED \<and>
         ucast c < p_channelCount p \<and> unat (p_channelCount p) \<le> length (p_channels p) \<and> c \<noteq> 0xFF \<and>
         p_mtu p \<ge> ENET_PROTOCOL_MINIMUM_MTU \<and> p_mtu p \<le> ENET_PROTOCOL_MAXIMUM_MTU \<and>
         hp_packets (h_heap h) k \<noteq> None \<and>
         length (packet_bytes (h_heap h) k) = unat (pk_dataLength pk) \<and>
         pk_dataLength pk \<le> h_maximumPacketSize h \<and> unat (pk_dataLength pk) < 2 ^ 32)"

lemma send_reliable_fragments:
  assumes s: "sendable i c k h" and ok: "\<forall>j. \<not> hp_mallocFails (h_heap h) j"
    and rel: "pk_flags (deref_packet (h_heap h) k) AND ENET_PACKET_FLAG_RELIABLE \<noteq> 0"
    and large: "pk_dataLength (deref_packet (h_heap h) k) > send_fragmentLength h (peer_at h i)"
    and count: "cs = chunks (unat (pk_dataLength (deref_packet (h_heap h) k))) 0
        (unat (send_fragmentLength h (peer_at h i)))" "length cs \<le> 1024 * 1024"
  shows "\<exists>m. enet_peer_send i c k h = Some (0,
    upd_peer i (\<lambda>_. fold (\<lambda>oc p. enet_peer_setup_outgoing_command p oc)
        (fragments_of (make_fragment k (pk_dataLength (deref_packet (h_heap h) k))
          (ENET_PROTOCOL_COMMAND_SEND_FRAGMENT OR ENET_PROTOCOL_COMMAND_FLAG_ACKNOWLEDGE) c
          (ENET_HOST_TO_NET_16 (ch_outgoingReliableSequenceNumber (channel_at (peer_at h i) c) + 1))
          (of_nat (length cs))) 0 cs) (peer_at h i))
      (h\<lparr>h_heap := update_packet k (\<lambda>pk. pk\<lparr>pk_referenceCount :=
          pk_referenceCount pk + of_nat (length cs)\<rparr>) (h_heap h\<lparr>hp_mallocs := m\<rparr>)\<rparr>))"
proof -
  define p where "p = peer_at h i"
  define pk where "pk = deref_packet (h_heap h) k"
  define L where "L = send_fragmentLength h p"
  have mtu: "ENET_PROTOCOL_MINIMUM_MTU \<le> p_mtu p" "p_mtu p \<le> ENET_PROTOCOL_MAXIMUM_MTU"
    using s by (auto simp: sendable_def Let_def p_def)
  note L = send_fragmentLength_bounds [OF mtu, of h, folded L_def]
  have n: "unat (pk_dataLength pk) < 2 ^ 32" using s by (simp add: sendable_def Let_def pk_def)
  have cs: "cs = chunks (unat (pk_dataLength pk)) 0 (unat L)" using count by (simp add: L_def p_def pk_def)
  have len: "length cs = (unat (pk_dataLength pk) + unat L - 1) div unat L"
    using L(1) by (simp add: cs chunks_length)
  have "unat (pk_dataLength pk + L - 1) = unat (pk_dataLength pk) + unat L - 1"
  proof -
    have "unat (pk_dataLength pk + L) = unat (pk_dataLength pk) + unat L"
      using n L by (simp add: unat_word_ariths)
    moreover have "(1::size_t) \<le> pk_dataLength pk + L"
      using calculation L(1) by (simp add: word_le_nat_alt)
    ultimately show ?thesis by (simp add: unat_sub)
  qed
  then have "unat ((pk_dataLength pk + L - 1) div L) = length cs"
    by (simp add: unat_div_distrib len)
  then have cnt: "ucast ((pk_dataLength pk + L - 1) div L) = (of_nat (length cs) :: u32)"
    by (metis of_nat_unat)
  have small: "\<not> (of_nat (length cs) :: u32) > 1048576"
    using count(2) by (simp add: word_less_nat_alt unsigned_of_nat take_bit_nat_eq_self)
  have rel': "pk_flags pk AND (ENET_PACKET_FLAG_RELIABLE OR ENET_PACKET_FLAG_UNRELIABLE_FRAGMENT)
      \<noteq> ENET_PACKET_FLAG_UNRELIABLE_FRAGMENT"
  proof
    assume eq: "pk_flags pk AND (ENET_PACKET_FLAG_RELIABLE OR ENET_PACKET_FLAG_UNRELIABLE_FRAGMENT)
      = ENET_PACKET_FLAG_UNRELIABLE_FRAGMENT"
    have "pk_flags pk AND 1 = (pk_flags pk AND (1 OR 8)) AND 1" by (simp add: and.assoc)
    also have "\<dots> = 0" using eq by simp
    finally show False using rel by (simp add: pk_def)
  qed
  define f where "f = make_fragment k (pk_dataLength pk)
      (ENET_PROTOCOL_COMMAND_SEND_FRAGMENT OR ENET_PROTOCOL_COMMAND_FLAG_ACKNOWLEDGE) c
      (ENET_HOST_TO_NET_16 (ch_outgoingReliableSequenceNumber (channel_at p c) + 1))
      (of_nat (length cs))"
  obtain m where m: "fragment_loop f (pk_dataLength pk) 0 0 L [] (h_heap h) =
      Some (Some (of_nat (length cs), fragments_of f 0 cs), h_heap h\<lparr>hp_mallocs := m\<rparr>)"
    using fragment_loop_result [of L "pk_dataLength pk" 0 f 0 "[]" "h_heap h"] L(1) n ok
    by (auto simp: cs)
  have cast: "(ucast (of_nat (length cs) :: u32) :: size_t) = of_nat (length cs)"
    using count(2) by (simp add: word_unat_eq_iff unsigned_of_nat take_bit_nat_eq_self)
  have "send_fragments k c L (h_heap h) p = Some (0,
      update_packet k (\<lambda>pk. pk\<lparr>pk_referenceCount := pk_referenceCount pk + of_nat (length cs)\<rparr>)
        (h_heap h\<lparr>hp_mallocs := m\<rparr>),
      fold (\<lambda>oc p. enet_peer_setup_outgoing_command p oc) (fragments_of f 0 cs) p)"
    using cnt small rel' m cast
    by (simp only: send_fragments_def Let_def pk_def [symmetric] f_def [symmetric] if_False simp_thms
        option.case prod.case)
  moreover have "enet_peer_send_queue k c L (h_heap h) p = send_fragments k c L (h_heap h) p"
    using large by (simp add: enet_peer_send_queue_def p_def pk_def L_def)
  moreover have "\<not> (p_state p \<noteq> ENET_PEER_STATE_CONNECTED \<or> ucast c \<ge> p_channelCount p \<or>
      pk_dataLength pk > h_maximumPacketSize h)"
    using s by (auto simp: sendable_def Let_def p_def pk_def)
  ultimately show ?thesis
    unfolding enet_peer_send_def Let_def p_def [symmetric] pk_def [symmetric] L_def [symmetric]
      f_def [symmetric]
    by (intro exI [of _ m]) simp
qed

text \<open>A send that fails has only allocated and freed.\<close>

lemma fragment_loop_heap:
  assumes "fragment_loop f dl num off fl fs hp = Some r"
  shows "hp_packets (snd r) = hp_packets hp"
proof (rule fragment_loop.raw_induct
    [where P = "\<lambda>_ _ _ _ _ _ hp r. hp_packets (snd r) = hp_packets hp", OF _ assms], goal_cases)
  case (1 loop f dl num off fl fs hp r)
  define fl' where "fl' = (if dl - ucast off < fl then dl - ucast off else fl)"
  have "ucast off < dl \<Longrightarrow> fst (enet_malloc hp) \<Longrightarrow>
      loop f dl (num + 1) (off + ucast fl') fl' (fs @ [f num off fl']) (snd (enet_malloc hp)) = Some r"
    using 1(2) unfolding fl'_def Let_def by (cases "enet_malloc hp") simp
  moreover have "\<not> (ucast off < dl \<and> fst (enet_malloc hp)) \<Longrightarrow> snd r = hp \<or> snd r = snd (enet_malloc hp)"
    using 1(2) by (cases "enet_malloc hp") (auto simp: Let_def split: if_splits)
  ultimately show ?case
    using 1(1) [of f dl "num + 1" "off + ucast fl'" fl' "fs @ [f num off fl']" "snd (enet_malloc hp)"]
    by (metis hp_malloc(1))
qed

lemma send_queue_failure:
  assumes "enet_peer_send_queue k c fl hp p = Some (r, hp', p')" "r \<noteq> 0"
  shows "r = -1 \<and> p' = p \<and> hp_packets hp' = hp_packets hp"
  using assms
  by (auto simp: enet_peer_send_queue_def send_fragments_def enet_peer_queue_outgoing_command_def
      enet_malloc_def Let_def split: if_splits option.splits prod.splits dest!: fragment_loop_heap)

lemma send_queue_returns:
  assumes "0 < unat fl" "unat (pk_dataLength (deref_packet hp k)) < 2 ^ 32"
  shows "enet_peer_send_queue k c fl hp p \<noteq> None"
proof -
  have ends: "fragment_loop f (pk_dataLength (deref_packet hp k)) 0 0 fl [] hp \<noteq> None" for f
    using fragment_loop_result [of fl "pk_dataLength (deref_packet hp k)" 0 f 0 "[]" hp] assms by auto
  show ?thesis
    by (simp add: ends enet_peer_send_queue_def send_fragments_def Let_def
        split: prod.split option.split)
qed

lemma packet_bytes_update:
  "pk_data (f (deref_packet hp q)) = pk_data (deref_packet hp q) \<Longrightarrow>
   pk_dataLength (f (deref_packet hp q)) = pk_dataLength (deref_packet hp q) \<Longrightarrow>
   hp_packets hp q \<noteq> None \<Longrightarrow>
   packet_bytes (update_packet q f (hp\<lparr>hp_mallocs := m\<rparr>)) q = packet_bytes hp q"
  by (auto simp: packet_bytes_def deref_packet_def Let_def)

text \<open>The fields of the fragments of a run.\<close>

lemma fragment_fields:
  assumes "j < length cs" "snd (cs ! j) < 2 ^ 16" "length cs \<le> 1024 * 1024"
  shows "let fs = fragments_of (make_fragment k dl
           (ENET_PROTOCOL_COMMAND_SEND_FRAGMENT OR ENET_PROTOCOL_COMMAND_FLAG_ACKNOWLEDGE) c
           (ENET_HOST_TO_NET_16 s) (of_nat (length cs))) 0 cs;
         oc = reliable_run s fs ! j
    in unat (oc_fragmentLength oc) = snd (cs ! j) \<and> oc_reliableSequenceNumber oc = s + of_nat j \<and>
       (\<exists>b. pr_body (oc_command oc) = SendFragment b \<and>
         ENET_NET_TO_HOST_16 (sf_startSequenceNumber b) = s \<and>
         unat (ENET_NET_TO_HOST_32 (sf_fragmentNumber b)) = j \<and>
         unat (ENET_NET_TO_HOST_32 (sf_fragmentCount b)) = length cs)"
proof -
  have "unat (ucast (of_nat (snd (cs ! j)) :: size_t) :: u16) = snd (cs ! j)"
    using assms by (simp add: unat_ucast_le unsigned_of_nat take_bit_nat_eq_self)
  moreover have "unat (of_nat j :: u32) = j" "unat (of_nat (length cs) :: u32) = length cs"
    using assms by (simp_all add: unsigned_of_nat take_bit_nat_eq_self)
  ultimately show ?thesis
    using assms
    by (simp add: nth_reliable_run nth_fragments_of reliable_outgoing_def make_fragment_def
        new_outgoing_def make_command_def Let_def)
qed

text \<open>Property C4.  A reliable packet larger than one datagram is sent as fragments: the send
  returns, each fragment fits the peer's MTU with its headers, together they carry exactly the
  bytes of the packet in order, they get consecutive reliable sequence numbers after the
  channel's last one, they all announce the first number and their own index, and the packet
  gets one reference for each.\<close>

theorem enet_peer_send_fragments_packet:
  assumes "sendable i c k h" "\<forall>j. \<not> hp_mallocFails (h_heap h) j"
    and "pk_flags (deref_packet (h_heap h) k) AND ENET_PACKET_FLAG_RELIABLE \<noteq> 0"
    and "pk_dataLength (deref_packet (h_heap h) k) > send_fragmentLength h (peer_at h i)"
    and "(unat (pk_dataLength (deref_packet (h_heap h) k)) +
          unat (send_fragmentLength h (peer_at h i)) - 1)
         div unat (send_fragmentLength h (peer_at h i)) \<le> ENET_PROTOCOL_MAXIMUM_FRAGMENT_COUNT"
  shows "\<exists>h' fs. enet_peer_send i c k h = Some (0, h') \<and>
    p_outgoingReliableCommands (peer_at h' i) = p_outgoingReliableCommands (peer_at h i) @ fs \<and>
    concat (map (command_payload (h_heap h')) fs) = packet_bytes (h_heap h) k \<and>
    pk_referenceCount (deref_packet (h_heap h') k) =
      pk_referenceCount (deref_packet (h_heap h) k) + of_nat (length fs) \<and>
    (\<forall>j<length fs. 28 + unat (oc_fragmentLength (fs ! j)) \<le> unat (p_mtu (peer_at h i)) \<and>
       oc_reliableSequenceNumber (fs ! j) =
         ch_outgoingReliableSequenceNumber (channel_at (peer_at h i) c) + 1 + of_nat j \<and>
       (\<exists>b. pr_body (oc_command (fs ! j)) = SendFragment b \<and>
         ENET_NET_TO_HOST_16 (sf_startSequenceNumber b) =
           ch_outgoingReliableSequenceNumber (channel_at (peer_at h i) c) + 1 \<and>
         unat (ENET_NET_TO_HOST_32 (sf_fragmentNumber b)) = j \<and>
         unat (ENET_NET_TO_HOST_32 (sf_fragmentCount b)) = length fs))"
proof -
  define p where "p = peer_at h i"
  define pk where "pk = deref_packet (h_heap h) k"
  define L where "L = send_fragmentLength h p"
  define s where "s = ch_outgoingReliableSequenceNumber (channel_at p c)"
  define cs where "cs = chunks (unat (pk_dataLength pk)) 0 (unat L)"
  define fs where "fs = fragments_of (make_fragment k (pk_dataLength pk)
      (ENET_PROTOCOL_COMMAND_SEND_FRAGMENT OR ENET_PROTOCOL_COMMAND_FLAG_ACKNOWLEDGE) c
      (ENET_HOST_TO_NET_16 (s + 1)) (of_nat (length cs))) 0 cs"
  have wf: "i < length (h_peers h)" "c \<noteq> 0xFF" "unat c < length (p_channels p)"
      "ENET_PROTOCOL_MINIMUM_MTU \<le> p_mtu p" "p_mtu p \<le> ENET_PROTOCOL_MAXIMUM_MTU"
      "unat (pk_dataLength pk) < 2 ^ 32" "hp_packets (h_heap h) k \<noteq> None"
      "length (packet_bytes (h_heap h) k) = unat (pk_dataLength pk)"
    using assms(1) by (auto simp: sendable_def Let_def p_def pk_def word_less_nat_alt)
  note L = send_fragmentLength_bounds [OF wf(4,5), of h, folded L_def]
  have count: "length cs \<le> 1024 * 1024"
    using assms(5) L(1) by (simp add: cs_def chunks_length p_def L_def pk_def)
  have bounds: "\<forall>(a, b)\<in>set cs. a < 2 ^ 32 \<and> b \<le> unat L"
    using chunks_bounds [of 0 0] wf(6) by (fastforce simp: cs_def)
  then have bounds': "\<forall>(a, b)\<in>set cs. a < 2 ^ 32 \<and> b < 2 ^ 16" using L(2) by fastforce
  obtain m where send: "enet_peer_send i c k h = Some (0,
    upd_peer i (\<lambda>_. fold (\<lambda>oc p. enet_peer_setup_outgoing_command p oc) fs p)
      (h\<lparr>h_heap := update_packet k (\<lambda>pk. pk\<lparr>pk_referenceCount :=
          pk_referenceCount pk + of_nat (length cs)\<rparr>) (h_heap h\<lparr>hp_mallocs := m\<rparr>)\<rparr>))"
    using send_reliable_fragments [OF assms(1-4) _ count]
    by (auto simp: cs_def fs_def s_def p_def L_def pk_def)
  define h' where "h' = upd_peer i (\<lambda>_. fold (\<lambda>oc p. enet_peer_setup_outgoing_command p oc) fs p)
      (h\<lparr>h_heap := update_packet k (\<lambda>pk. pk\<lparr>pk_referenceCount :=
          pk_referenceCount pk + of_nat (length cs)\<rparr>) (h_heap h\<lparr>hp_mallocs := m\<rparr>)\<rparr>)"
  have run: "p_outgoingReliableCommands (peer_at h' i) =
      p_outgoingReliableCommands p @ reliable_run (s + 1) fs"
    using setup_reliable_run [of fs c p] wf reliable_on_fragments
    by (fastforce simp: h'_def Let_def s_def fs_def)
  have bytes: "packet_bytes (h_heap h') k = packet_bytes (h_heap h) k"
    unfolding h'_def using wf(7) by (simp add: packet_bytes_update)
  have "concat (map (command_payload (h_heap h')) (reliable_run (s + 1) fs)) =
      concat (map (\<lambda>(a, b). take b (drop a (packet_bytes (h_heap h') k))) cs)"
    using bounds' by (simp add: fs_def payload_fragments)
  then have payload: "concat (map (command_payload (h_heap h')) (reliable_run (s + 1) fs)) =
      packet_bytes (h_heap h) k"
    using wf(8) L(1) by (simp add: bytes cs_def chunks_cover)
  have refs: "pk_referenceCount (deref_packet (h_heap h') k) =
      pk_referenceCount pk + of_nat (length cs)"
    using wf(7) by (auto simp: h'_def pk_def deref_packet_def)
  have small: "snd (cs ! j) \<le> unat L" if "j < length cs" for j
    using bounds nth_mem [OF that] by fastforce
  have each: "28 + unat (oc_fragmentLength (reliable_run (s + 1) fs ! j)) \<le> unat (p_mtu p) \<and>
       oc_reliableSequenceNumber (reliable_run (s + 1) fs ! j) = s + 1 + of_nat j \<and>
       (\<exists>b. pr_body (oc_command (reliable_run (s + 1) fs ! j)) = SendFragment b \<and>
         ENET_NET_TO_HOST_16 (sf_startSequenceNumber b) = s + 1 \<and>
         unat (ENET_NET_TO_HOST_32 (sf_fragmentNumber b)) = j \<and>
         unat (ENET_NET_TO_HOST_32 (sf_fragmentCount b)) = length cs)" if "j < length cs" for j
    using fragment_fields [of j cs k "pk_dataLength pk" c "s + 1", folded fs_def] that small [OF that]
      L(2,3) count by (simp add: Let_def)
  show ?thesis
    unfolding p_def [symmetric] pk_def [symmetric] s_def [symmetric]
    using send run payload refs each
    by (intro exI [of _ h'] exI [of _ "reliable_run (s + 1) fs"])
       (simp add: h'_def [symmetric], simp add: fs_def)
qed

definition fragment_example :: ENetHost where
  "fragment_example =
     (zero_host (fresh_heap\<lparr>hp_packets := [7 \<mapsto> \<lparr>pk_referenceCount = 0, pk_flags = 1,
        pk_data = Some (replicate 600 5), pk_dataLength = 600, pk_freeCallback = None,
        pk_userData = 0\<rparr>]\<rparr>) quiet_world)
     \<lparr>h_peers := [zero_peer\<lparr>p_state := ENET_PEER_STATE_CONNECTED, p_mtu := 576,
        p_channels := [new_channel], p_channelCount := 1\<rparr>], h_maximumPacketSize := 1000\<rparr>"

lemma fragment_example_simps:
  "h_peers fragment_example = [zero_peer\<lparr>p_state := ENET_PEER_STATE_CONNECTED, p_mtu := 576,
        p_channels := [new_channel], p_channelCount := 1\<rparr>]"
  "h_maximumPacketSize fragment_example = 1000" "h_checksum fragment_example = None"
  "hp_mallocFails (h_heap fragment_example) = (\<lambda>_. False)"
  "hp_packets (h_heap fragment_example) = [7 \<mapsto> \<lparr>pk_referenceCount = 0, pk_flags = 1,
        pk_data = Some (replicate 600 5), pk_dataLength = 600, pk_freeCallback = None,
        pk_userData = 0\<rparr>]"
  by (simp_all add: fragment_example_def zero_host_def fresh_heap_def)

theorem enet_peer_send_fragments_packet_witness:
  "\<exists>h'. enet_peer_send 0 0 7 fragment_example = Some (0, h') \<and>
     concat (map (command_payload (h_heap h')) (p_outgoingReliableCommands (peer_at h' 0))) =
       replicate 600 5"
  using enet_peer_send_fragments_packet [of 0 0 7 fragment_example]
  by (force simp: fragment_example_simps sendable_def deref_packet_def packet_bytes_def
      send_fragmentLength_def zero_peer_def)

text \<open>A send on a peer whose MTU is in the protocol's range returns, whatever the
  allocator does; it returns 0 or -1, and after -1 no peer and no packet has changed: neither a
  queue nor a sequence number nor a reference count.\<close>

theorem enet_peer_send_returns:
  assumes "ENET_PROTOCOL_MINIMUM_MTU \<le> p_mtu (peer_at h i)"
    and "p_mtu (peer_at h i) \<le> ENET_PROTOCOL_MAXIMUM_MTU"
    and "unat (pk_dataLength (deref_packet (h_heap h) k)) < 2 ^ 32"
  shows "\<exists>r h'. enet_peer_send i c k h = Some (r, h') \<and>
    (r = 0 \<or> r = -1 \<and> h_peers h' = h_peers h \<and> hp_packets (h_heap h') = hp_packets (h_heap h))"
proof -
  let ?fl = "send_fragmentLength h (peer_at h i)"
  have "enet_peer_send_queue k c ?fl (h_heap h) (peer_at h i) \<noteq> None"
    using send_fragmentLength_bounds(1) [OF assms(1,2), of h] assms(3) send_queue_returns [of ?fl]
    by simp
  then obtain r hp' p' where q: "enet_peer_send_queue k c ?fl (h_heap h) (peer_at h i) = Some (r, hp', p')"
    by (metis not_None_eq prod.collapse)
  show ?thesis
  proof (cases "r = 0")
    case True
    then show ?thesis using q by (auto simp: enet_peer_send_def Let_def)
  next
    case False
    then show ?thesis
      using q send_queue_failure [OF q] by (auto simp: enet_peer_send_def Let_def)
  qed
qed

theorem enet_peer_send_returns_witness:
  "\<exists>r h'. enet_peer_send 0 9 7 fragment_example = Some (r, h') \<and>
    (r = 0 \<or> r = -1 \<and> h_peers h' = h_peers fragment_example \<and>
      hp_packets (h_heap h') = hp_packets (h_heap fragment_example))"
  by (rule enet_peer_send_returns) (simp_all add: fragment_example_simps deref_packet_def)

lemma word_sub_below: "d < t \<Longrightarrow> t \<le> l \<Longrightarrow> t - d \<le> (l :: u32)"
  by (meson less_imp_le order_trans word_sub_le)

text \<open>The packet throttle stays between 0 and its limit whatever round trip time
  is measured, the limit is not touched, and a slow round trip never raises the throttle, even
  though the arithmetic is on 32 bit words.\<close>

theorem enet_peer_throttle_range:
  assumes "p_packetThrottle p \<le> p_packetThrottleLimit p"
    and "enet_peer_throttle rtt p = (r, p')"
  shows "p_packetThrottle p' \<le> p_packetThrottleLimit p' \<and>
    p_packetThrottleLimit p' = p_packetThrottleLimit p \<and>
    (r = -1 \<longrightarrow> p_packetThrottle p' \<le> p_packetThrottle p) \<and>
    (r = 0 \<longrightarrow> p_packetThrottle p' = p_packetThrottle p \<or>
                p_packetThrottle p' = p_packetThrottleLimit p)"
  using assms
  by (auto simp: enet_peer_throttle_def Let_def word_sub_le word_sub_below not_less less_imp_le
      split: if_splits)

theorem enet_peer_throttle_range_witness:
  "let p = zero_peer\<lparr>p_lastRoundTripTime := 500, p_packetThrottle := 32, p_packetThrottleLimit := 32,
        p_packetThrottleDeceleration := 2\<rparr>;
       p' = snd (enet_peer_throttle 600 p)
   in p_packetThrottle p' = 30 \<and> p_packetThrottle p' \<le> p_packetThrottleLimit p'"
  using enet_peer_throttle_range [of "zero_peer\<lparr>p_lastRoundTripTime := 500, p_packetThrottle := 32,
      p_packetThrottleLimit := 32, p_packetThrottleDeceleration := 2\<rparr>" 600]
  by (simp add: enet_peer_throttle_def zero_peer_def)

end
