(* ===== verification/EnetPeer.thy ===== *)
theory EnetPeer
  imports EnetIncoming EnetOutgoing
begin

text \<open>
  The life of a peer (\<^verbatim>\<open>enet/peer.cpp\<close>, \<^verbatim>\<open>enet/protocol.cpp\<close>): connecting and disconnecting with
  the host's counters, resetting a peer and its queues, acknowledgements, the state changes, and
  the events handed to the application.

  \<open>host_ok\<close> is the invariant of the host: its counters count the connected peers, and the
  dispatch queue holds exactly the peers marked for dispatch, once each.  The contract of an
  operation that keeps it is the locale \<open>host_operation\<close>, interpreted on every operation here and in
  the theories that build on it.
\<close>

section \<open>Connecting and disconnecting\<close>

definition enet_peer_on_connect :: "nat \<Rightarrow> ENetHost \<Rightarrow> ENetHost" where
  "enet_peer_on_connect i h =
     (let p = peer_at h i
      in if p_state p \<noteq> ENET_PEER_STATE_CONNECTED \<and> p_state p \<noteq> ENET_PEER_STATE_DISCONNECT_LATER then
           let h = (if p_incomingBandwidth p \<noteq> 0
                    then h\<lparr>h_bandwidthLimitedPeers := h_bandwidthLimitedPeers h + 1\<rparr> else h)
           in h\<lparr>h_connectedPeers := h_connectedPeers h + 1\<rparr>
         else h)"

definition enet_peer_on_disconnect :: "nat \<Rightarrow> ENetHost \<Rightarrow> ENetHost" where
  "enet_peer_on_disconnect i h =
     (let p = peer_at h i
      in if p_state p = ENET_PEER_STATE_CONNECTED \<or> p_state p = ENET_PEER_STATE_DISCONNECT_LATER then
           let h = (if p_incomingBandwidth p \<noteq> 0
                    then h\<lparr>h_bandwidthLimitedPeers := h_bandwidthLimitedPeers h - 1\<rparr> else h)
           in h\<lparr>h_connectedPeers := h_connectedPeers h - 1\<rparr>
         else h)"

section \<open>Resetting\<close>

definition enet_peer_reset_queues :: "nat \<Rightarrow> ENetHost \<Rightarrow> ENetHost" where
  "enet_peer_reset_queues i h =
     (let p = peer_at h i;
          h = (if p_needsDispatch p then h\<lparr>h_dispatchQueue := remove1 i (h_dispatchQueue h)\<rparr> else h);
          hp = h_heap h;
          hp = enet_peer_reset_outgoing_commands (p_sentReliableCommands p) hp;
          hp = enet_peer_reset_outgoing_commands (p_sentUnreliableCommands p) hp;
          hp = enet_peer_reset_outgoing_commands (p_outgoingReliableCommands p) hp;
          hp = enet_peer_reset_outgoing_commands (p_outgoingUnreliableCommands p) hp;
          hp = enet_peer_reset_incoming_commands (p_dispatchedCommands p) hp;
          hp = fold (\<lambda>ch hp. enet_peer_reset_incoming_commands (ch_incomingUnreliableCommands ch)
                 (enet_peer_reset_incoming_commands (ch_incomingReliableCommands ch) hp))
                 (take (unat (p_channelCount p)) (p_channels p)) hp
      in upd_peer i (\<lambda>p. p\<lparr>p_needsDispatch := False, p_acknowledgements := [],
             p_sentReliableCommands := [], p_sentUnreliableCommands := [],
             p_outgoingReliableCommands := [], p_outgoingUnreliableCommands := [],
             p_dispatchedCommands := [], p_channels := [], p_channelCount := 0\<rparr>)
           (h\<lparr>h_heap := hp\<rparr>))"

text \<open>The assignments of \<^verbatim>\<open>enet_peer_reset\<close>; the arguments are the host's MTU and the peer.\<close>

definition reset_fields :: "u32 \<Rightarrow> ENetPeer \<Rightarrow> ENetPeer" where
  "reset_fields mtu p = p\<lparr>
     p_outgoingPeerID := ENET_PROTOCOL_MAXIMUM_PEER_ID, p_connectID := 0,
     p_state := ENET_PEER_STATE_DISCONNECTED,
     p_incomingBandwidth := 0, p_outgoingBandwidth := 0,
     p_incomingBandwidthThrottleEpoch := 0, p_outgoingBandwidthThrottleEpoch := 0,
     p_incomingDataTotal := 0, p_outgoingDataTotal := 0, p_lastSendTime := 0,
     p_lastReceiveTime := 0, p_nextTimeout := 0, p_earliestTimeout := 0, p_packetLossEpoch := 0,
     p_packetsSent := 0, p_packetsLost := 0, p_packetLoss := 0, p_packetLossVariance := 0,
     p_packetThrottle := ENET_PEER_DEFAULT_PACKET_THROTTLE,
     p_packetThrottleLimit := ENET_PEER_PACKET_THROTTLE_SCALE, p_packetThrottleCounter := 0,
     p_packetThrottleEpoch := 0,
     p_packetThrottleAcceleration := ENET_PEER_PACKET_THROTTLE_ACCELERATION,
     p_packetThrottleDeceleration := ENET_PEER_PACKET_THROTTLE_DECELERATION,
     p_packetThrottleInterval := ENET_PEER_PACKET_THROTTLE_INTERVAL,
     p_pingInterval := ENET_PEER_PING_INTERVAL, p_timeoutLimit := ENET_PEER_TIMEOUT_LIMIT,
     p_timeoutMinimum := ENET_PEER_TIMEOUT_MINIMUM, p_timeoutMaximum := ENET_PEER_TIMEOUT_MAXIMUM,
     p_lastRoundTripTime := ENET_PEER_DEFAULT_ROUND_TRIP_TIME,
     p_lowestRoundTripTime := ENET_PEER_DEFAULT_ROUND_TRIP_TIME,
     p_lastRoundTripTimeVariance := 0, p_highestRoundTripTimeVariance := 0,
     p_roundTripTime := ENET_PEER_DEFAULT_ROUND_TRIP_TIME, p_roundTripTimeVariance := 0,
     p_mtu := mtu, p_reliableDataInTransit := 0, p_outgoingReliableSequenceNumber := 0,
     p_windowSize := ENET_PROTOCOL_MAXIMUM_WINDOW_SIZE, p_incomingUnsequencedGroup := 0,
     p_outgoingUnsequencedGroup := 0, p_eventData := 0, p_totalWaitingData := 0,
     p_unsequencedWindow := replicate 32 0\<rparr>"

definition enet_peer_reset :: "nat \<Rightarrow> ENetHost \<Rightarrow> ENetHost" where
  "enet_peer_reset i h =
     (let h = enet_peer_on_disconnect i h;
          h = upd_peer i (reset_fields (h_mtu h)) h
      in enet_peer_reset_queues i h)"

section \<open>Acknowledgements\<close>

text \<open>The argument command has its sequence number in host order already.\<close>

definition enet_peer_queue_acknowledgement :: "ENetProtocol \<Rightarrow> u16 \<Rightarrow> heap \<Rightarrow> ENetPeer \<Rightarrow> bool \<times> heap \<times> ENetPeer" where
  "enet_peer_queue_acknowledgement command sentTime hp p =
     (let c = channel_of command; s = hd_reliableSequenceNumber (pr_header command);
          current = ch_incomingReliableSequenceNumber (channel_at p c)
      in if ucast c < p_channelCount p \<and>
            wrapped_window s current \<ge> reliable_window current + ENET_PEER_FREE_RELIABLE_WINDOWS - 1 \<and>
            wrapped_window s current \<le> reliable_window current + ENET_PEER_FREE_RELIABLE_WINDOWS
         then (False, hp, p)
         else case enet_malloc hp of (ok, hp) \<Rightarrow>
           if \<not> ok then (False, hp, p)
           else (True, hp, p\<lparr>p_outgoingDataTotal := p_outgoingDataTotal p + 8,
                  p_acknowledgements := p_acknowledgements p @
                    [\<lparr>ak_sentTime = ucast sentTime, ak_command = command\<rparr>]\<rparr>))"

section \<open>State changes and events\<close>

definition enet_protocol_change_state :: "nat \<Rightarrow> ENetPeerState \<Rightarrow> ENetHost \<Rightarrow> ENetHost" where
  "enet_protocol_change_state i state h =
     (let h = (if state = ENET_PEER_STATE_CONNECTED \<or> state = ENET_PEER_STATE_DISCONNECT_LATER
               then enet_peer_on_connect i h else enet_peer_on_disconnect i h)
      in upd_peer i (p_state_update (\<lambda>_. state)) h)"

definition enet_protocol_dispatch_state :: "nat \<Rightarrow> ENetPeerState \<Rightarrow> ENetHost \<Rightarrow> ENetHost" where
  "enet_protocol_dispatch_state i state h =
     enet_needs_dispatch i (enet_protocol_change_state i state h)"

text \<open>A pointer to an event is an optional event; the code writes through it.\<close>

definition enet_protocol_notify_connect ::
    "nat \<Rightarrow> ENetEvent option \<Rightarrow> ENetHost \<Rightarrow> ENetEvent option \<times> ENetHost" where
  "enet_protocol_notify_connect i event h =
     (let h = h\<lparr>h_recalculateBandwidthLimits := True\<rparr>
      in case event of
           Some e \<Rightarrow>
             let h = enet_protocol_change_state i ENET_PEER_STATE_CONNECTED h
             in (Some (e\<lparr>ev_type := ENET_EVENT_TYPE_CONNECT, ev_peer := Some i,
                         ev_data := p_eventData (peer_at h i)\<rparr>), h)
         | None \<Rightarrow> (None, enet_protocol_dispatch_state i
             (if state_at h i = ENET_PEER_STATE_CONNECTING then ENET_PEER_STATE_CONNECTION_SUCCEEDED
              else ENET_PEER_STATE_CONNECTION_PENDING) h))"

definition enet_protocol_notify_disconnect ::
    "nat \<Rightarrow> ENetEvent option \<Rightarrow> ENetHost \<Rightarrow> ENetEvent option \<times> ENetHost" where
  "enet_protocol_notify_disconnect i event h =
     (let h = (if state_at h i \<ge> ENET_PEER_STATE_CONNECTION_PENDING
               then h\<lparr>h_recalculateBandwidthLimits := True\<rparr> else h)
      in if state_at h i \<noteq> ENET_PEER_STATE_CONNECTING \<and>
            state_at h i < ENET_PEER_STATE_CONNECTION_SUCCEEDED
         then (event, enet_peer_reset i h)
         else case event of
           Some e \<Rightarrow> (Some (e\<lparr>ev_type := ENET_EVENT_TYPE_DISCONNECT, ev_peer := Some i, ev_data := 0\<rparr>),
                      enet_peer_reset i h)
         | None \<Rightarrow> (None, enet_protocol_dispatch_state i ENET_PEER_STATE_ZOMBIE
                      (upd_peer i (p_eventData_update (\<lambda>_. 0)) h)))"

text \<open>The loop of \<^verbatim>\<open>enet_protocol_dispatch_incoming_commands\<close> takes a peer off the queue at each
  turn; the only turn that puts one back returns.  The fuel is the length of the queue.\<close>

fun dispatch_queue_loop :: "nat \<Rightarrow> ENetEvent \<Rightarrow> ENetHost \<Rightarrow> (int \<times> ENetEvent \<times> ENetHost) option" where
  "dispatch_queue_loop fuel e h =
     (case h_dispatchQueue h of
        [] \<Rightarrow> Some (0, e, h)
      | i # queue \<Rightarrow>
          (case fuel of
             0 \<Rightarrow> None
           | Suc fuel \<Rightarrow>
               let h = upd_peer i (p_needsDispatch_update (\<lambda>_. False)) (h\<lparr>h_dispatchQueue := queue\<rparr>);
                   p = peer_at h i
               in if p_state p = ENET_PEER_STATE_CONNECTION_PENDING \<or>
                     p_state p = ENET_PEER_STATE_CONNECTION_SUCCEEDED then
                    let h = enet_protocol_change_state i ENET_PEER_STATE_CONNECTED h
                    in Some (1, e\<lparr>ev_type := ENET_EVENT_TYPE_CONNECT, ev_peer := Some i,
                                  ev_data := p_eventData (peer_at h i)\<rparr>, h)
                  else if p_state p = ENET_PEER_STATE_ZOMBIE then
                    let h = h\<lparr>h_recalculateBandwidthLimits := True\<rparr>;
                        e = e\<lparr>ev_type := ENET_EVENT_TYPE_DISCONNECT, ev_peer := Some i,
                              ev_data := p_eventData (peer_at h i)\<rparr>
                    in Some (1, e, enet_peer_reset i h)
                  else if p_state p = ENET_PEER_STATE_CONNECTED then
                    if p_dispatchedCommands p = [] then dispatch_queue_loop fuel e h
                    else (case enet_peer_receive i h of
                       (None, h) \<Rightarrow> dispatch_queue_loop fuel (e\<lparr>ev_packet := None\<rparr>) h
                     | (Some (packet, channelID), h) \<Rightarrow>
                         let e = e\<lparr>ev_packet := Some packet, ev_channelID := channelID,
                                   ev_type := ENET_EVENT_TYPE_RECEIVE, ev_peer := Some i\<rparr>;
                             h = (if p_dispatchedCommands (peer_at h i) \<noteq> []
                                  then upd_peer i (p_needsDispatch_update (\<lambda>_. True))
                                         (h\<lparr>h_dispatchQueue := h_dispatchQueue h @ [i]\<rparr>)
                                  else h)
                         in Some (1, e, h))
                  else dispatch_queue_loop fuel e h))"

definition enet_protocol_dispatch_incoming_commands ::
    "ENetEvent \<Rightarrow> ENetHost \<Rightarrow> (int \<times> ENetEvent \<times> ENetHost) option" where
  "enet_protocol_dispatch_incoming_commands e h = dispatch_queue_loop (length (h_dispatchQueue h)) e h"

section \<open>The invariant\<close>

text \<open>A command that fits into a datagram of its own: with its data, it leaves the four bytes of the header.\<close>

definition fits :: "u32 \<Rightarrow> ENetOutgoingCommand \<Rightarrow> bool" where
  "fits M oc \<longleftrightarrow> number_of (oc_command oc) < ENET_PROTOCOL_COMMAND_COUNT \<and>
     commandSizes ! unat (number_of (oc_command oc)) + unat (oc_fragmentLength oc) + 4 \<le> unat M"

definition queued_commands :: "ENetPeer \<Rightarrow> ENetOutgoingCommand set" where
  "queued_commands p = set (p_outgoingReliableCommands p) \<union> set (p_outgoingUnreliableCommands p) \<union>
     set (p_sentReliableCommands p)"

text \<open>In two states the MTU can still change; commands with data are queued in other states only.\<close>

definition is_settled :: "ENetPeerState \<Rightarrow> bool" where
  "is_settled s \<longleftrightarrow> s \<noteq> ENET_PEER_STATE_DISCONNECTED \<and> s \<noteq> ENET_PEER_STATE_CONNECTING"

text \<open>All commands that wait or have been sent fit into a datagram, and the time after which a command
  is sent again is never zero: the round trip time does not fall below seven milliseconds.\<close>

definition sending_ok :: "ENetPeer \<Rightarrow> bool" where
  "sending_ok p \<longleftrightarrow> 7 \<le> p_roundTripTime p \<and> p_roundTripTime p < ENET_TIME_OVERFLOW \<and>
     p_roundTripTimeVariance p < ENET_TIME_OVERFLOW \<and>
     (\<forall>oc\<in>queued_commands p. fits (p_mtu p) oc \<and> (is_settled (p_state p) \<or> oc_fragmentLength oc = 0))"

definition peer_ok :: "ENetPeer \<Rightarrow> bool" where
  "peer_ok p \<longleftrightarrow>
     ENET_PROTOCOL_MINIMUM_MTU \<le> p_mtu p \<and> p_mtu p \<le> ENET_PROTOCOL_MAXIMUM_MTU \<and>
     ENET_PROTOCOL_MINIMUM_WINDOW_SIZE \<le> p_windowSize p \<and>
     p_windowSize p \<le> ENET_PROTOCOL_MAXIMUM_WINDOW_SIZE \<and>
     p_packetThrottle p \<le> p_packetThrottleLimit p \<and>
     unat (p_channelCount p) \<le> length (p_channels p) \<and>
     p_channelCount p \<le> ENET_PROTOCOL_MAXIMUM_CHANNEL_COUNT \<and>
     length (p_unsequencedWindow p) = 32 \<and>
     (\<forall>ch\<in>set (p_channels p). length (ch_reliableWindows ch) = ENET_PEER_RELIABLE_WINDOWS) \<and>
     sending_ok p"

lemmas peer_ok_defs = peer_ok_def sending_ok_def queued_commands_def

definition is_limited :: "ENetPeer \<Rightarrow> bool" where
  "is_limited p \<longleftrightarrow> is_connected (p_state p) \<and> p_incomingBandwidth p \<noteq> 0"

definition host_ok :: "ENetHost \<Rightarrow> bool" where
  "host_ok h \<longleftrightarrow>
     h_connectedPeers h = of_nat (length (filter (\<lambda>p. is_connected (p_state p)) (h_peers h))) \<and>
     h_bandwidthLimitedPeers h = of_nat (length (filter is_limited (h_peers h))) \<and>
     distinct (h_dispatchQueue h) \<and>
     (\<forall>i. i \<in> set (h_dispatchQueue h) \<longleftrightarrow> i < length (h_peers h) \<and> p_needsDispatch (peer_at h i)) \<and>
     (\<forall>p\<in>set (h_peers h). peer_ok p) \<and>
     ENET_PROTOCOL_MINIMUM_MTU \<le> h_mtu h \<and> h_mtu h \<le> ENET_PROTOCOL_MAXIMUM_MTU"

text \<open>A count after the update of one element.\<close>

lemma length_filter_update:
  "i < length xs \<Longrightarrow>
   length (filter P (xs[i := x])) + (if P (xs ! i) then 1 else 0) =
   length (filter P xs) + (if P x then 1 else 0)"
proof (induction xs arbitrary: i)
  case (Cons a xs)
  then show ?case using Cons.IH [of "i - 1"] by (cases i) auto
qed simp

lemma of_nat_filter_update:
  "i < length xs \<Longrightarrow>
   (of_nat (length (filter P (xs[i := x]))) :: size_t) =
   of_nat (length (filter P xs)) + (if P x then 1 else 0) - (if P (xs ! i) then 1 else 0)"
  using arg_cong [OF length_filter_update [of i xs P x], of "of_nat :: nat \<Rightarrow> size_t"]
  by (simp add: algebra_simps split: if_split_asm)

text \<open>Updating one peer: what the counters and the queue must be for the invariant.\<close>

lemma host_ok_update:
  assumes "host_ok h" "i < length (h_peers h)" "peer_ok p"
    and "h_peers h' = (h_peers h)[i := p]" "h_mtu h' = h_mtu h"
    and "h_connectedPeers h' = h_connectedPeers h + (if is_connected (p_state p) then 1 else 0)
      - (if is_connected (state_at h i) then 1 else 0)"
    and "h_bandwidthLimitedPeers h' = h_bandwidthLimitedPeers h + (if is_limited p then 1 else 0)
      - (if is_limited (peer_at h i) then 1 else 0)"
    and "distinct (h_dispatchQueue h')"
    and "set (h_dispatchQueue h') = set (h_dispatchQueue h) - {i} \<union> (if p_needsDispatch p then {i} else {})"
  shows "host_ok h'"
proof -
  have "\<forall>q\<in>set (h_peers h'). peer_ok q"
    using assms(1,3,4) set_update_subset_insert [of "h_peers h" i p] by (auto simp: host_ok_def)
  moreover have "j \<in> set (h_dispatchQueue h') \<longleftrightarrow> j < length (h_peers h') \<and> p_needsDispatch (peer_at h' j)" for j
    using assms(1,2,4,9) by (cases "j = i") (auto simp: host_ok_def)
  ultimately show ?thesis
    using assms by (simp add: host_ok_def of_nat_filter_update)
qed

text \<open>An operation that leaves alone what the invariant counts.\<close>

definition peer_frame :: "ENetPeer \<Rightarrow> ENetPeer \<Rightarrow> bool" where
  "peer_frame p p' \<longleftrightarrow> p_state p' = p_state p \<and> p_incomingBandwidth p' = p_incomingBandwidth p \<and>
     p_needsDispatch p' = p_needsDispatch p \<and> (peer_ok p \<longrightarrow> peer_ok p')"

definition host_frame :: "ENetHost \<Rightarrow> ENetHost \<Rightarrow> bool" where
  "host_frame h h' \<longleftrightarrow> h_connectedPeers h' = h_connectedPeers h \<and>
     h_bandwidthLimitedPeers h' = h_bandwidthLimitedPeers h \<and>
     h_dispatchQueue h' = h_dispatchQueue h \<and> h_mtu h' = h_mtu h"

lemma host_ok_frame:
  assumes "host_ok h" "i < length (h_peers h)" "peer_frame (peer_at h i) p"
    and "h_peers h' = (h_peers h)[i := p]" "host_frame h h'"
  shows "host_ok h'"
proof (rule host_ok_update [OF assms(1,2) _ assms(4)])
  have ok: "peer_ok (peer_at h i)" "i \<in> set (h_dispatchQueue h) \<longleftrightarrow> p_needsDispatch (peer_at h i)"
    using assms(1,2) by (auto simp: host_ok_def)
  then show "peer_ok p" using assms(3) by (simp add: peer_frame_def)
  show "set (h_dispatchQueue h') = set (h_dispatchQueue h) - {i} \<union> (if p_needsDispatch p then {i} else {})"
    using ok assms(3,5) by (auto simp: peer_frame_def host_frame_def)
  show "distinct (h_dispatchQueue h')" using assms(1,5) by (simp add: host_ok_def host_frame_def)
qed (use assms(3,5) in \<open>auto simp: peer_frame_def host_frame_def is_limited_def\<close>)

lemma host_ok_same_peers:
  "host_ok h \<Longrightarrow> h_peers h' = h_peers h \<Longrightarrow> host_frame h h' \<Longrightarrow> host_ok h'"
  by (simp add: host_ok_def host_frame_def)

section \<open>The contracts\<close>

text \<open>An operation on a peer of the host that keeps the invariant.\<close>

locale host_operation =
  fixes f :: "nat \<Rightarrow> ENetHost \<Rightarrow> ENetHost"
  assumes keeps: "host_ok h \<Longrightarrow> i < length (h_peers h) \<Longrightarrow> host_ok (f i h)"
    and same_peers: "length (h_peers (f i h)) = length (h_peers h)"
begin

lemma fold_same_peers: "length (h_peers (fold f js h)) = length (h_peers h)"
  by (induction js arbitrary: h) (simp_all add: same_peers)

lemma fold_keeps:
  "host_ok h \<Longrightarrow> \<forall>j\<in>set js. j < length (h_peers h) \<Longrightarrow> host_ok (fold f js h)"
  by (induction js arbitrary: h) (simp_all add: keeps same_peers)

end

text \<open>Two such operations in sequence are one.\<close>

locale host_sequence =
  first: host_operation f + second: host_operation g
  for f g :: "nat \<Rightarrow> ENetHost \<Rightarrow> ENetHost"
begin

lemma sequence_keeps: "host_ok h \<Longrightarrow> i < length (h_peers h) \<Longrightarrow> host_ok (g i (f i h))"
  by (simp add: first.keeps second.keeps first.same_peers)

lemma sequence_same_peers: "length (h_peers (g i (f i h))) = length (h_peers h)"
  by (simp add: first.same_peers second.same_peers)

end

sublocale host_sequence \<subseteq> both: host_operation "\<lambda>i h. g i (f i h)"
  by unfold_locales (simp_all add: sequence_keeps sequence_same_peers)

text \<open>An operation on the heap and one peer that keeps the peer's part of the invariant is an
  operation of the host.\<close>

locale peer_operation =
  fixes f :: "heap \<Rightarrow> ENetPeer \<Rightarrow> 'a \<times> heap \<times> ENetPeer"
  assumes frame: "peer_frame p (snd (snd (f hp p)))"
begin

lemma on_peer_keeps:
  assumes "host_ok h" "i < length (h_peers h)"
  shows "host_ok (snd (on_peer i f h))"
  using host_ok_frame [OF assms frame [of "peer_at h i" "h_heap h"], of "snd (on_peer i f h)"]
  by (simp add: on_peer_def upd_peer_def host_frame_def split_beta)

end

sublocale peer_operation \<subseteq> host_operation "\<lambda>i h. snd (on_peer i f h)"
  by unfold_locales (simp_all add: on_peer_keeps, simp add: on_peer_def split_beta)

section \<open>The outgoing operations keep the frame\<close>

lemma peer_frame_refl [simp]: "peer_frame p p"
  by (simp add: peer_frame_def)

lemma peer_frame_trans: "peer_frame p q \<Longrightarrow> peer_frame q r \<Longrightarrow> peer_frame p r"
  by (auto simp: peer_frame_def)

lemma peer_frame_channel:
  "(\<And>ch. length (ch_reliableWindows (f ch)) = length (ch_reliableWindows ch)) \<Longrightarrow>
   peer_frame p (upd_channel c f p)"
  using set_update_subset_insert [of "p_channels p" c "f (p_channels p ! c)"]
  by (cases "c < length (p_channels p)")
     (auto simp: peer_frame_def peer_ok_defs upd_channel_def not_less list_update_beyond)

lemma peer_frame_same:
  "p_state p' = p_state p \<Longrightarrow> p_incomingBandwidth p' = p_incomingBandwidth p \<Longrightarrow>
   p_needsDispatch p' = p_needsDispatch p \<Longrightarrow> p_mtu p' = p_mtu p \<Longrightarrow> p_windowSize p' = p_windowSize p \<Longrightarrow>
   (p_packetThrottle p \<le> p_packetThrottleLimit p \<longrightarrow> p_packetThrottle p' \<le> p_packetThrottleLimit p') \<Longrightarrow>
   p_channelCount p' = p_channelCount p \<Longrightarrow> p_channels p' = p_channels p \<Longrightarrow>
   length (p_unsequencedWindow p') = length (p_unsequencedWindow p) \<Longrightarrow>
   p_roundTripTime p' = p_roundTripTime p \<Longrightarrow> p_roundTripTimeVariance p' = p_roundTripTimeVariance p \<Longrightarrow>
   p_outgoingReliableCommands p' = p_outgoingReliableCommands p \<Longrightarrow>
   p_outgoingUnreliableCommands p' = p_outgoingUnreliableCommands p \<Longrightarrow>
   p_sentReliableCommands p' = p_sentReliableCommands p \<Longrightarrow> peer_frame p p'"
  by (simp add: peer_frame_def peer_ok_defs)

text \<open>The queues change.\<close>

lemma peer_frame_queues:
  assumes "p_sentReliableCommands p' = sent" "p_outgoingReliableCommands p' = reliable"
    "p_outgoingUnreliableCommands p' = unreliable"
    "peer_frame p (p'\<lparr>p_sentReliableCommands := p_sentReliableCommands p,
      p_outgoingReliableCommands := p_outgoingReliableCommands p,
      p_outgoingUnreliableCommands := p_outgoingUnreliableCommands p\<rparr>)"
    "\<And>oc. oc \<in> set sent \<union> set reliable \<union> set unreliable \<Longrightarrow> sending_ok p \<Longrightarrow> ENET_PROTOCOL_MINIMUM_MTU \<le> p_mtu p \<Longrightarrow>
      fits (p_mtu p') oc \<and> (is_settled (p_state p) \<or> oc_fragmentLength oc = 0)"
  shows "peer_frame p p'"
  using assms(4,5)
  by (auto simp: peer_frame_def peer_ok_defs assms(1-3))

lemma queued_fits:
  "sending_ok p \<Longrightarrow> oc \<in> queued_commands p \<Longrightarrow> fits (p_mtu p) oc \<and> (is_settled (p_state p) \<or> oc_fragmentLength oc = 0)"
  by (simp add: sending_ok_def)

text \<open>Some commands leave the queues.\<close>

lemma peer_frame_fewer:
  assumes "queued_commands p' \<subseteq> queued_commands p"
    "peer_frame p (p'\<lparr>p_sentReliableCommands := p_sentReliableCommands p,
      p_outgoingReliableCommands := p_outgoingReliableCommands p,
      p_outgoingUnreliableCommands := p_outgoingUnreliableCommands p\<rparr>)"
  shows "peer_frame p p'"
  using assms(2) subsetD [OF assms(1)]
  by (auto simp: peer_frame_def peer_ok_def sending_ok_def queued_commands_def)

lemma peer_frame_lists:
  "set xs \<subseteq> set (p_sentReliableCommands p) \<Longrightarrow> peer_frame p (p\<lparr>p_sentReliableCommands := xs\<rparr>)"
  "set xs \<subseteq> set (p_outgoingReliableCommands p) \<Longrightarrow> peer_frame p (p\<lparr>p_outgoingReliableCommands := xs\<rparr>)"
  "set xs \<subseteq> set (p_outgoingUnreliableCommands p) \<Longrightarrow> peer_frame p (p\<lparr>p_outgoingUnreliableCommands := xs\<rparr>)"
  by (rule peer_frame_fewer; force simp: queued_commands_def intro: peer_frame_same)+

text \<open>Before a peer is settled its MTU can change: its commands have no data.\<close>

lemma commandSizes_le: "number_of c < ENET_PROTOCOL_COMMAND_COUNT \<Longrightarrow> commandSizes ! unat (number_of c) \<le> 48"
proof -
  assume "number_of c < ENET_PROTOCOL_COMMAND_COUNT"
  then have "unat (number_of c) < 13" by (simp add: word_less_nat_alt)
  then show ?thesis by (auto simp: commandSizes_def less_Suc_eq numeral_eq_Suc)
qed

lemma fits_without_data:
  assumes "fits M oc" "oc_fragmentLength oc = 0" "ENET_PROTOCOL_MINIMUM_MTU \<le> M'"
  shows "fits M' oc"
proof -
  have "576 \<le> unat M'" using assms(3) by (simp add: word_le_nat_alt)
  then show ?thesis using assms(1,2) commandSizes_le [of "oc_command oc"] by (simp add: fits_def)
qed

lemma sending_ok_unsettled:
  assumes "sending_ok p" "\<not> is_settled (p_state p)" "queued_commands p' = queued_commands p"
    "p_roundTripTime p' = p_roundTripTime p" "p_roundTripTimeVariance p' = p_roundTripTimeVariance p"
    "ENET_PROTOCOL_MINIMUM_MTU \<le> p_mtu p'"
  shows "sending_ok p'"
  using assms fits_without_data [OF _ _ assms(6)] by (auto simp: sending_ok_def)

lemma peer_frame_number: "peer_frame p (fst (number_outgoing p oc))"
proof -
  have ch: "peer_frame p (upd_channel c (\<lambda>_. ch) p)"
    if "length (ch_reliableWindows ch) = length (ch_reliableWindows (p_channels p ! c))" for c ch
  proof -
    have "upd_channel c (\<lambda>_. ch) p =
        upd_channel c (\<lambda>old. if length (ch_reliableWindows old) = length (ch_reliableWindows ch) then ch else old) p"
      using that by (simp add: upd_channel_def)
    then show ?thesis by (simp add: peer_frame_channel)
  qed
  show ?thesis
    by (auto simp: number_outgoing_def Let_def intro!: peer_frame_same ch)
qed

text \<open>A command that may be queued: it has a number, and has no data or fits.\<close>

definition may_queue :: "ENetPeer \<Rightarrow> ENetOutgoingCommand \<Rightarrow> bool" where
  "may_queue p oc \<longleftrightarrow> number_of (oc_command oc) < ENET_PROTOCOL_COMMAND_COUNT \<and>
     (oc_fragmentLength oc = 0 \<or> is_settled (p_state p) \<and> fits (p_mtu p) oc)"

lemma may_queue_fits:
  assumes "may_queue p oc" "ENET_PROTOCOL_MINIMUM_MTU \<le> p_mtu p"
  shows "fits (p_mtu p) oc \<and> (is_settled (p_state p) \<or> oc_fragmentLength oc = 0)"
proof -
  have "576 \<le> unat (p_mtu p)" using assms(2) by (simp add: word_le_nat_alt)
  then show ?thesis using assms(1) commandSizes_le [of "oc_command oc"] by (auto simp: may_queue_def fits_def)
qed

lemma number_outgoing_keeps:
  assumes "number_outgoing p oc = (p', oc')"
  shows "oc_command oc' = oc_command oc" "oc_fragmentLength oc' = oc_fragmentLength oc" "p_mtu p' = p_mtu p"
    "p_outgoingReliableCommands p' = p_outgoingReliableCommands p"
    "p_outgoingUnreliableCommands p' = p_outgoingUnreliableCommands p"
    "p_sentReliableCommands p' = p_sentReliableCommands p"
  using assms by (auto simp: number_outgoing_def Let_def upd_channel_def split: if_split_asm)

lemma prepare_outgoing_keeps:
  assumes "prepare_outgoing p oc = (p', oc')"
  shows "command_of (oc_command oc') = command_of (oc_command oc)" "oc_fragmentLength oc' = oc_fragmentLength oc"
    "p_mtu p' = p_mtu p" "p_outgoingReliableCommands p' = p_outgoingReliableCommands p"
    "p_outgoingUnreliableCommands p' = p_outgoingUnreliableCommands p"
    "p_sentReliableCommands p' = p_sentReliableCommands p" "peer_frame p p'"
proof -
  let ?p = "p\<lparr>p_outgoingDataTotal := p_outgoingDataTotal p +
      ucast (enet_protocol_command_size (command_of (oc_command oc)) + ucast (oc_fragmentLength oc))\<rparr>"
  obtain q oc1 where n: "number_outgoing ?p oc = (q, oc1)" by (meson surj_pair)
  have e: "p' = q" "command_of (oc_command oc') = command_of (oc_command oc1)" "oc_fragmentLength oc' = oc_fragmentLength oc1"
    using assms n by (auto simp: prepare_outgoing_def Let_def)
  show "command_of (oc_command oc') = command_of (oc_command oc)" "oc_fragmentLength oc' = oc_fragmentLength oc"
    "p_mtu p' = p_mtu p" "p_outgoingReliableCommands p' = p_outgoingReliableCommands p"
    "p_outgoingUnreliableCommands p' = p_outgoingUnreliableCommands p"
    "p_sentReliableCommands p' = p_sentReliableCommands p"
    using number_outgoing_keeps [OF n] e by simp_all
  have "peer_frame p ?p" by (rule peer_frame_same) simp_all
  then show "peer_frame p p'"
    using peer_frame_number [of ?p oc] n e(1) by (auto intro: peer_frame_trans)
qed

lemma peer_frame_setup:
  assumes "may_queue p oc"
  shows "peer_frame p (enet_peer_setup_outgoing_command p oc)"
proof -
  obtain p' oc' where pr: "prepare_outgoing p oc = (p', oc')" by (meson surj_pair)
  note k = prepare_outgoing_keeps [OF pr]
  have may: "fits (p_mtu p') oc' \<and> (is_settled (p_state p') \<or> oc_fragmentLength oc' = 0)"
    if "ENET_PROTOCOL_MINIMUM_MTU \<le> p_mtu p'"
    using may_queue_fits [OF assms] that k by (simp add: fits_def peer_frame_def)
  have "peer_frame p' (enet_peer_setup_outgoing_command p oc)"
    by (rule peer_frame_queues [OF refl refl refl])
       (use may in \<open>auto simp: enet_peer_setup_outgoing_command_def pr queued_commands_def
          intro: peer_frame_same dest: queued_fits split: if_split_asm\<close>)
  then show ?thesis using k(7) peer_frame_trans by blast
qed

text \<open>A command without data.\<close>

lemma peer_frame_queue:
  assumes "may_queue p (new_outgoing command packet offset len)"
  shows "peer_frame p (snd (snd (enet_peer_queue_outgoing_command command packet offset len hp p)))"
  using peer_frame_setup [OF assms] by (simp add: enet_peer_queue_outgoing_command_def split_beta)

lemma may_queue_control [simp]:
  "number_of command < ENET_PROTOCOL_COMMAND_COUNT \<Longrightarrow> may_queue p (new_outgoing command packet offset 0)"
  by (simp add: may_queue_def new_outgoing_def)

lemma queue_outgoing_host:
  assumes "host_ok h" "i < length (h_peers h)" "may_queue (peer_at h i) (new_outgoing command packet offset len)"
  shows "host_ok (snd (on_peer i (enet_peer_queue_outgoing_command command packet offset len) h))"
  using host_ok_frame [OF assms(1,2) peer_frame_queue [OF assms(3), of "h_heap h"],
      of "snd (on_peer i (enet_peer_queue_outgoing_command command packet offset len) h)"]
  by (simp add: on_peer_def upd_peer_def host_frame_def split_beta)

interpretation ping: peer_operation enet_peer_ping
  by unfold_locales (auto simp: enet_peer_ping_def make_command_def intro!: peer_frame_queue)

interpretation throttle_configure: peer_operation "enet_peer_throttle_configure interval acceleration deceleration"
  for interval acceleration deceleration
proof
  fix p hp
  show "peer_frame p (snd (snd (enet_peer_throttle_configure interval acceleration deceleration hp p)))"
    unfolding enet_peer_throttle_configure_def Let_def
    by (rule peer_frame_trans [OF peer_frame_same peer_frame_queue]) (simp_all add: make_command_def)
qed

interpretation queue_acknowledgement: peer_operation "enet_peer_queue_acknowledgement command sentTime"
  for command sentTime
  by unfold_locales
     (auto simp: enet_peer_queue_acknowledgement_def Let_def split_beta intro!: peer_frame_same)

lemma peer_frame_throttle: "peer_frame p (snd (enet_peer_throttle rtt p))"
  by (auto simp: enet_peer_throttle_def Let_def intro!: peer_frame_same word_sub_below)

section \<open>The other operations keep the invariant\<close>

lemma host_frame_heap [simp]: "host_frame h (h\<lparr>h_heap := hp\<rparr>)"
  by (simp add: host_frame_def)

lemma upd_peer_keeps:
  assumes "host_ok h" "i < length (h_peers h)" "\<And>p. peer_frame p (f p)" "host_frame h h'"
    and "h_peers h' = h_peers h"
  shows "host_ok (upd_peer i f h')"
  using host_ok_frame [OF assms(1,2) assms(3) [of "peer_at h i"], of "upd_peer i f h'"] assms(4,5)
  by (simp add: upd_peer_def host_frame_def)

lemma upd_peer_heap_keeps:
  "host_ok h \<Longrightarrow> i < length (h_peers h) \<Longrightarrow> (\<And>p. peer_frame p (f p)) \<Longrightarrow>
   host_ok (upd_peer i f (h\<lparr>h_heap := hp\<rparr>))"
  by (rule upd_peer_keeps) simp_all

lemma needs_dispatch_keeps:
  assumes "host_ok h" "i < length (h_peers h)"
  shows "host_ok (enet_needs_dispatch i h)"
proof (cases "p_needsDispatch (peer_at h i)")
  case True
  then show ?thesis using assms by (simp add: enet_needs_dispatch_def)
next
  case False
  have p: "peer_ok (peer_at h i)" "i \<notin> set (h_dispatchQueue h)" "distinct (h_dispatchQueue h)"
    using assms False by (auto simp: host_ok_def)
  show ?thesis
    by (rule host_ok_update [OF assms, of "(peer_at h i)\<lparr>p_needsDispatch := True\<rparr>"])
       (use p False in \<open>auto simp: enet_needs_dispatch_def upd_peer_def peer_ok_defs is_limited_def\<close>)
qed

interpretation needs_dispatch: host_operation enet_needs_dispatch
  by unfold_locales (simp_all add: needs_dispatch_keeps)

lemma peer_frame_dispatched_channel:
  "(\<And>ch. length (ch_reliableWindows (f ch)) = length (ch_reliableWindows ch)) \<Longrightarrow>
   peer_frame p (upd_channel c f (p\<lparr>p_dispatchedCommands := ds\<rparr>))"
  by (rule peer_frame_trans [OF peer_frame_same peer_frame_channel]) simp_all

lemma dispatch_unreliable_keeps:
  assumes "host_ok h" "i < length (h_peers h)"
  shows "host_ok (enet_peer_dispatch_incoming_unreliable_commands i c h)"
  using assms needs_dispatch_keeps [OF assms]
  by (auto simp: enet_peer_dispatch_incoming_unreliable_commands_def
      enet_peer_remove_incoming_commands_def Let_def split: prod.split
      intro!: upd_peer_heap_keeps peer_frame_dispatched_channel peer_frame_channel)

interpretation dispatch_unreliable: host_operation "\<lambda>i. enet_peer_dispatch_incoming_unreliable_commands i c" for c
  by unfold_locales (simp_all add: dispatch_unreliable_keeps)

lemma dispatch_reliable_length [simp]:
  "length (h_peers (enet_peer_dispatch_incoming_reliable_commands i c h)) = length (h_peers h)"
  by (simp add: enet_peer_dispatch_incoming_reliable_commands_def Let_def split: prod.split)

lemma dispatch_reliable_keeps:
  assumes "host_ok h" "i < length (h_peers h)"
  shows "host_ok (enet_peer_dispatch_incoming_reliable_commands i c h)"
proof -
  have "host_ok (enet_needs_dispatch i (upd_peer i (\<lambda>p. upd_channel c f
      (p\<lparr>p_dispatchedCommands := p_dispatchedCommands p @ ready\<rparr>)) h))"
    if "\<And>ch. length (ch_reliableWindows (f ch)) = length (ch_reliableWindows ch)" for f ready
    using assms that
    by (intro needs_dispatch_keeps upd_peer_keeps [of h] peer_frame_dispatched_channel)
       (simp_all add: host_frame_def)
  then show ?thesis
    using assms
    by (auto simp: enet_peer_dispatch_incoming_reliable_commands_def Let_def split: prod.split
        intro!: dispatch_unreliable_keeps)
qed

interpretation dispatch_reliable: host_operation "\<lambda>i. enet_peer_dispatch_incoming_reliable_commands i c" for c
  by unfold_locales (simp_all add: dispatch_reliable_keeps)

lemma receive_keeps:
  assumes "host_ok h" "i < length (h_peers h)"
  shows "host_ok (snd (enet_peer_receive i h))"
  using assms
  by (cases "p_dispatchedCommands (peer_at h i)")
     (auto simp: enet_peer_receive_def Let_def intro!: upd_peer_keeps [of h] peer_frame_same)

interpretation receive: host_operation "\<lambda>i h. snd (enet_peer_receive i h)"
  by unfold_locales (simp_all add: receive_keeps, simp add: enet_peer_receive_def Let_def split: list.split)

lemma link_incoming_keeps:
  assumes "host_ok h" "i < length (h_peers h)"
  shows "host_ok (link_incoming i c k ic h)"
proof -
  have "peer_frame p (upd_channel c f (p\<lparr>p_totalWaitingData := w\<rparr>))"
    if "\<And>ch. length (ch_reliableWindows (f ch)) = length (ch_reliableWindows ch)" for f p w
    by (rule peer_frame_trans [OF peer_frame_same peer_frame_channel [OF that]]) simp_all
  then have "host_ok (upd_peer i (\<lambda>p. upd_channel c f (p\<lparr>p_totalWaitingData := p_totalWaitingData p + w\<rparr>))
      (h\<lparr>h_heap := hp\<rparr>))"
    if "\<And>ch. length (ch_reliableWindows (f ch)) = length (ch_reliableWindows ch)" for f w hp
    using that assms by (intro upd_peer_keeps [of h]) simp_all
  then show ?thesis
    using assms
    by (auto simp: link_incoming_def Let_def intro!: dispatch_reliable_keeps dispatch_unreliable_keeps)
qed

lemma queue_incoming_keeps:
  assumes "host_ok h" "i < length (h_peers h)"
  shows "host_ok (snd (enet_peer_queue_incoming_command i command data len flags n h))"
proof -
  have "host_ok (h\<lparr>h_heap := hp\<rparr>)" for hp
    using assms(1) by (rule host_ok_same_peers) simp_all
  then show ?thesis
    using assms
    by (auto simp: enet_peer_queue_incoming_command_def Let_def split: option.split prod.split
        intro!: link_incoming_keeps)
qed

lemma link_incoming_length [simp]: "length (h_peers (link_incoming i c k ic h)) = length (h_peers h)"
  by (simp add: link_incoming_def Let_def)

interpretation queue_incoming:
  host_operation "\<lambda>i h. snd (enet_peer_queue_incoming_command i command data len flags n h)"
  for command data len flags n
  by unfold_locales
     (simp add: queue_incoming_keeps,
      simp add: enet_peer_queue_incoming_command_def Let_def split: option.split prod.split)

lemma change_state_keeps:
  assumes "host_ok h" "i < length (h_peers h)" "is_settled s"
  shows "host_ok (enet_protocol_change_state i s h)"
proof (rule host_ok_update [OF assms(1,2), of "(peer_at h i)\<lparr>p_state := s\<rparr>"])
  have p: "peer_ok (peer_at h i)" "i \<in> set (h_dispatchQueue h) \<longleftrightarrow> p_needsDispatch (peer_at h i)"
    "distinct (h_dispatchQueue h)"
    using assms by (auto simp: host_ok_def)
  then show "peer_ok ((peer_at h i)\<lparr>p_state := s\<rparr>)" using assms(3) by (simp add: peer_ok_defs)
  show "set (h_dispatchQueue (enet_protocol_change_state i s h)) = set (h_dispatchQueue h) - {i} \<union>
      (if p_needsDispatch ((peer_at h i)\<lparr>p_state := s\<rparr>) then {i} else {})"
    "distinct (h_dispatchQueue (enet_protocol_change_state i s h))"
    using p by (auto simp: enet_protocol_change_state_def enet_peer_on_connect_def
        enet_peer_on_disconnect_def Let_def)
qed (auto simp: enet_protocol_change_state_def enet_peer_on_connect_def enet_peer_on_disconnect_def
    Let_def upd_peer_def is_limited_def)

lemma change_state_length [simp]: "length (h_peers (enet_protocol_change_state i s h)) = length (h_peers h)"
  by (simp add: enet_protocol_change_state_def enet_peer_on_connect_def enet_peer_on_disconnect_def Let_def)

lemma is_settled_simps [simp]:
  "is_settled ENET_PEER_STATE_ZOMBIE" "is_settled ENET_PEER_STATE_CONNECTED" "is_settled ENET_PEER_STATE_DISCONNECTING"
  "is_settled ENET_PEER_STATE_CONNECTION_PENDING" "is_settled ENET_PEER_STATE_CONNECTION_SUCCEEDED"
  "is_settled ENET_PEER_STATE_ACKNOWLEDGING_CONNECT" "is_settled ENET_PEER_STATE_ACKNOWLEDGING_DISCONNECT"
  "is_settled ENET_PEER_STATE_DISCONNECT_LATER" "\<not> is_settled ENET_PEER_STATE_DISCONNECTED"
  "\<not> is_settled ENET_PEER_STATE_CONNECTING"
  by (simp_all add: is_settled_def)

interpretation become_zombie: host_operation "\<lambda>i. enet_protocol_change_state i ENET_PEER_STATE_ZOMBIE"
  by unfold_locales (simp_all add: change_state_keeps)

interpretation dispatch_zombie: host_sequence "\<lambda>i. enet_protocol_change_state i ENET_PEER_STATE_ZOMBIE" enet_needs_dispatch
  by unfold_locales

lemma reset_queues_length [simp]: "length (h_peers (enet_peer_reset_queues i h)) = length (h_peers h)"
  by (simp add: enet_peer_reset_queues_def Let_def)

lemma reset_queues_keeps:
  assumes "host_ok h" "i < length (h_peers h)"
  shows "host_ok (enet_peer_reset_queues i h)"
proof -
  have p: "peer_ok (peer_at h i)" "i \<in> set (h_dispatchQueue h) \<longleftrightarrow> p_needsDispatch (peer_at h i)"
    "distinct (h_dispatchQueue h)"
    using assms by (auto simp: host_ok_def)
  show ?thesis
    by (rule host_ok_update [OF assms, of "(peer_at h i)\<lparr>p_needsDispatch := False, p_acknowledgements := [],
             p_sentReliableCommands := [], p_sentUnreliableCommands := [],
             p_outgoingReliableCommands := [], p_outgoingUnreliableCommands := [],
             p_dispatchedCommands := [], p_channels := [], p_channelCount := 0\<rparr>"])
       (use p in \<open>auto simp: enet_peer_reset_queues_def Let_def upd_peer_def peer_ok_defs is_limited_def\<close>)
qed

interpretation reset_queues: host_operation enet_peer_reset_queues
  by unfold_locales (simp_all add: reset_queues_keeps)

lemma reset_length [simp]: "length (h_peers (enet_peer_reset i h)) = length (h_peers h)"
  by (simp add: enet_peer_reset_def Let_def enet_peer_on_disconnect_def)

lemma reset_keeps:
  assumes "host_ok h" "i < length (h_peers h)"
  shows "host_ok (enet_peer_reset i h)"
proof -
  let ?p = "(reset_fields (h_mtu h) (peer_at h i))\<lparr>p_needsDispatch := False, p_acknowledgements := [],
             p_sentReliableCommands := [], p_sentUnreliableCommands := [],
             p_outgoingReliableCommands := [], p_outgoingUnreliableCommands := [],
             p_dispatchedCommands := [], p_channels := [], p_channelCount := 0\<rparr>"
  have p: "peer_ok (peer_at h i)" "i \<in> set (h_dispatchQueue h) \<longleftrightarrow> p_needsDispatch (peer_at h i)"
    "distinct (h_dispatchQueue h)" "ENET_PROTOCOL_MINIMUM_MTU \<le> h_mtu h" "h_mtu h \<le> ENET_PROTOCOL_MAXIMUM_MTU"
    using assms by (auto simp: host_ok_def)
  have "peer_ok ?p"
    using p by (simp add: peer_ok_defs reset_fields_def)
  moreover have "\<not> is_limited ?p" "p_state ?p = ENET_PEER_STATE_DISCONNECTED" "\<not> p_needsDispatch ?p"
    by (simp_all add: reset_fields_def is_limited_def)
  moreover have "p_needsDispatch (reset_fields M q) = p_needsDispatch q" for M q by (simp add: reset_fields_def)
  ultimately show ?thesis
    by (intro host_ok_update [OF assms, of ?p])
       (use p assms(2) in \<open>auto simp: enet_peer_reset_def enet_peer_reset_queues_def enet_peer_on_disconnect_def Let_def
          upd_peer_def is_limited_def\<close>)
qed

interpretation reset: host_operation enet_peer_reset
  by unfold_locales (simp_all add: reset_keeps)

lemma recalculate_keeps: "host_ok h \<Longrightarrow> host_ok (h\<lparr>h_recalculateBandwidthLimits := b\<rparr>)"
  by (rule host_ok_same_peers) (simp_all add: host_frame_def)

lemma dispatch_state_length [simp]:
  "length (h_peers (enet_protocol_dispatch_state i s h)) = length (h_peers h)"
  by (simp add: enet_protocol_dispatch_state_def needs_dispatch.same_peers)

lemma dispatch_state_keeps:
  "host_ok h \<Longrightarrow> i < length (h_peers h) \<Longrightarrow> is_settled s \<Longrightarrow> host_ok (enet_protocol_dispatch_state i s h)"
  by (simp add: enet_protocol_dispatch_state_def needs_dispatch.keeps change_state_keeps)

interpretation notify_connect: host_operation "\<lambda>i h. snd (enet_protocol_notify_connect i event h)" for event
  by unfold_locales
     (auto simp: enet_protocol_notify_connect_def Let_def recalculate_keeps
       split: option.split intro!: dispatch_state_keeps change_state_keeps)

lemma event_data_keeps:
  "host_ok h \<Longrightarrow> i < length (h_peers h) \<Longrightarrow> host_ok (upd_peer i (p_eventData_update f) h)"
  by (rule upd_peer_keeps) (simp_all add: host_frame_def peer_frame_same)

interpretation notify_disconnect: host_operation "\<lambda>i h. snd (enet_protocol_notify_disconnect i event h)" for event
  by unfold_locales
     (auto simp: enet_protocol_notify_disconnect_def Let_def recalculate_keeps
       split: option.split intro!: dispatch_state_keeps reset_keeps event_data_keeps)

section \<open>Events\<close>

text \<open>Taking the head of the queue.\<close>

definition pop_dispatch :: "ENetHost \<Rightarrow> nat \<Rightarrow> nat list \<Rightarrow> ENetHost" where
  "pop_dispatch h i queue = upd_peer i (p_needsDispatch_update (\<lambda>_. False)) (h\<lparr>h_dispatchQueue := queue\<rparr>)"

lemma pop_dispatch_keeps:
  assumes "host_ok h" "h_dispatchQueue h = i # queue"
  shows "host_ok (pop_dispatch h i queue)" "i < length (h_peers h)"
    "length (h_peers (pop_dispatch h i queue)) = length (h_peers h)"
    "h_dispatchQueue (pop_dispatch h i queue) = queue"
    "peer_at (pop_dispatch h i queue) i = (peer_at h i)\<lparr>p_needsDispatch := False\<rparr>"
    "i \<notin> set queue"
proof -
  show i: "i < length (h_peers h)" using assms by (auto simp: host_ok_def)
  have p: "peer_ok (peer_at h i)" "distinct (i # queue)" using assms i by (auto simp: host_ok_def)
  show "host_ok (pop_dispatch h i queue)"
    by (rule host_ok_update [OF assms(1) i, of "(peer_at h i)\<lparr>p_needsDispatch := False\<rparr>"])
       (use p assms(2) in \<open>auto simp: pop_dispatch_def upd_peer_def peer_ok_defs is_limited_def\<close>)
  show "peer_at (pop_dispatch h i queue) i = (peer_at h i)\<lparr>p_needsDispatch := False\<rparr>"
    using i by (simp add: pop_dispatch_def)
  show "i \<notin> set queue" using p by simp
qed (simp_all add: pop_dispatch_def)

lemma append_dispatch_keeps:
  assumes "host_ok h" "i < length (h_peers h)" "i \<notin> set (h_dispatchQueue h)"
  shows "host_ok (upd_peer i (p_needsDispatch_update (\<lambda>_. True)) (h\<lparr>h_dispatchQueue := h_dispatchQueue h @ [i]\<rparr>))"
proof -
  have "\<not> p_needsDispatch (peer_at h i)" using assms by (auto simp: host_ok_def)
  then show ?thesis using needs_dispatch_keeps [OF assms(1,2)] by (simp add: enet_needs_dispatch_def)
qed

lemma receive_nonempty:
  assumes "p_dispatchedCommands (peer_at h i) \<noteq> []"
  obtains k c where "enet_peer_receive i h = (Some (k, c), snd (enet_peer_receive i h))"
  using assms by (cases "p_dispatchedCommands (peer_at h i)") (auto simp: enet_peer_receive_def Let_def)

lemma receive_fields:
  "h_dispatchQueue (snd (enet_peer_receive i h)) = h_dispatchQueue h"
  "length (h_peers (snd (enet_peer_receive i h))) = length (h_peers h)"
  "i < length (h_peers h) \<Longrightarrow> p_state (peer_at (snd (enet_peer_receive i h)) i) = p_state (peer_at h i)"
  by (simp_all add: enet_peer_receive_def Let_def split: list.split)

text \<open>What an event says about the host that reported it.\<close>

definition event_matches :: "ENetEvent \<Rightarrow> ENetHost \<Rightarrow> bool" where
  "event_matches e h \<longleftrightarrow>
     (case ev_peer e of None \<Rightarrow> False
      | Some i \<Rightarrow> i < length (h_peers h) \<and>
          (case ev_type e of
             ENET_EVENT_TYPE_NONE \<Rightarrow> False
           | ENET_EVENT_TYPE_CONNECT \<Rightarrow> state_at h i = ENET_PEER_STATE_CONNECTED \<and>
               ev_data e = p_eventData (peer_at h i)
           | ENET_EVENT_TYPE_DISCONNECT \<Rightarrow> state_at h i = ENET_PEER_STATE_DISCONNECTED
           | ENET_EVENT_TYPE_RECEIVE \<Rightarrow> state_at h i = ENET_PEER_STATE_CONNECTED \<and> ev_packet e \<noteq> None))"

lemma reset_state [simp]:
  "i < length (h_peers h) \<Longrightarrow> state_at (enet_peer_reset i h) i = ENET_PEER_STATE_DISCONNECTED"
  by (simp add: enet_peer_reset_def enet_peer_reset_queues_def Let_def reset_fields_def
      enet_peer_on_disconnect_def)

lemma change_state_peer:
  "i < length (h_peers h) \<Longrightarrow>
   peer_at (enet_protocol_change_state i s h) i = (peer_at h i)\<lparr>p_state := s\<rparr>"
  by (simp add: enet_protocol_change_state_def Let_def enet_peer_on_connect_def enet_peer_on_disconnect_def)

declare dispatch_queue_loop.simps [simp del]

text \<open>The turn of the loop for a connected peer with commands waiting.\<close>

lemma dispatch_receive_turn:
  assumes "host_ok h" "h_dispatchQueue h = i # queue" "state_at h i = ENET_PEER_STATE_CONNECTED"
    and "p_dispatchedCommands (peer_at h i) \<noteq> []"
  shows "\<exists>e' h'. dispatch_queue_loop (Suc fuel) e h = Some (1, e', h') \<and> host_ok h' \<and> event_matches e' h'"
proof -
  note pop = pop_dispatch_keeps [OF assms(1,2)]
  let ?h = "pop_dispatch h i queue"
  obtain k c where recv: "enet_peer_receive i ?h = (Some (k, c), snd (enet_peer_receive i ?h))"
    using receive_nonempty [of ?h i] assms(4) pop(5) by auto
  define h2 where "h2 = snd (enet_peer_receive i ?h)"
  have h2: "host_ok h2" "i < length (h_peers h2)" "i \<notin> set (h_dispatchQueue h2)"
      "state_at h2 i = ENET_PEER_STATE_CONNECTED"
    using pop assms(3) receive_keeps [OF pop(1)] receive_fields [of i ?h] by (simp_all add: h2_def)
  let ?e = "e\<lparr>ev_packet := Some k, ev_channelID := c, ev_type := ENET_EVENT_TYPE_RECEIVE, ev_peer := Some i\<rparr>"
  let ?h3 = "if p_dispatchedCommands (peer_at h2 i) \<noteq> []
      then upd_peer i (p_needsDispatch_update (\<lambda>_. True)) (h2\<lparr>h_dispatchQueue := h_dispatchQueue h2 @ [i]\<rparr>)
      else h2"
  have "dispatch_queue_loop (Suc fuel) e h = Some (1, ?e, ?h3)"
    using assms(2-4) recv pop(2)
    by (subst dispatch_queue_loop.simps)
       (simp add: Let_def pop(5) h2_def [symmetric] flip: pop_dispatch_def)
  moreover have "host_ok ?h3" using append_dispatch_keeps h2 by auto
  moreover have "event_matches ?e ?h3" using h2(2,4) by (auto simp: event_matches_def)
  ultimately show ?thesis by blast
qed

lemma dispatch_queue_loop_result:
  "host_ok h \<Longrightarrow> length (h_dispatchQueue h) \<le> fuel \<Longrightarrow>
   \<exists>r e' h'. dispatch_queue_loop fuel e h = Some (r, e', h') \<and> host_ok h' \<and>
     (r = 0 \<and> h_dispatchQueue h' = [] \<and> e' = e \<or> r = 1 \<and> event_matches e' h')"
proof (induction fuel arbitrary: h)
  case 0
  then show ?case by (simp add: dispatch_queue_loop.simps)
next
  case (Suc fuel)
  show ?case
  proof (cases "h_dispatchQueue h")
    case Nil
    then show ?thesis using Suc.prems by (simp add: dispatch_queue_loop.simps)
  next
    case (Cons i queue)
    note pop = pop_dispatch_keeps [OF Suc.prems(1) Cons]
    let ?h = "pop_dispatch h i queue"
    have IH: "\<exists>r e' h'. dispatch_queue_loop fuel e ?h = Some (r, e', h') \<and> host_ok h' \<and>
        (r = 0 \<and> h_dispatchQueue h' = [] \<and> e' = e \<or> r = 1 \<and> event_matches e' h')"
      using Suc.IH [OF pop(1)] Suc.prems(2) Cons pop(4) by simp
    note unfold = dispatch_queue_loop.simps [of "Suc fuel" e h, unfolded Cons, simplified,
        folded pop_dispatch_def]
    have connect: "host_ok (enet_protocol_change_state i ENET_PEER_STATE_CONNECTED ?h)"
      using pop by (simp add: change_state_keeps)
    have zombie: "host_ok (enet_peer_reset i (?h\<lparr>h_recalculateBandwidthLimits := True\<rparr>))"
      using pop by (simp add: reset_keeps recalculate_keeps)
    consider "state_at h i = ENET_PEER_STATE_CONNECTED" "p_dispatchedCommands (peer_at h i) \<noteq> []"
      | "state_at h i = ENET_PEER_STATE_CONNECTED" "p_dispatchedCommands (peer_at h i) = []"
      | "state_at h i = ENET_PEER_STATE_ZOMBIE"
      | "state_at h i = ENET_PEER_STATE_CONNECTION_PENDING \<or> state_at h i = ENET_PEER_STATE_CONNECTION_SUCCEEDED"
      | "state_at h i \<notin> {ENET_PEER_STATE_CONNECTED, ENET_PEER_STATE_ZOMBIE,
           ENET_PEER_STATE_CONNECTION_PENDING, ENET_PEER_STATE_CONNECTION_SUCCEEDED}"
      by blast
    then show ?thesis
    proof cases
      case 1
      then show ?thesis using dispatch_receive_turn [OF Suc.prems(1) Cons] by blast
    next
      case 2
      then show ?thesis using IH by (simp add: unfold Let_def pop(2) pop(5))
    next
      case 3
      then show ?thesis using zombie pop by (simp add: unfold Let_def pop(2) pop(5) event_matches_def)
    next
      case 4
      then show ?thesis
        using connect pop by (auto simp: unfold Let_def pop(2) pop(5) event_matches_def change_state_peer)
    next
      case 5
      then show ?thesis using IH by (simp add: unfold Let_def pop(2) pop(5))
    qed
  qed
qed


definition empty_event :: ENetEvent where
  "empty_event = \<lparr>ev_type = ENET_EVENT_TYPE_NONE, ev_peer = None, ev_channelID = 0, ev_data = 0,
     ev_packet = None\<rparr>"

text \<open>A host with one peer in a given state.\<close>

definition peer_example :: "ENetPeerState \<Rightarrow> ENetHost" where
  "peer_example s = (zero_host fresh_heap quiet_world)
     \<lparr>h_mtu := 1400, h_connectedPeers := (if is_connected s then 1 else 0),
      h_peers := [(reset_fields 1400 zero_peer)\<lparr>p_state := s, p_channels := [new_channel], p_channelCount := 1,
        p_needsDispatch := True\<rparr>], h_dispatchQueue := [0]\<rparr>"

lemma peer_example_simps [simp]:
  "h_peers (peer_example s) = [(reset_fields 1400 zero_peer)\<lparr>p_state := s, p_channels := [new_channel],
     p_channelCount := 1, p_needsDispatch := True\<rparr>]"
  "h_dispatchQueue (peer_example s) = [0]" "h_mtu (peer_example s) = 1400"
  "h_heap (peer_example s) = fresh_heap" "h_world (peer_example s) = quiet_world"
  by (simp_all add: peer_example_def zero_host_def)

lemma peer_example_ok: "host_ok (peer_example s)"
proof -
  have "peer_ok (hd (h_peers (peer_example s)))"
    by (simp add: peer_ok_defs reset_fields_def new_channel_def zero_peer_def)
  moreover have "p_incomingBandwidth (hd (h_peers (peer_example s))) = 0" by (simp add: reset_fields_def)
  ultimately show ?thesis
    by (auto simp: host_ok_def is_limited_def peer_example_def zero_host_def)
qed


text \<open>Property C11.  Resetting a peer disconnects it completely: its queues and channels are empty, it
  is out of the dispatch queue, the counters of the host are right again, and no other peer is
  touched.\<close>

theorem enet_peer_reset_complete:
  assumes "host_ok h" "i < length (h_peers h)" "h' = enet_peer_reset i h" "p = peer_at h' i"
  shows "host_ok h' \<and> p_state p = ENET_PEER_STATE_DISCONNECTED \<and> i \<notin> set (h_dispatchQueue h') \<and>
    p_acknowledgements p = [] \<and> p_sentReliableCommands p = [] \<and> p_sentUnreliableCommands p = [] \<and>
    p_outgoingReliableCommands p = [] \<and> p_outgoingUnreliableCommands p = [] \<and>
    p_dispatchedCommands p = [] \<and> p_channels p = [] \<and> p_channelCount p = 0 \<and>
    (\<forall>j. j \<noteq> i \<longrightarrow> peer_at h' j = peer_at h j)"
proof -
  have ok: "host_ok h'" using reset_keeps assms by simp
  have p: "p = (reset_fields (h_mtu h) (peer_at h i))\<lparr>p_needsDispatch := False, p_acknowledgements := [],
             p_sentReliableCommands := [], p_sentUnreliableCommands := [],
             p_outgoingReliableCommands := [], p_outgoingUnreliableCommands := [],
             p_dispatchedCommands := [], p_channels := [], p_channelCount := 0\<rparr>"
    using assms(2-4) by (simp add: enet_peer_reset_def enet_peer_reset_queues_def Let_def
        enet_peer_on_disconnect_def)
  have "peer_at h' j = peer_at h j" if "j \<noteq> i" for j
    using that assms(2,3) by (simp add: enet_peer_reset_def enet_peer_reset_queues_def Let_def
        enet_peer_on_disconnect_def)
  moreover have "i \<notin> set (h_dispatchQueue h')"
    using ok p assms(4) by (auto simp: host_ok_def)
  ultimately show ?thesis using ok by (simp add: p reset_fields_def)
qed

theorem enet_peer_reset_complete_witness:
  "let h' = enet_peer_reset 0 (peer_example ENET_PEER_STATE_CONNECTED)
   in host_ok h' \<and> state_at h' 0 = ENET_PEER_STATE_DISCONNECTED \<and> 0 \<notin> set (h_dispatchQueue h')"
  using enet_peer_reset_complete [OF peer_example_ok, of 0 ENET_PEER_STATE_CONNECTED, OF _ refl refl]
  by (simp add: Let_def)

end
