(* ===== verification/EnetControl.thy ===== *)
theory EnetControl
  imports EnetPeer
begin

text \<open>
  The handlers of the control commands (\<^verbatim>\<open>enet/protocol.cpp\<close>): acknowledgements, the connection
  handshake, disconnection, ping and bandwidth.  A handler gets the decoded command, whose sequence
  number is already in host order, and returns 0 or -1 as the code does.
\<close>

section \<open>Acknowledged commands\<close>

text \<open>Dropping a packet that has been sent.\<close>

definition release_sent_packet :: "nat option \<Rightarrow> heap \<Rightarrow> heap" where
  "release_sent_packet packet hp =
     (case packet of
        None \<Rightarrow> hp
      | Some k \<Rightarrow>
          let hp = update_packet k (\<lambda>pk. pk\<lparr>pk_referenceCount := pk_referenceCount pk - 1\<rparr>) hp
          in if pk_referenceCount (deref_packet hp k) = 0
             then enet_packet_destroy (Some k)
                    (update_packet k (\<lambda>pk. pk\<lparr>pk_flags := pk_flags pk OR ENET_PACKET_FLAG_SENT\<rparr>) hp)
             else hp)"

definition enet_protocol_remove_sent_unreliable_commands :: "heap \<Rightarrow> ENetPeer \<Rightarrow> unit \<times> heap \<times> ENetPeer" where
  "enet_protocol_remove_sent_unreliable_commands hp p =
     ((), fold (\<lambda>oc. release_sent_packet (oc_packet oc)) (p_sentUnreliableCommands p) hp,
      p\<lparr>p_sentUnreliableCommands := []\<rparr>)"

text \<open>The two searches, giving the position of the command.\<close>

fun find_sent :: "u16 \<Rightarrow> u8 \<Rightarrow> ENetOutgoingCommand list \<Rightarrow> nat option" where
  "find_sent s c [] = None"
| "find_sent s c (oc # ocs) =
     (if oc_reliableSequenceNumber oc = s \<and> channel_of (oc_command oc) = c then Some 0
      else map_option Suc (find_sent s c ocs))"

fun find_resent :: "u16 \<Rightarrow> u8 \<Rightarrow> ENetOutgoingCommand list \<Rightarrow> nat option" where
  "find_resent s c [] = None"
| "find_resent s c (oc # ocs) =
     (if oc_sendAttempts oc < 1 then None
      else if oc_reliableSequenceNumber oc = s \<and> channel_of (oc_command oc) = c then Some 0
      else map_option Suc (find_resent s c ocs))"

definition remove_nth :: "nat \<Rightarrow> 'a list \<Rightarrow> 'a list" where
  "remove_nth n xs = take n xs @ drop (Suc n) xs"

definition release_window :: "u16 \<Rightarrow> ENetChannel \<Rightarrow> ENetChannel" where
  "release_window s ch =
     (let w = reliable_window s
      in if ch_reliableWindows ch ! w > 0 then
           let ch = ch\<lparr>ch_reliableWindows := (ch_reliableWindows ch)[w := ch_reliableWindows ch ! w - 1]\<rparr>
           in if ch_reliableWindows ch ! w = 0
              then ch\<lparr>ch_usedReliableWindows := ch_usedReliableWindows ch AND NOT (push_bit w 1)\<rparr>
              else ch
         else ch)"

text \<open>The part after the search: \<open>oc\<close> is the command found, in the sent list or not, and \<open>p\<close> the
  peer without it.\<close>

definition forget_command ::
    "u16 \<Rightarrow> u8 \<Rightarrow> bool \<Rightarrow> ENetOutgoingCommand \<Rightarrow> heap \<Rightarrow> ENetPeer \<Rightarrow> heap \<times> ENetPeer" where
  "forget_command s c wasSent oc hp p =
     (let p = (if ucast c < p_channelCount p then upd_channel (unat c) (release_window s) p else p);
          p = (if oc_packet oc \<noteq> None \<and> wasSent
               then p\<lparr>p_reliableDataInTransit := p_reliableDataInTransit p - ucast (oc_fragmentLength oc)\<rparr>
               else p);
          hp = release_sent_packet (oc_packet oc) hp
      in case p_sentReliableCommands p of
           [] \<Rightarrow> (hp, p)
         | first # _ \<Rightarrow> (hp, p\<lparr>p_nextTimeout := oc_sentTime first + oc_roundTripTimeout first\<rparr>))"

definition enet_protocol_remove_sent_reliable_command ::
    "u16 \<Rightarrow> u8 \<Rightarrow> heap \<Rightarrow> ENetPeer \<Rightarrow> u8 \<times> heap \<times> ENetPeer" where
  "enet_protocol_remove_sent_reliable_command s c hp p =
     (case find_sent s c (p_sentReliableCommands p) of
        Some n \<Rightarrow>
          let oc = p_sentReliableCommands p ! n
          in (number_of (oc_command oc),
              forget_command s c True oc hp
                (p\<lparr>p_sentReliableCommands := remove_nth n (p_sentReliableCommands p)\<rparr>))
      | None \<Rightarrow>
          (case find_resent s c (p_outgoingReliableCommands p) of
             None \<Rightarrow> (ENET_PROTOCOL_COMMAND_NONE, hp, p)
           | Some n \<Rightarrow>
               let oc = p_outgoingReliableCommands p ! n
               in (number_of (oc_command oc),
                   forget_command s c False oc hp
                     (p\<lparr>p_outgoingReliableCommands := remove_nth n (p_outgoingReliableCommands p)\<rparr>))))"

section \<open>Disconnecting\<close>

definition disconnect_command :: "u8 \<Rightarrow> u32 \<Rightarrow> ENetProtocol" where
  "disconnect_command flag data =
     make_command (ENET_PROTOCOL_COMMAND_DISCONNECT OR flag) 0xFF (Disconnect (ENET_HOST_TO_NET_32 data))"

definition queue_outgoing :: "nat \<Rightarrow> ENetProtocol \<Rightarrow> ENetHost \<Rightarrow> ENetHost" where
  "queue_outgoing i command h = snd (on_peer i (enet_peer_queue_outgoing_command command None 0 0) h)"

text \<open>\<^verbatim>\<open>enet_peer_disconnect\<close> for a peer in one of the two connected states, where it does not flush
  the host.\<close>

definition disconnect_connected :: "nat \<Rightarrow> u32 \<Rightarrow> ENetHost \<Rightarrow> ENetHost" where
  "disconnect_connected i data h =
     (let h = enet_peer_reset_queues i h;
          h = queue_outgoing i (disconnect_command (ENET_PROTOCOL_COMMAND_FLAG_ACKNOWLEDGE) data) h;
          h = enet_peer_on_disconnect i h
      in upd_peer i (p_state_update (\<lambda>_. ENET_PEER_STATE_DISCONNECTING)) h)"

text \<open>The function, given \<^verbatim>\<open>enet_host_flush\<close>, which may not return.\<close>

definition enet_peer_disconnect_with ::
    "(ENetHost \<Rightarrow> ENetHost option) \<Rightarrow> nat \<Rightarrow> u32 \<Rightarrow> ENetHost \<Rightarrow> ENetHost option" where
  "enet_peer_disconnect_with flush i data h =
     (let s = state_at h i
      in if s = ENET_PEER_STATE_DISCONNECTING \<or> s = ENET_PEER_STATE_DISCONNECTED \<or>
            s = ENET_PEER_STATE_ACKNOWLEDGING_DISCONNECT \<or> s = ENET_PEER_STATE_ZOMBIE
         then Some h
         else if s = ENET_PEER_STATE_CONNECTED \<or> s = ENET_PEER_STATE_DISCONNECT_LATER
         then Some (disconnect_connected i data h)
         else
           let h = enet_peer_reset_queues i h;
               h = queue_outgoing i (disconnect_command (ENET_PROTOCOL_COMMAND_FLAG_UNSEQUENCED) data) h
           in map_option (enet_peer_reset i) (flush h))"

section \<open>Round trip times\<close>

text \<open>The measured time: the low 16 bits come back in the acknowledgement.\<close>

definition acknowledged_sentTime :: "u32 \<Rightarrow> u16 \<Rightarrow> u32" where
  "acknowledged_sentTime serviceTime sent =
     (let t = ucast sent OR (serviceTime AND 0xFFFF0000)
      in if t AND 0x8000 > serviceTime AND 0x8000 then t - 0x10000 else t)"

definition smooth_roundTripTime :: "u32 \<Rightarrow> ENetPeer \<Rightarrow> ENetPeer" where
  "smooth_roundTripTime roundTripTime p =
     (let p = p\<lparr>p_roundTripTimeVariance := p_roundTripTimeVariance p - p_roundTripTimeVariance p div 4\<rparr>
      in if roundTripTime \<ge> p_roundTripTime p then
           let p = p\<lparr>p_roundTripTime := p_roundTripTime p + (roundTripTime - p_roundTripTime p) div 8\<rparr>
           in p\<lparr>p_roundTripTimeVariance := p_roundTripTimeVariance p +
                  (roundTripTime - p_roundTripTime p) div 4\<rparr>
         else
           let p = p\<lparr>p_roundTripTime := p_roundTripTime p - (p_roundTripTime p - roundTripTime) div 8\<rparr>
           in p\<lparr>p_roundTripTimeVariance := p_roundTripTimeVariance p +
                  (p_roundTripTime p - roundTripTime) div 4\<rparr>)"

definition record_extremes :: "ENetPeer \<Rightarrow> ENetPeer" where
  "record_extremes p =
     (let p = (if p_roundTripTime p < p_lowestRoundTripTime p
               then p\<lparr>p_lowestRoundTripTime := p_roundTripTime p\<rparr> else p)
      in if p_roundTripTimeVariance p > p_highestRoundTripTimeVariance p
         then p\<lparr>p_highestRoundTripTimeVariance := p_roundTripTimeVariance p\<rparr> else p)"

definition next_throttle_epoch :: "u32 \<Rightarrow> ENetPeer \<Rightarrow> ENetPeer" where
  "next_throttle_epoch serviceTime p =
     (if p_packetThrottleEpoch p = 0 \<or>
         ENET_TIME_DIFFERENCE serviceTime (p_packetThrottleEpoch p) \<ge> p_packetThrottleInterval p
      then p\<lparr>p_lastRoundTripTime := p_lowestRoundTripTime p,
             p_lastRoundTripTimeVariance := p_highestRoundTripTimeVariance p,
             p_lowestRoundTripTime := p_roundTripTime p,
             p_highestRoundTripTimeVariance := p_roundTripTimeVariance p,
             p_packetThrottleEpoch := serviceTime\<rparr>
      else p)"

definition update_roundTripTime :: "u32 \<Rightarrow> u32 \<Rightarrow> ENetPeer \<Rightarrow> ENetPeer" where
  "update_roundTripTime serviceTime roundTripTime p =
     next_throttle_epoch serviceTime (record_extremes (smooth_roundTripTime roundTripTime p))"

definition enet_protocol_handle_acknowledge ::
    "nat \<Rightarrow> ENetProtocol \<Rightarrow> ENetEvent option \<Rightarrow> ENetHost \<Rightarrow> int \<times> ENetEvent option \<times> ENetHost" where
  "enet_protocol_handle_acknowledge i command event h =
     (if state_at h i = ENET_PEER_STATE_DISCONNECTED \<or> state_at h i = ENET_PEER_STATE_ZOMBIE
      then (0, event, h)
      else
        let sent = acknowledged_sentTime (h_serviceTime h)
              (ENET_NET_TO_HOST_16 (ack_receivedSentTime (pr_body command)))
        in if ENET_TIME_LESS (h_serviceTime h) sent then (0, event, h)
        else
          let roundTripTime = ENET_TIME_DIFFERENCE (h_serviceTime h) sent;
              h = upd_peer i (\<lambda>p. p\<lparr>p_lastReceiveTime := h_serviceTime h, p_earliestTimeout := 0\<rparr>) h;
              h = upd_peer i (\<lambda>p. snd (enet_peer_throttle roundTripTime p)) h;
              h = upd_peer i (update_roundTripTime (h_serviceTime h) roundTripTime) h
          in case on_peer i (enet_protocol_remove_sent_reliable_command
                (ENET_NET_TO_HOST_16 (ack_receivedReliableSequenceNumber (pr_body command)))
                (channel_of command)) h of
             (commandNumber, h) \<Rightarrow>
               if state_at h i = ENET_PEER_STATE_ACKNOWLEDGING_CONNECT then
                 if commandNumber \<noteq> ENET_PROTOCOL_COMMAND_VERIFY_CONNECT then (-1, event, h)
                 else (case enet_protocol_notify_connect i event h of (event, h) \<Rightarrow> (0, event, h))
               else if state_at h i = ENET_PEER_STATE_DISCONNECTING then
                 if commandNumber \<noteq> ENET_PROTOCOL_COMMAND_DISCONNECT then (-1, event, h)
                 else (case enet_protocol_notify_disconnect i event h of (event, h) \<Rightarrow> (0, event, h))
               else if state_at h i = ENET_PEER_STATE_DISCONNECT_LATER \<and>
                       p_outgoingReliableCommands (peer_at h i) = [] \<and>
                       p_outgoingUnreliableCommands (peer_at h i) = [] \<and>
                       p_sentReliableCommands (peer_at h i) = []
               then (0, event, disconnect_connected i (p_eventData (peer_at h i)) h)
               else (0, event, h))"

section \<open>Ping, bandwidth, throttle, disconnect\<close>

abbreviation (input) not_connected :: "nat \<Rightarrow> ENetHost \<Rightarrow> bool" where
  "not_connected i h \<equiv> state_at h i \<noteq> ENET_PEER_STATE_CONNECTED \<and>
     state_at h i \<noteq> ENET_PEER_STATE_DISCONNECT_LATER"

definition enet_protocol_handle_ping :: "nat \<Rightarrow> ENetHost \<Rightarrow> int \<times> ENetHost" where
  "enet_protocol_handle_ping i h = (if not_connected i h then (-1, h) else (0, h))"

text \<open>The window for two bandwidths, and its range.\<close>

definition bandwidth_window :: "u32 \<Rightarrow> u32 \<Rightarrow> u32" where
  "bandwidth_window a b =
     (if a = 0 \<and> b = 0 then ENET_PROTOCOL_MAXIMUM_WINDOW_SIZE
      else if a = 0 \<or> b = 0
      then (ENET_MAX a b div ENET_PEER_WINDOW_SIZE_SCALE) * ENET_PROTOCOL_MINIMUM_WINDOW_SIZE
      else (ENET_MIN a b div ENET_PEER_WINDOW_SIZE_SCALE) * ENET_PROTOCOL_MINIMUM_WINDOW_SIZE)"

definition clamp_window :: "u32 \<Rightarrow> u32" where
  "clamp_window w =
     (if w < ENET_PROTOCOL_MINIMUM_WINDOW_SIZE then ENET_PROTOCOL_MINIMUM_WINDOW_SIZE
      else if w > ENET_PROTOCOL_MAXIMUM_WINDOW_SIZE then ENET_PROTOCOL_MAXIMUM_WINDOW_SIZE else w)"

definition clamp_mtu :: "u32 \<Rightarrow> u32" where
  "clamp_mtu m =
     (if m < ENET_PROTOCOL_MINIMUM_MTU then ENET_PROTOCOL_MINIMUM_MTU
      else if m > ENET_PROTOCOL_MAXIMUM_MTU then ENET_PROTOCOL_MAXIMUM_MTU else m)"

definition enet_protocol_handle_bandwidth_limit :: "nat \<Rightarrow> ENetProtocol \<Rightarrow> ENetHost \<Rightarrow> int \<times> ENetHost" where
  "enet_protocol_handle_bandwidth_limit i command h =
     (if not_connected i h then (-1, h)
      else
        let incoming = ENET_NET_TO_HOST_32 (limit_incomingBandwidth (pr_body command));
            outgoing = ENET_NET_TO_HOST_32 (limit_outgoingBandwidth (pr_body command));
            h = (if p_incomingBandwidth (peer_at h i) \<noteq> 0
                 then h\<lparr>h_bandwidthLimitedPeers := h_bandwidthLimitedPeers h - 1\<rparr> else h);
            h = upd_peer i (\<lambda>p. p\<lparr>p_incomingBandwidth := incoming, p_outgoingBandwidth := outgoing\<rparr>) h;
            h = (if p_incomingBandwidth (peer_at h i) \<noteq> 0
                 then h\<lparr>h_bandwidthLimitedPeers := h_bandwidthLimitedPeers h + 1\<rparr> else h);
            w = clamp_window (bandwidth_window (p_incomingBandwidth (peer_at h i)) (h_outgoingBandwidth h))
        in (0, upd_peer i (p_windowSize_update (\<lambda>_. w)) h))"

definition enet_protocol_handle_throttle_configure :: "nat \<Rightarrow> ENetProtocol \<Rightarrow> ENetHost \<Rightarrow> int \<times> ENetHost" where
  "enet_protocol_handle_throttle_configure i command h =
     (if not_connected i h then (-1, h)
      else (0, upd_peer i (\<lambda>p. p\<lparr>
        p_packetThrottleInterval := ENET_NET_TO_HOST_32 (throttle_interval (pr_body command)),
        p_packetThrottleAcceleration := ENET_NET_TO_HOST_32 (throttle_acceleration (pr_body command)),
        p_packetThrottleDeceleration := ENET_NET_TO_HOST_32 (throttle_deceleration (pr_body command))\<rparr>) h))"

definition enet_protocol_handle_disconnect :: "nat \<Rightarrow> ENetProtocol \<Rightarrow> ENetHost \<Rightarrow> int \<times> ENetHost" where
  "enet_protocol_handle_disconnect i command h =
     (let s = state_at h i
      in if s = ENET_PEER_STATE_DISCONNECTED \<or> s = ENET_PEER_STATE_ZOMBIE \<or>
            s = ENET_PEER_STATE_ACKNOWLEDGING_DISCONNECT
         then (0, h)
         else
           let h = enet_peer_reset_queues i h;
               h = (if s = ENET_PEER_STATE_CONNECTION_SUCCEEDED \<or> s = ENET_PEER_STATE_DISCONNECTING \<or>
                       s = ENET_PEER_STATE_CONNECTING
                    then enet_protocol_dispatch_state i ENET_PEER_STATE_ZOMBIE h
                    else if s \<noteq> ENET_PEER_STATE_CONNECTED \<and> s \<noteq> ENET_PEER_STATE_DISCONNECT_LATER then
                      enet_peer_reset i
                        (if s = ENET_PEER_STATE_CONNECTION_PENDING
                         then h\<lparr>h_recalculateBandwidthLimits := True\<rparr> else h)
                    else if command_of command AND ENET_PROTOCOL_COMMAND_FLAG_ACKNOWLEDGE \<noteq> 0
                    then enet_protocol_change_state i ENET_PEER_STATE_ACKNOWLEDGING_DISCONNECT h
                    else enet_protocol_dispatch_state i ENET_PEER_STATE_ZOMBIE h);
               h = (if state_at h i \<noteq> ENET_PEER_STATE_DISCONNECTED
                    then upd_peer i (p_eventData_update
                           (\<lambda>_. ENET_NET_TO_HOST_32 (disconnect_data (pr_body command)))) h
                    else h)
           in (0, h))"

section \<open>The handshake\<close>

text \<open>The scan over the peers: \<open>None\<close> for the early return of a repeated connect, otherwise the first
  free peer and the number of peers of the same address.\<close>

fun scan_peers ::
    "ENetAddress \<Rightarrow> u32 \<Rightarrow> ENetPeer list \<Rightarrow> nat \<Rightarrow> nat option \<Rightarrow> size_t \<Rightarrow> (nat option \<times> size_t) option" where
  "scan_peers address connectID [] n peer duplicates = Some (peer, duplicates)"
| "scan_peers address connectID (p # ps) n peer duplicates =
     (if p_state p = ENET_PEER_STATE_DISCONNECTED
      then scan_peers address connectID ps (Suc n) (if peer = None then Some n else peer) duplicates
      else if p_state p \<noteq> ENET_PEER_STATE_CONNECTING \<and> addr_host (p_address p) = addr_host address then
        if addr_port (p_address p) = addr_port address \<and> p_connectID p = connectID then None
        else scan_peers address connectID ps (Suc n) peer (duplicates + 1)
      else scan_peers address connectID ps (Suc n) peer duplicates)"

definition next_sessionID :: "u8 \<Rightarrow> u8 \<Rightarrow> u8" where
  "next_sessionID proposed own =
     (let s = (if proposed = 0xFF then own else proposed);
          s = (s + 1) AND 3
      in if s = own then (s + 1) AND 3 else s)"

text \<open>The fields of the peer that \<^verbatim>\<open>enet_protocol_handle_connect\<close> sets.\<close>

definition accept_connect :: "ENetHost \<Rightarrow> ENetProtocolConnect \<Rightarrow> size_t \<Rightarrow> ENetPeer \<Rightarrow> ENetPeer" where
  "accept_connect h c channelCount p =
     (let p = p\<lparr>p_channels := replicate (unat channelCount) new_channel, p_channelCount := channelCount,
            p_state := ENET_PEER_STATE_ACKNOWLEDGING_CONNECT, p_connectID := co_connectID c,
            p_address := h_receivedAddress h,
            p_outgoingPeerID := ENET_NET_TO_HOST_16 (co_outgoingPeerID c),
            p_incomingBandwidth := ENET_NET_TO_HOST_32 (co_incomingBandwidth c),
            p_outgoingBandwidth := ENET_NET_TO_HOST_32 (co_outgoingBandwidth c),
            p_packetThrottleInterval := ENET_NET_TO_HOST_32 (co_packetThrottleInterval c),
            p_packetThrottleAcceleration := ENET_NET_TO_HOST_32 (co_packetThrottleAcceleration c),
            p_packetThrottleDeceleration := ENET_NET_TO_HOST_32 (co_packetThrottleDeceleration c),
            p_eventData := ENET_NET_TO_HOST_32 (co_data c)\<rparr>;
          p = p\<lparr>p_outgoingSessionID := next_sessionID (co_incomingSessionID c) (p_outgoingSessionID p)\<rparr>;
          p = p\<lparr>p_incomingSessionID := next_sessionID (co_outgoingSessionID c) (p_incomingSessionID p)\<rparr>;
          p = p\<lparr>p_mtu := clamp_mtu (ENET_NET_TO_HOST_32 (co_mtu c))\<rparr>
      in p\<lparr>p_windowSize := clamp_window (bandwidth_window (h_outgoingBandwidth h) (p_incomingBandwidth p))\<rparr>)"

text \<open>The window the host grants, and the answer.\<close>

definition granted_window :: "ENetHost \<Rightarrow> ENetProtocolConnect \<Rightarrow> u32" where
  "granted_window h c =
     (let w = (if h_incomingBandwidth h = 0 then ENET_PROTOCOL_MAXIMUM_WINDOW_SIZE
               else (h_incomingBandwidth h div ENET_PEER_WINDOW_SIZE_SCALE) * ENET_PROTOCOL_MINIMUM_WINDOW_SIZE);
          w = (if w > ENET_NET_TO_HOST_32 (co_windowSize c) then ENET_NET_TO_HOST_32 (co_windowSize c) else w)
      in clamp_window w)"

definition verify_command :: "ENetHost \<Rightarrow> ENetProtocolConnect \<Rightarrow> size_t \<Rightarrow> ENetPeer \<Rightarrow> ENetProtocol" where
  "verify_command h c channelCount p =
     make_command (ENET_PROTOCOL_COMMAND_VERIFY_CONNECT OR ENET_PROTOCOL_COMMAND_FLAG_ACKNOWLEDGE) 0xFF
       (VerifyConnect \<lparr>vc_outgoingPeerID = ENET_HOST_TO_NET_16 (p_incomingPeerID p),
          vc_incomingSessionID = p_outgoingSessionID p, vc_outgoingSessionID = p_incomingSessionID p,
          vc_mtu = ENET_HOST_TO_NET_32 (p_mtu p),
          vc_windowSize = ENET_HOST_TO_NET_32 (granted_window h c),
          vc_channelCount = ENET_HOST_TO_NET_32 (ucast channelCount),
          vc_incomingBandwidth = ENET_HOST_TO_NET_32 (h_incomingBandwidth h),
          vc_outgoingBandwidth = ENET_HOST_TO_NET_32 (h_outgoingBandwidth h),
          vc_packetThrottleInterval = ENET_HOST_TO_NET_32 (p_packetThrottleInterval p),
          vc_packetThrottleAcceleration = ENET_HOST_TO_NET_32 (p_packetThrottleAcceleration p),
          vc_packetThrottleDeceleration = ENET_HOST_TO_NET_32 (p_packetThrottleDeceleration p),
          vc_connectID = p_connectID p\<rparr>)"

definition accept_peer :: "nat \<Rightarrow> ENetProtocolConnect \<Rightarrow> size_t \<Rightarrow> ENetHost \<Rightarrow> ENetHost" where
  "accept_peer i c channelCount h =
     (let h = upd_peer i (accept_connect h c channelCount) h
      in queue_outgoing i (verify_command h c channelCount (peer_at h i)) h)"

definition enet_protocol_handle_connect :: "ENetProtocol \<Rightarrow> ENetHost \<Rightarrow> nat option \<times> ENetHost" where
  "enet_protocol_handle_connect command h =
     (let c = connect_body (pr_body command);
          channelCount = ucast (ENET_NET_TO_HOST_32 (co_channelCount c)) :: size_t
      in if channelCount < ENET_PROTOCOL_MINIMUM_CHANNEL_COUNT \<or>
            channelCount > ENET_PROTOCOL_MAXIMUM_CHANNEL_COUNT then (None, h)
         else case scan_peers (h_receivedAddress h) (co_connectID c) (h_peers h) 0 None 0 of
           None \<Rightarrow> (None, h)
         | Some (None, duplicates) \<Rightarrow> (None, h)
         | Some (Some i, duplicates) \<Rightarrow>
             if duplicates \<ge> h_duplicatePeers h then (None, h)
             else
               let channelCount = (if channelCount > h_channelLimit h then h_channelLimit h else channelCount)
               in case enet_malloc (h_heap h) of (ok, hp) \<Rightarrow>
                 if \<not> ok then (None, h\<lparr>h_heap := hp\<rparr>)
                 else (Some i, accept_peer i c channelCount (h\<lparr>h_heap := hp\<rparr>)))"

text \<open>The fields \<^verbatim>\<open>enet_protocol_handle_verify_connect\<close> sets.\<close>

definition accept_verify :: "ENetProtocolVerifyConnect \<Rightarrow> ENetPeer \<Rightarrow> ENetPeer" where
  "accept_verify v p =
     (let channelCount = ucast (ENET_NET_TO_HOST_32 (vc_channelCount v)) :: size_t;
          mtu = clamp_mtu (ENET_NET_TO_HOST_32 (vc_mtu v));
          windowSize = clamp_window (ENET_NET_TO_HOST_32 (vc_windowSize v));
          p = (if channelCount < p_channelCount p then p\<lparr>p_channelCount := channelCount\<rparr> else p);
          p = p\<lparr>p_outgoingPeerID := ENET_NET_TO_HOST_16 (vc_outgoingPeerID v),
                p_incomingSessionID := vc_incomingSessionID v,
                p_outgoingSessionID := vc_outgoingSessionID v\<rparr>;
          p = (if mtu < p_mtu p then p\<lparr>p_mtu := mtu\<rparr> else p);
          p = (if windowSize < p_windowSize p then p\<lparr>p_windowSize := windowSize\<rparr> else p)
      in p\<lparr>p_incomingBandwidth := ENET_NET_TO_HOST_32 (vc_incomingBandwidth v),
           p_outgoingBandwidth := ENET_NET_TO_HOST_32 (vc_outgoingBandwidth v)\<rparr>)"

definition enet_protocol_handle_verify_connect ::
    "nat \<Rightarrow> ENetProtocol \<Rightarrow> ENetEvent option \<Rightarrow> ENetHost \<Rightarrow> int \<times> ENetEvent option \<times> ENetHost" where
  "enet_protocol_handle_verify_connect i command event h =
     (let p = peer_at h i; v = verify_body (pr_body command);
          channelCount = ucast (ENET_NET_TO_HOST_32 (vc_channelCount v)) :: size_t
      in if p_state p \<noteq> ENET_PEER_STATE_CONNECTING then (0, event, h)
         else if channelCount < ENET_PROTOCOL_MINIMUM_CHANNEL_COUNT \<or>
            channelCount > ENET_PROTOCOL_MAXIMUM_CHANNEL_COUNT \<or>
            ENET_NET_TO_HOST_32 (vc_packetThrottleInterval v) \<noteq> p_packetThrottleInterval p \<or>
            ENET_NET_TO_HOST_32 (vc_packetThrottleAcceleration v) \<noteq> p_packetThrottleAcceleration p \<or>
            ENET_NET_TO_HOST_32 (vc_packetThrottleDeceleration v) \<noteq> p_packetThrottleDeceleration p \<or>
            vc_connectID v \<noteq> p_connectID p
         then (-1, event, enet_protocol_dispatch_state i ENET_PEER_STATE_ZOMBIE
                 (upd_peer i (p_eventData_update (\<lambda>_. 0)) h))
         else
           let h = snd (on_peer i (enet_protocol_remove_sent_reliable_command 1 0xFF) h);
               h = upd_peer i (accept_verify v) h
           in case enet_protocol_notify_connect i event h of (event, h) \<Rightarrow> (0, event, h))"

section \<open>The handlers keep the host's invariant\<close>

lemma length_remove_nth: "n < length xs \<Longrightarrow> length (remove_nth n xs) = length xs - 1"
  by (simp add: remove_nth_def)

lemma peer_frame_release_window: "peer_frame p (upd_channel c (release_window s) p)"
  by (rule peer_frame_channel) (simp add: release_window_def Let_def)

lemma peer_frame_forget: "peer_frame p (snd (forget_command s c w oc hp p))"
proof -
  let ?q = "if ucast c < p_channelCount p then upd_channel (unat c) (release_window s) p else p"
  have "peer_frame p ?q" by (simp add: peer_frame_release_window)
  moreover have "peer_frame ?q (snd (forget_command s c w oc hp p))"
    unfolding forget_command_def Let_def
    by (rule peer_frame_same) (simp_all split: list.split)
  ultimately show ?thesis by (rule peer_frame_trans)
qed

lemma set_remove_nth: "set (remove_nth n xs) \<subseteq> set xs"
  using set_take_subset [of n xs] set_drop_subset [of "Suc n" xs] by (auto simp: remove_nth_def)

interpretation remove_sent_reliable: peer_operation "enet_protocol_remove_sent_reliable_command s c" for s c
proof
  fix p hp
  show "peer_frame p (snd (snd (enet_protocol_remove_sent_reliable_command s c hp p)))"
    by (auto simp: enet_protocol_remove_sent_reliable_command_def Let_def split: option.split
        intro: peer_frame_trans [OF peer_frame_lists(1) [OF set_remove_nth] peer_frame_forget]
          peer_frame_trans [OF peer_frame_lists(2) [OF set_remove_nth] peer_frame_forget])
qed

interpretation remove_sent_unreliable: peer_operation enet_protocol_remove_sent_unreliable_commands
  by unfold_locales (simp add: enet_protocol_remove_sent_unreliable_commands_def peer_frame_same)

lemma queue_outgoing_length [simp]: "length (h_peers (queue_outgoing i command h)) = length (h_peers h)"
  by (simp add: queue_outgoing_def on_peer_def split_beta)

lemma queue_outgoing_keeps:
  "host_ok h \<Longrightarrow> i < length (h_peers h) \<Longrightarrow> number_of command < ENET_PROTOCOL_COMMAND_COUNT \<Longrightarrow>
   host_ok (queue_outgoing i command h)"
  by (simp add: queue_outgoing_def queue_outgoing_host)

lemma disconnect_command_number [simp]:
  "number_of (disconnect_command ENET_PROTOCOL_COMMAND_FLAG_ACKNOWLEDGE data) = ENET_PROTOCOL_COMMAND_DISCONNECT"
  "number_of (disconnect_command ENET_PROTOCOL_COMMAND_FLAG_UNSEQUENCED data) = ENET_PROTOCOL_COMMAND_DISCONNECT"
  by (simp_all add: disconnect_command_def make_command_def)

text \<open>Leaving the connected states.\<close>

lemma disconnect_connected_eq:
  "disconnect_connected i data h = enet_protocol_change_state i ENET_PEER_STATE_DISCONNECTING
     (queue_outgoing i (disconnect_command (ENET_PROTOCOL_COMMAND_FLAG_ACKNOWLEDGE) data)
       (enet_peer_reset_queues i h))"
  by (simp add: disconnect_connected_def enet_protocol_change_state_def Let_def)

interpretation disconnect_connected: host_operation "\<lambda>i. disconnect_connected i data" for data
  by unfold_locales
     (simp_all add: disconnect_connected_eq change_state_keeps
       queue_outgoing_keeps reset_queues_keeps)

lemma disconnect_with_keeps:
  assumes "host_ok h" "i < length (h_peers h)"
    and "\<And>h h'. host_ok h \<Longrightarrow> flush h = Some h' \<Longrightarrow> host_ok h' \<and> length (h_peers h') = length (h_peers h)"
    and "enet_peer_disconnect_with flush i data h = Some h'"
  shows "host_ok h' \<and> length (h_peers h') = length (h_peers h)"
proof -
  let ?q = "queue_outgoing i (disconnect_command (ENET_PROTOCOL_COMMAND_FLAG_UNSEQUENCED) data)
      (enet_peer_reset_queues i h)"
  have "host_ok ?q" by (simp add: assms(1,2) queue_outgoing_keeps reset_queues_keeps)
  then have "host_ok h2 \<and> length (h_peers h2) = length (h_peers h)" if "flush ?q = Some h2" for h2
    using assms(3) [OF _ that] by simp
  then show ?thesis
    using assms(1,2,4) disconnect_connected.keeps disconnect_connected.same_peers
    by (auto simp: enet_peer_disconnect_with_def Let_def reset_keeps split: if_splits)
qed

text \<open>The round trip estimate moves towards each measurement and never past it, so the 32 bit
  arithmetic does not wrap; and from seven milliseconds it does not fall further.\<close>

lemma roundTripTime_nat:
  "unat (p_roundTripTime (smooth_roundTripTime rtt p)) =
     (if p_roundTripTime p \<le> rtt then unat (p_roundTripTime p) + (unat rtt - unat (p_roundTripTime p)) div 8
      else unat (p_roundTripTime p) - (unat (p_roundTripTime p) - unat rtt) div 8)"
proof (cases "p_roundTripTime p \<le> rtt")
  case True
  have "unat (p_roundTripTime p) + (unat rtt - unat (p_roundTripTime p)) div 8 \<le> unat rtt"
    using True by (simp add: word_le_nat_alt)
  moreover have "unat rtt < 2 ^ 32" using unsigned_less [of rtt, where 'a = nat] by simp
  ultimately show ?thesis
    using True by (simp add: smooth_roundTripTime_def Let_def unat_word_ariths(1) unat_div_distrib unat_sub)
next
  case False
  then have le: "rtt \<le> p_roundTripTime p" by simp
  have d: "unat ((p_roundTripTime p - rtt) div 8) = (unat (p_roundTripTime p) - unat rtt) div 8"
    using le by (simp add: unat_div_distrib unat_sub)
  have "(p_roundTripTime p - rtt) div 8 \<le> p_roundTripTime p"
    unfolding word_le_nat_alt d by (rule le_trans [OF div_le_dividend diff_le_self])
  then show ?thesis
    using False by (simp add: smooth_roundTripTime_def Let_def unat_sub d)
qed

lemma variance_nat:
  assumes "p_roundTripTimeVariance p < ENET_TIME_OVERFLOW" "rtt < ENET_TIME_OVERFLOW" "p_roundTripTime p < ENET_TIME_OVERFLOW"
  shows "unat (p_roundTripTimeVariance (smooth_roundTripTime rtt p)) \<le>
    unat (p_roundTripTimeVariance p) - unat (p_roundTripTimeVariance p) div 4 + 86399999 div 4"
proof -
  let ?v = "p_roundTripTimeVariance p"
  define q where "q = p_roundTripTime (smooth_roundTripTime rtt p)"
  define d where "d = (if p_roundTripTime p \<le> rtt then rtt - q else q - rtt)"
  have "unat d \<le> 86399999"
  proof (cases "p_roundTripTime p \<le> rtt")
    case True
    then have "unat q \<le> unat rtt" using roundTripTime_nat [of rtt p] by (simp add: q_def word_le_nat_alt)
    then show ?thesis using True assms(2) by (simp add: d_def unat_sub word_le_nat_alt word_less_nat_alt)
  next
    case False
    then have "unat rtt \<le> unat q" "unat q \<le> unat (p_roundTripTime p)"
      using roundTripTime_nat [of rtt p] div_le_dividend [of "unat (p_roundTripTime p) - unat rtt" 8]
      by (simp_all add: q_def word_le_nat_alt)
    then show ?thesis using False assms(3) by (simp add: d_def unat_sub word_le_nat_alt word_less_nat_alt)
  qed
  then have d4: "unat (d div 4) \<le> 86399999 div 4" by (simp add: unat_div_distrib div_le_mono)
  have "?v div 4 \<le> ?v" by (simp add: word_le_nat_alt unat_div_distrib)
  then have v4: "unat (?v - ?v div 4) = unat ?v - unat ?v div 4" by (simp add: unat_sub unat_div_distrib)
  have "p_roundTripTimeVariance (smooth_roundTripTime rtt p) = (?v - ?v div 4) + d div 4"
    by (simp add: smooth_roundTripTime_def Let_def d_def q_def)
  moreover have "unat (?v - ?v div 4) + unat (d div 4) < 2 ^ 32"
    using d4 v4 assms(1) by (simp add: word_less_nat_alt)
  ultimately show ?thesis using d4 v4 by (simp add: unat_word_ariths(1))
qed

lemma smooth_roundTripTime_ok:
  assumes "sending_ok p" "rtt < ENET_TIME_OVERFLOW"
  shows "sending_ok (smooth_roundTripTime rtt p)"
proof -
  have p: "7 \<le> unat (p_roundTripTime p)" "unat (p_roundTripTime p) < 86400000"
    "unat (p_roundTripTimeVariance p) < 86400000" "unat rtt < 86400000"
    using assms by (simp_all add: sending_ok_def word_le_nat_alt word_less_nat_alt)
  have "7 \<le> unat (p_roundTripTime (smooth_roundTripTime rtt p)) \<and>
      unat (p_roundTripTime (smooth_roundTripTime rtt p)) < 86400000"
    unfolding roundTripTime_nat using p by (auto simp: word_le_nat_alt)
  moreover have "unat (p_roundTripTimeVariance (smooth_roundTripTime rtt p)) < 86400000"
    using variance_nat [of p rtt] assms p by (simp add: sending_ok_def)
  moreover have "queued_commands (smooth_roundTripTime rtt p) = queued_commands p"
    "p_mtu (smooth_roundTripTime rtt p) = p_mtu p" "p_state (smooth_roundTripTime rtt p) = p_state p"
    by (simp_all add: smooth_roundTripTime_def Let_def queued_commands_def)
  ultimately show ?thesis
    using assms(1) by (simp add: sending_ok_def word_le_nat_alt word_less_nat_alt)
qed

lemma peer_frame_roundTripTime:
  assumes "rtt < ENET_TIME_OVERFLOW"
  shows "peer_frame p (update_roundTripTime t rtt p)"
proof -
  have "peer_frame p (smooth_roundTripTime rtt p)"
    using smooth_roundTripTime_ok [OF _ assms, of p]
    by (simp add: peer_frame_def peer_ok_def) (simp add: smooth_roundTripTime_def Let_def)
  moreover have "peer_frame p (record_extremes p)" for p
    by (rule peer_frame_same) (simp_all add: record_extremes_def Let_def)
  moreover have "peer_frame p (next_throttle_epoch t p)" for p
    by (rule peer_frame_same) (simp_all add: next_throttle_epoch_def)
  ultimately show ?thesis unfolding update_roundTripTime_def by (blast intro: peer_frame_trans)
qed

lemma upd_peer_keeps_same:
  "host_ok h \<Longrightarrow> i < length (h_peers h) \<Longrightarrow> (\<And>p. peer_frame p (f p)) \<Longrightarrow> host_ok (upd_peer i f h)"
  by (rule upd_peer_keeps) (simp_all add: host_frame_def)

text \<open>The part of \<^verbatim>\<open>enet_protocol_handle_acknowledge\<close> before the switch.\<close>

definition acknowledge_update :: "nat \<Rightarrow> u32 \<Rightarrow> ENetHost \<Rightarrow> ENetHost" where
  "acknowledge_update i roundTripTime h =
     (let h = upd_peer i (\<lambda>p. p\<lparr>p_lastReceiveTime := h_serviceTime h, p_earliestTimeout := 0\<rparr>) h;
          h = upd_peer i (\<lambda>p. snd (enet_peer_throttle roundTripTime p)) h
      in upd_peer i (update_roundTripTime (h_serviceTime h) roundTripTime) h)"

lemma acknowledge_update_length [simp]: "length (h_peers (acknowledge_update i rtt h)) = length (h_peers h)"
  by (simp add: acknowledge_update_def Let_def)

lemma acknowledge_update_keeps:
  "host_ok h \<Longrightarrow> i < length (h_peers h) \<Longrightarrow> rtt < ENET_TIME_OVERFLOW \<Longrightarrow> host_ok (acknowledge_update i rtt h)"
  by (auto simp: acknowledge_update_def Let_def intro!: upd_peer_keeps_same peer_frame_throttle
       peer_frame_roundTripTime peer_frame_same)

interpretation handle_acknowledge:
  host_operation "\<lambda>i h. snd (snd (enet_protocol_handle_acknowledge i command event h))" for command event
proof
  fix h :: ENetHost and i :: nat
  let ?rtt = "ENET_TIME_DIFFERENCE (h_serviceTime h) (acknowledged_sentTime (h_serviceTime h)
      (ENET_NET_TO_HOST_16 (ack_receivedSentTime (pr_body command))))"
  define h1 where "h1 = on_peer i (enet_protocol_remove_sent_reliable_command
      (ENET_NET_TO_HOST_16 (ack_receivedReliableSequenceNumber (pr_body command)))
      (channel_of command)) (acknowledge_update i ?rtt h)"
  have eq: "enet_protocol_handle_acknowledge i command event h =
      (if state_at h i = ENET_PEER_STATE_DISCONNECTED \<or> state_at h i = ENET_PEER_STATE_ZOMBIE \<or>
          ENET_TIME_LESS (h_serviceTime h) (acknowledged_sentTime (h_serviceTime h)
            (ENET_NET_TO_HOST_16 (ack_receivedSentTime (pr_body command)))) then (0, event, h)
       else case h1 of (commandNumber, h) \<Rightarrow>
         if state_at h i = ENET_PEER_STATE_ACKNOWLEDGING_CONNECT then
           if commandNumber \<noteq> ENET_PROTOCOL_COMMAND_VERIFY_CONNECT then (-1, event, h)
           else (case enet_protocol_notify_connect i event h of (event, h) \<Rightarrow> (0, event, h))
         else if state_at h i = ENET_PEER_STATE_DISCONNECTING then
           if commandNumber \<noteq> ENET_PROTOCOL_COMMAND_DISCONNECT then (-1, event, h)
           else (case enet_protocol_notify_disconnect i event h of (event, h) \<Rightarrow> (0, event, h))
         else if state_at h i = ENET_PEER_STATE_DISCONNECT_LATER \<and>
                 p_outgoingReliableCommands (peer_at h i) = [] \<and>
                 p_outgoingUnreliableCommands (peer_at h i) = [] \<and>
                 p_sentReliableCommands (peer_at h i) = []
         then (0, event, disconnect_connected i (p_eventData (peer_at h i)) h)
         else (0, event, h))"
    by (simp add: enet_protocol_handle_acknowledge_def Let_def h1_def acknowledge_update_def)
  have len: "length (h_peers (snd h1)) = length (h_peers h)"
    by (simp add: h1_def remove_sent_reliable.same_peers)
  then show "length (h_peers (snd (snd (enet_protocol_handle_acknowledge i command event h)))) = length (h_peers h)"
    using notify_connect.same_peers notify_disconnect.same_peers
    by (simp add: eq disconnect_connected.same_peers split_beta)
  assume "host_ok h" "i < length (h_peers h)"
  then have "host_ok (snd h1)" if "\<not> ENET_TIME_LESS (h_serviceTime h) (acknowledged_sentTime (h_serviceTime h)
      (ENET_NET_TO_HOST_16 (ack_receivedSentTime (pr_body command))))"
    using that by (simp add: h1_def remove_sent_reliable.keeps acknowledge_update_keeps ENET_TIME_DIFFERENCE_def
        ENET_TIME_LESS_def)
  then show "host_ok (snd (snd (enet_protocol_handle_acknowledge i command event h)))"
    using \<open>host_ok h\<close> \<open>i < length (h_peers h)\<close> len notify_connect.keeps notify_disconnect.keeps
      disconnect_connected.keeps
    by (simp add: eq split_beta)
qed

lemma clamp_window_range:
  "ENET_PROTOCOL_MINIMUM_WINDOW_SIZE \<le> clamp_window w" "clamp_window w \<le> ENET_PROTOCOL_MAXIMUM_WINDOW_SIZE"
  by (auto simp: clamp_window_def not_less)

lemma clamp_mtu_range:
  "ENET_PROTOCOL_MINIMUM_MTU \<le> clamp_mtu m" "clamp_mtu m \<le> ENET_PROTOCOL_MAXIMUM_MTU"
  by (auto simp: clamp_mtu_def not_less)

lemma bandwidth_limit_keeps:
  assumes "host_ok h" "i < length (h_peers h)"
  shows "host_ok (snd (enet_protocol_handle_bandwidth_limit i command h))"
proof (cases "not_connected i h")
  case True
  then show ?thesis using assms by (simp add: enet_protocol_handle_bandwidth_limit_def)
next
  case False
  define incoming where "incoming = ENET_NET_TO_HOST_32 (limit_incomingBandwidth (pr_body command))"
  define p where "p = (peer_at h i)\<lparr>p_incomingBandwidth := incoming,
      p_outgoingBandwidth := ENET_NET_TO_HOST_32 (limit_outgoingBandwidth (pr_body command)),
      p_windowSize := clamp_window (bandwidth_window incoming (h_outgoingBandwidth h))\<rparr>"
  have ok: "peer_ok (peer_at h i)" "i \<in> set (h_dispatchQueue h) \<longleftrightarrow> p_needsDispatch (peer_at h i)"
    "distinct (h_dispatchQueue h)"
    using assms by (auto simp: host_ok_def)
  have "peer_ok p" using ok clamp_window_range by (simp add: p_def peer_ok_defs)
  then show ?thesis
    by (rule host_ok_update [OF assms])
       (use False ok assms(2) in \<open>auto simp: enet_protocol_handle_bandwidth_limit_def Let_def upd_peer_def
          p_def incoming_def is_limited_def\<close>)
qed

interpretation bandwidth_limit: host_operation "\<lambda>i h. snd (enet_protocol_handle_bandwidth_limit i command h)"
  for command
  by unfold_locales
     (rule bandwidth_limit_keeps, simp_all add: enet_protocol_handle_bandwidth_limit_def Let_def)

interpretation handle_throttle_configure:
  host_operation "\<lambda>i h. snd (enet_protocol_handle_throttle_configure i command h)" for command
  by unfold_locales
     (auto simp: enet_protocol_handle_throttle_configure_def intro!: upd_peer_keeps_same peer_frame_same)

interpretation handle_ping: host_operation "\<lambda>i h. snd (enet_protocol_handle_ping i h)"
  by unfold_locales (simp_all add: enet_protocol_handle_ping_def)

interpretation handle_disconnect:
  host_operation "\<lambda>i h. snd (enet_protocol_handle_disconnect i command h)" for command
proof
  fix h :: ENetHost and i :: nat
  show "length (h_peers (snd (enet_protocol_handle_disconnect i command h))) = length (h_peers h)"
    by (simp add: enet_protocol_handle_disconnect_def Let_def)
  assume ok: "host_ok h" "i < length (h_peers h)"
  show "host_ok (snd (enet_protocol_handle_disconnect i command h))"
    unfolding enet_protocol_handle_disconnect_def Let_def
    by (simp add: ok reset_queues_keeps dispatch_state_keeps reset_keeps recalculate_keeps
        change_state_keeps event_data_keeps)
qed

lemma scan_peers_free:
  "scan_peers a c ps n peer d = Some (Some i, d') \<Longrightarrow> peer = None \<Longrightarrow>
   n \<le> i \<and> i < n + length ps \<and> p_state (ps ! (i - n)) = ENET_PEER_STATE_DISCONNECTED"
proof (induction a c ps n peer d rule: scan_peers.induct)
  case (2 a c p ps n peer d)
  show ?case
  proof (cases "p_state p = ENET_PEER_STATE_DISCONNECTED")
    case True
    have "scan_peers a c ps m (Some j) e = Some (Some k, e') \<Longrightarrow> k = j" for m j e e' k
      by (induction ps arbitrary: m e) (auto split: if_splits)
    then have "i = n" using "2.prems" True by auto
    then show ?thesis using True by simp
  next
    case False
    then have "Suc n \<le> i \<and> i < Suc n + length ps \<and> p_state (ps ! (i - Suc n)) = ENET_PEER_STATE_DISCONNECTED"
      using 2 by (auto split: if_splits)
    then show ?thesis by (simp add: nth_Cons')
  qed
qed simp

lemma accept_connect_ok:
  assumes "peer_ok p" "channelCount \<le> ENET_PROTOCOL_MAXIMUM_CHANNEL_COUNT" "p_state p = ENET_PEER_STATE_DISCONNECTED"
  shows "peer_ok (accept_connect h c channelCount p)"
proof -
  have "sending_ok (accept_connect h c channelCount p)"
    by (rule sending_ok_unsettled [of p])
       (use assms clamp_mtu_range in \<open>simp_all add: accept_connect_def Let_def peer_ok_def queued_commands_def\<close>)
  then show ?thesis
    using assms clamp_window_range clamp_mtu_range
    by (simp add: peer_ok_def) (simp add: accept_connect_def Let_def new_channel_def)
qed

lemma accept_connect_fields [simp]:
  "p_state (accept_connect h c n p) = ENET_PEER_STATE_ACKNOWLEDGING_CONNECT"
  "p_needsDispatch (accept_connect h c n p) = p_needsDispatch p"
  "p_connectID (accept_connect h c n p) = co_connectID c"
  "p_channelCount (accept_connect h c n p) = n"
  "p_address (accept_connect h c n p) = h_receivedAddress h"
  "p_mtu (accept_connect h c n p) = clamp_mtu (ENET_NET_TO_HOST_32 (co_mtu c))"
  by (simp_all add: accept_connect_def Let_def)

text \<open>The successful branch of the connect handler.\<close>

lemma handle_connect_accepted:
  assumes "enet_protocol_handle_connect command h = (Some i, h')"
  shows "\<exists>n d. n \<le> ENET_PROTOCOL_MAXIMUM_CHANNEL_COUNT \<and>
    scan_peers (h_receivedAddress h) (co_connectID (connect_body (pr_body command))) (h_peers h) 0 None 0 =
       Some (Some i, d) \<and> d < h_duplicatePeers h \<and>
    h' = accept_peer i (connect_body (pr_body command)) n (h\<lparr>h_heap := snd (enet_malloc (h_heap h))\<rparr>)"
proof -
  define c where "c = connect_body (pr_body command)"
  define n where "n = (ucast (ENET_NET_TO_HOST_32 (co_channelCount c)) :: size_t)"
  have range: "\<not> (n < ENET_PROTOCOL_MINIMUM_CHANNEL_COUNT \<or> n > ENET_PROTOCOL_MAXIMUM_CHANNEL_COUNT)"
    using assms by (auto simp: enet_protocol_handle_connect_def Let_def c_def n_def split: if_splits)
  note [simp] = enet_protocol_handle_connect_def Let_def
  obtain d where d: "scan_peers (h_receivedAddress h) (co_connectID c) (h_peers h) 0 None 0 = Some (Some i, d)"
      "\<not> d \<ge> h_duplicatePeers h" "fst (enet_malloc (h_heap h))"
    using assms range unfolding c_def n_def
    by (auto split: if_split_asm option.split_asm prod.split_asm)
  have "h' = accept_peer i c (if n > h_channelLimit h then h_channelLimit h else n)
      (h\<lparr>h_heap := snd (enet_malloc (h_heap h))\<rparr>)"
    using assms range d unfolding c_def n_def by (auto simp: split_beta)
  moreover have "(if n > h_channelLimit h then h_channelLimit h else n) \<le> ENET_PROTOCOL_MAXIMUM_CHANNEL_COUNT"
    using range by auto
  ultimately show ?thesis using d by (auto simp: c_def not_le)
qed

lemma accept_peer_keeps:
  assumes "host_ok h" "i < length (h_peers h)" "state_at h i = ENET_PEER_STATE_DISCONNECTED"
    and "n \<le> ENET_PROTOCOL_MAXIMUM_CHANNEL_COUNT"
  shows "host_ok (accept_peer i c n h)" "length (h_peers (accept_peer i c n h)) = length (h_peers h)"
proof -
  have ok: "peer_ok (peer_at h i)" "i \<in> set (h_dispatchQueue h) \<longleftrightarrow> p_needsDispatch (peer_at h i)"
    "distinct (h_dispatchQueue h)"
    using assms by (auto simp: host_ok_def)
  have "host_ok (upd_peer i (accept_connect h c n) h)"
    by (rule host_ok_update [OF assms(1,2) accept_connect_ok [OF ok(1) assms(4,3)]])
       (use assms ok in \<open>auto simp: upd_peer_def is_limited_def\<close>)
  then show "host_ok (accept_peer i c n h)"
    using assms(2) by (simp add: accept_peer_def Let_def queue_outgoing_keeps verify_command_def make_command_def)
qed (simp add: accept_peer_def Let_def)

lemma handle_connect_keeps:
  assumes "host_ok h" "enet_protocol_handle_connect command h = (r, h')"
  shows "host_ok h' \<and> length (h_peers h') = length (h_peers h) \<and> (\<forall>i. r = Some i \<longrightarrow> i < length (h_peers h))"
proof (cases r)
  case None
  then have "h_peers h' = h_peers h" "host_frame h h'"
    using assms(2)
    by (auto simp: enet_protocol_handle_connect_def Let_def host_frame_def
        split: if_split_asm option.split_asm prod.split_asm)
  then show ?thesis using None host_ok_same_peers assms(1) by auto
next
  case (Some i)
  let ?h = "h\<lparr>h_heap := snd (enet_malloc (h_heap h))\<rparr>"
  obtain n d where n: "n \<le> ENET_PROTOCOL_MAXIMUM_CHANNEL_COUNT"
      "scan_peers (h_receivedAddress h) (co_connectID (connect_body (pr_body command))) (h_peers h) 0 None 0 =
         Some (Some i, d)"
      "h' = accept_peer i (connect_body (pr_body command)) n ?h"
    using handle_connect_accepted assms(2) Some by blast
  have "host_ok ?h" by (rule host_ok_same_peers [OF assms(1)]) simp_all
  then show ?thesis
    using accept_peer_keeps [of ?h i n] scan_peers_free [OF n(2)] n Some by simp
qed

lemma accept_peer_at:
  "i < length (h_peers h) \<Longrightarrow> j \<noteq> i \<Longrightarrow> peer_at (accept_peer i c n h) j = peer_at h j"
  by (simp add: accept_peer_def Let_def queue_outgoing_def on_peer_def split_beta)

lemma queue_outgoing_peer:
  "i < length (h_peers h) \<Longrightarrow> number_of command < ENET_PROTOCOL_COMMAND_COUNT \<Longrightarrow>
   peer_frame (peer_at h i) (peer_at (queue_outgoing i command h) i)"
  by (simp add: queue_outgoing_def on_peer_def split_beta peer_frame_queue)

lemma accept_peer_state:
  assumes "i < length (h_peers h)"
  shows "state_at (accept_peer i c n h) i = ENET_PEER_STATE_ACKNOWLEDGING_CONNECT"
proof -
  have "state_at (queue_outgoing i command g) i = state_at g i"
    if "i < length (h_peers g)" "number_of command < ENET_PROTOCOL_COMMAND_COUNT" for g command
    using queue_outgoing_peer [OF that] by (simp add: peer_frame_def)
  then show ?thesis using assms by (simp add: accept_peer_def Let_def verify_command_def make_command_def)
qed

text \<open>Property C12.  Answering a connect keeps the host's invariant, in particular the MTU and window
  ranges and the channel limit for whatever the datagram asks.  It takes a peer that was free, puts it
  in the state that waits for the acknowledgement, and touches no other peer; and it refuses a
  connect that repeats the address and the identifier of a peer that is not free or itself
  connecting, so a resent connect takes no second peer.\<close>

theorem handle_connect_safe:
  assumes "host_ok h" "enet_protocol_handle_connect command h = (r, h')"
  shows "host_ok h' \<and>
    (\<forall>i. r = Some i \<longrightarrow> i < length (h_peers h) \<and> state_at h i = ENET_PEER_STATE_DISCONNECTED \<and>
       state_at h' i = ENET_PEER_STATE_ACKNOWLEDGING_CONNECT \<and>
       (\<forall>j. j \<noteq> i \<longrightarrow> peer_at h' j = peer_at h j) \<and>
       \<not> (\<exists>p\<in>set (h_peers h). p_state p \<noteq> ENET_PEER_STATE_DISCONNECTED \<and>
            p_state p \<noteq> ENET_PEER_STATE_CONNECTING \<and> p_address p = h_receivedAddress h \<and>
            p_connectID p = co_connectID (connect_body (pr_body command)))) \<and>
    (r = None \<longrightarrow> h_peers h' = h_peers h)"
proof -
  have fresh: "\<not> (\<exists>p\<in>set ps. p_state p \<noteq> ENET_PEER_STATE_DISCONNECTED \<and>
      p_state p \<noteq> ENET_PEER_STATE_CONNECTING \<and> p_address p = a \<and> p_connectID p = c)"
    if "scan_peers a c ps n peer d = Some x" for a c ps n peer d x
    using that by (induction a c ps n peer d rule: scan_peers.induct) (auto split: if_splits)
  show ?thesis
  proof (cases r)
    case None
    then show ?thesis
      using handle_connect_keeps [OF assms] assms(2)
      by (auto simp: enet_protocol_handle_connect_def Let_def split: if_split_asm option.split_asm prod.split_asm)
  next
    case (Some i)
    let ?h = "h\<lparr>h_heap := snd (enet_malloc (h_heap h))\<rparr>"
    obtain n d where n: "scan_peers (h_receivedAddress h) (co_connectID (connect_body (pr_body command)))
           (h_peers h) 0 None 0 = Some (Some i, d)"
        "h' = accept_peer i (connect_body (pr_body command)) n ?h"
      using handle_connect_accepted assms(2) Some by blast
    then show ?thesis
      using Some handle_connect_keeps [OF assms] scan_peers_free [OF n(1)] fresh [OF n(1)]
        accept_peer_state [of i ?h] accept_peer_at [of i ?h]
      by (simp add: n(2))
  qed
qed

definition connect_example :: ENetProtocol where
  "connect_example = make_command (ENET_PROTOCOL_COMMAND_CONNECT OR ENET_PROTOCOL_COMMAND_FLAG_ACKNOWLEDGE) 0xFF
     (Connect \<lparr>co_outgoingPeerID = 0, co_incomingSessionID = 0xFF, co_outgoingSessionID = 0xFF,
       co_mtu = 0, co_windowSize = 0, co_channelCount = ENET_HOST_TO_NET_32 2, co_incomingBandwidth = 0,
       co_outgoingBandwidth = 0, co_packetThrottleInterval = 0, co_packetThrottleAcceleration = 0,
       co_packetThrottleDeceleration = 0, co_connectID = 77, co_data = 0\<rparr>)"

theorem handle_connect_safe_witness:
  "\<exists>i h'. enet_protocol_handle_connect connect_example
       ((peer_example ENET_PEER_STATE_DISCONNECTED)\<lparr>h_duplicatePeers := 5, h_channelLimit := 1\<rparr>) = (Some i, h') \<and>
     host_ok h' \<and> state_at h' i = ENET_PEER_STATE_ACKNOWLEDGING_CONNECT"
proof -
  let ?h = "(peer_example ENET_PEER_STATE_DISCONNECTED)\<lparr>h_duplicatePeers := 5, h_channelLimit := 1\<rparr>"
  have ok: "host_ok ?h"
    by (rule host_ok_same_peers [OF peer_example_ok]) (simp_all add: host_frame_def)
  have "fst (enet_protocol_handle_connect connect_example ?h) = Some 0"
    by (simp add: enet_protocol_handle_connect_def connect_example_def make_command_def Let_def
        enet_malloc_def fresh_heap_def)
  then obtain h' where "enet_protocol_handle_connect connect_example ?h = (Some 0, h')"
    by (cases "enet_protocol_handle_connect connect_example ?h") auto
  then show ?thesis using handle_connect_safe [OF ok] by blast
qed

lemma accept_verify_ok:
  assumes "peer_ok p" "p_state p = ENET_PEER_STATE_CONNECTING"
  shows "peer_ok (accept_verify v p)"
proof -
  have "sending_ok (accept_verify v p)"
    by (rule sending_ok_unsettled [of p])
       (use assms clamp_mtu_range in \<open>simp_all add: accept_verify_def Let_def peer_ok_def queued_commands_def\<close>)
  then show ?thesis
    using assms clamp_window_range clamp_mtu_range
    by (simp add: peer_ok_def) (auto simp: accept_verify_def Let_def word_le_nat_alt word_less_nat_alt)
qed

lemma accept_verify_keeps:
  assumes "host_ok h" "i < length (h_peers h)" "state_at h i = ENET_PEER_STATE_CONNECTING"
  shows "host_ok (upd_peer i (accept_verify v) h)"
proof -
  have ok: "peer_ok (peer_at h i)" "i \<in> set (h_dispatchQueue h) \<longleftrightarrow> p_needsDispatch (peer_at h i)"
    "distinct (h_dispatchQueue h)"
    using assms by (auto simp: host_ok_def)
  have "p_state (accept_verify v (peer_at h i)) = ENET_PEER_STATE_CONNECTING"
    "p_needsDispatch (accept_verify v (peer_at h i)) = p_needsDispatch (peer_at h i)"
    using assms(3) by (simp_all add: accept_verify_def Let_def)
  then show ?thesis
    by (intro host_ok_update [OF assms(1,2) accept_verify_ok [OF ok(1) assms(3)]])
       (use assms(3) ok in \<open>auto simp: upd_peer_def is_limited_def\<close>)
qed

interpretation handle_verify_connect:
  host_operation "\<lambda>i h. snd (snd (enet_protocol_handle_verify_connect i command event h))" for command event
proof
  fix h :: ENetHost and i :: nat
  show "length (h_peers (snd (snd (enet_protocol_handle_verify_connect i command event h)))) = length (h_peers h)"
    using notify_connect.same_peers remove_sent_reliable.same_peers
    by (simp add: enet_protocol_handle_verify_connect_def Let_def split_beta)
  assume ok: "host_ok h" "i < length (h_peers h)"
  let ?h1 = "snd (on_peer i (enet_protocol_remove_sent_reliable_command 1 0xFF) h)"
  have h1: "host_ok ?h1" "length (h_peers ?h1) = length (h_peers h)" "state_at ?h1 i = state_at h i"
    using ok remove_sent_reliable.keeps remove_sent_reliable.same_peers
      remove_sent_reliable.frame [of "peer_at h i" 1 "0xFF" "h_heap h"]
    by (auto simp: on_peer_def split_beta peer_frame_def)
  show "host_ok (snd (snd (enet_protocol_handle_verify_connect i command event h)))"
  proof (cases "state_at h i = ENET_PEER_STATE_CONNECTING")
    case True
    then have "host_ok (upd_peer i (accept_verify v) ?h1)" for v
      using h1 ok by (intro accept_verify_keeps) simp_all
    then show ?thesis
      using ok h1 True notify_connect.keeps
      by (simp add: enet_protocol_handle_verify_connect_def Let_def split_beta dispatch_state_keeps
          event_data_keeps)
  next
    case False
    then show ?thesis using ok by (simp add: enet_protocol_handle_verify_connect_def Let_def)
  qed
qed

section \<open>Numbers\<close>

text \<open>Splitting a word at bit 16.\<close>

lemma unat_and_high: "unat (s AND 0xFFFF0000 :: u32) = unat s div 65536 * 65536"
proof -
  have mask: "(0xFFFF0000 :: u32) = push_bit 16 (mask 16)"
    by (simp add: mask_eq_exp_minus_1 push_bit_eq_mult)
  have "s AND 0xFFFF0000 = push_bit 16 (drop_bit 16 s)"
    unfolding mask by (rule bit_word_eqI) (auto simp: bit_simps)
  moreover have "unat s div 65536 * 65536 < 2 ^ 32"
    using unsigned_less [of s, where 'a = nat] by (simp add: le_less_trans [OF div_times_less_eq_dividend])
  ultimately show ?thesis
    by (simp add: unsigned_push_bit_eq unsigned_drop_bit_eq take_bit_nat_eq_self push_bit_nat_def
        drop_bit_nat_def)
qed

lemma unat_join_16:
  "unat (ucast (lo :: u16) OR (s AND 0xFFFF0000) :: u32) = unat lo + unat s div 65536 * 65536"
proof -
  have mask: "(0xFFFF0000 :: u32) = push_bit 16 (mask 16)"
    by (simp add: mask_eq_exp_minus_1 push_bit_eq_mult)
  have "ucast lo OR (s AND 0xFFFF0000) = (ucast lo :: u32) + (s AND 0xFFFF0000)"
    unfolding mask
    by (rule disjunctive_add [symmetric]) (auto simp: bit_simps dest: bit_imp_le_length)
  moreover have "unat lo + unat s div 65536 * 65536 < 2 ^ 32"
  proof -
    have "unat s < 65536 * 65536" using unsigned_less [of s, where 'a = nat] by simp
    then have "unat s div 65536 < 65536" by (simp add: less_mult_imp_div_less)
    then have "unat lo + unat s div 65536 * 65536 < 65536 * 65536" using unat_u16_less [of lo] by linarith
    then show ?thesis by simp
  qed
  ultimately show ?thesis by (simp add: unat_word_ariths(1) unat_and_high)
qed

lemma bit15_compare: "(a AND 0x8000 > b AND (0x8000 :: u32)) \<longleftrightarrow> bit a 15 \<and> \<not> bit b 15"
proof -
  have "x AND 0x8000 = (if bit x 15 then 0x8000 else 0)" for x :: u32
  proof -
    have eq: "(0x8000 :: u32) = push_bit 15 1" by (simp add: push_bit_eq_mult)
    show ?thesis unfolding eq by (rule bit_word_eqI) (auto simp: bit_simps simp del: push_bit_of_1)
  qed
  then show ?thesis by simp
qed

lemma bit15_unat: "bit (x :: u32) 15 \<longleftrightarrow> unat x mod 65536 \<ge> 32768"
proof -
  have "bit x 15 \<longleftrightarrow> odd (unat x div 32768)"
    using bit_unsigned_iff [of x 15, where 'a = nat] by (simp add: bit_iff_odd)
  also have "\<dots> \<longleftrightarrow> unat x div 32768 mod 2 = 1" by (simp add: odd_iff_mod_2_eq_one)
  also have "\<dots> \<longleftrightarrow> unat x mod 65536 \<ge> 32768"
  proof -
    have "unat x mod (32768 * 2) = 32768 * (unat x div 32768 mod 2) + unat x mod 32768"
      by (rule mod_mult2_eq)
    moreover have "unat x mod 32768 < 32768" by simp
    moreover have "unat x div 32768 mod 2 = 0 \<or> unat x div 32768 mod 2 = 1" by arith
    ultimately show ?thesis by auto
  qed
  finally show ?thesis .
qed

text \<open>The sender puts the low 16 bits of its clock into a command, and the acknowledgement
  brings them back: the time of sending is recovered exactly when the acknowledgement comes back within
  32768 ms, also when the low half of the clock has wrapped meanwhile.\<close>

theorem acknowledged_sentTime_recovers:
  assumes "t \<le> s" "s - t < 32768"
  shows "acknowledged_sentTime s (ucast t) = t"
proof -
  define S T where "S = unat s" and "T = unat t"
  have ST: "T \<le> S" "S - T < 32768" "S < 4294967296"
    using assms unsigned_less [of s, where 'a = nat]
    by (simp_all add: S_def T_def word_le_nat_alt word_less_nat_alt unat_sub)
  let ?j = "ucast (ucast t :: u16) OR (s AND 0xFFFF0000) :: u32"
  have low: "unat (ucast t :: u16) = T mod 65536" by (simp add: T_def unsigned_ucast_eq take_bit_nat_def)
  have j: "unat ?j = T mod 65536 + S div 65536 * 65536" by (simp add: unat_join_16 low S_def)
  have late: "(?j AND 0x8000 > s AND 0x8000) \<longleftrightarrow> T mod 65536 \<ge> 32768 \<and> S mod 65536 < 32768"
    by (simp add: bit15_compare bit15_unat j S_def not_le)
  consider "S div 65536 = T div 65536" | "S div 65536 = T div 65536 + 1"
  proof -
    have "T div 65536 \<le> S div 65536" "S div 65536 \<le> (T + 65536) div 65536"
      using ST by (intro div_le_mono; simp)+
    then show ?thesis using that by fastforce
  qed
  then show ?thesis
  proof cases
    case 1
    then have "T mod 65536 \<le> S mod 65536" using ST(1) by (metis div_mult_mod_eq nat_add_left_cancel_le)
    then have "acknowledged_sentTime s (ucast t) = ?j" using late by (simp add: acknowledged_sentTime_def Let_def)
    moreover have "unat ?j = T" unfolding j 1 by simp
    ultimately show ?thesis by (metis T_def word_unat_eq_iff)
  next
    case 2
    have "S mod 65536 + 65536 - T mod 65536 < 32768" "T mod 65536 < 65536"
    proof -
      have "S = T div 65536 * 65536 + 65536 + S mod 65536" "T = T div 65536 * 65536 + T mod 65536"
        using 2 div_mult_mod_eq [of S 65536] by simp_all
      then show "S mod 65536 + 65536 - T mod 65536 < 32768" using ST by linarith
    qed simp
    then have "T mod 65536 \<ge> 32768 \<and> S mod 65536 < 32768" by linarith
    then have "acknowledged_sentTime s (ucast t) = ?j - 0x10000"
      using late by (simp add: acknowledged_sentTime_def Let_def)
    moreover have "unat ?j = T + 65536" unfolding j 2 by simp
    then have "unat (?j - 0x10000) = T" by (simp add: unat_sub word_le_nat_alt)
    ultimately show ?thesis by (metis T_def word_unat_eq_iff)
  qed
qed

theorem acknowledged_sentTime_recovers_witness:
  "acknowledged_sentTime 0x20005 (ucast (0x1FFF0 :: u32)) = 0x1FFF0"
  by (rule acknowledged_sentTime_recovers) simp_all

section \<open>What an acknowledgement removes\<close>

abbreviation (input) acknowledges :: "u16 \<Rightarrow> u8 \<Rightarrow> ENetOutgoingCommand \<Rightarrow> bool" where
  "acknowledges s c oc \<equiv> oc_reliableSequenceNumber oc = s \<and> channel_of (oc_command oc) = c"

lemma find_sent_first:
  "(\<forall>x\<in>set xs. \<not> acknowledges s c x) \<Longrightarrow> acknowledges s c oc \<Longrightarrow>
   find_sent s c (xs @ oc # ys) = Some (length xs)"
  by (induction xs) auto

lemma find_sent_none: "find_sent s c xs = None \<longleftrightarrow> (\<forall>x\<in>set xs. \<not> acknowledges s c x)"
  by (induction xs) auto

lemma remove_nth_append [simp]: "remove_nth (length xs) (xs @ x # ys) = xs @ ys"
  by (simp add: remove_nth_def)

lemma forget_command_simps:
  "p_sentReliableCommands (snd (forget_command s c w oc hp p)) = p_sentReliableCommands p"
  "p_outgoingReliableCommands (snd (forget_command s c w oc hp p)) = p_outgoingReliableCommands p"
  "p_outgoingUnreliableCommands (snd (forget_command s c w oc hp p)) = p_outgoingUnreliableCommands p"
  "p_channels (snd (forget_command s c w oc hp p)) =
     (if ucast c < p_channelCount p
      then (p_channels p)[unat c := release_window s (p_channels p ! unat c)] else p_channels p)"
  "fst (forget_command s c w oc hp p) = release_sent_packet (oc_packet oc) hp"
  by (auto simp: forget_command_def Let_def upd_channel_def split: list.split)

lemma forget_command_transit:
  "p_reliableDataInTransit (snd (forget_command s c w oc hp p)) =
     (if oc_packet oc \<noteq> None \<and> w then p_reliableDataInTransit p - ucast (oc_fragmentLength oc)
      else p_reliableDataInTransit p)"
  "p_nextTimeout (snd (forget_command s c w oc hp p)) =
     (case p_sentReliableCommands p of [] \<Rightarrow> p_nextTimeout p
      | first # _ \<Rightarrow> oc_sentTime first + oc_roundTripTimeout first)"
  by (auto simp: forget_command_def Let_def upd_channel_def split: list.split)


end
