(* ===== verification/EnetReceive.thy ===== *)
theory EnetReceive
  imports EnetControl
begin

text \<open>
  Receiving (\<^verbatim>\<open>enet/protocol.cpp\<close>): the handlers of the commands that carry data, the loop over the
  commands of a datagram, and the loop over the datagrams.

  \<open>h_receivedData\<close> is the whole buffer \<^verbatim>\<open>receivedData\<close> points to, of which the datagram fills the
  first \<open>h_receivedDataLength\<close> bytes.  A pointer into it is a position.  A handler gets the position
  behind the command's struct, where the payload starts, and returns 0 or -1 and the position behind the
  payload.  The code converts the sequence number of a command in place; here the decoded command has
  it converted, and the buffer is not written, since the place is not read again.
\<close>

section \<open>Commands with data\<close>

text \<open>The first test of the handlers, and the test of the payload's length and end.\<close>

definition refuses_data :: "nat \<Rightarrow> ENetProtocol \<Rightarrow> ENetHost \<Rightarrow> bool" where
  "refuses_data i command h \<longleftrightarrow>
     ucast (channel_of command) \<ge> p_channelCount (peer_at h i) \<or> not_connected i h"

definition payload_outside :: "size_t \<Rightarrow> nat \<Rightarrow> ENetHost \<Rightarrow> bool" where
  "payload_outside dataLength pos h \<longleftrightarrow>
     dataLength > h_maximumPacketSize h \<or> pos + unat dataLength > unat (h_receivedDataLength h)"

definition enet_protocol_handle_send_reliable ::
    "nat \<Rightarrow> ENetProtocol \<Rightarrow> nat \<Rightarrow> ENetHost \<Rightarrow> int \<times> nat \<times> ENetHost" where
  "enet_protocol_handle_send_reliable i command pos h =
     (if refuses_data i command h then (-1, pos, h)
      else
        let dataLength = ucast (ENET_NET_TO_HOST_16 (sendReliable_dataLength (pr_body command)));
            next = pos + unat dataLength
        in if payload_outside dataLength pos h then (-1, next, h)
           else case enet_peer_queue_incoming_command i command (Some (drop pos (h_receivedData h)))
                  dataLength ENET_PACKET_FLAG_RELIABLE 0 h of
                  (q, h) \<Rightarrow> (if q = NotifyError then -1 else 0, next, h))"

definition enet_protocol_handle_send_unreliable ::
    "nat \<Rightarrow> ENetProtocol \<Rightarrow> nat \<Rightarrow> ENetHost \<Rightarrow> int \<times> nat \<times> ENetHost" where
  "enet_protocol_handle_send_unreliable i command pos h =
     (if refuses_data i command h then (-1, pos, h)
      else
        let dataLength = ucast (ENET_NET_TO_HOST_16 (sendUnreliable_dataLength (pr_body command)));
            next = pos + unat dataLength
        in if payload_outside dataLength pos h then (-1, next, h)
           else case enet_peer_queue_incoming_command i command (Some (drop pos (h_receivedData h)))
                  dataLength 0 0 h of
                  (q, h) \<Rightarrow> (if q = NotifyError then -1 else 0, next, h))"

text \<open>The window of unsequenced packets: 1024 groups, one bit each.\<close>

definition window_bit :: "u32 \<Rightarrow> u32 list \<Rightarrow> bool" where
  "window_bit index window \<longleftrightarrow> window ! unat (index div 32) AND push_bit (unat (index mod 32)) 1 \<noteq> 0"

definition set_window_bit :: "u32 \<Rightarrow> u32 list \<Rightarrow> u32 list" where
  "set_window_bit index window =
     window[unat (index div 32) := window ! unat (index div 32) OR push_bit (unat (index mod 32)) 1]"

text \<open>The handler's tests on the group: \<open>None\<close> for the early returns, otherwise the index in the window
  and the peer, whose window may have moved.\<close>

definition unsequenced_window :: "u16 \<Rightarrow> ENetPeer \<Rightarrow> (u32 \<times> ENetPeer) option" where
  "unsequenced_window unsequencedGroup p =
     (let group = ucast unsequencedGroup :: u32;
          index = group mod ENET_PEER_UNSEQUENCED_WINDOW_SIZE;
          incoming = ucast (p_incomingUnsequencedGroup p) :: u32;
          group = (if group < incoming then group + 0x10000 else group)
      in if group \<ge> incoming + ENET_PEER_FREE_UNSEQUENCED_WINDOWS * ENET_PEER_UNSEQUENCED_WINDOW_SIZE
         then None
         else
           let group = group AND 0xFFFF
           in if group - index \<noteq> incoming
              then Some (index, p\<lparr>p_incomingUnsequencedGroup := ucast (group - index),
                                  p_unsequencedWindow := replicate 32 0\<rparr>)
              else if window_bit index (p_unsequencedWindow p) then None
              else Some (index, p))"

definition enet_protocol_handle_send_unsequenced ::
    "nat \<Rightarrow> ENetProtocol \<Rightarrow> nat \<Rightarrow> ENetHost \<Rightarrow> int \<times> nat \<times> ENetHost" where
  "enet_protocol_handle_send_unsequenced i command pos h =
     (if refuses_data i command h then (-1, pos, h)
      else
        let dataLength = ucast (ENET_NET_TO_HOST_16 (sendUnsequenced_dataLength (pr_body command)));
            next = pos + unat dataLength
        in if payload_outside dataLength pos h then (-1, next, h)
           else case unsequenced_window (ENET_NET_TO_HOST_16 (sendUnsequenced_group (pr_body command)))
                       (peer_at h i) of
             None \<Rightarrow> (0, next, h)
           | Some (index, p) \<Rightarrow>
               (case enet_peer_queue_incoming_command i command (Some (drop pos (h_receivedData h)))
                       dataLength ENET_PACKET_FLAG_UNSEQUENCED 0 (upd_peer i (\<lambda>_. p) h) of
                  (q, h) \<Rightarrow>
                    if q = NotifyError then (-1, next, h)
                    else (0, next, upd_peer i (p_unsequencedWindow_update (set_window_bit index)) h)))"

section \<open>Fragments\<close>

text \<open>The backwards searches for the command that collects the fragments, on the reversed list:
  no such command, one that does not fit (an error), or its address.\<close>

datatype fragment_search = NoStart | BadStart | Start nat

definition check_start :: "u8 \<Rightarrow> u32 \<Rightarrow> u32 \<Rightarrow> heap \<Rightarrow> ENetIncomingCommand \<Rightarrow> fragment_search" where
  "check_start n totalLength fragmentCount hp ic =
     (if number_of (ic_command ic) \<noteq> n \<or>
         ucast totalLength \<noteq> pk_dataLength (deref_packet hp (the (ic_packet ic))) \<or>
         fragmentCount \<noteq> ic_fragmentCount ic
      then BadStart else Start (ic_address ic))"

fun find_reliable_start ::
    "u16 \<Rightarrow> u16 \<Rightarrow> u32 \<Rightarrow> u32 \<Rightarrow> heap \<Rightarrow> ENetIncomingCommand list \<Rightarrow> fragment_search" where
  "find_reliable_start s current totalLength fragmentCount hp [] = NoStart"
| "find_reliable_start s current totalLength fragmentCount hp (ic # before) =
     (let r = ic_reliableSequenceNumber ic
      in if s \<ge> current \<and> r < current
         then find_reliable_start s current totalLength fragmentCount hp before
         else if \<not> s \<ge> current \<and> r \<ge> current then NoStart
         else if r \<le> s then
           if r < s then NoStart
           else check_start ENET_PROTOCOL_COMMAND_SEND_FRAGMENT totalLength fragmentCount hp ic
         else find_reliable_start s current totalLength fragmentCount hp before)"

fun find_unreliable_start ::
    "u16 \<Rightarrow> u16 \<Rightarrow> u16 \<Rightarrow> u32 \<Rightarrow> u32 \<Rightarrow> heap \<Rightarrow> ENetIncomingCommand list \<Rightarrow> fragment_search" where
  "find_unreliable_start s u current totalLength fragmentCount hp [] = NoStart"
| "find_unreliable_start s u current totalLength fragmentCount hp (ic # before) =
     (let r = ic_reliableSequenceNumber ic
      in if s \<ge> current \<and> r < current
         then find_unreliable_start s u current totalLength fragmentCount hp before
         else if \<not> s \<ge> current \<and> r \<ge> current then NoStart
         else if r < s then NoStart
         else if r > s then find_unreliable_start s u current totalLength fragmentCount hp before
         else if ic_unreliableSequenceNumber ic \<le> u then
           if ic_unreliableSequenceNumber ic < u then NoStart
           else check_start ENET_PROTOCOL_COMMAND_SEND_UNRELIABLE_FRAGMENT totalLength fragmentCount hp ic
         else find_unreliable_start s u current totalLength fragmentCount hp before)"

text \<open>Marking a fragment of the command at an address, and copying its bytes into the packet.\<close>

definition fragment_seen :: "u32 \<Rightarrow> ENetIncomingCommand \<Rightarrow> bool" where
  "fragment_seen n ic \<longleftrightarrow> window_bit n (the (ic_fragments ic))"

definition mark_fragment :: "u32 \<Rightarrow> ENetIncomingCommand \<Rightarrow> ENetIncomingCommand" where
  "mark_fragment n ic =
     ic\<lparr>ic_fragmentsRemaining := ic_fragmentsRemaining ic - 1,
        ic_fragments := Some (set_window_bit n (the (ic_fragments ic)))\<rparr>"

definition overwrite :: "nat \<Rightarrow> 'a list \<Rightarrow> 'a list \<Rightarrow> 'a list" where
  "overwrite offset new old = take offset old @ new @ drop (offset + length new) old"

definition copy_fragment :: "nat \<Rightarrow> nat \<Rightarrow> u8 list \<Rightarrow> heap \<Rightarrow> heap" where
  "copy_fragment packet offset bytes hp =
     update_packet packet (\<lambda>k. k\<lparr>pk_data := map_option (overwrite offset bytes) (pk_data k)\<rparr>) hp"

definition incoming_list :: "bool \<Rightarrow> ENetChannel \<Rightarrow> ENetIncomingCommand list" where
  "incoming_list reliable ch =
     (if reliable then ch_incomingReliableCommands ch else ch_incomingUnreliableCommands ch)"

definition upd_incoming :: "bool \<Rightarrow> nat \<Rightarrow> (ENetIncomingCommand \<Rightarrow> ENetIncomingCommand) \<Rightarrow> ENetChannel \<Rightarrow> ENetChannel" where
  "upd_incoming reliable a f ch =
     (let ics = map (\<lambda>ic. if ic_address ic = a then f ic else ic) (incoming_list reliable ch)
      in if reliable then ch\<lparr>ch_incomingReliableCommands := ics\<rparr>
         else ch\<lparr>ch_incomingUnreliableCommands := ics\<rparr>)"

text \<open>The common end of the two handlers: a fragment the command does not have yet is marked, and its
  bytes go into the packet.  In \<open>store_fragment\<close>, \<open>a\<close> is the address of \<open>startCommand\<close>, which is in
  the channel's list.\<close>

definition collect_fragment ::
    "u32 \<Rightarrow> u32 \<Rightarrow> u32 \<Rightarrow> u8 list \<Rightarrow> ENetIncomingCommand \<Rightarrow> heap \<Rightarrow> ENetIncomingCommand \<times> heap" where
  "collect_fragment fragmentNumber fragmentOffset fragmentLength payload ic hp =
     (let packet = the (ic_packet ic);
          dataLength = pk_dataLength (deref_packet hp packet);
          fragmentLength = (if ucast (fragmentOffset + fragmentLength) > dataLength
                            then ucast (dataLength - ucast fragmentOffset) else fragmentLength)
      in (mark_fragment fragmentNumber ic,
          copy_fragment packet (unat fragmentOffset) (take (unat fragmentLength) payload) hp))"

definition store_fragment ::
    "nat \<Rightarrow> nat \<Rightarrow> bool \<Rightarrow> nat \<Rightarrow> u32 \<Rightarrow> u32 \<Rightarrow> u32 \<Rightarrow> nat \<Rightarrow> ENetHost \<Rightarrow> ENetHost" where
  "store_fragment i c reliable a fragmentNumber fragmentOffset fragmentLength pos h =
     (case find (\<lambda>ic. ic_address ic = a) (incoming_list reliable (p_channels (peer_at h i) ! c)) of
        None \<Rightarrow> h
      | Some ic \<Rightarrow>
          if fragment_seen fragmentNumber ic then h
          else case collect_fragment fragmentNumber fragmentOffset fragmentLength
                      (drop pos (h_receivedData h)) ic (h_heap h) of
            (ic, hp) \<Rightarrow>
              let h = upd_peer i (upd_channel c (upd_incoming reliable a (\<lambda>_. ic))) (h\<lparr>h_heap := hp\<rparr>)
              in if ic_fragmentsRemaining ic \<le> 0
                 then if reliable then enet_peer_dispatch_incoming_reliable_commands i c h
                      else enet_peer_dispatch_incoming_unreliable_commands i c h
                 else h)"

definition fragment_invalid :: "ENetProtocolSendFragment \<Rightarrow> ENetHost \<Rightarrow> bool" where
  "fragment_invalid f h \<longleftrightarrow>
     (let fragmentLength = ucast (ENET_NET_TO_HOST_16 (sf_dataLength f)) :: u32;
          fragmentNumber = ENET_NET_TO_HOST_32 (sf_fragmentNumber f);
          fragmentCount = ENET_NET_TO_HOST_32 (sf_fragmentCount f);
          fragmentOffset = ENET_NET_TO_HOST_32 (sf_fragmentOffset f);
          totalLength = ENET_NET_TO_HOST_32 (sf_totalLength f)
      in fragmentCount > ENET_PROTOCOL_MAXIMUM_FRAGMENT_COUNT \<or> fragmentNumber \<ge> fragmentCount \<or>
         ucast totalLength > h_maximumPacketSize h \<or> fragmentOffset \<ge> totalLength \<or>
         fragmentLength > totalLength - fragmentOffset)"

definition enet_protocol_handle_send_fragment ::
    "nat \<Rightarrow> ENetProtocol \<Rightarrow> nat \<Rightarrow> ENetHost \<Rightarrow> int \<times> nat \<times> ENetHost" where
  "enet_protocol_handle_send_fragment i command pos h =
     (if refuses_data i command h then (-1, pos, h)
      else
        let f = fragment_body (pr_body command);
            fragmentLength = ucast (ENET_NET_TO_HOST_16 (sf_dataLength f)) :: u32;
            next = pos + unat fragmentLength
        in if payload_outside (ucast fragmentLength) pos h then (-1, next, h)
        else
          let c = unat (channel_of command);
              current = ch_incomingReliableSequenceNumber (p_channels (peer_at h i) ! c);
              s = ENET_NET_TO_HOST_16 (sf_startSequenceNumber f);
              fragmentCount = ENET_NET_TO_HOST_32 (sf_fragmentCount f);
              totalLength = ENET_NET_TO_HOST_32 (sf_totalLength f)
          in if outside_window s current then (0, next, h)
          else if fragment_invalid f h then (-1, next, h)
          else case (case find_reliable_start s current totalLength fragmentCount (h_heap h)
                        (rev (ch_incomingReliableCommands (p_channels (peer_at h i) ! c))) of
                 BadStart \<Rightarrow> (NotifyError, h)
               | Start a \<Rightarrow> (Queued a, h)
               | NoStart \<Rightarrow>
                   enet_peer_queue_incoming_command i
                     (command\<lparr>pr_header := (pr_header command)\<lparr>hd_reliableSequenceNumber := s\<rparr>\<rparr>)
                     None (ucast totalLength) ENET_PACKET_FLAG_RELIABLE fragmentCount h) of
               (Queued a, h) \<Rightarrow>
                 (0, next, store_fragment i c True a (ENET_NET_TO_HOST_32 (sf_fragmentNumber f))
                   (ENET_NET_TO_HOST_32 (sf_fragmentOffset f)) fragmentLength pos h)
             | (_, h) \<Rightarrow> (-1, next, h))"

definition enet_protocol_handle_send_unreliable_fragment ::
    "nat \<Rightarrow> ENetProtocol \<Rightarrow> nat \<Rightarrow> ENetHost \<Rightarrow> int \<times> nat \<times> ENetHost" where
  "enet_protocol_handle_send_unreliable_fragment i command pos h =
     (if refuses_data i command h then (-1, pos, h)
      else
        let f = fragment_body (pr_body command);
            fragmentLength = ucast (ENET_NET_TO_HOST_16 (sf_dataLength f)) :: u32;
            next = pos + unat fragmentLength
        in if payload_outside (ucast fragmentLength) pos h then (-1, next, h)
        else
          let c = unat (channel_of command);
              channel = p_channels (peer_at h i) ! c;
              current = ch_incomingReliableSequenceNumber channel;
              s = hd_reliableSequenceNumber (pr_header command);
              u = ENET_NET_TO_HOST_16 (sf_startSequenceNumber f);
              fragmentCount = ENET_NET_TO_HOST_32 (sf_fragmentCount f);
              totalLength = ENET_NET_TO_HOST_32 (sf_totalLength f)
          in if outside_window s current then (0, next, h)
          else if s = current \<and> u \<le> ch_incomingUnreliableSequenceNumber channel then (0, next, h)
          else if fragment_invalid f h then (-1, next, h)
          else case (case find_unreliable_start s u current totalLength fragmentCount (h_heap h)
                        (rev (ch_incomingUnreliableCommands channel)) of
                 BadStart \<Rightarrow> (NotifyError, h)
               | Start a \<Rightarrow> (Queued a, h)
               | NoStart \<Rightarrow>
                   enet_peer_queue_incoming_command i command
                     None (ucast totalLength) ENET_PACKET_FLAG_UNRELIABLE_FRAGMENT fragmentCount h) of
               (Queued a, h) \<Rightarrow>
                 (0, next, store_fragment i c False a (ENET_NET_TO_HOST_32 (sf_fragmentNumber f))
                   (ENET_NET_TO_HOST_32 (sf_fragmentOffset f)) fragmentLength pos h)
             | (_, h) \<Rightarrow> (-1, next, h))"

section \<open>The commands of a datagram\<close>

text \<open>The switch over the command number, for a command of the peer, which is \<open>None\<close> for a datagram
  without one.  The result is 0 or -1, the peer, the position behind the payload, and the event.\<close>

definition handle_command ::
    "nat option \<Rightarrow> ENetProtocol \<Rightarrow> nat \<Rightarrow> ENetEvent option \<Rightarrow> ENetHost \<Rightarrow>
     int \<times> nat option \<times> nat \<times> ENetEvent option \<times> ENetHost" where
  "handle_command peer command pos event h =
     (let n = number_of command
      in case peer of
           None \<Rightarrow>
             (case enet_protocol_handle_connect command h of
                (None, h) \<Rightarrow> (-1, None, pos, event, h)
              | (Some i, h) \<Rightarrow> (0, Some i, pos, event, h))
         | Some i \<Rightarrow>
             if n = ENET_PROTOCOL_COMMAND_ACKNOWLEDGE then
               (case enet_protocol_handle_acknowledge i command event h of (r, event, h) \<Rightarrow> (r, peer, pos, event, h))
             else if n = ENET_PROTOCOL_COMMAND_CONNECT then (-1, peer, pos, event, h)
             else if n = ENET_PROTOCOL_COMMAND_VERIFY_CONNECT then
               (case enet_protocol_handle_verify_connect i command event h of (r, event, h) \<Rightarrow> (r, peer, pos, event, h))
             else if n = ENET_PROTOCOL_COMMAND_DISCONNECT then
               (case enet_protocol_handle_disconnect i command h of (r, h) \<Rightarrow> (r, peer, pos, event, h))
             else if n = ENET_PROTOCOL_COMMAND_PING then
               (case enet_protocol_handle_ping i h of (r, h) \<Rightarrow> (r, peer, pos, event, h))
             else if n = ENET_PROTOCOL_COMMAND_SEND_RELIABLE then
               (case enet_protocol_handle_send_reliable i command pos h of (r, pos, h) \<Rightarrow> (r, peer, pos, event, h))
             else if n = ENET_PROTOCOL_COMMAND_SEND_UNRELIABLE then
               (case enet_protocol_handle_send_unreliable i command pos h of (r, pos, h) \<Rightarrow> (r, peer, pos, event, h))
             else if n = ENET_PROTOCOL_COMMAND_SEND_UNSEQUENCED then
               (case enet_protocol_handle_send_unsequenced i command pos h of (r, pos, h) \<Rightarrow> (r, peer, pos, event, h))
             else if n = ENET_PROTOCOL_COMMAND_SEND_FRAGMENT then
               (case enet_protocol_handle_send_fragment i command pos h of (r, pos, h) \<Rightarrow> (r, peer, pos, event, h))
             else if n = ENET_PROTOCOL_COMMAND_BANDWIDTH_LIMIT then
               (case enet_protocol_handle_bandwidth_limit i command h of (r, h) \<Rightarrow> (r, peer, pos, event, h))
             else if n = ENET_PROTOCOL_COMMAND_THROTTLE_CONFIGURE then
               (case enet_protocol_handle_throttle_configure i command h of (r, h) \<Rightarrow> (r, peer, pos, event, h))
             else if n = ENET_PROTOCOL_COMMAND_SEND_UNRELIABLE_FRAGMENT then
               (case enet_protocol_handle_send_unreliable_fragment i command pos h of
                  (r, pos, h) \<Rightarrow> (r, peer, pos, event, h))
             else (-1, peer, pos, event, h))"

text \<open>Acknowledging the command just handled.  \<open>sent\<close> is the time in the datagram's header, \<open>None\<close>
  when it has none: then the loop over the commands ends.\<close>

definition acknowledge_command :: "nat \<Rightarrow> ENetProtocol \<Rightarrow> u16 \<Rightarrow> ENetHost \<Rightarrow> ENetHost" where
  "acknowledge_command i command sentTime h =
     (let s = state_at h i;
          queue = snd (on_peer i (enet_peer_queue_acknowledgement command sentTime) h)
      in if s = ENET_PEER_STATE_DISCONNECTING \<or> s = ENET_PEER_STATE_ACKNOWLEDGING_CONNECT \<or>
            s = ENET_PEER_STATE_DISCONNECTED \<or> s = ENET_PEER_STATE_ZOMBIE then h
         else if s = ENET_PEER_STATE_ACKNOWLEDGING_DISCONNECT then
           if number_of command = ENET_PROTOCOL_COMMAND_DISCONNECT then queue else h
         else queue)"

definition host_order :: "ENetProtocol \<Rightarrow> ENetProtocol" where
  "host_order command =
     command\<lparr>pr_header := (pr_header command)\<lparr>hd_reliableSequenceNumber :=
        ENET_NET_TO_HOST_16 (hd_reliableSequenceNumber (pr_header command))\<rparr>\<rparr>"

text \<open>The command at a position, or \<open>None\<close> where the loop breaks before it looks at it.\<close>

definition next_command :: "nat option \<Rightarrow> nat \<Rightarrow> ENetHost \<Rightarrow> ENetProtocol option" where
  "next_command peer pos h =
     (let data = h_receivedData h; dataLength = unat (h_receivedDataLength h)
      in if pos + 4 > dataLength then None
         else
           let commandNumber = (data ! pos) AND ENET_PROTOCOL_COMMAND_MASK
           in if commandNumber \<ge> ENET_PROTOCOL_COMMAND_COUNT then None
              else
                let commandSize = commandSizes ! unat commandNumber
                in if commandSize = 0 \<or> pos + commandSize > dataLength then None
                   else if peer = None \<and> commandNumber \<noteq> ENET_PROTOCOL_COMMAND_CONNECT then None
                   else Some (host_order (decode_command data pos)))"

text \<open>The loop.  Each turn moves the position by at least four bytes, so as many turns as the datagram
  has bytes are enough.\<close>

fun command_loop ::
    "nat \<Rightarrow> u16 option \<Rightarrow> nat option \<Rightarrow> nat \<Rightarrow> ENetEvent option \<Rightarrow> ENetHost \<Rightarrow>
     (ENetEvent option \<times> ENetHost) option" where
  "command_loop fuel sent peer pos event h =
     (if pos \<ge> unat (h_receivedDataLength h) then Some (event, h)
      else case next_command peer pos h of
        None \<Rightarrow> Some (event, h)
      | Some command \<Rightarrow>
          (case fuel of
             0 \<Rightarrow> None
           | Suc fuel \<Rightarrow>
               (case handle_command peer command (pos + commandSizes ! unat (number_of command)) event h of
                  (r, peer, pos, event, h) \<Rightarrow>
                    if r \<noteq> 0 then Some (event, h)
                    else case peer of
                      None \<Rightarrow> command_loop fuel sent peer pos event h
                    | Some i \<Rightarrow>
                        if command_of command AND ENET_PROTOCOL_COMMAND_FLAG_ACKNOWLEDGE \<noteq> 0 then
                          (case sent of
                             None \<Rightarrow> Some (event, h)
                           | Some sentTime \<Rightarrow>
                               command_loop fuel sent peer pos event (acknowledge_command i command sentTime h))
                        else command_loop fuel sent peer pos event h)))"

section \<open>Datagrams\<close>

record header_info =
  hi_peerID :: u16
  hi_sessionID :: u8
  hi_flags :: u16
  hi_headerSize :: nat

definition parse_header :: "u8 list \<Rightarrow> bool \<Rightarrow> header_info" where
  "parse_header data checksum =
     (let peerID = ENET_NET_TO_HOST_16 (load16 data 0);
          flags = peerID AND ENET_PROTOCOL_HEADER_FLAG_MASK
      in \<lparr>hi_peerID = peerID AND NOT (ENET_PROTOCOL_HEADER_FLAG_MASK OR ENET_PROTOCOL_HEADER_SESSION_MASK),
          hi_sessionID = ucast (drop_bit (ENET_PROTOCOL_HEADER_SESSION_SHIFT)
            (peerID AND ENET_PROTOCOL_HEADER_SESSION_MASK)),
          hi_flags = flags,
          hi_headerSize = (if flags AND ENET_PROTOCOL_HEADER_FLAG_SENT_TIME \<noteq> 0 then 4 else 2) +
            (if checksum then 4 else 0)\<rparr>)"

text \<open>Which peer the datagram is for: \<open>None\<close> when it is dropped.\<close>

definition header_peer :: "header_info \<Rightarrow> ENetHost \<Rightarrow> nat option option" where
  "header_peer hi h =
     (if hi_peerID hi = ENET_PROTOCOL_MAXIMUM_PEER_ID then Some None
      else if unat (hi_peerID hi) \<ge> length (h_peers h) then None
      else
        let i = unat (hi_peerID hi); p = peer_at h i
        in if p_state p = ENET_PEER_STATE_DISCONNECTED \<or> p_state p = ENET_PEER_STATE_ZOMBIE \<or>
              (h_receivedAddress h \<noteq> p_address p \<and> addr_host (p_address p) \<noteq> ENET_HOST_BROADCAST) \<or>
              (p_outgoingPeerID p < ENET_PROTOCOL_MAXIMUM_PEER_ID \<and> hi_sessionID hi \<noteq> p_incomingSessionID p)
           then None else Some (Some i))"

text \<open>What the code passes to the decompressor as the size of its input.\<close>

definition decompress_inLimit :: "size_t \<Rightarrow> nat \<Rightarrow> size_t" where
  "decompress_inLimit receivedDataLength headerSize = receivedDataLength - of_nat headerSize"

definition decompress_datagram :: "header_info \<Rightarrow> ENetHost \<Rightarrow> bool \<times> ENetHost" where
  "decompress_datagram hi h =
     (if hi_flags hi AND ENET_PROTOCOL_HEADER_FLAG_COMPRESSED = 0 then (True, h)
      else case (cp_context (h_compressor h), cp_decompress (h_compressor h)) of
        (Some _, Some decompress) \<Rightarrow>
          let headerSize = hi_headerSize hi;
              header = take headerSize (h_receivedData h);
              outLimit = ENET_PROTOCOL_MAXIMUM_MTU - of_nat headerSize
          in (case decompress (drop headerSize (h_receivedData h))
                     (decompress_inLimit (h_receivedDataLength h) headerSize) outLimit of
                (originalSize, bytes) \<Rightarrow>
                  let h = h\<lparr>h_packetData1 :=
                        overwrite headerSize (take (unat outLimit) bytes) (h_packetData1 h)\<rparr>
                  in if originalSize \<le> 0 \<or> originalSize > outLimit then (False, h)
                     else
                       let h = h\<lparr>h_packetData1 := overwrite 0 header (h_packetData1 h)\<rparr>
                       in (True, h\<lparr>h_receivedData := h_packetData1 h,
                                   h_receivedDataLength := of_nat headerSize + originalSize\<rparr>))
      | _ \<Rightarrow> (False, h))"

text \<open>The checksum field is replaced by the peer's \<open>connectID\<close> before the sum is computed.\<close>

definition verify_checksum :: "nat option \<Rightarrow> nat \<Rightarrow> ENetHost \<Rightarrow> bool \<times> ENetHost" where
  "verify_checksum peer headerSize h =
     (case h_checksum h of
        None \<Rightarrow> (True, h)
      | Some checksum \<Rightarrow>
          let desiredChecksum = load32 (h_receivedData h) (headerSize - 4);
              connectID = (case peer of Some i \<Rightarrow> p_connectID (peer_at h i) | None \<Rightarrow> 0);
              h = h\<lparr>h_receivedData := overwrite (headerSize - 4) (bytes32 connectID) (h_receivedData h)\<rparr>
          in (checksum [take (unat (h_receivedDataLength h)) (h_receivedData h)] = desiredChecksum, h))"

text \<open>The part in front of the loop: \<open>None\<close> for a datagram that is dropped, otherwise the time of
  sending, the peer and the size of the header.\<close>

definition accept_datagram :: "ENetHost \<Rightarrow> (u16 option \<times> nat option \<times> nat) option \<times> ENetHost" where
  "accept_datagram h =
     (if h_receivedDataLength h < 2 then (None, h)
      else
        let hi = parse_header (h_receivedData h) (h_checksum h \<noteq> None);
            sentTime = ENET_NET_TO_HOST_16 (load16 (h_receivedData h) 2);
            sent = (if hi_flags hi AND ENET_PROTOCOL_HEADER_FLAG_SENT_TIME \<noteq> 0 then Some sentTime else None)
        in case header_peer hi h of
          None \<Rightarrow> (None, h)
        | Some peer \<Rightarrow>
            (case decompress_datagram hi h of (ok, h) \<Rightarrow>
               if \<not> ok then (None, h)
               else case verify_checksum peer (hi_headerSize hi) h of (ok, h) \<Rightarrow>
                 if \<not> ok then (None, h)
                 else
                   (Some (sent, peer, hi_headerSize hi),
                    case peer of
                      None \<Rightarrow> h
                    | Some i \<Rightarrow> upd_peer i (\<lambda>p. p\<lparr>p_address := h_receivedAddress h,
                        p_incomingDataTotal := p_incomingDataTotal p + ucast (h_receivedDataLength h)\<rparr>) h)))"

definition enet_protocol_handle_incoming_commands ::
    "ENetEvent option \<Rightarrow> ENetHost \<Rightarrow> (int \<times> ENetEvent option \<times> ENetHost) option" where
  "enet_protocol_handle_incoming_commands event h =
     (case accept_datagram h of
        (None, h) \<Rightarrow> Some (0, event, h)
      | (Some (sent, peer, headerSize), h) \<Rightarrow>
          (case command_loop (unat (h_receivedDataLength h)) sent peer headerSize event h of
             None \<Rightarrow> None
           | Some (event, h) \<Rightarrow>
               Some (case event of
                       Some e \<Rightarrow> if ev_type e \<noteq> ENET_EVENT_TYPE_NONE then 1 else 0
                     | None \<Rightarrow> 0, event, h)))"

text \<open>\<^verbatim>\<open>enet_socket_receive\<close> into the first packet buffer: the bytes of the datagram and what lies
  behind them.  \<open>receivedData\<close> is set to this buffer after every datagram that is not empty, and
  not used otherwise.\<close>

definition enet_socket_receive :: "ENetHost \<Rightarrow> int \<times> ENetHost" where
  "enet_socket_receive h =
     (let w = h_world h; n = w_receiveCalls w;
          h = h\<lparr>h_world := w\<lparr>w_receiveCalls := Suc n\<rparr>\<rparr>
      in case w_received w n of
           ReceiveError \<Rightarrow> (-1, h)
         | ReceiveNothing \<Rightarrow> (0, h)
         | ReceiveData address bytes \<Rightarrow>
             let bytes = take (ENET_PROTOCOL_MAXIMUM_MTU) bytes
             in (int (length bytes),
                 h\<lparr>h_receivedAddress := address,
                   h_receivedData := bytes @ map (w_stale w n) [length bytes..<ENET_PROTOCOL_MAXIMUM_MTU]\<rparr>))"

text \<open>The loop over at most 256 datagrams.\<close>

fun receive_loop :: "nat \<Rightarrow> ENetEvent option \<Rightarrow> ENetHost \<Rightarrow> (int \<times> ENetEvent option \<times> ENetHost) option" where
  "receive_loop 0 event h = Some (-1, event, h)"
| "receive_loop (Suc packets) event h =
     (case enet_socket_receive h of (receivedLength, h) \<Rightarrow>
        if receivedLength < 0 then Some (-1, event, h)
        else if receivedLength = 0 then Some (0, event, h)
        else
          let h = h\<lparr>h_receivedDataLength := of_int receivedLength,
                    h_totalReceivedData := h_totalReceivedData h + of_int receivedLength,
                    h_totalReceivedPackets := h_totalReceivedPackets h + 1\<rparr>
          in
          (case (case h_intercept h of
                   None \<Rightarrow> (0, event)
                 | Some intercept \<Rightarrow> intercept (h_receivedAddress h)
                     (take (unat (h_receivedDataLength h)) (h_receivedData h)) event) of
             (r, event) \<Rightarrow>
               if r = 1 then
                 (case event of
                    Some e \<Rightarrow> if ev_type e \<noteq> ENET_EVENT_TYPE_NONE then Some (1, event, h)
                              else receive_loop packets event h
                  | None \<Rightarrow> receive_loop packets event h)
               else if r = -1 then Some (-1, event, h)
               else
                 (case enet_protocol_handle_incoming_commands event h of
                    None \<Rightarrow> None
                  | Some (r, event, h) \<Rightarrow>
                      if r = 1 then Some (1, event, h)
                      else if r = -1 then Some (-1, event, h)
                      else receive_loop packets event h)))"

definition enet_protocol_receive_incoming_commands ::
    "ENetEvent option \<Rightarrow> ENetHost \<Rightarrow> (int \<times> ENetEvent option \<times> ENetHost) option" where
  "enet_protocol_receive_incoming_commands event h = receive_loop 256 event h"

declare command_loop.simps [simp del] receive_loop.simps [simp del]

section \<open>What the handlers leave alone\<close>

text \<open>The datagram, the clock and the world.\<close>

definition host_input :: "ENetHost \<Rightarrow> u8 list \<times> size_t \<times> ENetAddress \<times> u32 \<times> world" where
  "host_input h = (h_receivedData h, h_receivedDataLength h, h_receivedAddress h, h_serviceTime h, h_world h)"

named_theorems input_frame \<open>operations that keep the host's input\<close>

lemma input_upd_peer [input_frame]: "host_input (upd_peer i f h) = host_input h"
  by (simp add: host_input_def upd_peer_def)

lemma input_fields [input_frame]:
  "host_input (h\<lparr>h_heap := hp\<rparr>) = host_input h"
  "host_input (h\<lparr>h_dispatchQueue := q\<rparr>) = host_input h"
  "host_input (h\<lparr>h_connectedPeers := n\<rparr>) = host_input h"
  "host_input (h\<lparr>h_bandwidthLimitedPeers := n\<rparr>) = host_input h"
  "host_input (h\<lparr>h_recalculateBandwidthLimits := b\<rparr>) = host_input h"
  by (simp_all add: host_input_def)

lemma input_if [input_frame]:
  "host_input g = host_input h \<Longrightarrow> host_input (if b then g else h) = host_input h"
  "host_input g = host_input h \<Longrightarrow> host_input (if b then h else g) = host_input h"
  by simp_all

lemma input_on_peer [input_frame]: "host_input (snd (on_peer i f h)) = host_input h"
  by (simp add: on_peer_def split_beta input_frame)

lemma input_needs_dispatch [input_frame]: "host_input (enet_needs_dispatch i h) = host_input h"
  by (simp add: enet_needs_dispatch_def input_frame)

lemma input_dispatch_unreliable [input_frame]:
  "host_input (enet_peer_dispatch_incoming_unreliable_commands i c h) = host_input h"
  by (simp add: enet_peer_dispatch_incoming_unreliable_commands_def Let_def input_frame split: prod.split)

lemma input_dispatch_reliable [input_frame]:
  "host_input (enet_peer_dispatch_incoming_reliable_commands i c h) = host_input h"
  by (simp add: enet_peer_dispatch_incoming_reliable_commands_def Let_def input_frame split: prod.split)

lemma input_queue_incoming [input_frame]:
  "host_input (snd (enet_peer_queue_incoming_command i command data len flags n h)) = host_input h"
  by (simp add: enet_peer_queue_incoming_command_def link_incoming_def Let_def input_frame
      split: prod.split option.split)

lemma input_reset_queues [input_frame]: "host_input (enet_peer_reset_queues i h) = host_input h"
  by (simp add: enet_peer_reset_queues_def Let_def input_frame)

lemma input_on_connect [input_frame]: "host_input (enet_peer_on_connect i h) = host_input h"
  by (simp add: enet_peer_on_connect_def Let_def input_frame)

lemma input_on_disconnect [input_frame]: "host_input (enet_peer_on_disconnect i h) = host_input h"
  by (simp add: enet_peer_on_disconnect_def Let_def input_frame)

lemma input_reset [input_frame]: "host_input (enet_peer_reset i h) = host_input h"
  by (simp add: enet_peer_reset_def Let_def input_frame)

lemma input_change_state [input_frame]: "host_input (enet_protocol_change_state i s h) = host_input h"
  by (simp add: enet_protocol_change_state_def Let_def input_frame)

lemma input_dispatch_state [input_frame]: "host_input (enet_protocol_dispatch_state i s h) = host_input h"
  by (simp add: enet_protocol_dispatch_state_def input_frame)

lemma input_notify_connect [input_frame]:
  "host_input (snd (enet_protocol_notify_connect i event h)) = host_input h"
  by (simp add: enet_protocol_notify_connect_def Let_def input_frame split: option.split)

lemma input_notify_disconnect [input_frame]:
  "host_input (snd (enet_protocol_notify_disconnect i event h)) = host_input h"
  by (simp add: enet_protocol_notify_disconnect_def Let_def input_frame split: option.split)

lemma input_queue_outgoing [input_frame]: "host_input (queue_outgoing i command h) = host_input h"
  by (simp add: queue_outgoing_def input_frame)

lemma input_handle_acknowledge [input_frame]:
  "host_input (snd (snd (enet_protocol_handle_acknowledge i command event h))) = host_input h"
  by (simp add: enet_protocol_handle_acknowledge_def disconnect_connected_def Let_def input_frame split_beta)

lemma input_handle_connect [input_frame]:
  "host_input (snd (enet_protocol_handle_connect command h)) = host_input h"
  by (simp add: enet_protocol_handle_connect_def accept_peer_def Let_def input_frame split: prod.split option.split)

lemma input_handle_verify [input_frame]:
  "host_input (snd (snd (enet_protocol_handle_verify_connect i command event h))) = host_input h"
  by (simp add: enet_protocol_handle_verify_connect_def Let_def input_frame split_beta)

lemma input_handle_disconnect [input_frame]:
  "host_input (snd (enet_protocol_handle_disconnect i command h)) = host_input h"
  by (simp add: enet_protocol_handle_disconnect_def Let_def input_frame)

lemma input_handle_control [input_frame]:
  "host_input (snd (enet_protocol_handle_ping i h)) = host_input h"
  "host_input (snd (enet_protocol_handle_bandwidth_limit i command h)) = host_input h"
  "host_input (snd (enet_protocol_handle_throttle_configure i command h)) = host_input h"
  by (simp_all add: enet_protocol_handle_ping_def enet_protocol_handle_bandwidth_limit_def
      enet_protocol_handle_throttle_configure_def Let_def input_frame)

lemma input_store_fragment [input_frame]:
  "host_input (store_fragment i c reliable a n off len pos h) = host_input h"
  by (simp add: store_fragment_def Let_def input_frame split: option.split prod.split)

text \<open>The same on what a handler returns.\<close>

lemma input_queued:
  "enet_peer_queue_incoming_command i command data len flags n h = (q, h') \<Longrightarrow> host_input h' = host_input h"
  using input_queue_incoming [of i command data len flags n h] by simp

lemma handle_send_reliable_input:
  "enet_protocol_handle_send_reliable i command pos h = (r, next, h') \<Longrightarrow>
   host_input h' = host_input h \<and> (r = 0 \<longrightarrow> next \<ge> pos)"
  by (auto simp: enet_protocol_handle_send_reliable_def Let_def
      split: if_split_asm prod.split_asm dest: input_queued)

lemma handle_send_unreliable_input:
  "enet_protocol_handle_send_unreliable i command pos h = (r, next, h') \<Longrightarrow>
   host_input h' = host_input h \<and> (r = 0 \<longrightarrow> next \<ge> pos)"
  by (auto simp: enet_protocol_handle_send_unreliable_def Let_def
      split: if_split_asm prod.split_asm dest: input_queued)

lemma handle_send_unsequenced_input:
  "enet_protocol_handle_send_unsequenced i command pos h = (r, next, h') \<Longrightarrow>
   host_input h' = host_input h \<and> (r = 0 \<longrightarrow> next \<ge> pos)"
  by (auto simp: enet_protocol_handle_send_unsequenced_def Let_def input_frame
      split: if_split_asm prod.split_asm option.split_asm dest: input_queued)

lemma handle_send_fragment_input:
  "enet_protocol_handle_send_fragment i command pos h = (r, next, h') \<Longrightarrow>
   host_input h' = host_input h \<and> (r = 0 \<longrightarrow> next \<ge> pos)"
  by (auto simp: enet_protocol_handle_send_fragment_def Let_def input_frame
      split: if_split_asm prod.split_asm fragment_search.split_asm queued.split_asm dest: input_queued)

lemma handle_send_unreliable_fragment_input:
  "enet_protocol_handle_send_unreliable_fragment i command pos h = (r, next, h') \<Longrightarrow>
   host_input h' = host_input h \<and> (r = 0 \<longrightarrow> next \<ge> pos)"
  by (auto simp: enet_protocol_handle_send_unreliable_fragment_def Let_def input_frame
      split: if_split_asm prod.split_asm fragment_search.split_asm queued.split_asm dest: input_queued)

section \<open>The handlers keep the invariant\<close>

lemma queue_incoming_result:
  assumes "host_ok h" "i < length (h_peers h)"
    and "enet_peer_queue_incoming_command i command data len flags n h = (q, h')"
  shows "host_ok h'" "length (h_peers h') = length (h_peers h)"
  using queue_incoming.keeps [OF assms(1,2), of command data len flags n]
    queue_incoming.same_peers [of i command data len flags n h] assms(3) by simp_all

text \<open>A handler of a command with data.\<close>

locale data_handler =
  fixes handle :: "nat \<Rightarrow> ENetProtocol \<Rightarrow> nat \<Rightarrow> ENetHost \<Rightarrow> int \<times> nat \<times> ENetHost"
  assumes keeps_data: "host_ok h \<Longrightarrow> i < length (h_peers h) \<Longrightarrow> handle i command pos h = (r, next, h') \<Longrightarrow>
      host_ok h' \<and> length (h_peers h') = length (h_peers h)"
    and input_data: "handle i command pos h = (r, next, h') \<Longrightarrow>
      host_input h' = host_input h \<and> (r = 0 \<longrightarrow> next \<ge> pos)"
begin

lemma moves_on:
  assumes "host_ok h" "i < length (h_peers h)"
  shows "\<exists>r next h'. handle i command pos h = (r, next, h') \<and> host_ok h' \<and>
    length (h_peers h') = length (h_peers h) \<and> host_input h' = host_input h \<and> (r = 0 \<longrightarrow> next \<ge> pos)"
  using keeps_data [OF assms] input_data by (metis prod_cases3)

end

interpretation send_reliable: data_handler enet_protocol_handle_send_reliable
  by unfold_locales
     (auto simp: enet_protocol_handle_send_reliable_def Let_def handle_send_reliable_input
       split: if_split_asm prod.split_asm dest: queue_incoming_result input_queued)

interpretation send_unreliable: data_handler enet_protocol_handle_send_unreliable
  by unfold_locales
     (auto simp: enet_protocol_handle_send_unreliable_def Let_def
       split: if_split_asm prod.split_asm dest: queue_incoming_result input_queued)

lemma length_set_window_bit [simp]: "length (set_window_bit n w) = length w"
  by (simp add: set_window_bit_def)

lemma unsequenced_window_frame:
  "unsequenced_window g p = Some (index, p') \<Longrightarrow> length (p_unsequencedWindow p) = 32 \<Longrightarrow> peer_frame p p'"
  by (auto simp: unsequenced_window_def Let_def split: if_split_asm intro!: peer_frame_same)

lemma unsequenced_keeps:
  assumes "host_ok h" "i < length (h_peers h)" "unsequenced_window g (peer_at h i) = Some (index, p')"
  shows "host_ok (upd_peer i (\<lambda>_. p') h)"
proof (rule host_ok_frame [OF assms(1,2)])
  have "length (p_unsequencedWindow (peer_at h i)) = 32"
    using assms(1,2) by (simp add: host_ok_def peer_ok_def)
  then show "peer_frame (peer_at h i) p'" using unsequenced_window_frame [OF assms(3)] by simp
qed (simp_all add: host_frame_def upd_peer_def)

lemma window_bit_keeps:
  "host_ok h \<Longrightarrow> i < length (h_peers h) \<Longrightarrow> host_ok (upd_peer i (p_unsequencedWindow_update (set_window_bit n)) h)"
  by (rule upd_peer_keeps_same) (simp_all add: peer_frame_same)

interpretation send_unsequenced: data_handler enet_protocol_handle_send_unsequenced
proof
  fix h :: ENetHost and i command pos r "next" h'
  assume ok: "host_ok h" "i < length (h_peers h)"
    and e: "enet_protocol_handle_send_unsequenced i command pos h = (r, next, h')"
  let ?g = "ENET_NET_TO_HOST_16 (sendUnsequenced_group (pr_body command))"
  let ?queue = "\<lambda>p'. enet_peer_queue_incoming_command i command (Some (drop pos (h_receivedData h)))
      (ucast (ENET_NET_TO_HOST_16 (sendUnsequenced_dataLength (pr_body command))))
      ENET_PACKET_FLAG_UNSEQUENCED 0 (upd_peer i (\<lambda>_. p') h)"
  consider "h' = h" | index p' where "unsequenced_window ?g (peer_at h i) = Some (index, p')"
      "h' = snd (?queue p') \<or> h' = upd_peer i (p_unsequencedWindow_update (set_window_bit index)) (snd (?queue p'))"
    using e
    by (cases "unsequenced_window ?g (peer_at h i)")
       (auto simp: enet_protocol_handle_send_unsequenced_def Let_def split_beta split: if_split_asm)
  then show "host_ok h' \<and> length (h_peers h') = length (h_peers h)"
  proof cases
    case 2
    have "host_ok (snd (?queue p'))" "length (h_peers (snd (?queue p'))) = length (h_peers h)"
      using unsequenced_keeps [OF ok 2(1)] ok(2)
      by (simp_all add: queue_incoming.keeps queue_incoming.same_peers)
    then show ?thesis using 2(2) ok(2) window_bit_keeps by auto
  qed (simp add: ok)
qed (rule handle_send_unsequenced_input)

lemma peer_frame_upd_incoming: "peer_frame p (upd_channel c (upd_incoming reliable a f) p)"
  by (rule peer_frame_channel) (simp add: upd_incoming_def Let_def)

lemma store_fragment_keeps:
  assumes "host_ok h" "i < length (h_peers h)"
  shows "host_ok (store_fragment i c reliable a n off len pos h)"
proof -
  have "host_ok (upd_peer i (upd_channel c (upd_incoming reliable a (\<lambda>_. ic))) (h\<lparr>h_heap := hp\<rparr>))" for ic hp
    using assms by (intro upd_peer_heap_keeps peer_frame_upd_incoming)
  then show ?thesis
    using assms
    by (auto simp: store_fragment_def Let_def split: option.split prod.split
        intro!: dispatch_reliable_keeps dispatch_unreliable_keeps)
qed

interpretation store_fragment: host_operation "\<lambda>i. store_fragment i c reliable a n off len pos"
  for c reliable a n off len pos
  by unfold_locales
     (simp_all add: store_fragment_keeps, simp add: store_fragment_def Let_def dispatch_unreliable.same_peers
       split: option.split prod.split)

interpretation send_fragment: data_handler enet_protocol_handle_send_fragment
proof
  fix h :: ENetHost and i command pos r "next" h'
  assume "host_ok h" "i < length (h_peers h)" "enet_protocol_handle_send_fragment i command pos h = (r, next, h')"
  then show "host_ok h' \<and> length (h_peers h') = length (h_peers h)"
    by (auto simp: enet_protocol_handle_send_fragment_def Let_def store_fragment.same_peers
       split: if_split_asm prod.split_asm fragment_search.split_asm queued.split_asm
       intro!: store_fragment_keeps dest: queue_incoming_result)
qed (rule handle_send_fragment_input)

interpretation send_unreliable_fragment: data_handler enet_protocol_handle_send_unreliable_fragment
proof
  fix h :: ENetHost and i command pos r "next" h'
  assume "host_ok h" "i < length (h_peers h)"
    "enet_protocol_handle_send_unreliable_fragment i command pos h = (r, next, h')"
  then show "host_ok h' \<and> length (h_peers h') = length (h_peers h)"
    by (auto simp: enet_protocol_handle_send_unreliable_fragment_def Let_def store_fragment.same_peers
       split: if_split_asm prod.split_asm fragment_search.split_asm queued.split_asm
       intro!: store_fragment_keeps dest: queue_incoming_result)
qed (rule handle_send_unreliable_fragment_input)

text \<open>The result of a step: the invariant, the number of peers, and the input.\<close>

definition step_ok :: "ENetHost \<Rightarrow> ENetHost \<Rightarrow> bool" where
  "step_ok h h' \<longleftrightarrow> host_ok h' \<and> length (h_peers h') = length (h_peers h) \<and> host_input h' = host_input h"

lemma step_ok_refl: "host_ok h \<Longrightarrow> step_ok h h"
  by (simp add: step_ok_def)

lemma step_ok_trans: "step_ok g h \<Longrightarrow> step_ok h k \<Longrightarrow> step_ok g k"
  by (simp add: step_ok_def)

lemma data_handler_step:
  assumes "data_handler handle" "host_ok h" "i < length (h_peers h)"
  shows "step_ok h (snd (snd (handle i command pos h)))"
    "fst (handle i command pos h) = 0 \<longrightarrow> fst (snd (handle i command pos h)) \<ge> pos"
  using data_handler.moves_on [OF assms, of command pos] by (auto simp: step_ok_def)

lemma handle_command_step:
  assumes "host_ok h" "\<forall>i. peer = Some i \<longrightarrow> i < length (h_peers h)"
    and "handle_command peer command pos event h = (r, peer', next, event', h')"
  shows "step_ok h h' \<and> (\<forall>i. peer' = Some i \<longrightarrow> i < length (h_peers h)) \<and> (r = 0 \<longrightarrow> next \<ge> pos)"
proof (cases peer)
  case None
  then show ?thesis
    using assms handle_connect_keeps [OF assms(1)] input_handle_connect [of command h]
    by (auto simp: handle_command_def step_ok_def split: prod.split_asm option.split_asm)
next
  case (Some i)
  then have i: "i < length (h_peers h)" using assms(2) by simp
  note data = data_handler_step [OF send_reliable.data_handler_axioms assms(1) i]
    data_handler_step [OF send_unreliable.data_handler_axioms assms(1) i]
    data_handler_step [OF send_unsequenced.data_handler_axioms assms(1) i]
    data_handler_step [OF send_fragment.data_handler_axioms assms(1) i]
    data_handler_step [OF send_unreliable_fragment.data_handler_axioms assms(1) i]
  have control: "step_ok h (snd (snd (enet_protocol_handle_acknowledge i command event h)))"
    "step_ok h (snd (snd (enet_protocol_handle_verify_connect i command event h)))"
    "step_ok h (snd (enet_protocol_handle_disconnect i command h))"
    "step_ok h (snd (enet_protocol_handle_ping i h))"
    "step_ok h (snd (enet_protocol_handle_bandwidth_limit i command h))"
    "step_ok h (snd (enet_protocol_handle_throttle_configure i command h))"
    using assms(1) i handle_acknowledge.keeps handle_acknowledge.same_peers handle_verify_connect.keeps
      handle_verify_connect.same_peers handle_disconnect.keeps handle_disconnect.same_peers
      handle_ping.keeps handle_ping.same_peers bandwidth_limit.keeps bandwidth_limit.same_peers
      handle_throttle_configure.keeps handle_throttle_configure.same_peers
    by (simp_all add: step_ok_def input_frame)
  show ?thesis
    using assms(3) unfolding handle_command_def Some option.case Let_def split_beta
    by (simp only: prod.inject split: if_split_asm)
       (use i data control step_ok_refl [OF assms(1)] in \<open>auto simp: Some\<close>)
qed

lemma acknowledge_command_step:
  assumes "host_ok h" "i < length (h_peers h)"
  shows "step_ok h (acknowledge_command i command sentTime h)"
  using assms queue_acknowledgement.keeps queue_acknowledgement.same_peers
  by (auto simp: acknowledge_command_def step_ok_def Let_def input_frame)

lemma next_command_size:
  assumes "next_command peer pos h = Some command"
  shows "4 \<le> commandSizes ! unat (number_of command)"
    "pos + commandSizes ! unat (number_of command) \<le> unat (h_receivedDataLength h)"
proof -
  let ?n = "h_receivedData h ! pos AND ENET_PROTOCOL_COMMAND_MASK"
  have n: "number_of command = ?n" "?n < 13" "commandSizes ! unat ?n \<noteq> 0"
    "pos + commandSizes ! unat ?n \<le> unat (h_receivedDataLength h)"
    using assms
    by (auto simp: next_command_def Let_def host_order_def decode_command_def decode_header_def
        split: if_split_asm)
  then have "unat ?n < 13" by (simp add: word_less_nat_alt)
  then have "commandSizes ! unat ?n = 0 \<or> 4 \<le> commandSizes ! unat ?n"
    by (auto simp: commandSizes_def less_Suc_eq numeral_eq_Suc)
  then show "4 \<le> commandSizes ! unat (number_of command)" using n by simp
  show "pos + commandSizes ! unat (number_of command) \<le> unat (h_receivedDataLength h)" using n by simp
qed

lemma step_ok_length: "step_ok h h' \<Longrightarrow> h_receivedDataLength h' = h_receivedDataLength h"
  by (simp add: step_ok_def host_input_def)

lemma command_loop_step:
  assumes "host_ok h" "\<forall>i. peer = Some i \<longrightarrow> i < length (h_peers h)"
    and "unat (h_receivedDataLength h) \<le> pos + fuel"
  shows "\<exists>event' h'. command_loop fuel sent peer pos event h = Some (event', h') \<and> step_ok h h'"
  using assms
proof (induction fuel arbitrary: peer pos event h)
  case 0
  then show ?case by (simp add: command_loop.simps step_ok_refl)
next
  case (Suc fuel)
  show ?case
  proof (cases "pos \<ge> unat (h_receivedDataLength h) \<or> next_command peer pos h = None")
    case True
    then show ?thesis using Suc.prems(1) by (auto simp: command_loop.simps [of "Suc fuel"] step_ok_refl)
  next
    case False
    then obtain command where c: "next_command peer pos h = Some command" by auto
    let ?pos = "pos + commandSizes ! unat (number_of command)"
    obtain r peer' pos' event' h' where r: "handle_command peer command ?pos event h = (r, peer', pos', event', h')"
      by (metis prod_cases5)
    have step: "step_ok h h'" "\<forall>i. peer' = Some i \<longrightarrow> i < length (h_peers h)" "r = 0 \<longrightarrow> pos' \<ge> ?pos"
      using handle_command_step [OF Suc.prems(1,2) r] by auto
    have eq: "command_loop (Suc fuel) sent peer pos event h =
        (if r \<noteq> 0 then Some (event', h')
         else case peer' of
           None \<Rightarrow> command_loop fuel sent peer' pos' event' h'
         | Some i \<Rightarrow>
             if command_of command AND ENET_PROTOCOL_COMMAND_FLAG_ACKNOWLEDGE \<noteq> 0 then
               (case sent of None \<Rightarrow> Some (event', h')
                | Some t \<Rightarrow> command_loop fuel sent peer' pos' event' (acknowledge_command i command t h'))
             else command_loop fuel sent peer' pos' event' h')"
      using False c r by (simp add: command_loop.simps [of "Suc fuel"])
    have IH: "\<exists>e k. command_loop fuel sent peer' pos' event' g = Some (e, k) \<and> step_ok h k"
      if "r = 0" "step_ok h g" for g
    proof -
      have "unat (h_receivedDataLength g) \<le> pos' + fuel"
        using Suc.prems(3) that step(3) next_command_size [OF c] step_ok_length [OF that(2)] by simp
      then show ?thesis
        using Suc.IH [of g peer' pos' event'] that step(2) step_ok_trans [OF that(2)] by (auto simp: step_ok_def)
    qed
    have ack: "step_ok h (acknowledge_command i command t h')" if "peer' = Some i" for i t
      using step that step_ok_trans [OF step(1) acknowledge_command_step] by (simp add: step_ok_def)
    show ?thesis
      unfolding eq using step(1) IH [OF _ step(1)] IH ack
      by (auto split: option.split)
  qed
qed

section \<open>Receiving\<close>

lemma decompress_peers:
  "decompress_datagram hi h = (ok, h') \<Longrightarrow> h_peers h' = h_peers h \<and> host_frame h h'"
  by (auto simp: decompress_datagram_def Let_def host_frame_def
      split: if_split_asm option.split_asm prod.split_asm)

lemma checksum_peers:
  "verify_checksum peer n h = (ok, h') \<Longrightarrow> h_peers h' = h_peers h \<and> host_frame h h'"
  by (auto simp: verify_checksum_def Let_def host_frame_def split: option.split_asm)

lemma header_peer_index: "header_peer hi h = Some (Some i) \<Longrightarrow> i < length (h_peers h)"
  by (auto simp: header_peer_def Let_def split: if_split_asm)

lemma accept_datagram_keeps:
  assumes "host_ok h" "accept_datagram h = (r, h')"
  shows "host_ok h'" "length (h_peers h') = length (h_peers h)"
    "\<forall>sent i n. r = Some (sent, Some i, n) \<longrightarrow> i < length (h_peers h)"
proof -
  define hi where "hi = parse_header (h_receivedData h) (h_checksum h \<noteq> None)"
  obtain ok1 h1 where d: "decompress_datagram hi h = (ok1, h1)" by (meson surj_pair)
  define ok2 where "ok2 peer = fst (verify_checksum peer (hi_headerSize hi) h1)" for peer
  define h2 where "h2 peer = snd (verify_checksum peer (hi_headerSize hi) h1)" for peer
  have c: "verify_checksum peer (hi_headerSize hi) h1 = (ok2 peer, h2 peer)" for peer
    by (simp add: ok2_def h2_def)
  have h1: "host_ok h1" "h_peers h1 = h_peers h" and h2: "host_ok (h2 peer)" "h_peers (h2 peer) = h_peers h" for peer
    using decompress_peers [OF d] checksum_peers [OF c] assms(1) host_ok_same_peers by metis+
  have "host_ok (upd_peer i (\<lambda>p. p\<lparr>p_address := a, p_incomingDataTotal := p_incomingDataTotal p + n\<rparr>) (h2 peer))"
    if "i < length (h_peers h)" for i a n peer
    using that h2 by (intro upd_peer_keeps_same peer_frame_same) simp_all
  then show "host_ok h'" "length (h_peers h') = length (h_peers h)"
    "\<forall>sent i n. r = Some (sent, Some i, n) \<longrightarrow> i < length (h_peers h)"
    using assms(1) h1 h2 header_peer_index [of hi h] assms(2)
    unfolding accept_datagram_def Let_def hi_def [symmetric] d prod.case c
    by (auto split: if_split_asm option.split_asm)
qed

lemma handle_incoming_step:
  assumes "host_ok h"
  shows "\<exists>r event' h'. enet_protocol_handle_incoming_commands event h = Some (r, event', h') \<and>
    host_ok h' \<and> length (h_peers h') = length (h_peers h)"
proof -
  obtain r g where g: "accept_datagram h = (r, g)" by (meson surj_pair)
  note ok = accept_datagram_keeps [OF assms g]
  show ?thesis
  proof (cases r)
    case None
    then show ?thesis using ok g by (simp add: enet_protocol_handle_incoming_commands_def)
  next
    case (Some a)
    obtain sent peer n where a: "a = (sent, peer, n)" by (metis prod_cases3)
    have i: "\<forall>i. peer = Some i \<longrightarrow> i < length (h_peers g)" using ok(2,3) Some a by auto
    obtain event' h' where "command_loop (unat (h_receivedDataLength g)) sent peer n event g = Some (event', h')"
        "step_ok g h'"
      using command_loop_step [OF ok(1) i le_add2, of sent n event] by blast
    then show ?thesis
      using ok(2) g Some a by (auto simp: enet_protocol_handle_incoming_commands_def step_ok_def)
  qed
qed

lemma socket_receive_peers:
  "enet_socket_receive h = (n, h') \<Longrightarrow> h_peers h' = h_peers h \<and> host_frame h h'"
  by (auto simp: enet_socket_receive_def Let_def host_frame_def split: received.split_asm)

lemma receive_loop_step:
  assumes "host_ok h"
  shows "\<exists>r event' h'. receive_loop packets event h = Some (r, event', h') \<and>
    host_ok h' \<and> length (h_peers h') = length (h_peers h)"
  using assms
proof (induction packets arbitrary: event h)
  case 0
  then show ?case by (simp add: receive_loop.simps)
next
  case (Suc packets)
  obtain n g where s: "enet_socket_receive h = (n, g)" by (meson surj_pair)
  have g: "host_ok g" "h_peers g = h_peers h"
    using socket_receive_peers [OF s] Suc.prems host_ok_same_peers by metis+
  define g' where "g' = g\<lparr>h_receivedDataLength := of_int n,
      h_totalReceivedData := h_totalReceivedData g + of_int n,
      h_totalReceivedPackets := h_totalReceivedPackets g + 1\<rparr>"
  have g': "host_ok g'" "length (h_peers g') = length (h_peers h)"
    using g host_ok_same_peers [OF g(1), of g'] by (simp_all add: g'_def host_frame_def)
  obtain r e where re: "(case h_intercept g' of None \<Rightarrow> (0, event) | Some intercept \<Rightarrow> intercept (h_receivedAddress g')
      (take (unat (h_receivedDataLength g')) (h_receivedData g')) event) = (r, e)" by (meson surj_pair)
  obtain r' e' k where k: "enet_protocol_handle_incoming_commands e g' = Some (r', e', k)" "host_ok k"
      "length (h_peers k) = length (h_peers h)"
    using handle_incoming_step [OF g'(1), of e] g'(2) by auto
  have eq: "receive_loop (Suc packets) event h =
     (if n < 0 then Some (-1, event, g) else if n = 0 then Some (0, event, g)
      else if r = 1 then
        (case e of Some a \<Rightarrow> if ev_type a \<noteq> ENET_EVENT_TYPE_NONE then Some (1, e, g') else receive_loop packets e g'
         | None \<Rightarrow> receive_loop packets e g')
      else if r = -1 then Some (-1, e, g')
      else if r' = 1 then Some (1, e', k) else if r' = -1 then Some (-1, e', k)
      else receive_loop packets e' k)"
    by (simp add: receive_loop.simps s re k(1) Let_def flip: g'_def)
  show ?case
    unfolding eq using g g' k Suc.IH [OF g'(1), of e] Suc.IH [OF k(2), of e']
    by (auto split: option.split)
qed



definition same_state :: "ENetHost \<Rightarrow> ENetHost \<Rightarrow> bool" where
  "same_state h' h \<longleftrightarrow> h_peers h' = h_peers h \<and> h_heap h' = h_heap h \<and> h_dispatchQueue h' = h_dispatchQueue h \<and>
     h_connectedPeers h' = h_connectedPeers h"

lemma decompress_same: "decompress_datagram hi h = (ok, h') \<Longrightarrow> same_state h' h"
  by (auto simp: decompress_datagram_def Let_def same_state_def
      split: if_split_asm option.split_asm prod.split_asm)

lemma checksum_same: "verify_checksum peer n h = (ok, h') \<Longrightarrow> same_state h' h"
  by (auto simp: verify_checksum_def Let_def same_state_def split: option.split_asm)



end
