(* ===== verification/EnetFragments.thy ===== *)
theory EnetFragments
  imports EnetReceive
begin

text \<open>
  Two properties of receiving over whole histories (\<^verbatim>\<open>enet/protocol.cpp\<close>): the window of unsequenced
  packets lets each packet pass at most once, and fragments are put together whatever order they arrive
  in.  The theory models nothing of its own: it runs \<open>unsequenced_window\<close> and \<open>collect_fragment\<close>, the
  parts of the handlers in \<^theory_text>\<open>EnetReceive\<close>, over sequences of packets.
\<close>

section \<open>Unsequenced packets\<close>

text \<open>The window test over the distance of a group from the window's start.\<close>

definition group_block :: "u16 \<Rightarrow> u16" where
  "group_block g = g - g mod ENET_PEER_UNSEQUENCED_WINDOW_SIZE"

lemma unat_group_block: "unat (group_block g) = unat g - unat g mod 1024"
proof -
  have "g mod 1024 \<le> g" by (simp add: word_le_nat_alt unat_mod_distrib)
  then show ?thesis by (simp add: group_block_def unat_sub unat_mod_distrib)
qed

lemma unsequenced_window_eq:
  "unsequenced_window g p =
     (if ahead (p_incomingUnsequencedGroup p) g \<ge> 32768 then None
      else if group_block g \<noteq> p_incomingUnsequencedGroup p
      then Some (of_nat (unat g mod 1024), p\<lparr>p_incomingUnsequencedGroup := group_block g,
                                          p_unsequencedWindow := replicate 32 0\<rparr>)
      else if window_bit (of_nat (unat g mod 1024)) (p_unsequencedWindow p) then None
      else Some (of_nat (unat g mod 1024), p))"
proof -
  let ?b = "p_incomingUnsequencedGroup p"
  let ?e = "if (ucast g :: u32) < ucast ?b then ucast g + 0x10000 else ucast g :: u32"
  have gb: "unat g < 65536" "unat ?b < 65536" using unat_u16_less by auto
  have index: "(ucast g :: u32) mod 1024 = of_nat (unat g mod 1024)"
    by (simp add: word_unat_eq_iff unat_mod_distrib unsigned_of_nat take_bit_nat_eq_self)
  have e: "unat ?e = (if unat g < unat ?b then unat g + 65536 else unat g)"
    using gb by (simp add: word_less_nat_alt unat_word_ariths(1))
  have "unat (ucast ?b + 32768 :: u32) = unat ?b + 32768"
    using gb by (simp add: unat_word_ariths(1))
  then have far: "?e \<ge> ucast ?b + 32768 \<longleftrightarrow> ahead ?b g \<ge> 32768"
    using gb unfolding word_le_nat_alt e by (auto simp: ahead_eq word_le_nat_alt word_less_nat_alt)
  have low: "?e AND 0xFFFF = ucast g"
  proof -
    have "?e AND 0xFFFF = take_bit 16 ?e" by (simp add: take_bit_eq_mask mask_eq_exp_minus_1)
    moreover have "unat (take_bit 16 ?e) = unat g"
      unfolding unsigned_take_bit_eq e using gb by (simp add: take_bit_nat_def)
    ultimately show ?thesis by (simp add: word_unat_eq_iff)
  qed
  have block: "unat (ucast g - of_nat (unat g mod 1024) :: u32) = unat g - unat g mod 1024"
  proof -
    have "unat (of_nat (unat g mod 1024) :: u32) = unat g mod 1024"
      by (simp add: unsigned_of_nat take_bit_nat_eq_self)
    then show ?thesis by (simp add: unat_sub word_le_nat_alt)
  qed
  then have "ucast g - of_nat (unat g mod 1024) = (ucast (group_block g) :: u32)"
    by (simp add: word_unat_eq_iff unat_group_block)
  moreover have "(ucast (group_block g) = (ucast ?b :: u32)) \<longleftrightarrow> group_block g = ?b"
    by (simp add: word_unat_eq_iff)
  moreover have "ucast (ucast x :: u32) = x" for x :: u16
    by (rule bit_word_eqI) (simp add: bit_simps)
  ultimately show ?thesis
    unfolding unsequenced_window_def Let_def index low
    using far by simp
qed

definition aligned_window :: "ENetPeer \<Rightarrow> bool" where
  "aligned_window p \<longleftrightarrow> 1024 dvd unat (p_incomingUnsequencedGroup p) \<and> length (p_unsequencedWindow p) = 32"

lemma window_bit_eq: "window_bit n w \<longleftrightarrow> bit (w ! unat (n div 32)) (unat (n mod 32))"
  by (simp add: window_bit_def push_bit_of_1 and_exp_eq_0_iff_not_bit)

lemma window_bit_set:
  assumes "unat (n div 32) < length w"
  shows "window_bit m (set_window_bit n w) \<longleftrightarrow> m = n \<or> window_bit m w"
proof (cases "m div 32 = n div 32")
  case True
  have "m = n \<longleftrightarrow> unat (m mod 32) = unat (n mod 32)"
    using True by (metis div_mult_mod_eq word_unat_eq_iff)
  moreover have "unat (m mod 32) < 32" by (simp add: unat_mod_distrib)
  ultimately show ?thesis
    using assms True
    by (auto simp: window_bit_eq set_window_bit_def bit_or_iff push_bit_of_1 bit_exp_iff)
next
  case False
  then have "unat (m div 32) \<noteq> unat (n div 32)" "m \<noteq> n"
    by (metis word_unat_eq_iff, blast)
  then show ?thesis by (simp add: window_bit_eq set_window_bit_def)
qed

lemma window_bit_mono: "window_bit n w \<Longrightarrow> window_bit n (set_window_bit m w)"
  using window_bit_set [of m w n]
  by (cases "unat (m div 32) < length w") (auto simp: set_window_bit_def list_update_beyond)

text \<open>A peer after accepting unsequenced groups one after the other; the number is how far its window
  has moved in total.\<close>

definition accept_group :: "u32 \<Rightarrow> ENetPeer \<Rightarrow> ENetPeer" where
  "accept_group index p = p_unsequencedWindow_update (set_window_bit index) p"

inductive accepts_groups :: "nat \<Rightarrow> ENetPeer \<Rightarrow> ENetPeer \<Rightarrow> bool" where
  none: "accepts_groups 0 p p"
| accept: "accepts_groups n p p' \<Longrightarrow> unsequenced_window g p' = Some (index, q) \<Longrightarrow>
    accepts_groups (n + unat (p_incomingUnsequencedGroup q - p_incomingUnsequencedGroup p')) p (accept_group index q)"

lemma accept_group_fields [simp]:
  "p_incomingUnsequencedGroup (accept_group index q) = p_incomingUnsequencedGroup q"
  "p_unsequencedWindow (accept_group index q) = set_window_bit index (p_unsequencedWindow q)"
  by (simp_all add: accept_group_def)

lemma block_aligned: "1024 dvd unat (group_block g)"
  by (simp add: unat_group_block minus_mod_eq_mult_div)

lemma aligned_distance:
  assumes "1024 dvd unat (a :: u16)" "1024 dvd unat b"
  shows "1024 dvd unat (a - b)"
proof -
  have "1024 dvd unat a + 65536 - unat b"
    using assms by (intro dvd_diff_nat dvd_add) (simp_all add: dvd_def)
  then show ?thesis using assms by (auto simp: unat_sub_if' intro: dvd_diff_nat)
qed

lemma accepts_window:
  assumes "unsequenced_window g p = Some (index, q)" "aligned_window p"
  shows "aligned_window q" "index = of_nat (unat g mod 1024)" "p_incomingUnsequencedGroup q = group_block g"
    "p_incomingUnsequencedGroup q = p_incomingUnsequencedGroup p \<Longrightarrow> q = p"
  using assms block_aligned by (auto simp: unsequenced_window_eq aligned_window_def split: if_split_asm)

lemma accepts_groups_window:
  assumes "accepts_groups n p p'" "aligned_window p"
  shows "aligned_window p' \<and> p_incomingUnsequencedGroup p' = p_incomingUnsequencedGroup p + of_nat n \<and>
    1024 dvd n \<and> (n = 0 \<longrightarrow> window_bit i (p_unsequencedWindow p) \<longrightarrow> window_bit i (p_unsequencedWindow p'))"
  using assms
proof (induction rule: accepts_groups.induct)
  case (none p)
  then show ?case by simp
next
  case (accept n p p' g index q)
  note IH = accept.IH [OF accept.prems]
  note q = accepts_window [OF accept.hyps(2) conjunct1 [OF IH]]
  let ?d = "p_incomingUnsequencedGroup q - p_incomingUnsequencedGroup p'"
  have "1024 dvd unat ?d" using q(1) IH unfolding aligned_window_def by (blast intro: aligned_distance)
  moreover have "p_incomingUnsequencedGroup q = p_incomingUnsequencedGroup p + of_nat (n + unat ?d)"
    using IH by simp
  moreover have "q = p'" if "unat ?d = 0"
    using q(4) that by (metis eq_iff_diff_eq_0 unat_eq_zero)
  ultimately show ?case
    using IH q(1) window_bit_mono by (auto simp: aligned_window_def)
qed

text \<open>Property C16.  An unsequenced packet is accepted at most once: after its group was accepted, it is
  refused as long as later groups have moved the window by less than 32768, the distance up to which the
  code takes a group for a new one.\<close>

theorem unsequenced_no_replay:
  assumes "1024 dvd unat (p_incomingUnsequencedGroup p)" "length (p_unsequencedWindow p) = 32"
    and "unsequenced_window g p = Some (index, q)"
    and "accepts_groups n (accept_group index q) p'" "n < 32768"
  shows "unsequenced_window g p' = None"
proof -
  have "aligned_window p" using assms(1,2) by (simp add: aligned_window_def)
  note q = accepts_window [OF assms(3) this]
  have "aligned_window (accept_group index q)" using q(1) by (simp add: aligned_window_def)
  note p' = accepts_groups_window [OF assms(4) this, of index]
  have base: "p_incomingUnsequencedGroup p' = group_block g + of_nat n" using p' q(3) by simp
  show ?thesis
  proof (cases "n = 0")
    case True
    have "unat (index div 32) < 32"
      by (simp add: q(2) unat_div_distrib unsigned_of_nat take_bit_nat_eq_self)
    then have "window_bit index (p_unsequencedWindow p')"
      using p' True q(1) window_bit_set by (simp add: aligned_window_def)
    then show ?thesis using base True q(2) by (simp add: unsequenced_window_eq)
  next
    case False
    then have n: "1024 \<le> n" using p' by (auto dest: dvd_imp_le)
    have "(of_nat (unat g mod 1024) :: u16) = g mod 1024"
      by (simp add: word_unat_eq_iff unat_mod_distrib unsigned_of_nat take_bit_nat_eq_self)
    then have "g = group_block g + of_nat (unat g mod 1024)" by (simp add: group_block_def)
    then have "g - p_incomingUnsequencedGroup p' = of_nat (unat g mod 1024) - of_nat n"
      unfolding base by (metis add_diff_cancel_left)
    moreover have "unat (of_nat (unat g mod 1024) - of_nat n :: u16) = unat g mod 1024 + 65536 - n"
    proof -
      have "unat g mod 1024 < 1024" by simp
      then show ?thesis
        using n assms(5) by (simp add: unat_sub_if' unsigned_of_nat take_bit_nat_eq_self)
    qed
    ultimately have "ahead (p_incomingUnsequencedGroup p') g \<ge> 32768"
      using assms(5) by (simp add: ahead_def)
    then show ?thesis by (simp add: unsequenced_window_eq)
  qed
qed

theorem unsequenced_no_replay_witness:
  "\<exists>index q. unsequenced_window 5 (reset_fields 1400 zero_peer) = Some (index, q) \<and>
     unsequenced_window 5 (accept_group index q) = None"
proof -
  have "unsequenced_window 5 (reset_fields 1400 zero_peer) = Some (5, reset_fields 1400 zero_peer)"
    by (simp add: unsequenced_window_eq group_block_def reset_fields_def ahead_def window_bit_def)
  moreover have "unsequenced_window 5 (accept_group 5 (reset_fields 1400 zero_peer)) = None"
    by (rule unsequenced_no_replay [OF _ _ calculation none]) (simp_all add: reset_fields_def)
  ultimately show ?thesis by blast
qed

section \<open>Reassembly\<close>

text \<open>A fragment of \<open>data\<close>, cut into pieces of \<open>len\<close> bytes, arrives for the command \<open>ic\<close>; \<open>rest\<close> is
  what follows it in the datagram.\<close>

definition fragment_bytes :: "u8 list \<Rightarrow> nat \<Rightarrow> nat \<Rightarrow> u8 list" where
  "fragment_bytes data len n = take len (drop (n * len) data)"

fun receive_fragment ::
    "u8 list \<Rightarrow> nat \<Rightarrow> nat \<times> u8 list \<Rightarrow> ENetIncomingCommand \<times> heap \<Rightarrow> ENetIncomingCommand \<times> heap" where
  "receive_fragment data len (n, rest) (ic, hp) =
     (if fragment_seen (of_nat n) ic then (ic, hp)
      else collect_fragment (of_nat n) (of_nat (n * len)) (of_nat (length (fragment_bytes data len n)))
             (fragment_bytes data len n @ rest) ic hp)"

definition assembling :: "u8 list \<Rightarrow> nat \<Rightarrow> nat \<Rightarrow> nat \<Rightarrow> nat set \<Rightarrow> ENetIncomingCommand \<times> heap \<Rightarrow> bool" where
  "assembling data len pieces k S s \<longleftrightarrow>
     (case s of (ic, hp) \<Rightarrow> ic_packet ic = Some k \<and>
        S \<subseteq> {..<pieces} \<and> ic_fragmentsRemaining ic = of_nat (pieces - card S) \<and>
        (\<exists>w. ic_fragments ic = Some w \<and> pieces \<le> 32 * length w \<and> (\<forall>n<pieces. window_bit (of_nat n) w \<longleftrightarrow> n \<in> S)) \<and>
        (\<exists>p d. hp_packets hp k = Some p \<and> pk_data p = Some d \<and> pk_dataLength p = of_nat (length data) \<and>
           length d = length data \<and> (\<forall>x<length data. x div len \<in> S \<longrightarrow> d ! x = data ! x)))"

lemma overwrite_nth:
  assumes "off + length new \<le> length old"
  shows "length (overwrite off new old) = length old"
    "x < length old \<Longrightarrow>
     overwrite off new old ! x = (if off \<le> x \<and> x < off + length new then new ! (x - off) else old ! x)"
  using assms by (auto simp: overwrite_def nth_append)

lemma unat_of_nat_u32: "n < 4294967296 \<Longrightarrow> unat (of_nat n :: u32) = n"
  by (simp add: unsigned_of_nat take_bit_nat_eq_self)

lemma assembling_step:
  assumes inv: "assembling data len pieces k S s"
    and n: "n < pieces" "pieces \<le> ENET_PROTOCOL_MAXIMUM_FRAGMENT_COUNT" "n * len < length data"
    and len: "0 < len" "length data < 4294967296"
  shows "assembling data len pieces k (insert n S) (receive_fragment data len (n, rest) s)"
proof -
  obtain ic hp where s: "s = (ic, hp)" by (cases s)
  obtain w p d where ic: "ic_packet ic = Some k" "S \<subseteq> {..<pieces}"
      "ic_fragmentsRemaining ic = of_nat (pieces - card S)" "ic_fragments ic = Some w"
      "pieces \<le> 32 * length w" "\<forall>n<pieces. window_bit (of_nat n) w \<longleftrightarrow> n \<in> S"
    and p: "hp_packets hp k = Some p" "pk_data p = Some d" "pk_dataLength p = of_nat (length data)"
      "length d = length data" "\<forall>x<length data. x div len \<in> S \<longrightarrow> d ! x = data ! x"
    using inv unfolding assembling_def s by auto
  have seen: "fragment_seen (of_nat n) ic \<longleftrightarrow> n \<in> S" using ic n by (simp add: fragment_seen_def)
  show ?thesis
  proof (cases "n \<in> S")
    case True
    then show ?thesis using inv seen by (simp add: s insert_absorb)
  next
    case False
    let ?f = "fragment_bytes data len n"
    have f: "length ?f = min len (length data - n * len)" by (simp add: fragment_bytes_def)
    have small: "n * len + length ?f \<le> length data" using n(3) f by simp
    have fit: "\<not> ucast (of_nat (n * len) + of_nat (length ?f) :: u32) > (of_nat (length data) :: size_t)"
    proof -
      have "(of_nat (n * len) + of_nat (length ?f) :: u32) = of_nat (n * len + length ?f)" by simp
      moreover have "unat (of_nat (n * len + length ?f) :: u32) = n * len + length ?f"
        using small len(2) by (intro unat_of_nat_u32) linarith
      ultimately show ?thesis
        using small len(2)
        by (simp add: word_less_nat_alt not_less unsigned_of_nat take_bit_nat_eq_self del: of_nat_add)
    qed
    have nums: "unat (of_nat (length ?f) :: u32) = length ?f" "unat (of_nat (n * len) :: u32) = n * len"
      using small len(2) by (simp_all add: unat_of_nat_u32 del: of_nat_mult)
    have step: "receive_fragment data len (n, rest) s =
        (mark_fragment (of_nat n) ic, copy_fragment k (n * len) ?f hp)"
      using False seen fit p ic(1) nums
      by (simp add: s collect_fragment_def Let_def deref_packet_def del: of_nat_mult of_nat_add)
    have index: "unat (of_nat n div 32 :: u32) < length w"
      using n ic(5) by (simp add: unat_div_distrib unat_of_nat_u32)
    have eq: "(of_nat m :: u32) = of_nat n \<longleftrightarrow> m = n" if "m < pieces" for m
    proof -
      have "m < 4294967296" "n < 4294967296" using that n by simp_all
      then show ?thesis by (metis unat_of_nat_u32)
    qed
    have "window_bit (of_nat m) (set_window_bit (of_nat n) w) \<longleftrightarrow> m \<in> insert n S" if "m < pieces" for m
      using window_bit_set [OF index] eq [OF that] ic(6) that by auto
    moreover have "of_nat (pieces - card S) - 1 = (of_nat (pieces - card (insert n S)) :: u32)"
    proof -
      have "finite S" using ic(2) finite_subset by blast
      moreover have "card (insert n S) \<le> pieces"
        using ic(2) n(1) card_mono [of "{..<pieces}" "insert n S"] by simp
      ultimately show ?thesis using False by (simp add: of_nat_diff)
    qed
    moreover have "overwrite (n * len) ?f d ! x = data ! x"
      if "x < length data" "x div len \<in> insert n S" for x
    proof (cases "n * len \<le> x \<and> x < n * len + length ?f")
      case True
      then have "x - n * len < len" "n * len + (x - n * len) = x" "n * len \<le> length data"
        using f small by auto
      then have "?f ! (x - n * len) = data ! x" by (simp add: fragment_bytes_def)
      then show ?thesis using True that small p(4) by (simp add: overwrite_nth)
    next
      case out: False
      have "x div len \<noteq> n"
      proof
        assume "x div len = n"
        then have "n * len \<le> x" "x < n * len + len"
          using len(1) div_mult_mod_eq [of x len] mod_less_divisor [OF len(1), of x] by auto
        then show False using out that(1) f by auto
      qed
      then show ?thesis using out that small p(4,5) by (auto simp: overwrite_nth)
    qed
    ultimately show ?thesis
      using ic p n small
      unfolding step assembling_def
      by (auto simp: mark_fragment_def copy_fragment_def set_window_bit_def overwrite_nth)
  qed
qed

lemma assembling_fold:
  assumes "assembling data len pieces k S s" "\<forall>a\<in>set arrivals. fst a < pieces \<and> fst a * len < length data"
    and "pieces \<le> ENET_PROTOCOL_MAXIMUM_FRAGMENT_COUNT" "0 < len" "length data < 4294967296"
  shows "assembling data len pieces k (S \<union> fst ` set arrivals) (fold (receive_fragment data len) arrivals s)"
  using assms(1,2)
proof (induction arrivals arbitrary: S s)
  case (Cons a arrivals)
  have "assembling data len pieces k (insert (fst a) S) (receive_fragment data len (fst a, snd a) s)"
    using Cons.prems assms(3-5) by (intro assembling_step) auto
  then have "assembling data len pieces k (insert (fst a) S \<union> fst ` set arrivals)
      (fold (receive_fragment data len) arrivals (receive_fragment data len (fst a, snd a) s))"
    using Cons.prems(2) by (intro Cons.IH) auto
  then show ?case by simp
qed simp

text \<open>Property C17.  Fragments are put together whatever order they arrive in and however often: the
  command counts as complete exactly when every fragment has arrived, and then the packet holds exactly
  the bytes that were cut up.\<close>

theorem fragments_reassembled:
  assumes "0 < len" "data \<noteq> []" "length data < 4294967296"
    and "pieces = (length data + len - 1) div len" "pieces \<le> ENET_PROTOCOL_MAXIMUM_FRAGMENT_COUNT"
    and "ic_packet ic = Some k" "ic_fragmentsRemaining ic = of_nat pieces"
    and "ic_fragments ic = Some (replicate ((pieces + 31) div 32) 0)"
    and "hp_packets hp k = Some p" "pk_data p = Some d" "length d = length data"
    and "pk_dataLength p = of_nat (length data)"
    and "\<forall>a\<in>set arrivals. fst a < pieces"
    and "fold (receive_fragment data len) arrivals (ic, hp) = (ic', hp')"
  shows "(ic_fragmentsRemaining ic' \<le> 0 \<longleftrightarrow> fst ` set arrivals = {..<pieces}) \<and>
    (fst ` set arrivals = {..<pieces} \<longrightarrow> packet_bytes hp' k = data)"
proof -
  have lt: "n * len < length data \<longleftrightarrow> n < pieces" for n
  proof
    assume "n * len < length data"
    then have "n * len + len \<le> length data + len - 1" by simp
    then have "(n * len + len) div len \<le> pieces" unfolding assms(4) by (rule div_le_mono)
    then show "n < pieces" using assms(1) by simp
  next
    assume "n < pieces"
    then have "(n + 1) * len \<le> pieces * len" by (intro mult_le_mono1) simp
    also have "\<dots> \<le> length data + len - 1" unfolding assms(4) by (rule div_times_less_eq_dividend)
    finally show "n * len < length data" using assms(1) by simp
  qed
  have "window_bit (of_nat n) (replicate ((pieces + 31) div 32) 0) \<longleftrightarrow> n \<in> {}" if "n < pieces" for n
  proof -
    have "unat (of_nat n div 32 :: u32) < (pieces + 31) div 32"
      using that assms(5) by (simp add: unat_div_distrib unat_of_nat_u32 div_le_mono less_eq_div_iff_mult_less_eq Suc_le_eq)
    then show ?thesis by (simp add: window_bit_eq)
  qed
  then have "assembling data len pieces k {} (ic, hp)"
    using assms by (simp add: assembling_def)
  then have inv: "assembling data len pieces k (fst ` set arrivals) (ic', hp')"
    using assembling_fold [of data len pieces k "{}" "(ic, hp)" arrivals] assms(1,3,5,13,14) lt by simp
  let ?S = "fst ` set arrivals"
  have S: "?S \<subseteq> {..<pieces}" "finite ?S" using assms(13) by auto
  then have card: "card ?S \<le> pieces" "card ?S = pieces \<longleftrightarrow> ?S = {..<pieces}"
    using card_mono [OF finite_lessThan S(1)] card_subset_eq [OF finite_lessThan S(1)] by (simp, metis card_lessThan)
  have "ic_fragmentsRemaining ic' = of_nat (pieces - card ?S)" using inv by (simp add: assembling_def)
  moreover have "(of_nat m :: u32) = 0 \<longleftrightarrow> m = 0" if "m \<le> pieces" for m
  proof -
    have "unat (of_nat m :: u32) = m" using that assms(5) by (simp add: unat_of_nat_u32)
    then show ?thesis using unat_eq_zero [of "of_nat m :: u32"] by argo
  qed
  ultimately have "ic_fragmentsRemaining ic' = 0 \<longleftrightarrow> pieces - card ?S = 0"
    by (metis diff_le_self)
  then have "ic_fragmentsRemaining ic' \<le> 0 \<longleftrightarrow> ?S = {..<pieces}"
    using card by (metis diff_is_0_eq le_antisym order_refl word_le_0_iff)
  moreover have "packet_bytes hp' k = data" if "?S = {..<pieces}"
  proof -
    obtain p' d' where p': "hp_packets hp' k = Some p'" "pk_data p' = Some d'" "length d' = length data"
        "pk_dataLength p' = of_nat (length data)" "\<forall>x<length data. x div len \<in> ?S \<longrightarrow> d' ! x = data ! x"
      using inv unfolding assembling_def by auto
    have "x div len < pieces" if "x < length data" for x
      using lt [of "x div len"] that by (metis div_times_less_eq_dividend order_le_less_trans)
    then have "d' = data" using p' that by (auto intro: nth_equalityI)
    then show ?thesis
      using p' assms(3) by (simp add: packet_bytes_def deref_packet_def unsigned_of_nat take_bit_nat_eq_self)
  qed
  ultimately show ?thesis by blast
qed

theorem fragments_reassembled_witness:
  "\<exists>ic hp ic' hp'. fold (receive_fragment [1, 2, 3] 2) [(1, []), (0, [9])] (ic, hp) = (ic', hp') \<and>
     ic_fragmentsRemaining ic' \<le> 0 \<and> packet_bytes hp' 0 = [1, 2, 3]"
proof -
  define ic where "ic = \<lparr>ic_address = 0, ic_reliableSequenceNumber = 1, ic_unreliableSequenceNumber = 0,
    ic_command = zero_command, ic_fragmentCount = 2, ic_fragmentsRemaining = 2, ic_fragments = Some [0], ic_packet = Some 0\<rparr>"
  define p where "p = \<lparr>pk_referenceCount = 1, pk_flags = 1, pk_data = Some [0, 0, 0], pk_dataLength = 3,
    pk_freeCallback = None, pk_userData = 0\<rparr>"
  define hp where "hp = fresh_heap\<lparr>hp_packets := [0 \<mapsto> p]\<rparr>"
  obtain ic' hp' where e: "fold (receive_fragment [1, 2, 3] 2) [(1, []), (0, [9])] (ic, hp) = (ic', hp')"
    by (meson surj_pair)
  have "(ic_fragmentsRemaining ic' \<le> 0 \<longleftrightarrow> fst ` set [(1::nat, []), (0, [9 :: u8])] = {..<2}) \<and>
    (fst ` set [(1::nat, []), (0, [9 :: u8])] = {..<2} \<longrightarrow> packet_bytes hp' 0 = [1, 2, 3])"
    by (rule fragments_reassembled [OF _ _ _ _ _ _ _ _ _ _ _ _ _ e, where p = p and d = "[0, 0, 0]"])
       (simp_all add: ic_def p_def hp_def fresh_heap_def)
  moreover have "fst ` set [(1::nat, []), (0, [9 :: u8])] = {..<2}" by auto
  ultimately show ?thesis using e by blast
qed
end
