(* ===== verification/EnetCoder.thy ===== *)
theory EnetCoder
  imports EnetBase
begin

text \<open>
  The range coder of \<^verbatim>\<open>enet/compress.cpp\<close>, an adaptive coder that predicts a byte from the two before
  it.  Its memory is an array of 4096 symbols; a pointer to a symbol is its index, and an access behind
  the array is an outcome of the model.  \<^verbatim>\<open>left\<close>, \<^verbatim>\<open>right\<close> and \<^verbatim>\<open>symbols\<close> are distances
  from one symbol to another, 0 when there is none.

  A function returns \<open>None\<close> when the code does something undefined (an access out of bounds, a division
  by zero) or does not return.  Where the code can leave the whole (de)compressor with \<^verbatim>\<open>return 0\<close>,
  the result is an option again: \<open>Some None\<close> is that \<^verbatim>\<open>return 0\<close>.

  The content of the array before a call is arbitrary: it is allocated without being cleared and used
  again by the next call, so that every theorem is about an arbitrary initial array.  The parts that
  depend on \<^verbatim>\<open>ENET_CONTEXT_EXCLUSION\<close>, which the file undefines, are not compiled and not modelled.
\<close>

section \<open>Symbols\<close>

record ENetSymbol =
  sy_value :: u8
  sy_count :: u8
  sy_under :: u16
  sy_left :: u16
  sy_right :: u16
  sy_symbols :: u16
  sy_escapes :: u16
  sy_total :: u16
  sy_parent :: u16

abbreviation (input) ENET_RANGE_CODER_TOP :: u32 where "ENET_RANGE_CODER_TOP \<equiv> 0x1000000"
abbreviation (input) ENET_RANGE_CODER_BOTTOM :: "'a::numeral" where "ENET_RANGE_CODER_BOTTOM \<equiv> 0x10000"
abbreviation (input) ENET_CONTEXT_SYMBOL_DELTA :: "'a::numeral" where "ENET_CONTEXT_SYMBOL_DELTA \<equiv> 3"
abbreviation (input) ENET_CONTEXT_SYMBOL_MINIMUM :: "'a::one" where "ENET_CONTEXT_SYMBOL_MINIMUM \<equiv> 1"
abbreviation (input) ENET_CONTEXT_ESCAPE_MINIMUM :: "'a::one" where "ENET_CONTEXT_ESCAPE_MINIMUM \<equiv> 1"
abbreviation (input) ENET_SUBCONTEXT_ORDER :: nat where "ENET_SUBCONTEXT_ORDER \<equiv> 2"
abbreviation (input) ENET_SUBCONTEXT_SYMBOL_DELTA :: "'a::numeral" where "ENET_SUBCONTEXT_SYMBOL_DELTA \<equiv> 2"
abbreviation (input) ENET_SUBCONTEXT_ESCAPE_DELTA :: "'a::numeral" where "ENET_SUBCONTEXT_ESCAPE_DELTA \<equiv> 5"

text \<open>The array, and the number of its entries.\<close>

type_synonym symbols = "nat \<Rightarrow> ENetSymbol"

abbreviation (input) SYMBOLS :: nat where "SYMBOLS \<equiv> 4096"

text \<open>The coder's memory and the local variables both directions share.\<close>

record ENetRangeCoder =
  rc_symbols :: symbols
  rc_nextSymbol :: nat
  rc_predicted :: u16
  rc_order :: nat

definition ENET_SYMBOL_CREATE ::
    "u8 \<Rightarrow> u8 \<Rightarrow> symbols \<Rightarrow> nat \<Rightarrow> (nat \<times> symbols \<times> nat) option" where
  "ENET_SYMBOL_CREATE value cnt syms nextSymbol =
     (if nextSymbol \<ge> SYMBOLS then None
      else Some (nextSymbol,
        syms(nextSymbol := \<lparr>sy_value = value, sy_count = cnt, sy_under = ucast cnt, sy_left = 0,
          sy_right = 0, sy_symbols = 0, sy_escapes = 0, sy_total = 0, sy_parent = 0\<rparr>),
        nextSymbol + 1))"

definition ENET_CONTEXT_CREATE ::
    "u16 \<Rightarrow> u16 \<Rightarrow> symbols \<Rightarrow> nat \<Rightarrow> (nat \<times> symbols \<times> nat) option" where
  "ENET_CONTEXT_CREATE escapes minimum syms nextSymbol =
     (case ENET_SYMBOL_CREATE 0 0 syms nextSymbol of
        None \<Rightarrow> None
      | Some (context, syms, nextSymbol) \<Rightarrow>
          Some (context,
            syms(context := (syms context)\<lparr>sy_escapes := escapes, sy_total := escapes + 256 * minimum, sy_symbols := 0\<rparr>),
            nextSymbol))"

text \<open>The distance from one symbol to another.\<close>

definition symbol_distance :: "nat \<Rightarrow> nat \<Rightarrow> u16" where
  "symbol_distance to from = of_int (int to - int from)"

text \<open>Halving the counts of a tree.  The loop runs down the right branch, the recursion goes left.\<close>

function enet_symbol_rescale :: "nat \<Rightarrow> u16 \<Rightarrow> symbols \<Rightarrow> (u16 \<times> symbols) option" where
  "enet_symbol_rescale i tot syms =
     (if i \<ge> SYMBOLS then None
      else
        let cnt = sy_count (syms i) - drop_bit 1 (sy_count (syms i));
            syms = syms(i := (syms i)\<lparr>sy_count := cnt, sy_under := ucast cnt\<rparr>)
        in case (if sy_left (syms i) = 0 then Some (0, syms)
                 else enet_symbol_rescale (i + unat (sy_left (syms i))) 0 syms) of
             None \<Rightarrow> None
           | Some (und, syms) \<Rightarrow>
               let syms = syms(i := (syms i)\<lparr>sy_under := sy_under (syms i) + und\<rparr>);
                   tot = tot + sy_under (syms i)
               in if sy_right (syms i) = 0 then Some (tot, syms)
                  else enet_symbol_rescale (i + unat (sy_right (syms i))) tot syms)"
  by pat_completeness auto
termination
  by (relation "measure (\<lambda>(i, tot, syms). 4096 - i)")
     (auto simp: Let_def word_gt_0 unat_gt_0 intro!: diff_less_mono2)

definition ENET_CONTEXT_RESCALE :: "nat \<Rightarrow> u16 \<Rightarrow> symbols \<Rightarrow> symbols option" where
  "ENET_CONTEXT_RESCALE context minimum syms =
     (case (if sy_symbols (syms context) \<noteq> 0
            then enet_symbol_rescale (context + unat (sy_symbols (syms context))) 0 syms else Some (0, syms)) of
        None \<Rightarrow> None
      | Some (tot, syms) \<Rightarrow>
          let escapes = sy_escapes (syms context) - drop_bit 1 (sy_escapes (syms context))
          in Some (syms(context := (syms context)
                \<lparr>sy_escapes := escapes, sy_total := tot + (escapes + 256 * minimum)\<rparr>)))"

section \<open>Looking up a byte: ENET_CONTEXT_ENCODE\<close>

text \<open>The walk down the tree of a context.  On the way left the counts below a node grow by \<open>update\<close>.
  A byte that is not in the tree gets a symbol of its own.  The result is the symbol, what is below the
  byte and its count before the update, and the array.\<close>

function encode_walk ::
    "u8 \<Rightarrow> u8 \<Rightarrow> nat \<Rightarrow> u16 \<Rightarrow> u16 \<Rightarrow> symbols \<Rightarrow> nat \<Rightarrow> (nat \<times> u16 \<times> u16 \<times> symbols \<times> nat) option" where
  "encode_walk value update node und cnt syms nextSymbol =
     (if node \<ge> SYMBOLS then None
      else if value < sy_value (syms node) then
        let syms = syms(node := (syms node)\<lparr>sy_under := sy_under (syms node) + ucast update\<rparr>)
        in if sy_left (syms node) \<noteq> 0
           then encode_walk value update (node + unat (sy_left (syms node))) und cnt syms nextSymbol
           else (case ENET_SYMBOL_CREATE value update syms nextSymbol of
                   None \<Rightarrow> None
                 | Some (symbol, syms, nextSymbol) \<Rightarrow>
                     Some (symbol, und, cnt,
                       syms(node := (syms node)\<lparr>sy_left := symbol_distance symbol node\<rparr>), nextSymbol))
      else if value > sy_value (syms node) then
        let und = und + sy_under (syms node)
        in if sy_right (syms node) \<noteq> 0
           then encode_walk value update (node + unat (sy_right (syms node))) und cnt syms nextSymbol
           else (case ENET_SYMBOL_CREATE value update syms nextSymbol of
                   None \<Rightarrow> None
                 | Some (symbol, syms, nextSymbol) \<Rightarrow>
                     Some (symbol, und, cnt,
                       syms(node := (syms node)\<lparr>sy_right := symbol_distance symbol node\<rparr>), nextSymbol))
      else
        Some (node, und + (sy_under (syms node) - ucast (sy_count (syms node))),
          cnt + ucast (sy_count (syms node)),
          syms(node := (syms node)\<lparr>sy_under := sy_under (syms node) + ucast update,
                                  sy_count := sy_count (syms node) + update\<rparr>), nextSymbol))"
  by pat_completeness auto
termination
  by (relation "measure (\<lambda>(value, update, node, und, cnt, syms, nextSymbol). 4096 - node)")
     (auto simp: Let_def word_gt_0 unat_gt_0 intro!: diff_less_mono2)

definition ENET_CONTEXT_ENCODE ::
    "nat \<Rightarrow> u8 \<Rightarrow> u8 \<Rightarrow> u16 \<Rightarrow> symbols \<Rightarrow> nat \<Rightarrow> (nat \<times> u16 \<times> u16 \<times> symbols \<times> nat) option" where
  "ENET_CONTEXT_ENCODE context value update minimum syms nextSymbol =
     (if context \<ge> SYMBOLS then None
      else
        let und = ucast value * minimum; cnt = minimum
        in if sy_symbols (syms context) = 0 then
             (case ENET_SYMBOL_CREATE value update syms nextSymbol of
                None \<Rightarrow> None
              | Some (symbol, syms, nextSymbol) \<Rightarrow>
                  Some (symbol, und, cnt,
                    syms(context := (syms context)\<lparr>sy_symbols := symbol_distance symbol context\<rparr>), nextSymbol))
           else encode_walk value update (context + unat (sy_symbols (syms context))) und cnt syms nextSymbol)"

section \<open>The encoder's arithmetic\<close>

record encoder =
  encodeLow :: u32
  encodeRange :: u32
  outData :: "u8 list"

text \<open>\<^verbatim>\<open>ENET_RANGE_CODER_OUTPUT\<close>: the outer function returns 0 when the output is full.\<close>

definition ENET_RANGE_CODER_OUTPUT :: "nat \<Rightarrow> u8 \<Rightarrow> u8 list \<Rightarrow> u8 list option" where
  "ENET_RANGE_CODER_OUTPUT outLimit value out =
     (if length out \<ge> outLimit then None else Some (out @ [value]))"

text \<open>The loop of \<^verbatim>\<open>ENET_RANGE_CODER_ENCODE\<close>: it emits the leading byte while low end and high end
  agree in it, and narrows a range that has become too small.\<close>

definition narrow_range :: "u32 \<Rightarrow> u32 \<Rightarrow> u32" where
  "narrow_range low rng =
     (if low XOR (low + rng) \<ge> ENET_RANGE_CODER_TOP
      then - low AND (ENET_RANGE_CODER_BOTTOM - 1) else rng)"

definition range_settled :: "u32 \<Rightarrow> u32 \<Rightarrow> bool" where
  "range_settled low rng \<longleftrightarrow>
     low XOR (low + rng) \<ge> ENET_RANGE_CODER_TOP \<and> rng \<ge> ENET_RANGE_CODER_BOTTOM"

partial_function (option) encode_normalize :: "nat \<Rightarrow> u32 \<Rightarrow> u32 \<Rightarrow> u8 list \<Rightarrow> encoder option option" where
  "encode_normalize outLimit low rng out =
     (if range_settled low rng
      then Some (Some \<lparr>encodeLow = low, encodeRange = rng, outData = out\<rparr>)
      else case ENET_RANGE_CODER_OUTPUT outLimit (ucast (drop_bit 24 low)) out of
        None \<Rightarrow> Some None
      | Some out \<Rightarrow> encode_normalize outLimit (push_bit 8 low) (push_bit 8 (narrow_range low rng)) out)"

definition ENET_RANGE_CODER_ENCODE ::
    "nat \<Rightarrow> u32 \<Rightarrow> u16 \<Rightarrow> u16 \<Rightarrow> encoder \<Rightarrow> encoder option option" where
  "ENET_RANGE_CODER_ENCODE outLimit und cnt tot e =
     (if tot = 0 then None
      else
        let rng = encodeRange e div ucast tot
        in encode_normalize outLimit (encodeLow e + und * rng) (rng * ucast cnt) (outData e))"

partial_function (option) ENET_RANGE_CODER_FLUSH :: "nat \<Rightarrow> u32 \<Rightarrow> u8 list \<Rightarrow> u8 list option option" where
  "ENET_RANGE_CODER_FLUSH outLimit low out =
     (if low = 0 then Some (Some out)
      else case ENET_RANGE_CODER_OUTPUT outLimit (ucast (drop_bit 24 low)) out of
        None \<Rightarrow> Some None
      | Some out \<Rightarrow> ENET_RANGE_CODER_FLUSH outLimit (push_bit 8 low) out)"

section \<open>Compressing\<close>

text \<open>\<^verbatim>\<open>* parent = symbol\<close>, where \<^verbatim>\<open>parent\<close> points to the variable \<^verbatim>\<open>predicted\<close> (\<open>None\<close>) or into a
  symbol.\<close>

definition set_parent :: "nat option \<Rightarrow> nat \<Rightarrow> ENetRangeCoder \<Rightarrow> ENetRangeCoder" where
  "set_parent parent symbol rc =
     (case parent of
        None \<Rightarrow> rc\<lparr>rc_predicted := of_nat symbol\<rparr>
      | Some s \<Rightarrow> rc\<lparr>rc_symbols := (rc_symbols rc)(s := (rc_symbols rc s)\<lparr>sy_parent := of_nat symbol\<rparr>)\<rparr>)"

text \<open>What follows the coding of a symbol: the total grows, and a context that has become too large is
  halved.\<close>

definition grow_context :: "nat \<Rightarrow> u16 \<Rightarrow> u16 \<Rightarrow> bool \<Rightarrow> symbols \<Rightarrow> symbols option" where
  "grow_context context delta minimum large syms =
     (let syms = syms(context := (syms context)\<lparr>sy_total := sy_total (syms context) + delta\<rparr>)
      in if large \<or> sy_total (syms context) > ENET_RANGE_CODER_BOTTOM - 0x100
         then ENET_CONTEXT_RESCALE context minimum syms else Some syms)"

definition escape_context :: "nat \<Rightarrow> symbols \<Rightarrow> symbols" where
  "escape_context context syms =
     syms(context := (syms context)\<lparr>sy_escapes := sy_escapes (syms context) + ENET_SUBCONTEXT_ESCAPE_DELTA,
                                   sy_total := sy_total (syms context) + ENET_SUBCONTEXT_ESCAPE_DELTA\<rparr>)"

text \<open>One turn of the loop over the contexts.  The first component of the result says whether the byte
  was found, the second is the symbol.\<close>

definition compress_subcontext ::
    "nat \<Rightarrow> u8 \<Rightarrow> nat \<Rightarrow> nat option \<Rightarrow> ENetRangeCoder \<times> encoder \<Rightarrow> (bool \<times> nat \<times> ENetRangeCoder \<times> encoder) option option" where
  "compress_subcontext outLimit value subcontext parent = (\<lambda>(rc, e).
     (case ENET_CONTEXT_ENCODE subcontext value ENET_SUBCONTEXT_SYMBOL_DELTA 0 (rc_symbols rc) (rc_nextSymbol rc) of
        None \<Rightarrow> None
      | Some (symbol, und, cnt, syms, nextSymbol) \<Rightarrow>
          let rc = set_parent parent symbol (rc\<lparr>rc_symbols := syms, rc_nextSymbol := nextSymbol\<rparr>);
              escapes = sy_escapes (rc_symbols rc subcontext);
              tot = sy_total (rc_symbols rc subcontext)
          in case (if cnt > 0 then ENET_RANGE_CODER_ENCODE outLimit (ucast escapes + ucast und) cnt tot e
                   else if escapes > 0 \<and> escapes < tot then ENET_RANGE_CODER_ENCODE outLimit 0 escapes tot e
                   else Some (Some e)) of
               None \<Rightarrow> None
             | Some None \<Rightarrow> Some None
             | Some (Some e) \<Rightarrow>
                 let syms = (if cnt > 0 then rc_symbols rc else escape_context subcontext (rc_symbols rc))
                 in case grow_context subcontext ENET_SUBCONTEXT_SYMBOL_DELTA 0
                           (cnt > 0xFF - 2 * ENET_SUBCONTEXT_SYMBOL_DELTA) syms of
                      None \<Rightarrow> None
                    | Some syms \<Rightarrow> Some (Some (cnt > 0, symbol, rc\<lparr>rc_symbols := syms\<rparr>, e))))"

text \<open>The root is the first symbol of the array.\<close>

abbreviation (input) root :: nat where "root \<equiv> 0"

definition compress_root ::
    "nat \<Rightarrow> u8 \<Rightarrow> nat option \<Rightarrow> ENetRangeCoder \<times> encoder \<Rightarrow> (ENetRangeCoder \<times> encoder) option option" where
  "compress_root outLimit value parent = (\<lambda>(rc, e).
     (case ENET_CONTEXT_ENCODE root value ENET_CONTEXT_SYMBOL_DELTA ENET_CONTEXT_SYMBOL_MINIMUM
             (rc_symbols rc) (rc_nextSymbol rc) of
        None \<Rightarrow> None
      | Some (symbol, und, cnt, syms, nextSymbol) \<Rightarrow>
          let rc = set_parent parent symbol (rc\<lparr>rc_symbols := syms, rc_nextSymbol := nextSymbol\<rparr>)
          in case ENET_RANGE_CODER_ENCODE outLimit (ucast (sy_escapes (rc_symbols rc root)) + ucast und) cnt
                    (sy_total (rc_symbols rc root)) e of
               None \<Rightarrow> None
             | Some None \<Rightarrow> Some None
             | Some (Some e) \<Rightarrow>
                 (case grow_context root ENET_CONTEXT_SYMBOL_DELTA ENET_CONTEXT_SYMBOL_MINIMUM
                         (cnt > 0xFF - 2 * ENET_CONTEXT_SYMBOL_DELTA + ENET_CONTEXT_SYMBOL_MINIMUM)
                         (rc_symbols rc) of
                    None \<Rightarrow> None
                  | Some syms \<Rightarrow> Some (Some (rc\<lparr>rc_symbols := syms\<rparr>, e)))))"

partial_function (option) compress_contexts ::
    "nat \<Rightarrow> u8 \<Rightarrow> nat \<Rightarrow> nat option \<Rightarrow> ENetRangeCoder \<times> encoder \<Rightarrow> (ENetRangeCoder \<times> encoder) option option" where
  "compress_contexts outLimit value subcontext parent st =
     (if subcontext = root then compress_root outLimit value parent st
      else case compress_subcontext outLimit value subcontext parent st of
        None \<Rightarrow> None
      | Some None \<Rightarrow> Some None
      | Some (Some (found, symbol, rc, e)) \<Rightarrow>
          if found then Some (Some (rc, e))
          else compress_contexts outLimit value (unat (sy_parent (rc_symbols rc subcontext))) (Some symbol) (rc, e))"

text \<open>The end of a turn of the main loop: the next context, and a new start when the array is almost
  used up.\<close>

definition next_context :: "ENetRangeCoder \<Rightarrow> ENetRangeCoder option" where
  "next_context rc =
     (if rc_order rc \<ge> ENET_SUBCONTEXT_ORDER
      then if unat (rc_predicted rc) \<ge> SYMBOLS then None
           else Some (rc\<lparr>rc_predicted := sy_parent (rc_symbols rc (unat (rc_predicted rc)))\<rparr>)
      else Some (rc\<lparr>rc_order := rc_order rc + 1\<rparr>))"

definition create_root :: "symbols \<Rightarrow> ENetRangeCoder option" where
  "create_root syms =
     (case ENET_CONTEXT_CREATE ENET_CONTEXT_ESCAPE_MINIMUM ENET_CONTEXT_SYMBOL_MINIMUM syms 0 of
        None \<Rightarrow> None
      | Some (_, syms, nextSymbol) \<Rightarrow>
          Some \<lparr>rc_symbols = syms, rc_nextSymbol = nextSymbol, rc_predicted = 0, rc_order = 0\<rparr>)"

definition ENET_RANGE_CODER_FREE_SYMBOLS :: "ENetRangeCoder \<Rightarrow> ENetRangeCoder option" where
  "ENET_RANGE_CODER_FREE_SYMBOLS rc =
     (if rc_nextSymbol rc \<ge> SYMBOLS - ENET_SUBCONTEXT_ORDER then create_root (rc_symbols rc) else Some rc)"

definition compress_byte ::
    "nat \<Rightarrow> u8 \<Rightarrow> ENetRangeCoder \<times> encoder \<Rightarrow> (ENetRangeCoder \<times> encoder) option option" where
  "compress_byte outLimit value = (\<lambda>(rc, e).
     (case compress_contexts outLimit value (unat (rc_predicted rc)) None (rc, e) of
        None \<Rightarrow> None
      | Some None \<Rightarrow> Some None
      | Some (Some (rc, e)) \<Rightarrow>
          (case Option.bind (next_context rc) ENET_RANGE_CODER_FREE_SYMBOLS of
             None \<Rightarrow> None
           | Some rc \<Rightarrow> Some (Some (rc, e)))))"

text \<open>The main loop over the bytes of the buffers.  When a buffer is used up, the next byte is read from
  the following one, without asking whether that one is empty.\<close>

fun compress_loop ::
    "nat \<Rightarrow> u8 list \<Rightarrow> u8 list list \<Rightarrow> ENetRangeCoder \<times> encoder \<Rightarrow> (ENetRangeCoder \<times> encoder) option option" where
  "compress_loop outLimit [] [] st = Some (Some st)"
| "compress_loop outLimit [] ([] # inBuffers) st = None"
| "compress_loop outLimit [] ((value # inData) # inBuffers) st =
     (case compress_byte outLimit value st of
        None \<Rightarrow> None
      | Some None \<Rightarrow> Some None
      | Some (Some st) \<Rightarrow> compress_loop outLimit inData inBuffers st)"
| "compress_loop outLimit (value # inData) inBuffers st =
     (case compress_byte outLimit value st of
        None \<Rightarrow> None
      | Some None \<Rightarrow> Some None
      | Some (Some st) \<Rightarrow> compress_loop outLimit inData inBuffers st)"

text \<open>The result is what has been written to \<^verbatim>\<open>outData\<close>; the function returns its length, so that the
  empty list is its \<^verbatim>\<open>return 0\<close>.\<close>

definition enet_range_coder_compress ::
    "symbols option \<Rightarrow> u8 list list \<Rightarrow> nat \<Rightarrow> nat \<Rightarrow> u8 list option" where
  "enet_range_coder_compress rangeCoder inBuffers inLimit outLimit =
     (case (rangeCoder, inBuffers) of
        (Some syms, inData # inBuffers) \<Rightarrow>
          if inLimit = 0 then Some []
          else (case create_root syms of
                  None \<Rightarrow> None
                | Some rc \<Rightarrow>
                    (case compress_loop outLimit inData inBuffers
                            (rc, \<lparr>encodeLow = 0, encodeRange = - 1, outData = []\<rparr>) of
                       None \<Rightarrow> None
                     | Some None \<Rightarrow> Some []
                     | Some (Some (_, e)) \<Rightarrow>
                         (case ENET_RANGE_CODER_FLUSH outLimit (encodeLow e) (outData e) of
                            None \<Rightarrow> None
                          | Some None \<Rightarrow> Some []
                          | Some (Some out) \<Rightarrow> Some out)))
      | _ \<Rightarrow> Some [])"

section \<open>The decoder's arithmetic\<close>

record decoder =
  decodeLow :: u32
  decodeCode :: u32
  decodeRange :: u32
  inData :: "u8 list"

text \<open>The next byte of the input, nothing when the input is used up.\<close>

definition next_byte :: "u8 list \<Rightarrow> u32" where
  "next_byte bs = (case bs of [] \<Rightarrow> 0 | b # _ \<Rightarrow> ucast b)"

definition ENET_RANGE_CODER_SEED :: "u8 list \<Rightarrow> u32 \<times> u8 list" where
  "ENET_RANGE_CODER_SEED bs =
     (push_bit 24 (next_byte bs) OR push_bit 16 (next_byte (tl bs)) OR push_bit 8 (next_byte (tl (tl bs)))
        OR next_byte (tl (tl (tl bs))), drop 4 bs)"

text \<open>\<^verbatim>\<open>ENET_RANGE_CODER_READ\<close> narrows the range as a side effect.\<close>

definition ENET_RANGE_CODER_READ :: "u16 \<Rightarrow> decoder \<Rightarrow> (u16 \<times> decoder) option" where
  "ENET_RANGE_CODER_READ tot d =
     (if tot = 0 \<or> decodeRange d div ucast tot = 0 then None
      else
        let rng = decodeRange d div ucast tot
        in Some (ucast ((decodeCode d - decodeLow d) div rng), d\<lparr>decodeRange := rng\<rparr>))"

partial_function (option) decode_normalize :: "u32 \<Rightarrow> u32 \<Rightarrow> u32 \<Rightarrow> u8 list \<Rightarrow> decoder option" where
  "decode_normalize low code rng bs =
     (if range_settled low rng
      then Some \<lparr>decodeLow = low, decodeCode = code, decodeRange = rng, inData = bs\<rparr>
      else decode_normalize (push_bit 8 low) (push_bit 8 code OR next_byte bs)
             (push_bit 8 (narrow_range low rng)) (tl bs))"

definition ENET_RANGE_CODER_DECODE :: "u32 \<Rightarrow> u16 \<Rightarrow> decoder \<Rightarrow> decoder option" where
  "ENET_RANGE_CODER_DECODE und cnt d =
     decode_normalize (decodeLow d + und * decodeRange d) (decodeCode d) (decodeRange d * ucast cnt) (inData d)"

section \<open>Finding a byte: ENET_CONTEXT_DECODE\<close>

text \<open>The macro is used with two sets of leaves.  In a subcontext (\<^verbatim>\<open>ENET_CONTEXT_TRY_DECODE\<close>) a code
  that leads nowhere ends the decompression with \<^verbatim>\<open>return 0\<close>; in the root
  (\<^verbatim>\<open>ENET_CONTEXT_ROOT_DECODE\<close>) it names a byte that has no symbol yet.  The parameter \<open>create\<close> tells
  them apart.  The comparisons and differences are those of C's \<^verbatim>\<open>int\<close>.\<close>

function decode_walk ::
    "bool \<Rightarrow> u16 \<Rightarrow> u8 \<Rightarrow> u16 \<Rightarrow> nat \<Rightarrow> u16 \<Rightarrow> symbols \<Rightarrow> nat \<Rightarrow>
     (nat \<times> u8 \<times> u16 \<times> u16 \<times> symbols \<times> nat) option option" where
  "decode_walk create code update minimum node und syms nextSymbol =
     (if node \<ge> SYMBOLS then None
      else
        let node_after = und + sy_under (syms node) + (ucast (sy_value (syms node)) + 1) * minimum;
            node_before = ucast (sy_count (syms node)) + minimum
        in if code \<ge> node_after then
             if sy_right (syms node) \<noteq> 0
             then decode_walk create code update minimum (node + unat (sy_right (syms node)))
                    (und + sy_under (syms node)) syms nextSymbol
             else if \<not> create then Some None
             else
               let value = of_int (uint (sy_value (syms node)) + 1 + (uint code - uint node_after) div uint minimum)
               in (case ENET_SYMBOL_CREATE value update syms nextSymbol of
                     None \<Rightarrow> None
                   | Some (symbol, syms, nextSymbol) \<Rightarrow>
                       Some (Some (symbol, value, of_int (uint code - (uint code - uint node_after) mod uint minimum),
                         minimum, syms(node := (syms node)\<lparr>sy_right := symbol_distance symbol node\<rparr>), nextSymbol)))
           else if uint code < uint node_after - uint node_before then
             let syms = syms(node := (syms node)\<lparr>sy_under := sy_under (syms node) + ucast update\<rparr>)
             in if sy_left (syms node) \<noteq> 0
                then decode_walk create code update minimum (node + unat (sy_left (syms node))) und syms nextSymbol
                else if \<not> create then Some None
                else
                  let value = of_int (uint (sy_value (syms node)) - 1 -
                                (uint node_after - uint node_before - uint code - 1) div uint minimum)
                  in (case ENET_SYMBOL_CREATE value update syms nextSymbol of
                        None \<Rightarrow> None
                      | Some (symbol, syms, nextSymbol) \<Rightarrow>
                          Some (Some (symbol, value,
                            of_int (uint code - (uint node_after - uint node_before - uint code - 1) mod uint minimum),
                            minimum, syms(node := (syms node)\<lparr>sy_left := symbol_distance symbol node\<rparr>), nextSymbol)))
           else
             Some (Some (node, sy_value (syms node), node_after - node_before,
               minimum + ucast (sy_count (syms node)),
               syms(node := (syms node)\<lparr>sy_under := sy_under (syms node) + ucast update,
                                       sy_count := sy_count (syms node) + update\<rparr>), nextSymbol)))"
  by pat_completeness auto
termination
  by (relation "measure (\<lambda>(create, code, update, minimum, node, und, syms, nextSymbol). 4096 - node)")
     (auto simp: Let_def word_gt_0 unat_gt_0 intro!: diff_less_mono2)

definition ENET_CONTEXT_DECODE ::
    "bool \<Rightarrow> nat \<Rightarrow> u16 \<Rightarrow> u8 \<Rightarrow> u16 \<Rightarrow> symbols \<Rightarrow> nat \<Rightarrow>
     (nat \<times> u8 \<times> u16 \<times> u16 \<times> symbols \<times> nat) option option" where
  "ENET_CONTEXT_DECODE create context code update minimum syms nextSymbol =
     (if context \<ge> SYMBOLS then None
      else if sy_symbols (syms context) = 0 then
        if \<not> create then Some None
        else
          let value = of_int (uint code div uint minimum)
          in (case ENET_SYMBOL_CREATE value update syms nextSymbol of
                None \<Rightarrow> None
              | Some (symbol, syms, nextSymbol) \<Rightarrow>
                  Some (Some (symbol, value, of_int (uint code - uint code mod uint minimum), minimum,
                    syms(context := (syms context)\<lparr>sy_symbols := symbol_distance symbol context\<rparr>), nextSymbol)))
      else decode_walk create code update minimum (context + unat (sy_symbols (syms context))) 0 syms nextSymbol)"

section \<open>Decompressing\<close>

text \<open>Decoding a byte in a context whose code is not an escape: the symbol, the byte and the new state.\<close>

definition decode_symbol ::
    "bool \<Rightarrow> nat \<Rightarrow> u16 \<Rightarrow> u8 \<Rightarrow> u16 \<Rightarrow> u16 \<Rightarrow> ENetRangeCoder \<times> decoder \<Rightarrow>
     (nat \<times> u8 \<times> ENetRangeCoder \<times> decoder) option option" where
  "decode_symbol create context code delta minimum limit = (\<lambda>(rc, d).
     (case ENET_CONTEXT_DECODE create context (code - sy_escapes (rc_symbols rc context)) delta minimum
             (rc_symbols rc) (rc_nextSymbol rc) of
        None \<Rightarrow> None
      | Some None \<Rightarrow> Some None
      | Some (Some (symbol, value, und, cnt, syms, nextSymbol)) \<Rightarrow>
          (case ENET_RANGE_CODER_DECODE (ucast (sy_escapes (syms context)) + ucast und) cnt d of
             None \<Rightarrow> None
           | Some d \<Rightarrow>
               (case grow_context context (ucast delta) minimum (cnt > limit) syms of
                  None \<Rightarrow> None
                | Some syms \<Rightarrow>
                    Some (Some (symbol, value, rc\<lparr>rc_symbols := syms, rc_nextSymbol := nextSymbol\<rparr>, d))))))"

text \<open>One turn of the loop over the contexts: \<open>Inl\<close> goes on with the next context, \<open>Inr\<close> has found the
  byte.\<close>

definition decompress_subcontext ::
    "nat \<Rightarrow> ENetRangeCoder \<times> decoder \<Rightarrow> (decoder + (nat \<times> u8 \<times> ENetRangeCoder \<times> decoder)) option option" where
  "decompress_subcontext subcontext = (\<lambda>(rc, d).
     (if subcontext \<ge> SYMBOLS then None
      else
        let escapes = sy_escapes (rc_symbols rc subcontext); tot = sy_total (rc_symbols rc subcontext)
        in if escapes = 0 \<or> escapes \<ge> tot then Some (Some (Inl d))
           else (case ENET_RANGE_CODER_READ tot d of
                   None \<Rightarrow> None
                 | Some (code, d) \<Rightarrow>
                     if code < escapes
                     then (case ENET_RANGE_CODER_DECODE 0 escapes d of
                             None \<Rightarrow> None
                           | Some d \<Rightarrow> Some (Some (Inl d)))
                     else (case decode_symbol False subcontext code ENET_SUBCONTEXT_SYMBOL_DELTA 0
                                  (0xFF - 2 * ENET_SUBCONTEXT_SYMBOL_DELTA) (rc, d) of
                             None \<Rightarrow> None
                           | Some None \<Rightarrow> Some None
                           | Some (Some r) \<Rightarrow> Some (Some (Inr r))))))"

text \<open>The root: \<open>Inl\<close> is its escape, the end of the data.\<close>

definition decompress_root ::
    "ENetRangeCoder \<times> decoder \<Rightarrow> (decoder + (nat \<times> u8 \<times> ENetRangeCoder \<times> decoder)) option option" where
  "decompress_root = (\<lambda>(rc, d).
     (case ENET_RANGE_CODER_READ (sy_total (rc_symbols rc root)) d of
        None \<Rightarrow> None
      | Some (code, d) \<Rightarrow>
          if code < sy_escapes (rc_symbols rc root)
          then (case ENET_RANGE_CODER_DECODE 0 (sy_escapes (rc_symbols rc root)) d of
                  None \<Rightarrow> None
                | Some d \<Rightarrow> Some (Some (Inl d)))
          else (case decode_symbol True root code ENET_CONTEXT_SYMBOL_DELTA ENET_CONTEXT_SYMBOL_MINIMUM
                       (0xFF - 2 * ENET_CONTEXT_SYMBOL_DELTA + ENET_CONTEXT_SYMBOL_MINIMUM) (rc, d) of
                  None \<Rightarrow> None
                | Some None \<Rightarrow> Some None
                | Some (Some r) \<Rightarrow> Some (Some (Inr r)))))"

text \<open>The loop over the contexts, with the context in which the byte has been found.\<close>

partial_function (option) decompress_contexts ::
    "nat \<Rightarrow> ENetRangeCoder \<times> decoder \<Rightarrow> (decoder + (nat \<times> nat \<times> u8 \<times> ENetRangeCoder \<times> decoder)) option option" where
  "decompress_contexts subcontext st =
     (if subcontext = root then
        (case decompress_root st of
           None \<Rightarrow> None
         | Some None \<Rightarrow> Some None
         | Some (Some (Inl d)) \<Rightarrow> Some (Some (Inl d))
         | Some (Some (Inr r)) \<Rightarrow> Some (Some (Inr (root, r))))
      else case decompress_subcontext subcontext st of
        None \<Rightarrow> None
      | Some None \<Rightarrow> Some None
      | Some (Some (Inl d)) \<Rightarrow>
          decompress_contexts (unat (sy_parent (rc_symbols (fst st) subcontext))) (fst st, d)
      | Some (Some (Inr r)) \<Rightarrow> Some (Some (Inr (subcontext, r))))"

text \<open>The contexts before the one in which the byte has been found learn it too.\<close>

definition patch_context ::
    "u8 \<Rightarrow> nat \<Rightarrow> nat option \<Rightarrow> ENetRangeCoder \<Rightarrow> (nat \<times> ENetRangeCoder) option" where
  "patch_context value patch parent rc =
     (case ENET_CONTEXT_ENCODE patch value ENET_SUBCONTEXT_SYMBOL_DELTA 0 (rc_symbols rc) (rc_nextSymbol rc) of
        None \<Rightarrow> None
      | Some (symbol, und, cnt, syms, nextSymbol) \<Rightarrow>
          let rc = set_parent parent symbol (rc\<lparr>rc_symbols := syms, rc_nextSymbol := nextSymbol\<rparr>);
              syms = (if cnt = 0 then escape_context patch (rc_symbols rc) else rc_symbols rc)
          in case grow_context patch ENET_SUBCONTEXT_SYMBOL_DELTA 0
                    (cnt > 0xFF - 2 * ENET_SUBCONTEXT_SYMBOL_DELTA) syms of
               None \<Rightarrow> None
             | Some syms \<Rightarrow> Some (symbol, rc\<lparr>rc_symbols := syms\<rparr>))"

partial_function (option) patch_contexts ::
    "u8 \<Rightarrow> nat \<Rightarrow> nat \<Rightarrow> nat \<Rightarrow> nat option \<Rightarrow> ENetRangeCoder \<Rightarrow> ENetRangeCoder option" where
  "patch_contexts value subcontext bottom patch parent rc =
     (if patch = subcontext then Some (set_parent parent bottom rc)
      else case patch_context value patch parent rc of
        None \<Rightarrow> None
      | Some (symbol, rc) \<Rightarrow>
          patch_contexts value subcontext bottom (unat (sy_parent (rc_symbols rc patch))) (Some symbol) rc)"

text \<open>A turn of the main loop: \<open>Some (Some None)\<close> is the end of the data.\<close>

definition decompress_byte ::
    "nat \<Rightarrow> ENetRangeCoder \<times> decoder \<times> u8 list \<Rightarrow> (ENetRangeCoder \<times> decoder \<times> u8 list) option option option" where
  "decompress_byte outLimit = (\<lambda>(rc, d, out).
     (case decompress_contexts (unat (rc_predicted rc)) (rc, d) of
        None \<Rightarrow> None
      | Some None \<Rightarrow> Some None
      | Some (Some (Inl d)) \<Rightarrow> Some (Some None)
      | Some (Some (Inr (subcontext, bottom, value, rc, d))) \<Rightarrow>
          (case patch_contexts value subcontext bottom (unat (rc_predicted rc)) None rc of
             None \<Rightarrow> None
           | Some rc \<Rightarrow>
               (case ENET_RANGE_CODER_OUTPUT outLimit value out of
                  None \<Rightarrow> Some None
                | Some out \<Rightarrow>
                    (case Option.bind (next_context rc) ENET_RANGE_CODER_FREE_SYMBOLS of
                       None \<Rightarrow> None
                     | Some rc \<Rightarrow> Some (Some (Some (rc, d, out))))))))"

partial_function (option) decompress_loop ::
    "nat \<Rightarrow> ENetRangeCoder \<times> decoder \<times> u8 list \<Rightarrow> u8 list option" where
  "decompress_loop outLimit st =
     (case decompress_byte outLimit st of
        None \<Rightarrow> None
      | Some None \<Rightarrow> Some []
      | Some (Some None) \<Rightarrow> Some (snd (snd st))
      | Some (Some (Some st)) \<Rightarrow> decompress_loop outLimit st)"

text \<open>The input are the first \<open>inLimit\<close> bytes behind \<^verbatim>\<open>inData\<close>; reading further than the memory that
  is there is undefined, which the model leaves to the caller: \<open>data\<close> are the bytes that may be read.\<close>

definition enet_range_coder_decompress :: "symbols option \<Rightarrow> u8 list \<Rightarrow> nat \<Rightarrow> u8 list option" where
  "enet_range_coder_decompress rangeCoder data outLimit =
     (case rangeCoder of
        None \<Rightarrow> Some []
      | Some syms \<Rightarrow>
          if data = [] then Some []
          else (case create_root syms of
                  None \<Rightarrow> None
                | Some rc \<Rightarrow>
                    (case ENET_RANGE_CODER_SEED data of
                       (code, bs) \<Rightarrow>
                         decompress_loop outLimit
                           (rc, \<lparr>decodeLow = 0, decodeCode = code, decodeRange = - 1, inData = bs\<rparr>, []))))"

text \<open>The loops compute by their equations; those of the three walks are unfolded one step at a time.\<close>

declare encode_normalize.simps [code] ENET_RANGE_CODER_FLUSH.simps [code] compress_contexts.simps [code]
  decode_normalize.simps [code] decompress_contexts.simps [code] patch_contexts.simps [code]
  decompress_loop.simps [code]

declare enet_symbol_rescale.simps [simp del] encode_walk.simps [simp del] decode_walk.simps [simp del]

end
