(* ===== verification/EnetSymbols.thy ===== *)
theory EnetSymbols
  imports EnetCoder "HOL-Library.Tree"
begin

text \<open>
  The trees of the range coder's memory.  A context of the code is a binary search tree whose nodes are
  linked by distances; here it is a tree of HOL whose nodes carry the symbol, the byte and its count.
  \<open>subtree_at\<close> relates the two, and the lemmas show that the walks of the code are functions on trees:
  they change exactly one count, keep the sums below the nodes and touch no other symbol.
\<close>

section \<open>Trees in memory\<close>

type_synonym nodes = "(nat \<times> u8 \<times> nat) tree"

text \<open>The sum of the counts.\<close>

fun weight :: "nodes \<Rightarrow> nat" where
  "weight Leaf = 0"
| "weight (Node l (i, x, c) r) = weight l + c + weight r"

definition indices :: "nodes \<Rightarrow> nat set" where
  "indices t = fst ` set_tree t"

lemma indices_simps [simp]:
  "indices Leaf = {}" "indices (Node l (i, x, c) r) = insert i (indices l \<union> indices r)"
  by (simp_all add: indices_def image_Un)

text \<open>\<open>subtree_at syms from off t\<close>: from the symbol \<open>from\<close> the distance \<open>off\<close> leads to the tree \<open>t\<close>.\<close>

fun subtree_at :: "symbols \<Rightarrow> nat \<Rightarrow> u16 \<Rightarrow> nodes \<Rightarrow> bool" where
  "subtree_at syms from off Leaf \<longleftrightarrow> off = 0"
| "subtree_at syms from off (Node l (i, x, c) r) \<longleftrightarrow>
     off \<noteq> 0 \<and> i = from + unat off \<and> i < SYMBOLS \<and>
     sy_value (syms i) = x \<and> unat (sy_count (syms i)) = c \<and> unat (sy_under (syms i)) = weight l + c \<and>
     subtree_at syms i (sy_left (syms i)) l \<and> subtree_at syms i (sy_right (syms i)) r"

text \<open>The fields a symbol has as a node of a tree, and those it has as a context.\<close>

definition node_of :: "ENetSymbol \<Rightarrow> u8 \<times> u8 \<times> u16 \<times> u16 \<times> u16" where
  "node_of s = (sy_value s, sy_count s, sy_under s, sy_left s, sy_right s)"

definition context_of :: "ENetSymbol \<Rightarrow> u16 \<times> u16 \<times> u16 \<times> u16" where
  "context_of s = (sy_symbols s, sy_escapes s, sy_total s, sy_parent s)"

text \<open>Only the nodes in \<open>A\<close> and the contexts in \<open>B\<close> have changed.\<close>

definition changed :: "nat set \<Rightarrow> nat set \<Rightarrow> symbols \<Rightarrow> symbols \<Rightarrow> bool" where
  "changed A B syms syms' \<longleftrightarrow>
     (\<forall>j. j \<notin> A \<longrightarrow> node_of (syms' j) = node_of (syms j)) \<and>
     (\<forall>j. j \<notin> B \<longrightarrow> context_of (syms' j) = context_of (syms j))"

lemma changed_refl [simp]: "changed A B syms syms"
  by (simp add: changed_def)

lemma changed_trans:
  "changed A B syms syms' \<Longrightarrow> changed A' B' syms' syms'' \<Longrightarrow> changed (A \<union> A') (B \<union> B') syms syms''"
  by (simp add: changed_def)

lemma changed_mono: "changed A B syms syms' \<Longrightarrow> A \<subseteq> A' \<Longrightarrow> B \<subseteq> B' \<Longrightarrow> changed A' B' syms syms'"
  by (auto simp: changed_def)

lemma subtree_at_cong:
  "(\<And>j. j \<in> indices t \<Longrightarrow> node_of (syms' j) = node_of (syms j)) \<Longrightarrow>
   subtree_at syms' from off t = subtree_at syms from off t"
proof (induction t arbitrary: "from" off)
  case (Node l n r)
  obtain i x c where n: "n = (i, x, c)" by (cases n)
  have "node_of (syms' i) = node_of (syms i)" using Node.prems by (simp add: n)
  then show ?case using Node.IH Node.prems by (auto simp: n node_of_def)
qed simp

lemma subtree_at_changed:
  "changed A B syms syms' \<Longrightarrow> A \<inter> indices t = {} \<Longrightarrow> subtree_at syms' from off t = subtree_at syms from off t"
  by (rule subtree_at_cong) (auto simp: changed_def)

text \<open>All symbols of a tree lie behind the one it hangs from.\<close>

lemma subtree_at_above: "subtree_at syms from off t \<Longrightarrow> j \<in> indices t \<Longrightarrow> from < j \<and> j < SYMBOLS"
proof (induction t arbitrary: "from" off)
  case (Node l n r)
  obtain i x c where n: "n = (i, x, c)" by (cases n)
  have "from < i" using Node.prems(1) by (auto simp: n unat_gt_0)
  then show ?case using Node.prems Node.IH(1) [of i "sy_left (syms i)"] Node.IH(2) [of i "sy_right (syms i)"]
    by (auto simp: n)
qed simp

abbreviation distinct_nodes :: "nodes \<Rightarrow> bool" where
  "distinct_nodes t \<equiv> distinct (map fst (inorder t))"

lemma indices_inorder: "indices t = fst ` set (inorder t)"
  by (simp add: indices_def)

lemma weight_inorder: "weight t = sum_list (map (\<lambda>(i, x, c). c) (inorder t))"
  by (induction t rule: weight.induct) simp_all

section \<open>What a walk changes\<close>

text \<open>The count of the byte \<open>x\<close>, which was \<open>k\<close>, has grown by \<open>d\<close>; a byte that had no symbol has got the
  symbol \<open>n\<close>.\<close>

definition grown :: "nat \<Rightarrow> nat \<Rightarrow> nodes \<Rightarrow> nat \<Rightarrow> u8 \<Rightarrow> nat \<Rightarrow> nodes \<Rightarrow> bool" where
  "grown d n t s x k t' \<longleftrightarrow> (\<exists>xs ys. inorder t' = xs @ (s, x, k + d) # ys \<and>
     (inorder t = xs @ (s, x, k) # ys \<or> k = 0 \<and> s = n \<and> inorder t = xs @ ys))"

lemma grownI_left:
  "grown d n l s x k l' \<Longrightarrow> grown d n (Node l a r) s x k (Node l' a r)"
  unfolding grown_def by (metis append.assoc append_Cons inorder.simps(2))

lemma grownI_right:
  assumes "grown d n r s x k r'"
  shows "grown d n (Node l a r) s x k (Node l a r')"
proof -
  obtain xs ys where "inorder r' = xs @ (s, x, k + d) # ys"
    "inorder r = xs @ (s, x, k) # ys \<or> k = 0 \<and> s = n \<and> inorder r = xs @ ys"
    using assms by (auto simp: grown_def)
  then show ?thesis unfolding grown_def by (intro exI [of _ "inorder l @ a # xs"] exI [of _ ys]) auto
qed

lemma grown_new: "grown d n Leaf n x 0 (Node Leaf (n, x, d) Leaf)"
  by (auto simp: grown_def)

lemma grown_found: "grown d n (Node l (i, x, c) r) i x c (Node l (i, x, c + d) r)"
  by (auto simp: grown_def)

lemma grown_weight: "grown d n t s x k t' \<Longrightarrow> weight t' = weight t + d"
  by (auto simp: grown_def weight_inorder)

lemma grown_indices:
  "grown d n t s x k t' \<Longrightarrow> indices t' = insert s (indices t)"
  "grown d n t s x k t' \<Longrightarrow> s = n \<or> s \<in> indices t"
  by (force simp: grown_def indices_inorder image_Un simp del: set_inorder)+

lemma grown_distinct: "grown d n t s x k t' \<Longrightarrow> distinct_nodes t \<Longrightarrow> n \<notin> indices t \<Longrightarrow> distinct_nodes t'"
  by (auto simp: grown_def indices_inorder simp del: set_inorder)

lemma grown_nodes:
  "grown d n t s x k t' \<Longrightarrow> (j, y, c) \<in> set_tree t' \<Longrightarrow>
     (j, y, c) = (s, x, k + d) \<or> (j, y, c) \<in> set_tree t"
  "grown d n t s x k t' \<Longrightarrow> (s, x, k + d) \<in> set_tree t'"
  "grown d n t s x k t' \<Longrightarrow> s \<noteq> n \<or> n \<in> indices t \<Longrightarrow> (s, x, k) \<in> set_tree t \<or> k = 0"
  by (auto simp: grown_def simp del: set_inorder simp flip: set_inorder)


section \<open>The steps of a walk\<close>

text \<open>A symbol that has just been created, as a node and as a context.\<close>

definition new_symbol :: "u8 \<Rightarrow> nat \<Rightarrow> ENetSymbol" where
  "new_symbol x d = \<lparr>sy_value = x, sy_count = of_nat d, sy_under = of_nat d, sy_left = 0, sy_right = 0,
     sy_symbols = 0, sy_escapes = 0, sy_total = 0, sy_parent = 0\<rparr>"

lemma unat_symbol_distance: "from < s \<Longrightarrow> s < 65536 \<Longrightarrow> unat (symbol_distance s from) = s - from"
proof -
  assume *: "from < s" "s < 65536"
  have eq: "int s - int from = int (s - from)" using * by simp
  show ?thesis using * unfolding symbol_distance_def eq by (simp add: unsigned_of_nat take_bit_nat_eq_self del: of_nat_diff)
qed


lemma unat_u16_add: "unat (a :: u16) + k < 65536 \<Longrightarrow> b = of_nat k \<Longrightarrow> unat (a + b) = unat a + k"
  by (simp add: unat_word_ariths unsigned_of_nat take_bit_nat_eq_self)

lemma unat_u8_add: "unat (a :: u8) + k < 256 \<Longrightarrow> b = of_nat k \<Longrightarrow> unat (a + b) = unat a + k"
  by (simp add: unat_word_ariths unsigned_of_nat take_bit_nat_eq_self)

lemma ucast_of_nat_u16: "d < 256 \<Longrightarrow> ucast (of_nat d :: u8) = (of_nat d :: u16)"
  by (simp add: word_unat_eq_iff unat_ucast_up unsigned_of_nat take_bit_nat_eq_self)

lemma create_step:
  assumes "n < SYMBOLS" "d < 256"
  shows "ENET_SYMBOL_CREATE v (of_nat d) syms n = Some (n, syms(n := new_symbol v d), n + 1)"
  using assms by (simp add: ENET_SYMBOL_CREATE_def new_symbol_def ucast_of_nat_u16)

text \<open>A new leaf.\<close>

lemma new_subtree:
  assumes "from < n" "n < SYMBOLS" "d < 256" "syms n = new_symbol v d"
  shows "subtree_at syms from (symbol_distance n from) (Node Leaf (n, v, d) Leaf)"
  using assms unat_symbol_distance [of "from" n]
  by (auto simp: new_symbol_def unsigned_of_nat take_bit_nat_eq_self unat_eq_0 [symmetric])

text \<open>What a walk that ends at symbol \<open>s\<close> does to the memory: the tree \<open>t\<close> has become \<open>t'\<close>, only its
  symbols and a new one have changed, and as contexts none but the new one.\<close>

definition walks :: "nat \<Rightarrow> nat \<Rightarrow> u16 \<Rightarrow> nodes \<Rightarrow> symbols \<Rightarrow> nat \<Rightarrow> nodes \<Rightarrow> symbols \<Rightarrow> nat \<Rightarrow> bool" where
  "walks n from off t syms s t' syms' n' \<longleftrightarrow>
     subtree_at syms' from off t' \<and> changed (indices t \<union> {n}) {n} syms syms' \<and>
     (if s = n then n' = n + 1 \<and> context_of (syms' n) = (0, 0, 0, 0)
      else n' = n \<and> syms' n = syms n)"

text \<open>The tree in memory, and room for a count that grows by \<open>d\<close>.\<close>

definition roomy :: "nat \<Rightarrow> nat \<Rightarrow> nat \<Rightarrow> u16 \<Rightarrow> nodes \<Rightarrow> symbols \<Rightarrow> bool" where
  "roomy n d from off t syms \<longleftrightarrow>
     subtree_at syms from off t \<and> distinct_nodes t \<and> (\<forall>j\<in>indices t. j < n) \<and> n < SYMBOLS \<and>
     d < 256 \<and> (\<forall>(i, x, c)\<in>set_tree t. c + d < 256) \<and> weight t + d < 65536"

lemma roomyD:
  assumes "roomy n d from off (Node l (i, x, c) r) syms"
  shows "off \<noteq> 0" "from + unat off = i" "i < SYMBOLS" "sy_value (syms i) = x" "unat (sy_count (syms i)) = c"
    "unat (sy_under (syms i)) = weight l + c" "subtree_at syms i (sy_left (syms i)) l"
    "subtree_at syms i (sy_right (syms i)) r"
    "i \<notin> indices l" "i \<notin> indices r" "indices l \<inter> indices r = {}" "i < n" "n \<notin> indices l" "n \<notin> indices r"
    "n < SYMBOLS" "d < 256" "c + d < 256" "weight l + c + weight r + d < 65536"
    "roomy n d i (sy_left (syms i)) l syms" "roomy n d i (sy_right (syms i)) r syms"
  using assms by (auto simp: roomy_def indices_inorder simp del: set_inorder)

text \<open>The five steps of a walk.  On the way left the sum below the node grows.\<close>

definition bump :: "nat \<Rightarrow> nat \<Rightarrow> symbols \<Rightarrow> symbols" where
  "bump d i syms = syms(i := (syms i)\<lparr>sy_under := sy_under (syms i) + of_nat d\<rparr>)"

lemma bump_simps [simp]:
  "sy_value (bump d i syms j) = sy_value (syms j)" "sy_count (bump d i syms j) = sy_count (syms j)"
  "sy_left (bump d i syms j) = sy_left (syms j)" "sy_right (bump d i syms j) = sy_right (syms j)"
  "context_of (bump d i syms j) = context_of (syms j)" "j \<noteq> i \<Longrightarrow> bump d i syms j = syms j"
  by (simp_all add: bump_def context_of_def)

lemma bump_changed: "changed {i} {} syms (bump d i syms)"
  by (simp add: changed_def)

lemma bump_roomy: "i \<notin> indices t \<Longrightarrow> roomy n d from off t (bump d i syms) = roomy n d from off t syms"
  by (simp add: roomy_def subtree_at_changed [OF bump_changed])

lemma descend_left:
  assumes "roomy n d from off (Node l (i, x, c) r) syms"
    "walks n i (sy_left (syms i)) l (bump d i syms) s l' syms' n'" "weight l' = weight l + d"
  shows "walks n from off (Node l (i, x, c) r) syms s (Node l' (i, x, c) r) syms' n'"
proof -
  note R = roomyD [OF assms(1)]
  have at: "subtree_at syms' i (sy_left (syms i)) l'" and ch: "changed (indices l \<union> {n}) {n} (bump d i syms) syms'"
    using assms(2) by (simp_all add: walks_def)
  have ch': "changed (indices l \<union> {n, i}) {n} syms syms'"
    using changed_trans [OF bump_changed ch, of] by (auto elim: changed_mono)
  have "node_of (syms' i) = node_of (bump d i syms i)" using ch R(9,12) by (simp add: changed_def)
  then have "sy_value (syms' i) = x \<and> sy_count (syms' i) = sy_count (syms i) \<and> sy_left (syms' i) = sy_left (syms i) \<and>
      sy_right (syms' i) = sy_right (syms i) \<and> sy_under (syms' i) = sy_under (syms i) + of_nat d"
    using R(4) by (simp add: node_of_def bump_def)
  moreover have "unat (sy_under (syms i) + of_nat d) = weight l + c + d"
    using R(6,18) unat_u16_add [of "sy_under (syms i)" d] by simp
  moreover have "subtree_at syms' i (sy_right (syms i)) r"
    using R(8,10,11,14) subtree_at_changed [OF ch', of r] by auto
  ultimately have "subtree_at syms' from off (Node l' (i, x, c) r)"
    using R(1,2,3,5) at assms(3) by auto
  moreover have "changed (indices (Node l (i, x, c) r) \<union> {n}) {n} syms syms'"
    by (rule changed_mono [OF ch']) auto
  moreover have "bump d i syms n = syms n" using R(12) by simp
  ultimately show ?thesis using assms(2) by (simp add: walks_def del: subtree_at.simps indices_simps)
qed

lemma descend_right:
  assumes "roomy n d from off (Node l (i, x, c) r) syms"
    "walks n i (sy_right (syms i)) r syms s r' syms' n'"
  shows "walks n from off (Node l (i, x, c) r) syms s (Node l (i, x, c) r') syms' n'"
proof -
  note R = roomyD [OF assms(1)]
  have at: "subtree_at syms' i (sy_right (syms i)) r'" and ch: "changed (indices r \<union> {n}) {n} syms syms'"
    using assms(2) by (simp_all add: walks_def)
  have "node_of (syms' i) = node_of (syms i)" using ch R(10,12) by (simp add: changed_def)
  moreover have "subtree_at syms' i (sy_left (syms i)) l"
    using R(7,11,13) subtree_at_changed [OF ch, of l] by auto
  ultimately have "subtree_at syms' from off (Node l (i, x, c) r')"
    using R(1-6) at by (auto simp: node_of_def)
  moreover have "changed (indices (Node l (i, x, c) r) \<union> {n}) {n} syms syms'"
    by (rule changed_mono [OF ch]) auto
  ultimately show ?thesis using assms(2) by (simp add: walks_def del: subtree_at.simps indices_simps)
qed

text \<open>A new symbol below a node without a left or a right branch.\<close>

definition hang_left :: "nat \<Rightarrow> nat \<Rightarrow> symbols \<Rightarrow> symbols" where
  "hang_left n i syms = syms(i := (syms i)\<lparr>sy_left := symbol_distance n i\<rparr>)"

definition hang_right :: "nat \<Rightarrow> nat \<Rightarrow> symbols \<Rightarrow> symbols" where
  "hang_right n i syms = syms(i := (syms i)\<lparr>sy_right := symbol_distance n i\<rparr>)"

lemma context_of_new [simp]: "context_of (new_symbol v d) = (0, 0, 0, 0)"
  by (simp add: new_symbol_def context_of_def)

lemma create_left:
  assumes "roomy n d from off (Node Leaf (i, x, c) r) syms"
  shows "walks n from off (Node Leaf (i, x, c) r) syms n (Node (Node Leaf (n, v, d) Leaf) (i, x, c) r)
    (hang_left n i ((bump d i syms)(n := new_symbol v d))) (n + 1)"
proof -
  let ?s = "hang_left n i ((bump d i syms)(n := new_symbol v d))"
  note R = roomyD [OF assms]
  have i: "?s i = (bump d i syms i)\<lparr>sy_left := symbol_distance n i\<rparr>" and n: "?s n = new_symbol v d"
    using R(12) by (simp_all add: hang_left_def)
  have ch: "changed {n, i} {n} syms ?s"
    by (auto simp: changed_def hang_left_def bump_def context_of_def)
  have "unat (sy_under (syms i) + of_nat d) = d + c"
    using R(6,18) unat_u16_add [of "sy_under (syms i)" d] by simp
  moreover have "subtree_at ?s i (sy_right (syms i)) r"
    using R(8,10,14) subtree_at_changed [OF ch, of r] by auto
  moreover have "subtree_at ?s i (symbol_distance n i) (Node Leaf (n, v, d) Leaf)"
    by (rule new_subtree [OF R(12,15,16)]) (rule n)
  ultimately have "subtree_at ?s from off (Node (Node Leaf (n, v, d) Leaf) (i, x, c) r)"
    using R(1-5) i by (subst subtree_at.simps(2)) (simp add: bump_def del: subtree_at.simps(2))
  moreover have "changed (indices (Node Leaf (i, x, c) r) \<union> {n}) {n} syms ?s"
    by (rule changed_mono [OF ch]) auto
  ultimately show ?thesis using n by (simp add: walks_def del: subtree_at.simps indices_simps)
qed

lemma create_right:
  assumes "roomy n d from off (Node l (i, x, c) Leaf) syms"
  shows "walks n from off (Node l (i, x, c) Leaf) syms n (Node l (i, x, c) (Node Leaf (n, v, d) Leaf))
    (hang_right n i (syms(n := new_symbol v d))) (n + 1)"
proof -
  let ?s = "hang_right n i (syms(n := new_symbol v d))"
  note R = roomyD [OF assms]
  have i: "?s i = (syms i)\<lparr>sy_right := symbol_distance n i\<rparr>" and n: "?s n = new_symbol v d"
    using R(12) by (simp_all add: hang_right_def)
  have ch: "changed {n, i} {n} syms ?s"
    by (auto simp: changed_def hang_right_def context_of_def)
  have "subtree_at ?s i (sy_left (syms i)) l"
    using R(7,9,13) subtree_at_changed [OF ch, of l] by auto
  moreover have "subtree_at ?s i (symbol_distance n i) (Node Leaf (n, v, d) Leaf)"
    by (rule new_subtree [OF R(12,15,16)]) (rule n)
  ultimately have "subtree_at ?s from off (Node l (i, x, c) (Node Leaf (n, v, d) Leaf))"
    using R(1-6) i by (subst subtree_at.simps(2)) (simp del: subtree_at.simps(2))
  moreover have "changed (indices (Node l (i, x, c) Leaf) \<union> {n}) {n} syms ?s"
    by (rule changed_mono [OF ch]) auto
  ultimately show ?thesis using n by (simp add: walks_def del: subtree_at.simps indices_simps)
qed

text \<open>The byte has been found.\<close>

definition count_up :: "nat \<Rightarrow> nat \<Rightarrow> symbols \<Rightarrow> symbols" where
  "count_up d i syms = syms(i := (syms i)\<lparr>sy_under := sy_under (syms i) + of_nat d, sy_count := sy_count (syms i) + of_nat d\<rparr>)"

lemma found:
  assumes "roomy n d from off (Node l (i, x, c) r) syms"
  shows "walks n from off (Node l (i, x, c) r) syms i (Node l (i, x, c + d) r) (count_up d i syms) n"
proof -
  let ?s = "count_up d i syms"
  note R = roomyD [OF assms]
  have ch: "changed {i} {} syms ?s" by (auto simp: changed_def count_up_def context_of_def)
  have "unat (sy_under (syms i) + of_nat d) = weight l + (c + d)"
    using R(6,18) unat_u16_add [of "sy_under (syms i)" d] by simp
  moreover have "unat (sy_count (syms i) + of_nat d) = c + d"
    using R(5,17) unat_u8_add [of "sy_count (syms i)" d] by simp
  moreover have "subtree_at ?s i (sy_left (syms i)) l" "subtree_at ?s i (sy_right (syms i)) r"
    using R(7-10) subtree_at_changed [OF ch] by auto
  ultimately have "subtree_at ?s from off (Node l (i, x, c + d) r)"
    using R(1-4) by (simp add: count_up_def)
  moreover have "changed (indices (Node l (i, x, c) r) \<union> {n}) {n} syms ?s"
    by (rule changed_mono [OF ch]) auto
  moreover have "?s n = syms n" using R(12) by (simp add: count_up_def)
  ultimately show ?thesis using R(12) by (simp add: walks_def del: subtree_at.simps indices_simps)
qed


section \<open>The walk of the encoder\<close>

text \<open>The tree after the byte \<open>v\<close> has been counted \<open>d\<close> more times; its symbol and its count before; and
  the sum of the counts that the walk leaves to the left.\<close>

fun ins :: "u8 \<Rightarrow> nat \<Rightarrow> nat \<Rightarrow> nodes \<Rightarrow> nodes" where
  "ins v d n Leaf = Node Leaf (n, v, d) Leaf"
| "ins v d n (Node l (i, x, c) r) =
     (if v < x then Node (ins v d n l) (i, x, c) r
      else if v > x then Node l (i, x, c) (ins v d n r)
      else Node l (i, x, c + d) r)"

fun seek :: "u8 \<Rightarrow> nat \<Rightarrow> nodes \<Rightarrow> nat \<times> nat" where
  "seek v n Leaf = (n, 0)"
| "seek v n (Node l (i, x, c) r) =
     (if v < x then seek v n l else if v > x then seek v n r else (i, c))"

fun below :: "u8 \<Rightarrow> nodes \<Rightarrow> nat" where
  "below v Leaf = 0"
| "below v (Node l (i, x, c) r) =
     (if v < x then below v l else if v > x then weight l + c + below v r else weight l)"

lemma ins_grown: "grown d n t (fst (seek v n t)) v (snd (seek v n t)) (ins v d n t)"
proof (induction t)
  case (Node l a r)
  obtain i x c where a: "a = (i, x, c)" by (cases a)
  consider "v < x" | "v > x" | "v = x" by force
  then show ?case
    using Node by cases (auto simp: a grownI_left grownI_right grown_found)
qed (simp add: grown_new)

lemma under_of_nat: "unat (sy_under s) = k \<Longrightarrow> sy_under s = of_nat k"
  by (metis of_nat_unat ucast_id)

lemma count_of_nat: "unat (sy_count s) = k \<Longrightarrow> (ucast (sy_count s) :: u16) = of_nat k"
  by (metis of_nat_unat)

lemma encode_walk_tree:
  assumes "roomy n d from off t syms" "t \<noteq> Leaf"
  shows "\<exists>syms' n'. encode_walk v (of_nat d) (from + unat off) und cnt syms n =
      Some (fst (seek v n t), und + of_nat (below v t), cnt + of_nat (snd (seek v n t)), syms', n') \<and>
    walks n from off t syms (fst (seek v n t)) (ins v d n t) syms' n'"
  using assms
proof (induction t arbitrary: "from" off und syms)
  case (Node l a r)
  obtain i x c where a: "a = (i, x, c)" by (cases a)
  note room = Node.prems(1) [unfolded a]
  note R = roomyD [OF room]
  note step = encode_walk.simps [of v "of_nat d" i und cnt syms n]
  have ud: "ucast (of_nat d :: u8) = (of_nat d :: u16)" using R(16) by (rule ucast_of_nat_u16)
  consider (lt) "v < x" | (gt) "v > x" | (eq) "v = x" by force
  then show ?case
  proof cases
    case lt
    have walk: "encode_walk v (of_nat d) i und cnt syms n =
        (if sy_left (syms i) \<noteq> 0
         then encode_walk v (of_nat d) (i + unat (sy_left (syms i))) und cnt (bump d i syms) n
         else Some (n, und, cnt, hang_left n i ((bump d i syms)(n := new_symbol v d)), n + 1))"
      unfolding step using lt R(3,4,12) create_step [OF R(15,16)]
      by (simp add: ud bump_def [symmetric] Let_def hang_left_def)
    show ?thesis
    proof (cases "l = Leaf")
      case True
      then show ?thesis
        using lt R(2,7) walk create_left [OF room [unfolded True], of v] by (auto simp: a)
    next
      case False
      then have "sy_left (syms i) \<noteq> 0" using R(7) by (cases l rule: weight.cases) auto
      moreover have w: "weight (ins v d n l) = weight l + d" using grown_weight [OF ins_grown] .
      moreover obtain syms' n' where
        "encode_walk v (of_nat d) (i + unat (sy_left (syms i))) und cnt (bump d i syms) n =
          Some (fst (seek v n l), und + of_nat (below v l), cnt + of_nat (snd (seek v n l)), syms', n')"
        "walks n i (sy_left (syms i)) l (bump d i syms) (fst (seek v n l)) (ins v d n l) syms' n'"
        using Node.IH(1) [of i "sy_left (syms i)" "bump d i syms" und] False R(9,19) by (auto simp: bump_roomy)
      ultimately show ?thesis
        using lt R(2) walk descend_left [OF room _ w] by (simp add: a)
    qed
  next
    case gt
    then have ngt: "\<not> v < x" by simp
    have walk: "encode_walk v (of_nat d) i und cnt syms n =
        (if sy_right (syms i) \<noteq> 0
         then encode_walk v (of_nat d) (i + unat (sy_right (syms i))) (und + of_nat (weight l + c)) cnt syms n
         else Some (n, und + of_nat (weight l + c), cnt, hang_right n i (syms(n := new_symbol v d)), n + 1))"
      unfolding step using gt ngt R(3,4,12) create_step [OF R(15,16)] under_of_nat [OF R(6)]
      by (simp add: ud Let_def hang_right_def)
    show ?thesis
    proof (cases "r = Leaf")
      case True
      then show ?thesis
        using gt ngt R(2,8) walk create_right [OF room [unfolded True], of v] by (auto simp: a)
    next
      case False
      then have "sy_right (syms i) \<noteq> 0" using R(8) by (cases r rule: weight.cases) auto
      moreover obtain syms' n' where
        "encode_walk v (of_nat d) (i + unat (sy_right (syms i))) (und + of_nat (weight l + c)) cnt syms n =
          Some (fst (seek v n r), und + of_nat (weight l + c) + of_nat (below v r), cnt + of_nat (snd (seek v n r)), syms', n')"
        "walks n i (sy_right (syms i)) r syms (fst (seek v n r)) (ins v d n r) syms' n'"
        using Node.IH(2) [of i "sy_right (syms i)" syms "und + of_nat (weight l + c)"] False R(20) by auto
      ultimately show ?thesis
        using gt ngt R(2) walk descend_right [OF room] by (auto simp: a ac_simps)
    qed
  next
    case eq
    have "sy_under (syms i) - ucast (sy_count (syms i)) = of_nat (weight l)"
      using under_of_nat [OF R(6)] count_of_nat [OF R(5)] by simp
    moreover note count_of_nat [OF R(5)]
    ultimately have "encode_walk v (of_nat d) i und cnt syms n =
        Some (i, und + of_nat (weight l), cnt + of_nat c, count_up d i syms, n)"
      unfolding step using eq R(3,4) by (simp add: ud count_up_def)
    then show ?thesis using eq R(2) found [OF room] by (auto simp: a)
  qed
qed simp


section \<open>Halving the counts\<close>

abbreviation half :: "nat \<Rightarrow> nat" where
  "half c \<equiv> c - c div 2"

fun halve :: "nodes \<Rightarrow> nodes" where
  "halve Leaf = Leaf"
| "halve (Node l (i, x, c) r) = Node (halve l) (i, x, half c) (halve r)"

lemma inorder_halve: "inorder (halve t) = map (\<lambda>(i, x, c). (i, x, half c)) (inorder t)"
  by (induction t rule: halve.induct) simp_all

lemma indices_halve [simp]: "indices (halve t) = indices t"
  by (induction t rule: halve.induct) simp_all

lemma weight_halve: "weight (halve t) \<le> weight t" "weight t \<le> 2 * weight (halve t)"
  by (induction t rule: halve.induct) auto

lemma halve_eq_Leaf [simp]: "halve t = Leaf \<longleftrightarrow> t = Leaf"
  by (cases t rule: halve.cases) simp_all

lemma unat_half:
  "unat (a - drop_bit 1 a) = half (unat a)" "unat (b - drop_bit 1 b) = half (unat b)" for a :: u8 and b :: u16
proof -
  have "unat (drop_bit 1 a) = unat a div 2" by (simp add: drop_bit_eq_div unat_div_distrib)
  then show "unat (a - drop_bit 1 a) = half (unat a)" by (simp add: unat_sub_if_size)
  have "unat (drop_bit 1 b) = unat b div 2" by (simp add: drop_bit_eq_div unat_div_distrib)
  then show "unat (b - drop_bit 1 b) = half (unat b)" by (simp add: unat_sub_if_size)
qed

lemma rescale_tree:
  assumes "subtree_at syms from off t" "t \<noteq> Leaf" "distinct_nodes t" "weight t < 65536"
  shows "\<exists>syms'. enet_symbol_rescale (from + unat off) tot syms = Some (tot + of_nat (weight (halve t)), syms') \<and>
    subtree_at syms' from off (halve t) \<and> changed (indices t) {} syms syms'"
  using assms
proof (induction t arbitrary: "from" off tot syms)
  case (Node l a r)
  obtain i x c where a: "a = (i, x, c)" by (cases a)
  have at: "off \<noteq> 0" "from + unat off = i" "i < SYMBOLS" "sy_value (syms i) = x" "unat (sy_count (syms i)) = c"
    "subtree_at syms i (sy_left (syms i)) l" "subtree_at syms i (sy_right (syms i)) r"
    using Node.prems(1) by (auto simp: a)
  have dist: "distinct_nodes l" "i \<notin> indices l" "i \<notin> indices r" "distinct_nodes r" "indices l \<inter> indices r = {}"
    using Node.prems(3) by (auto simp: a indices_inorder simp del: set_inorder)
  have w: "weight l < 65536" "weight r < 65536" "weight (halve l) + half c < 65536"
    using Node.prems(4) weight_halve(1) [of l] by (auto simp: a)
  define h where "h = half c"
  define k where "k = sy_count (syms i) - drop_bit 1 (sy_count (syms i))"
  have k: "unat k = h" unfolding k_def unat_half at(5) h_def ..
  define s1 where "s1 = syms(i := (syms i)\<lparr>sy_count := k, sy_under := ucast k\<rparr>)"
  have c1: "changed {i} {} syms s1" by (simp add: s1_def changed_def context_of_def)
  have l1: "subtree_at s1 i (sy_left (s1 i)) l" using at(6) dist(2) subtree_at_changed [OF c1, of l] by (simp add: s1_def)
  obtain s2 where left: "(if sy_left (s1 i) = 0 then Some (0, s1)
        else enet_symbol_rescale (i + unat (sy_left (s1 i))) 0 s1) = Some (of_nat (weight (halve l)), s2)"
      and l2: "subtree_at s2 i (sy_left (s1 i)) (halve l)" and c2: "changed (indices l) {} s1 s2"
  proof (cases "l = Leaf")
    case True
    then show ?thesis using that [of s1] l1 by simp
  next
    case False
    then have "sy_left (s1 i) \<noteq> 0" using l1 by (cases l rule: weight.cases) auto
    then show ?thesis using that Node.IH(1) [OF l1 False dist(1) w(1), of 0] by auto
  qed
  define s3 where "s3 = s2(i := (s2 i)\<lparr>sy_under := sy_under (s2 i) + of_nat (weight (halve l))\<rparr>)"
  have "node_of (s2 i) = node_of (s1 i)" using c2 dist(2) by (simp add: changed_def)
  then have n3: "sy_value (s3 i) = x" "unat (sy_count (s3 i)) = h" "sy_left (s3 i) = sy_left (s1 i)"
    "sy_right (s3 i) = sy_right (syms i)" "sy_under (s3 i) = ucast k + of_nat (weight (halve l))"
    using at(4) k by (simp_all add: s3_def s1_def node_of_def)
  have under: "unat (sy_under (s3 i)) = weight (halve l) + h"
    using w(3) [folded h_def] k unat_u16_add [of "ucast k" "weight (halve l)"] by (simp add: n3(5) unat_ucast_up)
  then have under': "sy_under (s3 i) = of_nat (weight (halve l) + h)" by (rule under_of_nat)
  have c3: "changed (insert i (indices l)) {} syms s3"
  proof -
    have "changed {i} {} s2 s3" by (simp add: s3_def changed_def context_of_def)
    from changed_trans [OF changed_trans [OF c1 c2] this] show ?thesis by (auto elim: changed_mono)
  qed
  have l3: "subtree_at s3 i (sy_left (s3 i)) (halve l)"
    using l2 dist(2) unfolding n3(3) by (subst subtree_at_cong [of _ _ s2]) (auto simp: s3_def)
  have r3: "subtree_at s3 i (sy_right (s3 i)) r"
    using at(7) dist(3,5) subtree_at_changed [OF c3, of r] by (auto simp: n3(4))
  have walk: "enet_symbol_rescale i tot syms =
      (if sy_right (s3 i) = 0 then Some (tot + sy_under (s3 i), s3)
       else enet_symbol_rescale (i + unat (sy_right (s3 i))) (tot + sy_under (s3 i)) s3)"
    using at(3) left unfolding enet_symbol_rescale.simps [of i tot syms] Let_def k_def [symmetric] s1_def [symmetric]
    by (simp add: s3_def)
  show ?case
  proof (cases "r = Leaf")
    case True
    then have "sy_right (s3 i) = 0" using r3 by simp
    moreover have "changed (indices (Node l a r)) {} syms s3" using c3 by (auto simp: a elim: changed_mono)
    ultimately show ?thesis using walk at(1-3) n3(1-4) under under' l3 True by (auto simp: a h_def [symmetric])
  next
    case False
    then have "sy_right (s3 i) \<noteq> 0" using r3 by (cases r rule: weight.cases) auto
    moreover obtain s4 where s4: "enet_symbol_rescale (i + unat (sy_right (s3 i))) (tot + sy_under (s3 i)) s3 =
        Some (tot + sy_under (s3 i) + of_nat (weight (halve r)), s4)"
      "subtree_at s4 i (sy_right (s3 i)) (halve r)" and c4: "changed (indices r) {} s3 s4"
      using Node.IH(2) [OF r3 False dist(4) w(2)] by blast
    moreover have "node_of (s4 i) = node_of (s3 i)" using c4 dist(3) by (simp add: changed_def)
    moreover have "subtree_at s4 i (sy_left (s3 i)) (halve l)"
      using l3 dist(5) subtree_at_changed [OF c4, of "halve l"] by auto
    moreover have "changed (indices (Node l a r)) {} syms s4"
      using changed_trans [OF c3 c4] by (auto simp: a elim: changed_mono)
    ultimately show ?thesis using walk at(1-3) n3(1-4) under under' by (auto simp: a node_of_def h_def [symmetric])
  qed
qed simp


section \<open>The walk of the decoder\<close>

text \<open>Where the code leads: the symbol, its byte, what is below it, its count and the new tree.  Each
  byte takes its count and \<open>m\<close> more of the code's range.  With \<open>m = 1\<close> every code leads to a byte, so that a
  new symbol can be made; with \<open>m = 0\<close> a code may lead nowhere.\<close>

fun dwalk :: "bool \<Rightarrow> nat \<Rightarrow> nat \<Rightarrow> nat \<Rightarrow> nat \<Rightarrow> nat \<Rightarrow> nodes \<Rightarrow> (nat \<times> u8 \<times> nat \<times> nat \<times> nodes) option" where
  "dwalk create m n d code und Leaf =
     (if create then let v = of_int (int code - int und) in Some (n, v, code, 0, Node Leaf (n, v, d) Leaf) else None)"
| "dwalk create m n d code und (Node l (i, x, c) r) =
     (if code \<ge> und + weight l + c + (unat x + 1) * m
      then (case dwalk create m n d code (und + weight l + c) r of
              None \<Rightarrow> None | Some (s, v, u, k, r') \<Rightarrow> Some (s, v, u, k, Node l (i, x, c) r'))
      else if code < und + weight l + unat x * m
      then (case dwalk create m n d code und l of
              None \<Rightarrow> None | Some (s, v, u, k, l') \<Rightarrow> Some (s, v, u, k, Node l' (i, x, c) r))
      else Some (i, x, und + weight l + unat x * m, c, Node l (i, x, c + d) r))"

lemma dwalk_grown: "dwalk create m n d code und t = Some (s, v, u, k, t') \<Longrightarrow> grown d n t s v k t'"
proof (induction t arbitrary: und t')
  case Leaf
  then show ?case by (auto simp: Let_def grown_new split: if_split_asm)
next
  case (Node l a r)
  obtain i x c where a: "a = (i, x, c)" by (cases a)
  show ?case using Node
    by (auto simp: a grown_found split: if_split_asm option.split_asm intro: grownI_left grownI_right)
qed

lemma dwalk_weight: "dwalk create m n d code und t = Some (s, v, u, k, t') \<Longrightarrow> weight t' = weight t + d"
  by (rule grown_weight [OF dwalk_grown])

lemma unat_of_nat_u16: "k < 65536 \<Longrightarrow> unat (of_nat k :: u16) = k"
  by (simp add: unsigned_of_nat take_bit_nat_eq_self)

lemma uint_int: "uint w = int (unat w)"
  by simp

lemma under_fields:
  "sy_left (s\<lparr>sy_under := y\<rparr>) = sy_left s" "sy_value (s\<lparr>sy_under := y\<rparr>) = sy_value s"
  by simp_all

lemma decode_walk_tree:
  assumes "roomy n d from off t syms" "t \<noteq> Leaf" "und + weight t + 256 * unat m < 65536"
    "unat m \<le> 1" "create \<longrightarrow> m = 1"
  shows "case dwalk create (unat m) n d (unat code) und t of
      None \<Rightarrow> decode_walk create code (of_nat d) m (from + unat off) (of_nat und) syms n = Some None
    | Some (s, v, u, k, t') \<Rightarrow> \<exists>syms' n'.
        decode_walk create code (of_nat d) m (from + unat off) (of_nat und) syms n =
          Some (Some (s, v, of_nat u, m + of_nat k, syms', n')) \<and>
        walks n from off t syms s t' syms' n'"
  using assms
proof (induction t arbitrary: "from" off und syms)
  case (Node l a r)
  obtain i x c where a: "a = (i, x, c)" by (cases a)
  note room = Node.prems(1) [unfolded a]
  note R = roomyD [OF room]
  define aft where "aft = und + weight l + c + (unat x + 1) * unat m"
  define bef where "bef = und + weight l + unat x * unat m"
  have x: "unat x < 256" using unsigned_less [of x] by simp
  have "unat m = 0 \<or> unat m = 1" using Node.prems(4) by linarith
  then have m: "m = 0 \<or> m = 1" by (auto simp: word_unat_eq_iff)
  have lt: "aft < 65536" "bef + c + unat m = aft"
    using Node.prems(3) x m by (auto simp: a aft_def bef_def)
  define A where "A = of_nat und + sy_under (syms i) + (ucast (sy_value (syms i)) + 1) * m"
  define B where "B = ucast (sy_count (syms i)) + m"
  have A: "A = of_nat aft"
    using m under_of_nat [OF R(6)] R(4) by (auto simp: A_def aft_def ac_simps)
  have B: "B = of_nat (c + unat m)"
    using count_of_nat [OF R(5)] by (simp add: B_def)
  have uA: "unat A = aft" unfolding A by (rule unat_of_nat_u16) (rule lt)
  have uB: "unat B = c + unat m" unfolding B by (rule unat_of_nat_u16) (use lt in linarith)
  have iA: "uint A = int aft" by (simp only: uint_int uA)
  have iB: "uint B = int (c + unat m)" by (simp only: uint_int uB)
  have AB: "A - B = of_nat bef" unfolding A B lt(2) [symmetric] by simp
  have ge: "code \<ge> A \<longleftrightarrow> aft \<le> unat code" by (simp add: word_le_nat_alt uA)
  have less: "uint code < uint A - uint B \<longleftrightarrow> unat code < bef"
    unfolding iA iB lt(2) [symmetric] uint_int [of code] by linarith
  have ud: "ucast (of_nat d :: u8) = (of_nat d :: u16)" using R(16) by (rule ucast_of_nat_u16)
  have und: "of_nat und + sy_under (syms i) = of_nat (und + weight l + c)" using under_of_nat [OF R(6)] by simp
  have vr: "uint (sy_value (syms i)) + 1 + (uint code - uint A) div uint m = int (unat code) - int (und + weight l + c)"
    if "create" using that Node.prems(5) R(4) unfolding iA aft_def uint_int [of code] uint_int [of "sy_value (syms i)"] by simp
  have vl: "uint (sy_value (syms i)) - 1 - (uint A - uint B - uint code - 1) div uint m = int (unat code) - int (und + weight l)"
    if "create" using that Node.prems(5) R(4) unfolding iA iB lt(2) [symmetric] bef_def uint_int [of code] uint_int [of "sy_value (syms i)"] by simp
  have ur: "of_int (uint code - (uint code - uint A) mod uint m) = code"
    "of_int (uint code - (uint A - uint B - uint code - 1) mod uint m) = code" if "create"
    using that Node.prems(5) by simp_all
  let ?vr = "of_int (uint (sy_value (syms i)) + 1 + (uint code - uint A) div uint m)"
  let ?vl = "of_int (uint (sy_value (syms i)) - 1 - (uint A - uint B - uint code - 1) div uint m)"
  have step: "decode_walk create code (of_nat d) m i (of_nat und) syms n =
     (if i \<ge> SYMBOLS then None
      else if code \<ge> A then
        if sy_right (syms i) \<noteq> 0
        then decode_walk create code (of_nat d) m (i + unat (sy_right (syms i))) (of_nat und + sy_under (syms i)) syms n
        else if \<not> create then Some None
        else (case ENET_SYMBOL_CREATE ?vr (of_nat d) syms n of
                None \<Rightarrow> None
              | Some (s, syms, n) \<Rightarrow>
                  Some (Some (s, ?vr, of_int (uint code - (uint code - uint A) mod uint m), m,
                    hang_right s i syms, n)))
      else if uint code < uint A - uint B then
        if sy_left (syms i) \<noteq> 0
        then decode_walk create code (of_nat d) m (i + unat (sy_left (syms i))) (of_nat und) (bump d i syms) n
        else if \<not> create then Some None
        else (case ENET_SYMBOL_CREATE ?vl (of_nat d) (bump d i syms) n of
                None \<Rightarrow> None
              | Some (s, syms, n) \<Rightarrow>
                  Some (Some (s, ?vl, of_int (uint code - (uint A - uint B - uint code - 1) mod uint m), m,
                    hang_left s i syms, n)))
      else Some (Some (i, sy_value (syms i), A - B, m + ucast (sy_count (syms i)), count_up d i syms, n)))"
    unfolding decode_walk.simps [of create code "of_nat d" m i "of_nat und" syms n]
    by (simp only: Let_def A_def B_def bump_def hang_left_def hang_right_def count_up_def ud fun_upd_same under_fields)
  have walk: "decode_walk create code (of_nat d) m i (of_nat und) syms n =
     (if aft \<le> unat code then
        if sy_right (syms i) \<noteq> 0
        then decode_walk create code (of_nat d) m (i + unat (sy_right (syms i))) (of_nat (und + weight l + c)) syms n
        else if \<not> create then Some None
        else let v = of_int (int (unat code) - int (und + weight l + c))
             in Some (Some (n, v, code, m, hang_right n i (syms(n := new_symbol v d)), n + 1))
      else if unat code < bef then
        if sy_left (syms i) \<noteq> 0
        then decode_walk create code (of_nat d) m (i + unat (sy_left (syms i))) (of_nat und) (bump d i syms) n
        else if \<not> create then Some None
        else let v = of_int (int (unat code) - int (und + weight l))
             in Some (Some (n, v, code, m, hang_left n i ((bump d i syms)(n := new_symbol v d)), n + 1))
      else Some (Some (i, x, of_nat bef, m + of_nat c, count_up d i syms, n)))"
    unfolding step ge less und AB using R(3,4) create_step [OF R(15,16)] count_of_nat [OF R(5)] vr vl ur
    by (cases create) (simp_all add: Let_def)
  have dw: "dwalk create (unat m) n d (unat code) und (Node l a r) =
      (if aft \<le> unat code
       then (case dwalk create (unat m) n d (unat code) (und + weight l + c) r of
              None \<Rightarrow> None | Some (s, v, u, k, r') \<Rightarrow> Some (s, v, u, k, Node l (i, x, c) r'))
       else if unat code < bef
       then (case dwalk create (unat m) n d (unat code) und l of
              None \<Rightarrow> None | Some (s, v, u, k, l') \<Rightarrow> Some (s, v, u, k, Node l' (i, x, c) r))
       else Some (i, x, bef, c, Node l (i, x, c + d) r))"
    by (simp add: a aft_def bef_def)
  have code: "of_nat (unat code) = code" by simp
  consider (right) "aft \<le> unat code" | (left) "\<not> aft \<le> unat code" "unat code < bef"
    | (here) "\<not> aft \<le> unat code" "\<not> unat code < bef" by blast
  then show ?case
  proof cases
    case right
    show ?thesis
    proof (cases "r = Leaf")
      case True
      then have "sy_right (syms i) = 0" using R(8) by simp
      then show ?thesis
        using right walk dw R(2) create_right [OF room [unfolded True]] by (auto simp: True Let_def a code)
    next
      case False
      then have "sy_right (syms i) \<noteq> 0" using R(8) by (cases r rule: weight.cases) auto
      moreover have "und + weight l + c + weight r + 256 * unat m < 65536" using Node.prems(3) by (simp add: a)
      ultimately show ?thesis
        using right walk dw R(2) descend_right [OF room] Node.prems(4,5)
          Node.IH(2) [OF R(20) False, of "und + weight l + c"]
        by (cases "dwalk create (unat m) n d (unat code) (und + weight l + c) r") (auto simp: a)
    qed
  next
    case left
    show ?thesis
    proof (cases "l = Leaf")
      case True
      then have "sy_left (syms i) = 0" using R(7) by simp
      then show ?thesis
        using left walk dw R(2) create_left [OF room [unfolded True]] by (auto simp: True Let_def a code)
    next
      case False
      then have "sy_left (syms i) \<noteq> 0" using R(7) by (cases l rule: weight.cases) auto
      moreover have "und + weight l + 256 * unat m < 65536" using Node.prems(3) by (simp add: a)
      moreover have "roomy n d i (sy_left (syms i)) l (bump d i syms)" using R(9,19) by (simp add: bump_roomy)
      ultimately show ?thesis
        using left walk dw R(2) descend_left [OF room _ dwalk_weight] Node.prems(4,5)
          Node.IH(1) [of i "sy_left (syms i)" "bump d i syms" und] False
        by (cases "dwalk create (unat m) n d (unat code) und l") (auto simp: a)
    qed
  next
    case here
    then show ?thesis using walk dw R(2) found [OF room] by (auto simp: a)
  qed
qed simp


text \<open>A code in the byte's part of the range leads to the byte.\<close>

lemma below_seek: "below v t + snd (seek v n t) \<le> weight t"
proof (induction t)
  case (Node l a r)
  obtain i x c where "a = (i, x, c)" by (cases a)
  then show ?case using Node by auto
qed simp

lemma dwalk_byte:
  assumes "und + below v t + unat v * m \<le> code" "code < und + below v t + unat v * m + snd (seek v n t) + m"
    "if create then m = 1 else m = 0"
  shows "dwalk create m n d code und t =
    Some (fst (seek v n t), v, und + below v t + unat v * m, snd (seek v n t), ins v d n t)"
  using assms(1,2)
proof (induction t arbitrary: und)
  case Leaf
  then have "code = und + unat v" "create" "m = 1" using assms(3) by (auto split: if_split_asm)
  then show ?case by (simp add: Let_def)
next
  case (Node l a r)
  obtain i x c where a: "a = (i, x, c)" by (cases a)
  consider (lt) "v < x" | (gt) "v > x" | (eq) "v = x" by force
  then show ?case
  proof cases
    case lt
    then have "unat v + 1 \<le> unat x" by (simp add: word_less_nat_alt)
    then have "(unat v + 1) * m \<le> unat x * m" by (rule mult_le_mono1)
    moreover have "below v l + snd (seek v n l) \<le> weight l" by (rule below_seek)
    ultimately have "code < und + weight l + unat x * m" using Node.prems(2) lt by (simp add: a)
    then show ?thesis using Node.IH(1) [of und] Node.prems lt by (simp add: a)
  next
    case gt
    then have ngt: "\<not> v < x" by simp
    have "unat x + 1 \<le> unat v" using gt by (simp add: word_less_nat_alt)
    then have "(unat x + 1) * m \<le> unat v * m" by (rule mult_le_mono1)
    then have "und + weight l + c + (unat x + 1) * m \<le> code" using Node.prems(1) gt ngt by (simp add: a)
    then show ?thesis using Node.IH(2) [of "und + weight l + c"] Node.prems gt ngt by (simp add: a ac_simps)
  next
    case eq
    then show ?thesis using Node.prems by (simp add: a)
  qed
qed

section \<open>Trees as sorted lists\<close>

text \<open>What a context knows: the bytes it has seen, in order, with their counts.\<close>

definition entries :: "nodes \<Rightarrow> (u8 \<times> nat) list" where
  "entries t = map snd (inorder t)"

abbreviation ordered :: "nodes \<Rightarrow> bool" where
  "ordered t \<equiv> sorted_wrt (<) (map fst (entries t))"

fun tally :: "u8 \<Rightarrow> nat \<Rightarrow> (u8 \<times> nat) list \<Rightarrow> (u8 \<times> nat) list" where
  "tally v d [] = [(v, d)]"
| "tally v d ((x, c) # xs) =
     (if v < x then (v, d) # (x, c) # xs else if v = x then (x, c + d) # xs else (x, c) # tally v d xs)"

definition count_in :: "u8 \<Rightarrow> (u8 \<times> nat) list \<Rightarrow> nat" where
  "count_in v xs = sum_list (map snd (filter (\<lambda>(x, c). x = v) xs))"

definition less_in :: "u8 \<Rightarrow> (u8 \<times> nat) list \<Rightarrow> nat" where
  "less_in v xs = sum_list (map snd (filter (\<lambda>(x, c). x < v) xs))"

definition sum_in :: "(u8 \<times> nat) list \<Rightarrow> nat" where
  "sum_in xs = sum_list (map snd xs)"

lemma entries_simps [simp]:
  "entries Leaf = []" "entries (Node l (i, x, c) r) = entries l @ (x, c) # entries r"
  by (simp_all add: entries_def)

lemma weight_entries: "weight t = sum_in (entries t)"
  by (induction t rule: weight.induct) (simp_all add: sum_in_def)

lemma tally_less: "\<forall>y\<in>fst ` set ys. v < y \<Longrightarrow> tally v d (xs @ ys) = tally v d xs @ ys"
proof (induction xs)
  case Nil
  then show ?case by (cases ys) auto
qed auto

lemma tally_greater: "\<forall>y\<in>fst ` set xs. y < v \<Longrightarrow> tally v d (xs @ ys) = xs @ tally v d ys"
  by (induction xs) (auto simp: not_less_iff_gr_or_eq)

lemma set_tally: "fst ` set (tally v d xs) = insert v (fst ` set xs)"
  by (induction v d xs rule: tally.induct) auto

lemma sorted_tally: "sorted_wrt (<) (map fst xs) \<Longrightarrow> sorted_wrt (<) (map fst (tally v d xs))"
proof (induction v d xs rule: tally.induct)
  case (2 v d x c xs)
  then show ?case using set_tally [of v d xs] by (force simp: not_less_iff_gr_or_eq)
qed simp

lemma count_in_simps [simp]:
  "count_in v [] = 0" "count_in v ((x, c) # xs) = (if x = v then c else 0) + count_in v xs"
  "count_in v (xs @ ys) = count_in v xs + count_in v ys"
  by (simp_all add: count_in_def)

lemma less_in_simps [simp]:
  "less_in v [] = 0" "less_in v ((x, c) # xs) = (if x < v then c else 0) + less_in v xs"
  "less_in v (xs @ ys) = less_in v xs + less_in v ys"
  by (simp_all add: less_in_def)

lemma sum_in_simps [simp]:
  "sum_in [] = 0" "sum_in ((x, c) # xs) = c + sum_in xs" "sum_in (xs @ ys) = sum_in xs + sum_in ys"
  by (simp_all add: sum_in_def)

lemma count_in_0: "v \<notin> fst ` set xs \<Longrightarrow> count_in v xs = 0"
  by (induction xs) auto

lemma less_in_all: "\<forall>y\<in>fst ` set xs. y < v \<Longrightarrow> less_in v xs = sum_in xs"
  by (induction xs) auto

lemma less_in_none: "\<forall>y\<in>fst ` set xs. v \<le> y \<Longrightarrow> less_in v xs = 0"
  by (induction xs) (auto simp: not_less)

lemma ordered_Node:
  assumes "ordered (Node l (i, x, c) r)"
  shows "ordered l" "ordered r" "\<forall>y\<in>fst ` set (entries l). y < x" "\<forall>y\<in>fst ` set (entries r). x < y"
  using assms by (auto simp: sorted_wrt_append)

lemma ordered_walk_all:
  assumes "ordered t"
  shows "entries (ins v d n t) = tally v d (entries t) \<and>
    snd (seek v n t) = count_in v (entries t) \<and> below v t = less_in v (entries t)"
  using assms
proof (induction t)
  case (Node l a r)
  obtain i x c where a: "a = (i, x, c)" by (cases a)
  note o = ordered_Node [OF Node.prems [unfolded a]]
  consider (lt) "v < x" | (gt) "v > x" | (eq) "v = x" by force
  note cs = this
  have lists: "tally v d (entries l @ (x, c) # entries r) =
      (if v < x then tally v d (entries l) @ (x, c) # entries r
       else if v > x then entries l @ (x, c) # tally v d (entries r)
       else entries l @ (x, c + d) # entries r)"
  proof (cases rule: cs)
    case lt
    then have "\<forall>y\<in>fst ` set ((x, c) # entries r). v < y" using o(4) by auto
    then show ?thesis using lt tally_less by simp
  next
    case gt
    then have "\<forall>y\<in>fst ` set (entries l @ [(x, c)]). y < v" using o(3) by auto
    from tally_greater [OF this, of d "entries r"] show ?thesis using gt by auto
  next
    case eq
    then have "\<forall>y\<in>fst ` set (entries l). y < v" using o(3) by auto
    from tally_greater [OF this, of d "(x, c) # entries r"] show ?thesis using eq by auto
  qed
  note IH = Node.IH(1) [OF o(1)] Node.IH(2) [OF o(2)]
  have "entries (ins v d n (Node l a r)) = tally v d (entries (Node l a r))"
    using IH by (simp add: a lists)
  moreover have "snd (seek v n (Node l a r)) = count_in v (entries (Node l a r))"
  proof (cases rule: cs)
    case lt
    then have "count_in v (entries r) = 0" using o(4) by (intro count_in_0) auto
    then show ?thesis using lt IH by (auto simp: a)
  next
    case gt
    then have "count_in v (entries l) = 0" using o(3) by (intro count_in_0) auto
    then show ?thesis using gt IH by (auto simp: a)
  next
    case eq
    then have "count_in v (entries l) = 0" "count_in v (entries r) = 0" using o(3,4) by (auto intro!: count_in_0)
    then show ?thesis using eq by (simp add: a)
  qed
  moreover have "below v (Node l a r) = less_in v (entries (Node l a r))"
  proof (cases rule: cs)
    case lt
    then have "less_in v (entries r) = 0" using o(4) by (intro less_in_none) auto
    then show ?thesis using lt IH by (auto simp: a)
  next
    case gt
    then have "less_in v (entries l) = weight l" using o(3) unfolding weight_entries by (intro less_in_all) auto
    then show ?thesis using gt IH by (auto simp: a)
  next
    case eq
    then have "less_in v (entries l) = weight l" "less_in v (entries r) = 0"
      using o(3,4) unfolding weight_entries by (auto intro!: less_in_all less_in_none)
    then show ?thesis using eq by (simp add: a)
  qed
  ultimately show ?case by blast
qed simp_all

lemma ordered_walk:
  assumes "ordered t"
  shows "entries (ins v d n t) = tally v d (entries t)"
    "snd (seek v n t) = count_in v (entries t)" "below v t = less_in v (entries t)"
  using ordered_walk_all [OF assms] by simp_all

lemma entries_halve: "entries (halve t) = map (\<lambda>(x, c). (x, half c)) (entries t)"
  by (induction t rule: halve.induct) simp_all

end
