(* ===== verification/EnetContexts.thy ===== *)
theory EnetContexts
  imports EnetSymbols
begin

text \<open>
  The contexts of the range coder: a context has a tree of the bytes that followed it, the number of its
  escapes and a total.  The theory states when a context is intact, shows that looking up and counting a
  byte, escaping and halving keep it intact, and lifts this to the whole memory: every symbol belongs to
  exactly one context, and is named by the bytes that lead to it.
\<close>

section \<open>One context\<close>

text \<open>\<open>m\<close> is the minimum each byte has in the context: 1 in the root, 0 elsewhere.\<close>

definition delta :: "nat \<Rightarrow> nat" where
  "delta m = (if m = 0 then ENET_SUBCONTEXT_SYMBOL_DELTA else ENET_CONTEXT_SYMBOL_DELTA)"

lemma delta_bounds: "2 \<le> delta m" "delta m \<le> 3"
  by (simp_all add: delta_def)

definition sums_ok :: "nat \<Rightarrow> nat \<Rightarrow> nodes \<Rightarrow> bool" where
  "sums_ok m e t \<longleftrightarrow>
     e + 256 * m + weight t \<le> 65280 \<and> e \<le> 5 * weight t + m \<and> (e = 0 \<longleftrightarrow> m = 0 \<and> t = Leaf) \<and>
     (\<forall>(j, x, c)\<in>set_tree t. 0 < c \<and> c + delta m \<le> 255)"

definition context_at :: "symbols \<Rightarrow> nat \<Rightarrow> nat \<Rightarrow> nodes \<Rightarrow> bool" where
  "context_at syms i m t \<longleftrightarrow>
     subtree_at syms i (sy_symbols (syms i)) t \<and> distinct_nodes t \<and>
     sums_ok m (unat (sy_escapes (syms i))) t \<and>
     unat (sy_total (syms i)) = unat (sy_escapes (syms i)) + 256 * m + weight t"

text \<open>A byte has been counted in context \<open>i\<close>, at symbol \<open>s\<close>; its total and escapes still wait.\<close>

definition entered :: "nat \<Rightarrow> nat \<Rightarrow> nat \<Rightarrow> nodes \<Rightarrow> nodes \<Rightarrow> symbols \<Rightarrow> symbols \<Rightarrow> nat \<Rightarrow> bool" where
  "entered i n s t t' syms syms' n' \<longleftrightarrow>
     subtree_at syms' i (sy_symbols (syms' i)) t' \<and> changed (indices t \<union> {n}) {n, i} syms syms' \<and>
     sy_escapes (syms' i) = sy_escapes (syms i) \<and> sy_total (syms' i) = sy_total (syms i) \<and>
     sy_parent (syms' i) = sy_parent (syms i) \<and>
     (if s = n then n' = n + 1 \<and> context_of (syms' n) = (0, 0, 0, 0)
      else n' = n \<and> syms' n = syms n)"

lemma context_roomy:
  assumes "context_at syms i m t" "\<forall>j\<in>indices t. j < n" "n < SYMBOLS"
  shows "roomy n (delta m) i (sy_symbols (syms i)) t syms"
  using assms delta_bounds [of m] by (fastforce simp: context_at_def roomy_def sums_ok_def)

lemma walks_entered:
  assumes "walks n i (sy_symbols (syms i)) t syms s t' syms' n'" "i \<noteq> n"
  shows "entered i n s t t' syms syms' n'"
proof -
  have ch: "changed (indices t \<union> {n}) {n} syms syms'" using assms(1) by (simp add: walks_def)
  then have "context_of (syms' i) = context_of (syms i)" using assms(2) by (simp add: changed_def)
  then have "sy_symbols (syms' i) = sy_symbols (syms i) \<and> sy_escapes (syms' i) = sy_escapes (syms i) \<and>
      sy_total (syms' i) = sy_total (syms i) \<and> sy_parent (syms' i) = sy_parent (syms i)"
    by (simp add: context_of_def)
  moreover have "changed (indices t \<union> {n}) {n, i} syms syms'" using ch by (auto elim: changed_mono)
  ultimately show ?thesis using assms(1) by (simp add: entered_def walks_def)
qed

text \<open>The first symbol of a context.\<close>

definition first_symbol :: "nat \<Rightarrow> nat \<Rightarrow> symbols \<Rightarrow> symbols" where
  "first_symbol n i syms = syms(i := (syms i)\<lparr>sy_symbols := symbol_distance n i\<rparr>)"

lemma first_entered:
  assumes "i < n" "n < SYMBOLS" "d < 256"
  shows "entered i n n Leaf (Node Leaf (n, v, d) Leaf) syms (first_symbol n i (syms(n := new_symbol v d))) (n + 1)"
proof -
  let ?s = "first_symbol n i (syms(n := new_symbol v d))"
  have n: "?s n = new_symbol v d" using assms by (simp add: first_symbol_def)
  have "subtree_at ?s i (symbol_distance n i) (Node Leaf (n, v, d) Leaf)"
    by (rule new_subtree [OF assms]) (rule n)
  moreover have "?s i = (syms i)\<lparr>sy_symbols := symbol_distance n i\<rparr>" using assms by (simp add: first_symbol_def)
  moreover have "changed (indices Leaf \<union> {n}) {n, i} syms ?s"
    by (auto simp: changed_def first_symbol_def node_of_def context_of_def)
  ultimately show ?thesis using n by (simp add: entered_def del: subtree_at.simps indices_simps)
qed

lemma context_Leaf: "context_at syms i m t \<Longrightarrow> sy_symbols (syms i) = 0 \<longleftrightarrow> t = Leaf"
  by (cases t rule: weight.cases) (auto simp: context_at_def)

lemma encode_context_tree:
  assumes "context_at syms i m t" "\<forall>j\<in>indices t. j < n" "n < SYMBOLS" "i < n" "m \<le> 1"
  shows "\<exists>syms' n'. ENET_CONTEXT_ENCODE i v (of_nat (delta m)) (of_nat m) syms n =
      Some (fst (seek v n t), of_nat (below v t + unat v * m), of_nat (snd (seek v n t) + m), syms', n') \<and>
    entered i n (fst (seek v n t)) t (ins v (delta m) n t) syms syms' n'"
proof -
  have d: "delta m < 256" using delta_bounds(2) [of m] by simp
  have v: "(ucast v :: u16) * of_nat m = of_nat (unat v * m)" by (simp only: of_nat_mult of_nat_unat)
  show ?thesis
  proof (cases "t = Leaf")
    case True
    then have "sy_symbols (syms i) = 0" using context_Leaf [OF assms(1)] by simp
    then show ?thesis
      using first_entered [OF assms(4,3) d, of v syms] create_step [OF assms(3) d] assms(3,4) v True
      by (simp add: ENET_CONTEXT_ENCODE_def Let_def first_symbol_def)
  next
    case False
    then have "sy_symbols (syms i) \<noteq> 0" using context_Leaf [OF assms(1)] by simp
    then show ?thesis
      using encode_walk_tree [OF context_roomy [OF assms(1-3)] False, of v "of_nat (unat v * m)" "of_nat m"]
        assms(3,4) v walks_entered [of n i syms t]
      by (fastforce simp: ENET_CONTEXT_ENCODE_def Let_def ac_simps)
  qed
qed

lemma decode_context_tree:
  assumes "context_at syms i m t" "\<forall>j\<in>indices t. j < n" "n < SYMBOLS" "i < n" "m \<le> 1" "create \<longleftrightarrow> m = 1"
  shows "case dwalk create m n (delta m) (unat code) 0 t of
      None \<Rightarrow> ENET_CONTEXT_DECODE create i code (of_nat (delta m)) (of_nat m) syms n = Some None
    | Some (s, v, u, k, t') \<Rightarrow> \<exists>syms' n'.
        ENET_CONTEXT_DECODE create i code (of_nat (delta m)) (of_nat m) syms n =
          Some (Some (s, v, of_nat u, of_nat (k + m), syms', n')) \<and>
        entered i n s t t' syms syms' n'"
proof (cases "t = Leaf")
  case True
  have d: "delta m < 256" using delta_bounds(2) [of m] by simp
  have "sy_symbols (syms i) = 0" using context_Leaf [OF assms(1)] True by simp
  then show ?thesis
    using first_entered [OF assms(4,3) d, of _ syms] create_step [OF assms(3) d] assms(3-6) True
    by (cases create) (auto simp: ENET_CONTEXT_DECODE_def Let_def first_symbol_def)
next
  case False
  then have nz: "sy_symbols (syms i) \<noteq> 0" using context_Leaf [OF assms(1)] by simp
  have um: "unat (of_nat m :: u16) = m" using assms(5) by (intro unat_of_nat_u16) simp
  have "0 + weight t + 256 * unat (of_nat m :: u16) < 65536"
    using assms(1) unfolding um by (auto simp: context_at_def sums_ok_def)
  then show ?thesis
    using decode_walk_tree [OF context_roomy [OF assms(1-3)] False, of 0 "of_nat m" create code]
      nz assms(3-6) walks_entered [of n i syms t] um
    by (cases "dwalk create m n (delta m) (unat code) 0 t")
       (fastforce simp: ENET_CONTEXT_DECODE_def ac_simps)+
qed


section \<open>Growing and halving\<close>

text \<open>The largest count before a context is halved.\<close>

definition rescale_limit :: "nat \<Rightarrow> nat" where
  "rescale_limit m = (if m = 0 then 0xFF - 2 * ENET_SUBCONTEXT_SYMBOL_DELTA
     else 0xFF - 2 * ENET_CONTEXT_SYMBOL_DELTA + ENET_CONTEXT_SYMBOL_MINIMUM)"

text \<open>The escapes and the tree after a byte has been counted whose count was \<open>k\<close>.\<close>

definition settle :: "nat \<Rightarrow> nat \<Rightarrow> nat \<Rightarrow> nodes \<Rightarrow> nat \<times> nodes" where
  "settle m k e t =
     (let e = (if m = 0 \<and> k = 0 then e + ENET_SUBCONTEXT_ESCAPE_DELTA else e)
      in if k + m > rescale_limit m \<or> e + 256 * m + weight t > 65280 then (half e, halve t) else (e, t))"

lemma size_le:
  assumes "distinct_nodes t" "\<forall>j\<in>indices t. j < SYMBOLS"
  shows "length (inorder t) \<le> 4096"
proof -
  have "length (inorder t) = card (set (map fst (inorder t)))" using distinct_card [OF assms(1)] by simp
  also have "\<dots> \<le> card {..<4096 :: nat}" using assms(2) by (intro card_mono) (auto simp: indices_def)
  finally show ?thesis by simp
qed

lemma weight_halve_le: "2 * weight (halve t) \<le> weight t + length (inorder t)"
  by (induction t rule: halve.induct) auto

lemma set_halve: "set_tree (halve t) = (\<lambda>(j, x, c). (j, x, half c)) ` set_tree t"
  by (simp add: inorder_halve flip: set_inorder)

lemma settle_ok:
  assumes "sums_ok m e t" "grown (delta m) n t s v k t'" "distinct_nodes t'" "\<forall>j\<in>indices t'. j < SYMBOLS" "m \<le> 1"
    "settle m k e t' = (e', t'')"
  shows "sums_ok m e' t''"
proof -
  define e1 where "e1 = (if m = 0 \<and> k = 0 then e + 5 else e)"
  have w: "weight t' = weight t + delta m" by (rule grown_weight [OF assms(2)])
  have S: "e + 256 * m + weight t \<le> 65280" "e \<le> 5 * weight t + m" "e = 0 \<longleftrightarrow> m = 0 \<and> t = Leaf"
    and C: "\<And>j x c. (j, x, c) \<in> set_tree t \<Longrightarrow> 0 < c \<and> c + delta m \<le> 255"
    using assms(1) by (auto simp: sums_ok_def)
  have T: "t' \<noteq> Leaf" using grown_nodes(2) [OF assms(2)] by auto
  have K: "k = 0 \<or> (s, v, k) \<in> set_tree t"
    using assms(2) by (auto simp: grown_def simp flip: set_inorder simp del: set_inorder)
  have k: "k + delta m \<le> 255" using K C delta_bounds(2) [of m] by auto
  have e1: "e1 \<le> 5 * weight t' + m" "e1 \<noteq> 0" "e1 + 256 * m + weight t' \<le> 65288"
    using S w delta_bounds [of m] K by (auto simp: e1_def)
  have c1: "0 < c \<and> c \<le> 255 \<and> (k + m \<le> rescale_limit m \<longrightarrow> c + delta m \<le> 255)" if "(j, x, c) \<in> set_tree t'" for j x c
  proof -
    have "c = k + delta m \<or> 0 < c \<and> c + delta m \<le> 255" using grown_nodes(1) [OF assms(2) that] C by blast
    then show ?thesis using k assms(5) by (auto simp: rescale_limit_def delta_def split: if_split_asm)
  qed
  show ?thesis
  proof (cases "k + m > rescale_limit m \<or> e1 + 256 * m + weight t' > 65280")
    case True
    then have eq: "e' = half e1" "t'' = halve t'" using assms(6) by (auto simp: settle_def e1_def [symmetric])
    have n: "2 * weight (halve t') \<le> weight t' + 4096" "weight t' \<le> 2 * weight (halve t')"
      using weight_halve_le [of t'] size_le [OF assms(3,4)] weight_halve(2) [of t'] by linarith+
    have "half e1 + 256 * m + weight (halve t') \<le> 65280" using n(1) e1(3) assms(5) by linarith
    moreover have "half e1 \<le> 5 * weight (halve t') + m" using n(2) e1(1) by linarith
    moreover have "half e1 \<noteq> 0" using e1(2) by linarith
    moreover have "0 < c \<and> c + delta m \<le> 255" if "(j, x, c) \<in> set_tree (halve t')" for j x c
      using that c1 delta_bounds(2) [of m] by (fastforce simp: set_halve)
    ultimately show ?thesis using T by (auto simp: sums_ok_def eq)
  next
    case False
    then have eq: "e' = e1" "t'' = t'" using assms(6) by (auto simp: settle_def e1_def [symmetric])
    show ?thesis using False e1 c1 T by (auto simp: sums_ok_def eq)
  qed
qed

definition fields_of :: "ENetSymbol \<Rightarrow> u16 \<times> u16 \<times> u16" where
  "fields_of s = (sy_symbols s, sy_escapes s, sy_total s)"

lemma rescale_context:
  assumes "subtree_at syms i (sy_symbols (syms i)) t" "t \<noteq> Leaf" "distinct_nodes t" "i \<notin> indices t"
    "weight t < 65536" "unat (sy_escapes (syms i)) = e" "half e + 256 * m + weight (halve t) < 65536" "m \<le> 1"
  shows "\<exists>syms'. ENET_CONTEXT_RESCALE i (of_nat m) syms = Some syms' \<and>
    subtree_at syms' i (sy_symbols (syms i)) (halve t) \<and> sy_symbols (syms' i) = sy_symbols (syms i) \<and>
    unat (sy_escapes (syms' i)) = half e \<and> unat (sy_total (syms' i)) = half e + 256 * m + weight (halve t) \<and>
    changed (indices t) {i} syms syms' \<and> (\<forall>j. sy_parent (syms' j) = sy_parent (syms j))"
proof -
  have nz: "sy_symbols (syms i) \<noteq> 0" using assms(1,2) by (cases t rule: weight.cases) auto
  obtain s1 where s1: "enet_symbol_rescale (i + unat (sy_symbols (syms i))) 0 syms = Some (of_nat (weight (halve t)), s1)"
    "subtree_at s1 i (sy_symbols (syms i)) (halve t)" and ch: "changed (indices t) {} syms s1"
    using rescale_tree [OF assms(1-3,5), of 0] by auto
  have ctx: "context_of (s1 j) = context_of (syms j)" for j using ch by (simp add: changed_def)
  then have ctx: "sy_symbols (s1 j) = sy_symbols (syms j)" "sy_escapes (s1 j) = sy_escapes (syms j)"
    "sy_parent (s1 j) = sy_parent (syms j)" for j by (simp_all add: context_of_def)
  define E where "E = sy_escapes (syms i) - drop_bit 1 (sy_escapes (syms i))"
  have E: "unat E = half e" unfolding E_def unat_half assms(6) ..
  define s2 where "s2 = s1(i := (s1 i)\<lparr>sy_escapes := E, sy_total := of_nat (weight (halve t)) + (E + 256 * of_nat m)\<rparr>)"
  have "E = of_nat (half e)" using E by (metis of_nat_unat ucast_id)
  then have "of_nat (weight (halve t)) + (E + 256 * of_nat m) = (of_nat (half e + 256 * m + weight (halve t)) :: u16)"
    by (simp only: of_nat_add of_nat_mult of_nat_numeral ac_simps)
  then have tot: "unat (sy_total (s2 i)) = half e + 256 * m + weight (halve t)"
    using unat_of_nat_u16 [OF assms(7)] by (simp add: s2_def del: of_nat_add)
  have "ENET_CONTEXT_RESCALE i (of_nat m) syms = Some s2"
    using nz s1(1) by (simp add: ENET_CONTEXT_RESCALE_def s2_def E_def ctx Let_def)
  moreover have "subtree_at s2 i (sy_symbols (syms i)) (halve t)"
    using s1(2) assms(4) by (subst subtree_at_cong [of _ _ s1]) (auto simp: s2_def)
  moreover have "changed (indices t) {i} syms s2"
    using ch by (auto simp: changed_def s2_def node_of_def context_of_def)
  moreover have "\<forall>j. sy_parent (s2 j) = sy_parent (syms j)" using ctx by (simp add: s2_def)
  ultimately show ?thesis using tot E ctx by (intro exI [of _ s2]) (simp add: s2_def)
qed


lemma grow_settles:
  assumes at: "subtree_at syms i (sy_symbols (syms i)) t'" "t' \<noteq> Leaf" "distinct_nodes t'" "i \<notin> indices t'"
    and e: "unat (sy_escapes (syms i)) = e" "unat (sy_total (syms i)) = e + 256 * m + weight t"
    and w: "weight t' = weight t + delta m" "e + 256 * m + weight t \<le> 65280" "m \<le> 1"
    and st: "settle m k e t' = (e'', t'')" "large \<longleftrightarrow> k + m > rescale_limit m"
  shows "\<exists>syms'. grow_context i (of_nat (delta m)) (of_nat m) large
        (if m = 0 \<and> k = 0 then escape_context i syms else syms) = Some syms' \<and>
      subtree_at syms' i (sy_symbols (syms i)) t'' \<and> sy_symbols (syms' i) = sy_symbols (syms i) \<and>
      unat (sy_escapes (syms' i)) = e'' \<and> unat (sy_total (syms' i)) = e'' + 256 * m + weight t'' \<and>
      changed (indices t') {i} syms syms' \<and> (\<forall>j. sy_parent (syms' j) = sy_parent (syms j))"
proof -
  define x where "x = (if m = 0 \<and> k = 0 then 5 else 0 :: nat)"
  define s2 where "s2 = syms(i := (syms i)\<lparr>sy_escapes := sy_escapes (syms i) + of_nat x,
    sy_total := sy_total (syms i) + of_nat x + of_nat (delta m)\<rparr>)"
  have s2: "(let syms = (if m = 0 \<and> k = 0 then escape_context i syms else syms)
      in syms(i := (syms i)\<lparr>sy_total := sy_total (syms i) + of_nat (delta m)\<rparr>)) = s2"
    by (simp add: s2_def x_def escape_context_def)
  have d: "delta m \<le> 3" "x \<le> 5" by (simp_all add: delta_bounds x_def)
  have e2: "unat (sy_escapes (s2 i)) = e + x"
    using unat_u16_add [of "sy_escapes (syms i)" x] e(1) w(2) d by (simp add: s2_def)
  have t2: "unat (sy_total (s2 i)) = e + x + 256 * m + weight t'"
    using unat_u16_add [of "sy_total (syms i)" "x + delta m"] e(2) w(1,2) d by (simp add: s2_def ac_simps)
  have at2: "subtree_at s2 i (sy_symbols (s2 i)) t'"
    using at(1,4) by (subst subtree_at_cong [of _ _ syms]) (auto simp: s2_def)
  have big: "ENET_RANGE_CODER_BOTTOM - 0x100 < sy_total (s2 i) \<longleftrightarrow> 65280 < e + x + 256 * m + weight t'"
    by (simp add: word_less_nat_alt t2)
  have grow: "grow_context i (of_nat (delta m)) (of_nat m) large (if m = 0 \<and> k = 0 then escape_context i syms else syms) =
      (if large \<or> 65280 < e + x + 256 * m + weight t' then ENET_CONTEXT_RESCALE i (of_nat m) s2 else Some s2)"
    unfolding grow_context_def Let_def s2 [unfolded Let_def] big by (rule refl)
  have ch: "changed (indices t') {i} syms s2" "\<And>j. sy_parent (s2 j) = sy_parent (syms j)" "sy_symbols (s2 i) = sy_symbols (syms i)"
    by (simp_all add: s2_def changed_def node_of_def)
  have se: "(e'', t'') = (if large \<or> 65280 < e + x + 256 * m + weight t' then (half (e + x), halve t') else (e + x, t'))"
  proof -
    have ex: "(if m = 0 \<and> k = 0 then e + 5 else e) = e + x" by (simp add: x_def)
    show ?thesis using st unfolding settle_def Let_def ex by auto
  qed
  show ?thesis
  proof (cases "large \<or> 65280 < e + x + 256 * m + weight t'")
    case True
    have "weight t' < 65536" "half (e + x) + 256 * m + weight (halve t') < 65536"
      using w d weight_halve(1) [of t'] by linarith+
    from rescale_context [OF at2 at(2-4) this(1) e2 this(2) w(3)]
    obtain s3 where s3: "ENET_CONTEXT_RESCALE i (of_nat m) s2 = Some s3"
      "subtree_at s3 i (sy_symbols (s2 i)) (halve t')" "sy_symbols (s3 i) = sy_symbols (s2 i)"
      "unat (sy_escapes (s3 i)) = half (e + x)" "unat (sy_total (s3 i)) = half (e + x) + 256 * m + weight (halve t')"
      and c3: "changed (indices t') {i} s2 s3" "\<And>j. sy_parent (s3 j) = sy_parent (s2 j)" by blast
    have "changed (indices t') {i} syms s3" using changed_trans [OF ch(1) c3(1)] by simp
    then show ?thesis using True grow se s3 c3(2) ch(2,3) by (intro exI [of _ s3]) simp
  next
    case False
    then show ?thesis using grow se at2 e2 t2 ch by (intro exI [of _ s2]) simp
  qed
qed

section \<open>The whole memory\<close>

text \<open>\<open>T i\<close> is the tree of context \<open>i\<close>, \<open>nm i\<close> the bytes that lead to symbol \<open>i\<close>, and the symbols below
  \<open>n\<close> are in use.  Every one of them but the root is in the tree of exactly one context.\<close>

abbreviation (input) minimum_of :: "nat \<Rightarrow> nat" where
  "minimum_of i \<equiv> (if i = 0 then 1 else 0)"

definition wf :: "(nat \<Rightarrow> nodes) \<Rightarrow> (nat \<Rightarrow> u8 list) \<Rightarrow> symbols \<Rightarrow> nat \<Rightarrow> bool" where
  "wf T nm syms n \<longleftrightarrow>
     0 < n \<and> n \<le> SYMBOLS \<and> nm 0 = [] \<and> (\<forall>j<n. j \<noteq> 0 \<longrightarrow> nm j \<noteq> []) \<and> (\<forall>j<n. length (nm j) \<le> 3) \<and>
     (\<forall>i<n. context_at syms i (minimum_of i) (T i)) \<and>
     (\<forall>i<n. \<forall>(j, x, c)\<in>set_tree (T i). j < n \<and> nm j = nm i @ [x]) \<and>
     (\<forall>i<n. \<forall>i'<n. i \<noteq> i' \<longrightarrow> indices (T i) \<inter> indices (T i') = {}) \<and>
     (\<forall>j<n. j \<noteq> 0 \<longrightarrow> (\<exists>i<n. j \<in> indices (T i)))"

text \<open>The parent of a symbol is the symbol of the same bytes without the first.  The symbols in \<open>X\<close>
  still wait for theirs.\<close>

definition parents :: "(nat \<Rightarrow> u8 list) \<Rightarrow> symbols \<Rightarrow> nat \<Rightarrow> nat set \<Rightarrow> bool" where
  "parents nm syms n X \<longleftrightarrow>
     (\<forall>j<n. j \<noteq> 0 \<longrightarrow> j \<notin> X \<longrightarrow> unat (sy_parent (syms j)) < n \<and> nm (unat (sy_parent (syms j))) = tl (nm j))"


lemma context_at_cong:
  assumes "\<And>j. j \<in> indices t \<Longrightarrow> node_of (syms' j) = node_of (syms j)" "fields_of (syms' i) = fields_of (syms i)"
  shows "context_at syms' i m t = context_at syms i m t"
  using assms(2) subtree_at_cong [of t syms' syms i, OF assms(1)]
  by (simp add: context_at_def fields_of_def)

lemma wfD:
  assumes "wf T nm syms n"
  shows "0 < n" "n \<le> SYMBOLS" "nm 0 = []" "j < n \<Longrightarrow> j \<noteq> 0 \<Longrightarrow> nm j \<noteq> []" "j < n \<Longrightarrow> length (nm j) \<le> 3"
    "i < n \<Longrightarrow> context_at syms i (minimum_of i) (T i)"
    "i < n \<Longrightarrow> (j, x, c) \<in> set_tree (T i) \<Longrightarrow> j < n \<and> nm j = nm i @ [x]"
    "i < n \<Longrightarrow> i' < n \<Longrightarrow> i \<noteq> i' \<Longrightarrow> indices (T i) \<inter> indices (T i') = {}"
    "j < n \<Longrightarrow> j \<noteq> 0 \<Longrightarrow> \<exists>i<n. j \<in> indices (T i)"
    "i < n \<Longrightarrow> j \<in> indices (T i) \<Longrightarrow> j < n"
  using assms by (auto simp: wf_def indices_def) blast

definition new_trees :: "(nat \<Rightarrow> nodes) \<Rightarrow> nat \<Rightarrow> nat \<Rightarrow> nat \<Rightarrow> nodes \<Rightarrow> (nat \<Rightarrow> nodes)" where
  "new_trees T n i s t = (if s = n then T(n := Leaf, i := t) else T(i := t))"

definition new_names :: "(nat \<Rightarrow> u8 list) \<Rightarrow> nat \<Rightarrow> nat \<Rightarrow> nat \<Rightarrow> u8 \<Rightarrow> (nat \<Rightarrow> u8 list)" where
  "new_names nm n i s v = (if s = n then nm(n := nm i @ [v]) else nm)"

text \<open>Counting the byte \<open>v\<close> in context \<open>i\<close>: the walk, a parent that is set in between, and what follows.\<close>

lemma learn_wf:
  assumes wf: "wf T nm syms n" "i < n" "n < SYMBOLS" "length (nm i) \<le> 2"
    and m: "m = minimum_of i"
    and walk: "entered i n s (T i) t' syms syms1 n'" "grown (delta m) n (T i) s v k t'"
    and par: "\<And>j. node_of (syms2 j) = node_of (syms1 j)" "\<And>j. fields_of (syms2 j) = fields_of (syms1 j)"
    and large: "large \<longleftrightarrow> k + m > rescale_limit m"
  obtains syms3 e t where
    "grow_context i (of_nat (delta m)) (of_nat m) large (if m = 0 \<and> k = 0 then escape_context i syms2 else syms2) = Some syms3"
    "settle m k (unat (sy_escapes (syms i))) t' = (e, t)" "unat (sy_escapes (syms3 i)) = e"
    "wf (new_trees T n i s t) (new_names nm n i s v) syms3 n'"
    "\<And>j. sy_parent (syms3 j) = sy_parent (syms2 j)"
    "\<And>j. j < n \<Longrightarrow> j \<noteq> i \<Longrightarrow> sy_escapes (syms3 j) = sy_escapes (syms j)"
    "s = n \<Longrightarrow> sy_escapes (syms3 n) = 0"
    "s < n'" "new_names nm n i s v s = nm i @ [v]"
proof -
  note W = wfD [OF wf(1)]
  note E = walk(1) [unfolded entered_def]
  obtain e t where st: "settle m k (unat (sy_escapes (syms i))) t' = (e, t)" by (meson surj_pair)
  have c: "context_at syms i m (T i)" using W(6) [OF wf(2)] m by simp
  have m1: "m \<le> 1" by (simp add: m)
  have nin: "n \<notin> indices (T j)" if "j < n" for j using W(10) [OF that] by blast
  have iin: "i \<notin> indices (T i)" using c subtree_at_above [of syms i] by (fastforce simp: context_at_def)
  have ix: "indices t' = insert s (indices (T i))" "s = n \<or> s \<in> indices (T i)" by (rule grown_indices [OF walk(2)])+
  have "s = n \<or> s < n" using ix(2) W(10) [OF wf(2)] by blast
  then have s: "s \<le> n" "s \<noteq> i" "s < n'" "n' \<le> n + 1" "n \<le> n'"
    using ix(2) iin wf(2) E by (auto split: if_split_asm)
  have it': "i \<notin> indices t'" using ix(1) iin s(2) by simp
  have dt': "distinct_nodes t'" using grown_distinct [OF walk(2)] c nin [OF wf(2)] by (simp add: context_at_def)
  have lt': "\<forall>j\<in>indices t'. j < SYMBOLS"
    using ix W(10) [OF wf(2)] wf(3) s(1) by (metis insertE le_less_trans less_trans)
  have T': "t' \<noteq> Leaf" using grown_nodes(2) [OF walk(2)] by auto
  have sym2: "sy_symbols (syms2 j) = sy_symbols (syms1 j)" "sy_escapes (syms2 j) = sy_escapes (syms1 j)"
    "sy_total (syms2 j) = sy_total (syms1 j)" for j using par(2) [of j] by (simp_all add: fields_of_def)
  have at2: "subtree_at syms2 i (sy_symbols (syms2 i)) t'"
    using E subtree_at_cong [of t' syms2 syms1, OF par(1)] by (simp add: sym2)
  have ch1: "changed (indices (T i) \<union> {n}) {n, i} syms syms1" using E by blast
  from grow_settles [OF at2 T' dt' it', of "unat (sy_escapes (syms i))" m "T i" k e t large]
  obtain syms3 where g: "grow_context i (of_nat (delta m)) (of_nat m) large
        (if m = 0 \<and> k = 0 then escape_context i syms2 else syms2) = Some syms3"
      "subtree_at syms3 i (sy_symbols (syms2 i)) t" "sy_symbols (syms3 i) = sy_symbols (syms2 i)"
      "unat (sy_escapes (syms3 i)) = e" "unat (sy_total (syms3 i)) = e + 256 * m + weight t"
    and ch3: "changed (indices t') {i} syms2 syms3" "\<And>j. sy_parent (syms3 j) = sy_parent (syms2 j)"
    using E c grown_weight [OF walk(2)] m1 st large by (auto simp: sym2 context_at_def sums_ok_def)
  have nodes: "node_of (syms3 j) = node_of (syms j)" if "j \<notin> indices (T i)" "j \<noteq> n" for j
    using that ch1 ch3(1) par(1) [of j] ix by (auto simp: changed_def)
  have fields: "fields_of (syms3 j) = fields_of (syms j)" if "j \<noteq> i" "j \<noteq> n" for j
    using that ch1 ch3(1) par(2) [of j] by (auto simp: changed_def fields_of_def context_of_def)
  have fields_n: "fields_of (syms3 n) = (0, 0, 0)" if "s = n"
  proof -
    have "context_of (syms1 n) = (0, 0, 0, 0)" using E that by simp
    moreover have "context_of (syms3 n) = context_of (syms2 n)" using ch3(1) wf(2) by (simp add: changed_def)
    ultimately show ?thesis using par(2) [of n] by (simp add: fields_of_def context_of_def)
  qed
  have tt: "t = t' \<or> t = halve t'" using st by (auto simp: settle_def Let_def split: if_split_asm)
  then have dt: "distinct_nodes t" and it: "indices t = indices t'"
    using dt' by (auto simp: inorder_halve comp_def case_prod_beta)
  have vals: "\<exists>d. (j, x, d) \<in> set_tree t'" if "(j, x, d) \<in> set_tree t" for j x d
    using tt that by (auto simp: set_halve)
  have sums: "sums_ok m e t" by (rule settle_ok [OF _ walk(2) dt' lt' m1 st]) (use c in \<open>simp add: context_at_def\<close>)
  have ci: "context_at syms3 i m t" using g dt sums by (simp add: context_at_def)
  have upto: "j < n \<or> j = n \<and> s = n" if "j < n'" for j using that E by (auto split: if_split_asm)
  have ctx: "context_at syms3 j (minimum_of j) (new_trees T n i s t j)" if "j < n'" for j
  proof -
    note upto [OF that]
    then consider "j = i" | "s = n" "j = n" | "j < n" "j \<noteq> i" by blast
    then show ?thesis
    proof cases
      case 1
      then show ?thesis using ci m by (simp add: new_trees_def)
    next
      case 2
      then have "new_trees T n i s t j = Leaf" using wf(2) by (simp add: new_trees_def)
      then show ?thesis using fields_n 2 W(1) by (simp add: context_at_def fields_of_def sums_ok_def)
    next
      case 3
      have "indices (T j) \<inter> indices (T i) = {}" using W(8) [OF 3(1) wf(2)] 3(2) by simp
      then have "context_at syms3 j (minimum_of j) (T j)"
        using context_at_cong [of "T j" syms3 syms] nodes fields nin [OF 3(1)] W(6) [OF 3(1)] 3 by blast
      then show ?thesis using 3 by (simp add: new_trees_def)
    qed
  qed
  have names_s: "new_names nm n i s v s = nm i @ [v]"
  proof (cases "s = n")
    case False
    then have "(s, v, k) \<in> set_tree (T i)"
      using walk(2) by (auto simp: grown_def simp flip: set_inorder simp del: set_inorder)
    then show ?thesis using W(7) [OF wf(2)] False by (simp add: new_names_def)
  qed (simp add: new_names_def)
  have names_old: "new_names nm n i s v j = nm j" if "j < n" for j using that by (simp add: new_names_def)
  have trees_old: "new_trees T n i s t j = T j" if "j < n" "j \<noteq> i" for j using that by (simp add: new_trees_def)
  have tree_i: "new_trees T n i s t i = t" by (simp add: new_trees_def)
  have tree_n: "new_trees T n i s t j = Leaf" if "j < n'" "\<not> j < n" for j
    using upto [OF that(1)] that(2) wf(2) by (auto simp: new_trees_def)
  have "wf (new_trees T n i s t) (new_names nm n i s v) syms3 n'"
    unfolding wf_def
  proof (intro conjI allI impI)
    show "0 < n'" "n' \<le> SYMBOLS" using W(1,2) wf(3) s by linarith+
    show "new_names nm n i s v 0 = []" using W(1,3) by (simp add: names_old)
    fix j assume j: "j < n'"
    note n = upto [OF j]
    show "new_names nm n i s v j \<noteq> []" if "j \<noteq> 0" using n W(4) that names_old names_s by auto
    show "length (new_names nm n i s v j) \<le> 3" using n W(5) wf(4) names_old names_s by auto
    show "context_at syms3 j (minimum_of j) (new_trees T n i s t j)" by (rule ctx [OF j])
    show "\<forall>(j', x, c)\<in>set_tree (new_trees T n i s t j).
        j' < n' \<and> new_names nm n i s v j' = new_names nm n i s v j @ [x]"
    proof (cases "j = i")
      case True
      have "j' < n' \<and> new_names nm n i s v j' = nm i @ [x]" if t: "(j', x, d) \<in> set_tree t" for j' x d
      proof -
        obtain d where "(j', x, d) \<in> set_tree t'" using vals [OF t] by blast
        then consider "j' = s" "x = v" | "(j', x, d) \<in> set_tree (T i)" using grown_nodes(1) [OF walk(2)] by blast
        then show ?thesis
          by cases (use s(3,5) names_s W(7) [OF wf(2)] names_old in \<open>fastforce+\<close>)
      qed
      then show ?thesis using True tree_i names_old [OF wf(2)] by auto
    next
      case False
      show ?thesis
      proof (cases "j < n")
        case True
        have "j' < n' \<and> new_names nm n i s v j' = new_names nm n i s v j @ [x]" if "(j', x, d) \<in> set_tree (T j)" for j' x d
          using W(7) [OF True that] s(5) names_old [OF True] names_old [of j'] by simp
        then show ?thesis using trees_old [OF True False] by auto
      qed (simp add: tree_n [OF j])
    qed
    show "\<exists>i'<n'. j \<in> indices (new_trees T n i s t i')" if "j \<noteq> 0"
    proof (cases "j < n")
      case True
      note W(9) [OF True that]
      then obtain i' where i': "i' < n" "j \<in> indices (T i')" by blast
      have "j \<in> indices (new_trees T n i s t i')"
        by (cases "i' = i") (use i' in \<open>simp_all add: tree_i it ix(1) trees_old\<close>)
      moreover have "i' < n'" using i'(1) s(5) by linarith
      ultimately show ?thesis by blast
    next
      case False
      then have "j = s" using n by blast
      then have "j \<in> indices (new_trees T n i s t i)" unfolding tree_i it ix(1) by simp
      moreover have "i < n'" using wf(2) s(5) by linarith
      ultimately show ?thesis by blast
    qed
    fix j' assume j': "j' < n'" "j \<noteq> j'"
    have old: "indices (T a) \<inter> indices (T b) = {}" if "a < n" "b < n" "a \<noteq> b" for a b using W(8) that by blast
    have fresh: "s \<notin> indices (T a)" if "a < n" "a \<noteq> i" for a
      using ix(2) old [OF that(1) wf(2) that(2)] nin [OF that(1)] by blast
    show "indices (new_trees T n i s t j) \<inter> indices (new_trees T n i s t j') = {}"
    proof (cases "j < n \<and> j' < n")
      case True
      consider "j = i" | "j' = i" | "j \<noteq> i" "j' \<noteq> i" by blast
      then show ?thesis
        by cases (use True j'(2) old [of j j'] fresh [of j] fresh [of j'] in
          \<open>simp_all add: tree_i trees_old it ix(1)\<close>)
    next
      case False
      then have "new_trees T n i s t j = Leaf \<or> new_trees T n i s t j' = Leaf"
        using tree_n [OF j] tree_n [OF j'(1)] by blast
      then show ?thesis by auto
    qed
  qed
  moreover have "sy_escapes (syms3 j) = sy_escapes (syms j)" if "j < n" "j \<noteq> i" for j
    using fields [of j] that by (simp add: fields_of_def)
  moreover have "s = n \<Longrightarrow> sy_escapes (syms3 n) = 0" using fields_n by (simp add: fields_of_def)
  ultimately show ?thesis using that [OF g(1) st g(4) _ ch3(2)] s(3) names_s by blast
qed


section \<open>What the memory knows\<close>

text \<open>The model: for every context, named by its bytes, the escapes and the counts of the bytes that
  followed it.  \<open>learn\<close> is what a byte changes in a context.\<close>

type_synonym model = "u8 list \<Rightarrow> nat \<times> (u8 \<times> nat) list"

definition learn :: "nat \<Rightarrow> u8 \<Rightarrow> nat \<times> (u8 \<times> nat) list \<Rightarrow> nat \<times> (u8 \<times> nat) list" where
  "learn m v = (\<lambda>(e, xs).
     let k = count_in v xs; ys = tally v (delta m) xs;
         e = (if m = 0 \<and> k = 0 then e + ENET_SUBCONTEXT_ESCAPE_DELTA else e)
     in if k + m > rescale_limit m \<or> e + 256 * m + sum_in ys > 65280
        then (half e, map (\<lambda>(x, c). (x, half c)) ys) else (e, ys))"

lemma settle_learn:
  assumes "ordered t" "settle m (snd (seek v n t)) e (ins v (delta m) n t) = (e', t')"
  shows "(e', entries t') = learn m v (e, entries t)" "ordered t'"
proof -
  note o = ordered_walk(1,2) [OF assms(1)]
  show "(e', entries t') = learn m v (e, entries t)"
    using assms(2) by (auto simp: settle_def learn_def Let_def weight_entries entries_halve o split: if_split_asm)
  have "ordered (ins v (delta m) n t)" unfolding o(1) by (rule sorted_tally [OF assms(1)])
  then show "ordered t'"
    using assms(2) by (auto simp: settle_def Let_def entries_halve comp_def case_prod_beta split: if_split_asm)
qed

definition represents :: "(nat \<Rightarrow> nodes) \<Rightarrow> (nat \<Rightarrow> u8 list) \<Rightarrow> symbols \<Rightarrow> nat \<Rightarrow> model \<Rightarrow> bool" where
  "represents T nm syms n M \<longleftrightarrow>
     wf T nm syms n \<and> (\<forall>i<n. ordered (T i)) \<and> inj_on nm {..<n} \<and>
     (\<forall>i<n. M (nm i) = (unat (sy_escapes (syms i)), entries (T i))) \<and>
     (\<forall>w. w \<notin> nm ` {..<n} \<longrightarrow> M w = (0, []))"

lemma count_in_pos: "(v, c) \<in> set xs \<Longrightarrow> 0 < c \<Longrightarrow> 0 < count_in v xs"
  by (induction xs) auto

lemma entries_mem: "(v, c) \<in> set (entries t) \<longleftrightarrow> (\<exists>j. (j, v, c) \<in> set_tree t)"
  by (force simp: entries_def)

text \<open>A byte that has not been seen in a context has no symbol anywhere.\<close>

lemma name_fresh:
  assumes "represents T nm syms n M" "i < n" "count_in v (snd (M (nm i))) = 0"
  shows "nm i @ [v] \<notin> nm ` {..<n}"
proof
  assume "nm i @ [v] \<in> nm ` {..<n}"
  then obtain j where j: "j < n" "nm j = nm i @ [v]" by auto
  have w: "wf T nm syms n" and inj: "inj_on nm {..<n}" using assms(1) by (simp_all add: represents_def)
  have "j \<noteq> 0" using j(2) wfD(3) [OF w] by (cases "j = 0") auto
  then obtain i' where i': "i' < n" "j \<in> indices (T i')" using wfD(9) [OF w j(1)] by blast
  then obtain x c where x: "(j, x, c) \<in> set_tree (T i')" by (auto simp: indices_def)
  then have "nm i' = nm i" "x = v" using wfD(7) [OF w i'(1) x] j(2) by auto
  then have "(j, v, c) \<in> set_tree (T i)" using x inj i'(1) assms(2) by (auto simp: inj_on_def)
  then have "(v, c) \<in> set (entries (T i))" "0 < c"
    using wfD(6) [OF w assms(2)] by (auto simp: entries_mem context_at_def sums_ok_def)
  then have "0 < count_in v (entries (T i))" by (rule count_in_pos)
  then show False using assms by (simp add: represents_def)
qed

lemma learn_represents:
  assumes rep: "represents T nm syms n M" "i < n" "n < SYMBOLS" "length (nm i) \<le> 2" and m: "m = minimum_of i"
    and s: "s = fst (seek v n (T i))" "k = snd (seek v n (T i))"
    and st: "settle m k (unat (sy_escapes (syms i))) (ins v (delta m) n (T i)) = (e, t)"
      "unat (sy_escapes (syms3 i)) = e"
    and wf: "wf (new_trees T n i s t) (new_names nm n i s v) syms3 n'"
    and n': "if s = n then n' = n + 1 else n' = n" and s0: "s = n \<longleftrightarrow> k = 0"
    and old: "\<And>j. j < n \<Longrightarrow> j \<noteq> i \<Longrightarrow> sy_escapes (syms3 j) = sy_escapes (syms j)" "s = n \<Longrightarrow> sy_escapes (syms3 n) = 0"
  shows "represents (new_trees T n i s t) (new_names nm n i s v) syms3 n' (M(nm i := learn m v (M (nm i))))"
proof -
  note R = rep(1) [unfolded represents_def]
  have o: "ordered (T i)" and Mi: "M (nm i) = (unat (sy_escapes (syms i)), entries (T i))" using R rep(2) by auto
  have k: "k = count_in v (entries (T i))" using ordered_walk(2) [OF o] s(2) by simp
  note L = settle_learn [OF o st(1) [unfolded s(2)]]
  have fresh: "nm i @ [v] \<notin> nm ` {..<n}" if "s = n"
    using name_fresh [OF rep(1,2)] that s0 k Mi by simp
  have upto: "j < n \<or> j = n \<and> s = n" if "j < n'" for j using that n' by (auto split: if_split_asm)
  have inj: "inj_on nm {..<n}" using R by blast
  have names: "new_names nm n i s v j = nm j" if "j < n" for j using that by (simp add: new_names_def)
  have img: "new_names nm n i s v ` {..<n'} = nm ` {..<n} \<union> (if s = n then {nm i @ [v]} else {})"
    using n' by (auto simp: new_names_def lessThan_Suc split: if_split_asm)
  show ?thesis unfolding represents_def
  proof (intro conjI allI impI)
    show "wf (new_trees T n i s t) (new_names nm n i s v) syms3 n'" by (rule wf)
    show "inj_on (new_names nm n i s v) {..<n'}"
    proof (cases "s = n")
      case True
      then have "inj_on (new_names nm n i s v) {..<n}" using inj names by (auto simp: inj_on_def)
      moreover have "new_names nm n i s v n = nm i @ [v]" using True by (simp add: new_names_def)
      ultimately show ?thesis
        using fresh [OF True] names n' True by (auto simp: lessThan_Suc inj_on_insert image_iff)
    next
      case False
      then show ?thesis using inj n' by (simp add: new_names_def)
    qed
    fix j assume "j < n'"
    note j = upto [OF this]
    show "ordered (new_trees T n i s t j)"
      using j R L(2) by (auto simp: new_trees_def)
    show "(M(nm i := learn m v (M (nm i)))) (new_names nm n i s v j) =
        (unat (sy_escapes (syms3 j)), entries (new_trees T n i s t j))"
    proof (cases "j < n")
      case True
      show ?thesis
      proof (cases "j = i")
        case True
        then show ?thesis using names [OF rep(2)] L(1) Mi st(2) by (simp add: new_trees_def)
      next
        case False
        then have "nm j \<noteq> nm i" using inj True rep(2) by (auto simp: inj_on_def)
        then show ?thesis using names [OF True] R True False old(1) by (simp add: new_trees_def)
      qed
    next
      case False
      then have *: "j = n" "s = n" using j by auto
      have "M (nm i @ [v]) = (0, [])" using fresh [OF *(2)] R by blast
      then show ?thesis using * old(2) rep(2) by (simp add: new_names_def new_trees_def)
    qed
  next
    fix w assume "w \<notin> new_names nm n i s v ` {..<n'}"
    then have "w \<notin> nm ` {..<n}" unfolding img by simp
    then show "(M(nm i := learn m v (M (nm i)))) w = (0, [])" using R rep(2) by auto
  qed
qed


section \<open>A step of the coder in a context\<close>

definition memory_after :: "nat option \<Rightarrow> nat \<Rightarrow> symbols \<Rightarrow> symbols" where
  "memory_after parent s syms =
     (case parent of None \<Rightarrow> syms | Some p \<Rightarrow> syms(p := (syms p)\<lparr>sy_parent := of_nat s\<rparr>))"

lemma set_parent_eq:
  "rc_symbols (set_parent parent s rc) = memory_after parent s (rc_symbols rc)"
  "rc_nextSymbol (set_parent parent s rc) = rc_nextSymbol rc"
  "rc_order (set_parent parent s rc) = rc_order rc"
  "rc_predicted (set_parent parent s rc) = (if parent = None then of_nat s else rc_predicted rc)"
  by (simp_all add: set_parent_def memory_after_def split: option.split)

text \<open>The loops walk from a context to its parent.  The symbol of the context before waits for its
  parent, which is the symbol of the byte in the context at hand.\<close>

definition waiting :: "(nat \<Rightarrow> u8 list) \<Rightarrow> nat \<Rightarrow> nat \<Rightarrow> nat option \<Rightarrow> u8 \<Rightarrow> nat set \<Rightarrow> bool" where
  "waiting nm n i parent v X \<longleftrightarrow> X \<subseteq> set_option parent \<and>
     (\<forall>p. parent = Some p \<longrightarrow> p < n \<and> p \<noteq> 0 \<and> tl (nm p) = nm i @ [v])"

lemma memory_step:
  assumes wf: "wf T nm syms n" "parents nm syms n X" "i < n" "n < SYMBOLS" "length (nm i) \<le> 2"
    and m: "m = minimum_of i" and wait: "waiting nm n i parent v X"
    and walk: "entered i n s (T i) t' syms syms1 n'" "grown (delta m) n (T i) s v k t'"
  obtains syms3 T' nm' where
    "grow_context i (of_nat (delta m)) (of_nat m) (rescale_limit m < k + m)
       (if m = 0 \<and> k = 0 then escape_context i (memory_after parent s syms1) else memory_after parent s syms1) = Some syms3"
    "wf T' nm' syms3 n'" "parents nm' syms3 n' (if k = 0 \<and> i \<noteq> 0 then {s} else {})"
    "s < n'" "nm' s = nm i @ [v]" "\<And>j. j < n \<Longrightarrow> nm' j = nm j" "n' = (if k = 0 then n + 1 else n)"
    "\<And>j. j < n \<Longrightarrow> parent \<noteq> Some j \<Longrightarrow> sy_parent (syms3 j) = sy_parent (syms j)"
    "\<And>M. represents T nm syms n M \<Longrightarrow> t' = ins v (delta m) n (T i) \<Longrightarrow> s = fst (seek v n (T i)) \<Longrightarrow>
      k = snd (seek v n (T i)) \<Longrightarrow> represents T' nm' syms3 n' (M(nm i := learn m v (M (nm i))))"
proof -
  define syms2 where "syms2 = memory_after parent s syms1"
  have par2: "node_of (syms2 j) = node_of (syms1 j)" "fields_of (syms2 j) = fields_of (syms1 j)"
    "sy_parent (syms2 j) = (if parent = Some j then of_nat s else sy_parent (syms1 j))" for j
    by (auto simp: syms2_def memory_after_def node_of_def fields_of_def split: option.split)
  note W = wfD [OF wf(1)]
  note E = walk(1) [unfolded entered_def]
  from learn_wf [OF wf(1,3-5) m walk par2(1,2) refl]
  obtain syms3 e t where L:
    "grow_context i (of_nat (delta m)) (of_nat m) (rescale_limit m < k + m)
      (if m = 0 \<and> k = 0 then escape_context i syms2 else syms2) = Some syms3"
    "settle m k (unat (sy_escapes (syms i))) t' = (e, t)" "unat (sy_escapes (syms3 i)) = e"
    "wf (new_trees T n i s t) (new_names nm n i s v) syms3 n'"
    "\<And>j. sy_parent (syms3 j) = sy_parent (syms2 j)"
    "\<And>j. j < n \<Longrightarrow> j \<noteq> i \<Longrightarrow> sy_escapes (syms3 j) = sy_escapes (syms j)" "s = n \<Longrightarrow> sy_escapes (syms3 n) = 0"
    "s < n'" "new_names nm n i s v s = nm i @ [v]" by blast
  have s0: "s = n \<longleftrightarrow> k = 0"
  proof -
    have "(s, v, k) \<in> set_tree (T i) \<Longrightarrow> 0 < k \<and> s < n"
      using W(6) [OF wf(3)] W(7) [OF wf(3)] by (auto simp: context_at_def sums_ok_def)
    then show ?thesis using walk(2) by (auto simp: grown_def simp flip: set_inorder simp del: set_inorder)
  qed
  have n': "n' = (if k = 0 then n + 1 else n)" using E s0 by auto
  have names: "new_names nm n i s v j = nm j" if "j < n" for j using that by (simp add: new_names_def)
  have par1: "sy_parent (syms1 j) = sy_parent (syms j)" if "j < n" for j
  proof (cases "j = i")
    case False
    then have "context_of (syms1 j) = context_of (syms j)" using E that by (auto simp: changed_def)
    then show ?thesis by (simp add: context_of_def)
  qed (use E in simp)
  have waits: "p < n" "p \<noteq> 0" "tl (nm p) = nm i @ [v]" if "parent = Some p" for p
    using wait that by (auto simp: waiting_def)
  have s16: "unat (of_nat s :: u16) = s"
    using L(8) wfD(2) [OF L(4)] by (intro unat_of_nat_u16) simp
  have "parents (new_names nm n i s v) syms3 n' (if k = 0 \<and> i \<noteq> 0 then {s} else {})"
    unfolding parents_def
  proof (intro allI impI)
    fix j assume j: "j < n'" "j \<noteq> 0" "j \<notin> (if k = 0 \<and> i \<noteq> 0 then {s} else {})"
    show "unat (sy_parent (syms3 j)) < n' \<and> new_names nm n i s v (unat (sy_parent (syms3 j))) = tl (new_names nm n i s v j)"
    proof (cases "j < n")
      case True
      show ?thesis
      proof (cases "parent = Some j")
        case True
        then show ?thesis using L(5,8,9) par2(3) s16 waits [OF True] names by simp
      next
        case False
        then have "j \<notin> X" using wait by (auto simp: waiting_def)
        then have "unat (sy_parent (syms j)) < n \<and> nm (unat (sy_parent (syms j))) = tl (nm j)"
          using wf(2) True j(2) by (simp add: parents_def)
        then show ?thesis using L(5) par2(3) False par1 [OF True] names True n' by (auto split: if_split_asm)
      qed
    next
      case False
      then have *: "j = n" "s = n" "k = 0" "i = 0" using j n' s0 by (auto split: if_split_asm)
      have "parent \<noteq> Some n" using waits(1) by blast
      moreover have "sy_parent (syms1 n) = 0" using E * by (simp add: context_of_def)
      ultimately have "sy_parent (syms3 n) = 0" using L(5) par2(3) by simp
      then show ?thesis using * W(1,3) n' names by (simp add: new_names_def)
    qed
  qed
  moreover have "sy_parent (syms3 j) = sy_parent (syms j)" if "j < n" "parent \<noteq> Some j" for j
    using L(5) par2(3) par1 that by simp
  moreover have "represents (new_trees T n i s t) (new_names nm n i s v) syms3 n' (M(nm i := learn m v (M (nm i))))"
    if "represents T nm syms n M" "t' = ins v (delta m) n (T i)" "s = fst (seek v n (T i))" "k = snd (seek v n (T i))" for M
    using learn_represents [OF that(1) wf(3-5) m that(3,4) L(2) [unfolded that(2)] L(3,4) _ s0 L(6,7)] n' s0 by simp
  ultimately show ?thesis
    using that [OF L(1) [unfolded syms2_def] L(4) _ L(8,9) names n'] by blast
qed


text \<open>Looking up a byte and counting it, with everything the code does to the memory on the way.\<close>

lemma learn_step:
  assumes wf: "wf T nm (rc_symbols rc) (rc_nextSymbol rc)" "parents nm (rc_symbols rc) (rc_nextSymbol rc) X"
    "i < rc_nextSymbol rc" "rc_nextSymbol rc < SYMBOLS" "length (nm i) \<le> 2"
    and m: "m = minimum_of i" and wait: "waiting nm (rc_nextSymbol rc) i parent v X"
    and k: "k = snd (seek v (rc_nextSymbol rc) (T i))"
  obtains s syms1 rc1 syms3 T' nm' where
    "ENET_CONTEXT_ENCODE i v (of_nat (delta m)) (of_nat m) (rc_symbols rc) (rc_nextSymbol rc) =
       Some (s, of_nat (below v (T i) + unat v * m), of_nat (k + m), syms1, rc_nextSymbol rc1)"
    "rc1 = set_parent parent s (rc\<lparr>rc_symbols := syms1, rc_nextSymbol := rc_nextSymbol rc1\<rparr>)"
    "sy_escapes (rc_symbols rc1 i) = sy_escapes (rc_symbols rc i)" "sy_total (rc_symbols rc1 i) = sy_total (rc_symbols rc i)"
    "grow_context i (of_nat (delta m)) (of_nat m) (rescale_limit m < k + m)
       (if m = 0 \<and> k = 0 then escape_context i (rc_symbols rc1) else rc_symbols rc1) = Some syms3"
    "wf T' nm' syms3 (rc_nextSymbol rc1)" "parents nm' syms3 (rc_nextSymbol rc1) (if k = 0 \<and> i \<noteq> 0 then {s} else {})"
    "s < rc_nextSymbol rc1" "nm' s = nm i @ [v]" "\<And>j. j < rc_nextSymbol rc \<Longrightarrow> nm' j = nm j"
    "rc_nextSymbol rc1 = rc_nextSymbol rc + (if k = 0 then 1 else 0)"
    "\<And>j. j < rc_nextSymbol rc \<Longrightarrow> parent \<noteq> Some j \<Longrightarrow> sy_parent (syms3 j) = sy_parent (rc_symbols rc j)"
    "\<And>M. represents T nm (rc_symbols rc) (rc_nextSymbol rc) M \<Longrightarrow>
      represents T' nm' syms3 (rc_nextSymbol rc1) (M(nm i := learn m v (M (nm i))))"
    "rc_order rc1 = rc_order rc" "rc_predicted rc1 = (if parent = None then of_nat s else rc_predicted rc)"
proof -
  let ?n = "rc_nextSymbol rc"
  have c: "context_at (rc_symbols rc) i m (T i)" using wfD(6) [OF wf(1,3)] m by simp
  have lt: "\<forall>j\<in>indices (T i). j < ?n" using wfD(10) [OF wf(1,3)] by blast
  have m1: "m \<le> 1" by (simp add: m)
  obtain syms1 n' where enc: "ENET_CONTEXT_ENCODE i v (of_nat (delta m)) (of_nat m) (rc_symbols rc) ?n =
      Some (fst (seek v ?n (T i)), of_nat (below v (T i) + unat v * m), of_nat (k + m), syms1, n')"
    and ent: "entered i ?n (fst (seek v ?n (T i))) (T i) (ins v (delta m) ?n (T i)) (rc_symbols rc) syms1 n'"
    using encode_context_tree [OF c lt wf(4,3) m1, of v] k by auto
  let ?s = "fst (seek v ?n (T i))"
  define rc1 where "rc1 = set_parent parent ?s (rc\<lparr>rc_symbols := syms1, rc_nextSymbol := n'\<rparr>)"
  have r1: "rc_symbols rc1 = memory_after parent ?s syms1" "rc_nextSymbol rc1 = n'" "rc_order rc1 = rc_order rc"
    "rc_predicted rc1 = (if parent = None then of_nat ?s else rc_predicted rc)"
    by (simp_all add: rc1_def set_parent_eq)
  have fields: "sy_escapes (rc_symbols rc1 i) = sy_escapes (rc_symbols rc i)"
    "sy_total (rc_symbols rc1 i) = sy_total (rc_symbols rc i)"
    using ent by (auto simp: r1 memory_after_def entered_def split: option.split)
  have g: "grown (delta m) ?n (T i) ?s v k (ins v (delta m) ?n (T i))" unfolding k by (rule ins_grown)
  from memory_step [OF wf m wait ent g]
  obtain syms3 T' nm' where S:
    "grow_context i (of_nat (delta m)) (of_nat m) (rescale_limit m < k + m)
       (if m = 0 \<and> k = 0 then escape_context i (memory_after parent ?s syms1) else memory_after parent ?s syms1) = Some syms3"
    "wf T' nm' syms3 n'" "parents nm' syms3 n' (if k = 0 \<and> i \<noteq> 0 then {?s} else {})"
    "?s < n'" "nm' ?s = nm i @ [v]" "\<And>j. j < ?n \<Longrightarrow> nm' j = nm j" "n' = (if k = 0 then ?n + 1 else ?n)"
    "\<And>j. j < ?n \<Longrightarrow> parent \<noteq> Some j \<Longrightarrow> sy_parent (syms3 j) = sy_parent (rc_symbols rc j)"
    "\<And>M. represents T nm (rc_symbols rc) ?n M \<Longrightarrow> ins v (delta m) ?n (T i) = ins v (delta m) ?n (T i) \<Longrightarrow> ?s = ?s \<Longrightarrow>
      k = snd (seek v ?n (T i)) \<Longrightarrow> represents T' nm' syms3 n' (M(nm i := learn m v (M (nm i))))" by blast
  have rep: "represents T' nm' syms3 n' (M(nm i := learn m v (M (nm i))))" if "represents T nm (rc_symbols rc) ?n M" for M
    using S(9) [OF that refl refl k] .
  have n': "n' = ?n + (if k = 0 then 1 else 0)" using S(7) by simp
  show ?thesis
    by (rule that [of ?s syms1 rc1 syms3 T' nm', unfolded r1(1,2)])
       (rule enc rc1_def fields [unfolded r1(1)] S n' rep r1(3,4) | assumption)+
qed


lemma dwalk_found: "dwalk False m n d code und t = Some (s, v, u, k, t') \<Longrightarrow> (s, v, k) \<in> set_tree t"
proof (induction t arbitrary: und t')
  case (Node l a r)
  obtain i x c where "a = (i, x, c)" by (cases a)
  then show ?case using Node by (auto split: if_split_asm option.split_asm)
qed simp

text \<open>The same for the decoder, which learns the byte from the code.  A code that leads nowhere is refused.\<close>

lemma decode_step:
  assumes wf: "wf T nm (rc_symbols rc) (rc_nextSymbol rc)" "parents nm (rc_symbols rc) (rc_nextSymbol rc) {}"
    "i < rc_nextSymbol rc" "rc_nextSymbol rc < SYMBOLS" "length (nm i) \<le> 2"
    and m: "m = minimum_of i" "create \<longleftrightarrow> i = 0"
  obtains (refused) "ENET_CONTEXT_DECODE create i code (of_nat (delta m)) (of_nat m) (rc_symbols rc) (rc_nextSymbol rc) = Some None"
      "dwalk create m (rc_nextSymbol rc) (delta m) (unat code) 0 (T i) = None"
  | (byte) s v u k t syms1 n' syms3 T' nm' where
    "dwalk create m (rc_nextSymbol rc) (delta m) (unat code) 0 (T i) = Some (s, v, u, k, t)"
    "ENET_CONTEXT_DECODE create i code (of_nat (delta m)) (of_nat m) (rc_symbols rc) (rc_nextSymbol rc) =
       Some (Some (s, v, of_nat u, of_nat (k + m), syms1, n'))"
    "sy_escapes (syms1 i) = sy_escapes (rc_symbols rc i)"
    "grow_context i (of_nat (delta m)) (of_nat m) (rescale_limit m < k + m) syms1 = Some syms3"
    "wf T' nm' syms3 n'" "parents nm' syms3 n' {}"
    "s < n'" "nm' s = nm i @ [v]" "\<And>j. j < rc_nextSymbol rc \<Longrightarrow> nm' j = nm j"
    "n' = rc_nextSymbol rc + (if k = 0 then 1 else 0)" "k = 0 \<longrightarrow> i = 0" "k \<le> weight (T i)" "k < 256"
    "\<And>j. j < rc_nextSymbol rc \<Longrightarrow> sy_parent (syms3 j) = sy_parent (rc_symbols rc j)"
    "\<And>M. represents T nm (rc_symbols rc) (rc_nextSymbol rc) M \<Longrightarrow> t = ins v (delta m) (rc_nextSymbol rc) (T i) \<Longrightarrow>
      s = fst (seek v (rc_nextSymbol rc) (T i)) \<Longrightarrow> k = snd (seek v (rc_nextSymbol rc) (T i)) \<Longrightarrow>
      represents T' nm' syms3 n' (M(nm i := learn m v (M (nm i))))"
proof -
  let ?n = "rc_nextSymbol rc"
  have c: "context_at (rc_symbols rc) i m (T i)" using wfD(6) [OF wf(1,3)] m by simp
  have lt: "\<forall>j\<in>indices (T i). j < ?n" using wfD(10) [OF wf(1,3)] by blast
  have m1: "m \<le> 1" and cm: "create \<longleftrightarrow> m = 1" by (simp_all add: m)
  note D = decode_context_tree [OF c lt wf(4,3) m1 cm, of code]
  show ?thesis
  proof (cases "dwalk create m ?n (delta m) (unat code) 0 (T i)")
    case None
    then show ?thesis using D refused by simp
  next
    case (Some r)
    then obtain s v u k t where r: "dwalk create m ?n (delta m) (unat code) 0 (T i) = Some (s, v, u, k, t)"
      by (cases r) auto
    obtain syms1 n' where dec: "ENET_CONTEXT_DECODE create i code (of_nat (delta m)) (of_nat m) (rc_symbols rc) ?n =
        Some (Some (s, v, of_nat u, of_nat (k + m), syms1, n'))"
      and ent: "entered i ?n s (T i) t (rc_symbols rc) syms1 n'"
      using D r by auto
    note g = dwalk_grown [OF r]
    have wait: "waiting nm ?n i None v {}" by (simp add: waiting_def)
    from memory_step [OF wf m(1) wait ent g]
    obtain syms3 T' nm' where S:
      "grow_context i (of_nat (delta m)) (of_nat m) (rescale_limit m < k + m)
         (if m = 0 \<and> k = 0 then escape_context i syms1 else syms1) = Some syms3"
      "wf T' nm' syms3 n'" "parents nm' syms3 n' (if k = 0 \<and> i \<noteq> 0 then {s} else {})"
      "s < n'" "nm' s = nm i @ [v]" "\<And>j. j < ?n \<Longrightarrow> nm' j = nm j" "n' = (if k = 0 then ?n + 1 else ?n)"
      "\<And>j. j < ?n \<Longrightarrow> None \<noteq> Some j \<Longrightarrow> sy_parent (syms3 j) = sy_parent (rc_symbols rc j)"
      "\<And>M. represents T nm (rc_symbols rc) ?n M \<Longrightarrow> t = ins v (delta m) ?n (T i) \<Longrightarrow> s = fst (seek v ?n (T i)) \<Longrightarrow>
        k = snd (seek v ?n (T i)) \<Longrightarrow> represents T' nm' syms3 n' (M(nm i := learn m v (M (nm i))))"
      unfolding memory_after_def option.case by blast
    have k0: "i = 0" if "k = 0"
    proof (rule ccontr)
      assume "i \<noteq> 0"
      then have "create = False" using m(2) by simp
      then have "(s, v, k) \<in> set_tree (T i)" using dwalk_found r by simp
      then show False using that c by (auto simp: context_at_def sums_ok_def)
    qed
    have kw: "k \<le> weight (T i)" using g by (auto simp: grown_def weight_inorder)
    have "k = 0 \<or> (s, v, k) \<in> set_tree (T i)"
      using g by (auto simp: grown_def simp flip: set_inorder simp del: set_inorder)
    then have k8: "k < 256" using c by (auto simp: context_at_def sums_ok_def)
    have n': "n' = ?n + (if k = 0 then 1 else 0)" using S(7) by simp
    have "(if m = 0 \<and> k = 0 then escape_context i syms1 else syms1) = syms1" using k0 m(1) by auto
    then have G: "grow_context i (of_nat (delta m)) (of_nat m) (rescale_limit m < k + m) syms1 = Some syms3" using S(1) by simp
    have P: "parents nm' syms3 n' {}" using S(3) k0 by (auto split: if_split_asm)
    have e: "sy_escapes (syms1 i) = sy_escapes (rc_symbols rc i)" using ent by (simp add: entered_def)
    show ?thesis using byte [OF r dec e G S(2) P S(4-6) n' _ kw k8 S(8,9)] k0 by blast
  qed
qed

end
