(* ===== verification/EnetRange.thy ===== *)
theory EnetRange
  imports EnetCoder
begin

text \<open>
  The arithmetic of the range coder.  The encoder keeps an interval of 32 bit numbers, \<open>low\<close> up to
  \<open>low + range\<close>; the decoder keeps the same interval and the next four bytes of the data.  The lemmas
  show that the decoder follows the encoder step by step: if the code lies in the interval after a
  symbol, it lies in the part of the interval before it that belongs to the symbol.
\<close>

section \<open>The leading byte\<close>

lemma u32_less: "unat (a :: u32) < 0x100000000"
proof -
  have "unat a < 2 ^ LENGTH(32)" by (rule unsigned_less)
  then show ?thesis by simp
qed

lemma unat_drop_bit_24: "unat (drop_bit 24 (a :: u32)) = unat a div 0x1000000"
  by (simp add: drop_bit_eq_div unat_div_distrib)

lemma word_xor_eq_0: "((a :: 'a::len word) XOR b = 0) \<longleftrightarrow> a = b"
proof
  assume *: "a XOR b = 0"
  have "a XOR (b XOR b) = b" unfolding xor.assoc [symmetric] * by simp
  then show "a = b" by simp
qed simp

lemma same_top: "((a :: u32) XOR b < 0x1000000) \<longleftrightarrow> unat a div 0x1000000 = unat b div 0x1000000"
proof -
  have "(a XOR b < 0x1000000) \<longleftrightarrow> unat (a XOR b) < 0x1000000"
    by (simp add: word_less_nat_alt)
  also have "\<dots> \<longleftrightarrow> unat (a XOR b) div 0x1000000 = 0" by (auto simp: div_eq_0_iff)
  also have "\<dots> \<longleftrightarrow> drop_bit 24 (a XOR b) = 0"
    unfolding unat_drop_bit_24 [symmetric] by (simp add: unat_eq_0)
  also have "\<dots> \<longleftrightarrow> drop_bit 24 a = drop_bit 24 b" by (simp add: drop_bit_xor word_xor_eq_0 del: drop_bit_eq_div)
  also have "\<dots> \<longleftrightarrow> unat a div 0x1000000 = unat b div 0x1000000"
    unfolding unat_drop_bit_24 [symmetric] by (simp add: word_unat_eq_iff)
  finally show ?thesis .
qed

lemma unat_push_bit_8: "unat (push_bit 8 (a :: u32)) = (unat a mod 0x1000000) * 256"
proof -
  have "unat (push_bit 8 a) = 256 * unat a mod (256 * 0x1000000)"
    by (simp add: push_bit_eq_mult unat_word_ariths mult.commute)
  also have "\<dots> = 256 * (unat a mod 0x1000000)" by (rule mod_mult_mult1)
  finally show ?thesis by simp
qed

lemma unat_and_low: "unat (a AND 0xFFFF :: u32) = unat a mod 0x10000"
proof -
  have "a AND 0xFFFF = take_bit 16 a" by (simp add: take_bit_eq_mask mask_eq_exp_minus_1)
  then show ?thesis by (simp add: unat_mod_distrib take_bit_eq_mod)
qed

lemma neg_mod:
  fixes n m k :: nat
  assumes "n \<le> k * m" "0 < m"
  shows "(k * m - n) mod m = (m - n mod m) mod m"
proof (cases "n mod m = 0")
  case True
  then have "m dvd n" by (simp add: dvd_eq_mod_eq_0)
  then obtain q where q: "n = m * q" ..
  have "k * m - n = m * (k - q)" by (simp add: q mult.commute diff_mult_distrib2)
  then show ?thesis using q by simp
next
  case False
  define q r where "q = n div m" and "r = n mod m"
  have n: "n = q * m + r" "0 < r" "r < m" using False assms(2) by (simp_all add: q_def r_def)
  then have "q * m < k * m" using assms(1) by linarith
  then have "q < k" by simp
  then obtain j where "k = q + 1 + j" using less_iff_Suc_add by auto
  then have "k * m - n = j * m + (m - r)" using n by (simp add: algebra_simps)
  then show ?thesis by (simp add: r_def)
qed

lemma unat_neg_low: "unat (- low AND 0xFFFF :: u32) = (0x10000 - unat low mod 0x10000) mod 0x10000"
proof (cases "low = 0")
  case False
  have "unat (- low) = 0x100000000 - unat low"
    using False unat_sub_if_size [of 0 low] by (simp add: unat_eq_0 word_size)
  moreover have "unat low \<le> 0x10000 * 0x10000" using u32_less [of low] by simp
  ultimately show ?thesis
    using neg_mod [of "unat low" "0x10000" "0x10000"] by (simp add: unat_and_low)
qed (simp add: unat_and_low)


section \<open>One turn of the normalisation\<close>

text \<open>The interval ends at or below \<open>0x100000000\<close>; the end point is 0 as a word only if the leading byte of
  \<open>low\<close> is not 0, so that it differs from that of \<open>low\<close>.\<close>

definition interval :: "u32 \<Rightarrow> u32 \<Rightarrow> bool" where
  "interval low rng \<longleftrightarrow> 0 < unat rng \<and> unat low + unat rng \<le> 0x100000000 \<and>
     (unat low + unat rng = 0x100000000 \<longrightarrow> 0x1000000 \<le> unat low)"

text \<open>What suffices to go on when the interval may wrap around.\<close>

definition live :: "u32 \<Rightarrow> u32 \<Rightarrow> bool" where
  "live low rng \<longleftrightarrow> 0 < unat rng \<and> unat rng < 0x100000000 - 0x1000000 \<or> interval low rng"

lemma unat_sum: "unat (low + rng :: u32) =
    (if unat low + unat rng < 0x100000000 then unat low + unat rng else unat low + unat rng - 0x100000000)"
  by (simp add: unat_plus_if_size word_size)

lemma agree_no_carry:
  assumes "live low rng" "low XOR (low + rng) < ENET_RANGE_CODER_TOP"
  shows "unat low mod 0x1000000 + unat rng < 0x1000000"
proof -
  have top: "unat low div 0x1000000 = unat (low + rng) div 0x1000000" using assms(2) same_top by simp
  define q x y where "q = unat low div 0x1000000" and "x = unat low mod 0x1000000" and "y = unat (low + rng) mod 0x1000000"
  have low: "unat low = q * 0x1000000 + x" and lt: "x < 0x1000000" "y < 0x1000000" by (simp_all add: q_def x_def y_def)
  have sum: "unat (low + rng) = q * 0x1000000 + y" unfolding q_def y_def top by (simp only: div_mult_mod_eq)
  have q: "q < 0x100" using u32_less [of low] low by linarith
  show ?thesis unfolding x_def [symmetric]
  proof (cases "unat low + unat rng < 0x100000000")
    case True
    then have "unat low + unat rng = q * 0x1000000 + y" using unat_sum [of low rng] sum by simp
    then show "x + unat rng < 0x1000000" using low lt by linarith
  next
    case False
    then have "unat low + unat rng = q * 0x1000000 + y + 0x100000000" using unat_sum [of low rng] sum by simp
    then have *: "x + unat rng = y + 0x100000000" using low by linarith
    then show "x + unat rng < 0x1000000" using assms(1) lt low q unfolding live_def interval_def by linarith
  qed
qed

lemma differ_aligned:
  assumes "low XOR (low + rng) \<ge> ENET_RANGE_CODER_TOP" "unat rng < 0x10000"
  shows "unat low mod 0x10000 \<noteq> 0" "0x10000 - unat low mod 0x10000 \<le> unat rng"
proof -
  define q x where "q = unat low div 0x10000" and "x = unat low mod 0x10000"
  have low: "unat low = q * 0x10000 + x" and x: "x < 0x10000" by (simp_all add: q_def x_def)
  have "0x10000 \<le> x + unat rng"
  proof (rule ccontr)
    assume "\<not> ?thesis"
    then have xr: "x + unat rng < 0x10000" by simp
    moreover have "q < 0x10000" using low u32_less [of low] by linarith
    ultimately have "unat low + unat rng < 0x100000000" using low by linarith
    then have "unat (low + rng) = q * 0x10000 + (x + unat rng)" using unat_sum [of low rng] low by simp
    moreover have "(q * 0x10000 + z) div 0x1000000 = q div 0x100" if "z < 0x10000" for z :: nat
    proof -
      have "(q * 0x10000 + z) div 0x1000000 = (q * 0x10000 + z) div 0x10000 div 0x100"
        by (simp flip: div_mult2_eq)
      then show ?thesis using that by simp
    qed
    ultimately have "unat low div 0x1000000 = unat (low + rng) div 0x1000000"
      using low x xr by metis
    then show False using assms(1) same_top [of low "low + rng"] by (simp add: not_less [symmetric])
  qed
  then show "unat low mod 0x10000 \<noteq> 0" "0x10000 - unat low mod 0x10000 \<le> unat rng"
    using assms(2) by (auto simp: x_def)
qed

text \<open>A range that is not settled is narrowed to a part of itself that fits below the next multiple of
  \<open>0x1000000\<close>, so that nothing is lost when low end and range are shifted.\<close>

lemma narrowed:
  assumes "live low rng" "\<not> range_settled low rng"
  defines "n \<equiv> unat (narrow_range low rng)"
  shows "0 < n" "n \<le> unat rng" "unat low mod 0x1000000 + n \<le> 0x1000000"
    "unat low mod 0x1000000 + n = 0x1000000 \<Longrightarrow> n \<le> 0x10000"
    "low XOR (low + rng) \<ge> ENET_RANGE_CODER_TOP \<Longrightarrow> n = 0x10000 - unat low mod 0x10000"
    "low XOR (low + rng) < ENET_RANGE_CODER_TOP \<Longrightarrow> n = unat rng \<and> unat low mod 0x1000000 + n < 0x1000000"
proof -
  have pos: "0 < unat rng" using assms(1) by (auto simp: live_def interval_def)
  show *: "n = unat rng \<and> unat low mod 0x1000000 + n < 0x1000000" if "low XOR (low + rng) < ENET_RANGE_CODER_TOP"
  proof -
    have "\<not> low XOR (low + rng) \<ge> ENET_RANGE_CODER_TOP" using that by simp
    then show ?thesis using agree_no_carry [OF assms(1) that] by (simp add: n_def narrow_range_def)
  qed
  {
    assume d: "low XOR (low + rng) \<ge> ENET_RANGE_CODER_TOP"
    then have small: "unat rng < 0x10000"
      using assms(2) by (simp add: range_settled_def word_le_nat_alt not_le)
    note a = differ_aligned [OF d small]
    have n: "n = 0x10000 - unat low mod 0x10000"
      using d a(1) unat_neg_low [of low] by (simp add: n_def narrow_range_def)
    have m: "unat low mod 0x1000000 = (unat low mod 0x1000000) div 0x10000 * 0x10000 + unat low mod 0x10000"
    proof -
      have "unat low mod 0x1000000 mod 0x10000 = unat low mod 0x10000" by (simp add: mod_mod_cancel)
      then show ?thesis by (metis div_mult_mod_eq)
    qed
    have "(unat low mod 0x1000000) div 0x10000 < 0x100"
      by (simp add: div_less_iff_less_mult)
    then have "unat low mod 0x1000000 + n \<le> 0x1000000"
      using m n mod_less_divisor [of "0x10000" "unat low"] by linarith
    note n a(2) this
  }
  note ** = this
  show "low XOR (low + rng) \<ge> ENET_RANGE_CODER_TOP \<Longrightarrow> n = 0x10000 - unat low mod 0x10000" by (rule **(1))
  have c: "low XOR (low + rng) < ENET_RANGE_CODER_TOP \<or> low XOR (low + rng) \<ge> ENET_RANGE_CODER_TOP" by auto
  show "0 < n" using c * pos **(1) by (auto simp: mod_less_divisor)
  show "n \<le> unat rng" using c * **(1,2) by auto
  show "unat low mod 0x1000000 + n \<le> 0x1000000" using c * **(3) by auto
  show "unat low mod 0x1000000 + n = 0x1000000 \<Longrightarrow> n \<le> 0x10000" using c * **(1) by auto
qed


lemma shifted:
  assumes "live low rng" "\<not> range_settled low rng"
  shows "unat (push_bit 8 low) = (unat low mod 0x1000000) * 256"
    "unat (push_bit 8 (narrow_range low rng)) = unat (narrow_range low rng) * 256"
    "interval (push_bit 8 low) (push_bit 8 (narrow_range low rng))"
proof -
  note n = narrowed [OF assms]
  show l: "unat (push_bit 8 low) = (unat low mod 0x1000000) * 256" by (rule unat_push_bit_8)
  have "unat (narrow_range low rng) < 0x1000000" using n(3,4) by (cases "unat low mod 0x1000000 = 0") linarith+
  then show r: "unat (push_bit 8 (narrow_range low rng)) = unat (narrow_range low rng) * 256"
    by (simp add: unat_push_bit_8)
  show "interval (push_bit 8 low) (push_bit 8 (narrow_range low rng))"
    unfolding interval_def l r using n(1,3,4) by linarith
qed

section \<open>The normalisation ends\<close>

text \<open>Once a range has been narrowed its end is a multiple of \<open>2 ^ 24\<close> and stays one; until then every
  turn makes the range larger.\<close>

definition turns :: "u32 \<Rightarrow> u32 \<Rightarrow> nat" where
  "turns low rng = (if (unat low + unat rng) mod 0x1000000 = 0 then 0 else 0x100000000) + (0x100000000 - unat rng)"

lemma narrowed_end:
  assumes "live low rng" "\<not> range_settled low rng" "low XOR (low + rng) \<ge> ENET_RANGE_CODER_TOP"
  shows "(unat low mod 0x1000000 + unat (narrow_range low rng)) mod 0x10000 = 0"
proof -
  have m: "unat low mod 0x1000000 mod 0x10000 = unat low mod 0x10000" by (simp add: mod_mod_cancel)
  have "unat (narrow_range low rng) = 0x10000 - unat low mod 0x10000" by (rule narrowed(5) [OF assms])
  moreover have "(a mod 0x10000 + (0x10000 - a mod 0x10000)) mod 0x10000 = 0" for a :: nat by simp
  ultimately show ?thesis using m by (metis mod_add_left_eq)
qed

lemma multiple_below_two: "(y :: nat) mod m = 0 \<Longrightarrow> 0 < y \<Longrightarrow> y < 2 * m \<Longrightarrow> y = m"
proof -
  assume "y mod m = 0" and y: "0 < y" "y < 2 * m"
  then obtain k where k: "y = m * k" by (auto simp: dvd_eq_mod_eq_0 [symmetric] elim: dvdE)
  then have "k = 1" using y by (cases k; cases "k - 1") auto
  then show ?thesis using k by simp
qed

lemma turns_decrease:
  assumes "live low rng" "\<not> range_settled low rng"
  shows "turns (push_bit 8 low) (push_bit 8 (narrow_range low rng)) < turns low rng"
proof -
  let ?n = "unat (narrow_range low rng)" and ?x = "unat low mod 0x1000000"
  note n = narrowed [OF assms] and s = shifted [OF assms]
  have sum: "unat (push_bit 8 low) + unat (push_bit 8 (narrow_range low rng)) = (?x + ?n) * 256" by (simp add: s)
  have lt: "unat rng < 0x100000000" "unat (push_bit 8 (narrow_range low rng)) < 0x100000000" by (simp_all add: u32_less)
  show ?thesis
  proof (cases "low XOR (low + rng) < ENET_RANGE_CODER_TOP")
    case True
    have eq: "?n = unat rng" "?x + ?n < 0x1000000" using n(6) [OF True] by simp_all
    have "(unat low + unat rng) mod 0x1000000 = (?x + unat rng) mod 0x1000000" by (rule mod_add_left_eq [symmetric])
    also have "\<dots> = ?x + ?n" using eq by (simp only: mod_less)
    finally have "(unat low + unat rng) mod 0x1000000 = ?x + ?n" .
    then have "(unat low + unat rng) mod 0x1000000 \<noteq> 0" using n(1) by simp
    moreover have "unat (push_bit 8 (narrow_range low rng)) = unat rng * 256" using s(2) eq(1) by simp
    moreover have "unat rng < unat rng * 256" "unat rng * 256 < 0x100000000" using n(1) eq lt calculation(2) by linarith+
    ultimately show ?thesis by (auto simp: turns_def)
  next
    case False
    then have d: "low XOR (low + rng) \<ge> ENET_RANGE_CODER_TOP" by simp
    obtain k where "?x + ?n = 0x10000 * k" using narrowed_end [OF assms d] by (auto elim: dvdE simp: dvd_eq_mod_eq_0 [symmetric])
    then have new: "(unat (push_bit 8 low) + unat (push_bit 8 (narrow_range low rng))) mod 0x1000000 = 0"
      unfolding sum by simp
    show ?thesis
    proof (cases "(unat low + unat rng) mod 0x1000000 = 0")
      case False
      then show ?thesis using new lt n(1) s(2) by (simp add: turns_def)
    next
      case True
      have small: "unat rng < 0x10000" using d assms(2) by (simp add: range_settled_def word_le_nat_alt not_le)
      have "(unat low + unat rng) mod 0x10000 = 0"
      proof -
        have "(unat low + unat rng) mod 0x1000000 mod 0x10000 = (unat low + unat rng) mod 0x10000"
          by (simp add: mod_mod_cancel)
        then show ?thesis using True by simp
      qed
      then have a: "(unat low mod 0x10000 + unat rng) mod 0x10000 = 0" by (simp add: mod_add_left_eq)
      have "unat low mod 0x10000 < 0x10000" by simp
      moreover have "unat low mod 0x10000 \<noteq> 0" by (rule differ_aligned(1) [OF d small])
      ultimately have "0 < unat low mod 0x10000 + unat rng" "unat low mod 0x10000 + unat rng < 2 * 0x10000"
        using small by linarith+
      with a have "unat low mod 0x10000 + unat rng = 0x10000" by (rule multiple_below_two)
      then have "?n = unat rng" using n(5) [OF d] by simp
      then show ?thesis using True new s(2) n(1) lt by (simp add: turns_def)
    qed
  qed
qed

text \<open>The bytes of the data as the decoder sees them: four at a time, with zeros behind the end.\<close>

definition code_of :: "u8 list \<Rightarrow> u32" where
  "code_of bs = fst (ENET_RANGE_CODER_SEED bs)"

lemma code_of_tl: "push_bit 8 (code_of bs) OR next_byte (drop 4 bs) = code_of (tl bs)"
proof -
  have "drop 4 bs = tl (tl (tl (tl bs)))" by (simp add: drop_Suc eval_nat_numeral)
  then show ?thesis
    by (simp add: code_of_def ENET_RANGE_CODER_SEED_def push_bit_or ac_simps next_byte_def split: list.split)
qed

lemma u8_bit: "bit (b :: u8) n \<Longrightarrow> n < 8"
  using bit_imp_le_length [of b n] by simp

lemma code_of_Cons_bits: "code_of (b # bs) = push_bit 24 (ucast b) OR drop_bit 8 (code_of bs)"
proof -
  have "drop_bit 8 (push_bit n (next_byte cs)) = push_bit (n - 8) (next_byte cs)" if "n \<in> {8, 16, 24}" for n cs
    using that by (auto simp: next_byte_def bit_simps split: list.split intro!: bit_word_eqI dest!: u8_bit)
  then have *: "drop_bit 8 (push_bit 24 (next_byte cs)) = push_bit 16 (next_byte cs)"
    "drop_bit 8 (push_bit 16 (next_byte cs)) = push_bit 8 (next_byte cs)"
    "drop_bit 8 (push_bit 8 (next_byte cs)) = next_byte cs" for cs by simp_all
  have **: "drop_bit 8 (next_byte cs) = 0" for cs
    by (auto simp: next_byte_def bit_simps split: list.split intro!: bit_word_eqI dest!: u8_bit)
  show ?thesis by (simp add: code_of_def ENET_RANGE_CODER_SEED_def drop_bit_or * **) (simp add: next_byte_def ac_simps)
qed

lemma code_of_Cons: "unat (code_of (b # bs)) = unat b * 0x1000000 + unat (code_of bs) div 256"
proof -
  have "push_bit 24 (ucast b) AND drop_bit 8 (code_of bs) = 0"
    by (rule bit_word_eqI) (auto simp: bit_simps dest: bit_imp_le_length)
  then have eq: "code_of (b # bs) = push_bit 24 (ucast b) + drop_bit 8 (code_of bs)"
    by (simp only: code_of_Cons_bits disjunctive_add_eq_or)
  have b: "unat b < 0x100" using unsigned_less [of b] by simp
  have p: "unat (push_bit 24 (ucast b :: u32)) = unat b * 0x1000000"
    using b by (simp add: push_bit_eq_mult unat_word_ariths unat_ucast_up)
  have d: "unat (drop_bit 8 (code_of bs)) = unat (code_of bs) div 256"
    by (simp add: drop_bit_eq_div unat_div_distrib)
  have "unat (code_of bs) div 256 < 0x1000000" using u32_less [of "code_of bs"] by simp
  then show ?thesis unfolding eq unat_sum p d using b by simp
qed


section \<open>Encoder and decoder in step\<close>

definition within :: "u32 \<Rightarrow> u32 \<Rightarrow> u32 \<Rightarrow> bool" where
  "within code low rng \<longleftrightarrow> unat low \<le> unat code \<and> unat code < unat low + unat rng"

text \<open>The decoder when the encoder is in state \<open>e\<close> and \<open>tail\<close> is what it will still emit.\<close>

definition decoder_at :: "encoder \<Rightarrow> u8 list \<Rightarrow> decoder" where
  "decoder_at e tail =
     \<lparr>decodeLow = encodeLow e, decodeCode = code_of tail, decodeRange = encodeRange e, inData = drop 4 tail\<rparr>"

definition settled :: "encoder \<Rightarrow> bool" where
  "settled e \<longleftrightarrow> interval (encodeLow e) (encodeRange e) \<and> 0x10000 \<le> unat (encodeRange e)"

lemma top_byte: "unat (ucast (drop_bit 24 (low :: u32)) :: u8) = unat low div 0x1000000"
proof -
  have "unat low div 0x1000000 < 0x100" using u32_less [of low] by simp
  then show ?thesis by (simp add: unat_ucast_le unat_drop_bit_24 del: drop_bit_eq_div)
qed

lemma within_shifted:
  assumes "live low rng" "\<not> range_settled low rng"
    "within (code_of bs) (push_bit 8 low) (push_bit 8 (narrow_range low rng))"
  shows "within (code_of (ucast (drop_bit 24 low) # bs)) low rng"
proof -
  define x q n where "x = unat low mod 0x1000000" and "q = unat low div 0x1000000" and "n = unat (narrow_range low rng)"
  have low: "unat low = q * 0x1000000 + x" by (simp add: x_def q_def)
  have q: "unat low div 0x1000000 = q" by (simp add: q_def)
  have "x * 256 \<le> unat (code_of bs)" "unat (code_of bs) < (x + n) * 256"
    using assms(3) shifted(1,2) [OF assms(1,2)] by (simp_all add: within_def x_def n_def)
  then have "x \<le> unat (code_of bs) div 256" "unat (code_of bs) div 256 < x + n"
    by (simp_all add: less_eq_div_iff_mult_less_eq div_less_iff_less_mult)
  moreover have "n \<le> unat rng" using narrowed(2) [OF assms(1,2)] by (simp add: n_def)
  ultimately show ?thesis
    unfolding within_def code_of_Cons top_byte q by (simp only: low) linarith
qed

lemma normalize_lockstep:
  assumes "encode_normalize lim low rng out = Some (Some e)" "interval low rng"
  shows "\<exists>em. outData e = out @ em \<and> settled e \<and> (length out \<le> lim \<longrightarrow> length (outData e) \<le> lim) \<and>
    (\<forall>tail. within (code_of tail) (encodeLow e) (encodeRange e) \<longrightarrow>
      within (code_of (em @ tail)) low rng \<and>
      decode_normalize low (code_of (em @ tail)) rng (drop 4 (em @ tail)) = Some (decoder_at e tail))"
  using assms
proof (induction "lim - length out" arbitrary: low rng out rule: less_induct)
  case less
  show ?case
  proof (cases "range_settled low rng")
    case True
    then have "e = \<lparr>encodeLow = low, encodeRange = rng, outData = out\<rparr>"
      using less.prems(1) by (subst (asm) encode_normalize.simps) simp
    then show ?thesis
      using True less.prems(2)
      by (intro exI [of _ "[]"])
         (auto simp: settled_def range_settled_def word_le_nat_alt decoder_at_def decode_normalize.simps)
  next
    case False
    let ?b = "ucast (drop_bit 24 low) :: u8"
    have lim: "length out < lim"
      and rest: "encode_normalize lim (push_bit 8 low) (push_bit 8 (narrow_range low rng)) (out @ [?b]) = Some (Some e)"
      using less.prems(1) False
      by (subst (asm) encode_normalize.simps, simp add: ENET_RANGE_CODER_OUTPUT_def split: if_split_asm)+
    have live: "live low rng" using less.prems(2) by (simp add: live_def)
    have "lim - length (out @ [?b]) < lim - length out" using lim by simp
    from less.hyps [OF this rest shifted(3) [OF live False]]
    obtain em where em: "outData e = out @ [?b] @ em" "settled e" "length (outData e) \<le> lim"
      and step: "\<And>tail. within (code_of tail) (encodeLow e) (encodeRange e) \<Longrightarrow>
        within (code_of (em @ tail)) (push_bit 8 low) (push_bit 8 (narrow_range low rng)) \<and>
        decode_normalize (push_bit 8 low) (code_of (em @ tail)) (push_bit 8 (narrow_range low rng)) (drop 4 (em @ tail))
          = Some (decoder_at e tail)"
      using lim by auto
    have "within (code_of (?b # em @ tail)) low rng \<and>
        decode_normalize low (code_of (?b # em @ tail)) rng (drop 4 (?b # em @ tail)) = Some (decoder_at e tail)"
      if t: "within (code_of tail) (encodeLow e) (encodeRange e)" for tail
    proof
      show "within (code_of (?b # em @ tail)) low rng" using within_shifted [OF live False] step [OF t] by blast
      have "tl (drop 4 (?b # em @ tail)) = drop 4 (em @ tail)" by (simp only: tl_drop list.sel)
      then show "decode_normalize low (code_of (?b # em @ tail)) rng (drop 4 (?b # em @ tail)) = Some (decoder_at e tail)"
        using False step [OF t] code_of_tl [of "?b # em @ tail"] by (subst decode_normalize.simps) simp
    qed
    then show ?thesis using em by (intro exI [of _ "?b # em"]) simp
  qed
qed

text \<open>A symbol: its part of the interval is \<open>und\<close> up to \<open>und + cnt\<close> of \<open>tot\<close>.\<close>

lemma encode_decode:
  assumes "ENET_RANGE_CODER_ENCODE lim und cnt tot e = Some (Some e')" "settled e"
    "0 < cnt" "unat und + unat cnt \<le> unat tot"
  obtains em where "outData e' = outData e @ em" "settled e'"
    "length (outData e) \<le> lim \<Longrightarrow> length (outData e') \<le> lim"
    "\<And>tail. within (code_of tail) (encodeLow e') (encodeRange e') \<Longrightarrow>
      within (code_of (em @ tail)) (encodeLow e) (encodeRange e) \<and>
      (\<exists>code d. ENET_RANGE_CODER_READ tot (decoder_at e (em @ tail)) = Some (code, d) \<and>
        unat und \<le> unat code \<and> unat code < unat und + unat cnt \<and>
        ENET_RANGE_CODER_DECODE und cnt d = Some (decoder_at e' tail))"
proof -
  define r where "r = encodeRange e div ucast tot"
  let ?low = "encodeLow e + und * r" and ?rng = "r * ucast cnt"
  have c: "0 < unat cnt" using assms(3) by (simp add: word_less_nat_alt)
  then have t: "0 < unat tot" "tot \<noteq> 0" using assms(4) by auto
  have enc: "encode_normalize lim ?low ?rng (outData e) = Some (Some e')"
    using assms(1) t by (simp add: ENET_RANGE_CODER_ENCODE_def r_def Let_def)
  have r: "unat r = unat (encodeRange e) div unat tot" by (simp add: r_def unat_div_distrib)
  have iv: "interval (encodeLow e) (encodeRange e)" "0x10000 \<le> unat (encodeRange e)"
    using assms(2) by (simp_all add: settled_def)
  have "unat tot < 0x10000" using unsigned_less [of tot] by simp
  then have rpos: "0 < unat r" using iv(2) t r by (simp add: div_greater_zero_iff)
  have "(unat und + unat cnt) * unat r \<le> unat tot * unat r" using assms(4) by simp
  also have "\<dots> \<le> unat (encodeRange e)" by (simp add: r mult.commute)
  finally have le: "unat und * unat r + unat cnt * unat r \<le> unat (encodeRange e)" by (simp add: algebra_simps)
  have cr: "0 < unat cnt * unat r" using c rpos by simp
  have end32: "unat (encodeLow e) + unat (encodeRange e) \<le> 0x100000000" using iv(1) by (simp add: interval_def)
  have u1: "unat (und * r) = unat und * unat r"
  proof -
    have "unat und * unat r < 0x100000000" using le cr u32_less [of "encodeRange e"] by linarith
    then show ?thesis by (simp add: unat_word_ariths)
  qed
  have low: "unat ?low = unat (encodeLow e) + unat und * unat r"
  proof -
    have "unat (encodeLow e) + unat und * unat r < 0x100000000" using le cr end32 by linarith
    then show ?thesis by (simp add: unat_sum u1)
  qed
  have rng: "unat ?rng = unat cnt * unat r"
  proof -
    have "unat cnt * unat r < 0x100000000" using le u32_less [of "encodeRange e"] by linarith
    then show ?thesis by (simp add: unat_word_ariths mult.commute)
  qed
  have "interval ?low ?rng"
    using iv(1) le cr unfolding interval_def low rng by linarith
  from normalize_lockstep [OF enc this]
  obtain em where em: "outData e' = outData e @ em" "settled e'" "length (outData e) \<le> lim \<longrightarrow> length (outData e') \<le> lim"
    and step: "\<And>tail. within (code_of tail) (encodeLow e') (encodeRange e') \<Longrightarrow>
      within (code_of (em @ tail)) ?low ?rng \<and>
      decode_normalize ?low (code_of (em @ tail)) ?rng (drop 4 (em @ tail)) = Some (decoder_at e' tail)"
    by blast
  show ?thesis
  proof (rule that [of em])
    fix tail
    let ?C = "code_of (em @ tail)"
    assume w: "within (code_of tail) (encodeLow e') (encodeRange e')"
    have w: "unat (encodeLow e) + unat und * unat r \<le> unat ?C"
      "unat ?C < unat (encodeLow e) + (unat und + unat cnt) * unat r"
      using conjunct1 [OF step [OF w]] unfolding within_def low rng add_mult_distrib by linarith+
    have within: "within ?C (encodeLow e) (encodeRange e)"
      using w le unfolding within_def by (simp add: algebra_simps)
    have sub: "unat (?C - encodeLow e) = unat ?C - unat (encodeLow e)"
      using within by (simp add: within_def unat_sub_if_size)
    define q where "q = (?C - encodeLow e) div r"
    have q: "unat q = (unat ?C - unat (encodeLow e)) div unat r" by (simp add: q_def unat_div_distrib sub)
    have "unat und * unat r \<le> unat ?C - unat (encodeLow e)"
      "unat ?C - unat (encodeLow e) < (unat und + unat cnt) * unat r" using w by linarith+
    then have qb: "unat und \<le> unat q" "unat q < unat und + unat cnt"
      using rpos by (simp_all add: q less_eq_div_iff_mult_less_eq div_less_iff_less_mult)
    then have "unat q < 0x10000" using assms(4) \<open>unat tot < 0x10000\<close> by linarith
    then have qc: "unat (ucast q :: u16) = unat q" by (simp add: unat_ucast_le)
    have "encodeRange e div ucast tot \<noteq> 0" using rpos by (auto simp: r_def)
    then have read: "ENET_RANGE_CODER_READ tot (decoder_at e (em @ tail)) =
        Some (ucast q, (decoder_at e (em @ tail))\<lparr>decodeRange := r\<rparr>)"
      using t by (simp add: ENET_RANGE_CODER_READ_def decoder_at_def q_def r_def Let_def)
    moreover have "ENET_RANGE_CODER_DECODE und cnt ((decoder_at e (em @ tail))\<lparr>decodeRange := r\<rparr>) = Some (decoder_at e' tail)"
      using step [OF \<open>within (code_of tail) (encodeLow e') (encodeRange e')\<close>]
      by (simp add: ENET_RANGE_CODER_DECODE_def decoder_at_def)
    ultimately show "within ?C (encodeLow e) (encodeRange e) \<and>
      (\<exists>code d. ENET_RANGE_CODER_READ tot (decoder_at e (em @ tail)) = Some (code, d) \<and>
        unat und \<le> unat code \<and> unat code < unat und + unat cnt \<and>
        ENET_RANGE_CODER_DECODE und cnt d = Some (decoder_at e' tail))"
      using within qb qc by auto
  qed (use em in auto)
qed


section \<open>Every loop returns\<close>

lemma encode_normalize_returns: "encode_normalize lim low rng out \<noteq> None"
proof (induction "lim - length out" arbitrary: low rng out rule: less_induct)
  case less
  show ?case
    using less [of "out @ [x]" for x]
    by (subst encode_normalize.simps) (auto simp: ENET_RANGE_CODER_OUTPUT_def)
qed

lemma encode_returns: "tot \<noteq> 0 \<Longrightarrow> ENET_RANGE_CODER_ENCODE lim und cnt tot e \<noteq> None"
  by (simp add: ENET_RANGE_CODER_ENCODE_def Let_def encode_normalize_returns del: not_None_eq)

lemma flush_returns: "ENET_RANGE_CODER_FLUSH lim low out \<noteq> None"
proof (induction "lim - length out" arbitrary: low out rule: less_induct)
  case less
  show ?case
    using less [of "out @ [x]" for x]
    by (subst ENET_RANGE_CODER_FLUSH.simps) (auto simp: ENET_RANGE_CODER_OUTPUT_def)
qed

text \<open>The decoder's loop has no bound of its own.  It returns because the range is never 0 and large
  enough after a few turns.  When the data are used up and the code is the low end, it stays the low
  end.\<close>

lemma decode_normalize_returns:
  assumes "live low rng"
  shows "\<exists>d. decode_normalize low code rng bs = Some d \<and> 0x10000 \<le> unat (decodeRange d) \<and>
    (code = low \<and> bs = [] \<longrightarrow> decodeCode d = decodeLow d \<and> inData d = [])"
  using assms
proof (induction "turns low rng" arbitrary: low code rng bs rule: less_induct)
  case less
  show ?case
  proof (cases "range_settled low rng")
    case True
    then show ?thesis by (simp add: decode_normalize.simps) (simp add: range_settled_def word_le_nat_alt)
  next
    case False
    have "live (push_bit 8 low) (push_bit 8 (narrow_range low rng))"
      using shifted(3) [OF less.prems False] by (simp add: live_def)
    from less.hyps [OF turns_decrease [OF less.prems False] this, of "push_bit 8 code OR next_byte bs" "tl bs"]
    show ?thesis using False by (subst decode_normalize.simps) (auto simp: next_byte_def)
  qed
qed

section \<open>The end of the data\<close>

text \<open>The bytes that are flushed are those of the low end, without the zeros at its end.\<close>

lemma flush_code:
  assumes "ENET_RANGE_CODER_FLUSH lim low out = Some (Some out')" "k \<le> 4" "256 ^ (4 - k) dvd unat low"
  shows "\<exists>em. out' = out @ em \<and> code_of em = low \<and> length em \<le> k"
  using assms
proof (induction "lim - length out" arbitrary: low out k rule: less_induct)
  case less
  show ?case
  proof (cases "low = 0")
    case True
    then have "out' = out" using less.prems(1) by (subst (asm) ENET_RANGE_CODER_FLUSH.simps) simp
    then show ?thesis using True by (simp add: code_of_def ENET_RANGE_CODER_SEED_def next_byte_def)
  next
    case False
    let ?b = "ucast (drop_bit 24 low) :: u8"
    have lim: "length out < lim"
      and rest: "ENET_RANGE_CODER_FLUSH lim (push_bit 8 low) (out @ [?b]) = Some (Some out')"
      using less.prems(1) False
      by (subst (asm) ENET_RANGE_CODER_FLUSH.simps, simp add: ENET_RANGE_CODER_OUTPUT_def split: if_split_asm)+
    have k: "k \<noteq> 0"
    proof
      assume "k = 0"
      then have "0x100000000 dvd unat low" using less.prems(3) by simp
      then show False using False u32_less [of low] by (auto simp: dvd_def unat_eq_0)
    qed
    have "(256 :: nat) ^ (4 - k) dvd 0x1000000"
      using k less.prems(2) le_imp_power_dvd [of "4 - k" 3 "256 :: nat"] by simp
    then have "256 ^ (4 - k) dvd unat low mod 0x1000000" using less.prems(3) by (simp add: dvd_mod)
    then have "256 ^ (4 - k) * 256 dvd unat (push_bit 8 low)" unfolding unat_push_bit_8 by (rule mult_dvd_mono) simp
    moreover have "(256 :: nat) ^ (4 - (k - 1)) = 256 ^ (4 - k) * 256"
    proof -
      have "4 - (k - 1) = Suc (4 - k)" using k less.prems(2) by simp
      then show ?thesis by (simp only: power_Suc2)
    qed
    ultimately have "256 ^ (4 - (k - 1)) dvd unat (push_bit 8 low)" by simp
    moreover have "lim - length (out @ [?b]) < lim - length out" "k - 1 \<le> 4" using lim less.prems(2) by simp_all
    ultimately obtain em where em: "out' = (out @ [?b]) @ em" "code_of em = push_bit 8 low" "length em \<le> k - 1"
      using less.hyps [OF _ rest] by blast
    have "unat (code_of (?b # em)) = unat low"
      using em(2) unat_push_bit_8 [of low] by (simp add: code_of_Cons top_byte)
    then have "code_of (?b # em) = low" by (simp add: word_unat_eq_iff)
    then show ?thesis using em k by (intro exI [of _ "?b # em"]) auto
  qed
qed

end
