(* ===== verification/EnetCompress.thy ===== *)
theory EnetCompress
  imports EnetContexts EnetRange
begin

text \<open>
  The range coder as a whole.  The model of what the memory knows gives, for every byte, the intervals it
  is coded with.  The compressor codes these intervals and learns the byte; the decompressor finds the
  byte from the intervals and learns the same, in another order and with other symbols.
\<close>

section \<open>The intervals of a byte\<close>

text \<open>An interval: what is below it, its size, and the total.  In a context that has not seen the byte an
  escape is coded, if anything is known there.\<close>

definition interval_of :: "nat \<Rightarrow> u8 \<Rightarrow> nat \<times> (u8 \<times> nat) list \<Rightarrow> (nat \<times> nat \<times> nat) list" where
  "interval_of m v = (\<lambda>(e, xs).
     if m = 1 \<or> count_in v xs > 0
     then [(e + less_in v xs + unat v * m, count_in v xs + m, e + 256 * m + sum_in xs)]
     else if e > 0 \<and> sum_in xs > 0 then [(0, e, e + sum_in xs)] else [])"

text \<open>The intervals of a byte, the contexts that learn it, and how many of them see it for the first
  time: from the longest context to the first that knows the byte, the root at the latest.\<close>

fun intervals :: "model \<Rightarrow> u8 list \<Rightarrow> u8 \<Rightarrow> (nat \<times> nat \<times> nat) list" where
  "intervals M [] v = interval_of 1 v (M [])"
| "intervals M (x # w) v = interval_of 0 v (M (x # w)) @
     (if count_in v (snd (M (x # w))) > 0 then [] else intervals M w v)"

fun learners :: "model \<Rightarrow> u8 list \<Rightarrow> u8 \<Rightarrow> u8 list set" where
  "learners M [] v = {[]}"
| "learners M (x # w) v = insert (x # w) (if count_in v (snd (M (x # w))) > 0 then {} else learners M w v)"

fun news :: "model \<Rightarrow> u8 list \<Rightarrow> u8 \<Rightarrow> nat" where
  "news M [] v = (if count_in v (snd (M [])) > 0 then 0 else 1)"
| "news M (x # w) v = (if count_in v (snd (M (x # w))) > 0 then 0 else Suc (news M w v))"

definition taught :: "u8 list set \<Rightarrow> u8 \<Rightarrow> model \<Rightarrow> model" where
  "taught U v M = (\<lambda>u. if u \<in> U then learn (if u = [] then 1 else 0) v (M u) else M u)"

lemma shorter_cong:
  assumes "\<And>u. length u \<le> length w \<Longrightarrow> N u = M u"
  shows "intervals N w v = intervals M w v \<and> learners N w v = learners M w v \<and> news N w v = news M w v"
  using assms
proof (induction w)
  case (Cons x w)
  have "N (x # w) = M (x # w)" using Cons.prems by simp
  moreover have "\<And>u. length u \<le> length w \<Longrightarrow> N u = M u" using Cons.prems by simp
  ultimately show ?case using Cons.IH by simp
qed simp

lemma learners_length: "u \<in> learners M w v \<Longrightarrow> length u \<le> length w"
  by (induction M w v rule: learners.induct) (auto split: if_split_asm)

lemma update_shorter: "length w < length z \<Longrightarrow> length u \<le> length w \<Longrightarrow> (M(z := y)) u = M u"
  by auto

lemma taught_insert:
  "w \<notin> U \<Longrightarrow> taught U v (M(w := learn (if w = [] then 1 else 0) v (M w))) = taught (insert w U) v M"
  by (auto simp: taught_def fun_eq_iff)

lemma news_le: "news M w v \<le> length w + 1"
  by (induction M w v rule: news.induct) auto

lemma less_count_sum: "less_in v xs + count_in v xs \<le> sum_in xs"
  by (induction xs) auto

fun encode_all :: "nat \<Rightarrow> (nat \<times> nat \<times> nat) list \<Rightarrow> encoder \<Rightarrow> encoder option option" where
  "encode_all lim [] e = Some (Some e)"
| "encode_all lim ((u, c, t) # ts) e =
     (case ENET_RANGE_CODER_ENCODE lim (of_nat u) (of_nat c) (of_nat t) e of
        None \<Rightarrow> None
      | Some None \<Rightarrow> Some None
      | Some (Some e) \<Rightarrow> encode_all lim ts e)"

lemma encode_all_single: "encode_all lim [(u, c, t)] e = ENET_RANGE_CODER_ENCODE lim (of_nat u) (of_nat c) (of_nat t) e"
  by (auto split: option.split)

lemma encode_all_append:
  "encode_all lim (ts @ ts') e =
     (case encode_all lim ts e of
        None \<Rightarrow> None | Some None \<Rightarrow> Some None | Some (Some e) \<Rightarrow> encode_all lim ts' e)"
  by (induction lim ts e rule: encode_all.induct) (auto split: option.split)

definition sound :: "nat \<times> nat \<times> nat \<Rightarrow> bool" where
  "sound = (\<lambda>(u, c, t). 0 < c \<and> u + c \<le> t \<and> t < 65536)"

lemma encode_all_returns: "\<forall>i\<in>set ts. sound i \<Longrightarrow> encode_all lim ts e \<noteq> None"
proof (induction lim ts e rule: encode_all.induct)
  case (2 lim u c t ts e)
  have "0 < t" "t < 65536" using 2(2) by (auto simp: sound_def)
  then have "(of_nat t :: u16) \<noteq> 0" using unat_of_nat_u16 [of t] by auto
  then show ?case using encode_returns [of "of_nat t" lim "of_nat u" "of_nat c" e] 2 by (auto split: option.split)
qed simp

section \<open>A context as the model sees it\<close>

lemma context_model:
  assumes "represents T nm syms n M" "i < n" "M (nm i) = (e, xs)" "m = minimum_of i"
  shows "unat (sy_escapes (syms i)) = e" "unat (sy_total (syms i)) = e + 256 * m + sum_in xs"
    "below v (T i) = less_in v xs" "snd (seek v n (T i)) = count_in v xs"
    "e + 256 * m + sum_in xs \<le> 65280" "e = 0 \<longleftrightarrow> m = 0 \<and> xs = []" "sum_in xs = 0 \<longleftrightarrow> xs = []"
    "nm i = [] \<longleftrightarrow> i = 0"
proof -
  have R: "wf T nm syms n" "ordered (T i)" "e = unat (sy_escapes (syms i))" "xs = entries (T i)"
    using assms(1,2,3) by (auto simp: represents_def)
  have c: "context_at syms i m (T i)" using wfD(6) [OF R(1) assms(2)] assms(4) by simp
  have leaf: "xs = [] \<longleftrightarrow> T i = Leaf" unfolding R(4) by (cases "T i" rule: weight.cases) auto
  have "0 < sum_in xs" if ne: "xs \<noteq> []"
  proof -
    obtain j x c where "(j, x, c) \<in> set_tree (T i)" using ne leaf by (cases "T i" rule: weight.cases) auto
    then have "0 < c" "(x, c) \<in> set xs" using c R(4) by (auto simp: context_at_def sums_ok_def entries_mem)
    then show ?thesis by (auto simp: sum_in_def dest: split_list)
  qed
  then show "sum_in xs = 0 \<longleftrightarrow> xs = []" by (cases "xs = []") auto
  show "nm i = [] \<longleftrightarrow> i = 0" using wfD(3,4) [OF R(1)] assms(2) by blast
  show "unat (sy_escapes (syms i)) = e" "unat (sy_total (syms i)) = e + 256 * m + sum_in xs"
    "e + 256 * m + sum_in xs \<le> 65280" "e = 0 \<longleftrightarrow> m = 0 \<and> xs = []"
    using c R(3,4) leaf by (auto simp: context_at_def sums_ok_def weight_entries)
  show "below v (T i) = less_in v xs" "snd (seek v n (T i)) = count_in v xs"
    using ordered_walk(2,3) [OF R(2)] R(4) by simp_all
qed

lemma interval_of_sound:
  assumes "e + 256 * m + sum_in xs \<le> 65280" "m \<le> 1"
  shows "\<forall>i\<in>set (interval_of m v (e, xs)). sound i"
proof -
  have "unat v < 256" using unsigned_less [of v] by simp
  then show ?thesis using assms less_count_sum [of v xs] by (cases m) (auto simp: interval_of_def sound_def)
qed


section \<open>The compressor\<close>

lemma u16_of_unat: "unat (w :: u16) = k \<Longrightarrow> w = of_nat k"
  by (metis of_nat_unat ucast_id)

lemma u32_of_unat: "unat (w :: u16) = k \<Longrightarrow> (ucast w :: u32) = of_nat k"
  by (metis of_nat_unat)

lemma ucast_of_nat_u32: "k < 65536 \<Longrightarrow> (ucast (of_nat k :: u16) :: u32) = of_nat k"
  by (rule u32_of_unat) (rule unat_of_nat_u16)

lemma of_nat_u16_less: "a < 65536 \<Longrightarrow> b < 65536 \<Longrightarrow> (of_nat a :: u16) < of_nat b \<longleftrightarrow> a < b"
  by (simp only: word_less_nat_alt unat_of_nat_u16)

lemma of_nat_u16_pos: "a < 65536 \<Longrightarrow> (0 :: u16) < of_nat a \<longleftrightarrow> 0 < a"
  using of_nat_u16_less [of 0 a] by simp

lemma of_nat_u16_eq_0: "a < 65536 \<Longrightarrow> (of_nat a :: u16) = 0 \<longleftrightarrow> a = 0"
  by (simp add: word_unat_eq_iff unat_of_nat_u16)

text \<open>What a turn of the loop over the contexts does, whoever runs it: the memory learns the byte.\<close>

definition learned ::
    "(nat \<Rightarrow> u8 list) \<Rightarrow> ENetRangeCoder \<Rightarrow> nat \<Rightarrow> u8 \<Rightarrow> nat option \<Rightarrow> model \<Rightarrow> nat \<Rightarrow> nat \<Rightarrow> ENetRangeCoder \<Rightarrow>
     (nat \<Rightarrow> nodes) \<Rightarrow> (nat \<Rightarrow> u8 list) \<Rightarrow> bool" where
  "learned nm rc i v parent M k s rc' T' nm' \<longleftrightarrow>
     represents T' nm' (rc_symbols rc') (rc_nextSymbol rc') (M(nm i := learn (minimum_of i) v (M (nm i)))) \<and>
     parents nm' (rc_symbols rc') (rc_nextSymbol rc') (if k = 0 \<and> i \<noteq> 0 then {s} else {}) \<and>
     s < rc_nextSymbol rc' \<and> nm' s = nm i @ [v] \<and> (\<forall>j < rc_nextSymbol rc. nm' j = nm j) \<and>
     rc_nextSymbol rc' = rc_nextSymbol rc + (if k = 0 then 1 else 0) \<and>
     (\<forall>j < rc_nextSymbol rc. parent \<noteq> Some j \<longrightarrow> sy_parent (rc_symbols rc' j) = sy_parent (rc_symbols rc j)) \<and>
     rc_order rc' = rc_order rc \<and>
     rc_predicted rc' = (if parent = None then of_nat s else rc_predicted rc)"

lemma compress_subcontext_learns:
  assumes rep: "represents T nm (rc_symbols rc) (rc_nextSymbol rc) M"
    and wf: "parents nm (rc_symbols rc) (rc_nextSymbol rc) X" "i < rc_nextSymbol rc" "rc_nextSymbol rc < SYMBOLS"
      "length (nm i) \<le> 2" "waiting nm (rc_nextSymbol rc) i parent v X" "i \<noteq> 0"
  obtains s rc' T' nm' where
    "compress_subcontext lim v i parent (rc, e) =
      (case encode_all lim (interval_of 0 v (M (nm i))) e of
         None \<Rightarrow> None | Some None \<Rightarrow> Some None
       | Some (Some e') \<Rightarrow> Some (Some (count_in v (snd (M (nm i))) > 0, s, rc', e')))"
    "learned nm rc i v parent M (count_in v (snd (M (nm i)))) s rc' T' nm'"
proof -
  obtain e0 xs where M: "M (nm i) = (e0, xs)" by (cases "M (nm i)")
  have m: "0 = minimum_of i" using wf(6) by simp
  note C = context_model [OF rep wf(2) M m, simplified]
  define k where "k = count_in v xs"
  have k: "k = snd (seek v (rc_nextSymbol rc) (T i))" using C(4) by (simp add: k_def)
  have w: "wf T nm (rc_symbols rc) (rc_nextSymbol rc)" using rep by (simp add: represents_def)
  have le: "less_in v xs + k \<le> sum_in xs" unfolding k_def by (rule less_count_sum)
  have small: "k < 65536" "less_in v xs < 65536" "e0 < 65536" "e0 + sum_in xs < 65536" using le C(5) by linarith+
  obtain s syms1 rc1 syms3 T' nm' where L:
    "ENET_CONTEXT_ENCODE i v (of_nat (delta 0)) (of_nat 0) (rc_symbols rc) (rc_nextSymbol rc) =
       Some (s, of_nat (below v (T i) + unat v * 0), of_nat (k + 0), syms1, rc_nextSymbol rc1)"
    "rc1 = set_parent parent s (rc\<lparr>rc_symbols := syms1, rc_nextSymbol := rc_nextSymbol rc1\<rparr>)"
    "sy_escapes (rc_symbols rc1 i) = sy_escapes (rc_symbols rc i)" "sy_total (rc_symbols rc1 i) = sy_total (rc_symbols rc i)"
    "grow_context i (of_nat (delta 0)) (of_nat 0) (rescale_limit 0 < k + 0)
       (if 0 = (0::nat) \<and> k = 0 then escape_context i (rc_symbols rc1) else rc_symbols rc1) = Some syms3"
    "wf T' nm' syms3 (rc_nextSymbol rc1)"
    "parents nm' syms3 (rc_nextSymbol rc1) (if k = 0 \<and> i \<noteq> 0 then {s} else {})"
    "s < rc_nextSymbol rc1" "nm' s = nm i @ [v]" "\<And>j. j < rc_nextSymbol rc \<Longrightarrow> nm' j = nm j"
    "rc_nextSymbol rc1 = rc_nextSymbol rc + (if k = 0 then 1 else 0)"
    "\<And>j. j < rc_nextSymbol rc \<Longrightarrow> parent \<noteq> Some j \<Longrightarrow> sy_parent (syms3 j) = sy_parent (rc_symbols rc j)"
    "\<And>M. represents T nm (rc_symbols rc) (rc_nextSymbol rc) M \<Longrightarrow>
      represents T' nm' syms3 (rc_nextSymbol rc1) (M(nm i := learn 0 v (M (nm i))))"
    "rc_order rc1 = rc_order rc" "rc_predicted rc1 = (if parent = None then of_nat s else rc_predicted rc)"
    using learn_step [OF w wf(1-4) m wf(5) k] by blast
  have words: "sy_escapes (rc_symbols rc1 i) = of_nat e0" "sy_total (rc_symbols rc1 i) = of_nat (e0 + sum_in xs)"
    unfolding L(3,4) by (rule u16_of_unat, rule C(1,2))+
  have cnt: "(0 :: u16) < of_nat k \<longleftrightarrow> 0 < k" "(of_nat k :: u16) > 0xFF - 2 * ENET_SUBCONTEXT_SYMBOL_DELTA \<longleftrightarrow> rescale_limit 0 < k"
    using of_nat_u16_less [of 251 k] small by (simp_all add: of_nat_u16_pos rescale_limit_def)
  have esc: "(0 :: u16) < of_nat e0 \<and> (of_nat e0 :: u16) < of_nat (e0 + sum_in xs) \<longleftrightarrow> 0 < e0 \<and> 0 < sum_in xs"
    using of_nat_u16_less [of e0 "e0 + sum_in xs"] small by (simp add: of_nat_u16_pos del: of_nat_add)
  have und: "ucast (of_nat e0 :: u16) + ucast (of_nat (less_in v xs) :: u16) = (of_nat (e0 + less_in v xs) :: u32)"
    using small by (simp add: ucast_of_nat_u32)
  have coded: "(if (0 :: u16) < of_nat k then
        ENET_RANGE_CODER_ENCODE lim (ucast (of_nat e0 :: u16) + ucast (of_nat (less_in v xs) :: u16)) (of_nat k) (of_nat (e0 + sum_in xs)) e
      else if (0 :: u16) < of_nat e0 \<and> (of_nat e0 :: u16) < of_nat (e0 + sum_in xs)
      then ENET_RANGE_CODER_ENCODE lim 0 (of_nat e0) (of_nat (e0 + sum_in xs)) e else Some (Some e)) =
      encode_all lim (interval_of 0 v (e0, xs)) e"
    unfolding cnt esc und by (simp add: interval_of_def k_def [symmetric] encode_all_single del: encode_all.simps(2))
  have ck: "count_in v (snd (M (nm i))) = k" by (simp add: M k_def)
  have "compress_subcontext lim v i parent (rc, e) =
      (case encode_all lim (interval_of 0 v (e0, xs)) e of
         None \<Rightarrow> None | Some None \<Rightarrow> Some None
       | Some (Some e') \<Rightarrow> Some (Some (k > 0, s, rc1\<lparr>rc_symbols := syms3\<rparr>, e')))"
  proof (cases "k = 0")
    case True
    have g: "grow_context i 2 0 False (escape_context i (rc_symbols rc1)) = Some syms3"
      using L(5) True by (simp add: delta_def)
    show ?thesis unfolding coded [symmetric]
      using L(1) L(2) [symmetric] True words g
      by (simp add: compress_subcontext_def Let_def delta_def C(3) split: option.split)
  next
    case False
    then have pos: "(0 :: u16) < of_nat k" "0 < k" using cnt(1) by simp_all
    have g: "grow_context i 2 0 (of_nat k > (0xFF - 2 * ENET_SUBCONTEXT_SYMBOL_DELTA :: u16)) (rc_symbols rc1) = Some syms3"
      using L(5) False unfolding cnt(2) by (simp add: delta_def)
    show ?thesis unfolding coded [symmetric]
      using L(1) L(2) [symmetric] pos words g
      by (simp add: compress_subcontext_def Let_def delta_def C(3) split: option.split)
  qed
  moreover have "learned nm rc i v parent M k s (rc1\<lparr>rc_symbols := syms3\<rparr>) T' nm'"
    using L(7-12,14,15) L(13) [OF rep] wf(6) by (simp add: learned_def)
  ultimately show ?thesis by (rule that [unfolded ck, unfolded M])
qed

lemma compress_root_learns:
  assumes rep: "represents T nm (rc_symbols rc) (rc_nextSymbol rc) M"
    and wf: "parents nm (rc_symbols rc) (rc_nextSymbol rc) X" "rc_nextSymbol rc < SYMBOLS"
      "waiting nm (rc_nextSymbol rc) 0 parent v X"
  obtains s rc' T' nm' where
    "compress_root lim v parent (rc, e) =
      (case encode_all lim (interval_of 1 v (M [])) e of
         None \<Rightarrow> None | Some None \<Rightarrow> Some None | Some (Some e') \<Rightarrow> Some (Some (rc', e')))"
    "learned nm rc 0 v parent M (count_in v (snd (M []))) s rc' T' nm'"
proof -
  have w: "wf T nm (rc_symbols rc) (rc_nextSymbol rc)" using rep by (simp add: represents_def)
  have n0: "0 < rc_nextSymbol rc" "nm 0 = []" using wfD(1,3) [OF w] by simp_all
  obtain e0 xs where M: "M [] = (e0, xs)" by (cases "M []")
  have M0: "M (nm 0) = (e0, xs)" by (simp add: n0 M)
  have m: "1 = minimum_of 0" and len: "length (nm 0) \<le> 2" by (simp_all add: n0)
  note C = context_model [OF rep n0(1) M0 m]
  define k where "k = count_in v xs"
  have k: "k = snd (seek v (rc_nextSymbol rc) (T 0))" using C(4) by (simp add: k_def)
  have v: "unat v < 256" using unsigned_less [of v] by simp
  have le: "less_in v xs + k \<le> sum_in xs" unfolding k_def by (rule less_count_sum)
  have small: "k + 1 < 65536" "less_in v xs + unat v * 1 < 65536" "e0 < 65536" "e0 + 256 * 1 + sum_in xs < 65536"
    using le C(5) v by linarith+
  obtain s syms1 rc1 syms3 T' nm' where L:
    "ENET_CONTEXT_ENCODE 0 v (of_nat (delta 1)) (of_nat 1) (rc_symbols rc) (rc_nextSymbol rc) =
       Some (s, of_nat (below v (T 0) + unat v * 1), of_nat (k + 1), syms1, rc_nextSymbol rc1)"
    "rc1 = set_parent parent s (rc\<lparr>rc_symbols := syms1, rc_nextSymbol := rc_nextSymbol rc1\<rparr>)"
    "sy_escapes (rc_symbols rc1 0) = sy_escapes (rc_symbols rc 0)" "sy_total (rc_symbols rc1 0) = sy_total (rc_symbols rc 0)"
    "grow_context 0 (of_nat (delta 1)) (of_nat 1) (rescale_limit 1 < k + 1)
       (if 1 = (0::nat) \<and> k = 0 then escape_context 0 (rc_symbols rc1) else rc_symbols rc1) = Some syms3"
    "wf T' nm' syms3 (rc_nextSymbol rc1)"
    "parents nm' syms3 (rc_nextSymbol rc1) (if k = 0 \<and> 0 \<noteq> (0::nat) then {s} else {})"
    "s < rc_nextSymbol rc1" "nm' s = nm 0 @ [v]" "\<And>j. j < rc_nextSymbol rc \<Longrightarrow> nm' j = nm j"
    "rc_nextSymbol rc1 = rc_nextSymbol rc + (if k = 0 then 1 else 0)"
    "\<And>j. j < rc_nextSymbol rc \<Longrightarrow> parent \<noteq> Some j \<Longrightarrow> sy_parent (syms3 j) = sy_parent (rc_symbols rc j)"
    "\<And>M. represents T nm (rc_symbols rc) (rc_nextSymbol rc) M \<Longrightarrow>
      represents T' nm' syms3 (rc_nextSymbol rc1) (M(nm 0 := learn 1 v (M (nm 0))))"
    "rc_order rc1 = rc_order rc" "rc_predicted rc1 = (if parent = None then of_nat s else rc_predicted rc)"
    using learn_step [OF w wf(1) n0(1) wf(2) len m wf(3) k] by blast
  have words: "sy_escapes (rc_symbols rc1 0) = of_nat e0" "sy_total (rc_symbols rc1 0) = of_nat (e0 + 256 * 1 + sum_in xs)"
    unfolding L(3,4) by (rule u16_of_unat, rule C(1,2))+
  have large: "(of_nat (k + 1) :: u16) > 0xFF - 2 * ENET_CONTEXT_SYMBOL_DELTA + ENET_CONTEXT_SYMBOL_MINIMUM \<longleftrightarrow> rescale_limit 1 < k + 1"
    using of_nat_u16_less [of 250 "k + 1"] small by (simp add: rescale_limit_def)
  have und: "ucast (of_nat e0 :: u16) + ucast (of_nat (less_in v xs + unat v * 1) :: u16) =
      (of_nat (e0 + less_in v xs + unat v * 1) :: u32)"
    unfolding ucast_of_nat_u32 [OF small(2)] ucast_of_nat_u32 [OF small(3)] by (simp only: of_nat_add ac_simps)
  have coded: "ENET_RANGE_CODER_ENCODE lim (ucast (of_nat e0 :: u16) + ucast (of_nat (less_in v xs + unat v * 1) :: u16))
        (of_nat (k + 1)) (of_nat (e0 + 256 * 1 + sum_in xs)) e = encode_all lim (interval_of 1 v (e0, xs)) e"
    unfolding und by (simp only: interval_of_def k_def [symmetric] encode_all_single prod.case simp_thms if_True)
  have g: "grow_context 0 3 1 (of_nat (k + 1) > (0xFF - 2 * ENET_CONTEXT_SYMBOL_DELTA + ENET_CONTEXT_SYMBOL_MINIMUM :: u16))
      (rc_symbols rc1) = Some syms3"
    unfolding large using L(5) by (simp add: delta_def)
  have enc: "ENET_CONTEXT_ENCODE 0 v 3 1 (rc_symbols rc) (rc_nextSymbol rc) =
      Some (s, of_nat (less_in v xs + unat v * 1), of_nat (k + 1), syms1, rc_nextSymbol rc1)"
    using L(1) unfolding C(3) by (simp add: delta_def)
  have ck: "count_in v (snd (M [])) = k" by (simp add: M k_def)
  have "compress_root lim v parent (rc, e) =
      (case encode_all lim (interval_of 1 v (e0, xs)) e of
         None \<Rightarrow> None | Some None \<Rightarrow> Some None | Some (Some e') \<Rightarrow> Some (Some (rc1\<lparr>rc_symbols := syms3\<rparr>, e')))"
    unfolding compress_root_def prod.case enc option.case L(2) [symmetric] Let_def words coded g ..
  moreover have "learned nm rc 0 v parent M k s (rc1\<lparr>rc_symbols := syms3\<rparr>) T' nm'"
    using L(7-12,14,15) L(13) [OF rep] n0 by (simp add: learned_def)
  ultimately show ?thesis by (rule that [unfolded ck, unfolded M])
qed


text \<open>What the loop over the contexts does to the memory, whoever runs it.\<close>

definition all_learned ::
    "(nat \<Rightarrow> u8 list) \<Rightarrow> ENetRangeCoder \<Rightarrow> nat \<Rightarrow> u8 \<Rightarrow> nat option \<Rightarrow> model \<Rightarrow> ENetRangeCoder \<Rightarrow>
     (nat \<Rightarrow> nodes) \<Rightarrow> (nat \<Rightarrow> u8 list) \<Rightarrow> bool" where
  "all_learned nm rc i v parent M rc' T' nm' \<longleftrightarrow>
     represents T' nm' (rc_symbols rc') (rc_nextSymbol rc') (taught (learners M (nm i) v) v M) \<and>
     parents nm' (rc_symbols rc') (rc_nextSymbol rc') {} \<and>
     rc_nextSymbol rc' = rc_nextSymbol rc + news M (nm i) v \<and> rc_order rc' = rc_order rc \<and>
     (\<forall>j < rc_nextSymbol rc. nm' j = nm j) \<and>
     (if parent = None
      then unat (rc_predicted rc') < rc_nextSymbol rc' \<and> nm' (unat (rc_predicted rc')) = nm i @ [v]
      else rc_predicted rc' = rc_predicted rc)"

lemma taught_single: "taught {w} v M = M(w := learn (if w = [] then 1 else 0) v (M w))"
  by (auto simp: taught_def fun_eq_iff)

lemma learned_last:
  assumes "learned nm rc i v parent M k s rc' T' nm'" "rc_nextSymbol rc' \<le> SYMBOLS" "nm i = [] \<longleftrightarrow> i = 0"
    "k = count_in v (snd (M (nm i)))" "k = 0 \<longrightarrow> i = 0"
  shows "all_learned nm rc i v parent M rc' T' nm'"
proof -
  have "unat (of_nat s :: u16) = s" using assms(1,2) by (intro unat_of_nat_u16) (auto simp: learned_def)
  moreover have "learners M (nm i) v = {nm i}" "news M (nm i) v = (if k = 0 then 1 else 0)"
    using assms(3-5) by (cases "nm i"; simp)+
  ultimately show ?thesis using assms(1,3,5) by (auto simp: all_learned_def learned_def taught_single)
qed

text \<open>The next context of the loop, when the byte is new in this one.\<close>

lemma learned_next:
  assumes rep: "represents T nm (rc_symbols rc) (rc_nextSymbol rc) M"
    and wf: "parents nm (rc_symbols rc) (rc_nextSymbol rc) X" "i < rc_nextSymbol rc" "waiting nm (rc_nextSymbol rc) i parent v X"
    and L: "learned nm rc i v parent M 0 s rc' T' nm'" and w: "nm i = x # w"
  defines "i' \<equiv> unat (sy_parent (rc_symbols rc' i))"
  shows "i' < rc_nextSymbol rc'" "nm i' = w" "nm' i' = w" "waiting nm' (rc_nextSymbol rc') i' (Some s) v {s}"
    "i' < rc_nextSymbol rc"
proof -
  note W = wfD [OF rep [unfolded represents_def, THEN conjunct1]]
  have i0: "i \<noteq> 0" using w W(3) by (cases "i = 0") auto
  have p: "parent \<noteq> Some i"
  proof
    assume "parent = Some i"
    then have "tl (nm i) = nm i @ [v]" using wf(3) by (auto simp: waiting_def)
    from arg_cong [OF this, of length] show False by simp
  qed
  then have "i \<notin> X" using wf(3) by (auto simp: waiting_def)
  then have "unat (sy_parent (rc_symbols rc i)) < rc_nextSymbol rc \<and> nm (unat (sy_parent (rc_symbols rc i))) = w"
    using wf(1,2) i0 w by (auto simp: parents_def)
  then show *: "i' < rc_nextSymbol rc" "nm i' = w" using L p wf(2) by (simp_all add: learned_def i'_def)
  then show "i' < rc_nextSymbol rc'" "nm' i' = w" using L by (simp_all add: learned_def)
  moreover have s: "nm' 0 = []" "nm' s = x # w @ [v]" using L W(1,3) w by (auto simp: learned_def)
  moreover have "s \<noteq> 0" using s by (cases "s = 0") auto
  ultimately show "waiting nm' (rc_nextSymbol rc') i' (Some s) v {s}"
    using L by (auto simp: waiting_def learned_def)
qed

lemma all_learned_step:
  assumes L: "learned nm rc i v parent M 0 s rc1 T1 nm1" "rc_nextSymbol rc1 \<le> SYMBOLS"
    and w: "nm i = x # w" "nm1 i' = w" "count_in v (snd (M (nm i))) = 0" and n: "nm i = [] \<longleftrightarrow> i = 0"
    and A: "all_learned nm1 rc1 i' v (Some s) (M(nm i := learn (minimum_of i) v (M (nm i)))) rc' T' nm'"
  shows "all_learned nm rc i v parent M rc' T' nm'"
proof -
  define M1 where "M1 = M(nm i := learn (minimum_of i) v (M (nm i)))"
  have s16: "unat (of_nat s :: u16) = s" using L by (intro unat_of_nat_u16) (auto simp: learned_def)
  have same: "intervals M1 w v = intervals M w v \<and> learners M1 w v = learners M w v \<and> news M1 w v = news M w v"
  proof (rule shorter_cong)
    fix u :: "u8 list"
    assume "length u \<le> length w"
    then show "M1 u = M u" using w(1) by (auto simp: M1_def)
  qed
  have "x # w \<notin> learners M w v" using learners_length [of "x # w" M w v] by auto
  then have "taught (learners M w v) v M1 = taught (learners M (nm i) v) v M"
    using taught_insert [of "x # w" "learners M w v" v M] w(1,3) n by (auto simp: M1_def)
  then show ?thesis
    using L(1) A [folded M1_def] w same s16 unfolding all_learned_def learned_def by auto
qed

lemma compress_contexts_learns:
  assumes rep: "represents T nm (rc_symbols rc) (rc_nextSymbol rc) M"
    and wf: "parents nm (rc_symbols rc) (rc_nextSymbol rc) X" "i < rc_nextSymbol rc"
      "rc_nextSymbol rc + length (nm i) < SYMBOLS" "length (nm i) \<le> 2" "waiting nm (rc_nextSymbol rc) i parent v X"
  shows "\<exists>rc' T' nm'. compress_contexts lim v i parent (rc, e) =
      (case encode_all lim (intervals M (nm i) v) e of
         None \<Rightarrow> None | Some None \<Rightarrow> Some None | Some (Some e') \<Rightarrow> Some (Some (rc', e'))) \<and>
    all_learned nm rc i v parent M rc' T' nm'"
  using assms
proof (induction "nm i" arbitrary: i nm T rc M X parent e)
  case Nil
  note W = wfD [OF Nil.prems(1) [unfolded represents_def, THEN conjunct1]]
  have i: "i = 0" using W(4) [OF Nil.prems(3)] Nil.hyps by auto
  have n: "rc_nextSymbol rc < SYMBOLS" using Nil.prems(4) by simp
  obtain s rc' T' nm' where R:
    "compress_root lim v parent (rc, e) =
      (case encode_all lim (interval_of 1 v (M [])) e of
         None \<Rightarrow> None | Some None \<Rightarrow> Some None | Some (Some e') \<Rightarrow> Some (Some (rc', e')))"
    "learned nm rc 0 v parent M (count_in v (snd (M []))) s rc' T' nm'"
    by (rule compress_root_learns [OF Nil.prems(1,2) n Nil.prems(6) [unfolded i]])
  have "rc_nextSymbol rc' \<le> SYMBOLS" using R(2) Nil.prems(4) Nil.hyps by (auto simp: learned_def)
  from learned_last [OF R(2) this] have "all_learned nm rc i v parent M rc' T' nm'" using Nil.hyps i by auto
  then show ?case using R(1) Nil.hyps i by (subst compress_contexts.simps) (auto split: option.split)
next
  case (Cons x w)
  note W = wfD [OF Cons.prems(1) [unfolded represents_def, THEN conjunct1]]
  have i: "i \<noteq> 0" using W(3) Cons.hyps(2) by (cases "i = 0") auto
  have n: "rc_nextSymbol rc < SYMBOLS" using Cons.prems(4) by simp
  let ?k = "count_in v (snd (M (nm i)))"
  obtain s rc1 T1 nm1 where R:
    "compress_subcontext lim v i parent (rc, e) =
      (case encode_all lim (interval_of 0 v (M (nm i))) e of
         None \<Rightarrow> None | Some None \<Rightarrow> Some None
       | Some (Some e') \<Rightarrow> Some (Some (?k > 0, s, rc1, e')))"
    "learned nm rc i v parent M ?k s rc1 T1 nm1"
    by (rule compress_subcontext_learns [OF Cons.prems(1-3) n Cons.prems(5,6) i])
  have n1: "rc_nextSymbol rc1 \<le> SYMBOLS" using R(2) n by (simp add: learned_def)
  have ni: "nm i = [] \<longleftrightarrow> i = 0" using Cons.hyps(2) [symmetric] i by simp
  show ?case
  proof (cases "?k = 0")
    case False
    from learned_last [OF R(2) n1 ni refl] False have "all_learned nm rc i v parent M rc1 T1 nm1" by simp
    moreover have "intervals M (nm i) v = interval_of 0 v (M (nm i))"
      using False Cons.hyps(2) [symmetric] by simp
    ultimately show ?thesis using R(1) i False by (subst compress_contexts.simps) (auto split: option.split)
  next
    case True
    let ?i = "unat (sy_parent (rc_symbols rc1 i))" and ?M = "M(nm i := learn (minimum_of i) v (M (nm i)))"
    have L: "learned nm rc i v parent M 0 s rc1 T1 nm1" using R(2) True by simp
    note N = learned_next [OF Cons.prems(1,2,3,6) L Cons.hyps(2) [symmetric]]
    have rep1: "represents T1 nm1 (rc_symbols rc1) (rc_nextSymbol rc1) ?M"
      and par1: "parents nm1 (rc_symbols rc1) (rc_nextSymbol rc1) {s}" and nx: "rc_nextSymbol rc1 = rc_nextSymbol rc + 1"
      using L i unfolding learned_def by auto
    have len: "length (nm i) = Suc (length w)" using Cons.hyps(2) [symmetric] by simp
    have same: "intervals ?M w v = intervals M w v \<and> learners ?M w v = learners M w v \<and> news ?M w v = news M w v"
    proof (rule shorter_cong)
      fix u :: "u8 list"
      assume "length u \<le> length w"
      then show "?M u = M u" using len by auto
    qed
    have IH: "\<exists>rc' T' nm'. compress_contexts lim v ?i (Some s) (rc1, e') =
        (case encode_all lim (intervals M w v) e' of
           None \<Rightarrow> None | Some None \<Rightarrow> Some None | Some (Some e') \<Rightarrow> Some (Some (rc', e'))) \<and>
        all_learned nm rc i v parent M rc' T' nm'" for e'
    proof -
      obtain rc' T' nm' where "compress_contexts lim v ?i (Some s) (rc1, e') =
        (case encode_all lim (intervals M w v) e' of
           None \<Rightarrow> None | Some None \<Rightarrow> Some None | Some (Some e') \<Rightarrow> Some (Some (rc', e')))"
        and A: "all_learned nm1 rc1 ?i v (Some s) ?M rc' T' nm'"
        using Cons.hyps(1) [of nm1 ?i T1 rc1 ?M "{s}" "Some s" e'] N rep1 par1 nx len Cons.prems(4,5) same by auto
      moreover have "all_learned nm rc i v parent M rc' T' nm'"
        by (rule all_learned_step [OF L n1 Cons.hyps(2) [symmetric] N(3) True ni A])
      ultimately show ?thesis by blast
    qed
    have step: "compress_contexts lim v i parent (rc, e) =
      (case encode_all lim (interval_of 0 v (M (nm i))) e of
         None \<Rightarrow> None | Some None \<Rightarrow> Some None
       | Some (Some e') \<Rightarrow> compress_contexts lim v ?i (Some s) (rc1, e'))"
      using R(1) True i by (subst compress_contexts.simps) (auto split: option.split)
    have iv: "intervals M (nm i) v = interval_of 0 v (M (nm i)) @ intervals M w v"
      using True Cons.hyps(2) [symmetric] by simp
    show ?thesis
    proof (cases "\<exists>e'. encode_all lim (interval_of 0 v (M (nm i))) e = Some (Some e')")
      case True
      then obtain e' where "encode_all lim (interval_of 0 v (M (nm i))) e = Some (Some e')" ..
      then show ?thesis using IH [of e'] unfolding step iv encode_all_append by simp
    next
      case False
      then show ?thesis using IH [of e] unfolding step iv encode_all_append by (auto split: option.split)
    qed
  qed
qed


section \<open>From one byte to the next\<close>

text \<open>The memory at the head of the main loop is intact: the predicted context has as many bytes as the
  order, and there is room for the symbols of a byte.\<close>

definition intact :: "(nat \<Rightarrow> nodes) \<Rightarrow> (nat \<Rightarrow> u8 list) \<Rightarrow> ENetRangeCoder \<Rightarrow> bool" where
  "intact T nm rc \<longleftrightarrow>
     wf T nm (rc_symbols rc) (rc_nextSymbol rc) \<and> parents nm (rc_symbols rc) (rc_nextSymbol rc) {} \<and>
     unat (rc_predicted rc) < rc_nextSymbol rc \<and> rc_order rc = length (nm (unat (rc_predicted rc))) \<and>
     rc_order rc \<le> ENET_SUBCONTEXT_ORDER \<and> rc_nextSymbol rc < SYMBOLS - ENET_SUBCONTEXT_ORDER"

text \<open>What it knows then: the model, the bytes of the predicted context, and the number of symbols.\<close>

type_synonym knowledge = "model \<times> u8 list \<times> nat"

definition knows :: "ENetRangeCoder \<Rightarrow> knowledge \<Rightarrow> bool" where
  "knows rc = (\<lambda>(M, w, n). \<exists>T nm. intact T nm rc \<and> represents T nm (rc_symbols rc) n M \<and>
     rc_nextSymbol rc = n \<and> nm (unat (rc_predicted rc)) = w)"

definition fresh :: knowledge where
  "fresh = (\<lambda>w. if w = [] then (1, []) else (0, []), [], 1)"

definition advance :: "u8 \<Rightarrow> knowledge \<Rightarrow> knowledge" where
  "advance v = (\<lambda>(M, w, n).
     if n + news M w v \<ge> SYMBOLS - ENET_SUBCONTEXT_ORDER then fresh
     else (taught (learners M w v) v M, if length w \<ge> ENET_SUBCONTEXT_ORDER then tl (w @ [v]) else w @ [v],
       n + news M w v))"

lemma create_root_fresh:
  obtains rc where "create_root syms = Some rc" "knows rc fresh"
proof -
  define s1 where "s1 = (syms(0 := \<lparr>sy_value = 0, sy_count = 0, sy_under = 0, sy_left = 0,
    sy_right = 0, sy_symbols = 0, sy_escapes = 1, sy_total = 257, sy_parent = 0\<rparr>) :: symbols)"
  define rc where "rc = \<lparr>rc_symbols = s1, rc_nextSymbol = 1, rc_predicted = 0, rc_order = 0\<rparr>"
  have "create_root syms = Some rc"
    by (simp add: create_root_def ENET_CONTEXT_CREATE_def ENET_SYMBOL_CREATE_def rc_def s1_def)
  moreover have "wf (\<lambda>_. Leaf) (\<lambda>_. []) s1 1"
    by (simp add: wf_def context_at_def sums_ok_def s1_def)
  then have "knows rc fresh"
    unfolding knows_def fresh_def prod.case
    by (intro exI [of _ "\<lambda>_. Leaf"] exI [of _ "\<lambda>_. []"])
       (simp add: intact_def rc_def represents_def parents_def inj_on_def, simp add: s1_def)
  ultimately show ?thesis by (rule that)
qed

lemma knows_intact: "knows rc K \<Longrightarrow> \<exists>T nm. intact T nm rc"
  by (cases K) (auto simp: knows_def)

text \<open>The end of a turn, when the symbol of the byte in the predicted context is known.\<close>

lemma turn:
  assumes wf: "wf T nm (rc_symbols rc) (rc_nextSymbol rc)" "parents nm (rc_symbols rc) (rc_nextSymbol rc) {}"
    and p: "unat (rc_predicted rc) < rc_nextSymbol rc" "length (nm (unat (rc_predicted rc))) = Suc (rc_order rc)"
      "rc_order rc \<le> ENET_SUBCONTEXT_ORDER"
  obtains (restart) rc' where "Option.bind (next_context rc) ENET_RANGE_CODER_FREE_SYMBOLS = Some rc'" "knows rc' fresh"
      "rc_nextSymbol rc \<ge> SYMBOLS - ENET_SUBCONTEXT_ORDER"
  | (go_on) rc' where "Option.bind (next_context rc) ENET_RANGE_CODER_FREE_SYMBOLS = Some rc'" "intact T nm rc'"
      "rc_symbols rc' = rc_symbols rc" "rc_nextSymbol rc' = rc_nextSymbol rc"
      "nm (unat (rc_predicted rc')) = (if rc_order rc \<ge> ENET_SUBCONTEXT_ORDER then tl (nm (unat (rc_predicted rc)))
        else nm (unat (rc_predicted rc)))"
      "rc_nextSymbol rc < SYMBOLS - ENET_SUBCONTEXT_ORDER"
proof -
  note W = wfD [OF wf(1)]
  let ?p = "unat (rc_predicted rc)"
  have "?p \<noteq> 0" using p(2) W(3) by (cases "?p = 0") auto
  then have par: "unat (sy_parent (rc_symbols rc ?p)) < rc_nextSymbol rc" "nm (unat (sy_parent (rc_symbols rc ?p))) = tl (nm ?p)"
    using wf(2) p(1) by (auto simp: parents_def)
  define rc' where "rc' = (if rc_order rc \<ge> ENET_SUBCONTEXT_ORDER
    then rc\<lparr>rc_predicted := sy_parent (rc_symbols rc ?p)\<rparr> else rc\<lparr>rc_order := rc_order rc + 1\<rparr>)"
  have next1: "next_context rc = Some rc'" using p(1) W(2) by (simp add: next_context_def rc'_def)
  have same: "rc_symbols rc' = rc_symbols rc" "rc_nextSymbol rc' = rc_nextSymbol rc" by (simp_all add: rc'_def)
  show ?thesis
  proof (cases "rc_nextSymbol rc \<ge> SYMBOLS - ENET_SUBCONTEXT_ORDER")
    case True
    obtain rc2 where "create_root (rc_symbols rc) = Some rc2" "knows rc2 fresh" by (rule create_root_fresh)
    then show ?thesis using restart [of rc2] True same by (simp add: next1 ENET_RANGE_CODER_FREE_SYMBOLS_def)
  next
    case False
    have nm': "nm (unat (rc_predicted rc')) = (if rc_order rc \<ge> ENET_SUBCONTEXT_ORDER then tl (nm ?p) else nm ?p)"
      using par by (simp add: rc'_def)
    have "unat (rc_predicted rc') < rc_nextSymbol rc" using p(1) par(1) by (simp add: rc'_def)
    moreover have "rc_order rc' = length (nm (unat (rc_predicted rc')))" "rc_order rc' \<le> 2"
      unfolding nm' using p(2,3) by (auto simp: rc'_def)
    ultimately have "intact T nm rc'" using wf False by (simp add: intact_def same)
    then show ?thesis using go_on [of rc'] False same nm' by (simp add: next1 ENET_RANGE_CODER_FREE_SYMBOLS_def)
  qed
qed

lemma turn_knows:
  assumes K: "represents T nm (rc_symbols rc) n M" "length w \<le> ENET_SUBCONTEXT_ORDER" "rc_order rc = length w"
      "rc_nextSymbol rc = n" "nm i = w"
    and L: "all_learned nm rc i v None M rc' T' nm'"
  obtains rc2 where "Option.bind (next_context rc') ENET_RANGE_CODER_FREE_SYMBOLS = Some rc2" "knows rc2 (advance v (M, w, n))"
proof -
  have A: "wf T' nm' (rc_symbols rc') (rc_nextSymbol rc')" "parents nm' (rc_symbols rc') (rc_nextSymbol rc') {}"
    "unat (rc_predicted rc') < rc_nextSymbol rc'" "nm' (unat (rc_predicted rc')) = w @ [v]" "rc_order rc' = length w"
    "rc_nextSymbol rc' = n + news M w v"
    "represents T' nm' (rc_symbols rc') (rc_nextSymbol rc') (taught (learners M w v) v M)"
    using L K by (auto simp: all_learned_def represents_def)
  have len: "length (nm' (unat (rc_predicted rc'))) = Suc (rc_order rc')" "rc_order rc' \<le> 2" using A(4,5) K(2) by simp_all
  show ?thesis
  proof (cases rule: turn [OF A(1-3) len])
    case (1 rc2)
    then show ?thesis using that [of rc2] A(6) by (simp add: advance_def)
  next
    case (2 rc2)
    have "knows rc2 (advance v (M, w, n))"
      unfolding knows_def advance_def prod.case
      using 2 A by (auto simp: not_le intro!: exI [of _ T'] exI [of _ nm'])
    then show ?thesis using that 2(1) by blast
  qed
qed

text \<open>A byte and all bytes as the compressor codes them.\<close>

fun all_intervals :: "knowledge \<Rightarrow> u8 list \<Rightarrow> (nat \<times> nat \<times> nat) list" where
  "all_intervals K [] = []"
| "all_intervals K (v # vs) = (case K of (M, w, n) \<Rightarrow> intervals M w v) @ all_intervals (advance v K) vs"

lemma compress_byte_codes:
  assumes "knows rc K"
  obtains rc' where "knows rc' (advance v K)"
    "compress_byte lim v (rc, e) =
      (case encode_all lim (all_intervals K [v]) e of
         None \<Rightarrow> None | Some None \<Rightarrow> Some None | Some (Some e') \<Rightarrow> Some (Some (rc', e')))"
proof -
  obtain M w n where K: "K = (M, w, n)" by (cases K)
  obtain T nm where I: "intact T nm rc" "represents T nm (rc_symbols rc) n M" "rc_nextSymbol rc = n"
    "nm (unat (rc_predicted rc)) = w" using assms by (auto simp: knows_def K)
  let ?i = "unat (rc_predicted rc)"
  have len: "length (nm ?i) \<le> 2" "rc_nextSymbol rc + length (nm ?i) < SYMBOLS" "rc_order rc = length w"
    using I(1,4) by (auto simp: intact_def)
  have wait: "waiting nm (rc_nextSymbol rc) ?i None v {}" by (simp add: waiting_def)
  have rep: "represents T nm (rc_symbols rc) (rc_nextSymbol rc) M" using I(2,3) by simp
  have wf: "parents nm (rc_symbols rc) (rc_nextSymbol rc) {}" "?i < rc_nextSymbol rc" using I(1) by (simp_all add: intact_def)
  obtain rc' T' nm' where R: "compress_contexts lim v ?i None (rc, e) =
      (case encode_all lim (intervals M (nm ?i) v) e of
         None \<Rightarrow> None | Some None \<Rightarrow> Some None | Some (Some e') \<Rightarrow> Some (Some (rc', e')))"
    "all_learned nm rc ?i v None M rc' T' nm'"
    using compress_contexts_learns [OF rep wf len(2,1) wait, of lim e] by blast
  have lw: "length w \<le> 2" using len(1) I(4) by simp
  obtain rc2 where "Option.bind (next_context rc') ENET_RANGE_CODER_FREE_SYMBOLS = Some rc2" "knows rc2 (advance v (M, w, n))"
    by (rule turn_knows [OF I(2) lw len(3) I(3,4) R(2)])
  then show ?thesis using that [of rc2] R(1) I(4) by (auto simp: K compress_byte_def split: option.split)
qed

text \<open>The main loop, when no buffer but the first is empty.\<close>

lemma compress_loop_codes:
  assumes "knows rc K" "[] \<notin> set bufs"
  shows "\<exists>rc'. compress_loop lim vs bufs (rc, e) =
    (case encode_all lim (all_intervals K (vs @ concat bufs)) e of
       None \<Rightarrow> None | Some None \<Rightarrow> Some None | Some (Some e') \<Rightarrow> Some (Some (rc', e')))"
proof -
  have *: "\<exists>rc'. compress_loop lim vs bufs (rc, e) =
    (case encode_all lim (all_intervals K us) e of
       None \<Rightarrow> None | Some None \<Rightarrow> Some None | Some (Some e') \<Rightarrow> Some (Some (rc', e')))"
    if "knows rc K" "[] \<notin> set bufs" "us = vs @ concat bufs" for us
    using that
  proof (induction us arbitrary: K rc e vs bufs)
    case Nil
    then show ?case by (cases bufs) auto
  next
    case (Cons v us)
    obtain vs' bufs' where n: "us = vs' @ concat bufs'" "[] \<notin> set bufs'"
      and step: "\<And>st. compress_loop lim vs bufs st =
        (case compress_byte lim v st of None \<Rightarrow> None | Some None \<Rightarrow> Some None | Some (Some st) \<Rightarrow> compress_loop lim vs' bufs' st)"
    proof (cases vs)
      case Nil
      then obtain b bs where "bufs = b # bs" using Cons.prems(3) by (cases bufs) auto
      moreover then obtain x xs where "b = x # xs" using Cons.prems(2) by (cases b) auto
      ultimately show ?thesis using that [of xs bs] Nil Cons.prems(2,3) by auto
    next
      case (Cons x xs)
      then show ?thesis using that [of xs bufs] Cons.prems(2,3) by auto
    qed
    obtain rc' where r: "knows rc' (advance v K)" "compress_byte lim v (rc, e) =
      (case encode_all lim (all_intervals K [v]) e of
         None \<Rightarrow> None | Some None \<Rightarrow> Some None | Some (Some e') \<Rightarrow> Some (Some (rc', e')))"
      by (rule compress_byte_codes [OF Cons.prems(1)])
    have iv: "all_intervals K (v # us) = all_intervals K [v] @ all_intervals (advance v K) us" by simp
    show ?case
    proof (cases "\<exists>e'. encode_all lim (all_intervals K [v]) e = Some (Some e')")
      case True
      then obtain e' where "encode_all lim (all_intervals K [v]) e = Some (Some e')" ..
      then show ?thesis using Cons.IH [OF r(1) n(2,1), of e'] r(2) unfolding step iv encode_all_append by simp
    next
      case False
      then show ?thesis using r(2) unfolding step iv encode_all_append by (auto split: option.split)
    qed
  qed
  show ?thesis by (rule * [OF assms refl])
qed

end
