(* ===== verification/EnetDecompress.thy ===== *)
theory EnetDecompress
  imports EnetCompress
begin

text \<open>
  The decompressor.  On the data of a compressor every symbol that is read is the one that was coded,
  so that the decompressor finds the byte and learns it in all the contexts that the compressor has
  taught.  On arbitrary data it still returns, without leaving the array.
\<close>

section \<open>Reading what has been coded\<close>

fun chain :: "(nat \<times> nat \<times> nat) list \<Rightarrow> decoder \<Rightarrow> decoder \<Rightarrow> bool" where
  "chain [] d d' \<longleftrightarrow> d' = d"
| "chain ((u, c, t) # ts) d d' \<longleftrightarrow>
     (\<exists>code d1 d2. ENET_RANGE_CODER_READ (of_nat t) d = Some (code, d1) \<and> u \<le> unat code \<and> unat code < u + c \<and>
        ENET_RANGE_CODER_DECODE (of_nat u) (of_nat c) d1 = Some d2 \<and> chain ts d2 d')"

lemma chain_append: "chain (ts @ ts') d d' \<longleftrightarrow> (\<exists>d1. chain ts d d1 \<and> chain ts' d1 d')"
  by (induction ts d d' rule: chain.induct) (simp, simp, blast)

lemma encode_chain:
  assumes "encode_all lim ts e = Some (Some e')" "settled e" "\<forall>i\<in>set ts. sound i"
  shows "\<exists>em. outData e' = outData e @ em \<and> settled e' \<and>
    (length (outData e) \<le> lim \<longrightarrow> length (outData e') \<le> lim) \<and>
    (\<forall>tail. within (code_of tail) (encodeLow e') (encodeRange e') \<longrightarrow>
      within (code_of (em @ tail)) (encodeLow e) (encodeRange e) \<and>
      chain ts (decoder_at e (em @ tail)) (decoder_at e' tail))"
  using assms
proof (induction lim ts e rule: encode_all.induct)
  case (1 lim e)
  then show ?case by (intro exI [of _ "[]"]) simp
next
  case (2 lim u c t ts e)
  obtain e1 where e1: "ENET_RANGE_CODER_ENCODE lim (of_nat u) (of_nat c) (of_nat t) e = Some (Some e1)"
    "encode_all lim ts e1 = Some (Some e')"
    using "2.prems"(1) by (auto split: option.split_asm)
  have s: "0 < c" "u + c \<le> t" "t < 65536" using "2.prems"(3) by (auto simp: sound_def)
  then have w: "unat (of_nat u :: u32) = u" "unat (of_nat c :: u16) = c" "unat (of_nat t :: u16) = t"
    by (simp_all add: unat_of_nat_u16) (simp add: unsigned_of_nat take_bit_nat_eq_self)
  have pos: "0 < (of_nat c :: u16)" using s by (simp add: word_less_nat_alt w)
  have le: "unat (of_nat u :: u32) + unat (of_nat c :: u16) \<le> unat (of_nat t :: u16)" using s by (simp add: w)
  obtain em where em: "outData e1 = outData e @ em" "settled e1" "length (outData e) \<le> lim \<Longrightarrow> length (outData e1) \<le> lim"
    and step: "\<And>tail. within (code_of tail) (encodeLow e1) (encodeRange e1) \<Longrightarrow>
      within (code_of (em @ tail)) (encodeLow e) (encodeRange e) \<and>
      (\<exists>code d. ENET_RANGE_CODER_READ (of_nat t) (decoder_at e (em @ tail)) = Some (code, d) \<and>
        unat (of_nat u :: u32) \<le> unat code \<and> unat code < unat (of_nat u :: u32) + unat (of_nat c :: u16) \<and>
        ENET_RANGE_CODER_DECODE (of_nat u) (of_nat c) d = Some (decoder_at e1 tail))"
    using encode_decode [OF e1(1) "2.prems"(2) pos le] by blast
  obtain em' where em': "outData e' = outData e1 @ em'" "settled e'" "length (outData e1) \<le> lim \<longrightarrow> length (outData e') \<le> lim"
    and rest: "\<And>tail. within (code_of tail) (encodeLow e') (encodeRange e') \<Longrightarrow>
      within (code_of (em' @ tail)) (encodeLow e1) (encodeRange e1) \<and> chain ts (decoder_at e1 (em' @ tail)) (decoder_at e' tail)"
    using "2.IH" [OF e1(1) refl e1(2) em(2)] "2.prems"(3) by auto
  have "within (code_of ((em @ em') @ tail)) (encodeLow e) (encodeRange e) \<and>
      chain ((u, c, t) # ts) (decoder_at e ((em @ em') @ tail)) (decoder_at e' tail)"
    if "within (code_of tail) (encodeLow e') (encodeRange e')" for tail
    using rest [OF that] step [of "em' @ tail"] unfolding w by auto
  then show ?case using em em' by (intro exI [of _ "em @ em'"]) auto
qed

text \<open>Everything the compressor codes is an interval of its total.\<close>

lemma represents_sum:
  assumes "represents T nm syms n M" "M w = (e, xs)"
  shows "e + 256 * (if w = [] then 1 else 0) + sum_in xs \<le> 65280"
proof (cases "w \<in> nm ` {..<n}")
  case True
  then obtain i where i: "i < n" "w = nm i" by auto
  then show ?thesis using context_model(5,8) [OF assms(1) i(1) assms(2) [unfolded i(2)] refl] by auto
next
  case False
  have "w \<noteq> []"
  proof
    assume "w = []"
    moreover have "0 < n" "nm 0 = []" using assms(1) wfD(1,3) by (auto simp: represents_def)
    ultimately show False using False by force
  qed
  then show ?thesis using False assms by (auto simp: represents_def)
qed

lemma intervals_sound: "represents T nm syms n M \<Longrightarrow> \<forall>i\<in>set (intervals M w v). sound i"
proof (induction w)
  case Nil
  show ?case using represents_sum [OF Nil, of "[]"] interval_of_sound [of _ 1 _ v] by (cases "M []") auto
next
  case (Cons x w)
  have "\<forall>i\<in>set (interval_of 0 v (M (x # w))). sound i"
    using represents_sum [OF Cons.prems, of "x # w"] interval_of_sound [of _ 0 _ v] by (cases "M (x # w)") auto
  then show ?case using Cons by auto
qed

lemma all_sound: "knows rc K \<Longrightarrow> \<forall>i\<in>set (all_intervals K vs). sound i"
proof (induction vs arbitrary: rc K)
  case (Cons v vs)
  obtain rc' where "knows rc' (advance v K)" by (rule compress_byte_codes [OF Cons.prems])
  moreover have "\<forall>i\<in>set (case K of (M, w, n) \<Rightarrow> intervals M w v). sound i"
    using Cons.prems intervals_sound by (cases K) (fastforce simp: knows_def)
  ultimately show ?case using Cons.IH [of rc' "advance v K"] by (auto simp del: split_paired_All)
qed simp

section \<open>The way to the root\<close>

fun ancestor :: "symbols \<Rightarrow> nat \<Rightarrow> nat \<Rightarrow> nat" where
  "ancestor syms i 0 = i"
| "ancestor syms i (Suc k) = ancestor syms (unat (sy_parent (syms i))) k"

lemma ancestor_path:
  assumes "wf T nm syms n" "parents nm syms n X" "i < n" "\<forall>p\<in>X. length (nm i) < length (nm p)" "k \<le> length (nm i)"
  shows "ancestor syms i k < n \<and> nm (ancestor syms i k) = drop k (nm i)"
  using assms(3-5)
proof (induction k arbitrary: i)
  case (Suc k)
  have "i \<noteq> 0" using Suc.prems(3) wfD(3) [OF assms(1)] by (cases "i = 0") auto
  then have "unat (sy_parent (syms i)) < n \<and> nm (unat (sy_parent (syms i))) = tl (nm i)"
    using assms(2) Suc.prems(1,2) by (auto simp: parents_def)
  moreover from this have "\<forall>p\<in>X. length (nm (unat (sy_parent (syms i)))) < length (nm p)" using Suc.prems(2) by fastforce
  ultimately show ?case using Suc.IH [of "unat (sy_parent (syms i))"] Suc.prems(3) by (auto simp: drop_Suc)
qed simp

lemma ancestor_cong:
  assumes "wf T nm syms n" "parents nm syms n X" "i < n" "\<forall>p\<in>X. length (nm i) < length (nm p)" "k \<le> length (nm i)"
    "\<And>j. j < n \<Longrightarrow> length (nm j) \<le> length (nm i) \<Longrightarrow> sy_parent (syms' j) = sy_parent (syms j)"
  shows "ancestor syms' i k = ancestor syms i k"
  using assms(3-)
proof (induction k arbitrary: i)
  case (Suc k)
  have "i \<noteq> 0" using Suc.prems(3) wfD(3) [OF assms(1)] by (cases "i = 0") auto
  then have "unat (sy_parent (syms i)) < n \<and> nm (unat (sy_parent (syms i))) = tl (nm i)"
    using assms(2) Suc.prems(1,2) by (auto simp: parents_def)
  moreover from this have "\<forall>p\<in>X. length (nm (unat (sy_parent (syms i)))) < length (nm p)" using Suc.prems(2) by fastforce
  moreover have "sy_parent (syms' i) = sy_parent (syms i)" using Suc.prems(1,4) by simp
  ultimately show ?case using Suc.IH [of "unat (sy_parent (syms i))"] Suc.prems(3,4) by auto
qed simp


section \<open>Patching the contexts\<close>

lemma seek_bound:
  assumes "context_at syms i m t"
  shows "snd (seek v n t) < 256"
proof -
  have "snd (seek v n t) = 0 \<or> (fst (seek v n t), v, snd (seek v n t)) \<in> set_tree t"
    using ins_grown [of 1 n t v] by (auto simp: grown_def simp flip: set_inorder simp del: set_inorder)
  then show ?thesis using assms by (auto simp: context_at_def sums_ok_def)
qed

text \<open>The memory after a byte has been counted in context \<open>i\<close>, as far as the loops rely on it.\<close>

definition stepped ::
    "(nat \<Rightarrow> u8 list) \<Rightarrow> ENetRangeCoder \<Rightarrow> ENetRangeCoder \<Rightarrow> (nat \<Rightarrow> nodes) \<Rightarrow> (nat \<Rightarrow> u8 list) \<Rightarrow> bool" where
  "stepped nm rc rc' T' nm' \<longleftrightarrow>
     wf T' nm' (rc_symbols rc') (rc_nextSymbol rc') \<and> rc_order rc' = rc_order rc \<and>
     rc_nextSymbol rc \<le> rc_nextSymbol rc' \<and> (\<forall>j < rc_nextSymbol rc. nm' j = nm j)"

lemma patch_context_learns:
  assumes wf: "wf T nm (rc_symbols rc) (rc_nextSymbol rc)" "parents nm (rc_symbols rc) (rc_nextSymbol rc) X"
    "i < rc_nextSymbol rc" "rc_nextSymbol rc < SYMBOLS" "length (nm i) \<le> 2"
    and wait: "waiting nm (rc_nextSymbol rc) i parent v X" and i: "i \<noteq> 0"
  obtains s rc' T' nm' Y where "patch_context v i parent rc = Some (s, rc')"
    "stepped nm rc rc' T' nm'" "rc_nextSymbol rc' \<le> Suc (rc_nextSymbol rc)"
    "Y \<subseteq> {s}" "parents nm' (rc_symbols rc') (rc_nextSymbol rc') Y"
    "s < rc_nextSymbol rc'" "nm' s = nm i @ [v]"
    "rc_predicted rc' = (if parent = None then of_nat s else rc_predicted rc)"
    "\<And>j. j < rc_nextSymbol rc \<Longrightarrow> parent \<noteq> Some j \<Longrightarrow> sy_parent (rc_symbols rc' j) = sy_parent (rc_symbols rc j)"
    "\<And>M. represents T nm (rc_symbols rc) (rc_nextSymbol rc) M \<Longrightarrow> count_in v (snd (M (nm i))) = 0 \<Longrightarrow>
      rc_nextSymbol rc' = Suc (rc_nextSymbol rc) \<and>
      represents T' nm' (rc_symbols rc') (rc_nextSymbol rc') (M(nm i := learn 0 v (M (nm i))))"
proof -
  define k where "k = snd (seek v (rc_nextSymbol rc) (T i))"
  have m: "0 = minimum_of i" using i by simp
  obtain s syms1 rc1 syms3 T' nm' where L:
    "ENET_CONTEXT_ENCODE i v (of_nat (delta 0)) (of_nat 0) (rc_symbols rc) (rc_nextSymbol rc) =
       Some (s, of_nat (below v (T i) + unat v * 0), of_nat (k + 0), syms1, rc_nextSymbol rc1)"
    "rc1 = set_parent parent s (rc\<lparr>rc_symbols := syms1, rc_nextSymbol := rc_nextSymbol rc1\<rparr>)"
    "sy_escapes (rc_symbols rc1 i) = sy_escapes (rc_symbols rc i)" "sy_total (rc_symbols rc1 i) = sy_total (rc_symbols rc i)"
    "grow_context i (of_nat (delta 0)) (of_nat 0) (rescale_limit 0 < k + 0)
       (if 0 = (0::nat) \<and> k = 0 then escape_context i (rc_symbols rc1) else rc_symbols rc1) = Some syms3"
    "wf T' nm' syms3 (rc_nextSymbol rc1)"
    "parents nm' syms3 (rc_nextSymbol rc1) (if k = 0 \<and> i \<noteq> 0 then {s} else {})"
    "s < rc_nextSymbol rc1" "nm' s = nm i @ [v]" "\<And>j. j < rc_nextSymbol rc \<Longrightarrow> nm' j = nm j"
    "rc_nextSymbol rc1 = rc_nextSymbol rc + (if k = 0 then 1 else 0)"
    "\<And>j. j < rc_nextSymbol rc \<Longrightarrow> parent \<noteq> Some j \<Longrightarrow> sy_parent (syms3 j) = sy_parent (rc_symbols rc j)"
    "\<And>M. represents T nm (rc_symbols rc) (rc_nextSymbol rc) M \<Longrightarrow>
      represents T' nm' syms3 (rc_nextSymbol rc1) (M(nm i := learn 0 v (M (nm i))))"
    "rc_order rc1 = rc_order rc" "rc_predicted rc1 = (if parent = None then of_nat s else rc_predicted rc)"
    using learn_step [OF wf m wait k_def] by blast
  have "k < 256" unfolding k_def by (rule seek_bound [OF wfD(6) [OF wf(1,3)]])
  then have cnt: "(of_nat k :: u16) = 0 \<longleftrightarrow> k = 0"
    "(of_nat k :: u16) > 0xFF - 2 * ENET_SUBCONTEXT_SYMBOL_DELTA \<longleftrightarrow> rescale_limit 0 < k"
    using of_nat_u16_less [of 251 k] by (simp_all add: of_nat_u16_eq_0 rescale_limit_def)
  have pc: "patch_context v i parent rc = Some (s, rc1\<lparr>rc_symbols := syms3\<rparr>)"
    using L(1,5) cnt unfolding patch_context_def
    by (cases "k = 0") (simp_all add: Let_def delta_def flip: L(2))
  have st: "stepped nm rc (rc1\<lparr>rc_symbols := syms3\<rparr>) T' nm'"
    using L(6,10,11,14) by (simp add: stepped_def)
  have n1: "rc_nextSymbol rc1 \<le> Suc (rc_nextSymbol rc)" using L(11) by simp
  have Y: "(if k = 0 \<and> i \<noteq> 0 then {s} else {}) \<subseteq> {s}" by simp
  have "k = 0" if "represents T nm (rc_symbols rc) (rc_nextSymbol rc) M" "count_in v (snd (M (nm i))) = 0" for M
  proof -
    obtain e xs where "M (nm i) = (e, xs)" by (cases "M (nm i)")
    then show ?thesis using context_model(4) [OF that(1) wf(3) _ m, of e xs v] that(2) by (simp add: k_def)
  qed
  then have R: "rc_nextSymbol rc1 = Suc (rc_nextSymbol rc) \<and>
      represents T' nm' syms3 (rc_nextSymbol rc1) (M(nm i := learn 0 v (M (nm i))))"
    if "represents T nm (rc_symbols rc) (rc_nextSymbol rc) M" "count_in v (snd (M (nm i))) = 0" for M
    using L(11) L(13) [OF that(1)] that by simp
  let ?rc = "rc1\<lparr>rc_symbols := syms3\<rparr>"
  have R': "rc_nextSymbol ?rc = Suc (rc_nextSymbol rc) \<and>
      represents T' nm' (rc_symbols ?rc) (rc_nextSymbol ?rc) (M(nm i := learn 0 v (M (nm i))))"
    if "represents T nm (rc_symbols rc) (rc_nextSymbol rc) M" "count_in v (snd (M (nm i))) = 0" for M
    using R [OF that] by auto
  show ?thesis
    by (rule that [of s ?rc T' nm', OF pc st _ Y _ _ L(9) _ _ R']) (use L(7,8,12,15) n1 in simp_all)
qed

definition firsts :: "nat \<Rightarrow> u8 list \<Rightarrow> u8 list set" where
  "firsts k w = (\<lambda>j. drop j w) ` {..<k}"

lemma firsts_simps [simp]: "firsts 0 w = {}" "firsts (Suc k) (x # w) = insert (x # w) (firsts k w)"
  by (auto simp: firsts_def lessThan_Suc_eq_insert_0 image_image)

lemma firsts_length: "u \<in> firsts k w \<Longrightarrow> length u \<le> length w"
  by (auto simp: firsts_def)

lemma taught_cong_update: "w \<notin> U \<Longrightarrow> \<forall>u\<in>U. (M(w := y)) u = M u"
  by auto

lemma patch_contexts_learns:
  assumes wf: "wf T nm (rc_symbols rc) (rc_nextSymbol rc)" "parents nm (rc_symbols rc) (rc_nextSymbol rc) X"
    "i < rc_nextSymbol rc" "rc_nextSymbol rc + k \<le> SYMBOLS" "length (nm i) \<le> 2"
    and wait: "waiting nm (rc_nextSymbol rc) i parent v X"
    and f: "k \<le> length (nm i)" "f = ancestor (rc_symbols rc) i k"
    and b: "bottom < rc_nextSymbol rc" "nm bottom = nm f @ [v]"
  shows "\<exists>rc' T' nm'. patch_contexts v f bottom i parent rc = Some rc' \<and>
    stepped nm rc rc' T' nm' \<and> rc_nextSymbol rc' \<le> rc_nextSymbol rc + k \<and>
    parents nm' (rc_symbols rc') (rc_nextSymbol rc') {} \<and>
    (if parent = None
     then unat (rc_predicted rc') < rc_nextSymbol rc' \<and> nm' (unat (rc_predicted rc')) = nm i @ [v]
     else rc_predicted rc' = rc_predicted rc) \<and>
    (\<forall>M. represents T nm (rc_symbols rc) (rc_nextSymbol rc) M \<longrightarrow>
      (\<forall>u\<in>firsts k (nm i). count_in v (snd (M u)) = 0) \<longrightarrow>
      rc_nextSymbol rc' = rc_nextSymbol rc + k \<and>
      represents T' nm' (rc_symbols rc') (rc_nextSymbol rc') (taught (firsts k (nm i)) v M))"
  using assms
proof (induction k arbitrary: i rc T nm X parent)
  case 0
  then have fi: "f = i" by simp
  note W = wfD [OF "0.prems"(1)]
  have b16: "unat (of_nat bottom :: u16) = bottom" using "0.prems"(9) W(2) by (intro unat_of_nat_u16) simp
  let ?rc = "set_parent parent bottom rc"
  have par: "node_of (rc_symbols ?rc j) = node_of (rc_symbols rc j)" "fields_of (rc_symbols ?rc j) = fields_of (rc_symbols rc j)"
    "sy_parent (rc_symbols ?rc j) = (if parent = Some j then of_nat bottom else sy_parent (rc_symbols rc j))" for j
    by (auto simp: set_parent_eq memory_after_def node_of_def fields_of_def split: option.split)
  have cong: "context_at (rc_symbols ?rc) i' m t = context_at (rc_symbols rc) i' m t" for i' m t
    by (rule context_at_cong) (rule par(1), rule par(2))
  have w: "wf T nm (rc_symbols ?rc) (rc_nextSymbol ?rc)"
    using "0.prems"(1) unfolding wf_def set_parent_eq(2) cong .
  have s: "stepped nm rc ?rc T nm"
    using w by (simp add: stepped_def set_parent_eq(2,3) par(3))
  have p: "parents nm (rc_symbols ?rc) (rc_nextSymbol ?rc) {}"
    using "0.prems"(2,6,9,10) b16 fi unfolding parents_def waiting_def set_parent_eq(2) par(3) by auto
  have r: "represents T nm (rc_symbols ?rc) (rc_nextSymbol ?rc) M" if "represents T nm (rc_symbols rc) (rc_nextSymbol rc) M" for M
    using that w par(2) unfolding represents_def set_parent_eq(2) by (auto simp: fields_of_def)
  have "patch_contexts v f bottom i parent rc = Some ?rc" using fi by (simp add: patch_contexts.simps)
  then show ?case
    using s p r b16 "0.prems"(9,10) fi
    by (intro exI [of _ ?rc] exI [of _ T] exI [of _ nm]) (auto simp: set_parent_eq(2,4) taught_def)
next
  case (Suc k)
  note W = wfD [OF Suc.prems(1)]
  obtain x w where w: "nm i = x # w" "k \<le> length w" using Suc.prems(7) by (cases "nm i") auto
  have i: "i \<noteq> 0" using w W(3) by (cases "i = 0") auto
  have n: "rc_nextSymbol rc < SYMBOLS" using Suc.prems(4) by simp
  obtain s rc1 T1 nm1 Y where S: "patch_context v i parent rc = Some (s, rc1)"
    "stepped nm rc rc1 T1 nm1" "rc_nextSymbol rc1 \<le> Suc (rc_nextSymbol rc)"
    "Y \<subseteq> {s}" "parents nm1 (rc_symbols rc1) (rc_nextSymbol rc1) Y" "s < rc_nextSymbol rc1" "nm1 s = nm i @ [v]"
    "rc_predicted rc1 = (if parent = None then of_nat s else rc_predicted rc)"
    "\<And>j. j < rc_nextSymbol rc \<Longrightarrow> parent \<noteq> Some j \<Longrightarrow> sy_parent (rc_symbols rc1 j) = sy_parent (rc_symbols rc j)"
    and M: "\<And>M. represents T nm (rc_symbols rc) (rc_nextSymbol rc) M \<Longrightarrow> count_in v (snd (M (nm i))) = 0 \<Longrightarrow>
      rc_nextSymbol rc1 = Suc (rc_nextSymbol rc) \<and>
      represents T1 nm1 (rc_symbols rc1) (rc_nextSymbol rc1) (M(nm i := learn 0 v (M (nm i))))"
    using patch_context_learns [OF Suc.prems(1-3) n Suc.prems(5,6) i] by blast
  let ?i = "unat (sy_parent (rc_symbols rc i))"
  have far: "length (nm p) = Suc (Suc (length (nm i)))" if "parent = Some p" for p
  proof -
    have "tl (nm p) = nm i @ [v]" using Suc.prems(6) that by (auto simp: waiting_def)
    from arg_cong [OF this, of length] show ?thesis by simp
  qed
  have X: "length (nm p) = Suc (Suc (length (nm i)))" if "p \<in> X" for p
    using that Suc.prems(6) far [of p] by (auto simp: waiting_def)
  have "parent \<noteq> Some i" "i \<notin> X" using far [of i] X [of i] by auto
  then have i': "unat (sy_parent (rc_symbols rc1 i)) = ?i" "?i < rc_nextSymbol rc" "nm ?i = w" "nm1 ?i = w"
    using S(2) S(9) [of i] Suc.prems(2,3) i w by (auto simp: stepped_def parents_def)
  have fi: "f = ancestor (rc_symbols rc) ?i k" using Suc.prems(8) by simp
  have "\<forall>p\<in>X. length (nm ?i) < length (nm p)" using X i'(3) w by simp
  note anc = Suc.prems(1,2) i'(2) this w(2) [folded i'(3)]
  have f: "f < rc_nextSymbol rc" "nm f = drop k w" using ancestor_path [OF anc] fi i'(3) by simp_all
  have "ancestor (rc_symbols rc1) ?i k = ancestor (rc_symbols rc) ?i k"
  proof (rule ancestor_cong [OF anc])
    fix j assume j: "j < rc_nextSymbol rc" "length (nm j) \<le> length (nm ?i)"
    then have "parent \<noteq> Some j" using far [of j] i'(3) w by auto
    then show "sy_parent (rc_symbols rc1 j) = sy_parent (rc_symbols rc j)" using S(9) j(1) by blast
  qed
  then have f1: "f = ancestor (rc_symbols rc1) ?i k" using fi by simp
  have W1: "wf T1 nm1 (rc_symbols rc1) (rc_nextSymbol rc1)" and n1: "rc_nextSymbol rc \<le> rc_nextSymbol rc1"
    and old: "\<forall>j < rc_nextSymbol rc. nm1 j = nm j" using S(2) by (simp_all add: stepped_def)
  have "s \<noteq> 0" using S(7) wfD(3) [OF W1] by (cases "s = 0") auto
  then have wait: "waiting nm1 (rc_nextSymbol rc1) ?i (Some s) v Y" using S(4,6,7) w i'(4) by (auto simp: waiting_def)
  have b: "bottom < rc_nextSymbol rc1" "nm1 bottom = nm1 f @ [v]" using Suc.prems(9,10) f n1 old by auto
  have s16: "unat (of_nat s :: u16) = s" using S(6) wfD(2) [OF W1] by (intro unat_of_nat_u16) simp
  have "?i < rc_nextSymbol rc1" "rc_nextSymbol rc1 + k \<le> SYMBOLS" "length (nm1 ?i) \<le> 2" "k \<le> length (nm1 ?i)"
    using i' n1 S(3) Suc.prems(4,5) w by auto
  from Suc.IH [OF W1 S(5) this(1-3) wait this(4) f1 b]
  obtain rc' T' nm' where R: "patch_contexts v f bottom ?i (Some s) rc1 = Some rc'"
    "stepped nm1 rc1 rc' T' nm'" "rc_nextSymbol rc' \<le> rc_nextSymbol rc1 + k"
    "parents nm' (rc_symbols rc') (rc_nextSymbol rc') {}"
    and P: "if Some s = None then unat (rc_predicted rc') < rc_nextSymbol rc' \<and> nm' (unat (rc_predicted rc')) = nm1 ?i @ [v]
      else rc_predicted rc' = rc_predicted rc1"
    and M': "\<forall>M. represents T1 nm1 (rc_symbols rc1) (rc_nextSymbol rc1) M \<longrightarrow>
      (\<forall>u\<in>firsts k (nm1 ?i). count_in v (snd (M u)) = 0) \<longrightarrow>
      rc_nextSymbol rc' = rc_nextSymbol rc1 + k \<and>
      represents T' nm' (rc_symbols rc') (rc_nextSymbol rc') (taught (firsts k (nm1 ?i)) v M)"
    by (elim exE conjE) (rule that)
  have "length (nm f) < length (nm i)" using f(2) w by simp
  then have "i \<noteq> f" by auto
  then have pc: "patch_contexts v f bottom i parent rc = Some rc'"
    using S(1) R(1) i'(1) by (subst patch_contexts.simps) simp
  have st: "stepped nm rc rc' T' nm'" using R(2) S(2) by (auto simp: stepped_def)
  have le: "rc_nextSymbol rc' \<le> rc_nextSymbol rc + Suc k" using R(3) S(3) by simp
  have rep: "rc_nextSymbol rc' = rc_nextSymbol rc + Suc k \<and>
      represents T' nm' (rc_symbols rc') (rc_nextSymbol rc') (taught (firsts (Suc k) (nm i)) v M)"
    if rep: "represents T nm (rc_symbols rc) (rc_nextSymbol rc) M" and z: "\<forall>u\<in>firsts (Suc k) (nm i). count_in v (snd (M u)) = 0" for M
  proof -
    let ?M = "M(nm i := learn 0 v (M (nm i)))"
    have z': "count_in v (snd (M (nm i))) = 0" "\<forall>u\<in>firsts k w. count_in v (snd (M u)) = 0" using z w(1) by simp_all
    have out: "x # w \<notin> firsts k w" using firsts_length [of "x # w" k w] by auto
    then have z'': "\<forall>u\<in>firsts k w. count_in v (snd (?M u)) = 0" using z'(2) w(1) by auto
    have "taught (firsts k w) v ?M = taught (firsts (Suc k) (nm i)) v M"
      using taught_insert [OF out, of v M] w(1) by simp
    then show ?thesis
      using M' [unfolded i'(4), THEN spec, THEN mp, THEN mp, OF conjunct2 [OF M [OF rep z'(1)]] z'']
        conjunct1 [OF M [OF rep z'(1)]]
      by (auto simp: fun_upd_def)
  qed
  have pr: "if parent = None
     then unat (rc_predicted rc') < rc_nextSymbol rc' \<and> nm' (unat (rc_predicted rc')) = nm i @ [v]
     else rc_predicted rc' = rc_predicted rc"
    using R(2) P S(6-8) s16 by (auto simp: stepped_def)
  show ?case
    by (rule exI [of _ rc'], rule exI [of _ T'], rule exI [of _ nm'], intro conjI)
       (rule pc st le R(4) pr | intro allI impI, rule rep, assumption+)+
qed


section \<open>Finding a byte\<close>

text \<open>The decoder's arithmetic on arbitrary data: no division by zero, and the range stays large enough.
  At the end of the data the code is the low end, and it stays the low end as long as escapes are read.\<close>

definition steady :: "decoder \<Rightarrow> bool" where
  "steady d \<longleftrightarrow> 0x10000 \<le> unat (decodeRange d)"

definition at_end :: "decoder \<Rightarrow> bool" where
  "at_end d \<longleftrightarrow> decodeCode d = decodeLow d \<and> inData d = []"

lemma read_decode_returns:
  assumes "steady d" "0 < t" "t < 65536"
  obtains code d1 where "ENET_RANGE_CODER_READ (of_nat t) d = Some (code, d1)" "at_end d \<Longrightarrow> code = 0"
    "\<And>und c. 0 < c \<Longrightarrow> 256 * c \<le> 255 * t \<Longrightarrow>
      \<exists>d2. ENET_RANGE_CODER_DECODE und (of_nat c) d1 = Some d2 \<and> steady d2 \<and> (und = 0 \<longrightarrow> at_end d \<longrightarrow> at_end d2)"
proof -
  define r where "r = decodeRange d div ucast (of_nat t :: u16)"
  have t16: "unat (of_nat t :: u16) = t" using assms(3) by (rule unat_of_nat_u16)
  then have r: "unat r = unat (decodeRange d) div t" by (simp add: r_def unat_div_distrib unat_ucast_up)
  have rpos: "0 < unat r" using assms by (simp add: r steady_def div_greater_zero_iff)
  then have r0: "r \<noteq> 0" by auto
  have "unat r * t \<le> unat (decodeRange d)" by (simp add: r)
  then have rt: "unat r * t < 0x100000000" using u32_less [of "decodeRange d"] by linarith
  define code where "code = (ucast ((decodeCode d - decodeLow d) div r) :: u16)"
  have "(of_nat t :: u16) \<noteq> 0" using assms(2,3) by (simp add: of_nat_u16_eq_0)
  then have "ENET_RANGE_CODER_READ (of_nat t) d = Some (code, d\<lparr>decodeRange := r\<rparr>)"
    using r0 by (simp add: ENET_RANGE_CODER_READ_def code_def r_def Let_def)
  moreover have "at_end d \<Longrightarrow> code = 0" by (simp add: code_def at_end_def)
  moreover have "\<exists>d2. ENET_RANGE_CODER_DECODE und (of_nat c) (d\<lparr>decodeRange := r\<rparr>) = Some d2 \<and> steady d2 \<and>
      (und = 0 \<longrightarrow> at_end d \<longrightarrow> at_end d2)" if c: "0 < c" "256 * c \<le> 255 * t" for und c
  proof -
    have c16: "unat (of_nat c :: u16) = c" using c(2) assms(3) by (intro unat_of_nat_u16) linarith
    have "256 * (unat r * c) \<le> 255 * (unat r * t)" using mult_le_mono2 [OF c(2), of "unat r"] by (simp add: ac_simps)
    then have lt: "unat r * c < 0x100000000 - 0x1000000" using rt by linarith
    then have "unat (r * ucast (of_nat c :: u16)) = unat r * c" by (simp add: unat_word_ariths unat_ucast_up c16)
    then have "live (decodeLow d + und * r) (r * ucast (of_nat c :: u16))"
      using lt rpos c(1) by (simp add: live_def)
    from decode_normalize_returns [OF this, of "decodeCode d" "inData d"] show ?thesis
      by (auto simp: ENET_RANGE_CODER_DECODE_def steady_def at_end_def)
  qed
  ultimately show ?thesis by (rule that)
qed

text \<open>No symbol and no escape takes more than 255/256 of a context.\<close>

lemma context_shares:
  assumes "context_at syms i m t" "m \<le> 1"
  shows "unat (sy_escapes (syms i)) = e \<Longrightarrow> unat (sy_total (syms i)) = e + 256 * m + weight t"
    "e = unat (sy_escapes (syms i)) \<Longrightarrow> 256 * e \<le> 255 * (e + 256 * m + weight t)"
    "e = unat (sy_escapes (syms i)) \<Longrightarrow> k \<le> weight t \<Longrightarrow> k < 256 \<Longrightarrow> 0 < e \<Longrightarrow> 256 * (k + m) \<le> 255 * (e + 256 * m + weight t)"
    "unat (sy_escapes (syms i)) + 256 * m + weight t < 65536"
  using assms by (auto simp: context_at_def sums_ok_def)

text \<open>Decoding a byte in context \<open>i\<close>.\<close>

lemma decode_symbol_learns:
  assumes wf: "wf T nm (rc_symbols rc) (rc_nextSymbol rc)" "parents nm (rc_symbols rc) (rc_nextSymbol rc) {}"
    "i < rc_nextSymbol rc" "rc_nextSymbol rc < SYMBOLS" "length (nm i) \<le> 2"
    and m: "m = minimum_of i" "create \<longleftrightarrow> i = 0" and lim: "lim = of_nat (rescale_limit m)"
    and e: "sy_escapes (rc_symbols rc i) = of_nat e" "e < 65536"
  obtains (refused) "\<And>d. decode_symbol create i code (of_nat (delta m)) (of_nat m) lim (rc, d) = Some None"
      "dwalk create m (rc_nextSymbol rc) (delta m) (unat (code - of_nat e)) 0 (T i) = None"
  | (byte) s v u k t rc' T' nm' where
    "dwalk create m (rc_nextSymbol rc) (delta m) (unat (code - of_nat e)) 0 (T i) = Some (s, v, u, k, t)"
    "\<And>d. decode_symbol create i code (of_nat (delta m)) (of_nat m) lim (rc, d) =
       (case ENET_RANGE_CODER_DECODE (ucast (of_nat e :: u16) + ucast (of_nat u :: u16)) (of_nat (k + m)) d of
          None \<Rightarrow> None | Some d \<Rightarrow> Some (Some (s, v, rc', d)))"
    "stepped nm rc rc' T' nm'" "rc_nextSymbol rc' = rc_nextSymbol rc + (if k = 0 then 1 else 0)"
    "parents nm' (rc_symbols rc') (rc_nextSymbol rc') {}" "s < rc_nextSymbol rc'" "nm' s = nm i @ [v]"
    "k = 0 \<longrightarrow> i = 0" "k \<le> weight (T i)" "k < 256" "rc_predicted rc' = rc_predicted rc"
    "\<And>j. j < rc_nextSymbol rc \<Longrightarrow> sy_parent (rc_symbols rc' j) = sy_parent (rc_symbols rc j)"
    "\<And>M. represents T nm (rc_symbols rc) (rc_nextSymbol rc) M \<Longrightarrow> t = ins v (delta m) (rc_nextSymbol rc) (T i) \<Longrightarrow>
      s = fst (seek v (rc_nextSymbol rc) (T i)) \<Longrightarrow> k = snd (seek v (rc_nextSymbol rc) (T i)) \<Longrightarrow>
      represents T' nm' (rc_symbols rc') (rc_nextSymbol rc') (M(nm i := learn m v (M (nm i))))"
proof -
  let ?code = "code - of_nat e"
  show ?thesis
  proof (cases rule: decode_step [OF wf m, of ?code])
    case 1
    then show ?thesis using refused by (simp add: decode_symbol_def e(1))
  next
    case (2 s v u k t syms1 n' syms3 T' nm')
    let ?rc = "rc\<lparr>rc_symbols := syms3, rc_nextSymbol := n'\<rparr>"
    have d: "ucast (of_nat (delta m) :: u8) = (of_nat (delta m) :: u16)"
      using delta_bounds(2) [of m] by (intro ucast_of_nat_u16) simp
    have "(of_nat (k + m) :: u16) > lim \<longleftrightarrow> rescale_limit m < k + m"
      unfolding lim using 2(13) m by (intro of_nat_u16_less) (simp_all add: rescale_limit_def)
    then have dec: "decode_symbol create i code (of_nat (delta m)) (of_nat m) lim (rc, d) =
       (case ENET_RANGE_CODER_DECODE (ucast (of_nat e :: u16) + ucast (of_nat u :: u16)) (of_nat (k + m)) d of
          None \<Rightarrow> None | Some d \<Rightarrow> Some (Some (s, v, ?rc, d)))" for d
      using 2(2-4) by (simp add: decode_symbol_def e(1) d split: option.split)
    have "stepped nm rc ?rc T' nm'" using 2(5,9,10) by (simp add: stepped_def)
    from byte [OF 2(1) dec this _ _ _ _ 2(11-13)] 2(6-8,10,14,15) show ?thesis by simp
  qed
qed


text \<open>A byte \<open>v\<close> has been found in the \<open>k\<close>-th context behind \<open>i\<close>, and counted there at symbol \<open>s\<close>.\<close>

definition found_at ::
    "(nat \<Rightarrow> u8 list) \<Rightarrow> ENetRangeCoder \<Rightarrow> nat \<Rightarrow> nat \<Rightarrow> nat \<Rightarrow> nat \<Rightarrow> u8 \<Rightarrow> ENetRangeCoder \<Rightarrow>
     (nat \<Rightarrow> nodes) \<Rightarrow> (nat \<Rightarrow> u8 list) \<Rightarrow> bool" where
  "found_at nm rc i k f s v rc' T' nm' \<longleftrightarrow>
     k \<le> length (nm i) \<and> f = ancestor (rc_symbols rc) i k \<and> stepped nm rc rc' T' nm' \<and>
     rc_nextSymbol rc' \<le> Suc (rc_nextSymbol rc) \<and> parents nm' (rc_symbols rc') (rc_nextSymbol rc') {} \<and>
     s < rc_nextSymbol rc' \<and> nm' s = nm f @ [v] \<and> rc_predicted rc' = rc_predicted rc \<and>
     (\<forall>j < rc_nextSymbol rc. sy_parent (rc_symbols rc' j) = sy_parent (rc_symbols rc j))"

lemma found_later:
  assumes "parents nm (rc_symbols rc) (rc_nextSymbol rc) {}" "i < rc_nextSymbol rc" "i \<noteq> 0"
    "nm i \<noteq> []" "found_at nm rc (unat (sy_parent (rc_symbols rc i))) k f s v rc' T' nm'"
  shows "found_at nm rc i (Suc k) f s v rc' T' nm'"
  using assms by (cases "nm i") (auto simp: found_at_def parents_def)

lemma decode_at:
  assumes wf: "wf T nm (rc_symbols rc) (rc_nextSymbol rc)" "parents nm (rc_symbols rc) (rc_nextSymbol rc) {}"
    "i < rc_nextSymbol rc" "rc_nextSymbol rc < SYMBOLS" "length (nm i) \<le> 2"
    and m: "m = minimum_of i" "create \<longleftrightarrow> i = 0" and lim: "lim = of_nat (rescale_limit m)"
    and d: "steady d" and e: "sy_escapes (rc_symbols rc i) \<noteq> 0"
  obtains code d1 d2 where
    "ENET_RANGE_CODER_READ (sy_total (rc_symbols rc i)) d = Some (code, d1)" "at_end d \<longrightarrow> code = 0"
    "ENET_RANGE_CODER_DECODE 0 (sy_escapes (rc_symbols rc i)) d1 = Some d2" "steady d2" "at_end d \<longrightarrow> at_end d2"
    "decode_symbol create i code (of_nat (delta m)) (of_nat m) lim (rc, d1) = Some None \<or>
     (\<exists>s v rc' d' T' nm'. decode_symbol create i code (of_nat (delta m)) (of_nat m) lim (rc, d1) = Some (Some (s, v, rc', d')) \<and>
       steady d' \<and> found_at nm rc i 0 i s v rc' T' nm')"
proof -
  have c: "context_at (rc_symbols rc) i m (T i)" using wfD(6) [OF wf(1,3)] m by simp
  have m1: "m \<le> 1" by (simp add: m)
  define e where "e = unat (sy_escapes (rc_symbols rc i))"
  define t where "t = e + 256 * m + weight (T i)"
  have pos: "0 < e" using assms(10) by (simp add: e_def unat_gt_0)
  note sh = context_shares [OF c m1]
  have words: "sy_escapes (rc_symbols rc i) = of_nat e" "sy_total (rc_symbols rc i) = of_nat t"
    using sh(1) by (auto simp: e_def t_def intro!: u16_of_unat simp del: of_nat_add)
  have small: "e < 65536" "t < 65536" "0 < t" using sh(4) pos by (simp_all add: e_def t_def)
  obtain code d1 where R: "ENET_RANGE_CODER_READ (of_nat t) d = Some (code, d1)" "at_end d \<longrightarrow> code = 0"
    and D: "\<And>und c. 0 < c \<Longrightarrow> 256 * c \<le> 255 * t \<Longrightarrow>
      \<exists>d2. ENET_RANGE_CODER_DECODE und (of_nat c) d1 = Some d2 \<and> steady d2 \<and> (und = 0 \<longrightarrow> at_end d \<longrightarrow> at_end d2)"
    using read_decode_returns [OF d small(3,2)] by metis
  obtain d2 where E: "ENET_RANGE_CODER_DECODE 0 (of_nat e) d1 = Some d2" "steady d2" "at_end d \<longrightarrow> at_end d2"
    using D [OF pos, of 0] sh(2) by (auto simp: e_def t_def)
  have "decode_symbol create i code (of_nat (delta m)) (of_nat m) lim (rc, d1) = Some None \<or>
     (\<exists>s v rc' d' T' nm'. decode_symbol create i code (of_nat (delta m)) (of_nat m) lim (rc, d1) = Some (Some (s, v, rc', d')) \<and>
       steady d' \<and> found_at nm rc i 0 i s v rc' T' nm')"
  proof (cases rule: decode_symbol_learns [OF wf m lim words(1) small(1), of code])
    case 1
    then show ?thesis by blast
  next
    case (2 s v u k t' rc' T' nm')
    have km: "0 < k + m" using 2(8) m by (cases "i = 0") auto
    have "256 * (k + m) \<le> 255 * t" using sh(3) [OF _ 2(9,10) pos] by (simp add: e_def t_def)
    from D [OF km this, of "ucast (of_nat e :: u16) + ucast (of_nat u :: u16)"]
    obtain d3 where "ENET_RANGE_CODER_DECODE (ucast (of_nat e :: u16) + ucast (of_nat u :: u16)) (of_nat (k + m)) d1 = Some d3"
      "steady d3" by (elim exE conjE)
    then have "decode_symbol create i code (of_nat (delta m)) (of_nat m) lim (rc, d1) = Some (Some (s, v, rc', d3))"
      using 2(2) by simp
    moreover have "found_at nm rc i 0 i s v rc' T' nm'" using 2 by (simp add: found_at_def)
    ultimately show ?thesis using \<open>steady d3\<close> by blast
  qed
  then show ?thesis by (rule that [OF R(1) [folded words] R(2) E(1) [folded words] E(2,3)])
qed

lemma decompress_contexts_returns:
  assumes wf: "wf T nm (rc_symbols rc) (rc_nextSymbol rc)" "parents nm (rc_symbols rc) (rc_nextSymbol rc) {}"
    "rc_nextSymbol rc < SYMBOLS" and i: "i < rc_nextSymbol rc" "length (nm i) \<le> 2" "steady d"
  shows "\<exists>r. decompress_contexts i (rc, d) = Some r \<and>
    (\<forall>f s v rc' d'. r = Some (Inr (f, s, v, rc', d')) \<longrightarrow>
      steady d' \<and> (\<exists>k T' nm'. found_at nm rc i k f s v rc' T' nm')) \<and>
    (at_end d \<longrightarrow> (\<exists>d'. r = Some (Inl d')))"
  using i
proof (induction "nm i" arbitrary: i d)
  case Nil
  have i0: "i = 0" using wfD(4) [OF wf(1) Nil.prems(1)] Nil.hyps by auto
  have c: "context_at (rc_symbols rc) 0 1 (T 0)" using wfD(6) [OF wf(1), of 0] Nil.prems(1) i0 by simp
  then have e: "sy_escapes (rc_symbols rc 0) \<noteq> 0" by (auto simp: context_at_def sums_ok_def)
  have m: "1 = minimum_of 0" "True \<longleftrightarrow> (0::nat) = 0" "250 = (of_nat (rescale_limit 1) :: u16)" by (simp_all add: rescale_limit_def)
  have n0: "0 < rc_nextSymbol rc" "length (nm 0) \<le> 2" using Nil.prems(1) i0 Nil.hyps by simp_all
  obtain code d1 d2 where R: "ENET_RANGE_CODER_READ (sy_total (rc_symbols rc 0)) d = Some (code, d1)" "at_end d \<longrightarrow> code = 0"
    "ENET_RANGE_CODER_DECODE 0 (sy_escapes (rc_symbols rc 0)) d1 = Some d2" "steady d2" "at_end d \<longrightarrow> at_end d2"
    and D: "decode_symbol True 0 code (of_nat (delta 1)) (of_nat 1) 250 (rc, d1) = Some None \<or>
     (\<exists>s v rc' d' T' nm'. decode_symbol True 0 code (of_nat (delta 1)) (of_nat 1) 250 (rc, d1) = Some (Some (s, v, rc', d')) \<and>
       steady d' \<and> found_at nm rc 0 0 0 s v rc' T' nm')"
    by (rule decode_at [OF wf(1,2) n0(1) wf(3) n0(2) m Nil.prems(3) e])
  show ?case
  proof (cases "code < sy_escapes (rc_symbols rc 0)")
    case True
    then show ?thesis using R(1,3) i0 by (subst decompress_contexts.simps) (simp add: decompress_root_def)
  next
    case False
    then have "\<not> at_end d" using R(2) e by (auto simp: word_gt_0)
    then show ?thesis using False R(1) D i0
      by (subst decompress_contexts.simps) (auto simp: decompress_root_def delta_def; blast)
  qed
next
  case (Cons x w)
  have i0: "i \<noteq> 0" using wfD(3) [OF wf(1)] Cons.hyps(2) by (cases "i = 0") auto
  have n: "i < SYMBOLS" using Cons.prems(1) wf(3) by simp
  let ?i = "unat (sy_parent (rc_symbols rc i))" and ?e = "sy_escapes (rc_symbols rc i)"
  have p: "?i < rc_nextSymbol rc" "nm ?i = w" using wf(2) Cons.prems(1) i0 Cons.hyps(2) [symmetric] by (auto simp: parents_def)
  have IH: "\<exists>r. decompress_contexts ?i (rc, d) = Some r \<and>
    (\<forall>f s v rc' d'. r = Some (Inr (f, s, v, rc', d')) \<longrightarrow>
      steady d' \<and> (\<exists>k T' nm'. found_at nm rc i k f s v rc' T' nm')) \<and>
    (at_end d \<longrightarrow> (\<exists>d'. r = Some (Inl d')))" if "steady d" for d
  proof -
    have "length (nm ?i) \<le> 2" using p(2) Cons.hyps(2) [symmetric] Cons.prems(2) by simp
    from Cons.hyps(1) [OF p(2) [symmetric] p(1) this that] found_later [OF wf(2) Cons.prems(1) i0] Cons.hyps(2) [symmetric]
    show ?thesis by fastforce
  qed
  show ?case
  proof (cases "?e = 0 \<or> ?e \<ge> sy_total (rc_symbols rc i)")
    case True
    then have "decompress_contexts i (rc, d) = decompress_contexts ?i (rc, d)"
      using i0 n by (subst decompress_contexts.simps) (auto simp: decompress_subcontext_def)
    then show ?thesis using IH [OF Cons.prems(3)] by simp
  next
    case False
    then have e: "?e \<noteq> 0" by simp
    have m: "0 = minimum_of i" "False \<longleftrightarrow> i = 0" "251 = (of_nat (rescale_limit 0) :: u16)" using i0 by (simp_all add: rescale_limit_def)
    obtain code d1 d2 where R: "ENET_RANGE_CODER_READ (sy_total (rc_symbols rc i)) d = Some (code, d1)" "at_end d \<longrightarrow> code = 0"
      "ENET_RANGE_CODER_DECODE 0 ?e d1 = Some d2" "steady d2" "at_end d \<longrightarrow> at_end d2"
      and D: "decode_symbol False i code (of_nat (delta 0)) (of_nat 0) 251 (rc, d1) = Some None \<or>
       (\<exists>s v rc' d' T' nm'. decode_symbol False i code (of_nat (delta 0)) (of_nat 0) 251 (rc, d1) = Some (Some (s, v, rc', d')) \<and>
         steady d' \<and> found_at nm rc i 0 i s v rc' T' nm')"
      by (rule decode_at [OF wf(1,2) Cons.prems(1) wf(3) Cons.prems(2) m Cons.prems(3) e])
    show ?thesis
    proof (cases "code < ?e")
      case True
      then have "decompress_contexts i (rc, d) = decompress_contexts ?i (rc, d2)"
        using i0 n R(1,3) False by (subst decompress_contexts.simps) (auto simp: decompress_subcontext_def Let_def)
      then show ?thesis using IH [OF R(4)] R(5) by auto
    next
      case nc: False
      then have "\<not> at_end d" using R(2) e by (auto simp: word_gt_0)
      then show ?thesis using nc False R(1) D i0 n
        by (subst decompress_contexts.simps) (auto simp: decompress_subcontext_def delta_def Let_def; blast)
    qed
  qed
qed


text \<open>The contexts before the one in which the byte has been found.\<close>

lemma patch_found:
  assumes I: "intact T nm rc" and F: "found_at nm rc (unat (rc_predicted rc)) k f s v rc1 T1 nm1"
  obtains rc2 T2 nm2 where "patch_contexts v f s (unat (rc_predicted rc1)) None rc1 = Some rc2"
    "wf T2 nm2 (rc_symbols rc2) (rc_nextSymbol rc2)" "parents nm2 (rc_symbols rc2) (rc_nextSymbol rc2) {}"
    "unat (rc_predicted rc2) < rc_nextSymbol rc2" "nm2 (unat (rc_predicted rc2)) = nm (unat (rc_predicted rc)) @ [v]"
    "rc_order rc2 = rc_order rc" "\<forall>j < rc_nextSymbol rc. nm2 j = nm j"
    "\<forall>M. represents T1 nm1 (rc_symbols rc1) (rc_nextSymbol rc1) M \<longrightarrow>
      (\<forall>u\<in>firsts k (nm (unat (rc_predicted rc))). count_in v (snd (M u)) = 0) \<longrightarrow>
      rc_nextSymbol rc2 = rc_nextSymbol rc1 + k \<and>
      represents T2 nm2 (rc_symbols rc2) (rc_nextSymbol rc2) (taught (firsts k (nm (unat (rc_predicted rc)))) v M)"
proof -
  let ?i = "unat (rc_predicted rc)"
  note F = F [unfolded found_at_def stepped_def] and I = I [unfolded intact_def]
  have f: "f < rc_nextSymbol rc" "f = ancestor (rc_symbols rc1) ?i k"
    using ancestor_path [of T nm "rc_symbols rc" "rc_nextSymbol rc" "{}" ?i k] I F
      ancestor_cong [of T nm "rc_symbols rc" "rc_nextSymbol rc" "{}" ?i k "rc_symbols rc1"] by auto
  have i: "nm1 ?i = nm ?i" "?i < rc_nextSymbol rc1" "rc_nextSymbol rc1 + k \<le> SYMBOLS" "length (nm1 ?i) \<le> 2" "k \<le> length (nm1 ?i)"
    "s < rc_nextSymbol rc1" "nm1 s = nm1 f @ [v]" "rc_predicted rc1 = rc_predicted rc"
    using I F f(1) by auto
  have wait: "waiting nm1 (rc_nextSymbol rc1) ?i None v {}" by (simp add: waiting_def)
  have W: "wf T1 nm1 (rc_symbols rc1) (rc_nextSymbol rc1)" "parents nm1 (rc_symbols rc1) (rc_nextSymbol rc1) {}" using F by blast+
  from patch_contexts_learns [OF W i(2-4) wait i(5) f(2) i(6,7)]
  obtain rc2 T2 nm2 where P: "patch_contexts v f s ?i None rc1 = Some rc2" "stepped nm1 rc1 rc2 T2 nm2"
    "rc_nextSymbol rc2 \<le> rc_nextSymbol rc1 + k" "parents nm2 (rc_symbols rc2) (rc_nextSymbol rc2) {}"
    "if None = (None :: nat option) then unat (rc_predicted rc2) < rc_nextSymbol rc2 \<and> nm2 (unat (rc_predicted rc2)) = nm1 ?i @ [v]
     else rc_predicted rc2 = rc_predicted rc1"
    "\<forall>M. represents T1 nm1 (rc_symbols rc1) (rc_nextSymbol rc1) M \<longrightarrow>
      (\<forall>u\<in>firsts k (nm1 ?i). count_in v (snd (M u)) = 0) \<longrightarrow>
      rc_nextSymbol rc2 = rc_nextSymbol rc1 + k \<and>
      represents T2 nm2 (rc_symbols rc2) (rc_nextSymbol rc2) (taught (firsts k (nm1 ?i)) v M)"
    by (elim exE conjE) (rule that)
  have "wf T2 nm2 (rc_symbols rc2) (rc_nextSymbol rc2)" "rc_order rc2 = rc_order rc" "\<forall>j < rc_nextSymbol rc. nm2 j = nm j"
    using P(2) F by (auto simp: stepped_def)
  moreover have "unat (rc_predicted rc2) < rc_nextSymbol rc2" "nm2 (unat (rc_predicted rc2)) = nm ?i @ [v]"
    using P(5) i(1) by simp_all
  ultimately show ?thesis by (intro that [of rc2 T2 nm2] P(4) P(1) [folded i(8)] P(6) [unfolded i(1)])
qed

section \<open>Arbitrary data\<close>

lemma decompress_byte_returns:
  assumes "intact T nm rc" "steady d"
  shows "\<exists>r. decompress_byte lim (rc, d, out) = Some r \<and>
    (\<forall>rc' d' out'. r = Some (Some (rc', d', out')) \<longrightarrow>
      steady d' \<and> (\<exists>T nm. intact T nm rc') \<and> length out < lim \<and> (\<exists>v. out' = out @ [v])) \<and>
    (at_end d \<longrightarrow> r = Some None)"
proof -
  let ?i = "unat (rc_predicted rc)"
  have I: "wf T nm (rc_symbols rc) (rc_nextSymbol rc)" "parents nm (rc_symbols rc) (rc_nextSymbol rc) {}"
    "rc_nextSymbol rc < SYMBOLS" "?i < rc_nextSymbol rc" "length (nm ?i) \<le> 2" "rc_order rc = length (nm ?i)"
    using assms(1) by (simp_all add: intact_def)
  obtain r where r: "decompress_contexts ?i (rc, d) = Some r"
    "\<And>f s v rc' d'. r = Some (Inr (f, s, v, rc', d')) \<Longrightarrow> steady d' \<and> (\<exists>k T' nm'. found_at nm rc ?i k f s v rc' T' nm')"
    "at_end d \<longrightarrow> (\<exists>d'. r = Some (Inl d'))"
    using decompress_contexts_returns [OF I(1-5) assms(2)] by blast
  show ?thesis
  proof (cases "\<exists>f s v rc' d'. r = Some (Inr (f, s, v, rc', d'))")
    case True
    then obtain f s v rc1 d1 where R: "r = Some (Inr (f, s, v, rc1, d1))" by blast
    then obtain k T1 nm1 where d1: "steady d1" and F: "found_at nm rc ?i k f s v rc1 T1 nm1" using r(2) by blast
    obtain rc2 T2 nm2 where P: "patch_contexts v f s (unat (rc_predicted rc1)) None rc1 = Some rc2"
      "wf T2 nm2 (rc_symbols rc2) (rc_nextSymbol rc2)" "parents nm2 (rc_symbols rc2) (rc_nextSymbol rc2) {}"
      "unat (rc_predicted rc2) < rc_nextSymbol rc2" "nm2 (unat (rc_predicted rc2)) = nm ?i @ [v]" "rc_order rc2 = rc_order rc"
      using patch_found [OF assms(1) F] by metis
    have "length (nm2 (unat (rc_predicted rc2))) = Suc (rc_order rc2)" "rc_order rc2 \<le> 2" using P(5,6) I(5,6) by simp_all
    from turn [OF P(2-4) this]
    obtain rc3 where rc3: "Option.bind (next_context rc2) ENET_RANGE_CODER_FREE_SYMBOLS = Some rc3" "\<exists>T nm. intact T nm rc3"
      using knows_intact by metis
    have "\<not> at_end d" using r(3) R by auto
    then show ?thesis using r(1) R P(1) rc3 d1
      by (auto simp: decompress_byte_def ENET_RANGE_CODER_OUTPUT_def)
  next
    case False
    then show ?thesis using r(1,3)
      by (cases r) (auto simp: decompress_byte_def split: sum.split)
  qed
qed

lemma decompress_loop_returns:
  assumes "intact T nm rc" "steady d" "length out \<le> lim"
  shows "\<exists>out'. decompress_loop lim (rc, d, out) = Some out' \<and> length out' \<le> lim"
  using assms
proof (induction "lim - length out" arbitrary: T nm rc d out rule: less_induct)
  case less
  obtain r where r: "decompress_byte lim (rc, d, out) = Some r"
    "\<And>rc' d' out'. r = Some (Some (rc', d', out')) \<Longrightarrow>
      steady d' \<and> (\<exists>T nm. intact T nm rc') \<and> length out < lim \<and> (\<exists>v. out' = out @ [v])"
    using decompress_byte_returns [OF less.prems(1,2), of lim out] by blast
  show ?case
  proof (cases "\<exists>rc' d' out'. r = Some (Some (rc', d', out'))")
    case True
    then obtain rc' d' out' where R: "r = Some (Some (rc', d', out'))" by blast
    then obtain T' nm' v where *: "steady d'" "intact T' nm' rc'" "length out < lim" "out' = out @ [v]" using r(2) by blast
    then have "lim - length out' < lim - length out" "length out' \<le> lim" by simp_all
    then have "\<exists>out''. decompress_loop lim (rc', d', out') = Some out'' \<and> length out'' \<le> lim"
      using less.hyps *(1,2) by blast
    then show ?thesis using r(1) R by (subst decompress_loop.simps) simp
  next
    case False
    then show ?thesis using r(1) less.prems(3)
      by (subst decompress_loop.simps) (auto split: option.split)
  qed
qed

text \<open>The decompressor returns on any input.\<close>

lemma decompress_returns:
  "\<exists>out. enet_range_coder_decompress (Some syms) data lim = Some out \<and> length out \<le> lim"
proof (cases "data = []")
  case False
  obtain rc where rc: "create_root syms = Some rc" "knows rc fresh" by (rule create_root_fresh)
  obtain T nm where I: "intact T nm rc" using knows_intact [OF rc(2)] by blast
  obtain code bs where s: "ENET_RANGE_CODER_SEED data = (code, bs)" by (cases "ENET_RANGE_CODER_SEED data")
  have "steady \<lparr>decodeLow = 0, decodeCode = code, decodeRange = - 1, inData = bs\<rparr>"
    by (simp add: steady_def unsigned_minus_1_eq_mask mask_eq_exp_minus_1)
  from decompress_loop_returns [OF I this, of "[]" lim] show ?thesis
    using False rc(1) s by (simp add: enet_range_coder_decompress_def)
qed (simp add: enet_range_coder_decompress_def)


section \<open>The data of a compressor\<close>

text \<open>The context that knows the byte, or the root.\<close>

lemma decode_found:
  assumes rep: "represents T nm (rc_symbols rc) (rc_nextSymbol rc) M"
    and wf: "parents nm (rc_symbols rc) (rc_nextSymbol rc) {}" "i < rc_nextSymbol rc" "rc_nextSymbol rc < SYMBOLS"
      "length (nm i) \<le> 2"
    and m: "m = minimum_of i" "create \<longleftrightarrow> i = 0" and lim: "lim = of_nat (rescale_limit m)"
    and c: "m = 1 \<or> 0 < count_in v (snd (M (nm i)))" "chain (interval_of m v (M (nm i))) d d'"
  obtains code d1 s rc' T' nm' where "ENET_RANGE_CODER_READ (sy_total (rc_symbols rc i)) d = Some (code, d1)"
    "\<not> code < sy_escapes (rc_symbols rc i)"
    "decode_symbol create i code (of_nat (delta m)) (of_nat m) lim (rc, d1) = Some (Some (s, v, rc', d'))"
    "found_at nm rc i 0 i s v rc' T' nm'"
    "rc_nextSymbol rc' = rc_nextSymbol rc + (if count_in v (snd (M (nm i))) = 0 then 1 else 0)"
    "represents T' nm' (rc_symbols rc') (rc_nextSymbol rc') (M(nm i := learn m v (M (nm i))))"
proof -
  obtain e xs where M: "M (nm i) = (e, xs)" by (cases "M (nm i)")
  note C = context_model [OF rep wf(2) M m(1)]
  have W: "wf T nm (rc_symbols rc) (rc_nextSymbol rc)" using rep by (simp add: represents_def)
  define k where "k = count_in v xs"
  have m1: "m \<le> 1" by (simp add: m)
  have v: "unat v < 256" using unsigned_less [of v] by simp
  have "unat v * m < 256" using v m1 by (cases m) auto
  then have small: "less_in v xs + unat v * m < 65536" "e < 65536" "e + 256 * m + sum_in xs < 65536"
    using less_count_sum [of v xs] C(5) by linarith+
  have words: "sy_escapes (rc_symbols rc i) = of_nat e" "sy_total (rc_symbols rc i) = of_nat (e + 256 * m + sum_in xs)"
    by (rule u16_of_unat, rule C(1,2))+
  have iv: "interval_of m v (M (nm i)) = [(e + less_in v xs + unat v * m, k + m, e + 256 * m + sum_in xs)]"
    using c(1) by (simp add: interval_of_def M k_def)
  obtain code d1 where R: "ENET_RANGE_CODER_READ (of_nat (e + 256 * m + sum_in xs)) d = Some (code, d1)"
    "e + less_in v xs + unat v * m \<le> unat code" "unat code < e + less_in v xs + unat v * m + (k + m)"
    "ENET_RANGE_CODER_DECODE (of_nat (e + less_in v xs + unat v * m)) (of_nat (k + m)) d1 = Some d'"
    using c(2) unfolding iv by (auto simp del: of_nat_add of_nat_mult)
  have ge: "of_nat e \<le> code" using R(2) small(2) by (simp add: word_le_nat_alt unat_of_nat_u16)
  then have sub: "unat (code - of_nat e) = unat code - e" using small(2) by (simp add: unat_sub unat_of_nat_u16)
  have und: "ucast (of_nat e :: u16) + ucast (of_nat (less_in v xs + unat v * m) :: u16) = (of_nat (e + less_in v xs + unat v * m) :: u32)"
    unfolding ucast_of_nat_u32 [OF small(1)] ucast_of_nat_u32 [OF small(2)] by (simp only: of_nat_add ac_simps)
  have walk: "dwalk create m (rc_nextSymbol rc) (delta m) (unat (code - of_nat e)) 0 (T i) =
      Some (fst (seek v (rc_nextSymbol rc) (T i)), v, less_in v xs + unat v * m, k, ins v (delta m) (rc_nextSymbol rc) (T i))"
    using dwalk_byte [of 0 v "T i" m "unat (code - of_nat e)" "rc_nextSymbol rc" "create" "delta m"] R(2,3) C(3,4) m
    by (auto simp: sub k_def)
  show ?thesis
  proof (cases rule: decode_symbol_learns [OF W wf m lim words(1) small(2), of code])
    case 1
    then show ?thesis using walk by simp
  next
    case (2 s v' u k' t rc' T' nm')
    have eq: "s = fst (seek v (rc_nextSymbol rc) (T i))" "v' = v" "u = less_in v xs + unat v * m" "k' = k"
      "t = ins v (delta m) (rc_nextSymbol rc) (T i)" using trans [OF sym [OF 2(1)] walk] by auto
    have r: "ENET_RANGE_CODER_READ (sy_total (rc_symbols rc i)) d = Some (code, d1)" using R(1) by (simp add: words)
    have n: "\<not> code < sy_escapes (rc_symbols rc i)" using ge by (simp add: words not_less)
    have dec: "decode_symbol create i code (of_nat (delta m)) (of_nat m) lim (rc, d1) = Some (Some (s, v, rc', d'))"
      unfolding 2(2) eq(2-4) und R(4) by simp
    have F: "found_at nm rc i 0 i s v rc' T' nm'" using 2 eq(2) by (simp add: found_at_def)
    have "represents T' nm' (rc_symbols rc') (rc_nextSymbol rc') (M(nm i := learn m v (M (nm i))))"
      using 2(13) [of M] rep eq C(4) by (simp add: k_def)
    moreover have "rc_nextSymbol rc' = rc_nextSymbol rc + (if count_in v (snd (M (nm i))) = 0 then 1 else 0)"
      using 2(4) eq(4) by (simp add: k_def M)
    ultimately show ?thesis using that [OF r n dec F] by blast
  qed
qed

lemma decompress_contexts_finds:
  assumes rep: "represents T nm (rc_symbols rc) (rc_nextSymbol rc) M"
    and wf: "parents nm (rc_symbols rc) (rc_nextSymbol rc) {}" "rc_nextSymbol rc < SYMBOLS"
    and i: "i < rc_nextSymbol rc" "length (nm i) \<le> 2" "chain (intervals M (nm i) v) d d'"
  shows "\<exists>k f s rc' T' nm'. decompress_contexts i (rc, d) = Some (Some (Inr (f, s, v, rc', d'))) \<and>
    found_at nm rc i k f s v rc' T' nm' \<and>
    (\<forall>u\<in>firsts k (nm i). count_in v (snd (M u)) = 0) \<and> (nm f = [] \<or> 0 < count_in v (snd (M (nm f)))) \<and>
    nm f = drop k (nm i) \<and>
    rc_nextSymbol rc' = rc_nextSymbol rc + (if count_in v (snd (M (nm f))) = 0 then 1 else 0) \<and>
    represents T' nm' (rc_symbols rc') (rc_nextSymbol rc') (M(nm f := learn (if nm f = [] then 1 else 0) v (M (nm f))))"
  using i
proof (induction "nm i" arbitrary: i d)
  case Nil
  have i0: "i = 0" using Nil.hyps Nil.prems(1) wfD(4) rep unfolding represents_def by fastforce
  have m: "1 = minimum_of i" "True \<longleftrightarrow> i = 0" "250 = (of_nat (rescale_limit 1) :: u16)" by (simp_all add: rescale_limit_def i0)
  have c: "1 = (1::nat) \<or> 0 < count_in v (snd (M (nm i)))" "chain (interval_of 1 v (M (nm i))) d d'"
    using Nil.prems(3) Nil.hyps [symmetric] by simp_all
  obtain code d1 s rc' T' nm' where D: "ENET_RANGE_CODER_READ (sy_total (rc_symbols rc i)) d = Some (code, d1)"
    "\<not> code < sy_escapes (rc_symbols rc i)"
    "decode_symbol True i code (of_nat (delta 1)) (of_nat 1) 250 (rc, d1) = Some (Some (s, v, rc', d'))"
    "found_at nm rc i 0 i s v rc' T' nm'"
    "rc_nextSymbol rc' = rc_nextSymbol rc + (if count_in v (snd (M (nm i))) = 0 then 1 else 0)"
    "represents T' nm' (rc_symbols rc') (rc_nextSymbol rc') (M(nm i := learn 1 v (M (nm i))))"
    by (rule decode_found [OF rep wf(1) Nil.prems(1) wf(2) Nil.prems(2) m c])
  have "decompress_contexts i (rc, d) = Some (Some (Inr (i, s, v, rc', d')))"
    using D(1-3) i0 by (subst decompress_contexts.simps) (simp add: decompress_root_def delta_def)
  then show ?case
    using D(4-6) Nil.hyps [symmetric]
    by - (rule exI [of _ 0], rule exI [of _ i], rule exI [of _ s], rule exI [of _ rc'], rule exI [of _ T'], rule exI [of _ nm'], auto simp: fun_upd_def)
next
  case (Cons x w)
  have W: "wf T nm (rc_symbols rc) (rc_nextSymbol rc)" using rep by (simp add: represents_def)
  have i0: "i \<noteq> 0" using wfD(3) [OF W] Cons.hyps(2) by (cases "i = 0") auto
  have n: "i < SYMBOLS" using Cons.prems(1) wf(2) by simp
  let ?i = "unat (sy_parent (rc_symbols rc i))" and ?e = "sy_escapes (rc_symbols rc i)"
  have p: "?i < rc_nextSymbol rc" "nm ?i = w" using wf(1) Cons.prems(1) i0 Cons.hyps(2) [symmetric] by (auto simp: parents_def)
  obtain e xs where M: "M (nm i) = (e, xs)" by (cases "M (nm i)")
  have m0: "0 = minimum_of i" using i0 by simp
  note C = context_model [OF rep Cons.prems(1) M m0, simplified]
  have small: "e < 65536" "e + sum_in xs < 65536" using C(5) by linarith+
  have words: "?e = of_nat e" "sy_total (rc_symbols rc i) = of_nat (e + sum_in xs)"
    by (rule u16_of_unat, rule C(1,2))+
  show ?case
  proof (cases "0 < count_in v (snd (M (nm i)))")
    case True
    have m: "0 = minimum_of i" "False \<longleftrightarrow> i = 0" "251 = (of_nat (rescale_limit 0) :: u16)" by (simp_all add: rescale_limit_def i0)
    have c: "0 = (1::nat) \<or> 0 < count_in v (snd (M (nm i)))" "chain (interval_of 0 v (M (nm i))) d d'"
      using Cons.prems(3) True Cons.hyps(2) [symmetric] by simp_all
    obtain code d1 s rc' T' nm' where D: "ENET_RANGE_CODER_READ (sy_total (rc_symbols rc i)) d = Some (code, d1)"
      "\<not> code < sy_escapes (rc_symbols rc i)"
      "decode_symbol False i code (of_nat (delta 0)) (of_nat 0) 251 (rc, d1) = Some (Some (s, v, rc', d'))"
      "found_at nm rc i 0 i s v rc' T' nm'"
      "rc_nextSymbol rc' = rc_nextSymbol rc + (if count_in v (snd (M (nm i))) = 0 then 1 else 0)"
      "represents T' nm' (rc_symbols rc') (rc_nextSymbol rc') (M(nm i := learn 0 v (M (nm i))))"
      by (rule decode_found [OF rep wf(1) Cons.prems(1) wf(2) Cons.prems(2) m c])
    have "0 < e \<and> 0 < sum_in xs" using True C(6,7) less_count_sum [of v xs] M by auto
    then have "\<not> (?e = 0 \<or> ?e \<ge> sy_total (rc_symbols rc i))"
      using small unfolding words by (simp add: not_le of_nat_u16_less of_nat_u16_eq_0 del: of_nat_add)
    then have "decompress_contexts i (rc, d) = Some (Some (Inr (i, s, v, rc', d')))"
      using D(1-3) i0 n by (subst decompress_contexts.simps) (simp add: decompress_subcontext_def delta_def Let_def)
    then show ?thesis
      using D(4-6) Cons.hyps(2) [symmetric] True
      by - (rule exI [of _ 0], rule exI [of _ i], rule exI [of _ s], rule exI [of _ rc'], rule exI [of _ T'], rule exI [of _ nm'], auto simp: fun_upd_def)
  next
    case False
    have iv: "intervals M (nm i) v = interval_of 0 v (e, xs) @ intervals M w v" "count_in v xs = 0"
      using False Cons.hyps(2) [symmetric] M by auto
    obtain d0 where ch: "chain (interval_of 0 v (e, xs)) d d0" "chain (intervals M w v) d0 d'"
      using Cons.prems(3) unfolding iv(1) chain_append by blast
    have step: "decompress_contexts i (rc, d) = decompress_contexts ?i (rc, d0)"
    proof (cases "0 < e \<and> 0 < sum_in xs")
      case True
      then obtain code d1 where R: "ENET_RANGE_CODER_READ (of_nat (e + sum_in xs)) d = Some (code, d1)" "unat code < e"
        "ENET_RANGE_CODER_DECODE 0 (of_nat e) d1 = Some d0"
        using ch(1) iv(2) by (auto simp: interval_of_def simp del: of_nat_add)
      have "code < of_nat e" using R(2) small(1) by (simp add: word_less_nat_alt unat_of_nat_u16)
      moreover have "\<not> (?e = 0 \<or> ?e \<ge> sy_total (rc_symbols rc i))"
        using small True unfolding words by (simp add: not_le of_nat_u16_less of_nat_u16_eq_0 del: of_nat_add)
      ultimately show ?thesis
        using R(1,3) i0 n unfolding words
        by (subst decompress_contexts.simps) (simp add: decompress_subcontext_def Let_def words del: of_nat_add)
    next
      case False
      then have "?e = 0 \<or> ?e \<ge> sy_total (rc_symbols rc i)"
        using C(6,7) unfolding words by auto
      moreover have "d0 = d" using ch(1) False iv(2) by (auto simp: interval_of_def)
      ultimately show ?thesis using i0 n
        by (subst decompress_contexts.simps) (auto simp: decompress_subcontext_def)
    qed
    have "length (nm ?i) \<le> 2" using p(2) Cons.hyps(2) [symmetric] Cons.prems(2) by simp
    from Cons.hyps(1) [OF p(2) [symmetric] p(1) this ch(2) [folded p(2)]]
    obtain k f s rc' T' nm' where R: "decompress_contexts ?i (rc, d0) = Some (Some (Inr (f, s, v, rc', d')))"
      "found_at nm rc ?i k f s v rc' T' nm'"
      "\<forall>u\<in>firsts k (nm ?i). count_in v (snd (M u)) = 0" "nm f = [] \<or> 0 < count_in v (snd (M (nm f)))"
      "nm f = drop k (nm ?i)"
      "rc_nextSymbol rc' = rc_nextSymbol rc + (if count_in v (snd (M (nm f))) = 0 then 1 else 0)"
      "represents T' nm' (rc_symbols rc') (rc_nextSymbol rc') (M(nm f := learn (if nm f = [] then 1 else 0) v (M (nm f))))"
      by (elim exE conjE) (rule that)
    have F: "found_at nm rc i (Suc k) f s v rc' T' nm'"
      by (rule found_later [OF wf(1) Cons.prems(1) i0 _ R(2)]) (simp flip: Cons.hyps(2))
    have "\<forall>u\<in>firsts (Suc k) (nm i). count_in v (snd (M u)) = 0" "nm f = drop (Suc k) (nm i)"
      using R(3,5) p(2) False by (simp_all flip: Cons.hyps(2))
    with F R(4,6,7) R(1) [folded step] show ?thesis by blast
  qed
qed


lemma learners_firsts:
  assumes "\<forall>u\<in>firsts k w. count_in v (snd (M u)) = 0" "k \<le> length w" "drop k w = [] \<or> 0 < count_in v (snd (M (drop k w)))"
  shows "learners M w v = insert (drop k w) (firsts k w) \<and>
    news M w v = k + (if count_in v (snd (M (drop k w))) = 0 then 1 else 0)"
  using assms
proof (induction w arbitrary: k)
  case (Cons x w)
  show ?case
  proof (cases k)
    case 0
    then show ?thesis using Cons.prems(3) by simp
  next
    case (Suc j)
    then show ?thesis using Cons.IH [of j] Cons.prems by auto
  qed
qed simp

lemma decompress_byte_finds:
  assumes K: "knows rc (M, w, n)" and "chain (intervals M w v) d d'" "length out < lim"
  obtains rc' where "decompress_byte lim (rc, d, out) = Some (Some (Some (rc', d', out @ [v])))"
    "knows rc' (advance v (M, w, n))"
proof -
  obtain T nm where I: "intact T nm rc" "represents T nm (rc_symbols rc) n M" "rc_nextSymbol rc = n"
    "nm (unat (rc_predicted rc)) = w" using K by (auto simp: knows_def)
  let ?i = "unat (rc_predicted rc)"
  have i: "?i < rc_nextSymbol rc" "length (nm ?i) \<le> 2" "rc_nextSymbol rc < SYMBOLS" "rc_order rc = length w"
    "parents nm (rc_symbols rc) (rc_nextSymbol rc) {}"
    using I(1,4) by (auto simp: intact_def)
  have rep: "represents T nm (rc_symbols rc) (rc_nextSymbol rc) M" using I(2,3) by simp
  from decompress_contexts_finds [OF rep i(5,3,1,2) assms(2) [folded I(4)]]
  obtain k f s rc1 T1 nm1 where D: "decompress_contexts ?i (rc, d) = Some (Some (Inr (f, s, v, rc1, d')))"
    "found_at nm rc ?i k f s v rc1 T1 nm1"
    "\<forall>u\<in>firsts k (nm ?i). count_in v (snd (M u)) = 0" "nm f = [] \<or> 0 < count_in v (snd (M (nm f)))"
    "nm f = drop k (nm ?i)"
    "rc_nextSymbol rc1 = rc_nextSymbol rc + (if count_in v (snd (M (nm f))) = 0 then 1 else 0)"
    "represents T1 nm1 (rc_symbols rc1) (rc_nextSymbol rc1) (M(nm f := learn (if nm f = [] then 1 else 0) v (M (nm f))))"
    by (elim exE conjE) (rule that)
  note D' = D(3-7) [unfolded I(4)]
  have k: "k \<le> length w" using D(2) I(4) by (simp add: found_at_def)
  obtain rc2 T2 nm2 where P: "patch_contexts v f s (unat (rc_predicted rc1)) None rc1 = Some rc2"
    "wf T2 nm2 (rc_symbols rc2) (rc_nextSymbol rc2)" "parents nm2 (rc_symbols rc2) (rc_nextSymbol rc2) {}"
    "unat (rc_predicted rc2) < rc_nextSymbol rc2" "nm2 (unat (rc_predicted rc2)) = nm ?i @ [v]"
    "rc_order rc2 = rc_order rc" "\<forall>j < rc_nextSymbol rc. nm2 j = nm j"
    "\<forall>M. represents T1 nm1 (rc_symbols rc1) (rc_nextSymbol rc1) M \<longrightarrow>
      (\<forall>u\<in>firsts k (nm ?i). count_in v (snd (M u)) = 0) \<longrightarrow>
      rc_nextSymbol rc2 = rc_nextSymbol rc1 + k \<and>
      represents T2 nm2 (rc_symbols rc2) (rc_nextSymbol rc2) (taught (firsts k (nm ?i)) v M)"
    by (rule patch_found [OF I(1) D(2)])
  let ?M = "M(drop k w := learn (if drop k w = [] then 1 else 0) v (M (drop k w)))"
  have out: "drop k w \<notin> firsts k w"
  proof
    assume "drop k w \<in> firsts k w"
    then obtain j where j: "j < k" "drop k w = drop j w" by (auto simp: firsts_def)
    from arg_cong [OF j(2), of length] have "length (drop k w) = length (drop j w)" .
    then show False using k j(1) by simp
  qed
  then have "\<forall>u\<in>firsts k w. count_in v (snd (?M u)) = 0" using D'(1) by auto
  then have R: "rc_nextSymbol rc2 = rc_nextSymbol rc1 + k \<and>
      represents T2 nm2 (rc_symbols rc2) (rc_nextSymbol rc2) (taught (firsts k w) v ?M)"
    using P(8) [unfolded I(4), THEN spec, of ?M] D'(5) [unfolded D'(3)] by blast
  have F: "learners M w v = insert (drop k w) (firsts k w)"
    "news M w v = k + (if count_in v (snd (M (drop k w))) = 0 then 1 else 0)"
    using learners_firsts [OF D'(1) k D'(2) [unfolded D'(3)]] by simp_all
  have "taught (firsts k w) v ?M = taught (learners M w v) v M" unfolding F(1) by (rule taught_insert [OF out])
  then have "represents T2 nm2 (rc_symbols rc2) (rc_nextSymbol rc2) (taught (learners M (nm ?i) v) v M)"
    using conjunct2 [OF R] I(4) by simp
  moreover have "rc_nextSymbol rc2 = rc_nextSymbol rc + news M (nm ?i) v"
    using conjunct1 [OF R] D'(4) [unfolded D'(3)] F(2) I(4) by simp
  ultimately have "all_learned nm rc ?i v None M rc2 T2 nm2"
    unfolding all_learned_def using P(3-7) by (intro conjI) simp_all
  moreover have "length w \<le> 2" using i(2) I(4) by simp
  ultimately obtain rc3 where "Option.bind (next_context rc2) ENET_RANGE_CODER_FREE_SYMBOLS = Some rc3" "knows rc3 (advance v (M, w, n))"
    using turn_knows [OF I(2) _ i(4) I(3,4)] by metis
  then show ?thesis using that [of rc3] D(1) P(1) assms(3)
    by (simp add: decompress_byte_def ENET_RANGE_CODER_OUTPUT_def)
qed

lemma decompress_loop_finds:
  assumes "knows rc K" "chain (all_intervals K vs) d d'" "at_end d'" "steady d'" "length out + length vs \<le> lim"
  shows "decompress_loop lim (rc, d, out) = Some (out @ vs)"
  using assms
proof (induction vs arbitrary: rc K d out)
  case Nil
  then have "d' = d" by simp
  obtain T nm where "intact T nm rc" using knows_intact [OF Nil.prems(1)] by blast
  then have "decompress_byte lim (rc, d, out) = Some (Some None)"
    using decompress_byte_returns [of T nm rc d lim out] Nil.prems(3,4) \<open>d' = d\<close> by auto
  then show ?case by (subst decompress_loop.simps) simp
next
  case (Cons v vs)
  obtain M w n where K: "K = (M, w, n)" by (cases K)
  obtain d1 where c: "chain (intervals M w v) d d1" "chain (all_intervals (advance v K) vs) d1 d'"
    using Cons.prems(2) by (auto simp: K chain_append)
  have "length out < lim" using Cons.prems(5) by simp
  from decompress_byte_finds [OF Cons.prems(1) [unfolded K] c(1) this]
  obtain rc' where "decompress_byte lim (rc, d, out) = Some (Some (Some (rc', d1, out @ [v])))" "knows rc' (advance v K)"
    unfolding K by blast
  then show ?case using Cons.IH [OF _ c(2) Cons.prems(3,4), of rc' "out @ [v]"] Cons.prems(5)
    by (subst decompress_loop.simps) simp
qed

lemma flush_length:
  "ENET_RANGE_CODER_FLUSH lim low out = Some (Some out') \<Longrightarrow> length out \<le> lim \<Longrightarrow> length out' \<le> lim"
proof (induction "lim - length out" arbitrary: low out rule: less_induct)
  case less
  note step = less.prems(1) [unfolded ENET_RANGE_CODER_FLUSH.simps [of lim low out]]
  show ?case
    using step less.prems(2) less.hyps [of "out @ [ucast (drop_bit 24 low)]" "push_bit 8 low"]
    by (auto simp: ENET_RANGE_CODER_OUTPUT_def split: if_split_asm)
qed

abbreviation (input) new_encoder :: encoder where
  "new_encoder \<equiv> \<lparr>encodeLow = 0, encodeRange = - 1, outData = []\<rparr>"

lemma settled_new: "settled new_encoder"
  by (simp add: settled_def interval_def unsigned_minus_1_eq_mask mask_eq_exp_minus_1)

lemma compress_codes:
  assumes "[] \<notin> set bufs" "inLimit \<noteq> 0"
  shows "enet_range_coder_compress (Some syms) (vs # bufs) inLimit lim =
    (case encode_all lim (all_intervals fresh (vs @ concat bufs)) new_encoder of
       None \<Rightarrow> None
     | Some None \<Rightarrow> Some []
     | Some (Some e) \<Rightarrow>
         (case ENET_RANGE_CODER_FLUSH lim (encodeLow e) (outData e) of
            None \<Rightarrow> None | Some None \<Rightarrow> Some [] | Some (Some out) \<Rightarrow> Some out))"
proof -
  obtain rc where rc: "create_root syms = Some rc" "knows rc fresh" by (rule create_root_fresh)
  obtain rc' where "compress_loop lim vs bufs (rc, new_encoder) =
    (case encode_all lim (all_intervals fresh (vs @ concat bufs)) new_encoder of
       None \<Rightarrow> None | Some None \<Rightarrow> Some None | Some (Some e') \<Rightarrow> Some (Some (rc', e')))"
    using compress_loop_codes [OF rc(2) assms(1)] by blast
  then show ?thesis using rc(1) assms(2)
    by (auto simp: enet_range_coder_compress_def split: option.split)
qed

lemma compress_returns:
  assumes "[] \<notin> set (tl bufs)"
  shows "\<exists>out. enet_range_coder_compress rangeCoder bufs inLimit lim = Some out \<and> length out \<le> lim"
proof (cases "\<exists>syms vs bs. rangeCoder = Some syms \<and> bufs = vs # bs \<and> inLimit \<noteq> 0")
  case True
  then obtain syms vs bs where B: "rangeCoder = Some syms" "bufs = vs # bs" "inLimit \<noteq> 0" by blast
  have bs: "[] \<notin> set bs" using assms B(2) by simp
  obtain rc where rc: "knows rc fresh" by (rule create_root_fresh)
  let ?ts = "all_intervals fresh (vs @ concat bs)"
  have s: "\<forall>i\<in>set ?ts. sound i" by (rule all_sound [OF rc])
  obtain r where r: "encode_all lim ?ts new_encoder = Some r" using encode_all_returns [OF s, of lim new_encoder] by blast
  show ?thesis
  proof (cases r)
    case None
    then show ?thesis using compress_codes [OF bs B(3)] B(1,2) r by simp
  next
    case (Some e)
    then have l: "length (outData e) \<le> lim" using encode_chain [OF _ settled_new s] r by fastforce
    obtain q where q: "ENET_RANGE_CODER_FLUSH lim (encodeLow e) (outData e) = Some q"
      using flush_returns [of lim "encodeLow e" "outData e"] by blast
    then show ?thesis using compress_codes [OF bs B(3)] B(1,2) r Some flush_length [OF _ l]
      by (cases q) auto
  qed
qed (auto simp: enet_range_coder_compress_def split: option.split list.split)

text \<open>What has been compressed is decompressed, whatever the two memories held before.\<close>

lemma decompress_compress:
  assumes "enet_range_coder_compress (Some syms) bufs inLimit lim = Some out" "out \<noteq> []"
    "[] \<notin> set (tl bufs)" "length (concat bufs) \<le> lim'"
  shows "enet_range_coder_decompress (Some syms') out lim' = Some (concat bufs)"
proof -
  obtain vs bs where B: "bufs = vs # bs" "inLimit \<noteq> 0"
    using assms(1,2) by (cases bufs) (auto simp: enet_range_coder_compress_def split: if_split_asm)
  let ?ts = "all_intervals fresh (concat bufs)"
  have "[] \<notin> set bs" using assms(3) B(1) by simp
  from compress_codes [OF this B(2), of syms vs lim] assms(1,2)
  obtain e where e: "encode_all lim ?ts new_encoder = Some (Some e)"
    "ENET_RANGE_CODER_FLUSH lim (encodeLow e) (outData e) = Some (Some out)"
    by (auto simp: B(1) split: option.split_asm)
  obtain rc0 where "knows rc0 fresh" by (rule create_root_fresh)
  from encode_chain [OF e(1) settled_new all_sound [OF this]]
  obtain em where em: "outData e = em" "settled e"
    and ch: "\<And>tail. within (code_of tail) (encodeLow e) (encodeRange e) \<Longrightarrow>
      chain ?ts (decoder_at new_encoder (em @ tail)) (decoder_at e tail)" by auto
  obtain em' where em': "out = em @ em'" "code_of em' = encodeLow e" "length em' \<le> 4"
    using flush_code [OF e(2), of 4] em(1) by auto
  have "within (code_of em') (encodeLow e) (encodeRange e)"
    using em(2) em'(2) by (simp add: within_def settled_def interval_def)
  from ch [OF this] have c: "chain ?ts (decoder_at new_encoder out) (decoder_at e em')" by (simp add: em'(1))
  have fin: "at_end (decoder_at e em')" "steady (decoder_at e em')"
    using em' em(2) by (simp_all add: at_end_def decoder_at_def steady_def settled_def)
  obtain rc where rc: "create_root syms' = Some rc" "knows rc fresh" by (rule create_root_fresh)
  have "decompress_loop lim' (rc, decoder_at new_encoder out, []) = Some ([] @ concat bufs)"
    by (rule decompress_loop_finds [OF rc(2) c fin]) (use assms(4) in simp)
  moreover have "ENET_RANGE_CODER_SEED out = (code_of out, drop 4 out)"
    by (simp add: code_of_def ENET_RANGE_CODER_SEED_def)
  ultimately show ?thesis using assms(2) rc(1)
    by (simp add: enet_range_coder_decompress_def decoder_at_def)
qed

end
