(* ===== verification/EnetSend.thy ===== *)
theory EnetSend
  imports EnetReceive
begin

text \<open>
  Sending (\<^verbatim>\<open>enet/protocol.cpp\<close>): acknowledgements, reliable and unreliable commands of a peer are put
  into one datagram, timed out commands are queued again, and the datagram goes to the socket.  With
  it come \<^verbatim>\<open>enet_host_flush\<close> and the functions of \<^verbatim>\<open>enet/peer.cpp\<close> that disconnect a peer.

  The code's pointers \<open>command\<close> and \<open>buffer\<close> into the arrays of the host are the positions
  \<open>h_commandCount\<close> and \<open>h_bufferCount\<close>, which are advanced with them.  A buffer refers to a command
  or to a packet; what it holds is looked up when the datagram is sent.  A loop over a list is a
  recursion on it that returns what stays in the list.
\<close>

section \<open>Filling a datagram\<close>

text \<open>The space left in the datagram, in \<^verbatim>\<open>size_t\<close> arithmetic.\<close>

definition space_left :: "nat \<Rightarrow> ENetHost \<Rightarrow> size_t" where
  "space_left i h = ucast (p_mtu (peer_at h i)) - h_packetSize h"

definition size_of_command :: "ENetProtocol \<Rightarrow> size_t" where
  "size_of_command c = of_nat (commandSizes ! unat (number_of c))"

definition put_command :: "ENetProtocol \<Rightarrow> size_t \<Rightarrow> ENetHost \<Rightarrow> ENetHost" where
  "put_command c len h = h\<lparr>
     h_buffers := (h_buffers h)[h_bufferCount h := CommandBuffer (h_commandCount h) len],
     h_packetSize := h_packetSize h + len,
     h_commands := (h_commands h)[h_commandCount h := c],
     h_commandCount := Suc (h_commandCount h), h_bufferCount := Suc (h_bufferCount h)\<rparr>"

definition put_packet :: "nat \<Rightarrow> u32 \<Rightarrow> u16 \<Rightarrow> ENetHost \<Rightarrow> ENetHost" where
  "put_packet packet offset len h = h\<lparr>
     h_buffers := (h_buffers h)[h_bufferCount h := PacketBuffer packet (unat offset) (ucast len)],
     h_packetSize := h_packetSize h + ucast len, h_bufferCount := Suc (h_bufferCount h)\<rparr>"

definition put_outgoing :: "ENetOutgoingCommand \<Rightarrow> size_t \<Rightarrow> ENetHost \<Rightarrow> ENetHost" where
  "put_outgoing oc len h =
     (let h = put_command (oc_command oc) len h
      in case oc_packet oc of
           None \<Rightarrow> h
         | Some k \<Rightarrow> put_packet k (oc_fragmentOffset oc) (oc_fragmentLength oc) h)"

section \<open>Acknowledgements\<close>

definition acknowledge_protocol :: "ENetAcknowledgement \<Rightarrow> ENetProtocol" where
  "acknowledge_protocol ack =
     (let s = ENET_HOST_TO_NET_16 (hd_reliableSequenceNumber (pr_header (ak_command ack)))
      in \<lparr>pr_header = \<lparr>hd_command = ENET_PROTOCOL_COMMAND_ACKNOWLEDGE,
            hd_channelID = channel_of (ak_command ack), hd_reliableSequenceNumber = s\<rparr>,
          pr_body = Acknowledge s (ENET_HOST_TO_NET_16 (ucast (ak_sentTime ack)))\<rparr>)"

fun send_acknowledgements_loop ::
    "nat \<Rightarrow> ENetAcknowledgement list \<Rightarrow> ENetHost \<Rightarrow> ENetAcknowledgement list \<times> ENetHost" where
  "send_acknowledgements_loop i [] h = ([], h)"
| "send_acknowledgements_loop i (ack # acks) h =
     (if h_commandCount h \<ge> ENET_PROTOCOL_MAXIMUM_PACKET_COMMANDS \<or> h_bufferCount h \<ge> ENET_BUFFER_MAXIMUM \<or>
         space_left i h < 8
      then (ack # acks, h\<lparr>h_continueSending := True\<rparr>)
      else
        let h = put_command (acknowledge_protocol ack) 8 h;
            h = (if number_of (ak_command ack) = ENET_PROTOCOL_COMMAND_DISCONNECT
                 then enet_protocol_dispatch_state i ENET_PEER_STATE_ZOMBIE h else h)
        in send_acknowledgements_loop i acks h)"

definition enet_protocol_send_acknowledgements :: "nat \<Rightarrow> ENetHost \<Rightarrow> ENetHost" where
  "enet_protocol_send_acknowledgements i h =
     (case send_acknowledgements_loop i (p_acknowledgements (peer_at h i)) h of
        (acks, h) \<Rightarrow> upd_peer i (p_acknowledgements_update (\<lambda>_. acks)) h)"

section \<open>Unreliable commands\<close>

text \<open>The throttle: the counter after a packet, and whether the packet is dropped.\<close>

definition throttle_packet :: "ENetPeer \<Rightarrow> bool \<times> ENetPeer" where
  "throttle_packet p =
     (let n = (p_packetThrottleCounter p + ENET_PEER_PACKET_THROTTLE_COUNTER) mod ENET_PEER_PACKET_THROTTLE_SCALE
      in (n > p_packetThrottle p, p\<lparr>p_packetThrottleCounter := n\<rparr>))"

definition same_numbers :: "ENetOutgoingCommand \<Rightarrow> ENetOutgoingCommand \<Rightarrow> bool" where
  "same_numbers oc oc' \<longleftrightarrow> oc_reliableSequenceNumber oc' = oc_reliableSequenceNumber oc \<and>
     oc_unreliableSequenceNumber oc' = oc_unreliableSequenceNumber oc"

definition release_all :: "ENetOutgoingCommand list \<Rightarrow> ENetHost \<Rightarrow> ENetHost" where
  "release_all ocs h = h\<lparr>h_heap := fold (\<lambda>oc. release_packet (oc_packet oc)) ocs (h_heap h)\<rparr>"

definition datagram_full_unreliable :: "nat \<Rightarrow> ENetOutgoingCommand \<Rightarrow> ENetHost \<Rightarrow> bool" where
  "datagram_full_unreliable i oc h \<longleftrightarrow>
     (let commandSize = size_of_command (oc_command oc)
      in h_commandCount h \<ge> ENET_PROTOCOL_MAXIMUM_PACKET_COMMANDS \<or> h_bufferCount h + 1 \<ge> ENET_BUFFER_MAXIMUM \<or>
         space_left i h < commandSize \<or>
         (oc_packet oc \<noteq> None \<and> space_left i h < commandSize + ucast (oc_fragmentLength oc)))"

function (sequential) send_unreliable_loop ::
    "nat \<Rightarrow> ENetOutgoingCommand list \<Rightarrow> ENetHost \<Rightarrow> ENetOutgoingCommand list \<times> ENetHost" where
  "send_unreliable_loop i [] h = ([], h)"
| "send_unreliable_loop i (oc # ocs) h =
     (if datagram_full_unreliable i oc h then (oc # ocs, h\<lparr>h_continueSending := True\<rparr>)
      else
        case (if oc_packet oc \<noteq> None \<and> oc_fragmentOffset oc = 0
              then case throttle_packet (peer_at h i) of (dropped, p) \<Rightarrow> (dropped, upd_peer i (\<lambda>_. p) h)
              else (False, h)) of
          (dropped, h) \<Rightarrow>
            if dropped then send_unreliable_loop i (dropWhile (same_numbers oc) ocs)
                           (release_all (oc # takeWhile (same_numbers oc) ocs) h)
            else
              let h = put_outgoing oc (size_of_command (oc_command oc)) h;
                  h = (if oc_packet oc \<noteq> None
                       then upd_peer i (\<lambda>p. p\<lparr>p_sentUnreliableCommands := p_sentUnreliableCommands p @ [oc]\<rparr>) h
                       else h)
              in send_unreliable_loop i ocs h)"
  by pat_completeness auto
termination
  by (relation "measure (\<lambda>(i, ocs, h). length ocs)") (auto simp: le_imp_less_Suc length_dropWhile_le)

text \<open>The disconnection at the end is of a peer in the state \<^verbatim>\<open>DISCONNECT_LATER\<close>, so it does not flush.\<close>

definition enet_protocol_send_unreliable_outgoing_commands :: "nat \<Rightarrow> ENetHost \<Rightarrow> ENetHost" where
  "enet_protocol_send_unreliable_outgoing_commands i h =
     (case send_unreliable_loop i (p_outgoingUnreliableCommands (peer_at h i)) h of
        (ocs, h) \<Rightarrow>
          let h = upd_peer i (p_outgoingUnreliableCommands_update (\<lambda>_. ocs)) h;
              p = peer_at h i
          in if p_state p = ENET_PEER_STATE_DISCONNECT_LATER \<and> p_outgoingReliableCommands p = [] \<and>
                p_outgoingUnreliableCommands p = [] \<and> p_sentReliableCommands p = []
             then disconnect_connected i (p_eventData p) h else h)"

section \<open>Timeouts\<close>

text \<open>The loop over the sent commands: \<open>kept\<close> are those before the current one, \<open>moved\<close> those that
  have been put in front of the outgoing list.  The result is 1 when the peer has timed out.\<close>

definition give_up :: "u32 \<Rightarrow> ENetOutgoingCommand \<Rightarrow> ENetPeer \<Rightarrow> bool" where
  "give_up serviceTime oc p \<longleftrightarrow>
     p_earliestTimeout p \<noteq> 0 \<and>
     (ENET_TIME_DIFFERENCE serviceTime (p_earliestTimeout p) \<ge> p_timeoutMaximum p \<or>
      (oc_roundTripTimeout oc \<ge> oc_roundTripTimeoutLimit oc \<and>
       ENET_TIME_DIFFERENCE serviceTime (p_earliestTimeout p) \<ge> p_timeoutMinimum p))"

fun check_timeouts_loop ::
    "u32 \<Rightarrow> ENetOutgoingCommand list \<Rightarrow> ENetOutgoingCommand list \<Rightarrow> ENetOutgoingCommand list \<Rightarrow> ENetPeer \<Rightarrow>
     bool \<times> ENetOutgoingCommand list \<times> ENetOutgoingCommand list \<times> ENetPeer" where
  "check_timeouts_loop t kept moved [] p = (False, kept, moved, p)"
| "check_timeouts_loop t kept moved (oc # ocs) p =
     (if ENET_TIME_DIFFERENCE t (oc_sentTime oc) < oc_roundTripTimeout oc
      then check_timeouts_loop t (kept @ [oc]) moved ocs p
      else
        let p = (if p_earliestTimeout p = 0 \<or> ENET_TIME_LESS (oc_sentTime oc) (p_earliestTimeout p)
                 then p\<lparr>p_earliestTimeout := oc_sentTime oc\<rparr> else p)
        in if give_up t oc p then (True, kept @ oc # ocs, moved, p)
           else
             let p = (if oc_packet oc \<noteq> None
                      then p\<lparr>p_reliableDataInTransit := p_reliableDataInTransit p - ucast (oc_fragmentLength oc)\<rparr>
                      else p);
                 p = p\<lparr>p_packetsLost := p_packetsLost p + 1\<rparr>;
                 p = (if kept = [] then
                        case ocs of
                          [] \<Rightarrow> p
                        | next # _ \<Rightarrow> p\<lparr>p_nextTimeout := oc_sentTime next + oc_roundTripTimeout next\<rparr>
                      else p)
             in check_timeouts_loop t kept (moved @ [oc\<lparr>oc_roundTripTimeout := oc_roundTripTimeout oc * 2\<rparr>]) ocs p)"

definition enet_protocol_check_timeouts ::
    "nat \<Rightarrow> ENetEvent option \<Rightarrow> ENetHost \<Rightarrow> bool \<times> ENetEvent option \<times> ENetHost" where
  "enet_protocol_check_timeouts i event h =
     (case check_timeouts_loop (h_serviceTime h) [] [] (p_sentReliableCommands (peer_at h i)) (peer_at h i) of
        (gaveUp, kept, moved, p) \<Rightarrow>
          let h = upd_peer i (\<lambda>_. p\<lparr>p_sentReliableCommands := kept,
                    p_outgoingReliableCommands := moved @ p_outgoingReliableCommands p\<rparr>) h
          in if gaveUp then (case enet_protocol_notify_disconnect i event h of (event, h) \<Rightarrow> (True, event, h))
             else (False, event, h))"

section \<open>Reliable commands\<close>

text \<open>The window of a command that is sent for the first time and is the first of its window: it waits
  while the window before it is full, or one of the eight windows from its own on is still in use.\<close>

definition window_blocked :: "ENetOutgoingCommand \<Rightarrow> ENetChannel \<Rightarrow> bool" where
  "window_blocked oc ch \<longleftrightarrow>
     (let w = reliable_window (oc_reliableSequenceNumber oc)
      in oc_sendAttempts oc < 1 \<and>
         oc_reliableSequenceNumber oc mod ENET_PEER_RELIABLE_WINDOW_SIZE = 0 \<and>
         (ch_reliableWindows ch ! ((w + ENET_PEER_RELIABLE_WINDOWS - 1) mod ENET_PEER_RELIABLE_WINDOWS)
            \<ge> ENET_PEER_RELIABLE_WINDOW_SIZE \<or>
          (ucast (ch_usedReliableWindows ch) :: u32) AND
            (push_bit w 0xFF OR drop_bit (ENET_PEER_RELIABLE_WINDOWS - w) 0xFF) \<noteq> 0))"

definition transit_exceeded :: "ENetOutgoingCommand \<Rightarrow> ENetPeer \<Rightarrow> bool" where
  "transit_exceeded oc p \<longleftrightarrow>
     (let windowSize = (p_packetThrottle p * p_windowSize p) div ENET_PEER_PACKET_THROTTLE_SCALE
      in p_reliableDataInTransit p + ucast (oc_fragmentLength oc) > ENET_MAX windowSize (p_mtu p))"

text \<open>The comparison for a command with a packet is one of 16 bit numbers.\<close>

definition datagram_full_reliable :: "nat \<Rightarrow> ENetOutgoingCommand \<Rightarrow> ENetHost \<Rightarrow> bool" where
  "datagram_full_reliable i oc h \<longleftrightarrow>
     (let commandSize = size_of_command (oc_command oc)
      in h_commandCount h \<ge> ENET_PROTOCOL_MAXIMUM_PACKET_COMMANDS \<or> h_bufferCount h + 1 \<ge> ENET_BUFFER_MAXIMUM \<or>
         space_left i h < commandSize \<or>
         (oc_packet oc \<noteq> None \<and>
          (ucast (space_left i h) :: u16) < ucast (commandSize + ucast (oc_fragmentLength oc))))"

definition use_window :: "u16 \<Rightarrow> ENetChannel \<Rightarrow> ENetChannel" where
  "use_window s ch =
     (let w = reliable_window s
      in ch\<lparr>ch_usedReliableWindows := ch_usedReliableWindows ch OR push_bit w 1,
            ch_reliableWindows := (ch_reliableWindows ch)[w := ch_reliableWindows ch ! w + 1]\<rparr>)"

text \<open>Sending a reliable command: its own fields, and the peer's.\<close>

definition start_timeout :: "u32 \<Rightarrow> ENetPeer \<Rightarrow> ENetOutgoingCommand \<Rightarrow> ENetOutgoingCommand" where
  "start_timeout serviceTime p oc =
     (let oc = oc\<lparr>oc_sendAttempts := oc_sendAttempts oc + 1\<rparr>;
          oc = (if oc_roundTripTimeout oc = 0 then
                  let timeout = p_roundTripTime p + 4 * p_roundTripTimeVariance p
                  in oc\<lparr>oc_roundTripTimeout := timeout, oc_roundTripTimeoutLimit := p_timeoutLimit p * timeout\<rparr>
                else oc)
      in oc\<lparr>oc_sentTime := serviceTime\<rparr>)"

definition record_sent :: "u32 \<Rightarrow> ENetOutgoingCommand \<Rightarrow> ENetPeer \<Rightarrow> ENetPeer" where
  "record_sent serviceTime oc p =
     (let c = channel_of (oc_command oc);
          sent = start_timeout serviceTime p oc;
          p = (if ucast c < p_channelCount p \<and> oc_sendAttempts oc < 1
               then upd_channel (unat c) (use_window (oc_reliableSequenceNumber oc)) p else p);
          p = (if p_sentReliableCommands p = []
               then p\<lparr>p_nextTimeout := serviceTime + oc_roundTripTimeout sent\<rparr> else p);
          p = p\<lparr>p_sentReliableCommands := p_sentReliableCommands p @ [sent]\<rparr>;
          p = (if oc_packet oc \<noteq> None
               then p\<lparr>p_reliableDataInTransit := p_reliableDataInTransit p + ucast (oc_fragmentLength oc)\<rparr> else p)
      in p\<lparr>p_packetsSent := p_packetsSent p + 1\<rparr>)"

text \<open>The loop, with the three flags of the code.  The result is what stays in the outgoing list, and
  \<open>canPing\<close>.\<close>

fun send_reliable_loop ::
    "nat \<Rightarrow> bool \<Rightarrow> bool \<Rightarrow> bool \<Rightarrow> ENetOutgoingCommand list \<Rightarrow> ENetHost \<Rightarrow>
     ENetOutgoingCommand list \<times> bool \<times> ENetHost" where
  "send_reliable_loop i windowExceeded windowWrap canPing [] h = ([], canPing, h)"
| "send_reliable_loop i windowExceeded windowWrap canPing (oc # ocs) h =
     (let p = peer_at h i; c = channel_of (oc_command oc);
          hasChannel = (ucast c < p_channelCount p);
          windowWrap = (windowWrap \<or> hasChannel \<and> window_blocked oc (channel_at p c))
      in if hasChannel \<and> windowWrap then
           (case send_reliable_loop i windowExceeded windowWrap canPing ocs h of
              (rest, canPing, h) \<Rightarrow> (oc # rest, canPing, h))
         else
           let windowExceeded = (windowExceeded \<or> oc_packet oc \<noteq> None \<and> transit_exceeded oc p)
           in if oc_packet oc \<noteq> None \<and> windowExceeded then
                (case send_reliable_loop i windowExceeded windowWrap canPing ocs h of
                   (rest, canPing, h) \<Rightarrow> (oc # rest, canPing, h))
              else if datagram_full_reliable i oc h then (oc # ocs, False, h\<lparr>h_continueSending := True\<rparr>)
              else
                let h = put_outgoing oc (size_of_command (oc_command oc))
                          (upd_peer i (record_sent (h_serviceTime h) oc) h);
                    h = h\<lparr>h_headerFlags := h_headerFlags h OR ENET_PROTOCOL_HEADER_FLAG_SENT_TIME\<rparr>
                in send_reliable_loop i windowExceeded windowWrap False ocs h)"

definition enet_protocol_send_reliable_outgoing_commands :: "nat \<Rightarrow> ENetHost \<Rightarrow> bool \<times> ENetHost" where
  "enet_protocol_send_reliable_outgoing_commands i h =
     (case send_reliable_loop i False False True (p_outgoingReliableCommands (peer_at h i)) h of
        (ocs, canPing, h) \<Rightarrow> (canPing, upd_peer i (p_outgoingReliableCommands_update (\<lambda>_. ocs)) h))"

section \<open>The datagram\<close>

text \<open>What a buffer holds: \<open>None\<close> for the data of a packet that has been freed.\<close>

definition buffer_bytes :: "ENetHost \<Rightarrow> u8 list \<Rightarrow> ENetBuffer \<Rightarrow> u8 list option" where
  "buffer_bytes h headerData b =
     (case b of
        NoBuffer \<Rightarrow> Some []
      | HeaderBuffer len \<Rightarrow> Some (take (unat len) headerData)
      | CommandBuffer n len \<Rightarrow> Some (take (unat len) (encode_command (h_commands h ! n)))
      | PacketBuffer k offset len \<Rightarrow>
          map_option (\<lambda>pk. take (unat len) (drop offset (case pk_data pk of None \<Rightarrow> [] | Some d \<Rightarrow> d)))
            (hp_packets (h_heap h) k)
      | CompressedBuffer len \<Rightarrow> Some (take (unat len) (h_packetData1 h)))"

text \<open>What the callbacks read; freed memory holds nothing in particular, here nothing.\<close>

definition readable :: "u8 list option list \<Rightarrow> u8 list list" where
  "readable bs = map (\<lambda>b. case b of None \<Rightarrow> [] | Some d \<Rightarrow> d) bs"

definition used_buffers :: "ENetHost \<Rightarrow> ENetBuffer list" where
  "used_buffers h = take (h_bufferCount h) (h_buffers h)"

text \<open>The statistics of lost packets.\<close>

definition update_packetLoss :: "u32 \<Rightarrow> ENetPeer \<Rightarrow> ENetPeer" where
  "update_packetLoss serviceTime p =
     (if p_packetLossEpoch p = 0 then p\<lparr>p_packetLossEpoch := serviceTime\<rparr>
      else if ENET_TIME_DIFFERENCE serviceTime (p_packetLossEpoch p) \<ge> ENET_PEER_PACKET_LOSS_INTERVAL \<and>
              p_packetsSent p > 0
      then
        let packetLoss = p_packetsLost p * ENET_PEER_PACKET_LOSS_SCALE div p_packetsSent p;
            p = p\<lparr>p_packetLossVariance := p_packetLossVariance p - p_packetLossVariance p div 4\<rparr>;
            p = (if packetLoss \<ge> p_packetLoss p then
                   let p = p\<lparr>p_packetLoss := p_packetLoss p + (packetLoss - p_packetLoss p) div 8\<rparr>
                   in p\<lparr>p_packetLossVariance := p_packetLossVariance p + (packetLoss - p_packetLoss p) div 4\<rparr>
                 else
                   let p = p\<lparr>p_packetLoss := p_packetLoss p - (p_packetLoss p - packetLoss) div 8\<rparr>
                   in p\<lparr>p_packetLossVariance := p_packetLossVariance p + (p_packetLoss p - packetLoss) div 4\<rparr>)
        in p\<lparr>p_packetLossEpoch := serviceTime, p_packetsSent := 0, p_packetsLost := 0\<rparr>
      else p)"

text \<open>Compression of all buffers but the header: the size, or 0 when it is not used.\<close>

definition compress_datagram :: "ENetHost \<Rightarrow> size_t \<times> ENetHost" where
  "compress_datagram h =
     (case (cp_context (h_compressor h), cp_compress (h_compressor h)) of
        (Some _, Some compress) \<Rightarrow>
          let originalSize = h_packetSize h - 4
          in (case compress (readable (map (buffer_bytes h []) (tl (used_buffers h)))) originalSize originalSize of
                (compressedSize, bytes) \<Rightarrow>
                  let h = h\<lparr>h_packetData1 := overwrite 0 (take (unat originalSize) bytes) (h_packetData1 h)\<rparr>
                  in if compressedSize > 0 \<and> compressedSize < originalSize
                     then (compressedSize,
                           h\<lparr>h_headerFlags := h_headerFlags h OR ENET_PROTOCOL_HEADER_FLAG_COMPRESSED\<rparr>)
                     else (0, h))
      | _ \<Rightarrow> (0, h))"

text \<open>The bytes of the header: the peer's identifier with the flags and the session, the time of
  sending when the datagram holds a reliable command, and the checksum.\<close>

definition datagram_header :: "ENetHost \<Rightarrow> u16 \<Rightarrow> bool \<Rightarrow> u8 list" where
  "datagram_header h peerID sentTime =
     bytes16 (ENET_HOST_TO_NET_16 (peerID OR h_headerFlags h)) @
     (if sentTime
      then bytes16 (ENET_HOST_TO_NET_16 (ucast (h_serviceTime h AND 0xFFFF))) else [])"

definition set_buffer :: "nat \<Rightarrow> ENetBuffer \<Rightarrow> ENetHost \<Rightarrow> ENetHost" where
  "set_buffer n b h = h\<lparr>h_buffers := (h_buffers h)[n := b]\<rparr>"

text \<open>From the header of the datagram up to the call of \<^verbatim>\<open>enet_socket_send\<close>: the header's bytes and
  the host with its buffers ready.\<close>

definition finish_datagram :: "nat \<Rightarrow> ENetHost \<Rightarrow> u8 list \<times> ENetHost" where
  "finish_datagram i h =
     (let sentTime = (h_headerFlags h AND ENET_PROTOCOL_HEADER_FLAG_SENT_TIME \<noteq> 0);
          h = set_buffer 0 (HeaderBuffer (if sentTime then 4 else 2)) h
      in case compress_datagram h of (shouldCompress, h) \<Rightarrow>
        let p = peer_at h i;
            h = (if p_outgoingPeerID p < ENET_PROTOCOL_MAXIMUM_PEER_ID
                 then h\<lparr>h_headerFlags := h_headerFlags h OR
                        push_bit (ENET_PROTOCOL_HEADER_SESSION_SHIFT) (ucast (p_outgoingSessionID p))\<rparr>
                 else h);
            header = datagram_header h (p_outgoingPeerID p) sentTime;
            (header, h) =
              (case h_checksum h of
                 None \<Rightarrow> (header, h)
               | Some checksum \<Rightarrow>
                   let connectID = (if p_outgoingPeerID p < ENET_PROTOCOL_MAXIMUM_PEER_ID then p_connectID p else 0);
                       h = set_buffer 0 (HeaderBuffer (of_nat (length header) + 4)) h;
                       unsigned = header @ bytes32 connectID
                   in (header @ bytes32 (checksum (readable (map (buffer_bytes h unsigned) (used_buffers h)))), h))
        in (header,
            if shouldCompress > 0
            then (set_buffer 1 (CompressedBuffer shouldCompress) h)\<lparr>h_bufferCount := 2\<rparr> else h))"

text \<open>\<^verbatim>\<open>enet_socket_send\<close> of the host's buffers.\<close>

definition enet_socket_send :: "ENetAddress \<Rightarrow> u8 list \<Rightarrow> ENetHost \<Rightarrow> int \<times> ENetHost" where
  "enet_socket_send address header h =
     (let w = h_world h
      in (w_sendResult w (length (w_sent w)),
          h\<lparr>h_world := w\<lparr>w_sent := w_sent w @ [(address, map (buffer_bytes h header) (used_buffers h))]\<rparr>\<rparr>))"

text \<open>Everything that is queued for one peer and fits goes into the datagram.  \<open>None\<close> goes on with the
  next peer without sending: the peer has timed out, or there is nothing to send.\<close>

definition ping_due :: "nat \<Rightarrow> ENetHost \<Rightarrow> bool" where
  "ping_due i h \<longleftrightarrow>
     p_sentReliableCommands (peer_at h i) = [] \<and>
     ENET_TIME_DIFFERENCE (h_serviceTime h) (p_lastReceiveTime (peer_at h i)) \<ge> p_pingInterval (peer_at h i) \<and>
     space_left i h \<ge> 4"

definition send_or_ping :: "nat \<Rightarrow> ENetHost \<Rightarrow> ENetHost" where
  "send_or_ping i h =
     (case (if p_outgoingReliableCommands (peer_at h i) = [] then (True, h)
            else enet_protocol_send_reliable_outgoing_commands i h) of
        (canPing, h) \<Rightarrow>
          if canPing \<and> ping_due i h then
            let h = snd (on_peer i enet_peer_ping h)
            in snd (enet_protocol_send_reliable_outgoing_commands i h)
          else h)"

definition send_commands :: "nat \<Rightarrow> ENetHost \<Rightarrow> ENetHost" where
  "send_commands i h =
     (let h = send_or_ping i h
      in if p_outgoingUnreliableCommands (peer_at h i) \<noteq> []
         then enet_protocol_send_unreliable_outgoing_commands i h else h)"

definition start_datagram :: "nat \<Rightarrow> ENetHost \<Rightarrow> ENetHost" where
  "start_datagram i h =
     (let h = h\<lparr>h_headerFlags := 0, h_commandCount := 0, h_bufferCount := 1, h_packetSize := 4\<rparr>
      in if p_acknowledgements (peer_at h i) \<noteq> [] then enet_protocol_send_acknowledgements i h else h)"

definition transmit :: "nat \<Rightarrow> ENetHost \<Rightarrow> int \<times> ENetHost" where
  "transmit i h =
     (let h = upd_peer i (update_packetLoss (h_serviceTime h)) h
      in case finish_datagram i h of (header, h) \<Rightarrow>
        let h = upd_peer i (p_lastSendTime_update (\<lambda>_. h_serviceTime h)) h
        in case enet_socket_send (p_address (peer_at h i)) header h of (sentLength, h) \<Rightarrow>
          let h = snd (on_peer i enet_protocol_remove_sent_unreliable_commands h)
          in if sentLength < 0 then (-1, h)
             else (sentLength, h\<lparr>h_totalSentData := h_totalSentData h + of_int sentLength,
                                 h_totalSentPackets := h_totalSentPackets h + 1\<rparr>))"

text \<open>The body of the loop over the peers: \<open>Some r\<close> for a return.\<close>

definition send_to_peer ::
    "bool \<Rightarrow> nat \<Rightarrow> ENetEvent option \<Rightarrow> ENetHost \<Rightarrow> int option \<times> ENetEvent option \<times> ENetHost" where
  "send_to_peer checkForTimeouts i event h =
     (if state_at h i = ENET_PEER_STATE_DISCONNECTED \<or> state_at h i = ENET_PEER_STATE_ZOMBIE
      then (None, event, h)
      else
        let h = start_datagram i h
        in case (if checkForTimeouts \<and> p_sentReliableCommands (peer_at h i) \<noteq> [] \<and>
                    ENET_TIME_GREATER_EQUAL (h_serviceTime h) (p_nextTimeout (peer_at h i))
                 then enet_protocol_check_timeouts i event h else (False, event, h)) of
             (True, event, h) \<Rightarrow>
               (case event of
                  Some e \<Rightarrow> if ev_type e \<noteq> ENET_EVENT_TYPE_NONE then Some 1 else None
                | None \<Rightarrow> None, event, h)
           | (False, event, h) \<Rightarrow>
               let h = send_commands i h
               in if h_commandCount h = 0 then (None, event, h)
                  else case transmit i h of
                    (sentLength, h) \<Rightarrow> (if sentLength < 0 then Some (-1) else None, event, h))"

fun send_to_peers ::
    "bool \<Rightarrow> nat list \<Rightarrow> ENetEvent option \<Rightarrow> ENetHost \<Rightarrow> int option \<times> ENetEvent option \<times> ENetHost" where
  "send_to_peers checkForTimeouts [] event h = (None, event, h)"
| "send_to_peers checkForTimeouts (i # is) event h =
     (case send_to_peer checkForTimeouts i event h of
        (Some r, event, h) \<Rightarrow> (Some r, event, h)
      | (None, event, h) \<Rightarrow> send_to_peers checkForTimeouts is event h)"

definition send_pass ::
    "bool \<Rightarrow> ENetEvent option \<Rightarrow> ENetHost \<Rightarrow> int option \<times> ENetEvent option \<times> ENetHost" where
  "send_pass checkForTimeouts event h =
     send_to_peers checkForTimeouts [0..<length (h_peers h)] event (h\<lparr>h_continueSending := False\<rparr>)"

text \<open>The loop that repeats the pass while something did not fit.\<close>

partial_function (option) send_loop ::
    "bool \<Rightarrow> ENetEvent option \<Rightarrow> ENetHost \<Rightarrow> (int \<times> ENetEvent option \<times> ENetHost) option" where
  "send_loop checkForTimeouts event h =
     (if \<not> h_continueSending h then Some (0, event, h)
      else case send_pass checkForTimeouts event h of
        (Some r, event, h) \<Rightarrow> Some (r, event, h)
      | (None, event, h) \<Rightarrow> send_loop checkForTimeouts event h)"

definition enet_protocol_send_outgoing_commands ::
    "ENetEvent option \<Rightarrow> bool \<Rightarrow> ENetHost \<Rightarrow> (int \<times> ENetEvent option \<times> ENetHost) option" where
  "enet_protocol_send_outgoing_commands event checkForTimeouts h =
     send_loop checkForTimeouts event (h\<lparr>h_continueSending := True\<rparr>)"

definition enet_host_flush :: "ENetHost \<Rightarrow> ENetHost option" where
  "enet_host_flush h =
     (case enet_time_get h of (t, h) \<Rightarrow>
        map_option (\<lambda>(_, _, h). h) (enet_protocol_send_outgoing_commands None False (h\<lparr>h_serviceTime := t\<rparr>)))"

section \<open>Disconnecting a peer\<close>

definition enet_peer_disconnect :: "nat \<Rightarrow> u32 \<Rightarrow> ENetHost \<Rightarrow> ENetHost option" where
  "enet_peer_disconnect = enet_peer_disconnect_with enet_host_flush"

definition enet_peer_disconnect_now :: "nat \<Rightarrow> u32 \<Rightarrow> ENetHost \<Rightarrow> ENetHost option" where
  "enet_peer_disconnect_now i data h =
     (let s = state_at h i
      in if s = ENET_PEER_STATE_DISCONNECTED then Some h
         else
           map_option (enet_peer_reset i)
             (if s \<noteq> ENET_PEER_STATE_ZOMBIE \<and> s \<noteq> ENET_PEER_STATE_DISCONNECTING then
                let h = enet_peer_reset_queues i h;
                    h = queue_outgoing i (disconnect_command (ENET_PROTOCOL_COMMAND_FLAG_UNSEQUENCED) data) h
                in enet_host_flush h
              else Some h))"

definition enet_peer_disconnect_later :: "nat \<Rightarrow> u32 \<Rightarrow> ENetHost \<Rightarrow> ENetHost option" where
  "enet_peer_disconnect_later i data h =
     (let p = peer_at h i
      in if (p_state p = ENET_PEER_STATE_CONNECTED \<or> p_state p = ENET_PEER_STATE_DISCONNECT_LATER) \<and>
            \<not> (p_outgoingReliableCommands p = [] \<and> p_outgoingUnreliableCommands p = [] \<and>
               p_sentReliableCommands p = [])
         then Some (upd_peer i (\<lambda>p. p\<lparr>p_state := ENET_PEER_STATE_DISCONNECT_LATER, p_eventData := data\<rparr>) h)
         else enet_peer_disconnect i data h)"

section \<open>Sending keeps the invariant\<close>

lemma put_command_frame [simp]:
  "h_peers (put_command c len h) = h_peers h" "host_frame h (put_command c len h)"
  by (simp_all add: put_command_def host_frame_def)

lemma put_packet_frame [simp]:
  "h_peers (put_packet k off len h) = h_peers h" "host_frame h (put_packet k off len h)"
  by (simp_all add: put_packet_def host_frame_def)

lemma host_frame_trans: "host_frame g h \<Longrightarrow> host_frame h k \<Longrightarrow> host_frame g k"
  by (simp add: host_frame_def)

lemma host_frame_refl [simp]: "host_frame h h"
  by (simp add: host_frame_def)

lemma host_frame_sending [simp]:
  "host_frame h (h\<lparr>h_continueSending := b\<rparr>)" "host_frame h (h\<lparr>h_headerFlags := w\<rparr>)"
  "host_frame h (h\<lparr>h_serviceTime := t\<rparr>)" "host_frame h (h\<lparr>h_world := x\<rparr>)"
  "host_frame h (h\<lparr>h_totalSentData := n, h_totalSentPackets := m\<rparr>)"
  "host_frame h (h\<lparr>h_headerFlags := w, h_commandCount := n', h_bufferCount := m', h_packetSize := s\<rparr>)"
  by (simp_all add: host_frame_def)

lemma put_outgoing_frame [simp]:
  "h_peers (put_outgoing oc len h) = h_peers h" "host_frame h (put_outgoing oc len h)"
  by (auto simp: put_outgoing_def Let_def host_frame_trans [OF put_command_frame(2) put_packet_frame(2)]
      split: option.split)

lemma release_all_frame [simp]:
  "h_peers (release_all ocs h) = h_peers h" "host_frame h (release_all ocs h)"
  by (simp_all add: release_all_def)

lemma send_acknowledgements_step:
  "host_ok h \<Longrightarrow> i < length (h_peers h) \<Longrightarrow> send_acknowledgements_loop i acks h = (rest, h') \<Longrightarrow>
   host_ok h' \<and> length (h_peers h') = length (h_peers h)"
proof (induction i acks h rule: send_acknowledgements_loop.induct)
  case (1 i h)
  then show ?case by simp
next
  case (2 i ack acks h)
  let ?full = "h_commandCount h \<ge> ENET_PROTOCOL_MAXIMUM_PACKET_COMMANDS \<or> h_bufferCount h \<ge> ENET_BUFFER_MAXIMUM \<or>
      space_left i h < 8"
  show ?case
  proof (cases ?full)
    case True
    then show ?thesis
      using 2 host_ok_same_peers [OF 2(2), of h'] by (auto simp: host_frame_def)
  next
    case False
    define h1 where "h1 = put_command (acknowledge_protocol ack) 8 h"
    define h2 where "h2 = (if number_of (ak_command ack) = ENET_PROTOCOL_COMMAND_DISCONNECT
        then enet_protocol_dispatch_state i ENET_PEER_STATE_ZOMBIE h1 else h1)"
    have "host_ok h1" "length (h_peers h1) = length (h_peers h)"
      using host_ok_same_peers [OF 2(2), of h1] by (simp_all add: h1_def)
    then have "host_ok h2" "length (h_peers h2) = length (h_peers h)"
      using 2(3) dispatch_state_keeps [of h1 i] by (simp_all add: h2_def)
    moreover have "send_acknowledgements_loop i acks h2 = (rest, h')"
      using 2(4) False unfolding send_acknowledgements_loop.simps h2_def h1_def Let_def by argo
    ultimately show ?thesis using 2(1) [OF False h1_def h2_def] 2(3) by simp
  qed
qed

interpretation send_acknowledgements: host_operation enet_protocol_send_acknowledgements
proof
  fix h :: ENetHost and i
  obtain rest h' where s: "send_acknowledgements_loop i (p_acknowledgements (peer_at h i)) h = (rest, h')"
    by (meson surj_pair)
  have eq: "enet_protocol_send_acknowledgements i h = upd_peer i (p_acknowledgements_update (\<lambda>_. rest)) h'"
    by (simp add: enet_protocol_send_acknowledgements_def s)
  show "host_ok (enet_protocol_send_acknowledgements i h)" if "host_ok h" "i < length (h_peers h)"
    unfolding eq using send_acknowledgements_step [OF that s] that(2)
    by (intro upd_peer_keeps_same peer_frame_same) simp_all
  have "length (h_peers h2) = length (h_peers h1)" if "send_acknowledgements_loop i acks h1 = (r, h2)" for acks h1 r h2
    using that
    by (induction i acks h1 rule: send_acknowledgements_loop.induct)
       (auto simp: Let_def split: if_split_asm)
  then show "length (h_peers (enet_protocol_send_acknowledgements i h)) = length (h_peers h)"
    unfolding eq using s by simp
qed

text \<open>The other loops change only the peer's queues and numbers.\<close>

lemma peer_frame_throttle_packet: "peer_frame p (snd (throttle_packet p))"
  by (rule peer_frame_same) (simp_all add: throttle_packet_def Let_def)

lemma peers_frame_update:
  assumes "h_peers h' = (h_peers h)[i := p]" "peer_frame (peer_at h i) p" "host_frame h h'"
    "host_ok h" "i < length (h_peers h)"
  shows "host_ok h' \<and> length (h_peers h') = length (h_peers h)"
  using host_ok_frame [OF assms(4,5,2,1,3)] assms(1) by simp

definition only_peer :: "nat \<Rightarrow> ENetHost \<Rightarrow> ENetHost \<Rightarrow> bool" where
  "only_peer i h h' \<longleftrightarrow> h_peers h' = (h_peers h)[i := peer_at h' i] \<and> host_frame h h' \<and>
     (i < length (h_peers h) \<longrightarrow> peer_frame (peer_at h i) (peer_at h' i))"

lemma only_peer_refl [simp]: "only_peer i h h"
  by (simp add: only_peer_def)

lemma only_peer_length: "only_peer i h h' \<Longrightarrow> length (h_peers h') = length (h_peers h)"
  unfolding only_peer_def by (metis length_list_update)

lemma only_peer_trans:
  assumes "only_peer i g h" "only_peer i h k"
  shows "only_peer i g k"
proof -
  have len: "length (h_peers h) = length (h_peers g)" using only_peer_length [OF assms(1)] .
  have "h_peers k = (h_peers g)[i := peer_at k i]"
    using assms unfolding only_peer_def by (metis list_update_overwrite)
  moreover have "host_frame g k"
    using assms host_frame_trans unfolding only_peer_def by blast
  moreover have "i < length (h_peers g) \<longrightarrow> peer_frame (peer_at g i) (peer_at k i)"
    using assms len peer_frame_trans unfolding only_peer_def by auto
  ultimately show ?thesis unfolding only_peer_def by blast
qed

lemma only_peer_update:
  "(\<And>p. peer_frame p (f p)) \<Longrightarrow> only_peer i h (upd_peer i f h)"
  by (cases "i < length (h_peers h)") (auto simp: only_peer_def host_frame_def upd_peer_def list_update_beyond)

lemma only_peer_update_at:
  "(i < length (h_peers h) \<Longrightarrow> peer_frame (peer_at h i) (f (peer_at h i))) \<Longrightarrow> only_peer i h (upd_peer i f h)"
  by (cases "i < length (h_peers h)") (auto simp: only_peer_def host_frame_def upd_peer_def list_update_beyond)

lemma only_peer_same: "h_peers h' = h_peers h \<Longrightarrow> host_frame h h' \<Longrightarrow> only_peer i h h'"
  by (simp add: only_peer_def)

lemma only_peer_ok:
  "only_peer i h h' \<Longrightarrow> host_ok h \<Longrightarrow> i < length (h_peers h) \<Longrightarrow>
   host_ok h' \<and> length (h_peers h') = length (h_peers h)"
  using peers_frame_update unfolding only_peer_def by blast


lemma only_peer_host [simp]:
  "only_peer i h (h\<lparr>h_continueSending := b\<rparr>)" "only_peer i h (h\<lparr>h_headerFlags := w\<rparr>)"
  "only_peer i h (put_outgoing oc len h)" "only_peer i h (release_all ocs h)"
  by (simp_all add: only_peer_def)

lemma only_peer_throttle: "only_peer i h (upd_peer i (\<lambda>_. snd (throttle_packet (peer_at h i))) h)"
proof -
  have "upd_peer i (\<lambda>_. snd (throttle_packet (peer_at h i))) h = upd_peer i (\<lambda>p. snd (throttle_packet p)) h"
    by (simp add: upd_peer_def)
  then show ?thesis using only_peer_update [of "\<lambda>p. snd (throttle_packet p)"] peer_frame_throttle_packet by simp
qed

lemma only_peer_queue:
  "only_peer i h (upd_peer i (p_sentUnreliableCommands_update f) h)"
  "set unreliable \<subseteq> set (p_outgoingUnreliableCommands (peer_at h i)) \<Longrightarrow>
   only_peer i h (upd_peer i (p_outgoingUnreliableCommands_update (\<lambda>_. unreliable)) h)"
  "set reliable \<subseteq> set (p_outgoingReliableCommands (peer_at h i)) \<Longrightarrow>
   only_peer i h (upd_peer i (p_outgoingReliableCommands_update (\<lambda>_. reliable)) h)"
proof -
  show "only_peer i h (upd_peer i (p_sentUnreliableCommands_update f) h)"
    by (intro only_peer_update peer_frame_same) simp_all
qed (intro only_peer_update_at peer_frame_lists, assumption)+

text \<open>The host after the throttle has counted a packet, after a command has been put into the datagram,
  and an induction over the ways the loop can go on.\<close>

abbreviation (input) throttled :: "nat \<Rightarrow> ENetOutgoingCommand \<Rightarrow> ENetHost \<Rightarrow> ENetHost" where
  "throttled i oc h \<equiv> (if oc_packet oc \<noteq> None \<and> oc_fragmentOffset oc = 0
     then upd_peer i (\<lambda>_. snd (throttle_packet (peer_at h i))) h else h)"

abbreviation (input) unreliable_sent :: "nat \<Rightarrow> ENetOutgoingCommand \<Rightarrow> ENetHost \<Rightarrow> ENetHost" where
  "unreliable_sent i oc h \<equiv> (if oc_packet oc \<noteq> None
     then upd_peer i (\<lambda>p. p\<lparr>p_sentUnreliableCommands := p_sentUnreliableCommands p @ [oc]\<rparr>)
            (put_outgoing oc (size_of_command (oc_command oc)) h)
     else put_outgoing oc (size_of_command (oc_command oc)) h)"

definition is_dropped :: "nat \<Rightarrow> ENetOutgoingCommand \<Rightarrow> ENetHost \<Rightarrow> bool" where
  "is_dropped i oc h \<longleftrightarrow> oc_packet oc \<noteq> None \<and> oc_fragmentOffset oc = 0 \<and> fst (throttle_packet (peer_at h i))"

lemma send_unreliable_loop_Cons:
  "send_unreliable_loop i (oc # ocs) h =
     (if datagram_full_unreliable i oc h then (oc # ocs, h\<lparr>h_continueSending := True\<rparr>)
      else if is_dropped i oc h
      then send_unreliable_loop i (dropWhile (same_numbers oc) ocs)
             (release_all (oc # takeWhile (same_numbers oc) ocs) (throttled i oc h))
      else send_unreliable_loop i ocs (unreliable_sent i oc (throttled i oc h)))"
proof -
  have "(if oc_packet oc \<noteq> None \<and> oc_fragmentOffset oc = 0
          then case throttle_packet (peer_at h i) of (dropped, p) \<Rightarrow> (dropped, upd_peer i (\<lambda>_. p) h)
          else (False, h)) = (is_dropped i oc h, throttled i oc h)"
    by (simp add: is_dropped_def split_beta)
  then show ?thesis
    unfolding send_unreliable_loop.simps Let_def by (simp only: prod.case)
qed

lemma send_unreliable_loop_rule:
  assumes "send_unreliable_loop i ocs h = (rest, h')"
    and none: "\<And>h. R [] [] h h"
    and full: "\<And>oc ocs h. datagram_full_unreliable i oc h \<Longrightarrow> R (oc # ocs) (oc # ocs) h (h\<lparr>h_continueSending := True\<rparr>)"
    and drop: "\<And>oc ocs rest h h'. \<not> datagram_full_unreliable i oc h \<Longrightarrow> is_dropped i oc h \<Longrightarrow>
      R (dropWhile (same_numbers oc) ocs) rest
        (release_all (oc # takeWhile (same_numbers oc) ocs) (throttled i oc h)) h' \<Longrightarrow> R (oc # ocs) rest h h'"
    and sent: "\<And>oc ocs rest h h'. \<not> datagram_full_unreliable i oc h \<Longrightarrow> \<not> is_dropped i oc h \<Longrightarrow>
      R ocs rest (unreliable_sent i oc (throttled i oc h)) h' \<Longrightarrow> R (oc # ocs) rest h h'"
  shows "R ocs rest h h'"
  using assms(1)
proof (induction "length ocs" arbitrary: ocs h rule: less_induct)
  case less
  show ?case
  proof (cases ocs)
    case Nil
    then show ?thesis using less(2) none by simp
  next
    case (Cons oc ocs')
    note loop = less(2) [unfolded Cons send_unreliable_loop_Cons]
    consider "datagram_full_unreliable i oc h" | "\<not> datagram_full_unreliable i oc h" "is_dropped i oc h"
      | "\<not> datagram_full_unreliable i oc h" "\<not> is_dropped i oc h" by blast
    then show ?thesis
    proof cases
      case 1
      then show ?thesis using loop full [OF 1, of ocs'] Cons by (auto split: if_split_asm)
    next
      case 2
      have "length (dropWhile (same_numbers oc) ocs') < length ocs"
        using length_dropWhile_le [of "same_numbers oc" ocs'] by (simp add: Cons)
      moreover have "send_unreliable_loop i (dropWhile (same_numbers oc) ocs')
          (release_all (oc # takeWhile (same_numbers oc) ocs') (throttled i oc h)) = (rest, h')"
        using loop 2 by (simp only: if_True if_False)
      ultimately show ?thesis using less(1) Cons drop [OF 2, of ocs' rest h'] by blast
    next
      case 3
      have "length ocs' < length ocs" by (simp add: Cons)
      moreover have "send_unreliable_loop i ocs' (unreliable_sent i oc (throttled i oc h)) = (rest, h')"
        using loop 3 by (simp only: if_True if_False)
      ultimately show ?thesis using less(1) Cons sent [OF 3, of ocs' rest h'] by blast
    qed
  qed
qed

lemma only_peer_throttled: "only_peer i h (throttled i oc h)"
  using only_peer_throttle [of i h] by simp

lemma only_peer_unreliable_sent: "only_peer i h (unreliable_sent i oc h)"
proof -
  let ?h = "put_outgoing oc (size_of_command (oc_command oc)) h"
  have "only_peer i ?h (upd_peer i (\<lambda>p. p\<lparr>p_sentUnreliableCommands := p_sentUnreliableCommands p @ [oc]\<rparr>) ?h)"
    by (intro only_peer_update peer_frame_same) simp_all
  then show ?thesis using only_peer_trans [OF only_peer_host(3)] by simp
qed

text \<open>What stays in the list is some of what was in it.\<close>

lemma send_unreliable_loop_only:
  assumes "send_unreliable_loop i ocs h = (rest, h')"
  shows "only_peer i h h' \<and> set rest \<subseteq> set ocs \<and>
    p_outgoingUnreliableCommands (peer_at h' i) = p_outgoingUnreliableCommands (peer_at h i)"
  using assms
proof (rule send_unreliable_loop_rule [where R = "\<lambda>ocs rest h h'. only_peer i h h' \<and> set rest \<subseteq> set ocs \<and>
    p_outgoingUnreliableCommands (peer_at h' i) = p_outgoingUnreliableCommands (peer_at h i)"])
  have t: "p_outgoingUnreliableCommands (peer_at (throttled i oc h) i) = p_outgoingUnreliableCommands (peer_at h i)" for oc h
    by (cases "i < length (h_peers h)") (simp_all add: throttle_packet_def Let_def list_update_beyond)
  have u: "p_outgoingUnreliableCommands (peer_at (unreliable_sent i oc h) i) = p_outgoingUnreliableCommands (peer_at h i)" for oc h
    by (cases "i < length (h_peers h)") (simp_all add: list_update_beyond)
  show "only_peer i h h' \<and> set rest \<subseteq> set (oc # ocs) \<and>
      p_outgoingUnreliableCommands (peer_at h' i) = p_outgoingUnreliableCommands (peer_at h i)"
    if "only_peer i (release_all (oc # takeWhile (same_numbers oc) ocs) (throttled i oc h)) h' \<and>
      set rest \<subseteq> set (dropWhile (same_numbers oc) ocs) \<and> p_outgoingUnreliableCommands (peer_at h' i) =
        p_outgoingUnreliableCommands (peer_at (release_all (oc # takeWhile (same_numbers oc) ocs) (throttled i oc h)) i)"
    for oc ocs rest h h'
  proof -
    have "only_peer i h h'"
      by (rule only_peer_trans [OF only_peer_trans [OF only_peer_throttled only_peer_host(4)] conjunct1 [OF that]])
    then show ?thesis using that t [of oc h] set_dropWhileD [of _ "same_numbers oc" ocs] by auto
  qed
  show "only_peer i h h' \<and> set rest \<subseteq> set (oc # ocs) \<and>
      p_outgoingUnreliableCommands (peer_at h' i) = p_outgoingUnreliableCommands (peer_at h i)"
    if "only_peer i (unreliable_sent i oc (throttled i oc h)) h' \<and> set rest \<subseteq> set ocs \<and>
      p_outgoingUnreliableCommands (peer_at h' i) =
        p_outgoingUnreliableCommands (peer_at (unreliable_sent i oc (throttled i oc h)) i)" for oc ocs rest h h'
  proof -
    have "only_peer i h h'"
      by (rule only_peer_trans [OF only_peer_trans [OF only_peer_throttled only_peer_unreliable_sent] conjunct1 [OF that]])
    then show ?thesis using that t [of oc h] u [of oc "throttled i oc h"] by auto
  qed
qed simp_all

interpretation send_unreliable: host_operation enet_protocol_send_unreliable_outgoing_commands
proof
  fix h :: ENetHost and i
  obtain rest h1 where s: "send_unreliable_loop i (p_outgoingUnreliableCommands (peer_at h i)) h = (rest, h1)"
    by (meson surj_pair)
  define h2 where "h2 = upd_peer i (p_outgoingUnreliableCommands_update (\<lambda>_. rest)) h1"
  have l: "only_peer i h h1" "set rest \<subseteq> set (p_outgoingUnreliableCommands (peer_at h1 i))"
    using send_unreliable_loop_only [OF s] by auto
  have o: "only_peer i h h2"
    unfolding h2_def by (rule only_peer_trans [OF l(1) only_peer_queue(2) [OF l(2)]])
  have eq: "enet_protocol_send_unreliable_outgoing_commands i h = h2 \<or>
      enet_protocol_send_unreliable_outgoing_commands i h = disconnect_connected i (p_eventData (peer_at h2 i)) h2"
    by (simp add: enet_protocol_send_unreliable_outgoing_commands_def s Let_def h2_def)
  show "host_ok (enet_protocol_send_unreliable_outgoing_commands i h)" if "host_ok h" "i < length (h_peers h)"
    using eq only_peer_ok [OF o that] that disconnect_connected.keeps by auto
  show "length (h_peers (enet_protocol_send_unreliable_outgoing_commands i h)) = length (h_peers h)"
    using eq only_peer_length [OF o] disconnect_connected.same_peers by auto
qed

lemma check_timeouts_loop_frame:
  "check_timeouts_loop t kept moved ocs p = (r, kept', moved', p') \<Longrightarrow>
   peer_frame p p' \<and> p_outgoingReliableCommands p' = p_outgoingReliableCommands p \<and>
   p_outgoingUnreliableCommands p' = p_outgoingUnreliableCommands p \<and> p_mtu p' = p_mtu p"
proof (induction t kept moved ocs p rule: check_timeouts_loop.induct)
  case (1 t kept moved p)
  then show ?case by simp
next
  case (2 t kept moved oc ocs p)
  define p1 where "p1 = (if p_earliestTimeout p = 0 \<or> ENET_TIME_LESS (oc_sentTime oc) (p_earliestTimeout p)
      then p\<lparr>p_earliestTimeout := oc_sentTime oc\<rparr> else p)"
  define p2 where "p2 = (if oc_packet oc \<noteq> None
      then p1\<lparr>p_reliableDataInTransit := p_reliableDataInTransit p1 - ucast (oc_fragmentLength oc)\<rparr> else p1)"
  define p3 where "p3 = p2\<lparr>p_packetsLost := p_packetsLost p2 + 1\<rparr>"
  define p4 where "p4 = (if kept = [] then case ocs of [] \<Rightarrow> p3
      | next # _ \<Rightarrow> p3\<lparr>p_nextTimeout := oc_sentTime next + oc_roundTripTimeout next\<rparr> else p3)"
  have q1: "p_outgoingReliableCommands p1 = p_outgoingReliableCommands p \<and>
    p_outgoingUnreliableCommands p1 = p_outgoingUnreliableCommands p \<and> p_mtu p1 = p_mtu p"
    by (simp add: p1_def)
  then have q4: "p_outgoingReliableCommands p4 = p_outgoingReliableCommands p \<and>
    p_outgoingUnreliableCommands p4 = p_outgoingUnreliableCommands p \<and> p_mtu p4 = p_mtu p"
    by (simp add: p4_def p3_def p2_def split: list.split)
  have p1: "peer_frame p p1" by (auto simp: p1_def intro: peer_frame_same)
  have "peer_frame p1 p2" by (auto simp: p2_def intro: peer_frame_same)
  moreover have "peer_frame p2 p3" by (simp add: p3_def peer_frame_same)
  moreover have "peer_frame p3 p4" by (auto simp: p4_def intro: peer_frame_same split: list.split)
  ultimately have p4: "peer_frame p p4" using p1 by (blast intro: peer_frame_trans)
  have eq: "check_timeouts_loop t kept moved (oc # ocs) p =
      (if ENET_TIME_DIFFERENCE t (oc_sentTime oc) < oc_roundTripTimeout oc
       then check_timeouts_loop t (kept @ [oc]) moved ocs p
       else if give_up t oc p1 then (True, kept @ oc # ocs, moved, p1)
       else check_timeouts_loop t kept (moved @ [oc\<lparr>oc_roundTripTimeout := oc_roundTripTimeout oc * 2\<rparr>]) ocs p4)"
    unfolding check_timeouts_loop.simps Let_def p4_def p3_def p2_def p1_def by (rule refl)
  show ?case
    using 2(3) 2(1) 2(2) [OF _ p1_def _ p2_def p3_def p4_def] p1 p4 q1 q4
    unfolding eq by (auto split: if_split_asm intro: peer_frame_trans)
qed

lemma check_timeouts_loop_Cons:
  obtains p1 p2 where "check_timeouts_loop t kept moved (oc # ocs) p =
    (if ENET_TIME_DIFFERENCE t (oc_sentTime oc) < oc_roundTripTimeout oc
     then check_timeouts_loop t (kept @ [oc]) moved ocs p
     else if give_up t oc p1 then (True, kept @ oc # ocs, moved, p1)
     else check_timeouts_loop t kept (moved @ [oc\<lparr>oc_roundTripTimeout := oc_roundTripTimeout oc * 2\<rparr>]) ocs p2)"
proof -
  define p1 where "p1 = (if p_earliestTimeout p = 0 \<or> ENET_TIME_LESS (oc_sentTime oc) (p_earliestTimeout p)
      then p\<lparr>p_earliestTimeout := oc_sentTime oc\<rparr> else p)"
  define p2 where "p2 = (if oc_packet oc \<noteq> None
      then p1\<lparr>p_reliableDataInTransit := p_reliableDataInTransit p1 - ucast (oc_fragmentLength oc)\<rparr> else p1)"
  define p3 where "p3 = p2\<lparr>p_packetsLost := p_packetsLost p2 + 1\<rparr>"
  define p4 where "p4 = (if kept = [] then case ocs of [] \<Rightarrow> p3
      | next # _ \<Rightarrow> p3\<lparr>p_nextTimeout := oc_sentTime next + oc_roundTripTimeout next\<rparr> else p3)"
  show thesis
    by (rule that [of p1 p4]) (unfold check_timeouts_loop.simps Let_def p4_def p3_def p2_def p1_def, rule refl)
qed

lemma check_timeouts_loop_set:
  assumes "\<And>oc n. P oc \<Longrightarrow> P (oc\<lparr>oc_roundTripTimeout := n\<rparr>)"
  shows "check_timeouts_loop t kept moved ocs p = (r, kept', moved', p') \<Longrightarrow>
    \<forall>oc\<in>set kept \<union> set moved \<union> set ocs. P oc \<Longrightarrow> \<forall>oc\<in>set kept' \<union> set moved'. P oc"
proof (induction ocs arbitrary: kept moved p)
  case Nil
  then show ?case by simp
next
  case (Cons oc ocs)
  let ?moved = "moved @ [oc\<lparr>oc_roundTripTimeout := oc_roundTripTimeout oc * 2\<rparr>]"
  obtain p1 p2 where eq: "check_timeouts_loop t kept moved (oc # ocs) p =
      (if ENET_TIME_DIFFERENCE t (oc_sentTime oc) < oc_roundTripTimeout oc
       then check_timeouts_loop t (kept @ [oc]) moved ocs p
       else if give_up t oc p1 then (True, kept @ oc # ocs, moved, p1)
       else check_timeouts_loop t kept ?moved ocs p2)"
    by (rule check_timeouts_loop_Cons)
  consider "check_timeouts_loop t (kept @ [oc]) moved ocs p = (r, kept', moved', p')"
    | "kept' = kept @ oc # ocs" "moved' = moved" | "check_timeouts_loop t kept ?moved ocs p2 = (r, kept', moved', p')"
    using Cons.prems(1) unfolding eq by (auto split: if_split_asm)
  then show ?case
  proof cases
    case 1
    show ?thesis by (rule Cons.IH [OF 1]) (use Cons.prems(2) in auto)
  next
    case 2
    show ?thesis unfolding 2 using Cons.prems(2) by auto
  next
    case 3
    have "P oc" using Cons.prems(2) by simp
    from assms [OF this] show ?thesis by (intro Cons.IH [OF 3]) (use Cons.prems(2) in auto)
  qed
qed

lemma check_timeouts_keeps:
  assumes "host_ok h" "i < length (h_peers h)" "enet_protocol_check_timeouts i event h = (r, event', h')"
  shows "host_ok h' \<and> length (h_peers h') = length (h_peers h)"
proof -
  obtain g kept moved p where l: "check_timeouts_loop (h_serviceTime h) [] [] (p_sentReliableCommands (peer_at h i))
      (peer_at h i) = (g, kept, moved, p)" by (metis prod_cases4)
  let ?p = "p\<lparr>p_sentReliableCommands := kept, p_outgoingReliableCommands := moved @ p_outgoingReliableCommands p\<rparr>"
  let ?h = "upd_peer i (\<lambda>_. ?p) h"
  note f = check_timeouts_loop_frame [OF l]
  have "peer_frame (peer_at h i) ?p"
  proof (rule peer_frame_queues [OF refl refl refl])
    show "peer_frame (peer_at h i) (?p\<lparr>p_sentReliableCommands := p_sentReliableCommands (peer_at h i),
        p_outgoingReliableCommands := p_outgoingReliableCommands (peer_at h i),
        p_outgoingUnreliableCommands := p_outgoingUnreliableCommands (peer_at h i)\<rparr>)"
      using f by (auto simp: peer_frame_def peer_ok_defs)
    fix oc assume oc: "oc \<in> set (p_sentReliableCommands ?p) \<union> set (p_outgoingReliableCommands ?p) \<union>
        set (p_outgoingUnreliableCommands ?p)" and ok: "sending_ok (peer_at h i)"
    let ?P = "\<lambda>oc. fits (p_mtu (peer_at h i)) oc \<and> (is_settled (state_at h i) \<or> oc_fragmentLength oc = 0)"
    have P: "?P oc" if "oc \<in> queued_commands (peer_at h i)" for oc using queued_fits [OF ok that] .
    then have "\<forall>oc\<in>set kept \<union> set moved. ?P oc"
      by (intro check_timeouts_loop_set [OF _ l]) (auto simp: fits_def queued_commands_def)
    then show "fits (p_mtu ?p) oc \<and> (is_settled (state_at h i) \<or> oc_fragmentLength oc = 0)"
      using oc f P by (auto simp: queued_commands_def)
  qed
  then have ok: "host_ok ?h" "length (h_peers ?h) = length (h_peers h)"
    using peers_frame_update [of ?h h i ?p] assms(1,2) by (simp_all add: upd_peer_def host_frame_def)
  have "h' = ?h \<or> h' = snd (enet_protocol_notify_disconnect i event ?h)"
    using assms(3) by (auto simp: enet_protocol_check_timeouts_def l Let_def split: if_split_asm prod.split_asm)
  then show ?thesis
    using ok assms(2) notify_disconnect.keeps notify_disconnect.same_peers by auto
qed

lemma start_timeout_keeps [simp]:
  "oc_command (start_timeout t p oc) = oc_command oc" "oc_fragmentLength (start_timeout t p oc) = oc_fragmentLength oc"
  by (simp_all add: start_timeout_def Let_def)

lemma peer_frame_record_sent:
  assumes "oc \<in> queued_commands p"
  shows "peer_frame p (record_sent t oc p)"
proof -
  define p1 where "p1 = (if ucast (channel_of (oc_command oc)) < p_channelCount p \<and> oc_sendAttempts oc < 1
      then upd_channel (unat (channel_of (oc_command oc))) (use_window (oc_reliableSequenceNumber oc)) p else p)"
  have "peer_frame p p1"
    by (auto simp: p1_def use_window_def Let_def intro!: peer_frame_channel)
  moreover have "peer_frame p1 (record_sent t oc p)"
  proof (rule peer_frame_queues [OF refl refl refl])
    show "peer_frame p1 ((record_sent t oc p)\<lparr>p_sentReliableCommands := p_sentReliableCommands p1,
        p_outgoingReliableCommands := p_outgoingReliableCommands p1,
        p_outgoingUnreliableCommands := p_outgoingUnreliableCommands p1\<rparr>)"
      unfolding record_sent_def Let_def p1_def [symmetric] by (rule peer_frame_same) simp_all
    fix oc' assume oc': "oc' \<in> set (p_sentReliableCommands (record_sent t oc p)) \<union>
        set (p_outgoingReliableCommands (record_sent t oc p)) \<union> set (p_outgoingUnreliableCommands (record_sent t oc p))"
      and ok: "sending_ok p1"
    have q: "queued_commands p1 = queued_commands p" by (simp add: p1_def queued_commands_def upd_channel_def)
    have "p_mtu (record_sent t oc p) = p_mtu p1"
      by (simp add: record_sent_def Let_def p1_def upd_channel_def)
    moreover have "oc' \<in> queued_commands p \<or> oc' = start_timeout t p oc"
      using oc' by (auto simp: record_sent_def Let_def queued_commands_def upd_channel_def split: if_split_asm)
    moreover have "fits (p_mtu p1) oc \<and> (is_settled (p_state p1) \<or> oc_fragmentLength oc = 0)"
      using queued_fits [OF ok] assms q by simp
    ultimately show "fits (p_mtu (record_sent t oc p)) oc' \<and> (is_settled (p_state p1) \<or> oc_fragmentLength oc' = 0)"
      using queued_fits [OF ok] q by (auto simp: fits_def)
  qed
  ultimately show ?thesis by (rule peer_frame_trans)
qed

text \<open>The host after a reliable command has been put into the datagram, and an induction over the four
  ways the loop can go on.\<close>

abbreviation (input) reliable_sent :: "nat \<Rightarrow> ENetOutgoingCommand \<Rightarrow> ENetHost \<Rightarrow> ENetHost" where
  "reliable_sent i oc h \<equiv>
     (put_outgoing oc (size_of_command (oc_command oc)) (upd_peer i (record_sent (h_serviceTime h) oc) h))
       \<lparr>h_headerFlags := h_headerFlags (put_outgoing oc (size_of_command (oc_command oc))
          (upd_peer i (record_sent (h_serviceTime h) oc) h)) OR ENET_PROTOCOL_HEADER_FLAG_SENT_TIME\<rparr>"

lemma send_reliable_loop_rule:
  assumes "send_reliable_loop i we ww cp ocs h = (rest, cp', h')"
    and none: "\<And>h. R [] [] h h"
    and keep: "\<And>oc ocs rest h h'. oc_packet oc \<noteq> None \<or> ucast (channel_of (oc_command oc)) < p_channelCount (peer_at h i) \<Longrightarrow>
      R ocs rest h h' \<Longrightarrow> R (oc # ocs) (oc # rest) h h'"
    and full: "\<And>oc ocs h. datagram_full_reliable i oc h \<Longrightarrow> R (oc # ocs) (oc # ocs) h (h\<lparr>h_continueSending := True\<rparr>)"
    and sent: "\<And>oc ocs rest h h'. \<not> datagram_full_reliable i oc h \<Longrightarrow>
      oc_packet oc = None \<or> \<not> transit_exceeded oc (peer_at h i) \<Longrightarrow>
      R ocs rest (reliable_sent i oc h) h' \<Longrightarrow> R (oc # ocs) rest h h'"
  shows "R ocs rest h h'"
proof -
  have "send_reliable_loop j we ww cp ocs h = (rest, cp', h') \<Longrightarrow> j = i \<Longrightarrow> R ocs rest h h'" for j
  proof (induction j we ww cp ocs h arbitrary: rest cp' h' rule: send_reliable_loop.induct)
    case (1 j we ww cp h)
    then show ?case using none by simp
  next
    case (2 j we ww cp oc ocs h)
    have loop: "send_reliable_loop i we ww cp (oc # ocs) h = (rest, cp', h')" using 2(4,5) by simp
    define p where "p = peer_at h i"
    define c where "c = channel_of (oc_command oc)"
    define hc where "hc = (ucast c < p_channelCount p)"
    define ww' where "ww' = (ww \<or> hc \<and> window_blocked oc (channel_at p c))"
    define we' where "we' = (we \<or> oc_packet oc \<noteq> None \<and> transit_exceeded oc p)"
    define h1 where "h1 = put_outgoing oc (size_of_command (oc_command oc)) (upd_peer i (record_sent (h_serviceTime h) oc) h)"
    define h2 where "h2 = h1\<lparr>h_headerFlags := h_headerFlags h1 OR ENET_PROTOCOL_HEADER_FLAG_SENT_TIME\<rparr>"
    have eq: "send_reliable_loop i we ww cp (oc # ocs) h =
        (if hc \<and> ww' then (case send_reliable_loop i we ww' cp ocs h of (rest, cp, h) \<Rightarrow> (oc # rest, cp, h))
         else if oc_packet oc \<noteq> None \<and> we'
         then (case send_reliable_loop i we' ww' cp ocs h of (rest, cp, h) \<Rightarrow> (oc # rest, cp, h))
         else if datagram_full_reliable i oc h then (oc # ocs, False, h\<lparr>h_continueSending := True\<rparr>)
         else send_reliable_loop i we' ww' False ocs h2)"
      unfolding send_reliable_loop.simps Let_def h2_def h1_def we'_def ww'_def hc_def c_def p_def by (rule refl)
    note IH1 = 2(1) [unfolded 2(5), OF p_def c_def hc_def ww'_def _ _ refl]
      and IH2 = 2(2) [unfolded 2(5), OF p_def c_def hc_def ww'_def _ we'_def _ _ refl]
      and IH3 = 2(3) [unfolded 2(5), OF p_def c_def hc_def ww'_def _ we'_def _ _ h1_def h2_def _ refl]
    consider "hc \<and> ww'" | "\<not> (hc \<and> ww')" "oc_packet oc \<noteq> None \<and> we'"
      | "\<not> (hc \<and> ww')" "\<not> (oc_packet oc \<noteq> None \<and> we')" "datagram_full_reliable i oc h"
      | "\<not> (hc \<and> ww')" "\<not> (oc_packet oc \<noteq> None \<and> we')" "\<not> datagram_full_reliable i oc h"
      by blast
    then show ?case
    proof cases
      case 1
      obtain r1 cp1 k where "send_reliable_loop i we ww' cp ocs h = (r1, cp1, k)" by (metis prod_cases3)
      then show ?thesis using loop IH1 [OF 1, of r1 cp1 k] 1 keep [of oc h ocs r1 k] unfolding eq by (auto simp: hc_def c_def p_def)
    next
      case c2: 2
      obtain r1 cp1 k where "send_reliable_loop i we' ww' cp ocs h = (r1, cp1, k)" by (metis prod_cases3)
      then show ?thesis using loop IH2 [OF c2, of r1 cp1 k] c2 keep [of oc h ocs r1 k] unfolding eq by auto
    next
      case 3
      then show ?thesis using loop full [OF 3(3)] unfolding eq by (auto split: if_split_asm)
    next
      case 4
      have "R ocs rest h2 h'" using loop IH3 [OF 4] 4 unfolding eq by auto
      then show ?thesis using sent [OF 4(3)] 4(2) by (auto simp: we'_def p_def h2_def h1_def)
    qed
  qed
  then show ?thesis using assms(1) by blast
qed

lemma only_peer_reliable_sent:
  assumes "oc \<in> set (p_outgoingReliableCommands (peer_at h i))"
  shows "only_peer i h (reliable_sent i oc h)"
proof -
  have "only_peer i h (upd_peer i (record_sent (h_serviceTime h) oc) h)"
    using assms by (intro only_peer_update_at peer_frame_record_sent) (simp add: queued_commands_def)
  then show ?thesis by (rule only_peer_trans [OF only_peer_trans [OF _ only_peer_host(3)] only_peer_host(2)])
qed

lemma send_reliable_loop_only:
  assumes "send_reliable_loop i we ww cp ocs h = (rest, cp', h')"
    "set ocs \<subseteq> set (p_outgoingReliableCommands (peer_at h i))"
  shows "only_peer i h h' \<and> set rest \<subseteq> set ocs \<and>
    p_outgoingReliableCommands (peer_at h' i) = p_outgoingReliableCommands (peer_at h i)"
proof -
  let ?R = "\<lambda>ocs rest h h'. set ocs \<subseteq> set (p_outgoingReliableCommands (peer_at h i)) \<longrightarrow>
    only_peer i h h' \<and> set rest \<subseteq> set ocs \<and>
    p_outgoingReliableCommands (peer_at h' i) = p_outgoingReliableCommands (peer_at h i)"
  have "?R ocs rest h h'"
    using assms(1)
  proof (rule send_reliable_loop_rule [where R = ?R])
    show "?R (oc # ocs) rest h h'" if R: "?R ocs rest (reliable_sent i oc h) h'" for oc ocs rest h h'
    proof
      assume sub: "set (oc # ocs) \<subseteq> set (p_outgoingReliableCommands (peer_at h i))"
      then have o: "only_peer i h (reliable_sent i oc h)" by (intro only_peer_reliable_sent) simp
      have q: "p_outgoingReliableCommands (peer_at (reliable_sent i oc h) i) = p_outgoingReliableCommands (peer_at h i)"
        by (cases "i < length (h_peers h)")
           (simp_all add: record_sent_def Let_def upd_channel_def list_update_beyond)
      then have "set ocs \<subseteq> set (p_outgoingReliableCommands (peer_at (reliable_sent i oc h) i))"
        using sub by (simp only: q) simp
      note R = R [rule_format, OF this]
      then show "only_peer i h h' \<and> set rest \<subseteq> set (oc # ocs) \<and>
          p_outgoingReliableCommands (peer_at h' i) = p_outgoingReliableCommands (peer_at h i)"
        using only_peer_trans [OF o conjunct1 [OF R]] q by auto
    qed
  qed auto
  then show ?thesis using assms(2) by blast
qed

lemma send_reliable_only: "only_peer i h (snd (enet_protocol_send_reliable_outgoing_commands i h))"
proof -
  obtain rest cp h1 where s: "send_reliable_loop i False False True (p_outgoingReliableCommands (peer_at h i)) h = (rest, cp, h1)"
    by (metis prod_cases3)
  have "only_peer i h h1" "set rest \<subseteq> set (p_outgoingReliableCommands (peer_at h1 i))"
    using send_reliable_loop_only [OF s subset_refl] by auto
  then show ?thesis
    using only_peer_trans [OF _ only_peer_queue(3)]
    by (simp add: enet_protocol_send_reliable_outgoing_commands_def s)
qed

interpretation send_reliable: host_operation "\<lambda>i h. snd (enet_protocol_send_reliable_outgoing_commands i h)"
  by unfold_locales (use only_peer_ok [OF send_reliable_only] only_peer_length [OF send_reliable_only] in blast)+

interpretation remove_sent_unreliable: peer_operation enet_protocol_remove_sent_unreliable_commands
  by unfold_locales (simp add: enet_protocol_remove_sent_unreliable_commands_def peer_frame_same)

interpretation start_datagram: host_operation start_datagram
proof
  fix h :: ENetHost and i
  let ?h = "h\<lparr>h_headerFlags := 0, h_commandCount := 0, h_bufferCount := 1, h_packetSize := 4\<rparr>"
  show "host_ok (start_datagram i h)" if "host_ok h" "i < length (h_peers h)"
    using host_ok_same_peers [OF that(1), of ?h] that(2) send_acknowledgements.keeps [of ?h i]
    by (simp add: start_datagram_def Let_def)
  show "length (h_peers (start_datagram i h)) = length (h_peers h)"
    by (simp add: start_datagram_def Let_def send_acknowledgements.same_peers)
qed

interpretation send_or_ping: host_operation send_or_ping
  by unfold_locales
     (simp_all add: send_or_ping_def Let_def split_beta send_reliable.keeps send_reliable.same_peers
       ping.keeps ping.same_peers)

interpretation send_commands: host_operation send_commands
  by unfold_locales
     (simp_all add: send_commands_def Let_def send_or_ping.keeps send_or_ping.same_peers
       send_unreliable.keeps send_unreliable.same_peers)

lemma compress_datagram_frame:
  "compress_datagram h = (n, h') \<Longrightarrow> h_peers h' = h_peers h \<and> host_frame h h'"
  by (auto simp: compress_datagram_def Let_def host_frame_def split: option.split_asm prod.split_asm if_split_asm)

lemma set_buffer_frame: "h_peers (set_buffer n b h) = h_peers h \<and> host_frame h (set_buffer n b h)"
  by (simp add: set_buffer_def host_frame_def)

lemma finish_datagram_frame:
  "finish_datagram i h = (header, h') \<Longrightarrow> h_peers h' = h_peers h \<and> host_frame h h'"
  using compress_datagram_frame set_buffer_frame
  by (auto simp: finish_datagram_def Let_def host_frame_def set_buffer_def
      split: prod.split_asm option.split_asm if_split_asm)

interpretation transmit: host_operation "\<lambda>i h. snd (transmit i h)"
proof
  fix h :: ENetHost and i
  define h1 where "h1 = upd_peer i (update_packetLoss (h_serviceTime h)) h"
  obtain header h2 where f: "finish_datagram i h1 = (header, h2)" by (meson surj_pair)
  define h3 where "h3 = upd_peer i (p_lastSendTime_update (\<lambda>_. h_serviceTime h2)) h2"
  define h4 where "h4 = snd (enet_socket_send (p_address (peer_at h3 i)) header h3)"
  define h5 where "h5 = snd (on_peer i enet_protocol_remove_sent_unreliable_commands h4)"
  have loss: "peer_frame p (update_packetLoss t p)" for t p
    unfolding update_packetLoss_def Let_def by (rule peer_frame_same) simp_all
  have "h_peers (snd (transmit i h)) = h_peers h5 \<and> host_frame h5 (snd (transmit i h))"
    by (simp add: transmit_def Let_def f split_beta host_frame_def flip: h1_def h3_def h4_def h5_def)
  moreover have "length (h_peers h5) = length (h_peers h)"
    using finish_datagram_frame [OF f]
    by (simp add: h5_def h4_def h3_def h1_def remove_sent_unreliable.same_peers enet_socket_send_def Let_def)
  ultimately show "length (h_peers (snd (transmit i h))) = length (h_peers h)" by simp
  assume ok: "host_ok h" "i < length (h_peers h)"
  have "host_ok h1" using ok loss by (simp add: h1_def upd_peer_keeps_same)
  then have "host_ok h2" using finish_datagram_frame [OF f] host_ok_same_peers by blast
  then have "host_ok h3" "i < length (h_peers h3)"
    using ok finish_datagram_frame [OF f]
    by (auto simp: h3_def h1_def intro!: upd_peer_keeps_same peer_frame_same)
  then have "host_ok h4" "i < length (h_peers h4)"
    using host_ok_same_peers [of h3 h4] by (simp_all add: h4_def enet_socket_send_def Let_def)
  then have "host_ok h5" by (simp add: h5_def remove_sent_unreliable.keeps)
  then show "host_ok (snd (transmit i h))" using \<open>h_peers _ = _ \<and> _\<close> host_ok_same_peers by blast
qed

lemma send_to_peer_keeps:
  assumes "host_ok h" "i < length (h_peers h)" "send_to_peer check i event h = (r, event', h')"
  shows "host_ok h' \<and> length (h_peers h') = length (h_peers h)"
proof (cases "state_at h i = ENET_PEER_STATE_DISCONNECTED \<or> state_at h i = ENET_PEER_STATE_ZOMBIE")
  case True
  then show ?thesis using assms by (auto simp: send_to_peer_def)
next
  case False
  define h1 where "h1 = start_datagram i h"
  have h1: "host_ok h1" "length (h_peers h1) = length (h_peers h)"
    using assms(1,2) start_datagram.keeps start_datagram.same_peers by (simp_all add: h1_def)
  obtain b e h2 where t: "(if check \<and> p_sentReliableCommands (peer_at h1 i) \<noteq> [] \<and>
      ENET_TIME_GREATER_EQUAL (h_serviceTime h1) (p_nextTimeout (peer_at h1 i))
      then enet_protocol_check_timeouts i event h1 else (False, event, h1)) = (b, e, h2)"
    by (metis prod_cases3)
  have h2: "host_ok h2 \<and> length (h_peers h2) = length (h_peers h)"
    using t h1 assms(2) check_timeouts_keeps [OF h1(1), of i event] by (auto split: if_split_asm)
  have "h' = h2 \<or> h' = send_commands i h2 \<or> h' = snd (transmit i (send_commands i h2))"
    using assms(3) False unfolding send_to_peer_def Let_def h1_def [symmetric] t
    by (auto simp: split_beta split: bool.split_asm if_split_asm)
  then show ?thesis
    using h2 assms(2) send_commands.keeps send_commands.same_peers transmit.keeps transmit.same_peers by auto
qed

lemma send_to_peers_keeps:
  "host_ok h \<Longrightarrow> \<forall>i\<in>set is. i < length (h_peers h) \<Longrightarrow> send_to_peers check is event h = (r, event', h') \<Longrightarrow>
   host_ok h' \<and> length (h_peers h') = length (h_peers h)"
proof (induction "is" arbitrary: event h)
  case (Cons i "is")
  obtain r1 e1 h1 where s: "send_to_peer check i event h = (r1, e1, h1)" by (metis prod_cases3)
  have h1: "host_ok h1" "length (h_peers h1) = length (h_peers h)"
    using send_to_peer_keeps [OF Cons.prems(1) _ s] Cons.prems(2) by auto
  show ?case
  proof (cases r1)
    case None
    then show ?thesis using Cons.IH [OF h1(1), of e1] Cons.prems s h1(2) by simp
  next
    case (Some a)
    then show ?thesis using Cons.prems s h1 by simp
  qed
qed simp

lemma send_pass_keeps:
  assumes "host_ok h" "send_pass check event h = (r, event', h')"
  shows "host_ok h' \<and> length (h_peers h') = length (h_peers h)"
proof -
  let ?h = "h\<lparr>h_continueSending := False\<rparr>"
  have "host_ok ?h" by (rule host_ok_same_peers [OF assms(1)]) simp_all
  from send_to_peers_keeps [OF this _ assms(2) [unfolded send_pass_def]] show ?thesis by simp
qed

lemma send_loop_keeps:
  assumes "send_loop check event h = Some (r, event', h')"
  shows "host_ok h \<longrightarrow> host_ok h' \<and> length (h_peers h') = length (h_peers h)"
proof -
  have "host_ok h \<longrightarrow> host_ok (snd (snd a)) \<and> length (h_peers (snd (snd a))) = length (h_peers h)"
    if "send_loop check event h = Some a" for a
  proof (rule send_loop.raw_induct [where P = "\<lambda>check event h a. host_ok h \<longrightarrow>
      host_ok (snd (snd a)) \<and> length (h_peers (snd (snd a))) = length (h_peers h)", OF _ that], goal_cases)
    case (1 f check event h a)
    obtain r e k where s: "send_pass check event h = (r, e, k)" by (metis prod_cases3)
    show ?case
    proof (intro impI)
      assume ok: "host_ok h"
      have k: "host_ok k" "length (h_peers k) = length (h_peers h)" using send_pass_keeps [OF ok s] by auto
      show "host_ok (snd (snd a)) \<and> length (h_peers (snd (snd a))) = length (h_peers h)"
      proof (cases "h_continueSending h \<and> r = None")
        case True
        then have "f check e k = Some a" using 1(2) s by simp
        then show ?thesis using 1(1) k by fastforce
      next
        case False
        then have "a = (0, event, h) \<or> snd (snd a) = k" using 1(2) s by (auto split: if_split_asm option.split_asm)
        then show ?thesis using ok k by auto
      qed
    qed
  qed
  from this [OF assms] show ?thesis by simp
qed

lemma send_outgoing_keeps:
  assumes "host_ok h" "enet_protocol_send_outgoing_commands event check h = Some (r, event', h')"
  shows "host_ok h' \<and> length (h_peers h') = length (h_peers h)"
proof -
  have "host_ok (h\<lparr>h_continueSending := True\<rparr>)" by (rule host_ok_same_peers [OF assms(1)]) simp_all
  then show ?thesis using send_loop_keeps [OF assms(2) [unfolded enet_protocol_send_outgoing_commands_def]] by simp
qed

lemma flush_keeps:
  assumes "host_ok h" "enet_host_flush h = Some h'"
  shows "host_ok h' \<and> length (h_peers h') = length (h_peers h)"
proof -
  define h1 where "h1 = (snd (enet_time_get h))\<lparr>h_serviceTime := fst (enet_time_get h)\<rparr>"
  have h1: "host_ok h1" "length (h_peers h1) = length (h_peers h)"
    using host_ok_same_peers [OF assms(1), of h1] by (simp_all add: h1_def enet_time_get_def Let_def host_frame_def)
  obtain r e where "enet_protocol_send_outgoing_commands None False h1 = Some (r, e, h')"
    using assms(2) by (auto simp: enet_host_flush_def h1_def split_beta)
  from send_outgoing_keeps [OF h1(1) this] h1(2) show ?thesis by simp
qed

lemma disconnect_keeps:
  assumes "host_ok h" "i < length (h_peers h)" "enet_peer_disconnect i data h = Some h'"
  shows "host_ok h' \<and> length (h_peers h') = length (h_peers h)"
  using disconnect_with_keeps [OF assms(1,2) flush_keeps assms(3) [unfolded enet_peer_disconnect_def]] .

lemma disconnect_now_keeps:
  assumes "host_ok h" "i < length (h_peers h)" "enet_peer_disconnect_now i data h = Some h'"
  shows "host_ok h' \<and> length (h_peers h') = length (h_peers h)"
proof -
  let ?q = "queue_outgoing i (disconnect_command (ENET_PROTOCOL_COMMAND_FLAG_UNSEQUENCED) data)
      (enet_peer_reset_queues i h)"
  have q: "host_ok ?q" "length (h_peers ?q) = length (h_peers h)"
    using assms(1,2) by (simp_all add: queue_outgoing_keeps reset_queues_keeps)
  have "host_ok k \<and> length (h_peers k) = length (h_peers h)" if "enet_host_flush ?q = Some k" for k
    using flush_keeps [OF q(1) that] q(2) by simp
  then show ?thesis
    using assms reset_keeps by (auto simp: enet_peer_disconnect_now_def Let_def split: if_split_asm)
qed

lemma disconnect_later_state:
  assumes "host_ok h" "i < length (h_peers h)" "is_connected (state_at h i)"
  shows "host_ok (upd_peer i (\<lambda>p. p\<lparr>p_state := ENET_PEER_STATE_DISCONNECT_LATER, p_eventData := data\<rparr>) h)"
proof -
  have ok: "peer_ok (peer_at h i)" "i \<in> set (h_dispatchQueue h) \<longleftrightarrow> p_needsDispatch (peer_at h i)"
    "distinct (h_dispatchQueue h)"
    using assms by (auto simp: host_ok_def)
  show ?thesis
    by (rule host_ok_update [OF assms(1,2), of "(peer_at h i)\<lparr>p_state := ENET_PEER_STATE_DISCONNECT_LATER, p_eventData := data\<rparr>"])
       (use ok assms(3) in \<open>auto simp: upd_peer_def peer_ok_defs is_limited_def\<close>)
qed

lemma disconnect_later_keeps:
  assumes "host_ok h" "i < length (h_peers h)" "enet_peer_disconnect_later i data h = Some h'"
  shows "host_ok h' \<and> length (h_peers h') = length (h_peers h)"
  using assms disconnect_later_state [OF assms(1,2)] disconnect_keeps [OF assms(1,2)]
  by (auto simp: enet_peer_disconnect_later_def Let_def split: if_split_asm)

end
