(* ===== verification/EnetDatagram.thy ===== *)
theory EnetDatagram
  imports EnetSend
begin

text \<open>
  What is put into one datagram (\<^verbatim>\<open>enet/protocol.cpp\<close>): the bounds of the host's two arrays, and the
  size of what reaches the socket compared with the MTU that the peers have agreed on.
\<close>

section \<open>The arrays of a datagram\<close>

text \<open>The state of the datagram being filled, for a peer whose MTU is \<open>M\<close>: the positions are inside the
  arrays, every command buffer refers to a command that has been written, and \<open>packetSize\<close>, which
  counts the largest header, is the total size of the buffers and within the MTU.\<close>

definition buffers_size :: "ENetHost \<Rightarrow> nat" where
  "buffers_size h = sum_list (map (\<lambda>b. unat (buffer_length b)) (tl (used_buffers h)))"

definition filled :: "u32 \<Rightarrow> ENetHost \<Rightarrow> bool" where
  "filled M h \<longleftrightarrow>
     length (h_commands h) = ENET_PROTOCOL_MAXIMUM_PACKET_COMMANDS \<and>
     length (h_buffers h) = ENET_BUFFER_MAXIMUM \<and>
     h_commandCount h \<le> ENET_PROTOCOL_MAXIMUM_PACKET_COMMANDS \<and>
     1 \<le> h_bufferCount h \<and> h_bufferCount h \<le> ENET_BUFFER_MAXIMUM \<and>
     (\<forall>n len. CommandBuffer n len \<in> set (tl (used_buffers h)) \<longrightarrow> n < h_commandCount h) \<and>
     unat (h_packetSize h) = 4 + buffers_size h \<and> unat (h_packetSize h) \<le> unat M"

lemma used_buffers_put:
  assumes "1 \<le> n" "n < length bs"
  shows "tl (take (Suc n) (bs[n := b])) = tl (take n bs) @ [b]"
proof -
  have "take (Suc n) (bs[n := b]) = take n bs @ [b]" using assms(2) by (simp add: take_Suc_conv_app_nth)
  moreover have "take n bs \<noteq> []" using assms by (cases bs) auto
  ultimately show ?thesis by (cases "take n bs") auto
qed

lemma unat_add_within:
  "unat (a :: size_t) + unat b \<le> unat (M :: u32) \<Longrightarrow> unat (a + b) = unat a + unat b"
proof -
  assume "unat a + unat b \<le> unat M"
  moreover have "unat M < 2 ^ 32" using unsigned_less [of M, where 'a = nat] by simp
  ultimately show ?thesis by (simp add: unat_word_ariths(1))
qed

lemma filled_put_command:
  assumes "filled M h" "h_commandCount h < ENET_PROTOCOL_MAXIMUM_PACKET_COMMANDS"
    "h_bufferCount h < ENET_BUFFER_MAXIMUM" "unat (h_packetSize h) + unat len \<le> unat M"
  shows "filled M (put_command c len h)"
proof -
  have "tl (used_buffers (put_command c len h)) = tl (used_buffers h) @ [CommandBuffer (h_commandCount h) len]"
    using assms by (simp add: used_buffers_def put_command_def filled_def used_buffers_put)
  moreover have "unat (h_packetSize h + len) = unat (h_packetSize h) + unat len"
    using assms(4) by (rule unat_add_within)
  ultimately show ?thesis
    using assms by (auto simp: filled_def buffers_size_def put_command_def less_Suc_eq)
qed

lemma filled_put_packet:
  assumes "filled M h" "h_bufferCount h < ENET_BUFFER_MAXIMUM" "unat (h_packetSize h) + unat len \<le> unat M"
  shows "filled M (put_packet k off len h)"
proof -
  have "tl (used_buffers (put_packet k off len h)) =
      tl (used_buffers h) @ [PacketBuffer k (unat off) (ucast len)]"
    using assms by (simp add: used_buffers_def put_packet_def filled_def used_buffers_put)
  moreover have "unat (h_packetSize h + ucast len) = unat (h_packetSize h) + unat len"
    using unat_add_within [of "h_packetSize h" "ucast len" M] assms(3) by simp
  ultimately show ?thesis
    using assms by (auto simp: filled_def buffers_size_def put_packet_def)
qed

lemma filled_put_outgoing:
  assumes "filled M h" "h_commandCount h < ENET_PROTOCOL_MAXIMUM_PACKET_COMMANDS"
    "h_bufferCount h + 1 < ENET_BUFFER_MAXIMUM" "unat (h_packetSize h) + unat len \<le> unat M"
    "oc_packet oc \<noteq> None \<longrightarrow> unat (h_packetSize h) + unat len + unat (oc_fragmentLength oc) \<le> unat M"
  shows "filled M (put_outgoing oc len h)"
proof -
  have c: "filled M (put_command (oc_command oc) len h)"
    using assms by (intro filled_put_command) simp_all
  moreover have "h_bufferCount (put_command (oc_command oc) len h) = Suc (h_bufferCount h)"
    "unat (h_packetSize (put_command (oc_command oc) len h)) = unat (h_packetSize h) + unat len"
    using unat_add_within [OF assms(4)] by (simp_all add: put_command_def)
  ultimately show ?thesis
    using assms(3,5) by (auto simp: put_outgoing_def Let_def intro!: filled_put_packet split: option.split)
qed

text \<open>What the space left says.\<close>

lemma space_left_less:
  assumes "filled M h" "p_mtu (peer_at h i) = M" "\<not> space_left i h < len"
  shows "unat (h_packetSize h) + unat len \<le> unat M"
proof -
  have "unat (h_packetSize h) \<le> unat M" using assms(1) by (simp add: filled_def)
  then have "unat (space_left i h) = unat M - unat (h_packetSize h)"
    using assms(2) by (simp add: space_left_def unat_sub word_le_nat_alt)
  then show ?thesis
    using assms(3) \<open>unat (h_packetSize h) \<le> unat M\<close> by (simp add: word_less_nat_alt)
qed

text \<open>A command as the program queues it: its number is one of the protocol's, and its length and that of
  its data do not overflow 16 bits together.\<close>

definition transmittable :: "ENetOutgoingCommand \<Rightarrow> bool" where
  "transmittable oc \<longleftrightarrow> number_of (oc_command oc) < ENET_PROTOCOL_COMMAND_COUNT \<and> unat (oc_fragmentLength oc) \<le> 65487"

lemma unat_size_of_command:
  assumes "number_of c < ENET_PROTOCOL_COMMAND_COUNT"
  shows "unat (size_of_command c) \<le> 48"
proof -
  have "unat (number_of c) < 13" using assms by (simp add: word_less_nat_alt)
  then have "commandSizes ! unat (number_of c) \<le> 48"
    by (auto simp: commandSizes_def less_Suc_eq numeral_eq_Suc)
  then show ?thesis by (simp add: size_of_command_def unsigned_of_nat take_bit_nat_eq_self)
qed

lemma size_and_length:
  assumes "transmittable oc"
  shows "unat (size_of_command (oc_command oc) + ucast (oc_fragmentLength oc) :: size_t) =
    unat (size_of_command (oc_command oc)) + unat (oc_fragmentLength oc)"
  using unat_size_of_command [of "oc_command oc"] assms
  by (simp add: transmittable_def unat_word_ariths(1))

lemma fits_unreliable:
  assumes "filled M h" "p_mtu (peer_at h i) = M" "transmittable oc" "\<not> datagram_full_unreliable i oc h"
  shows "filled M (put_outgoing oc (size_of_command (oc_command oc)) h)"
  using assms(1)
proof (rule filled_put_outgoing)
  show "unat (h_packetSize h) + unat (size_of_command (oc_command oc)) \<le> unat M"
    using space_left_less [OF assms(1,2)] assms(4) by (simp add: datagram_full_unreliable_def Let_def)
  show "oc_packet oc \<noteq> None \<longrightarrow>
      unat (h_packetSize h) + unat (size_of_command (oc_command oc)) + unat (oc_fragmentLength oc) \<le> unat M"
    using space_left_less [OF assms(1,2), of "size_of_command (oc_command oc) + ucast (oc_fragmentLength oc)"]
      assms(4) size_and_length [OF assms(3)]
    by (auto simp: datagram_full_unreliable_def Let_def)
qed (use assms(4) in \<open>auto simp: datagram_full_unreliable_def Let_def\<close>)

lemma fits_reliable:
  assumes "filled M h" "p_mtu (peer_at h i) = M" "M \<le> ENET_PROTOCOL_MAXIMUM_MTU" "transmittable oc"
    "\<not> datagram_full_reliable i oc h"
  shows "filled M (put_outgoing oc (size_of_command (oc_command oc)) h)"
  using assms(1)
proof (rule filled_put_outgoing)
  have le: "unat (h_packetSize h) \<le> unat M" "unat M \<le> 4096"
    using assms(1,3) by (simp_all add: filled_def word_le_nat_alt)
  then have space: "unat (space_left i h) = unat M - unat (h_packetSize h)"
    using assms(2) by (simp add: space_left_def unat_sub word_le_nat_alt)
  have "unat (ucast (space_left i h) :: u16) = unat M - unat (h_packetSize h)"
    using le space by (simp add: unsigned_ucast_eq take_bit_nat_eq_self)
  moreover have "unat (ucast (size_of_command (oc_command oc) + ucast (oc_fragmentLength oc) :: size_t) :: u16) =
      unat (size_of_command (oc_command oc)) + unat (oc_fragmentLength oc)"
    using size_and_length [OF assms(4)] unat_size_of_command [of "oc_command oc"] assms(4)
    by (simp add: unsigned_ucast_eq take_bit_nat_eq_self transmittable_def)
  ultimately show "oc_packet oc \<noteq> None \<longrightarrow>
      unat (h_packetSize h) + unat (size_of_command (oc_command oc)) + unat (oc_fragmentLength oc) \<le> unat M"
    using assms(5) le by (auto simp: datagram_full_reliable_def Let_def word_less_nat_alt)
  show "unat (h_packetSize h) + unat (size_of_command (oc_command oc)) \<le> unat M"
    using space_left_less [OF assms(1,2)] assms(5) by (simp add: datagram_full_reliable_def Let_def)
qed (use assms(5) in \<open>auto simp: datagram_full_reliable_def Let_def\<close>)

text \<open>What the filling does not depend on.\<close>

lemma filled_upd_peer [simp]: "filled M (upd_peer i f h) = filled M h"
  by (simp add: filled_def buffers_size_def used_buffers_def upd_peer_def)

lemma filled_fields [simp]:
  "filled M (h\<lparr>h_continueSending := b\<rparr>) = filled M h" "filled M (h\<lparr>h_headerFlags := w\<rparr>) = filled M h"
  "filled M (h\<lparr>h_heap := hp\<rparr>) = filled M h" "filled M (h\<lparr>h_dispatchQueue := q\<rparr>) = filled M h"
  "filled M (h\<lparr>h_connectedPeers := n\<rparr>) = filled M h" "filled M (h\<lparr>h_bandwidthLimitedPeers := n\<rparr>) = filled M h"
  by (simp_all add: filled_def buffers_size_def used_buffers_def)

lemma filled_release_all [simp]: "filled M (release_all ocs h) = filled M h"
  by (simp add: release_all_def)

lemma filled_dispatch_state [simp]: "filled M (enet_protocol_dispatch_state i s h) = filled M h"
  by (simp add: enet_protocol_dispatch_state_def enet_needs_dispatch_def enet_protocol_change_state_def
      enet_peer_on_connect_def enet_peer_on_disconnect_def Let_def)

lemma filled_on_peer [simp]: "filled M (snd (on_peer i f h)) = filled M h"
  by (simp add: on_peer_def split_beta)

lemma filled_disconnect_connected [simp]: "filled M (disconnect_connected i data h) = filled M h"
  by (simp add: disconnect_connected_def enet_peer_reset_queues_def queue_outgoing_def
      enet_peer_on_disconnect_def Let_def)

text \<open>The MTU of the peer stays.\<close>

abbreviation (input) mtu_at :: "ENetHost \<Rightarrow> nat \<Rightarrow> u32" where
  "mtu_at h i \<equiv> p_mtu (peer_at h i)"

lemma mtu_upd_peer: "(\<And>p. p_mtu (f p) = p_mtu p) \<Longrightarrow> mtu_at (upd_peer i f h) i = mtu_at h i"
  by (cases "i < length (h_peers h)") (simp_all add: upd_peer_def list_update_beyond)

lemma mtu_dispatch_state: "mtu_at (enet_protocol_dispatch_state i s h) i = mtu_at h i"
  by (simp add: enet_protocol_dispatch_state_def enet_needs_dispatch_def enet_protocol_change_state_def
      enet_peer_on_connect_def enet_peer_on_disconnect_def Let_def mtu_upd_peer del: peers_upd_peer)

lemma mtu_throttle_packet [simp]: "p_mtu (snd (throttle_packet p)) = p_mtu p"
  by (simp add: throttle_packet_def Let_def)

lemmas mtu_throttle = mtu_upd_peer [of "\<lambda>p. snd (throttle_packet p)", OF mtu_throttle_packet]

lemma datagram_full_upd_peer:
  "datagram_full_unreliable i oc (upd_peer i (\<lambda>p. snd (throttle_packet p)) h) = datagram_full_unreliable i oc h"
proof -
  have "space_left i (upd_peer i (\<lambda>p. snd (throttle_packet p)) h) = space_left i h"
    unfolding space_left_def mtu_throttle by (simp add: upd_peer_def)
  then show ?thesis by (simp add: datagram_full_unreliable_def Let_def)
qed

section \<open>Filling stays within the limits\<close>

lemma send_acknowledgements_filled:
  "filled M h \<Longrightarrow> mtu_at h i = M \<Longrightarrow> send_acknowledgements_loop i acks h = (rest, h') \<Longrightarrow>
   filled M h' \<and> mtu_at h' i = M"
proof (induction acks arbitrary: h)
  case (Cons ack acks)
  show ?case
  proof (cases "h_commandCount h \<ge> ENET_PROTOCOL_MAXIMUM_PACKET_COMMANDS \<or> h_bufferCount h \<ge> ENET_BUFFER_MAXIMUM \<or>
         space_left i h < 8")
    case True
    then show ?thesis using Cons.prems by auto
  next
    case False
    define h1 where "h1 = put_command (acknowledge_protocol ack) 8 h"
    define h2 where "h2 = (if number_of (ak_command ack) = ENET_PROTOCOL_COMMAND_DISCONNECT
        then enet_protocol_dispatch_state i ENET_PEER_STATE_ZOMBIE h1 else h1)"
    have "filled M h1" "mtu_at h1 i = M"
      using Cons.prems(1,2) False space_left_less [OF Cons.prems(1,2), of 8]
      by (simp_all add: h1_def filled_put_command)
    then have "filled M h2" "mtu_at h2 i = M" by (simp_all add: h2_def mtu_dispatch_state)
    moreover have "send_acknowledgements_loop i acks h2 = (rest, h')"
      using Cons.prems(3) False unfolding send_acknowledgements_loop.simps h2_def h1_def Let_def by argo
    ultimately show ?thesis using Cons.IH by blast
  qed
qed simp

lemma start_datagram_filled:
  assumes "length (h_commands h) = ENET_PROTOCOL_MAXIMUM_PACKET_COMMANDS"
    "length (h_buffers h) = ENET_BUFFER_MAXIMUM" "4 \<le> mtu_at h i"
  shows "filled (mtu_at h i) (start_datagram i h)" "mtu_at (start_datagram i h) i = mtu_at h i"
proof -
  let ?h = "h\<lparr>h_headerFlags := 0, h_commandCount := 0, h_bufferCount := 1, h_packetSize := 4\<rparr>"
  have "filled (mtu_at h i) ?h"
    using assms by (simp add: filled_def buffers_size_def used_buffers_def word_le_nat_alt take_Suc tl_take)
  moreover obtain acks k where l: "send_acknowledgements_loop i (p_acknowledgements (peer_at h i)) ?h = (acks, k)"
    by (meson surj_pair)
  ultimately have k: "filled (mtu_at h i) k" "mtu_at k i = mtu_at h i"
    using send_acknowledgements_filled [of "mtu_at h i" ?h i, OF _ _ l] by simp_all
  have eq: "start_datagram i h = ?h \<or> start_datagram i h = upd_peer i (p_acknowledgements_update (\<lambda>_. acks)) k"
    using l by (simp add: start_datagram_def enet_protocol_send_acknowledgements_def Let_def)
  then show "filled (mtu_at h i) (start_datagram i h)" using \<open>filled _ ?h\<close> k(1) by auto
  show "mtu_at (start_datagram i h) i = mtu_at h i"
    using eq k(2) by (auto simp: mtu_upd_peer simp del: peers_upd_peer)
qed

lemma throttled_filled:
  assumes "filled M h" "mtu_at h i = M"
  shows "filled M (throttled i oc h)" "mtu_at (throttled i oc h) i = M"
    "datagram_full_unreliable i oc (throttled i oc h) = datagram_full_unreliable i oc h"
proof -
  have "throttled i oc h = h \<or> throttled i oc h = upd_peer i (\<lambda>p. snd (throttle_packet p)) h"
    by (simp add: upd_peer_def)
  then show "filled M (throttled i oc h)" "mtu_at (throttled i oc h) i = M"
    "datagram_full_unreliable i oc (throttled i oc h) = datagram_full_unreliable i oc h"
    using assms by (auto simp: mtu_throttle datagram_full_upd_peer simp del: peers_upd_peer)
qed

lemma unreliable_sent_filled:
  assumes "filled M h" "mtu_at h i = M" "transmittable oc" "\<not> datagram_full_unreliable i oc h"
  shows "filled M (unreliable_sent i oc h)" "mtu_at (unreliable_sent i oc h) i = M"
  using fits_unreliable [OF assms] assms(2) by (simp_all add: mtu_upd_peer del: peers_upd_peer)

lemma send_unreliable_filled:
  assumes "filled M h" "mtu_at h i = M" "\<forall>oc\<in>set ocs. transmittable oc" "send_unreliable_loop i ocs h = (rest, h')"
  shows "filled M h' \<and> mtu_at h' i = M"
proof -
  let ?R = "\<lambda>ocs rest h h'. filled M h \<longrightarrow> mtu_at h i = M \<longrightarrow> (\<forall>oc\<in>set ocs. transmittable oc) \<longrightarrow>
      filled M h' \<and> mtu_at h' i = M"
  have "?R ocs rest h h'"
    using assms(4)
  proof (rule send_unreliable_loop_rule [where R = ?R])
    fix oc ocs rest h h'
    show "?R (oc # ocs) rest h h'"
      if "?R (dropWhile (same_numbers oc) ocs) rest (release_all (oc # takeWhile (same_numbers oc) ocs) (throttled i oc h)) h'"
      using that throttled_filled(1,2) [of M h i oc] by (auto simp del: peers_upd_peer dest: set_dropWhileD)
    show "?R (oc # ocs) rest h h'"
      if "\<not> datagram_full_unreliable i oc h" "?R ocs rest (unreliable_sent i oc (throttled i oc h)) h'"
    proof (intro impI)
      assume h: "filled M h" "mtu_at h i = M" "\<forall>oc\<in>set (oc # ocs). transmittable oc"
      note t = throttled_filled [OF h(1,2), of oc]
      show "filled M h' \<and> mtu_at h' i = M"
        using that unreliable_sent_filled [OF t(1,2)] t(3) h(3) by simp
    qed
  qed auto
  then show ?thesis using assms(1-3) by blast
qed

lemma mtu_record_sent [simp]: "p_mtu (record_sent t oc p) = p_mtu p"
  by (simp add: record_sent_def Let_def upd_channel_def)

lemma reliable_sent_filled:
  assumes "filled M h" "mtu_at h i = M" "M \<le> ENET_PROTOCOL_MAXIMUM_MTU" "transmittable oc" "\<not> datagram_full_reliable i oc h"
  shows "filled M (reliable_sent i oc h)" "mtu_at (reliable_sent i oc h) i = M"
proof -
  let ?g = "upd_peer i (record_sent (h_serviceTime h) oc) h"
  have m: "mtu_at ?g i = mtu_at h i" by (rule mtu_upd_peer) simp
  then have "space_left i ?g = space_left i h" by (simp add: space_left_def upd_peer_def)
  then have "\<not> datagram_full_reliable i oc ?g" using assms(5) by (simp add: datagram_full_reliable_def Let_def)
  then have "filled M (put_outgoing oc (size_of_command (oc_command oc)) ?g)"
    using fits_reliable [of M ?g i oc] m assms(1-4) by simp
  then show "filled M (reliable_sent i oc h)" by simp
  show "mtu_at (reliable_sent i oc h) i = M" using m assms(2) by simp
qed

lemma send_reliable_filled:
  assumes "filled M h" "mtu_at h i = M" "M \<le> ENET_PROTOCOL_MAXIMUM_MTU" "\<forall>oc\<in>set ocs. transmittable oc"
    "send_reliable_loop i we ww cp ocs h = (rest, cp', h')"
  shows "filled M h' \<and> mtu_at h' i = M \<and> set rest \<subseteq> set ocs"
proof -
  let ?R = "\<lambda>ocs rest h h'. filled M h \<longrightarrow> mtu_at h i = M \<longrightarrow> (\<forall>oc\<in>set ocs. transmittable oc) \<longrightarrow>
      filled M h' \<and> mtu_at h' i = M \<and> set rest \<subseteq> set ocs"
  have "?R ocs rest h h'"
    using assms(5)
  proof (rule send_reliable_loop_rule [where R = ?R])
    show "?R (oc # ocs) rest h h'"
      if "\<not> datagram_full_reliable i oc h" "?R ocs rest (reliable_sent i oc h) h'" for oc ocs rest h h'
      using that(2) reliable_sent_filled [OF _ _ assms(3) _ that(1)] by auto
  qed auto
  then show ?thesis using assms(1,2,4) by blast
qed

lemma send_reliable_loop_unreliable:
  "send_reliable_loop i we ww cp ocs h = (rest, cp', h') \<Longrightarrow> i < length (h_peers h) \<Longrightarrow>
   p_outgoingUnreliableCommands (peer_at h' i) = p_outgoingUnreliableCommands (peer_at h i)"
proof (induction ocs arbitrary: we ww cp h rest cp' h')
  case (Cons oc ocs)
  have "p_outgoingUnreliableCommands (record_sent t oc p) = p_outgoingUnreliableCommands p" for t p
    by (simp add: record_sent_def Let_def upd_channel_def)
  then show ?case
    using Cons by (fastforce simp: Let_def split: if_split_asm prod.split_asm)
qed simp

lemma send_reliable_commands_filled:
  assumes "filled M h" "mtu_at h i = M" "M \<le> ENET_PROTOCOL_MAXIMUM_MTU" "i < length (h_peers h)"
    "\<forall>oc\<in>set (p_outgoingReliableCommands (peer_at h i)). transmittable oc"
  shows "filled M (snd (enet_protocol_send_reliable_outgoing_commands i h))"
    "mtu_at (snd (enet_protocol_send_reliable_outgoing_commands i h)) i = M"
    "\<forall>oc\<in>set (p_outgoingReliableCommands (peer_at (snd (enet_protocol_send_reliable_outgoing_commands i h)) i)). transmittable oc"
    "p_outgoingUnreliableCommands (peer_at (snd (enet_protocol_send_reliable_outgoing_commands i h)) i) =
     p_outgoingUnreliableCommands (peer_at h i)"
proof -
  obtain rest cp h1 where s: "send_reliable_loop i False False True (p_outgoingReliableCommands (peer_at h i)) h = (rest, cp, h1)"
    by (metis prod_cases3)
  have f: "filled M h1 \<and> mtu_at h1 i = M \<and> set rest \<subseteq> set (p_outgoingReliableCommands (peer_at h i))"
    using send_reliable_filled [OF assms(1-3,5) s] .
  have "length (h_peers h1) = length (h_peers h)" using only_peer_length [OF conjunct1 [OF send_reliable_loop_only [OF s subset_refl]]] .
  moreover have "p_outgoingUnreliableCommands (peer_at h1 i) = p_outgoingUnreliableCommands (peer_at h i)"
    using s assms(4) by (rule send_reliable_loop_unreliable)
  ultimately show "filled M (snd (enet_protocol_send_reliable_outgoing_commands i h))"
    "mtu_at (snd (enet_protocol_send_reliable_outgoing_commands i h)) i = M"
    "\<forall>oc\<in>set (p_outgoingReliableCommands (peer_at (snd (enet_protocol_send_reliable_outgoing_commands i h)) i)). transmittable oc"
    "p_outgoingUnreliableCommands (peer_at (snd (enet_protocol_send_reliable_outgoing_commands i h)) i) =
     p_outgoingUnreliableCommands (peer_at h i)"
    using f assms(4,5) by (auto simp: enet_protocol_send_reliable_outgoing_commands_def s)
qed

lemma send_acknowledgements_queues:
  "send_acknowledgements_loop i acks h = (rest, h') \<Longrightarrow> i < length (h_peers h) \<Longrightarrow>
   p_outgoingReliableCommands (peer_at h' i) = p_outgoingReliableCommands (peer_at h i) \<and>
   p_outgoingUnreliableCommands (peer_at h' i) = p_outgoingUnreliableCommands (peer_at h i) \<and>
   length (h_peers h') = length (h_peers h)"
proof (induction acks arbitrary: h)
  case (Cons ack acks)
  have q: "p_outgoingReliableCommands (peer_at (enet_protocol_dispatch_state i s g) i) = p_outgoingReliableCommands (peer_at g i) \<and>
      p_outgoingUnreliableCommands (peer_at (enet_protocol_dispatch_state i s g) i) = p_outgoingUnreliableCommands (peer_at g i)"
    if "i < length (h_peers g)" for s g
    using that
    by (simp add: enet_protocol_dispatch_state_def enet_needs_dispatch_def enet_protocol_change_state_def
        enet_peer_on_connect_def enet_peer_on_disconnect_def Let_def)
  then show ?case using Cons by (fastforce simp: Let_def split: if_split_asm)
qed simp

lemma start_datagram_queues:
  assumes "i < length (h_peers h)"
  shows "p_outgoingReliableCommands (peer_at (start_datagram i h) i) = p_outgoingReliableCommands (peer_at h i)"
    "p_outgoingUnreliableCommands (peer_at (start_datagram i h) i) = p_outgoingUnreliableCommands (peer_at h i)"
proof -
  let ?h = "h\<lparr>h_headerFlags := 0, h_commandCount := 0, h_bufferCount := 1, h_packetSize := 4\<rparr>"
  obtain acks k where l: "send_acknowledgements_loop i (p_acknowledgements (peer_at h i)) ?h = (acks, k)"
    by (meson surj_pair)
  have k: "p_outgoingReliableCommands (peer_at k i) = p_outgoingReliableCommands (peer_at h i)"
    "p_outgoingUnreliableCommands (peer_at k i) = p_outgoingUnreliableCommands (peer_at h i)"
    "length (h_peers k) = length (h_peers h)"
    using send_acknowledgements_queues [OF l] assms by auto
  have eq: "start_datagram i h = ?h \<or> start_datagram i h = upd_peer i (p_acknowledgements_update (\<lambda>_. acks)) k"
    using l by (simp add: start_datagram_def enet_protocol_send_acknowledgements_def Let_def)
  then show "p_outgoingReliableCommands (peer_at (start_datagram i h) i) = p_outgoingReliableCommands (peer_at h i)"
    "p_outgoingUnreliableCommands (peer_at (start_datagram i h) i) = p_outgoingUnreliableCommands (peer_at h i)"
    using k assms by auto
qed

lemma prepare_outgoing_sendable:
  "transmittable oc \<Longrightarrow> transmittable (snd (prepare_outgoing p oc))"
  by (auto simp: prepare_outgoing_def number_outgoing_def transmittable_def Let_def)

lemma ping_queues:
  assumes "i < length (h_peers h)" "\<forall>oc\<in>set (p_outgoingReliableCommands (peer_at h i)). transmittable oc"
  shows "\<forall>oc\<in>set (p_outgoingReliableCommands (peer_at (snd (on_peer i enet_peer_ping h)) i)). transmittable oc"
    "p_outgoingUnreliableCommands (peer_at (snd (on_peer i enet_peer_ping h)) i) = p_outgoingUnreliableCommands (peer_at h i)"
    "mtu_at (snd (on_peer i enet_peer_ping h)) i = mtu_at h i"
proof -
  let ?p = "peer_at h i"
  define oc where "oc = new_outgoing (make_command (ENET_PROTOCOL_COMMAND_PING OR ENET_PROTOCOL_COMMAND_FLAG_ACKNOWLEDGE)
      0xFF Ping) None 0 0"
  obtain q oc' where pr: "prepare_outgoing ?p oc = (q, oc')" by (meson surj_pair)
  have oc': "transmittable oc'"
    using prepare_outgoing_sendable [of oc ?p] pr by (simp add: oc_def new_outgoing_def make_command_def transmittable_def)
  have q: "p_outgoingReliableCommands q = p_outgoingReliableCommands ?p"
    "p_outgoingUnreliableCommands q = p_outgoingUnreliableCommands ?p" "p_mtu q = p_mtu ?p"
    "command_of (oc_command oc') AND ENET_PROTOCOL_COMMAND_FLAG_ACKNOWLEDGE \<noteq> 0"
    using pr by (auto simp: prepare_outgoing_def number_outgoing_def Let_def oc_def new_outgoing_def make_command_def)
  have "snd (snd (enet_peer_ping hp ?p)) = ?p \<or>
      snd (snd (enet_peer_ping hp ?p)) = enet_peer_setup_outgoing_command ?p oc" for hp
    by (auto simp: enet_peer_ping_def enet_peer_queue_outgoing_command_def oc_def split_beta)
  then have "snd (snd (enet_peer_ping hp ?p)) = ?p \<or>
      snd (snd (enet_peer_ping hp ?p)) = q\<lparr>p_outgoingReliableCommands := p_outgoingReliableCommands q @ [oc']\<rparr>" for hp
    using q(4) by (simp add: enet_peer_setup_outgoing_command_def pr)
  moreover have "peer_at (snd (on_peer i enet_peer_ping h)) i = snd (snd (enet_peer_ping (h_heap h) ?p))"
    using assms(1) by (simp add: on_peer_def split_beta)
  ultimately have "peer_at (snd (on_peer i enet_peer_ping h)) i = ?p \<or>
      peer_at (snd (on_peer i enet_peer_ping h)) i = q\<lparr>p_outgoingReliableCommands := p_outgoingReliableCommands q @ [oc']\<rparr>"
    by metis
  then show "\<forall>oc\<in>set (p_outgoingReliableCommands (peer_at (snd (on_peer i enet_peer_ping h)) i)). transmittable oc"
    "p_outgoingUnreliableCommands (peer_at (snd (on_peer i enet_peer_ping h)) i) = p_outgoingUnreliableCommands ?p"
    "mtu_at (snd (on_peer i enet_peer_ping h)) i = mtu_at h i"
    using assms(2) oc' q(1-3) by auto
qed

lemma send_or_ping_filled:
  assumes "filled M h" "mtu_at h i = M" "M \<le> ENET_PROTOCOL_MAXIMUM_MTU" "i < length (h_peers h)"
    "\<forall>oc\<in>set (p_outgoingReliableCommands (peer_at h i)). transmittable oc"
  shows "filled M (send_or_ping i h) \<and> mtu_at (send_or_ping i h) i = M \<and>
    p_outgoingUnreliableCommands (peer_at (send_or_ping i h) i) = p_outgoingUnreliableCommands (peer_at h i)"
proof -
  define h1 where "h1 = (if p_outgoingReliableCommands (peer_at h i) = [] then h
      else snd (enet_protocol_send_reliable_outgoing_commands i h))"
  define h2 where "h2 = snd (on_peer i enet_peer_ping h1)"
  have h1: "filled M h1" "mtu_at h1 i = M" "i < length (h_peers h1)"
    "\<forall>oc\<in>set (p_outgoingReliableCommands (peer_at h1 i)). transmittable oc"
    "p_outgoingUnreliableCommands (peer_at h1 i) = p_outgoingUnreliableCommands (peer_at h i)"
    using assms send_reliable_commands_filled [OF assms] send_reliable.same_peers by (simp_all add: h1_def)
  have h2: "filled M h2" "mtu_at h2 i = M" "i < length (h_peers h2)"
    "\<forall>oc\<in>set (p_outgoingReliableCommands (peer_at h2 i)). transmittable oc"
    "p_outgoingUnreliableCommands (peer_at h2 i) = p_outgoingUnreliableCommands (peer_at h i)"
    using h1 ping_queues [OF h1(3,4)] ping.same_peers by (simp_all add: h2_def)
  have "send_or_ping i h = h1 \<or> send_or_ping i h = snd (enet_protocol_send_reliable_outgoing_commands i h2)"
    by (auto simp: send_or_ping_def h1_def h2_def Let_def split_beta)
  then show ?thesis
    using h1 send_reliable_commands_filled [OF h2(1,2) assms(3) h2(3,4)] h2(5) by auto
qed

lemma mtu_setup_outgoing [simp]: "p_mtu (enet_peer_setup_outgoing_command p oc) = p_mtu p"
  by (auto simp: enet_peer_setup_outgoing_command_def prepare_outgoing_def number_outgoing_def Let_def
      upd_channel_def split: prod.splits)

lemma mtu_on_peer:
  assumes "\<And>hp p. p_mtu (snd (snd (f hp p))) = p_mtu p"
  shows "mtu_at (snd (on_peer i f h)) i = mtu_at h i"
proof -
  obtain r hp p where f: "f (h_heap h) (peer_at h i) = (r, hp, p)" by (metis prod_cases3)
  then have "p_mtu p = mtu_at h i" using assms [of "h_heap h" "peer_at h i"] by simp
  then show ?thesis
    by (cases "i < length (h_peers h)") (simp_all add: on_peer_def f list_update_beyond)
qed

lemma mtu_reset_queues: "mtu_at (enet_peer_reset_queues i h) i = mtu_at h i"
  by (simp add: enet_peer_reset_queues_def Let_def mtu_upd_peer del: peers_upd_peer)

lemma mtu_queue_outgoing: "mtu_at (queue_outgoing i c h) i = mtu_at h i"
  unfolding queue_outgoing_def
  by (rule mtu_on_peer) (simp add: enet_peer_queue_outgoing_command_def split_beta)

lemma mtu_disconnect_connected: "mtu_at (disconnect_connected i data h) i = mtu_at h i"
proof -
  have "mtu_at (enet_peer_on_disconnect i g) i = mtu_at g i" for g
    by (simp add: enet_peer_on_disconnect_def Let_def)
  then show ?thesis
    unfolding disconnect_connected_def Let_def
    by (subst mtu_upd_peer) (simp_all add: mtu_queue_outgoing mtu_reset_queues)
qed

lemma send_commands_filled:
  assumes "filled M h" "mtu_at h i = M" "M \<le> ENET_PROTOCOL_MAXIMUM_MTU" "i < length (h_peers h)"
    "\<forall>oc\<in>set (p_outgoingReliableCommands (peer_at h i)). transmittable oc"
    "\<forall>oc\<in>set (p_outgoingUnreliableCommands (peer_at h i)). transmittable oc"
  shows "filled M (send_commands i h)" "mtu_at (send_commands i h) i = M"
proof -
  define h1 where "h1 = send_or_ping i h"
  have h1: "filled M h1" "mtu_at h1 i = M" "p_outgoingUnreliableCommands (peer_at h1 i) = p_outgoingUnreliableCommands (peer_at h i)"
    using send_or_ping_filled [OF assms(1-5)] by (simp_all add: h1_def)
  obtain rest k where l: "send_unreliable_loop i (p_outgoingUnreliableCommands (peer_at h1 i)) h1 = (rest, k)"
    by (meson surj_pair)
  define k1 where "k1 = upd_peer i (p_outgoingUnreliableCommands_update (\<lambda>_. rest)) k"
  have "filled M k \<and> mtu_at k i = M" using send_unreliable_filled [OF h1(1,2) _ l] h1(3) assms(6) by simp
  then have k1: "filled M k1" "mtu_at k1 i = M" by (simp_all add: k1_def mtu_upd_peer del: peers_upd_peer)
  have "send_commands i h \<in> {h1, k1, disconnect_connected i (p_eventData (peer_at k1 i)) k1}"
    by (simp add: send_commands_def Let_def enet_protocol_send_unreliable_outgoing_commands_def l flip: h1_def k1_def)
  then show "filled M (send_commands i h)" "mtu_at (send_commands i h) i = M"
    using h1 k1 mtu_disconnect_connected by auto
qed


section \<open>The size of a datagram\<close>

text \<open>What the invariant says of the queued commands.\<close>

lemma queued_transmittable:
  assumes "peer_ok p" "oc \<in> queued_commands p"
  shows "transmittable oc"
proof -
  have "fits (p_mtu p) oc" "unat (p_mtu p) \<le> 4096"
    using assms queued_fits by (auto simp: peer_ok_def word_le_nat_alt)
  then show ?thesis by (simp add: fits_def transmittable_def)
qed

lemma send_commands_start_filled:
  assumes "host_ok h" "i < length (h_peers h)"
    "length (h_commands h) = ENET_PROTOCOL_MAXIMUM_PACKET_COMMANDS" "length (h_buffers h) = ENET_BUFFER_MAXIMUM"
  shows "filled (p_mtu (peer_at h i)) (send_commands i (start_datagram i h))"
proof -
  let ?M = "p_mtu (peer_at h i)"
  have ok: "peer_ok (peer_at h i)" using assms(1,2) by (auto simp: host_ok_def)
  then have M: "4 \<le> ?M" "?M \<le> ENET_PROTOCOL_MAXIMUM_MTU" by (auto simp: peer_ok_def word_le_nat_alt)
  have s: "filled ?M (start_datagram i h)" "p_mtu (peer_at (start_datagram i h) i) = ?M"
    using start_datagram_filled [OF assms(3,4) M(1)] by blast+
  show ?thesis
  proof (rule send_commands_filled(1) [OF s M(2)])
    show "i < length (h_peers (start_datagram i h))" using assms(2) start_datagram.same_peers by simp
  qed (use queued_transmittable [OF ok] in \<open>simp_all add: start_datagram_queues assms queued_commands_def\<close>)
qed

text \<open>Property C18.  When all that is queued for a peer has been put into the datagram (acknowledgements,
  reliable commands, perhaps a ping, unreliable commands), no array of the host has been overrun, every
  command buffer refers to a command that has been written, and the size the host has counted is the
  size of the buffers and within the MTU of the peer.\<close>

theorem send_commands_within_mtu:
  assumes "host_ok h" "i < length (h_peers h)"
    "length (h_commands h) = ENET_PROTOCOL_MAXIMUM_PACKET_COMMANDS" "length (h_buffers h) = ENET_BUFFER_MAXIMUM"
  shows "filled (p_mtu (peer_at h i)) (send_commands i (start_datagram i h))"
  using assms by (rule send_commands_start_filled)

definition datagram_length :: "u8 list option list \<Rightarrow> nat" where
  "datagram_length bs = sum_list (map (\<lambda>b. case b of None \<Rightarrow> 0 | Some d \<Rightarrow> length d) bs)"

abbreviation lengths :: "ENetBuffer list \<Rightarrow> nat" where
  "lengths bs \<equiv> sum_list (map (\<lambda>b. unat (buffer_length b)) bs)"

lemma datagram_length_lengths: "datagram_length (map (buffer_bytes h header) bs) \<le> lengths bs"
proof -
  have "(case buffer_bytes h header b of None \<Rightarrow> 0 | Some d \<Rightarrow> length d) \<le> unat (buffer_length b)" for b
    by (cases b) (auto simp: buffer_bytes_def split: option.split)
  then show ?thesis
    by (induction bs) (simp_all add: datagram_length_def add_mono)
qed

lemma compress_datagram_keeps:
  assumes "compress_datagram h = (c, h')"
  shows "h_buffers h' = h_buffers h" "h_bufferCount h' = h_bufferCount h" "h_packetSize h' = h_packetSize h"
    "h_checksum h' = h_checksum h" "h_peers h' = h_peers h" "h_world h' = h_world h"
    "c > 0 \<Longrightarrow> c < h_packetSize h - 4"
  using assms by (auto simp: compress_datagram_def Let_def split: option.split_asm prod.split_asm if_split_asm)

lemma used_buffers_header:
  assumes "1 \<le> h_bufferCount h" "h_buffers h \<noteq> []"
  shows "used_buffers (set_buffer 0 b h) = b # tl (used_buffers h)"
proof -
  obtain n where n: "h_bufferCount h = Suc n" using assms(1) by (cases "h_bufferCount h") auto
  obtain c cs where "h_buffers h = c # cs" using assms(2) by (cases "h_buffers h") auto
  then show ?thesis by (simp add: used_buffers_def set_buffer_def n)
qed

lemma finish_datagram_lengths:
  assumes "filled M h" "finish_datagram i h = (header, h')"
  shows "lengths (used_buffers h') \<le> unat M + (if h_checksum h = None then 0 else 4)"
    "h_peers h' = h_peers h" "h_world h' = h_world h"
proof -
  define t where "t = (h_headerFlags h AND ENET_PROTOCOL_HEADER_FLAG_SENT_TIME \<noteq> 0)"
  define h1 where "h1 = set_buffer 0 (HeaderBuffer (if t then 4 else 2)) h"
  obtain c h2 where c: "compress_datagram h1 = (c, h2)" by (meson surj_pair)
  define p where "p = peer_at h2 i"
  define h3 where "h3 = (if p_outgoingPeerID p < ENET_PROTOCOL_MAXIMUM_PEER_ID
                 then h2\<lparr>h_headerFlags := h_headerFlags h2 OR
                        push_bit (ENET_PROTOCOL_HEADER_SESSION_SHIFT) (ucast (p_outgoingSessionID p))\<rparr>
                 else h2)"
  define header0 where "header0 = datagram_header h3 (p_outgoingPeerID p) t"
  define n where "n = (if h_checksum h = None then if t then 4 else 2 else of_nat (length header0) + 4 :: size_t)"
  have len: "length header0 = (if t then 4 else 2)" by (simp add: header0_def datagram_header_def)
  have n: "unat n \<le> (if h_checksum h = None then 4 else 8)" by (simp add: n_def len)
  have buf: "h_buffers h \<noteq> []" "1 \<le> h_bufferCount h" using assms(1) by (auto simp: filled_def)
  note frame = compress_datagram_keeps [OF c]
  have h3: "h_buffers h3 = (h_buffers h)[0 := HeaderBuffer (if t then 4 else 2)]"
    "h_bufferCount h3 = h_bufferCount h" "h_checksum h3 = h_checksum h" "h_peers h3 = h_peers h"
    "h_world h3 = h_world h"
    using frame by (simp_all add: h3_def h1_def set_buffer_def)
  define h4 where "h4 = (if h_checksum h3 = None then h3 else set_buffer 0 (HeaderBuffer n) h3)"
  have h4: "h_buffers h4 = (h_buffers h)[0 := HeaderBuffer n]" "h_bufferCount h4 = h_bufferCount h"
    "h_peers h4 = h_peers h" "h_world h4 = h_world h"
    using h3 by (auto simp: h4_def set_buffer_def n_def)
  have u4: "used_buffers h4 = HeaderBuffer n # tl (used_buffers h)"
    using used_buffers_header [OF buf(2,1), of "HeaderBuffer n"] h4(1,2)
    by (simp add: used_buffers_def set_buffer_def)
  have h': "h' = (if c > 0 then (set_buffer 1 (CompressedBuffer c) h4)\<lparr>h_bufferCount := 2\<rparr> else h4)"
    using assms(2) unfolding finish_datagram_def Let_def t_def [symmetric] h1_def [symmetric] c prod.case
      p_def [symmetric] h3_def [symmetric] header0_def [symmetric]
    by (auto simp: h4_def n_def h3(3) split: option.split_asm prod.split_asm)
  show "h_peers h' = h_peers h" "h_world h' = h_world h" using h4(3,4) by (simp_all add: h' set_buffer_def)
  have size: "lengths (tl (used_buffers h)) + 4 = unat (h_packetSize h)" "unat (h_packetSize h) \<le> unat M"
    using assms(1) by (simp_all add: filled_def buffers_size_def)
  show "lengths (used_buffers h') \<le> unat M + (if h_checksum h = None then 0 else 4)"
  proof (cases "c > 0")
    case False
    then show ?thesis using n size by (auto simp: h' u4 split: if_split_asm)
  next
    case True
    have "used_buffers h' = [HeaderBuffer n, CompressedBuffer c]"
    proof -
      obtain b0 b1 bs where "h_buffers h = b0 # b1 # bs"
        using assms(1) by (cases "h_buffers h"; cases "tl (h_buffers h)") (auto simp: filled_def)
      then show ?thesis using True h4(1) by (simp add: h' used_buffers_def set_buffer_def numeral_2_eq_2)
    qed
    moreover have "unat c \<le> unat (h_packetSize h) - 4"
    proof -
      have "c < h_packetSize h - 4" using frame(7) True by (simp add: h1_def set_buffer_def)
      moreover have "unat (h_packetSize h - 4) = unat (h_packetSize h) - 4"
        using size(1) by (simp add: unat_sub word_le_nat_alt)
      ultimately show ?thesis by (simp add: word_less_nat_alt)
    qed
    ultimately show ?thesis using n size by (auto split: if_split_asm)
  qed
qed


lemma transmit_sent:
  assumes "finish_datagram i (upd_peer i (update_packetLoss (h_serviceTime h)) h) = (header, h1)"
  shows "w_sent (h_world (snd (transmit i h))) = w_sent (h_world h1) @
    [(p_address (peer_at (upd_peer i (p_lastSendTime_update (\<lambda>_. h_serviceTime h1)) h1) i),
      map (buffer_bytes h1 header) (used_buffers h1))]"
proof -
  have b: "buffer_bytes (upd_peer i f h1) header = buffer_bytes h1 header" for f
    by (rule ext) (simp add: buffer_bytes_def upd_peer_def split: ENetBuffer.split)
  have u: "used_buffers (upd_peer i f h1) = used_buffers h1" for f by (simp add: used_buffers_def upd_peer_def)
  have w: "h_world (snd (on_peer i f g)) = h_world g" for f :: "heap \<Rightarrow> ENetPeer \<Rightarrow> unit \<times> heap \<times> ENetPeer" and g
    by (simp add: on_peer_def upd_peer_def split_beta)
  show ?thesis
    unfolding transmit_def Let_def assms prod.case
    by (simp add: enet_socket_send_def Let_def split_beta w b u del: peers_upd_peer)
qed

text \<open>Property C19.  The datagram that is handed to the socket for a peer is not longer than the peer's MTU,
  except that the four bytes of the checksum, which the code does not count, can come on top.\<close>

theorem datagram_within_mtu:
  assumes "host_ok h" "i < length (h_peers h)"
    "length (h_commands h) = ENET_PROTOCOL_MAXIMUM_PACKET_COMMANDS" "length (h_buffers h) = ENET_BUFFER_MAXIMUM"
    "g = send_commands i (start_datagram i h)"
  shows "\<exists>address bs. w_sent (h_world (snd (transmit i g))) = w_sent (h_world g) @ [(address, bs)] \<and>
    datagram_length bs \<le> unat (p_mtu (peer_at h i)) + (if h_checksum g = None then 0 else 4)"
proof -
  let ?M = "p_mtu (peer_at h i)"
  let ?g = "upd_peer i (update_packetLoss (h_serviceTime g)) g"
  have "filled ?M ?g" using send_commands_start_filled [OF assms(1-4)] assms(5) by simp
  moreover obtain header h1 where f: "finish_datagram i ?g = (header, h1)" by (meson surj_pair)
  ultimately have "lengths (used_buffers h1) \<le> unat ?M + (if h_checksum g = None then 0 else 4)"
    "h_world h1 = h_world g"
    using finish_datagram_lengths [of ?M ?g i header h1] by (simp_all add: upd_peer_def)
  then show ?thesis
    using transmit_sent [OF f] datagram_length_lengths [of h1 header "used_buffers h1"] by fastforce
qed


section \<open>A packet freed before it is sent\<close>

lemma freed_packet_unref: "hp_packets hp k = None \<Longrightarrow> hp_packets (packet_unref j hp) k = None"
  by (auto simp: packet_unref_def Let_def enet_packet_destroy_def split: option.split)

lemma freed_release: "hp_packets hp k = None \<Longrightarrow> hp_packets (release_packet p hp) k = None"
  by (simp add: release_packet_def freed_packet_unref split: option.split)

lemma freed_fold_release:
  "hp_packets hp k = None \<Longrightarrow> hp_packets (fold (\<lambda>x. release_packet (f x)) xs hp) k = None"
  by (induction xs arbitrary: hp) (simp_all add: freed_release)

lemma freed_reset_outgoing:
  "hp_packets hp k = None \<Longrightarrow> hp_packets (enet_peer_reset_outgoing_commands ocs hp) k = None"
  by (simp add: enet_peer_reset_outgoing_commands_def freed_fold_release)

lemma freed_reset_incoming:
  "hp_packets hp k = None \<Longrightarrow> hp_packets (enet_peer_reset_incoming_commands ics hp) k = None"
  by (simp add: enet_peer_reset_incoming_commands_def enet_peer_remove_incoming_commands_def freed_fold_release)

lemma freed_reset_channels:
  "hp_packets hp k = None \<Longrightarrow>
   hp_packets (fold (\<lambda>ch hp. enet_peer_reset_incoming_commands (ch_incomingUnreliableCommands ch)
      (enet_peer_reset_incoming_commands (ch_incomingReliableCommands ch) hp)) chs hp) k = None"
  by (induction chs arbitrary: hp) (simp_all add: freed_reset_incoming)

lemma last_reference_freed:
  assumes "hp_packets hp k = Some pk" "pk_referenceCount pk = 1" "oc_packet oc = Some k"
  shows "hp_packets (enet_peer_reset_outgoing_commands [oc] hp) k = None"
  using assms
  by (simp add: enet_peer_reset_outgoing_commands_def release_packet_def packet_unref_def Let_def
      deref_packet_def enet_packet_destroy_def split: option.split)

lemma reset_queues_frees:
  assumes "p_sentReliableCommands (peer_at h i) = []" "p_sentUnreliableCommands (peer_at h i) = [oc]"
    "oc_packet oc = Some k" "hp_packets (h_heap h) k = Some pk" "pk_referenceCount pk = 1"
  shows "hp_packets (h_heap (enet_peer_reset_queues i h)) k = None"
proof -
  let ?p = "peer_at h i"
  define hp0 where "hp0 = enet_peer_reset_outgoing_commands (p_sentUnreliableCommands ?p)
      (enet_peer_reset_outgoing_commands (p_sentReliableCommands ?p) (h_heap h))"
  have "hp_packets hp0 k = None"
    using last_reference_freed [OF assms(4,5,3)] by (simp add: hp0_def assms(1,2) enet_peer_reset_outgoing_commands_def)
  then show ?thesis
    by (cases "p_needsDispatch ?p")
      (simp_all add: enet_peer_reset_queues_def Let_def upd_peer_def freed_reset_channels freed_reset_outgoing
        freed_reset_incoming flip: hp0_def)
qed

text \<open>What a disconnection does not touch: the datagram.\<close>

lemma disconnect_connected_datagram:
  "h_buffers (disconnect_connected i data h) = h_buffers h"
  "h_bufferCount (disconnect_connected i data h) = h_bufferCount h"
  "h_compressor (disconnect_connected i data h) = h_compressor h"
  by (simp_all add: disconnect_connected_def enet_peer_reset_queues_def queue_outgoing_def on_peer_def
      enet_peer_on_disconnect_def upd_peer_def Let_def split_beta)

lemma disconnect_connected_freed:
  assumes "hp_packets (h_heap (enet_peer_reset_queues i h)) k = None"
  shows "hp_packets (h_heap (disconnect_connected i data h)) k = None"
  using assms
  by (simp add: disconnect_connected_def queue_outgoing_def on_peer_def enet_peer_queue_outgoing_command_def
      enet_malloc_def enet_peer_on_disconnect_def upd_peer_def Let_def split_beta)

text \<open>Property C20.  The last unreliable packet of a peer that is to be disconnected once everything is
  sent: sending it disconnects the peer at once, which frees the packet while a buffer of the datagram
  still refers to it, so that what goes to the socket is freed memory.\<close>

theorem disconnect_later_sends_freed_packet:
  assumes "i < length (h_peers h)" "p_state (peer_at h i) = ENET_PEER_STATE_DISCONNECT_LATER"
    "p_outgoingReliableCommands (peer_at h i) = []" "p_sentReliableCommands (peer_at h i) = []"
    "p_sentUnreliableCommands (peer_at h i) = []" "p_outgoingUnreliableCommands (peer_at h i) = [oc]"
    "oc_packet oc = Some k" "hp_packets (h_heap h) k = Some pk" "pk_referenceCount pk = 1"
    "\<not> datagram_full_unreliable i oc h" "\<not> fst (throttle_packet (peer_at h i))"
    "length (h_buffers h) = ENET_BUFFER_MAXIMUM" "1 \<le> h_bufferCount h"
    "g = enet_protocol_send_unreliable_outgoing_commands i h"
  shows "PacketBuffer k (unat (oc_fragmentOffset oc)) (ucast (oc_fragmentLength oc)) \<in> set (tl (used_buffers g)) \<and>
    hp_packets (h_heap g) k = None \<and> state_at g i = ENET_PEER_STATE_DISCONNECTING"
proof -
  define h1 where "h1 = (if oc_fragmentOffset oc = 0 then upd_peer i (\<lambda>p. snd (throttle_packet p)) h else h)"
  define h2 where "h2 = put_outgoing oc (size_of_command (oc_command oc)) h1"
  define h3 where "h3 = upd_peer i (\<lambda>p. p\<lparr>p_sentUnreliableCommands := p_sentUnreliableCommands p @ [oc]\<rparr>) h2"
  define h4 where "h4 = upd_peer i (p_outgoingUnreliableCommands_update (\<lambda>_. [])) h3"
  define data where "data = p_eventData (peer_at h4 i)"
  have "(if oc_packet oc \<noteq> None \<and> oc_fragmentOffset oc = 0
          then case throttle_packet (peer_at h i) of (dropped, p) \<Rightarrow> (dropped, upd_peer i (\<lambda>_. p) h)
          else (False, h)) = (False, h1)"
    using assms(7,11) by (auto simp: h1_def upd_peer_def split_beta)
  then have l: "send_unreliable_loop i [oc] h = ([], h3)"
    using assms(7,10) by (simp add: h2_def h3_def Let_def)
  have p1: "p_state (peer_at h1 i) = p_state (peer_at h i) \<and>
      p_outgoingReliableCommands (peer_at h1 i) = [] \<and> p_sentReliableCommands (peer_at h1 i) = [] \<and>
      p_sentUnreliableCommands (peer_at h1 i) = []" "length (h_peers h1) = length (h_peers h)"
    "h_heap h1 = h_heap h" "h_buffers h1 = h_buffers h" "h_bufferCount h1 = h_bufferCount h"
    using assms(1,3-5) by (simp_all add: h1_def throttle_packet_def Let_def)
  have p2: "h_peers h2 = h_peers h1" "h_heap h2 = h_heap h1" by (simp_all add: h2_def put_outgoing_def Let_def
      put_command_def put_packet_def split: option.split)
  have n: "h_bufferCount h + 1 < ENET_BUFFER_MAXIMUM"
    using assms(10) by (simp add: datagram_full_unreliable_def Let_def)
  have b: "tl (used_buffers h2) = tl (used_buffers h1) @ [CommandBuffer (h_commandCount h1) (size_of_command (oc_command oc)),
      PacketBuffer k (unat (oc_fragmentOffset oc)) (ucast (oc_fragmentLength oc))]"
    using assms(7,12,13) n p1(4,5)
    by (simp add: h2_def put_outgoing_def put_command_def put_packet_def used_buffers_def Let_def used_buffers_put)
  have at_upd: "peer_at (upd_peer i f g) i = f (peer_at g i)" if "length (h_peers g) = length (h_peers h)" for f g
    using that assms(1) by simp
  have p3: "peer_at h3 i = (peer_at h1 i)\<lparr>p_sentUnreliableCommands := [oc]\<rparr>" "length (h_peers h3) = length (h_peers h)"
    unfolding h3_def by (subst at_upd) (simp_all add: p2(1) p1(1,2))
  have "peer_at h4 i = (peer_at h3 i)\<lparr>p_outgoingUnreliableCommands := []\<rparr>" "length (h_peers h4) = length (h_peers h)"
    unfolding h4_def by (subst at_upd) (simp_all add: p3(2))
  then have p4: "p_state (peer_at h4 i) = ENET_PEER_STATE_DISCONNECT_LATER" "p_outgoingReliableCommands (peer_at h4 i) = []"
    "p_outgoingUnreliableCommands (peer_at h4 i) = []" "p_sentReliableCommands (peer_at h4 i) = []"
    "p_sentUnreliableCommands (peer_at h4 i) = [oc]" "length (h_peers h4) = length (h_peers h)"
    using p1(1) p3(1) assms(2) by simp_all
  have heap: "h_heap h4 = h_heap h" using p1(3) p2(2) by (simp add: h4_def h3_def)
  have g: "g = disconnect_connected i data h4"
    unfolding assms(14) enet_protocol_send_unreliable_outgoing_commands_def assms(6) l prod.case Let_def
      h4_def [symmetric] using p4 by (simp add: data_def)
  have "hp_packets (h_heap g) k = None"
    unfolding g by (rule disconnect_connected_freed, rule reset_queues_frees [OF p4(4,5) assms(7) _ assms(9)])
      (simp add: heap assms(8))
  moreover have "used_buffers g = used_buffers h2"
    by (simp add: g used_buffers_def disconnect_connected_datagram h4_def h3_def)
  moreover have "state_at g i = ENET_PEER_STATE_DISCONNECTING"
    unfolding g disconnect_connected_def Let_def
    by (subst at_upd) (simp_all add: enet_peer_on_disconnect_def Let_def p4(6))
  ultimately show ?thesis using b by simp
qed


section \<open>Examples\<close>

text \<open>A host with one peer for which an unreliable packet of five bytes is queued.\<close>

definition queued_unreliable_example :: ENetOutgoingCommand where
  "queued_unreliable_example = new_outgoing (make_command ENET_PROTOCOL_COMMAND_SEND_UNRELIABLE 0
     (SendUnreliable 0 (ENET_HOST_TO_NET_16 5))) (Some 0) 0 5"

definition packet_example :: ENetPacket where
  "packet_example = \<lparr>pk_referenceCount = 1, pk_flags = 0, pk_data = Some [1, 2, 3, 4, 5], pk_dataLength = 5,
     pk_freeCallback = None, pk_userData = 0\<rparr>"

definition send_example :: "ENetPeerState \<Rightarrow> ENetHost" where
  "send_example s = upd_peer 0 (p_outgoingUnreliableCommands_update (\<lambda>_. [queued_unreliable_example]))
     ((peer_example s)\<lparr>h_heap := fresh_heap\<lparr>hp_packets := [0 \<mapsto> packet_example], hp_next := 1\<rparr>,
        h_bufferCount := 1, h_packetSize := 4\<rparr>)"

lemma send_example_simps [simp]:
  "length (h_peers (send_example s)) = 1"
  "p_outgoingUnreliableCommands (peer_at (send_example s) 0) = [queued_unreliable_example]"
  "p_outgoingReliableCommands (peer_at (send_example s) 0) = []"
  "p_sentReliableCommands (peer_at (send_example s) 0) = []"
  "p_sentUnreliableCommands (peer_at (send_example s) 0) = []"
  "state_at (send_example s) 0 = s" "p_mtu (peer_at (send_example s) 0) = 1400"
  "length (h_commands (send_example s)) = ENET_PROTOCOL_MAXIMUM_PACKET_COMMANDS"
  "length (h_buffers (send_example s)) = ENET_BUFFER_MAXIMUM"
  "h_bufferCount (send_example s) = 1" "h_packetSize (send_example s) = 4" "h_commandCount (send_example s) = 0"
  "hp_packets (h_heap (send_example s)) 0 = Some packet_example"
  by (simp_all add: send_example_def upd_peer_def peer_example_def zero_host_def reset_fields_def zero_peer_def)

lemma send_example_ok:
  assumes "is_settled s"
  shows "host_ok (send_example s)"
proof -
  let ?h = "(peer_example s)\<lparr>h_heap := fresh_heap\<lparr>hp_packets := [0 \<mapsto> packet_example], hp_next := 1\<rparr>,
        h_bufferCount := 1, h_packetSize := 4\<rparr>"
  have ok: "host_ok ?h" by (rule host_ok_same_peers [OF peer_example_ok [of s]]) (simp_all add: host_frame_def)
  have "fits 1400 queued_unreliable_example"
    by (simp add: fits_def queued_unreliable_example_def new_outgoing_def make_command_def commandSizes_def)
  then have "peer_frame (peer_at ?h 0) ((peer_at ?h 0)\<lparr>p_outgoingUnreliableCommands := [queued_unreliable_example]\<rparr>)"
    using assms by (simp add: peer_frame_def peer_ok_defs reset_fields_def zero_peer_def)
  then show ?thesis
    unfolding send_example_def using only_peer_ok [OF only_peer_update_at ok, of 0] by simp
qed

theorem send_commands_within_mtu_witness:
  "filled 1400 (send_commands 0 (start_datagram 0 (send_example ENET_PEER_STATE_CONNECTED)))"
  using send_commands_within_mtu [OF send_example_ok [OF is_settled_simps(2)], of 0]
  by simp

theorem datagram_within_mtu_witness:
  "let g = send_commands 0 (start_datagram 0 (send_example ENET_PEER_STATE_CONNECTED))
   in \<exists>address bs. w_sent (h_world (snd (transmit 0 g))) = w_sent (h_world g) @ [(address, bs)] \<and>
        datagram_length bs \<le> 1400 + (if h_checksum g = None then 0 else 4)"
  using datagram_within_mtu [OF send_example_ok [OF is_settled_simps(2)], of 0, OF _ _ _ refl]
  by (simp add: Let_def del: peers_upd_peer)

theorem disconnect_later_sends_freed_packet_witness:
  "hp_packets (h_heap (enet_protocol_send_unreliable_outgoing_commands 0
     (send_example ENET_PEER_STATE_DISCONNECT_LATER))) 0 = None"
proof -
  have "\<not> datagram_full_unreliable 0 queued_unreliable_example (send_example ENET_PEER_STATE_DISCONNECT_LATER)"
    by (simp add: datagram_full_unreliable_def space_left_def size_of_command_def Let_def)
      (simp add: queued_unreliable_example_def new_outgoing_def make_command_def commandSizes_def)
  moreover have "\<not> fst (throttle_packet (peer_at (send_example ENET_PEER_STATE_DISCONNECT_LATER) 0))"
    by (simp add: throttle_packet_def Let_def send_example_def reset_fields_def)
  ultimately show ?thesis
    using disconnect_later_sends_freed_packet [of 0 "send_example ENET_PEER_STATE_DISCONNECT_LATER"
        queued_unreliable_example 0 packet_example, OF _ _ _ _ _ _ _ _ _ _ _ _ _ refl]
    by (simp add: packet_example_def queued_unreliable_example_def new_outgoing_def)
qed

end
