(* ===== verification/EnetReliable.thy ===== *)
theory EnetReliable
  imports EnetDatagram
begin

text \<open>
  Reliable delivery on the sender's side (\<^verbatim>\<open>enet/protocol.cpp\<close>): what sending, timing out and
  acknowledging do with the commands of a peer and with the number of bytes in transit.
\<close>

section \<open>Sending reliable commands\<close>

text \<open>A command after it has been sent: the same command, stamped with the time and one more attempt.\<close>

definition stamped :: "u32 \<Rightarrow> ENetOutgoingCommand \<Rightarrow> ENetOutgoingCommand \<Rightarrow> bool" where
  "stamped t oc oc' \<longleftrightarrow>
     oc_command oc' = oc_command oc \<and> oc_packet oc' = oc_packet oc \<and>
     oc_fragmentOffset oc' = oc_fragmentOffset oc \<and> oc_fragmentLength oc' = oc_fragmentLength oc \<and>
     oc_reliableSequenceNumber oc' = oc_reliableSequenceNumber oc \<and>
     oc_unreliableSequenceNumber oc' = oc_unreliableSequenceNumber oc \<and>
     oc_sentTime oc' = t \<and> oc_sendAttempts oc' = oc_sendAttempts oc + 1 \<and>
     (oc_roundTripTimeout oc \<noteq> 0 \<longrightarrow> oc_roundTripTimeout oc' = oc_roundTripTimeout oc)"

lemma start_timeout_stamped: "stamped t oc (start_timeout t p oc)"
  by (simp add: stamped_def start_timeout_def Let_def)

definition transit_bytes :: "ENetOutgoingCommand list \<Rightarrow> u32" where
  "transit_bytes ocs = sum_list (map (\<lambda>oc. case oc_packet oc of None \<Rightarrow> 0 | Some _ \<Rightarrow> ucast (oc_fragmentLength oc)) ocs)"

lemma transit_bytes_simps [simp]:
  "transit_bytes [] = 0"
  "transit_bytes (oc # ocs) = (case oc_packet oc of None \<Rightarrow> 0 | Some _ \<Rightarrow> ucast (oc_fragmentLength oc)) + transit_bytes ocs"
  "transit_bytes (xs @ ys) = transit_bytes xs + transit_bytes ys"
  by (simp_all add: transit_bytes_def)

lemma record_sent_simps [simp]:
  "p_sentReliableCommands (record_sent t oc p) = p_sentReliableCommands p @ [start_timeout t p oc]"
  "p_reliableDataInTransit (record_sent t oc p) = p_reliableDataInTransit p + transit_bytes [oc]"
  "p_outgoingReliableCommands (record_sent t oc p) = p_outgoingReliableCommands p"
  "p_packetThrottle (record_sent t oc p) = p_packetThrottle p" "p_windowSize (record_sent t oc p) = p_windowSize p"
  "p_mtu (record_sent t oc p) = p_mtu p" "p_state (record_sent t oc p) = p_state p"
  by (simp_all add: record_sent_def Let_def upd_channel_def split: option.split)

lemma put_outgoing_fields [simp]:
  "h_peers (put_outgoing oc len h) = h_peers h" "h_heap (put_outgoing oc len h) = h_heap h"
  "h_serviceTime (put_outgoing oc len h) = h_serviceTime h"
  by (simp_all add: put_outgoing_def put_command_def put_packet_def Let_def split: option.split)

lemma transit_bytes_start [simp]: "transit_bytes [start_timeout t p oc] = transit_bytes [oc]"
  by (simp add: start_timeout_def Let_def split: option.split)

text \<open>The loop splits the queue into what is sent and what stays, in order.\<close>

definition sends :: "nat \<Rightarrow> ENetOutgoingCommand list \<Rightarrow> ENetOutgoingCommand list \<Rightarrow> ENetHost \<Rightarrow> ENetHost \<Rightarrow> bool" where
  "sends i ocs rest h h' \<longleftrightarrow>
     (\<exists>sent new. ocs \<in> shuffles sent rest \<and> list_all2 (stamped (h_serviceTime h)) sent new \<and>
        p_sentReliableCommands (peer_at h' i) = p_sentReliableCommands (peer_at h i) @ new \<and>
        p_reliableDataInTransit (peer_at h' i) = p_reliableDataInTransit (peer_at h i) + transit_bytes new) \<and>
     h_heap h' = h_heap h"

lemma sends_none: "sends i ocs ocs h h"
  unfolding sends_def by (rule conjI, rule exI [of _ "[]"], rule exI [of _ "[]"]) simp_all

lemma sends_keep:
  assumes "sends i ocs rest h h'"
  shows "sends i (oc # ocs) (oc # rest) h h'"
proof -
  have "oc # ocs \<in> shuffles sent (oc # rest)" if "ocs \<in> shuffles sent rest" for sent
    using that by (cases sent) auto
  then show ?thesis using assms by (auto simp: sends_def)
qed

lemma sends_first:
  assumes "sends i ocs rest h1 h'"
    "peer_at h1 i = record_sent (h_serviceTime h) oc (peer_at h i)" "h_serviceTime h1 = h_serviceTime h" "h_heap h1 = h_heap h"
  shows "sends i (oc # ocs) rest h h'"
proof -
  obtain sent new where s: "ocs \<in> shuffles sent rest" "list_all2 (stamped (h_serviceTime h)) sent new"
    "p_sentReliableCommands (peer_at h' i) = p_sentReliableCommands (peer_at h1 i) @ new"
    "p_reliableDataInTransit (peer_at h' i) = p_reliableDataInTransit (peer_at h1 i) + transit_bytes new"
    "h_heap h' = h_heap h"
    using assms(1,3,4) by (auto simp: sends_def)
  let ?oc = "start_timeout (h_serviceTime h) (peer_at h i) oc"
  have "oc # ocs \<in> shuffles (oc # sent) rest" using s(1) by (cases rest) auto
  moreover have "list_all2 (stamped (h_serviceTime h)) (oc # sent) (?oc # new)"
    using s(2) by (simp add: start_timeout_stamped)
  moreover have "p_sentReliableCommands (peer_at h' i) = p_sentReliableCommands (peer_at h i) @ ?oc # new"
    using s(3) assms(2) by simp
  moreover have "transit_bytes (?oc # new) = transit_bytes [oc] + transit_bytes new"
    using transit_bytes_start [of "h_serviceTime h" "peer_at h i" oc] by simp
  ultimately show ?thesis using s(4,5) assms(2) by (fastforce simp: sends_def)
qed

lemma send_reliable_loop_sends:
  assumes "send_reliable_loop i we ww cp ocs h = (rest, cp', h')" "i < length (h_peers h)"
  shows "sends i ocs rest h h'"
proof -
  let ?R = "\<lambda>ocs rest h h'. i < length (h_peers h) \<longrightarrow> sends i ocs rest h h'"
  have "?R ocs rest h h'"
    using assms(1)
  proof (rule send_reliable_loop_rule [where R = ?R])
    show "?R (oc # ocs) rest h h'" if "?R ocs rest (reliable_sent i oc h) h'" for oc ocs rest h h'
      using that sends_first [of i ocs rest "reliable_sent i oc h" h' h oc] by simp
    show "?R (oc # ocs) (oc # ocs) h (h\<lparr>h_continueSending := True\<rparr>)" for oc ocs h
      using sends_none [of i "oc # ocs" h] by (simp add: sends_def)
  qed (simp_all add: sends_none sends_keep)
  then show ?thesis using assms(2) by blast
qed

lemma transit_bytes_shuffles: "ocs \<in> shuffles xs ys \<Longrightarrow> transit_bytes ocs = transit_bytes xs + transit_bytes ys"
  by (induction xs ys arbitrary: ocs rule: shuffles.induct) (auto simp: algebra_simps)

lemma transit_bytes_stamped: "list_all2 (stamped t) ocs ocs' \<Longrightarrow> transit_bytes ocs' = transit_bytes ocs"
  by (induction rule: list_all2_induct) (simp_all add: stamped_def split: option.split)

lemma send_reliable_peer:
  assumes "enet_protocol_send_reliable_outgoing_commands i h = (canPing, h')" "i < length (h_peers h)"
  obtains rest g where "sends i (p_outgoingReliableCommands (peer_at h i)) rest h g"
    "peer_at h' i = (peer_at g i)\<lparr>p_outgoingReliableCommands := rest\<rparr>" "h_heap h' = h_heap g"
proof -
  obtain rest cp g where l: "send_reliable_loop i False False True (p_outgoingReliableCommands (peer_at h i)) h = (rest, cp, g)"
    by (metis prod_cases3)
  have "length (h_peers g) = length (h_peers h)"
    using only_peer_length [OF conjunct1 [OF send_reliable_loop_only [OF l subset_refl]]] .
  then show ?thesis
    using that [OF send_reliable_loop_sends [OF l assms(2)]] assms l
    by (auto simp: enet_protocol_send_reliable_outgoing_commands_def)
qed

text \<open>Property C21.  Sending the reliable commands of a peer loses none, duplicates none and keeps their
  order: those that go into the datagram are appended to the list of sent commands, with the time, one
  more attempt and a time out, and the others stay queued; no packet is released.\<close>

theorem send_reliable_conserves:
  assumes "enet_protocol_send_reliable_outgoing_commands i h = (canPing, h')" "i < length (h_peers h)"
  shows "\<exists>sent new. p_outgoingReliableCommands (peer_at h i) \<in> shuffles sent (p_outgoingReliableCommands (peer_at h' i)) \<and>
    p_sentReliableCommands (peer_at h' i) = p_sentReliableCommands (peer_at h i) @ new \<and>
    list_all2 (stamped (h_serviceTime h)) sent new \<and> h_heap h' = h_heap h"
proof -
  obtain rest g where s: "sends i (p_outgoingReliableCommands (peer_at h i)) rest h g"
    and h': "peer_at h' i = (peer_at g i)\<lparr>p_outgoingReliableCommands := rest\<rparr>" "h_heap h' = h_heap g"
    using send_reliable_peer [OF assms] .
  then show ?thesis by (auto simp: sends_def)
qed

section \<open>Time outs\<close>

definition overdue :: "u32 \<Rightarrow> ENetOutgoingCommand \<Rightarrow> bool" where
  "overdue t oc \<longleftrightarrow> oc_roundTripTimeout oc \<le> ENET_TIME_DIFFERENCE t (oc_sentTime oc)"

text \<open>Too long without an acknowledgement, counted from the time \<open>e\<close>.\<close>

definition timed_out :: "u32 \<Rightarrow> ENetPeer \<Rightarrow> ENetOutgoingCommand \<Rightarrow> u32 \<Rightarrow> bool" where
  "timed_out t p oc e \<longleftrightarrow>
     p_timeoutMaximum p \<le> ENET_TIME_DIFFERENCE t e \<or>
     oc_roundTripTimeoutLimit oc \<le> oc_roundTripTimeout oc \<and> p_timeoutMinimum p \<le> ENET_TIME_DIFFERENCE t e"

abbreviation (input) backed_off :: "ENetOutgoingCommand \<Rightarrow> ENetOutgoingCommand" where
  "backed_off oc \<equiv> oc\<lparr>oc_roundTripTimeout := oc_roundTripTimeout oc * 2\<rparr>"

text \<open>The fields of the peer that the loop over the sent commands leaves alone.\<close>

definition same_timeouts :: "ENetPeer \<Rightarrow> ENetPeer \<Rightarrow> bool" where
  "same_timeouts p q \<longleftrightarrow> p_timeoutMaximum q = p_timeoutMaximum p \<and> p_timeoutMinimum q = p_timeoutMinimum p \<and>
     p_outgoingReliableCommands q = p_outgoingReliableCommands p"

lemma same_timeouts_trans: "same_timeouts p q \<Longrightarrow> same_timeouts q r \<Longrightarrow> same_timeouts p r"
  by (simp add: same_timeouts_def)

lemma check_timeouts_loop_spec:
  "check_timeouts_loop t kept moved ocs p = (gaveUp, kept', moved', p') \<Longrightarrow>
   same_timeouts p p' \<and>
   (if gaveUp then \<exists>oc\<in>set ocs. overdue t oc \<and> (\<exists>e. timed_out t p oc e \<and>
        (e = p_earliestTimeout p \<or> (\<exists>oc'\<in>set ocs. e = oc_sentTime oc')))
    else \<exists>k m. kept' = kept @ k \<and> moved' = moved @ map backed_off m \<and> ocs \<in> shuffles k m \<and>
      (\<forall>oc\<in>set k. \<not> overdue t oc) \<and> (\<forall>oc\<in>set m. overdue t oc) \<and>
      p_reliableDataInTransit p' = p_reliableDataInTransit p - transit_bytes m)"
proof (induction t kept moved ocs p arbitrary: gaveUp kept' moved' p' rule: check_timeouts_loop.induct)
  case (1 t kept moved p)
  then show ?case by (auto simp: same_timeouts_def)
next
  case (2 t kept moved oc ocs p)
  define p1 where "p1 = (if p_earliestTimeout p = 0 \<or> ENET_TIME_LESS (oc_sentTime oc) (p_earliestTimeout p)
      then p\<lparr>p_earliestTimeout := oc_sentTime oc\<rparr> else p)"
  define p2 where "p2 = (if oc_packet oc \<noteq> None
      then p1\<lparr>p_reliableDataInTransit := p_reliableDataInTransit p1 - ucast (oc_fragmentLength oc)\<rparr> else p1)"
  define p3 where "p3 = p2\<lparr>p_packetsLost := p_packetsLost p2 + 1\<rparr>"
  define p4 where "p4 = (if kept = [] then case ocs of [] \<Rightarrow> p3
      | next # _ \<Rightarrow> p3\<lparr>p_nextTimeout := oc_sentTime next + oc_roundTripTimeout next\<rparr> else p3)"
  have eq: "check_timeouts_loop t kept moved (oc # ocs) p =
      (if ENET_TIME_DIFFERENCE t (oc_sentTime oc) < oc_roundTripTimeout oc
       then check_timeouts_loop t (kept @ [oc]) moved ocs p
       else if give_up t oc p1 then (True, kept @ oc # ocs, moved, p1)
       else check_timeouts_loop t kept (moved @ [backed_off oc]) ocs p4)"
    unfolding check_timeouts_loop.simps Let_def p4_def p3_def p2_def p1_def by (rule refl)
  have due: "ENET_TIME_DIFFERENCE t (oc_sentTime oc) < oc_roundTripTimeout oc \<longleftrightarrow> \<not> overdue t oc"
    by (simp only: overdue_def not_le)
  note loop = 2(3) [unfolded eq due]
  have p1: "same_timeouts p p1" "p_earliestTimeout p1 = p_earliestTimeout p \<or> p_earliestTimeout p1 = oc_sentTime oc"
    "p_reliableDataInTransit p1 = p_reliableDataInTransit p"
    by (auto simp: p1_def same_timeouts_def)
  have p2: "same_timeouts p1 p2" "p_earliestTimeout p2 = p_earliestTimeout p1"
    "p_reliableDataInTransit p2 = p_reliableDataInTransit p1 - transit_bytes [oc]"
    by (auto simp: p2_def same_timeouts_def split: option.split)
  have p4: "same_timeouts p2 p4" "p_earliestTimeout p4 = p_earliestTimeout p2"
    "p_reliableDataInTransit p4 = p_reliableDataInTransit p2"
    by (auto simp: p4_def p3_def same_timeouts_def split: list.split)
  have same: "same_timeouts p p4" using p1(1) p2(1) p4(1) by (blast intro: same_timeouts_trans)
  consider "\<not> overdue t oc" | "overdue t oc" "give_up t oc p1" | "overdue t oc" "\<not> give_up t oc p1" by blast
  then show ?case
  proof cases
    case 1
    then have "check_timeouts_loop t (kept @ [oc]) moved ocs p = (gaveUp, kept', moved', p')"
      using loop by simp
    note IH = 2(1) [unfolded due, OF 1 this]
    have "oc # ocs \<in> shuffles (oc # k) m" if "ocs \<in> shuffles k m" for k m
      using that by (cases m) auto
    then show ?thesis using IH 1 by (cases gaveUp) fastforce+
  next
    case c2: 2
    then have "gaveUp" "p' = p1" using loop by auto
    moreover have "timed_out t p oc (p_earliestTimeout p1)"
      using c2(2) p1(1) by (auto simp: give_up_def timed_out_def same_timeouts_def)
    ultimately show ?thesis using c2(1) p1(1,2) by auto
  next
    case 3
    then have "check_timeouts_loop t kept (moved @ [backed_off oc]) ocs p4 = (gaveUp, kept', moved', p')"
      using loop by simp
    note R = 2(2) [unfolded due not_not, OF 3(1) p1_def 3(2) p2_def p3_def p4_def this]
    have shuf: "oc # ocs \<in> shuffles k (oc # m)" if "ocs \<in> shuffles k m" for k m
      using that by (cases k) auto
    have t: "timed_out t p4 oc' e = timed_out t p oc' e" for oc' e
      using same by (simp add: timed_out_def same_timeouts_def)
    have e: "p_earliestTimeout p4 = p_earliestTimeout p \<or> p_earliestTimeout p4 = oc_sentTime oc"
      using p1(2) p2(2) p4(2) by simp
    have tr: "p_reliableDataInTransit p4 = p_reliableDataInTransit p - transit_bytes [oc]"
      using p1(3) p2(3) p4(3) by simp
    have "same_timeouts p p'" using R same same_timeouts_trans by blast
    moreover have "\<exists>oc'\<in>set (oc # ocs). overdue t oc' \<and> (\<exists>e. timed_out t p oc' e \<and>
        (e = p_earliestTimeout p \<or> (\<exists>oc'\<in>set (oc # ocs). e = oc_sentTime oc')))" if gaveUp
      using R that e unfolding t by auto
    moreover have "\<exists>k m. kept' = kept @ k \<and> moved' = moved @ map backed_off m \<and> oc # ocs \<in> shuffles k m \<and>
        (\<forall>oc\<in>set k. \<not> overdue t oc) \<and> (\<forall>oc\<in>set m. overdue t oc) \<and>
        p_reliableDataInTransit p' = p_reliableDataInTransit p - transit_bytes m" if ng: "\<not> gaveUp"
    proof -
      obtain k m where k: "kept' = kept @ k" "moved' = (moved @ [backed_off oc]) @ map backed_off m" "ocs \<in> shuffles k m"
        "\<forall>oc\<in>set k. \<not> overdue t oc" "\<forall>oc\<in>set m. overdue t oc"
        "p_reliableDataInTransit p' = p_reliableDataInTransit p4 - transit_bytes m"
        using R ng by auto
      show ?thesis
        by (rule exI [of _ k], rule exI [of _ "oc # m"]) (use k 3(1) shuf [OF k(3)] tr in \<open>simp add: algebra_simps\<close>)
    qed
    ultimately show ?thesis by (cases gaveUp) simp_all
  qed
qed

lemma check_timeouts_peer:
  assumes "enet_protocol_check_timeouts i event h = (False, event', h')" "i < length (h_peers h)"
  obtains k m where "p_sentReliableCommands (peer_at h i) \<in> shuffles k m"
    "p_sentReliableCommands (peer_at h' i) = k"
    "p_outgoingReliableCommands (peer_at h' i) = map backed_off m @ p_outgoingReliableCommands (peer_at h i)"
    "\<forall>oc\<in>set k. \<not> overdue (h_serviceTime h) oc" "\<forall>oc\<in>set m. overdue (h_serviceTime h) oc"
    "p_reliableDataInTransit (peer_at h' i) = p_reliableDataInTransit (peer_at h i) - transit_bytes m"
    "event' = event" "h_heap h' = h_heap h"
proof -
  obtain g kept moved p where l: "check_timeouts_loop (h_serviceTime h) [] [] (p_sentReliableCommands (peer_at h i))
      (peer_at h i) = (g, kept, moved, p)" by (metis prod_cases4)
  define q where "q = p\<lparr>p_sentReliableCommands := kept, p_outgoingReliableCommands := moved @ p_outgoingReliableCommands p\<rparr>"
  have g: "\<not> g" and r: "event' = event" "h' = upd_peer i (\<lambda>_. q) h"
    using assms(1) by (auto simp: enet_protocol_check_timeouts_def l Let_def q_def split: if_split_asm prod.split_asm)
  have q: "peer_at h' i = q" using r(2) assms(2) by simp
  have heap: "h_heap h' = h_heap h" using r(2) by simp
  obtain m where m: "moved = map backed_off m" "p_sentReliableCommands (peer_at h i) \<in> shuffles kept m"
    "\<forall>oc\<in>set kept. \<not> overdue (h_serviceTime h) oc" "\<forall>oc\<in>set m. overdue (h_serviceTime h) oc"
    "p_reliableDataInTransit p = p_reliableDataInTransit (peer_at h i) - transit_bytes m"
    "p_outgoingReliableCommands p = p_outgoingReliableCommands (peer_at h i)"
    using check_timeouts_loop_spec [OF l] g by (auto simp: same_timeouts_def)
  show ?thesis by (rule that [of kept m]) (use m heap r(1) in \<open>simp_all add: q q_def\<close>)
qed

text \<open>Property C22.  A peer gives up only when a sent command is overdue and a time of sending (or the
  earliest one noted before) is too long ago.  Otherwise exactly the overdue commands, with doubled
  time outs, go back to the front of the queue in their order, the others stay, and nothing is lost.\<close>

theorem check_timeouts_requeues:
  assumes "enet_protocol_check_timeouts i event h = (gaveUp, event', h')" "i < length (h_peers h)"
  shows "(gaveUp \<longrightarrow> (\<exists>oc\<in>set (p_sentReliableCommands (peer_at h i)). overdue (h_serviceTime h) oc \<and>
      (\<exists>e. timed_out (h_serviceTime h) (peer_at h i) oc e \<and>
        (e = p_earliestTimeout (peer_at h i) \<or>
         (\<exists>oc'\<in>set (p_sentReliableCommands (peer_at h i)). e = oc_sentTime oc'))))) \<and>
    (\<not> gaveUp \<longrightarrow> event' = event \<and> (\<exists>m.
      p_sentReliableCommands (peer_at h i) \<in> shuffles (p_sentReliableCommands (peer_at h' i)) m \<and>
      (\<forall>oc\<in>set (p_sentReliableCommands (peer_at h' i)). \<not> overdue (h_serviceTime h) oc) \<and>
      (\<forall>oc\<in>set m. overdue (h_serviceTime h) oc) \<and>
      p_outgoingReliableCommands (peer_at h' i) =
        map (\<lambda>oc. oc\<lparr>oc_roundTripTimeout := oc_roundTripTimeout oc * 2\<rparr>) m @ p_outgoingReliableCommands (peer_at h i)))"
proof (cases gaveUp)
  case True
  obtain g kept moved p where l: "check_timeouts_loop (h_serviceTime h) [] [] (p_sentReliableCommands (peer_at h i))
      (peer_at h i) = (g, kept, moved, p)" by (metis prod_cases4)
  then have g using assms(1) True by (auto simp: enet_protocol_check_timeouts_def Let_def split: if_split_asm)
  then show ?thesis using check_timeouts_loop_spec [OF l] True by simp
next
  case False
  then have "enet_protocol_check_timeouts i event h = (False, event', h')" using assms(1) by simp
  then obtain m where
    "p_sentReliableCommands (peer_at h i) \<in> shuffles (p_sentReliableCommands (peer_at h' i)) m"
    "\<forall>oc\<in>set (p_sentReliableCommands (peer_at h' i)). \<not> overdue (h_serviceTime h) oc"
    "\<forall>oc\<in>set m. overdue (h_serviceTime h) oc" "event' = event"
    "p_outgoingReliableCommands (peer_at h' i) = map backed_off m @ p_outgoingReliableCommands (peer_at h i)"
    by (rule check_timeouts_peer [OF _ assms(2)]) simp
  then show ?thesis using False by blast
qed

section \<open>Bytes in transit\<close>

definition in_transit_exact :: "ENetPeer \<Rightarrow> bool" where
  "in_transit_exact p \<longleftrightarrow> p_reliableDataInTransit p = transit_bytes (p_sentReliableCommands p)"

definition transit_limit :: "ENetPeer \<Rightarrow> u32" where
  "transit_limit p = ENET_MAX (p_packetThrottle p * p_windowSize p div ENET_PEER_PACKET_THROTTLE_SCALE) (p_mtu p)"

lemma transit_exceeded_limit:
  "transit_exceeded oc p \<longleftrightarrow> transit_limit p < p_reliableDataInTransit p + ucast (oc_fragmentLength oc)"
  by (simp only: transit_exceeded_def transit_limit_def Let_def)

lemma find_sent_less: "find_sent s c xs = Some n \<Longrightarrow> n < length xs"
  by (induction xs arbitrary: n) (auto split: if_split_asm)

lemma transit_bytes_remove_nth:
  "n < length xs \<Longrightarrow> transit_bytes (remove_nth n xs) = transit_bytes xs - transit_bytes [xs ! n]"
proof -
  assume "n < length xs"
  then have "xs = take n xs @ xs ! n # drop (Suc n) xs" by (rule id_take_nth_drop)
  then have "transit_bytes xs = transit_bytes (take n xs) + (transit_bytes [xs ! n] + transit_bytes (drop (Suc n) xs))"
    by (metis append.left_neutral append_Cons transit_bytes_simps(3))
  then show ?thesis by (simp add: remove_nth_def algebra_simps)
qed

lemma remove_sent_exact:
  assumes "in_transit_exact p"
  shows "in_transit_exact (snd (snd (enet_protocol_remove_sent_reliable_command s c hp p)))"
  using assms find_sent_less [of s c "p_sentReliableCommands p"]
  by (auto simp: in_transit_exact_def enet_protocol_remove_sent_reliable_command_def Let_def forget_command_simps
      forget_command_transit transit_bytes_remove_nth split: option.split)

lemma send_reliable_exact:
  assumes "in_transit_exact (peer_at h i)" "i < length (h_peers h)"
    "enet_protocol_send_reliable_outgoing_commands i h = (canPing, h')"
  shows "in_transit_exact (peer_at h' i)"
proof -
  obtain rest g where "sends i (p_outgoingReliableCommands (peer_at h i)) rest h g"
    "peer_at h' i = (peer_at g i)\<lparr>p_outgoingReliableCommands := rest\<rparr>"
    using send_reliable_peer [OF assms(3,2)] .
  then show ?thesis using assms(1) by (auto simp: sends_def in_transit_exact_def)
qed

text \<open>Property C23.  The number of reliable bytes in transit is exactly the sum over the sent commands that
  carry a packet: sending, timing out and acknowledging each keep it so.\<close>

theorem in_transit_stays_exact:
  assumes "in_transit_exact (peer_at h i)" "i < length (h_peers h)"
  shows "in_transit_exact (peer_at (snd (enet_protocol_send_reliable_outgoing_commands i h)) i) \<and>
    (fst (enet_protocol_check_timeouts i event h) \<or>
     in_transit_exact (peer_at (snd (snd (enet_protocol_check_timeouts i event h))) i)) \<and>
    in_transit_exact (peer_at (snd (on_peer i (enet_protocol_remove_sent_reliable_command s c) h)) i)"
proof (intro conjI)
  show "in_transit_exact (peer_at (snd (enet_protocol_send_reliable_outgoing_commands i h)) i)"
    using send_reliable_exact [OF assms] by (metis prod.collapse)
  show "in_transit_exact (peer_at (snd (on_peer i (enet_protocol_remove_sent_reliable_command s c) h)) i)"
    using remove_sent_exact [OF assms(1)] assms(2) by (simp add: on_peer_def split_beta)
  show "fst (enet_protocol_check_timeouts i event h) \<or>
     in_transit_exact (peer_at (snd (snd (enet_protocol_check_timeouts i event h))) i)"
  proof (rule disjCI)
    obtain g event' h' where c: "enet_protocol_check_timeouts i event h = (g, event', h')" by (metis prod_cases3)
    assume "\<not> in_transit_exact (peer_at (snd (snd (enet_protocol_check_timeouts i event h))) i)"
    then show "fst (enet_protocol_check_timeouts i event h)"
      using check_timeouts_peer [OF _ assms(2), of event event' h'] assms(1)
      by (cases g) (auto simp: c in_transit_exact_def transit_bytes_shuffles)
  qed
qed

lemma send_reliable_limit:
  assumes "send_reliable_loop i we ww cp ocs h = (rest, cp', h')" "i < length (h_peers h)"
    "p_reliableDataInTransit (peer_at h i) \<le> transit_limit (peer_at h i)"
  shows "transit_limit (peer_at h' i) = transit_limit (peer_at h i) \<and>
    p_reliableDataInTransit (peer_at h' i) \<le> transit_limit (peer_at h i)"
proof -
  let ?R = "\<lambda>_ _ h h'. i < length (h_peers h) \<longrightarrow> p_reliableDataInTransit (peer_at h i) \<le> transit_limit (peer_at h i) \<longrightarrow>
    transit_limit (peer_at h' i) = transit_limit (peer_at h i) \<and>
    p_reliableDataInTransit (peer_at h' i) \<le> transit_limit (peer_at h i)"
  have "?R ocs rest h h'"
    using assms(1)
  proof (rule send_reliable_loop_rule [where R = ?R])
    fix oc ocs rest h h'
    assume n: "oc_packet oc = None \<or> \<not> transit_exceeded oc (peer_at h i)"
      and IH: "?R ocs rest (reliable_sent i oc h) h'"
    show "?R (oc # ocs) rest h h'"
    proof (intro impI)
      assume i: "i < length (h_peers h)" and p: "p_reliableDataInTransit (peer_at h i) \<le> transit_limit (peer_at h i)"
      have at: "peer_at (reliable_sent i oc h) i = record_sent (h_serviceTime h) oc (peer_at h i)" using i by simp
      have "transit_limit (peer_at (reliable_sent i oc h) i) = transit_limit (peer_at h i)"
        unfolding at by (simp add: transit_limit_def)
      moreover have "p_reliableDataInTransit (peer_at (reliable_sent i oc h) i) \<le> transit_limit (peer_at h i)"
        unfolding at using p n by (auto simp: transit_exceeded_limit not_less split: option.split)
      ultimately show "transit_limit (peer_at h' i) = transit_limit (peer_at h i) \<and>
          p_reliableDataInTransit (peer_at h' i) \<le> transit_limit (peer_at h i)"
        using IH i by simp
    qed
  qed simp_all
  then show ?thesis using assms(2,3) by blast
qed


section \<open>Examples\<close>

text \<open>A peer with a reliable packet of five bytes to send, and one that waits for an acknowledgement.\<close>

definition queued_reliable_example :: ENetOutgoingCommand where
  "queued_reliable_example = (new_outgoing (make_command (ENET_PROTOCOL_COMMAND_SEND_RELIABLE OR
     ENET_PROTOCOL_COMMAND_FLAG_ACKNOWLEDGE) 0 (SendReliable (ENET_HOST_TO_NET_16 5))) (Some 0) 0 5)
     \<lparr>oc_reliableSequenceNumber := 1, oc_roundTripTimeout := 100, oc_roundTripTimeoutLimit := 3200\<rparr>"

definition reliable_host :: "u32 \<Rightarrow> ENetHost" where
  "reliable_host t = upd_peer 0 (\<lambda>p. p\<lparr>p_outgoingReliableCommands := [queued_reliable_example],
       p_sentReliableCommands := [queued_reliable_example], p_reliableDataInTransit := 5\<rparr>)
     ((send_example ENET_PEER_STATE_CONNECTED)\<lparr>h_serviceTime := t\<rparr>)"

lemma reliable_host_simps [simp]:
  "length (h_peers (reliable_host t)) = 1" "h_serviceTime (reliable_host t) = t"
  "p_outgoingReliableCommands (peer_at (reliable_host t) 0) = [queued_reliable_example]"
  "p_sentReliableCommands (peer_at (reliable_host t) 0) = [queued_reliable_example]"
  "p_reliableDataInTransit (peer_at (reliable_host t) 0) = 5"
  "p_mtu (peer_at (reliable_host t) 0) = 1400" "p_windowSize (peer_at (reliable_host t) 0) = 65536"
  "p_packetThrottle (peer_at (reliable_host t) 0) = 32"
  by (simp_all add: reliable_host_def send_example_def upd_peer_def reset_fields_def)

theorem send_reliable_conserves_witness:
  "\<exists>canPing h'. enet_protocol_send_reliable_outgoing_commands 0 (reliable_host 0) = (canPing, h') \<and>
     (\<exists>sent. [queued_reliable_example] \<in> shuffles sent (p_outgoingReliableCommands (peer_at h' 0)))"
proof -
  obtain canPing h' where r: "enet_protocol_send_reliable_outgoing_commands 0 (reliable_host 0) = (canPing, h')"
    by (meson surj_pair)
  then show ?thesis using send_reliable_conserves [OF r] by auto
qed

theorem check_timeouts_requeues_witness:
  "\<exists>gaveUp event' h'. enet_protocol_check_timeouts 0 None (reliable_host 50) = (gaveUp, event', h') \<and>
     \<not> gaveUp \<and> (\<exists>m. [queued_reliable_example] \<in> shuffles (p_sentReliableCommands (peer_at h' 0)) m)"
proof -
  obtain gaveUp event' h' where r: "enet_protocol_check_timeouts 0 None (reliable_host 50) = (gaveUp, event', h')"
    by (rule prod_cases3)
  have "\<not> overdue 50 queued_reliable_example" by (simp add: overdue_def queued_reliable_example_def new_outgoing_def ENET_TIME_DIFFERENCE_def ENET_TIME_LESS_def)
  then have "\<not> gaveUp" using check_timeouts_requeues [OF r] by auto
  then show ?thesis using check_timeouts_requeues [OF r] r by auto
qed

lemma reliable_host_exact: "in_transit_exact (peer_at (reliable_host t) 0)"
  by (simp add: in_transit_exact_def) (simp add: queued_reliable_example_def new_outgoing_def)

theorem in_transit_stays_exact_witness:
  "in_transit_exact (peer_at (snd (enet_protocol_send_reliable_outgoing_commands 0 (reliable_host 0))) 0)"
  using in_transit_stays_exact [OF reliable_host_exact, of 0] by simp


end
