(* ===== verification/EnetHost.thy ===== *)
theory EnetHost
  imports EnetReliable
begin

text \<open>
  The host (\<^verbatim>\<open>enet/host.cpp\<close>): creating and destroying it, connecting to another host, broadcasting
  a packet, the settings, and the bandwidth throttle that shares the host's bandwidth out to its peers.
  The calls of the operating system are the argument of \<open>enet_host_create\<close>.
\<close>

section \<open>Creating a host\<close>

text \<open>What the system answers: whether the socket could be created and bound, the address it got, the
  random seed and the address of the struct, which is mixed into the seed.\<close>

record host_system =
  hs_socket :: bool
  hs_bind :: "ENetAddress \<Rightarrow> bool"
  hs_address :: "ENetAddress option"
  hs_seed :: u32
  hs_pointer :: u32

definition limit_channels :: "size_t \<Rightarrow> size_t" where
  "limit_channels channelLimit =
     (if channelLimit = 0 \<or> channelLimit > ENET_PROTOCOL_MAXIMUM_CHANNEL_COUNT
      then ENET_PROTOCOL_MAXIMUM_CHANNEL_COUNT
      else if channelLimit < ENET_PROTOCOL_MINIMUM_CHANNEL_COUNT
      then ENET_PROTOCOL_MINIMUM_CHANNEL_COUNT else channelLimit)"

definition initial_seed :: "host_system \<Rightarrow> u32" where
  "initial_seed s = (let seed = hs_pointer s + hs_seed s in push_bit 16 seed OR drop_bit 16 seed)"

definition initial_host ::
    "host_system \<Rightarrow> heap \<Rightarrow> world \<Rightarrow> ENetAddress option \<Rightarrow> size_t \<Rightarrow> size_t \<Rightarrow> u32 \<Rightarrow> u32 \<Rightarrow> ENetHost" where
  "initial_host s hp w address peerCount channelLimit incomingBandwidth outgoingBandwidth =
     (let h = zero_host hp w;
          h = h\<lparr>h_peers := replicate (unat peerCount) zero_peer\<rparr>;
          h = (case address of
                 None \<Rightarrow> h
               | Some a \<Rightarrow> h\<lparr>h_address := (case hs_address s of Some a' \<Rightarrow> a' | None \<Rightarrow> a)\<rparr>)
      in h\<lparr>h_randomSeed := initial_seed s, h_channelLimit := limit_channels channelLimit,
           h_incomingBandwidth := incomingBandwidth, h_outgoingBandwidth := outgoingBandwidth,
           h_mtu := ENET_HOST_DEFAULT_MTU,
           h_receivedAddress := \<lparr>addr_host = ENET_HOST_ANY, addr_port = 0\<rparr>,
           h_duplicatePeers := ENET_PROTOCOL_MAXIMUM_PEER_ID,
           h_maximumPacketSize := ENET_HOST_DEFAULT_MAXIMUM_PACKET_SIZE,
           h_maximumWaitingData := ENET_HOST_DEFAULT_MAXIMUM_WAITING_DATA\<rparr>)"

definition initial_peer :: "nat \<Rightarrow> ENetHost \<Rightarrow> ENetHost" where
  "initial_peer i h =
     enet_peer_reset i (upd_peer i (\<lambda>p. p\<lparr>p_incomingPeerID := of_nat i,
       p_outgoingSessionID := 0xFF, p_incomingSessionID := 0xFF, p_data := 0,
       p_acknowledgements := [], p_sentReliableCommands := [], p_sentUnreliableCommands := [],
       p_outgoingReliableCommands := [], p_outgoingUnreliableCommands := [],
       p_dispatchedCommands := []\<rparr>) h)"

text \<open>The host, or \<open>None\<close> for NULL, and the heap.\<close>

definition enet_host_create ::
    "host_system \<Rightarrow> heap \<Rightarrow> world \<Rightarrow> ENetAddress option \<Rightarrow> size_t \<Rightarrow> size_t \<Rightarrow> u32 \<Rightarrow> u32 \<Rightarrow>
     ENetHost option \<times> heap" where
  "enet_host_create s hp w address peerCount channelLimit incomingBandwidth outgoingBandwidth =
     (if peerCount > ENET_PROTOCOL_MAXIMUM_PEER_ID then (None, hp)
      else case enet_malloc hp of (ok, hp) \<Rightarrow>
        if \<not> ok then (None, hp)
        else case enet_malloc hp of (ok, hp) \<Rightarrow>
          if \<not> ok then (None, hp)
          else if \<not> hs_socket s \<or> (case address of None \<Rightarrow> False | Some a \<Rightarrow> \<not> hs_bind s a) then (None, hp)
          else
            let h = initial_host s hp w address peerCount channelLimit incomingBandwidth outgoingBandwidth;
                h = fold initial_peer [0..<length (h_peers h)] h
            in (Some h, h_heap h))"

text \<open>Destroying: the heap that is left, and the context that the compressor has been told to destroy.\<close>

definition destroyed_context :: "ENetCompressor \<Rightarrow> nat option" where
  "destroyed_context c = (if cp_destroy c then cp_context c else None)"

definition enet_host_destroy :: "ENetHost option \<Rightarrow> heap \<Rightarrow> heap \<times> nat option" where
  "enet_host_destroy host hp =
     (case host of
        None \<Rightarrow> (hp, None)
      | Some h \<Rightarrow>
          let h = fold enet_peer_reset [0..<length (h_peers h)] h
          in (h_heap h, destroyed_context (h_compressor h)))"

section \<open>Connecting and broadcasting\<close>

fun find_disconnected :: "ENetPeer list \<Rightarrow> nat option" where
  "find_disconnected [] = None"
| "find_disconnected (p # ps) =
     (if p_state p = ENET_PEER_STATE_DISCONNECTED then Some 0 else map_option Suc (find_disconnected ps))"

definition connect_window :: "u32 \<Rightarrow> u32" where
  "connect_window outgoingBandwidth =
     clamp_window (if outgoingBandwidth = 0 then ENET_PROTOCOL_MAXIMUM_WINDOW_SIZE
       else (outgoingBandwidth div ENET_PEER_WINDOW_SIZE_SCALE) * ENET_PROTOCOL_MINIMUM_WINDOW_SIZE)"

definition connect_command :: "ENetHost \<Rightarrow> size_t \<Rightarrow> u32 \<Rightarrow> ENetPeer \<Rightarrow> ENetProtocol" where
  "connect_command h channelCount data p =
     make_command (ENET_PROTOCOL_COMMAND_CONNECT OR ENET_PROTOCOL_COMMAND_FLAG_ACKNOWLEDGE) 0xFF
       (Connect \<lparr>co_outgoingPeerID = ENET_HOST_TO_NET_16 (p_incomingPeerID p),
          co_incomingSessionID = p_incomingSessionID p, co_outgoingSessionID = p_outgoingSessionID p,
          co_mtu = ENET_HOST_TO_NET_32 (p_mtu p), co_windowSize = ENET_HOST_TO_NET_32 (p_windowSize p),
          co_channelCount = ENET_HOST_TO_NET_32 (ucast channelCount),
          co_incomingBandwidth = ENET_HOST_TO_NET_32 (h_incomingBandwidth h),
          co_outgoingBandwidth = ENET_HOST_TO_NET_32 (h_outgoingBandwidth h),
          co_packetThrottleInterval = ENET_HOST_TO_NET_32 (p_packetThrottleInterval p),
          co_packetThrottleAcceleration = ENET_HOST_TO_NET_32 (p_packetThrottleAcceleration p),
          co_packetThrottleDeceleration = ENET_HOST_TO_NET_32 (p_packetThrottleDeceleration p),
          co_connectID = p_connectID p, co_data = ENET_HOST_TO_NET_32 data\<rparr>)"

definition clamp_channelCount :: "size_t \<Rightarrow> size_t" where
  "clamp_channelCount n = (if n < ENET_PROTOCOL_MINIMUM_CHANNEL_COUNT then ENET_PROTOCOL_MINIMUM_CHANNEL_COUNT
     else if n > ENET_PROTOCOL_MAXIMUM_CHANNEL_COUNT then ENET_PROTOCOL_MAXIMUM_CHANNEL_COUNT else n)"

text \<open>The fields of the peer that connecting sets.\<close>

definition start_connect :: "ENetHost \<Rightarrow> ENetAddress \<Rightarrow> size_t \<Rightarrow> ENetPeer \<Rightarrow> ENetPeer" where
  "start_connect h address channelCount p = p\<lparr>
     p_channels := replicate (unat channelCount) new_channel, p_channelCount := channelCount,
     p_state := ENET_PEER_STATE_CONNECTING, p_address := address, p_connectID := h_randomSeed h,
     p_windowSize := connect_window (h_outgoingBandwidth h)\<rparr>"

definition enet_host_connect :: "ENetAddress \<Rightarrow> size_t \<Rightarrow> u32 \<Rightarrow> ENetHost \<Rightarrow> nat option \<times> ENetHost" where
  "enet_host_connect address channelCount data h =
     (let channelCount = clamp_channelCount channelCount
      in case find_disconnected (h_peers h) of
           None \<Rightarrow> (None, h)
         | Some i \<Rightarrow>
             (case enet_malloc (h_heap h) of (ok, hp) \<Rightarrow>
                if \<not> ok then (None, h\<lparr>h_heap := hp\<rparr>)
                else
                  let h = h\<lparr>h_heap := hp, h_randomSeed := h_randomSeed h + 1\<rparr>;
                      h = upd_peer i (start_connect h address channelCount) h
                  in (Some i, queue_outgoing i (connect_command h channelCount data (peer_at h i)) h)))"

text \<open>\<open>None\<close> when \<^verbatim>\<open>enet_peer_send\<close> does not return.\<close>

fun broadcast_loop :: "u8 \<Rightarrow> nat \<Rightarrow> nat list \<Rightarrow> ENetHost \<Rightarrow> ENetHost option" where
  "broadcast_loop channelID packet [] h = Some h"
| "broadcast_loop channelID packet (i # is) h =
     (if state_at h i \<noteq> ENET_PEER_STATE_CONNECTED then broadcast_loop channelID packet is h
      else case enet_peer_send i channelID packet h of
             None \<Rightarrow> None
           | Some (r, h) \<Rightarrow> broadcast_loop channelID packet is h)"

definition enet_host_broadcast :: "u8 \<Rightarrow> nat \<Rightarrow> ENetHost \<Rightarrow> ENetHost option" where
  "enet_host_broadcast channelID packet h =
     map_option (\<lambda>h. if pk_referenceCount (deref_packet (h_heap h) packet) = 0
                     then h\<lparr>h_heap := enet_packet_destroy (Some packet) (h_heap h)\<rparr> else h)
       (broadcast_loop channelID packet [0..<length (h_peers h)] h)"

section \<open>Settings\<close>

text \<open>The result is the context that the old compressor has been told to destroy.\<close>

definition enet_host_compress :: "ENetCompressor option \<Rightarrow> ENetHost \<Rightarrow> nat option \<times> ENetHost" where
  "enet_host_compress compressor h =
     (destroyed_context (h_compressor h),
      h\<lparr>h_compressor := (case compressor of
           Some c \<Rightarrow> c
         | None \<Rightarrow> (h_compressor h)\<lparr>cp_context := None\<rparr>)\<rparr>)"

definition enet_host_channel_limit :: "size_t \<Rightarrow> ENetHost \<Rightarrow> ENetHost" where
  "enet_host_channel_limit channelLimit h = h\<lparr>h_channelLimit := limit_channels channelLimit\<rparr>"

definition enet_host_bandwidth_limit :: "u32 \<Rightarrow> u32 \<Rightarrow> ENetHost \<Rightarrow> ENetHost" where
  "enet_host_bandwidth_limit incomingBandwidth outgoingBandwidth h =
     h\<lparr>h_incomingBandwidth := incomingBandwidth, h_outgoingBandwidth := outgoingBandwidth,
       h_recalculateBandwidthLimits := True\<rparr>"

section \<open>The bandwidth throttle\<close>

abbreviation (input) connected_peer :: "ENetPeer \<Rightarrow> bool" where
  "connected_peer p \<equiv> is_connected (p_state p)"

definition throttle_for :: "u32 \<Rightarrow> u32 \<Rightarrow> u32" where
  "throttle_for dataTotal bandwidth =
     (if dataTotal \<le> bandwidth then ENET_PEER_PACKET_THROTTLE_SCALE
      else (bandwidth * ENET_PEER_PACKET_THROTTLE_SCALE) div dataTotal)"

text \<open>The bandwidth of a peer over the elapsed time.\<close>

definition peer_bandwidth :: "u32 \<Rightarrow> ENetPeer \<Rightarrow> u32" where
  "peer_bandwidth elapsed p = (p_incomingBandwidth p * elapsed) div 1000"

definition needs_throttle :: "u32 \<Rightarrow> u32 \<Rightarrow> u32 \<Rightarrow> ENetPeer \<Rightarrow> bool" where
  "needs_throttle now elapsed throttle p \<longleftrightarrow>
     connected_peer p \<and> p_incomingBandwidth p \<noteq> 0 \<and> p_outgoingBandwidthThrottleEpoch p \<noteq> now \<and>
     (throttle * p_outgoingDataTotal p) div ENET_PEER_PACKET_THROTTLE_SCALE > peer_bandwidth elapsed p"

definition set_throttle_limit :: "u32 \<Rightarrow> ENetPeer \<Rightarrow> ENetPeer" where
  "set_throttle_limit limit p =
     (let p = p\<lparr>p_packetThrottleLimit := limit\<rparr>
      in p\<lparr>p_packetThrottle := (if p_packetThrottle p > limit then limit else p_packetThrottle p)\<rparr>)"

definition throttle_peer :: "u32 \<Rightarrow> u32 \<Rightarrow> ENetPeer \<Rightarrow> ENetPeer" where
  "throttle_peer now elapsed p =
     (let limit = (peer_bandwidth elapsed p * ENET_PEER_PACKET_THROTTLE_SCALE) div p_outgoingDataTotal p;
          p = set_throttle_limit (if limit = 0 then 1 else limit) p
      in p\<lparr>p_outgoingBandwidthThrottleEpoch := now, p_incomingDataTotal := 0, p_outgoingDataTotal := 0\<rparr>)"

text \<open>One pass over the peers: the peers, \<open>peersRemaining\<close>, \<open>dataTotal\<close>, \<open>bandwidth\<close>, \<open>needsAdjustment\<close>.\<close>

fun throttle_pass ::
    "u32 \<Rightarrow> u32 \<Rightarrow> u32 \<Rightarrow> ENetPeer list \<Rightarrow> u32 \<Rightarrow> u32 \<Rightarrow> u32 \<Rightarrow> bool \<Rightarrow>
     ENetPeer list \<times> u32 \<times> u32 \<times> u32 \<times> bool" where
  "throttle_pass now elapsed throttle [] remaining dataTotal bandwidth needs = ([], remaining, dataTotal, bandwidth, needs)"
| "throttle_pass now elapsed throttle (p # ps) remaining dataTotal bandwidth needs =
     (if needs_throttle now elapsed throttle p then
        let pb = peer_bandwidth elapsed p
        in case throttle_pass now elapsed throttle ps (remaining - 1) (dataTotal - pb) (bandwidth - pb) True of
             (ps, r) \<Rightarrow> (throttle_peer now elapsed p # ps, r)
      else case throttle_pass now elapsed throttle ps remaining dataTotal bandwidth needs of
             (ps, r) \<Rightarrow> (p # ps, r))"

text \<open>The peers that a pass can still adjust.\<close>

definition adjustable :: "u32 \<Rightarrow> ENetPeer list \<Rightarrow> nat" where
  "adjustable now ps = length (filter (\<lambda>p. p_outgoingBandwidthThrottleEpoch p \<noteq> now) ps)"

lemma throttle_pass_adjustable:
  "throttle_pass now elapsed throttle ps remaining dataTotal bandwidth needs = (ps', r', t', b', needs') \<Longrightarrow>
   adjustable now ps' \<le> adjustable now ps \<and>
   (needs' \<and> \<not> needs \<longrightarrow> adjustable now ps' < adjustable now ps)"
proof (induction ps arbitrary: remaining dataTotal bandwidth needs ps')
  case (Cons p ps)
  have "p_outgoingBandwidthThrottleEpoch (throttle_peer now elapsed p) = now"
    by (simp add: throttle_peer_def Let_def)
  then show ?case
    using Cons by (fastforce simp: adjustable_def needs_throttle_def Let_def split: if_split_asm prod.split_asm)
qed simp

function throttle_loop ::
    "u32 \<Rightarrow> u32 \<Rightarrow> ENetPeer list \<Rightarrow> u32 \<Rightarrow> u32 \<Rightarrow> u32 \<Rightarrow> bool \<Rightarrow> ENetPeer list \<times> u32 \<times> u32 \<times> u32" where
  "throttle_loop now elapsed ps remaining dataTotal bandwidth needs =
     (if remaining > 0 \<and> needs then
        (case throttle_pass now elapsed (throttle_for dataTotal bandwidth) ps remaining dataTotal bandwidth False of
           (ps, remaining, dataTotal, bandwidth, needs) \<Rightarrow>
             throttle_loop now elapsed ps remaining dataTotal bandwidth needs)
      else (ps, remaining, dataTotal, bandwidth))"
  by pat_completeness auto
termination
proof (relation "measure (\<lambda>(now, elapsed, ps, remaining, dataTotal, bandwidth, needs).
    if needs then adjustable now ps + 1 else 0)", goal_cases)
  case (2 now elapsed ps remaining dataTotal bandwidth needs ps' y remaining' ya dt' yb bw' needs')
  then have "throttle_pass now elapsed (throttle_for dataTotal bandwidth) ps remaining dataTotal bandwidth False =
      (ps', remaining', dt', bw', needs')" by simp
  from throttle_pass_adjustable [OF this] show ?case using 2(1) by auto
qed simp

declare throttle_loop.simps [simp del]

text \<open>What is left over goes to the peers that have not been adjusted.\<close>

definition throttle_rest :: "u32 \<Rightarrow> u32 \<Rightarrow> ENetPeer \<Rightarrow> ENetPeer" where
  "throttle_rest now throttle p =
     (if \<not> connected_peer p \<or> p_outgoingBandwidthThrottleEpoch p = now then p
      else (set_throttle_limit throttle p)\<lparr>p_incomingDataTotal := 0, p_outgoingDataTotal := 0\<rparr>)"

definition outgoing_total :: "ENetPeer list \<Rightarrow> u32" where
  "outgoing_total ps = sum_list (map p_outgoingDataTotal (filter (\<lambda>p. connected_peer p) ps))"

text \<open>The first half of the function: the throttle limits of the peers.\<close>

definition throttle_outgoing :: "u32 \<Rightarrow> u32 \<Rightarrow> ENetHost \<Rightarrow> ENetHost" where
  "throttle_outgoing now elapsed h =
     (let remaining = ucast (h_connectedPeers h);
          (dataTotal, bandwidth) =
            (if h_outgoingBandwidth h \<noteq> 0
             then (outgoing_total (h_peers h), (h_outgoingBandwidth h * elapsed) div 1000)
             else (0xFFFFFFFF, 0xFFFFFFFF))
      in case throttle_loop now elapsed (h_peers h) remaining dataTotal bandwidth (h_bandwidthLimitedPeers h > 0) of
           (ps, remaining, dataTotal, bandwidth) \<Rightarrow>
             h\<lparr>h_peers := (if remaining > 0 then map (throttle_rest now (throttle_for dataTotal bandwidth)) ps else ps)\<rparr>)"

text \<open>The second half: the share of the host's incoming bandwidth that each peer may send.\<close>

definition keeps_own_limit :: "u32 \<Rightarrow> u32 \<Rightarrow> ENetPeer \<Rightarrow> bool" where
  "keeps_own_limit now bandwidthLimit p \<longleftrightarrow>
     connected_peer p \<and> p_incomingBandwidthThrottleEpoch p \<noteq> now \<and>
     \<not> (p_outgoingBandwidth p > 0 \<and> p_outgoingBandwidth p \<ge> bandwidthLimit)"

fun limit_pass ::
    "u32 \<Rightarrow> u32 \<Rightarrow> ENetPeer list \<Rightarrow> u32 \<Rightarrow> u32 \<Rightarrow> bool \<Rightarrow> ENetPeer list \<times> u32 \<times> u32 \<times> bool" where
  "limit_pass now bandwidthLimit [] remaining bandwidth needs = ([], remaining, bandwidth, needs)"
| "limit_pass now bandwidthLimit (p # ps) remaining bandwidth needs =
     (if keeps_own_limit now bandwidthLimit p then
        (case limit_pass now bandwidthLimit ps (remaining - 1) (bandwidth - p_outgoingBandwidth p) True of
           (ps, r) \<Rightarrow> (p\<lparr>p_incomingBandwidthThrottleEpoch := now\<rparr> # ps, r))
      else (case limit_pass now bandwidthLimit ps remaining bandwidth needs of (ps, r) \<Rightarrow> (p # ps, r)))"

definition limitable :: "u32 \<Rightarrow> ENetPeer list \<Rightarrow> nat" where
  "limitable now ps = length (filter (\<lambda>p. p_incomingBandwidthThrottleEpoch p \<noteq> now) ps)"

lemma limit_pass_limitable:
  "limit_pass now bandwidthLimit ps remaining bandwidth needs = (ps', r', b', needs') \<Longrightarrow>
   limitable now ps' \<le> limitable now ps \<and> (needs' \<and> \<not> needs \<longrightarrow> limitable now ps' < limitable now ps)"
  by (induction ps arbitrary: remaining bandwidth needs ps')
    (fastforce simp: limitable_def keeps_own_limit_def split: if_split_asm prod.split_asm)+

function limit_loop ::
    "u32 \<Rightarrow> ENetPeer list \<Rightarrow> u32 \<Rightarrow> u32 \<Rightarrow> u32 \<Rightarrow> bool \<Rightarrow> ENetPeer list \<times> u32" where
  "limit_loop now ps remaining bandwidth bandwidthLimit needs =
     (if remaining > 0 \<and> needs then
        let bandwidthLimit = bandwidth div remaining
        in case limit_pass now bandwidthLimit ps remaining bandwidth False of
             (ps, remaining, bandwidth, needs) \<Rightarrow> limit_loop now ps remaining bandwidth bandwidthLimit needs
      else (ps, bandwidthLimit))"
  by pat_completeness auto
termination
proof (relation "measure (\<lambda>(now, ps, remaining, bandwidth, bandwidthLimit, needs).
    if needs then limitable now ps + 1 else 0)", goal_cases)
  case (2 now ps remaining bandwidth bandwidthLimit needs limit ps' y remaining' ya bw' needs')
  then have "limit_pass now limit ps remaining bandwidth False = (ps', remaining', bw', needs')" by simp
  from limit_pass_limitable [OF this] show ?case using 2(1) by auto
qed simp

declare limit_loop.simps [simp del]

definition limit_command :: "u32 \<Rightarrow> u32 \<Rightarrow> ENetHost \<Rightarrow> ENetPeer \<Rightarrow> ENetProtocol" where
  "limit_command now bandwidthLimit h p =
     make_command (ENET_PROTOCOL_COMMAND_BANDWIDTH_LIMIT OR ENET_PROTOCOL_COMMAND_FLAG_ACKNOWLEDGE) 0xFF
       (BandwidthLimit
         (ENET_HOST_TO_NET_32 (if p_incomingBandwidthThrottleEpoch p = now then p_outgoingBandwidth p else bandwidthLimit))
         (ENET_HOST_TO_NET_32 (h_outgoingBandwidth h)))"

definition announce_limit :: "u32 \<Rightarrow> u32 \<Rightarrow> nat \<Rightarrow> ENetHost \<Rightarrow> ENetHost" where
  "announce_limit now bandwidthLimit i h =
     (if connected_peer (peer_at h i) then queue_outgoing i (limit_command now bandwidthLimit h (peer_at h i)) h else h)"

definition recalculate_limits :: "u32 \<Rightarrow> ENetHost \<Rightarrow> ENetHost" where
  "recalculate_limits now h =
     (let h = h\<lparr>h_recalculateBandwidthLimits := False\<rparr>;
          (ps, bandwidthLimit) =
            (if h_incomingBandwidth h = 0 then (h_peers h, 0)
             else limit_loop now (h_peers h) (ucast (h_connectedPeers h)) (h_incomingBandwidth h) 0 True);
          h = h\<lparr>h_peers := ps\<rparr>
      in fold (announce_limit now bandwidthLimit) [0..<length ps] h)"

definition enet_host_bandwidth_throttle :: "ENetHost \<Rightarrow> ENetHost" where
  "enet_host_bandwidth_throttle h =
     (case enet_time_get h of (now, h) \<Rightarrow>
        let elapsed = now - h_bandwidthThrottleEpoch h
        in if elapsed < ENET_HOST_BANDWIDTH_THROTTLE_INTERVAL then h
           else
             let h = h\<lparr>h_bandwidthThrottleEpoch := now\<rparr>
             in if (ucast (h_connectedPeers h) :: u32) = 0 then h
                else
                  let h = throttle_outgoing now elapsed h
                  in if h_recalculateBandwidthLimits h then recalculate_limits now h else h)"


section \<open>A new host\<close>

definition fresh_peer :: "u32 \<Rightarrow> nat \<Rightarrow> ENetPeer" where
  "fresh_peer mtu i = reset_fields mtu (zero_peer\<lparr>p_incomingPeerID := of_nat i, p_outgoingSessionID := 0xFF,
     p_incomingSessionID := 0xFF\<rparr>)"

lemma initial_peer_fresh:
  assumes "peer_at h i = zero_peer" "i < length (h_peers h)"
  shows "initial_peer i h = h\<lparr>h_peers := (h_peers h)[i := fresh_peer (h_mtu h) i]\<rparr>"
  using assms
  by (simp add: initial_peer_def enet_peer_reset_def enet_peer_on_disconnect_def enet_peer_reset_queues_def
      upd_peer_def Let_def fresh_peer_def reset_fields_def zero_peer_def enet_peer_reset_outgoing_commands_def
      enet_peer_reset_incoming_commands_def enet_peer_remove_incoming_commands_def)

lemma initial_peers:
  assumes "\<forall>p\<in>set (h_peers h). p = zero_peer" "n \<le> length (h_peers h)"
  shows "fold initial_peer [0..<n] h = h\<lparr>h_peers := map (fresh_peer (h_mtu h)) [0..<n] @ drop n (h_peers h)\<rparr>"
  using assms(2)
proof (induction n)
  case (Suc n)
  let ?h = "h\<lparr>h_peers := map (fresh_peer (h_mtu h)) [0..<n] @ drop n (h_peers h)\<rparr>"
  have d: "drop n (h_peers h) = zero_peer # drop (Suc n) (h_peers h)"
    using Suc(2) assms(1) by (metis Cons_nth_drop_Suc Suc_le_eq nth_mem)
  have "fold initial_peer [0..<Suc n] h = initial_peer n ?h" using Suc by simp
  also have "\<dots> = ?h\<lparr>h_peers := (h_peers ?h)[n := fresh_peer (h_mtu ?h) n]\<rparr>"
    by (rule initial_peer_fresh) (use d Suc(2) in \<open>simp_all add: nth_append\<close>)
  finally show ?case by (simp add: d list_update_append)
qed simp

lemma initial_host_simps [simp]:
  "h_peers (initial_host s hp w address peerCount channelLimit incoming outgoing) = replicate (unat peerCount) zero_peer"
  "h_mtu (initial_host s hp w address peerCount channelLimit incoming outgoing) = 1400"
  "h_dispatchQueue (initial_host s hp w address peerCount channelLimit incoming outgoing) = []"
  "h_connectedPeers (initial_host s hp w address peerCount channelLimit incoming outgoing) = 0"
  "h_bandwidthLimitedPeers (initial_host s hp w address peerCount channelLimit incoming outgoing) = 0"
  "h_heap (initial_host s hp w address peerCount channelLimit incoming outgoing) = hp"
  "length (h_commands (initial_host s hp w address peerCount channelLimit incoming outgoing)) = 32"
  "length (h_buffers (initial_host s hp w address peerCount channelLimit incoming outgoing)) = 65"
  by (simp_all add: initial_host_def zero_host_def Let_def split: option.split)

lemma fresh_peer_ok: "peer_ok (fresh_peer 1400 i)"
  by (simp add: peer_ok_defs fresh_peer_def reset_fields_def zero_peer_def)

lemma fresh_peer_simps [simp]:
  "p_state (fresh_peer mtu i) = ENET_PEER_STATE_DISCONNECTED" "p_incomingPeerID (fresh_peer mtu i) = of_nat i"
  "\<not> p_needsDispatch (fresh_peer mtu i)" "\<not> is_limited (fresh_peer mtu i)"
  by (simp_all add: fresh_peer_def reset_fields_def is_limited_def zero_peer_def)

abbreviation (input) created_host where
  "created_host s hp w address peerCount channelLimit incoming outgoing \<equiv>
     fold initial_peer [0..<unat peerCount] (initial_host s hp w address peerCount channelLimit incoming outgoing)"

lemma created_host_eq:
  "created_host s hp w address peerCount channelLimit incoming outgoing =
     (initial_host s hp w address peerCount channelLimit incoming outgoing)
       \<lparr>h_peers := map (fresh_peer 1400) [0..<unat peerCount]\<rparr>"
  by (subst initial_peers) simp_all

lemma created_host_ok: "host_ok (created_host s hp w address peerCount channelLimit incoming outgoing)"
  unfolding created_host_eq host_ok_def by (auto simp: fresh_peer_ok filter_empty_conv)

lemma enet_malloc_packets [simp]: "hp_packets (snd (enet_malloc hp)) = hp_packets hp"
  by (simp add: enet_malloc_def)

text \<open>Property C26.  Creating a host fails for more than 4095 peers, when an allocation fails, or when the
  socket cannot be created or bound; otherwise the host satisfies the invariant, its peers are all
  disconnected and know their own position, its arrays have their sizes, and no packet is touched.\<close>

theorem enet_host_create_ok:
  assumes "enet_host_create s hp w address peerCount channelLimit incoming outgoing = (host, hp')"
  shows "hp_packets hp' = hp_packets hp \<and>
    (host = None \<longleftrightarrow> peerCount > ENET_PROTOCOL_MAXIMUM_PEER_ID \<or> \<not> fst (enet_malloc hp) \<or>
       \<not> fst (enet_malloc (snd (enet_malloc hp))) \<or> \<not> hs_socket s \<or> (\<exists>a. address = Some a \<and> \<not> hs_bind s a)) \<and>
    (\<forall>h. host = Some h \<longrightarrow> host_ok h \<and> length (h_peers h) = unat peerCount \<and>
       (\<forall>i<length (h_peers h). state_at h i = ENET_PEER_STATE_DISCONNECTED \<and> unat (p_incomingPeerID (peer_at h i)) = i) \<and>
       length (h_commands h) = ENET_PROTOCOL_MAXIMUM_PACKET_COMMANDS \<and> length (h_buffers h) = ENET_BUFFER_MAXIMUM)"
proof -
  let ?h1 = "snd (enet_malloc hp)"
  let ?h2 = "snd (enet_malloc ?h1)"
  let ?bad = "peerCount > ENET_PROTOCOL_MAXIMUM_PEER_ID \<or> \<not> fst (enet_malloc hp) \<or>
       \<not> fst (enet_malloc ?h1) \<or> \<not> hs_socket s \<or> (\<exists>a. address = Some a \<and> \<not> hs_bind s a)"
  let ?h = "created_host s ?h2 w address peerCount channelLimit incoming outgoing"
  show ?thesis
  proof (cases ?bad)
    case True
    then have "host = None \<and> hp' \<in> {hp, ?h1, ?h2}"
      using assms by (auto simp: enet_host_create_def split_beta split: option.split_asm if_split_asm)
    then show ?thesis using True by auto
  next
    case False
    then have eq: "host = Some ?h" "hp' = h_heap ?h"
      using assms by (auto simp: enet_host_create_def split_beta Let_def split: option.split_asm if_split_asm)
    have ok: "host_ok ?h" by (rule created_host_ok)
    have "hp' = ?h2" unfolding eq(2) created_host_eq by simp
    moreover have "unat peerCount \<le> 4095" using False by (simp add: not_less word_le_nat_alt)
    then have "i < unat peerCount \<Longrightarrow> unat (of_nat i :: u16) = i" for i
      by (simp add: unsigned_of_nat take_bit_nat_eq_self)
    ultimately show ?thesis
      using False ok unfolding eq(1) by (simp add: created_host_eq)
  qed
qed

theorem enet_host_create_ok_witness:
  "\<exists>h hp'. enet_host_create \<lparr>hs_socket = True, hs_bind = (\<lambda>_. True), hs_address = None, hs_seed = 5, hs_pointer = 0\<rparr>
      fresh_heap quiet_world None 32 0 0 0 = (Some h, hp') \<and> host_ok h \<and> length (h_peers h) = 32"
proof -
  obtain host hp' where c: "enet_host_create \<lparr>hs_socket = True, hs_bind = (\<lambda>_. True), hs_address = None,
      hs_seed = 5, hs_pointer = 0\<rparr> fresh_heap quiet_world None 32 0 0 0 = (host, hp')" by (meson surj_pair)
  then obtain h where "host = Some h"
    using enet_host_create_ok [OF c] by (cases host) (simp_all add: enet_malloc_def fresh_heap_def)
  then show ?thesis using enet_host_create_ok [OF c] c by simp
qed


section \<open>Connecting\<close>

lemma find_disconnected_Some:
  "find_disconnected ps = Some i \<Longrightarrow>
   i < length ps \<and> p_state (ps ! i) = ENET_PEER_STATE_DISCONNECTED \<and>
   (\<forall>j<i. p_state (ps ! j) \<noteq> ENET_PEER_STATE_DISCONNECTED)"
  by (induction ps arbitrary: i) (auto split: if_split_asm simp: less_Suc_eq_0_disj)

lemma find_disconnected_None:
  "find_disconnected ps = None \<longleftrightarrow> (\<forall>p\<in>set ps. p_state p \<noteq> ENET_PEER_STATE_DISCONNECTED)"
  by (induction ps) auto

lemma clamp_channelCount_range: "1 \<le> clamp_channelCount n" "clamp_channelCount n \<le> ENET_PROTOCOL_MAXIMUM_CHANNEL_COUNT"
  by (auto simp: clamp_channelCount_def word_le_nat_alt word_less_nat_alt)

lemma start_connect_ok:
  assumes "peer_ok p" "n \<le> ENET_PROTOCOL_MAXIMUM_CHANNEL_COUNT" "p_state p = ENET_PEER_STATE_DISCONNECTED"
  shows "peer_ok (start_connect h a n p)"
proof -
  have "sending_ok (start_connect h a n p)"
    by (rule sending_ok_unsettled [of p])
       (use assms in \<open>simp_all add: start_connect_def peer_ok_def queued_commands_def\<close>)
  then show ?thesis
    using assms clamp_window_range
    by (simp add: peer_ok_def) (simp add: start_connect_def new_channel_def connect_window_def)
qed

lemma start_connect_keeps:
  assumes "host_ok h" "i < length (h_peers h)" "state_at h i = ENET_PEER_STATE_DISCONNECTED"
    "n \<le> ENET_PROTOCOL_MAXIMUM_CHANNEL_COUNT"
  shows "host_ok (upd_peer i (start_connect g a n) h)"
proof -
  have ok: "peer_ok (peer_at h i)" "i \<in> set (h_dispatchQueue h) \<longleftrightarrow> p_needsDispatch (peer_at h i)"
    "distinct (h_dispatchQueue h)"
    using assms by (auto simp: host_ok_def)
  show ?thesis
    by (rule host_ok_update [OF assms(1,2) start_connect_ok [OF ok(1) assms(4,3)]])
      (use assms ok in \<open>auto simp: upd_peer_def is_limited_def start_connect_def\<close>)
qed

lemma setup_outgoing_identity:
  "p_state (enet_peer_setup_outgoing_command p oc) = p_state p"
  "p_connectID (enet_peer_setup_outgoing_command p oc) = p_connectID p"
  "p_address (enet_peer_setup_outgoing_command p oc) = p_address p"
  "p_channelCount (enet_peer_setup_outgoing_command p oc) = p_channelCount p"
  by (auto simp: enet_peer_setup_outgoing_command_def prepare_outgoing_def number_outgoing_def Let_def
      upd_channel_def split: prod.splits)

lemma queue_outgoing_identity:
  assumes "i < length (h_peers h)"
  shows "p_state (peer_at (queue_outgoing i c h) i) = p_state (peer_at h i)"
    "p_connectID (peer_at (queue_outgoing i c h) i) = p_connectID (peer_at h i)"
    "p_address (peer_at (queue_outgoing i c h) i) = p_address (peer_at h i)"
    "p_channelCount (peer_at (queue_outgoing i c h) i) = p_channelCount (peer_at h i)"
  using assms
  by (simp_all add: queue_outgoing_def on_peer_def enet_peer_queue_outgoing_command_def split_beta setup_outgoing_identity)

lemma host_connect_result:
  assumes "host_ok h" "enet_host_connect address channelCount data h = (r, h')"
  shows "host_ok h' \<and> length (h_peers h') = length (h_peers h) \<and>
    (r = None \<longrightarrow> h_peers h' = h_peers h \<and>
       ((\<forall>p\<in>set (h_peers h). p_state p \<noteq> ENET_PEER_STATE_DISCONNECTED) \<or> \<not> fst (enet_malloc (h_heap h)))) \<and>
    (\<forall>i. r = Some i \<longrightarrow> i < length (h_peers h) \<and> state_at h i = ENET_PEER_STATE_DISCONNECTED \<and>
       (\<forall>j<i. state_at h j \<noteq> ENET_PEER_STATE_DISCONNECTED) \<and>
       state_at h' i = ENET_PEER_STATE_CONNECTING \<and> p_connectID (peer_at h' i) = h_randomSeed h + 1 \<and>
       p_address (peer_at h' i) = address \<and>
       1 \<le> p_channelCount (peer_at h' i) \<and> p_channelCount (peer_at h' i) \<le> ENET_PROTOCOL_MAXIMUM_CHANNEL_COUNT \<and>
       (\<forall>j. j \<noteq> i \<longrightarrow> peer_at h' j = peer_at h j))"
proof (cases r)
  case None
  then have "h_peers h' = h_peers h" "host_frame h h'" "find_disconnected (h_peers h) = None \<or> \<not> fst (enet_malloc (h_heap h))"
    using assms(2) by (auto simp: enet_host_connect_def Let_def host_frame_def split: if_split_asm option.split_asm prod.split_asm)
  then show ?thesis using None host_ok_same_peers [OF assms(1)] find_disconnected_None by auto
next
  case (Some i)
  let ?n = "clamp_channelCount channelCount"
  let ?h = "h\<lparr>h_heap := snd (enet_malloc (h_heap h)), h_randomSeed := h_randomSeed h + 1\<rparr>"
  let ?g = "upd_peer i (start_connect ?h address ?n) ?h"
  have f: "find_disconnected (h_peers h) = Some i" and h': "h' = queue_outgoing i (connect_command ?g ?n data (peer_at ?g i)) ?g"
    using assms(2) Some
    by (auto simp: enet_host_connect_def Let_def simp del: peers_upd_peer
        split: if_split_asm option.split_asm prod.split_asm)
  note i = find_disconnected_Some [OF f]
  have ok: "host_ok ?h" by (rule host_ok_same_peers [OF assms(1)]) (simp_all add: host_frame_def)
  have g: "host_ok ?g" "length (h_peers ?g) = length (h_peers h)"
    using start_connect_keeps [OF ok, of i ?n ?h address] i clamp_channelCount_range(2) by simp_all
  have at: "peer_at ?g i = start_connect ?h address ?n (peer_at h i)" using i by simp
  have "peer_at h' j = peer_at h j" if "j \<noteq> i" for j
    using that by (simp add: h' queue_outgoing_def on_peer_def split_beta)
  moreover have "host_ok h'" "length (h_peers h') = length (h_peers h)"
    unfolding h' using g i by (simp_all add: queue_outgoing_keeps connect_command_def make_command_def)
  moreover
  have ig: "i < length (h_peers ?g)" using i g(2) by simp
  have q: "p_state (peer_at h' i) = p_state (peer_at ?g i)" "p_connectID (peer_at h' i) = p_connectID (peer_at ?g i)"
    "p_address (peer_at h' i) = p_address (peer_at ?g i)" "p_channelCount (peer_at h' i) = p_channelCount (peer_at ?g i)"
    unfolding h' by (rule queue_outgoing_identity [OF ig])+
  ultimately show ?thesis
    using Some i q clamp_channelCount_range unfolding at by (simp add: start_connect_def)
qed

text \<open>Connecting takes the first free peer, gives it a channel count in the protocol's range
  and the next number as its identifier, and leaves every other peer alone; without a free peer or
  memory nothing changes but the allocator.  The invariant is kept.\<close>

theorem enet_host_connect_ok:
  assumes "host_ok h" "enet_host_connect address channelCount data h = (r, h')"
  shows "host_ok h' \<and> length (h_peers h') = length (h_peers h) \<and>
    (r = None \<longrightarrow> h_peers h' = h_peers h \<and>
       ((\<forall>p\<in>set (h_peers h). p_state p \<noteq> ENET_PEER_STATE_DISCONNECTED) \<or> \<not> fst (enet_malloc (h_heap h)))) \<and>
    (\<forall>i. r = Some i \<longrightarrow> i < length (h_peers h) \<and> state_at h i = ENET_PEER_STATE_DISCONNECTED \<and>
       (\<forall>j<i. state_at h j \<noteq> ENET_PEER_STATE_DISCONNECTED) \<and>
       state_at h' i = ENET_PEER_STATE_CONNECTING \<and> p_connectID (peer_at h' i) = h_randomSeed h + 1 \<and>
       p_address (peer_at h' i) = address \<and>
       1 \<le> p_channelCount (peer_at h' i) \<and> p_channelCount (peer_at h' i) \<le> ENET_PROTOCOL_MAXIMUM_CHANNEL_COUNT \<and>
       (\<forall>j. j \<noteq> i \<longrightarrow> peer_at h' j = peer_at h j))"
  using assms by (rule host_connect_result)

theorem enet_host_connect_ok_witness:
  "\<exists>i h'. enet_host_connect \<lparr>addr_host = 9, addr_port = 7\<rparr> 0 5 (peer_example ENET_PEER_STATE_DISCONNECTED) = (Some i, h') \<and>
     host_ok h' \<and> state_at h' i = ENET_PEER_STATE_CONNECTING"
proof -
  obtain r h' where c: "enet_host_connect \<lparr>addr_host = 9, addr_port = 7\<rparr> 0 5 (peer_example ENET_PEER_STATE_DISCONNECTED) = (r, h')"
    by (meson surj_pair)
  have "r \<noteq> None"
    using enet_host_connect_ok [OF peer_example_ok c] by (auto simp: reset_fields_def enet_malloc_def fresh_heap_def)
  then show ?thesis using enet_host_connect_ok [OF peer_example_ok c] c by auto
qed


section \<open>The bandwidth throttle\<close>

lemma throttle_for_range: "throttle_for dataTotal bandwidth \<le> ENET_PEER_PACKET_THROTTLE_SCALE"
proof (cases "dataTotal \<le> bandwidth")
  case False
  have "unat ((bandwidth * 32) div dataTotal) = (unat bandwidth * 32 mod 2 ^ 32) div unat dataTotal"
    by (simp add: unat_div unat_word_ariths(2))
  also have "\<dots> \<le> (unat bandwidth * 32) div unat dataTotal" by (rule div_le_mono) simp
  also have "\<dots> \<le> (unat dataTotal * 32) div unat dataTotal"
    using False by (intro div_le_mono) (simp add: word_less_nat_alt not_le)
  also have "\<dots> \<le> 32" by (cases "unat dataTotal = 0") simp_all
  finally show ?thesis using False by (simp add: throttle_for_def word_le_nat_alt)
qed (simp add: throttle_for_def)

text \<open>A peer that needs throttling sends more than it may, so the quotient is at most the scale.\<close>

lemma needs_throttle_exceeds:
  assumes "needs_throttle now elapsed throttle p" "throttle \<le> ENET_PEER_PACKET_THROTTLE_SCALE"
  shows "peer_bandwidth elapsed p < p_outgoingDataTotal p"
proof -
  have "unat (throttle * p_outgoingDataTotal p div 32) = (unat throttle * unat (p_outgoingDataTotal p) mod 2 ^ 32) div 32"
    by (simp add: unat_div unat_word_ariths(2))
  also have "\<dots> \<le> (unat throttle * unat (p_outgoingDataTotal p)) div 32" by (rule div_le_mono) simp
  also have "\<dots> \<le> (32 * unat (p_outgoingDataTotal p)) div 32"
    using assms(2) by (intro div_le_mono mult_right_mono) (simp_all add: word_le_nat_alt)
  finally show ?thesis using assms(1) by (simp add: needs_throttle_def word_less_nat_alt)
qed

lemma throttle_quotient:
  assumes "(a :: u32) < b"
  shows "(a * 32) div b \<le> ENET_PEER_PACKET_THROTTLE_SCALE"
  using throttle_for_range [of b a] assms by (auto simp: throttle_for_def dest: leD split: if_splits)

definition throttle_limited :: "ENetPeer \<Rightarrow> bool" where
  "throttle_limited p \<longleftrightarrow> p_packetThrottleLimit p \<le> ENET_PEER_PACKET_THROTTLE_SCALE"

definition throttle_step :: "ENetPeer \<Rightarrow> ENetPeer \<Rightarrow> bool" where
  "throttle_step p q \<longleftrightarrow> peer_frame p q \<and> (throttle_limited p \<longrightarrow> throttle_limited q)"

lemma throttle_step_refl: "throttle_step p p"
  by (simp add: throttle_step_def)

lemma throttle_step_trans: "throttle_step p q \<Longrightarrow> throttle_step q r \<Longrightarrow> throttle_step p r"
  using peer_frame_trans by (auto simp: throttle_step_def)

lemma throttle_step_limit:
  "limit \<le> ENET_PEER_PACKET_THROTTLE_SCALE \<Longrightarrow> throttle_step p (set_throttle_limit limit p)"
  by (auto simp: throttle_step_def peer_frame_def peer_ok_defs throttle_limited_def set_throttle_limit_def Let_def not_less)

lemma throttle_step_totals:
  "throttle_step p (p\<lparr>p_incomingDataTotal := a, p_outgoingDataTotal := b\<rparr>)"
  "throttle_step p (p\<lparr>p_outgoingBandwidthThrottleEpoch := t, p_incomingDataTotal := a, p_outgoingDataTotal := b\<rparr>)"
  by (simp_all add: throttle_step_def throttle_limited_def peer_frame_same)

lemma throttle_peer_step:
  assumes "needs_throttle now elapsed throttle p" "throttle \<le> ENET_PEER_PACKET_THROTTLE_SCALE"
  shows "throttle_step p (throttle_peer now elapsed p)"
  unfolding throttle_peer_def Let_def
  by (rule throttle_step_trans [OF throttle_step_limit throttle_step_totals(2)])
    (use throttle_quotient [OF needs_throttle_exceeds [OF assms]] in simp)

lemma throttle_pass_steps:
  "throttle_pass now elapsed throttle ps r t b needs = (ps', r', t', b', needs') \<Longrightarrow>
   throttle \<le> ENET_PEER_PACKET_THROTTLE_SCALE \<Longrightarrow> list_all2 throttle_step ps ps'"
  by (induction ps arbitrary: r t b needs ps')
    (auto simp: Let_def throttle_peer_step throttle_step_refl split: if_split_asm prod.split_asm)

lemma list_all2_step_trans:
  "list_all2 throttle_step ps qs \<Longrightarrow> list_all2 throttle_step qs rs \<Longrightarrow> list_all2 throttle_step ps rs"
  using list_all2_trans [of throttle_step throttle_step throttle_step] throttle_step_trans by blast

lemma list_all2_step_refl: "list_all2 throttle_step ps ps"
  by (simp add: list_all2_refl throttle_step_refl)

lemma throttle_loop_steps:
  "throttle_loop now elapsed ps r t b needs = (ps', r', t', b') \<Longrightarrow> list_all2 throttle_step ps ps'"
proof (induction now elapsed ps r t b needs rule: throttle_loop.induct)
  case (1 now elapsed ps r t b needs)
  show ?case
  proof (cases "r > 0 \<and> needs")
    case True
    obtain qs r1 t1 b1 n1 where p: "throttle_pass now elapsed (throttle_for t b) ps r t b False = (qs, r1, t1, b1, n1)"
      by (metis prod_cases5)
    have "throttle_loop now elapsed qs r1 t1 b1 n1 = (ps', r', t', b')"
      using 1(2) True by (subst (asm) throttle_loop.simps) (simp add: p)
    then have "list_all2 throttle_step qs ps'" by (rule 1(1) [OF True p [symmetric] refl refl refl])
    then show ?thesis using list_all2_step_trans throttle_pass_steps [OF p throttle_for_range] by blast
  next
    case False
    then show ?thesis using 1(2) by (subst (asm) throttle_loop.simps) (auto simp: list_all2_step_refl)
  qed
qed

lemma throttle_rest_step: "throttle \<le> ENET_PEER_PACKET_THROTTLE_SCALE \<Longrightarrow> throttle_step p (throttle_rest now throttle p)"
  using throttle_step_trans [OF throttle_step_limit throttle_step_totals(1)]
  by (simp add: throttle_rest_def throttle_step_refl)

lemma throttle_outgoing_steps:
  "list_all2 throttle_step (h_peers h) (h_peers (throttle_outgoing now elapsed h))"
  "host_frame h (throttle_outgoing now elapsed h)"
proof -
  define s where "s = (if h_outgoingBandwidth h \<noteq> 0
             then (outgoing_total (h_peers h), (h_outgoingBandwidth h * elapsed) div 1000)
             else (0xFFFFFFFF, 0xFFFFFFFF))"
  obtain t b where s: "s = (t, b)" by (cases s)
  obtain ps r' t' b' where l: "throttle_loop now elapsed (h_peers h) (ucast (h_connectedPeers h)) t b
      (h_bandwidthLimitedPeers h > 0) = (ps, r', t', b')" by (metis prod_cases4)
  have eq: "throttle_outgoing now elapsed h =
      h\<lparr>h_peers := (if r' > 0 then map (throttle_rest now (throttle_for t' b')) ps else ps)\<rparr>"
    unfolding throttle_outgoing_def Let_def s_def [symmetric] s prod.case l by (rule refl)
  have "list_all2 throttle_step ps (map (throttle_rest now (throttle_for t' b')) ps)"
    by (simp add: list.rel_map list_all2_refl throttle_rest_step throttle_for_range)
  then show "list_all2 throttle_step (h_peers h) (h_peers (throttle_outgoing now elapsed h))"
    using throttle_loop_steps [OF l] list_all2_step_trans [OF throttle_loop_steps [OF l]] by (simp add: eq)
  show "host_frame h (throttle_outgoing now elapsed h)" by (simp add: eq host_frame_def)
qed

lemma throttle_step_epoch: "throttle_step p (p\<lparr>p_incomingBandwidthThrottleEpoch := t\<rparr>)"
  by (simp add: throttle_step_def throttle_limited_def peer_frame_same)

lemma limit_pass_steps:
  "limit_pass now L ps r b needs = (ps', r', b', needs') \<Longrightarrow> list_all2 throttle_step ps ps'"
  by (induction ps arbitrary: r b needs ps')
    (auto simp: throttle_step_epoch throttle_step_refl split: if_split_asm prod.split_asm)

lemma limit_loop_simps:
  "remaining > 0 \<Longrightarrow> limit_pass now (bandwidth div remaining) ps remaining bandwidth False = (ps', r', b', needs') \<Longrightarrow>
   limit_loop now ps remaining bandwidth L True = limit_loop now ps' r' b' (bandwidth div remaining) needs'"
  "\<not> (remaining > 0 \<and> needs) \<Longrightarrow> limit_loop now ps remaining bandwidth L needs = (ps, L)"
  by (subst limit_loop.simps, simp) (subst limit_loop.simps, auto)

text \<open>An induction over the passes.\<close>

lemma limit_loop_rule:
  assumes "limit_loop now ps r b L needs = (ps', L')"
    and stop: "\<And>ps r b L needs. \<not> (r > 0 \<and> needs) \<Longrightarrow> R ps r b L needs ps L"
    and pass: "\<And>ps r b L qs r1 b1 n1 ps' L'. r > 0 \<Longrightarrow> limit_pass now (b div r) ps r b False = (qs, r1, b1, n1) \<Longrightarrow>
      R qs r1 b1 (b div r) n1 ps' L' \<Longrightarrow> R ps r b L True ps' L'"
  shows "R ps r b L needs ps' L'"
  using assms(1)
proof (induction "if needs then limitable now ps + 1 else 0" arbitrary: ps r b L needs rule: less_induct)
  case less
  show ?case
  proof (cases "r > 0 \<and> needs")
    case True
    then have needs: "needs = True" by simp
    obtain qs r1 b1 n1 where p: "limit_pass now (b div r) ps r b False = (qs, r1, b1, n1)" by (metis prod_cases4)
    have "limit_loop now qs r1 b1 (b div r) n1 = (ps', L')"
      using less(2) limit_loop_simps(1) [OF _ p] True needs by simp
    then have "R qs r1 b1 (b div r) n1 ps' L'"
      using less(1) limit_pass_limitable [OF p] needs by auto
    then show ?thesis unfolding needs using pass [OF _ p] True by blast
  next
    case False
    then show ?thesis using stop [OF False] limit_loop_simps(2) [OF False] less(2) by auto
  qed
qed

lemma limit_loop_steps:
  assumes "limit_loop now ps r b L needs = (ps', L')"
  shows "list_all2 throttle_step ps ps'"
  using assms
  by (rule limit_loop_rule [where R = "\<lambda>ps _ _ _ _ ps' _. list_all2 throttle_step ps ps'"])
    (auto simp: list_all2_step_refl intro: list_all2_step_trans [OF limit_pass_steps])

text \<open>Updating every peer in this way keeps the invariant.\<close>

lemma steps_counts:
  assumes "list_all2 throttle_step ps qs"
  shows "length (filter (\<lambda>p. is_connected (p_state p)) qs) = length (filter (\<lambda>p. is_connected (p_state p)) ps)"
    "length (filter is_limited qs) = length (filter is_limited ps)"
    "(\<forall>p\<in>set ps. peer_ok p) \<Longrightarrow> \<forall>q\<in>set qs. peer_ok q"
    "(\<forall>p\<in>set ps. throttle_limited p) \<Longrightarrow> \<forall>q\<in>set qs. throttle_limited q"
    "length qs = length ps" "i < length ps \<Longrightarrow> p_needsDispatch (qs ! i) = p_needsDispatch (ps ! i)"
  using assms
  by (induction arbitrary: i rule: list_all2_induct)
    (auto simp: throttle_step_def peer_frame_def is_limited_def nth_Cons split: nat.split)

lemma host_ok_steps:
  assumes "host_ok h" "list_all2 throttle_step (h_peers h) (h_peers h')" "host_frame h h'"
  shows "host_ok h'"
  using assms(1,3) steps_counts [OF assms(2)] by (auto simp: host_ok_def host_frame_def)

abbreviation (input) limited_host :: "ENetHost \<Rightarrow> bool" where
  "limited_host h \<equiv> \<forall>p\<in>set (h_peers h). throttle_limited p"

lemma queue_outgoing_limited:
  assumes "limited_host h"
  shows "limited_host (queue_outgoing i c h)"
proof (cases "i < length (h_peers h)")
  case True
  have "p_packetThrottleLimit (enet_peer_setup_outgoing_command p oc) = p_packetThrottleLimit p" for p oc
    by (auto simp: enet_peer_setup_outgoing_command_def prepare_outgoing_def number_outgoing_def Let_def
        upd_channel_def split: prod.splits)
  then have "throttle_limited (snd (snd (enet_peer_queue_outgoing_command c None 0 0 hp p))) = throttle_limited p" for hp p
    by (simp add: enet_peer_queue_outgoing_command_def split_beta throttle_limited_def)
  then show ?thesis
    using assms True set_update_subset_insert [of "h_peers h" i]
    by (fastforce simp: queue_outgoing_def on_peer_def split_beta)
next
  case False
  then show ?thesis using assms by (simp add: queue_outgoing_def on_peer_def split_beta list_update_beyond)
qed

interpretation announce_limit: host_operation "announce_limit now L" for now L
  by unfold_locales (simp_all add: announce_limit_def queue_outgoing_keeps limit_command_def make_command_def)

lemma announce_limit_limited: "limited_host h \<Longrightarrow> limited_host (announce_limit now L i h)"
  using queue_outgoing_limited by (simp add: announce_limit_def)

lemma announce_limits_limited: "limited_host h \<Longrightarrow> limited_host (fold (announce_limit now L) js h)"
proof (induction js arbitrary: h)
  case (Cons j js)
  show ?case using Cons(1) [OF announce_limit_limited [OF Cons(2)]] by simp
qed simp

lemma recalculate_limits_keeps:
  assumes "host_ok h"
  shows "host_ok (recalculate_limits now h) \<and>
    length (h_peers (recalculate_limits now h)) = length (h_peers h) \<and>
    (limited_host h \<longrightarrow> limited_host (recalculate_limits now h))"
proof -
  let ?h = "h\<lparr>h_recalculateBandwidthLimits := False\<rparr>"
  define s where "s = (if h_incomingBandwidth ?h = 0 then (h_peers ?h, 0)
             else limit_loop now (h_peers ?h) (ucast (h_connectedPeers ?h)) (h_incomingBandwidth ?h) 0 True)"
  obtain ps L where s: "s = (ps, L)" by (cases s)
  define g where "g = ?h\<lparr>h_peers := ps\<rparr>"
  have eq: "recalculate_limits now h = fold (announce_limit now L) [0..<length ps] g"
    unfolding recalculate_limits_def Let_def s_def [symmetric] s prod.case g_def by (rule refl)
  have steps: "list_all2 throttle_step (h_peers h) (h_peers g)"
    using s limit_loop_steps list_all2_step_refl by (auto simp: s_def g_def split: if_split_asm)
  have g: "host_ok g" by (rule host_ok_steps [OF assms(1) steps]) (simp add: g_def host_frame_def)
  have len: "length ps = length (h_peers g)" by (simp add: g_def)
  have "limited_host h \<longrightarrow> limited_host g" using steps_counts(4) [OF steps] by blast
  then have "limited_host h \<longrightarrow> limited_host (recalculate_limits now h)"
    unfolding eq using announce_limits_limited by blast
  then show ?thesis
    using announce_limit.fold_keeps [OF g, of "[0..<length ps]"] steps_counts(5) [OF steps] len
    by (simp add: eq announce_limit.fold_same_peers)
qed

lemma one_of_four: "x \<in> {a, b, c, d} \<Longrightarrow> P a \<Longrightarrow> P b \<Longrightarrow> P c \<Longrightarrow> P d \<Longrightarrow> P x"
  by auto

lemma bandwidth_throttle_keeps:
  assumes "host_ok h"
  shows "host_ok (enet_host_bandwidth_throttle h) \<and>
    length (h_peers (enet_host_bandwidth_throttle h)) = length (h_peers h) \<and>
    (limited_host h \<longrightarrow> limited_host (enet_host_bandwidth_throttle h))"
proof -
  obtain now h1 where t: "enet_time_get h = (now, h1)" by (cases "enet_time_get h")
  define elapsed where "elapsed = now - h_bandwidthThrottleEpoch h1"
  define h2 where "h2 = h1\<lparr>h_bandwidthThrottleEpoch := now\<rparr>"
  define h3 where "h3 = throttle_outgoing now elapsed h2"
  have peers: "h_peers h1 = h_peers h" "h_peers h2 = h_peers h" "host_frame h h1" "host_frame h h2"
    using t by (auto simp: h2_def enet_time_get_def Let_def host_frame_def)
  have ok: "host_ok h1" "host_ok h2" using host_ok_same_peers assms(1) peers by blast+
  note steps = throttle_outgoing_steps [of h2 now elapsed, folded h3_def]
  have h3: "host_ok h3" "length (h_peers h3) = length (h_peers h)" "limited_host h \<longrightarrow> limited_host h3"
    using host_ok_steps [OF ok(2) steps] steps_counts(4,5) [OF steps(1)] peers(2) by simp_all
  let ?kept = "\<lambda>g. host_ok g \<and> length (h_peers g) = length (h_peers h) \<and> (limited_host h \<longrightarrow> limited_host g)"
  have mem: "enet_host_bandwidth_throttle h \<in> {h1, h2, h3, recalculate_limits now h3}"
    by (simp add: enet_host_bandwidth_throttle_def t Let_def flip: elapsed_def h2_def h3_def)
  have kept: "?kept h1" "?kept h2" "?kept h3"
    unfolding peers(1,2) using ok h3 by (simp_all only: simp_thms)
  have "?kept (recalculate_limits now h3)"
    using recalculate_limits_keeps [OF h3(1), of now] h3(2,3) by metis
  then show ?thesis by (rule one_of_four [where P = ?kept, OF mem kept])
qed

text \<open>Property C27.  The bandwidth throttle returns, keeps the invariant and never raises a peer's throttle
  limit above the scale, so that a packet is never throttled by more than all of it: no quotient
  overflows, whatever the elapsed time and the amounts sent are.\<close>

theorem bandwidth_throttle_safe:
  assumes "host_ok h" "\<forall>p\<in>set (h_peers h). throttle_limited p"
  shows "host_ok (enet_host_bandwidth_throttle h) \<and>
    length (h_peers (enet_host_bandwidth_throttle h)) = length (h_peers h) \<and>
    (\<forall>p\<in>set (h_peers (enet_host_bandwidth_throttle h)). throttle_limited p)"
  using bandwidth_throttle_keeps [OF assms(1)] assms(2) by blast

theorem bandwidth_throttle_safe_witness:
  "host_ok (enet_host_bandwidth_throttle (peer_example ENET_PEER_STATE_CONNECTED))"
  using bandwidth_throttle_safe [OF peer_example_ok, of ENET_PEER_STATE_CONNECTED]
  by (simp add: throttle_limited_def reset_fields_def)


section \<open>Sharing the incoming bandwidth\<close>

text \<open>What a peer is told it may send, and the peers that have kept their own bandwidth in this round.\<close>

definition granted :: "u32 \<Rightarrow> u32 \<Rightarrow> ENetPeer \<Rightarrow> u32" where
  "granted now bandwidthLimit p =
     (if p_incomingBandwidthThrottleEpoch p = now then p_outgoingBandwidth p else bandwidthLimit)"

definition unsettled :: "u32 \<Rightarrow> ENetPeer list \<Rightarrow> ENetPeer list" where
  "unsettled now ps = filter (\<lambda>p. connected_peer p \<and> p_incomingBandwidthThrottleEpoch p \<noteq> now) ps"

definition settled_total :: "u32 \<Rightarrow> ENetPeer list \<Rightarrow> nat" where
  "settled_total now ps = sum_list (map (\<lambda>p. unat (p_outgoingBandwidth p))
     (filter (\<lambda>p. connected_peer p \<and> p_incomingBandwidthThrottleEpoch p = now) ps))"

definition granted_total :: "u32 \<Rightarrow> u32 \<Rightarrow> ENetPeer list \<Rightarrow> nat" where
  "granted_total now L ps = sum_list (map (\<lambda>p. unat (granted now L p)) (filter (\<lambda>p. connected_peer p) ps))"

lemma granted_total_split:
  "granted_total now L ps = settled_total now ps + length (unsettled now ps) * unat L"
  by (induction ps) (auto simp: granted_total_def settled_total_def unsettled_def granted_def)

lemma share_simps [simp]:
  "unsettled now [] = []" "settled_total now [] = 0"
  "unsettled now (p # ps) = (if connected_peer p \<and> p_incomingBandwidthThrottleEpoch p \<noteq> now
     then p # unsettled now ps else unsettled now ps)"
  "settled_total now (p # ps) = (if connected_peer p \<and> p_incomingBandwidthThrottleEpoch p = now
     then unat (p_outgoingBandwidth p) + settled_total now ps else settled_total now ps)"
  by (simp_all add: unsettled_def settled_total_def)

lemma unat_minus_le: "b \<le> a \<Longrightarrow> unat (a - b :: u32) = unat a - unat b"
  by (rule unat_sub)

text \<open>One pass: no subtraction wraps, because every peer that keeps its own bandwidth uses less than its
  share.\<close>

lemma limit_pass_shares:
  "limit_pass now L ps r b needs = (ps', r', b', needs') \<Longrightarrow>
   length (unsettled now ps) \<le> unat r \<Longrightarrow> length (unsettled now ps) * unat L \<le> unat b \<Longrightarrow>
   unat r' + length (unsettled now ps) = unat r + length (unsettled now ps') \<and>
   unat b' + settled_total now ps' = unat b + settled_total now ps \<and>
   (needs' \<or> \<not> needs \<and> ps' = ps \<and> r' = r \<and> b' = b) \<and>
   (\<forall>p\<in>set ps'. connected_peer p \<and> p_outgoingBandwidth p = 0 \<longrightarrow> p_incomingBandwidthThrottleEpoch p = now)"
proof (induction ps arbitrary: r b needs ps')
  case (Cons p ps)
  show ?case
  proof (cases "keeps_own_limit now L p")
    case True
    obtain qs where rec: "limit_pass now L ps (r - 1) (b - p_outgoingBandwidth p) True = (qs, r', b', needs')"
      "ps' = p\<lparr>p_incomingBandwidthThrottleEpoch := now\<rparr> # qs"
      using Cons(2) True by (auto split: prod.split_asm)
    have p: "connected_peer p" "p_incomingBandwidthThrottleEpoch p \<noteq> now" "unat (p_outgoingBandwidth p) \<le> unat L"
      using True by (auto simp: keeps_own_limit_def word_le_nat_alt not_le word_less_nat_alt)
    have len: "Suc (length (unsettled now ps)) \<le> unat r" "unat L + length (unsettled now ps) * unat L \<le> unat b"
      using Cons(3,4) p(1,2) by auto
    have "1 \<le> r" using len(1) by (simp add: word_le_nat_alt)
    then have r: "unat (r - 1) = unat r - 1" using unat_minus_le [of 1 r] by simp
    have b: "unat (b - p_outgoingBandwidth p) = unat b - unat (p_outgoingBandwidth p)"
      using len(2) p(3) by (intro unat_minus_le) (simp add: word_le_nat_alt)
    have own: "unat (p_outgoingBandwidth p) \<le> unat b" using len(2) p(3) by linarith
    have pre: "length (unsettled now ps) \<le> unat (r - 1)"
      "length (unsettled now ps) * unat L \<le> unat (b - p_outgoingBandwidth p)"
      using len r b p(3) by linarith+
    have IH: "unat r' + length (unsettled now ps) = unat r - 1 + length (unsettled now qs)"
      "unat b' + settled_total now qs = unat b - unat (p_outgoingBandwidth p) + settled_total now ps" "needs'"
      "\<forall>p\<in>set qs. connected_peer p \<and> p_outgoingBandwidth p = 0 \<longrightarrow> p_incomingBandwidthThrottleEpoch p = now"
      using Cons(1) [OF rec(1) pre] r b by auto
    have "unat r' + Suc (length (unsettled now ps)) = unat r + length (unsettled now qs)"
      "unat b' + (unat (p_outgoingBandwidth p) + settled_total now qs) = unat b + settled_total now ps"
      using IH(1,2) own len(1) by linarith+
    then show ?thesis using IH(3,4) p(1,2) unfolding rec(2) by simp
  next
    case False
    then obtain qs where rec: "limit_pass now L ps r b needs = (qs, r', b', needs')" "ps' = p # qs"
      using Cons(2) by (auto split: prod.split_asm)
    have "connected_peer p \<and> p_outgoingBandwidth p = 0 \<longrightarrow> p_incomingBandwidthThrottleEpoch p = now"
      using False by (auto simp: keeps_own_limit_def)
    moreover have "length (unsettled now ps) \<le> unat r" "length (unsettled now ps) * unat L \<le> unat b"
      using Cons(3,4) by (auto split: if_split_asm)
    ultimately show ?thesis using Cons(1) [OF rec(1)] by (auto simp: rec(2))
  qed
qed simp

definition unlimited_settled :: "u32 \<Rightarrow> ENetPeer list \<Rightarrow> bool" where
  "unlimited_settled now ps \<longleftrightarrow>
     (\<forall>p\<in>set ps. connected_peer p \<and> p_outgoingBandwidth p = 0 \<longrightarrow> p_incomingBandwidthThrottleEpoch p = now)"

lemma limit_loop_shares:
  assumes "limit_loop now ps r b L needs = (ps', L')" "unat r = length (unsettled now ps)"
    "needs \<or> length (unsettled now ps) * unat L \<le> unat b"
  shows "granted_total now L' ps' \<le> unat b + settled_total now ps \<and>
    (unlimited_settled now ps \<or> r > 0 \<and> needs \<longrightarrow> unlimited_settled now ps')"
proof -
  let ?R = "\<lambda>ps r b L needs ps' L'. unat r = length (unsettled now ps) \<longrightarrow>
     (needs \<or> length (unsettled now ps) * unat L \<le> unat b) \<longrightarrow>
     granted_total now L' ps' \<le> unat b + settled_total now ps \<and>
     (unlimited_settled now ps \<or> r > 0 \<and> needs \<longrightarrow> unlimited_settled now ps')"
  have "?R ps r b L needs ps' L'"
    using assms(1)
  proof (rule limit_loop_rule [where R = ?R])
    fix ps :: "ENetPeer list" and r b L :: u32 and needs
    assume stop: "\<not> (r > 0 \<and> needs)"
    then have "unat r = 0 \<or> \<not> needs" by (auto simp: unat_eq_0 word_gt_0)
    then show "?R ps r b L needs ps L" using stop by (auto simp: granted_total_split)
  next
    fix ps r b L qs r1 b1 n1 ps' L'
    assume r: "r > 0" and p: "limit_pass now (b div r) ps r b False = (qs, r1, b1, n1)"
      and IH: "?R qs r1 b1 (b div r) n1 ps' L'"
    show "?R ps r b L True ps' L'"
    proof (intro impI)
      assume len: "unat r = length (unsettled now ps)"
      have fits: "length (unsettled now ps) * unat (b div r) \<le> unat b"
        unfolding len [symmetric] unat_div by simp
      note S = limit_pass_shares [OF p _ fits]
      have s: "unat r1 + length (unsettled now ps) = unat r + length (unsettled now qs)"
        "unat b1 + settled_total now qs = unat b + settled_total now ps"
        "n1 \<or> qs = ps \<and> r1 = r \<and> b1 = b" "unlimited_settled now qs"
        using S len by (auto simp: unlimited_settled_def)
      have "unat r1 = length (unsettled now qs)" using s(1) len by linarith
      moreover have "n1 \<or> length (unsettled now qs) * unat (b div r) \<le> unat b1" using s(3) fits by auto
      ultimately show "granted_total now L' ps' \<le> unat b + settled_total now ps \<and>
          (unlimited_settled now ps \<or> r > 0 \<and> True \<longrightarrow> unlimited_settled now ps')"
        using IH s(2,4) by simp
    qed
  qed
  then show ?thesis using assms(2,3) by blast
qed

text \<open>The shares of the host's incoming bandwidth: for a host with a limit, what the peers are
  told they may send adds up to at most the limit.  A peer whose own bandwidth is unlimited (0) is
  told 0 again, which it takes for no limit, so it counts nothing in that sum and is not restrained.\<close>

theorem bandwidth_shares:
  assumes "host_ok h" "length (h_peers h) \<le> ENET_PROTOCOL_MAXIMUM_PEER_ID"
    "\<forall>p\<in>set (h_peers h). p_incomingBandwidthThrottleEpoch p \<noteq> now"
    "limit_loop now (h_peers h) (ucast (h_connectedPeers h)) (h_incomingBandwidth h) 0 True = (ps, bandwidthLimit)"
  shows "sum_list (map (\<lambda>p. unat (granted now bandwidthLimit p)) (filter (\<lambda>p. is_connected (p_state p)) ps))
      \<le> unat (h_incomingBandwidth h) \<and>
    (\<forall>p\<in>set ps. is_connected (p_state p) \<longrightarrow> p_outgoingBandwidth p = 0 \<longrightarrow> granted now bandwidthLimit p = 0)"
proof -
  let ?ps = "h_peers h"
  have un: "unsettled now ?ps = filter (\<lambda>p. is_connected (p_state p)) ?ps" "settled_total now ?ps = 0"
    using assms(3) by (auto simp: unsettled_def settled_total_def intro: filter_cong)
  have len: "length (unsettled now ?ps) \<le> 4095"
    using assms(2) length_filter_le [of "\<lambda>p. is_connected (p_state p)" ?ps] unfolding un by linarith
  have "h_connectedPeers h = of_nat (length (unsettled now ?ps))" using assms(1) by (simp add: host_ok_def un(1))
  then have r: "unat (ucast (h_connectedPeers h) :: u32) = length (unsettled now ?ps)"
    using len by (simp add: unsigned_ucast_eq unsigned_of_nat take_bit_nat_eq_self)
  note S = limit_loop_shares [OF assms(4) r]
  have "unlimited_settled now ps" if "unsettled now ?ps \<noteq> []"
    using S that r by (auto simp: word_gt_0 unat_eq_0)
  moreover have "\<not> is_connected (p_state p)" if "unsettled now ?ps = []" "p \<in> set ps" for p
    using steps_counts(1) [OF limit_loop_steps [OF assms(4)]] that unfolding un by (simp add: filter_empty_conv)
  ultimately show ?thesis
    using S un(2) by (auto simp: granted_total_def unlimited_settled_def granted_def)
qed
theorem bandwidth_shares_witness:
  "\<exists>ps L. limit_loop 5000 (h_peers (peer_example ENET_PEER_STATE_CONNECTED))
       (ucast (h_connectedPeers (peer_example ENET_PEER_STATE_CONNECTED)))
       (h_incomingBandwidth (peer_example ENET_PEER_STATE_CONNECTED)) 0 True = (ps, L) \<and>
     (\<forall>p\<in>set ps. is_connected (p_state p) \<longrightarrow> p_outgoingBandwidth p = 0 \<longrightarrow> granted 5000 L p = 0)"
proof -
  obtain ps L where l: "limit_loop 5000 (h_peers (peer_example ENET_PEER_STATE_CONNECTED))
       (ucast (h_connectedPeers (peer_example ENET_PEER_STATE_CONNECTED)))
       (h_incomingBandwidth (peer_example ENET_PEER_STATE_CONNECTED)) 0 True = (ps, L)" by (meson surj_pair)
  then show ?thesis
    using bandwidth_shares [OF peer_example_ok _ _ l] by (auto simp: reset_fields_def)
qed


section \<open>Sending and broadcasting keep the invariant\<close>

lemma peer_frame_setups:
  "\<forall>oc\<in>set ocs. may_queue p oc \<Longrightarrow> peer_frame p (fold (\<lambda>oc p. enet_peer_setup_outgoing_command p oc) ocs p)"
proof (induction ocs arbitrary: p)
  case (Cons oc ocs)
  let ?q = "enet_peer_setup_outgoing_command p oc"
  have q: "peer_frame p ?q" using Cons.prems by (simp add: peer_frame_setup)
  have "may_queue ?q oc' = may_queue p oc'" for oc'
    using q by (simp add: may_queue_def peer_frame_def mtu_setup_outgoing)
  then have "peer_frame ?q (fold (\<lambda>oc p. enet_peer_setup_outgoing_command p oc) ocs ?q)"
    using Cons by simp
  then show ?case using q peer_frame_trans by simp
qed simp

text \<open>Every fragment is at most as long as the first.\<close>

lemma fragment_loop_all:
  assumes "fragment_loop fragment n num off len fragments hp = Some (Some (num', fragments'), hp')"
    "\<And>num off len'. len' \<le> len \<Longrightarrow> P (fragment num off len')" "\<forall>oc\<in>set fragments. P oc"
  shows "\<forall>oc\<in>set fragments'. P oc"
proof -
  let ?Q = "\<lambda>fragment n num off len fragments hp r. (\<forall>num off len'. len' \<le> len \<longrightarrow> P (fragment num off len')) \<longrightarrow>
    (\<forall>oc\<in>set fragments. P oc) \<longrightarrow> (\<forall>num' fragments' hp'. r = (Some (num', fragments'), hp') \<longrightarrow> (\<forall>oc\<in>set fragments'. P oc))"
  have "?Q fragment n num off len fragments hp r" if "fragment_loop fragment n num off len fragments hp = Some r" for r
  proof (rule fragment_loop.raw_induct [where P = ?Q, OF _ that], goal_cases)
    case (1 f fragment n num off len fragments hp r)
    define len2 where "len2 = (if n - ucast off < len then n - ucast off else len)"
    have le: "len2 \<le> len" by (auto simp: len2_def)
    consider "r = (Some (num, fragments), hp)" | "fst r = None" | "f fragment n (num + 1) (off + ucast len2) len2
        (fragments @ [fragment num off len2]) (snd (enet_malloc hp)) = Some r"
    proof -
      have "(if \<not> ucast off < n then Some (Some (num, fragments), hp)
          else if \<not> fst (enet_malloc hp) then Some (None, snd (enet_malloc hp))
          else f fragment n (num + 1) (off + ucast len2) len2 (fragments @ [fragment num off len2]) (snd (enet_malloc hp))) = Some r"
        using 1(2) unfolding Let_def len2_def [symmetric] split_beta .
      note body = this
      show ?thesis
      proof (cases "ucast off < n \<and> fst (enet_malloc hp)")
        case True
        show ?thesis by (rule that(3)) (use body True in \<open>simp only: if_True if_False not_True_eq_False\<close>)
      next
        case False
        then have "Some r = Some (Some (num, fragments), hp) \<or> Some r = Some (None, snd (enet_malloc hp))"
          unfolding body [symmetric] by (cases "ucast off < n") simp_all
        then show ?thesis using that(1,2) by auto
      qed
    qed
    then show ?case
    proof cases
      case 3
      note IH = 1(1) [OF 3]
      show ?thesis
      proof (intro impI)
        assume P: "\<forall>num off len'. len' \<le> len \<longrightarrow> P (fragment num off len')" "\<forall>oc\<in>set fragments. P oc"
        then have "\<forall>num off len'. len' \<le> len2 \<longrightarrow> P (fragment num off len')" using le order_trans by blast
        moreover have "\<forall>oc\<in>set (fragments @ [fragment num off len2]). P oc" using P le by simp
        ultimately show "\<forall>num' fragments' hp'. r = (Some (num', fragments'), hp') \<longrightarrow> (\<forall>oc\<in>set fragments'. P oc)"
          using IH by blast
      qed
    next
      case 1
      then show ?thesis by simp
    next
      case 2
      then show ?thesis by auto
    qed
  qed
  then show ?thesis using assms by blast
qed

lemma unat_ucast_16_le: "unat (ucast (len :: size_t) :: u16) \<le> unat len"
  by (simp add: unsigned_ucast_eq take_bit_nat_less_eq_self)

lemma send_queue_frame:
  assumes "enet_peer_send_queue packet c len hp p = Some (r, hp', p')" "unat len + 28 \<le> unat (p_mtu p)"
    "is_settled (p_state p)"
  shows "peer_frame p p'"
proof (cases "pk_dataLength (deref_packet hp packet) > len")
  case False
  let ?k = "deref_packet hp packet"
  have "unat (ucast (pk_dataLength ?k) :: u16) \<le> unat len"
    using False unat_ucast_16_le [of "pk_dataLength ?k"] by (simp add: word_le_nat_alt not_less)
  then have "may_queue p (new_outgoing (send_command ?k c (channel_at p c)) (Some packet) 0 (ucast (pk_dataLength ?k)))"
    using assms(2,3)
    by (auto simp: may_queue_def fits_def new_outgoing_def send_command_def Let_def make_command_def commandSizes_def)
  from peer_frame_queue [OF this, of hp] show ?thesis
    using assms(1) False by (auto simp: enet_peer_send_queue_def Let_def split_beta)
next
  case True
  have may: "may_queue p (make_fragment packet n command c start count num off len')"
    if "len' \<le> len" "command \<in> {ENET_PROTOCOL_COMMAND_SEND_UNRELIABLE_FRAGMENT,
      ENET_PROTOCOL_COMMAND_SEND_FRAGMENT OR ENET_PROTOCOL_COMMAND_FLAG_ACKNOWLEDGE}" for n command start count num off len'
  proof -
    have "unat (ucast len' :: u16) \<le> unat len"
      using that(1) unat_ucast_16_le [of len'] by (simp add: word_le_nat_alt)
    then show ?thesis
      using that(2) assms(2,3)
      by (auto simp: may_queue_def fits_def make_fragment_def new_outgoing_def make_command_def commandSizes_def)
  qed
  from assms(1) True have "send_fragments packet c len hp p = Some (r, hp', p')"
    by (simp add: enet_peer_send_queue_def Let_def)
  then show ?thesis
    using fragment_loop_all [where P = "may_queue p", OF _ may]
    by (fastforce simp: send_fragments_def Let_def intro: peer_frame_setups split: if_split_asm option.split_asm prod.split_asm)
qed

lemma peer_send_keeps:
  assumes "host_ok h" "i < length (h_peers h)" "enet_peer_send i c packet h = Some (r, h')"
  shows "host_ok h' \<and> length (h_peers h') = length (h_peers h) \<and> h_maximumPacketSize h' = h_maximumPacketSize h"
proof -
  have "h' = h \<or> (\<exists>hp p. peer_frame (peer_at h i) p \<and> h' = upd_peer i (\<lambda>_. p) (h\<lparr>h_heap := hp\<rparr>))"
  proof (cases "state_at h i = ENET_PEER_STATE_CONNECTED")
    case True
    have "peer_ok (peer_at h i)" using assms(1,2) by (auto simp: host_ok_def)
    then have "unat (send_fragmentLength h (peer_at h i)) + 28 \<le> unat (p_mtu (peer_at h i))"
      by (intro send_fragmentLength_bounds(3)) (simp_all add: peer_ok_def)
    then show ?thesis
      using assms(3) send_queue_frame True
      by (fastforce simp: enet_peer_send_def Let_def split: if_split_asm option.split_asm prod.split_asm)
  qed (use assms(3) in \<open>simp add: enet_peer_send_def Let_def\<close>)
  then show ?thesis
    using assms(1) host_ok_frame [OF assms(1,2)] by (auto simp: upd_peer_def host_frame_def)
qed

lemma peer_send_terminates:
  assumes "host_ok h" "i < length (h_peers h)" "h_maximumPacketSize h < 2 ^ 32"
  shows "enet_peer_send i c packet h \<noteq> None"
proof -
  let ?fl = "send_fragmentLength h (peer_at h i)"
  have "peer_ok (peer_at h i)" using assms(1,2) by (auto simp: host_ok_def)
  then have fl: "ENET_PROTOCOL_MINIMUM_MTU \<le> p_mtu (peer_at h i)"
    "p_mtu (peer_at h i) \<le> ENET_PROTOCOL_MAXIMUM_MTU" by (auto simp: peer_ok_def)
  have "enet_peer_send_queue packet c ?fl (h_heap h) (peer_at h i) \<noteq> None"
    if "pk_dataLength (deref_packet (h_heap h) packet) \<le> h_maximumPacketSize h"
    using send_fragmentLength_bounds(1) [OF fl, of h] that assms(3)
      send_queue_returns [of ?fl] by (auto simp: word_le_nat_alt word_less_nat_alt)
  then show ?thesis
    by (auto simp: enet_peer_send_def Let_def not_less split: option.split prod.split)
qed

lemma broadcast_loop_keeps:
  "host_ok h \<Longrightarrow> \<forall>j\<in>set js. j < length (h_peers h) \<Longrightarrow> h_maximumPacketSize h < 2 ^ 32 \<Longrightarrow>
   \<exists>h'. broadcast_loop c packet js h = Some h' \<and> host_ok h' \<and> length (h_peers h') = length (h_peers h) \<and>
     h_maximumPacketSize h' = h_maximumPacketSize h"
proof (induction js arbitrary: h)
  case (Cons j js)
  show ?case
  proof (cases "state_at h j = ENET_PEER_STATE_CONNECTED")
    case True
    obtain r g where s: "enet_peer_send j c packet h = Some (r, g)"
      using peer_send_terminates [OF Cons(2) _ Cons(4), of j c packet] Cons(3) by auto
    then show ?thesis
      using peer_send_keeps [OF Cons(2) _ s] Cons(1) [of g] Cons(3,4) True by auto
  qed (use Cons in simp)
qed simp

lemma broadcast_keeps:
  assumes "host_ok h" "h_maximumPacketSize h < 2 ^ 32"
  obtains h' where "enet_host_broadcast c packet h = Some h'" "host_ok h'" "length (h_peers h') = length (h_peers h)"
    "h_maximumPacketSize h' = h_maximumPacketSize h"
proof -
  obtain g where g: "broadcast_loop c packet [0..<length (h_peers h)] h = Some g" "host_ok g"
    "length (h_peers g) = length (h_peers h)" "h_maximumPacketSize g = h_maximumPacketSize h"
    using broadcast_loop_keeps [OF assms(1) _ assms(2), of "[0..<length (h_peers h)]" c packet] by auto
  have "host_ok (g\<lparr>h_heap := hp\<rparr>)" for hp
    by (rule host_ok_same_peers [OF g(2)]) (simp_all add: host_frame_def)
  then show ?thesis
    using that [of "if pk_referenceCount (deref_packet (h_heap g) packet) = 0
        then g\<lparr>h_heap := enet_packet_destroy (Some packet) (h_heap g)\<rparr> else g"] g
    by (simp add: enet_host_broadcast_def)
qed

end
