(* ===== verification/EnetRangeCoder.thy ===== *)
theory EnetRangeCoder
  imports EnetDecompress EnetHost
begin

text \<open>
  The range coder as the host uses it: its creation, \<^verbatim>\<open>enet_host_compress_with_range_coder\<close>, and what
  the two directions promise each other.  The properties of \<^verbatim>\<open>enet/compress.cpp\<close> are collected here.
\<close>

section \<open>The compressor of a host\<close>

text \<open>The address is the one \<^verbatim>\<open>enet_malloc\<close> returns when it succeeds.\<close>

definition enet_range_coder_create :: "nat \<Rightarrow> heap \<Rightarrow> nat option \<times> heap" where
  "enet_range_coder_create address hp =
     (case enet_malloc hp of (ok, hp) \<Rightarrow> (if ok then Some address else None, hp))"

text \<open>The callbacks, for a coder whose memory holds \<open>syms\<close> when it is called.  A callback of the model
  is a total function: where the coder does something undefined its value here says nothing, and no
  property below speaks of that case.\<close>

definition range_coder_compress :: "symbols \<Rightarrow> compress_callback" where
  "range_coder_compress syms inBuffers inLimit outLimit =
     (case enet_range_coder_compress (Some syms) inBuffers (unat inLimit) (unat outLimit) of
        None \<Rightarrow> (0, [])
      | Some out \<Rightarrow> (of_nat (length out), out))"

definition range_coder_decompress :: "symbols \<Rightarrow> decompress_callback" where
  "range_coder_decompress syms data inLimit outLimit =
     (case enet_range_coder_decompress (Some syms) (take (unat inLimit) data) (unat outLimit) of
        None \<Rightarrow> (0, [])
      | Some out \<Rightarrow> (of_nat (length out), out))"

definition range_coder :: "nat \<Rightarrow> symbols \<Rightarrow> ENetCompressor" where
  "range_coder context syms =
     \<lparr>cp_context = Some context, cp_compress = Some (range_coder_compress syms),
      cp_decompress = Some (range_coder_decompress syms), cp_destroy = True\<rparr>"

text \<open>The result, and the context that the old compressor has been told to destroy.\<close>

definition enet_host_compress_with_range_coder ::
    "nat \<Rightarrow> symbols \<Rightarrow> ENetHost \<Rightarrow> int \<times> nat option \<times> ENetHost" where
  "enet_host_compress_with_range_coder address syms h =
     (case enet_range_coder_create address (h_heap h) of
        (None, hp) \<Rightarrow> (-1, None, h\<lparr>h_heap := hp\<rparr>)
      | (Some context, hp) \<Rightarrow>
          (case enet_host_compress (Some (range_coder context syms)) (h\<lparr>h_heap := hp\<rparr>) of
             (destroyed, h) \<Rightarrow> (0, destroyed, h)))"

section \<open>Properties of the coder\<close>

abbreviation (input) blank :: symbols where
  "blank \<equiv> (\<lambda>_. new_symbol 0 0)"

text \<open>Property C30.  Whatever bytes arrive, and whatever the coder's memory holds from before, the
  decompressor returns: it reads and writes only inside its array, never divides by zero, every loop
  ends, and it produces at most \<^verbatim>\<open>outLimit\<close> bytes.\<close>

theorem range_decompress_safe:
  "\<exists>out. enet_range_coder_decompress (Some syms) data outLimit = Some out \<and> length out \<le> outLimit"
  by (rule decompress_returns)

text \<open>Property C29.  What the compressor makes of the buffers, the decompressor turns back into exactly
  their bytes, whatever the memories of the two coders held before.  No buffer but the first may be
  empty, the compressor must not have given up (returned 0), and the output must fit.\<close>

theorem range_coder_roundtrip:
  assumes "enet_range_coder_compress (Some syms) inBuffers inLimit lim = Some out" "out \<noteq> []"
    "[] \<notin> set (tl inBuffers)" "length (concat inBuffers) \<le> outLimit"
  shows "enet_range_coder_decompress (Some syms') out outLimit = Some (concat inBuffers)"
  by (rule decompress_compress [OF assms])

text \<open>Property C31.  The compressor implements an adaptive model of order 2 that knows nothing of the
  4096 symbols: from the model follow the intervals each byte is coded with, and the result is the
  arithmetic code of these intervals, in order.  The model forgets everything when 4094 symbols are
  used.\<close>

theorem range_compress_refines_model:
  assumes "[] \<notin> set inBuffers" "inLimit \<noteq> 0"
  shows "enet_range_coder_compress (Some syms) (first # inBuffers) inLimit outLimit =
    (case encode_all outLimit (all_intervals fresh (first @ concat inBuffers)) new_encoder of
       None \<Rightarrow> None
     | Some None \<Rightarrow> Some []
     | Some (Some e) \<Rightarrow>
         (case ENET_RANGE_CODER_FLUSH outLimit (encodeLow e) (outData e) of
            None \<Rightarrow> None | Some None \<Rightarrow> Some [] | Some (Some out) \<Rightarrow> Some out))"
  by (rule compress_codes [OF assms])

lemma compress_loop_append:
  "compress_loop lim vs [] st = Some (Some st') \<Longrightarrow> compress_loop lim vs ([] # bufs) st = None"
  by (induction lim vs "[] :: u8 list list" st rule: compress_loop.induct)
     (auto split: option.split_asm)

text \<open>The compressor returns, with at most \<^verbatim>\<open>outLimit\<close> bytes, when no buffer but the first
  is empty.  When it reaches an empty one, it reads the byte behind its end.\<close>

theorem range_compress_empty_buffer:
  "([] \<notin> set (tl inBuffers) \<longrightarrow>
     (\<exists>out. enet_range_coder_compress rangeCoder inBuffers inLimit outLimit = Some out \<and> length out \<le> outLimit)) \<and>
   (enet_range_coder_compress (Some syms) [first] inLimit outLimit = Some out \<and> out \<noteq> [] \<longrightarrow>
     enet_range_coder_compress (Some syms) (first # [] # rest) inLimit outLimit = None)"
proof (intro conjI impI)
  assume "[] \<notin> set (tl inBuffers)"
  then show "\<exists>out. enet_range_coder_compress rangeCoder inBuffers inLimit outLimit = Some out \<and> length out \<le> outLimit"
    by (rule compress_returns)
next
  assume *: "enet_range_coder_compress (Some syms) [first] inLimit outLimit = Some out \<and> out \<noteq> []"
  obtain rc where rc: "create_root syms = Some rc" by (rule create_root_fresh)
  obtain st where "inLimit \<noteq> 0" "compress_loop outLimit first [] (rc, new_encoder) = Some (Some st)"
    using * rc by (auto simp: enet_range_coder_compress_def split: if_split_asm option.split_asm)
  then show "enet_range_coder_compress (Some syms) (first # [] # rest) inLimit outLimit = None"
    using compress_loop_append [of outLimit first "(rc, new_encoder)" st rest] rc
    by (simp add: enet_range_coder_compress_def)
qed


section \<open>From host to host\<close>

lemma range_coder_installed:
  assumes "enet_host_compress_with_range_coder address syms h = (result, destroyed, h')"
  shows "result = 0 \<and> h_compressor h' = range_coder address syms \<and> destroyed = destroyed_context (h_compressor h) \<or>
    result = -1 \<and> h_compressor h' = h_compressor h \<and> destroyed = None"
  using assms
  by (auto simp: enet_host_compress_with_range_coder_def enet_range_coder_create_def enet_malloc_def
      enet_host_compress_def split: if_split_asm prod.split_asm)

lemma unat_of_nat_size: "k \<le> unat (n :: size_t) \<Longrightarrow> unat (of_nat k :: size_t) = k"
proof -
  assume "k \<le> unat n"
  moreover have "unat n < 2 ^ LENGTH(64)" by (rule unsigned_less)
  ultimately show ?thesis by (simp add: unsigned_of_nat take_bit_nat_eq_self)
qed

lemma compress_something:
  assumes "enet_range_coder_compress (Some syms) bufs inLimit lim = Some out" "out \<noteq> []" "[] \<notin> set (tl bufs)"
  shows "concat bufs \<noteq> []"
proof
  assume e: "concat bufs = []"
  obtain vs bs where B: "bufs = vs # bs" "inLimit \<noteq> 0"
    using assms(1,2) by (cases bufs) (auto simp: enet_range_coder_compress_def split: if_split_asm)
  have "[] \<notin> set bs" using assms(3) B(1) by simp
  moreover from this have "vs = []" "bs = []" using e B(1) by (cases bs; simp)+
  ultimately show False
    using compress_codes [of bs inLimit syms vs lim] B assms(1,2) by (auto simp: ENET_RANGE_CODER_FLUSH.simps)
qed

text \<open>What a host relies on: the callbacks of two compressors belong together if the one restores what
  the other has written, for the buffers the first can take.\<close>

locale datagram_codec =
  fixes compress :: compress_callback and decompress :: decompress_callback and takes :: "u8 list list \<Rightarrow> bool"
  assumes written: "takes bufs \<Longrightarrow> compress bufs inLimit lim = (n, out) \<Longrightarrow> 0 < n \<Longrightarrow>
      length out = unat n \<and> unat n \<le> unat lim \<and> concat bufs \<noteq> []"
    and restored: "takes bufs \<Longrightarrow> compress bufs inLimit lim = (n, out) \<Longrightarrow> 0 < n \<Longrightarrow>
      length (concat bufs) \<le> unat outLimit \<Longrightarrow>
      decompress (out @ stale) n outLimit = (of_nat (length (concat bufs)), concat bufs)"
begin

lemma datagram_restored:
  assumes sender: "cp_context (h_compressor h) = Some context" "cp_compress (h_compressor h) = Some compress"
      "compress_datagram h = (n, h1)" "0 < n"
    and bytes: "bytes = readable (map (buffer_bytes h []) (tl (used_buffers h)))" "takes bytes"
    and receiver: "cp_context (h_compressor r) = Some context'" "cp_decompress (h_compressor r) = Some decompress"
      "hi_headerSize hi = length header" "hi_flags hi AND ENET_PROTOCOL_HEADER_FLAG_COMPRESSED \<noteq> 0"
      "h_receivedData r = header @ take (unat n) (h_packetData1 h1) @ stale"
      "h_receivedDataLength r = of_nat (length header) + n"
    and fits: "length (h_packetData1 r) = ENET_PROTOCOL_MAXIMUM_MTU"
      "length header + length (concat bytes) \<le> ENET_PROTOCOL_MAXIMUM_MTU"
  shows "\<exists>r'. decompress_datagram hi r = (True, r') \<and>
    take (unat (h_receivedDataLength r')) (h_receivedData r') = header @ concat bytes"
proof -
  let ?lim = "h_packetSize h - 4" and ?k = "length header" and ?bs = "concat bytes"
  obtain m out where c: "compress bytes ?lim ?lim = (m, out)" by (meson surj_pair)
  have m: "n = m" using sender bytes(1) c by (auto simp: compress_datagram_def Let_def split: if_split_asm)
  note W = written [OF bytes(2) c sender(4) [unfolded m]]
  have data: "take (unat n) (h_packetData1 h1) = out"
    using sender bytes(1) c W m by (auto simp: compress_datagram_def Let_def overwrite_def split: if_split_asm)
  define lim' where "lim' = (ENET_PROTOCOL_MAXIMUM_MTU - of_nat ?k :: size_t)"
  have k: "unat (of_nat ?k :: size_t) = ?k" using fits(2) by (intro unat_of_nat_size [of _ 4096]) simp
  then have "(of_nat ?k :: size_t) \<le> 4096" using fits(2) by (simp add: word_le_nat_alt)
  then have lim': "unat lim' = 4096 - ?k" by (simp add: lim'_def unat_sub k)
  have len: "unat (of_nat (length ?bs) :: size_t) = length ?bs" using fits(2) by (intro unat_of_nat_size [of _ 4096]) simp
  have "length ?bs \<le> unat lim'" using fits(2) lim' by simp
  from restored [OF bytes(2) c sender(4) [unfolded m] this]
  have D: "decompress (drop ?k (h_receivedData r)) (decompress_inLimit (h_receivedDataLength r) ?k) lim' =
      (of_nat (length ?bs), ?bs)"
    using receiver(5,6) data m by (simp add: decompress_inLimit_def)
  have size: "0 < (of_nat (length ?bs) :: size_t)" "(of_nat (length ?bs) :: size_t) \<le> lim'"
    using W fits(2) by (simp_all add: word_less_nat_alt word_le_nat_alt len lim')
  define mem where "mem = overwrite 0 header (overwrite ?k ?bs (h_packetData1 r))"
  have mem: "mem = header @ ?bs @ drop (?k + length ?bs) (h_packetData1 r)"
    using fits by (simp add: mem_def overwrite_def)
  have "decompress_datagram hi r = (True, r\<lparr>h_packetData1 := mem, h_receivedData := mem,
      h_receivedDataLength := of_nat ?k + of_nat (length ?bs)\<rparr>)"
    using receiver(1-5) D size fits(2) lim'
    by (simp add: decompress_datagram_def Let_def lim'_def [symmetric] mem_def not_less)
  moreover have "unat (of_nat ?k + of_nat (length ?bs) :: size_t) = ?k + length ?bs"
    using unat_of_nat_size [of "?k + length ?bs" 4096] fits(2) by simp
  ultimately show ?thesis by (simp add: mem)
qed

end

lemma range_coder_compress_cases:
  assumes "[] \<notin> set (tl bufs)" "range_coder_compress syms bufs inLimit lim = (n, out)" "0 < n"
  shows "enet_range_coder_compress (Some syms) bufs (unat inLimit) (unat lim) = Some out" "out \<noteq> []"
    "length out = unat n" "unat n \<le> unat lim"
proof -
  obtain out' where o: "enet_range_coder_compress (Some syms) bufs (unat inLimit) (unat lim) = Some out'" "length out' \<le> unat lim"
    using compress_returns [OF assms(1)] by blast
  then show *: "enet_range_coder_compress (Some syms) bufs (unat inLimit) (unat lim) = Some out" "length out = unat n"
    "unat n \<le> unat lim" "out \<noteq> []"
    using assms(2,3) unat_of_nat_size [OF o(2)] by (auto simp: range_coder_compress_def)
qed

interpretation range_codec: datagram_codec "range_coder_compress syms" "range_coder_decompress syms'" "\<lambda>bufs. [] \<notin> set (tl bufs)"
  for syms syms'
proof unfold_locales
  fix bufs :: "u8 list list" and inLimit lim n out
  assume *: "[] \<notin> set (tl bufs)" "range_coder_compress syms bufs inLimit lim = (n, out)" "0 < n"
  note C = range_coder_compress_cases [OF *]
  show "length out = unat n \<and> unat n \<le> unat lim \<and> concat bufs \<noteq> []"
    using C(3,4) compress_something [OF C(1,2) *(1)] by blast
  fix outLimit :: size_t and stale
  assume "length (concat bufs) \<le> unat outLimit"
  from decompress_compress [OF C(1,2) *(1) this]
  show "range_coder_decompress syms' (out @ stale) n outLimit = (of_nat (length (concat bufs)), concat bufs)"
    using C(3) by (simp add: range_coder_decompress_def)
qed

text \<open>Property C32.  A datagram that one host has compressed with the range coder is decompressed by
  another: behind the header its received data hold exactly the bytes of the buffers.  No buffer but the
  first may be empty.\<close>

theorem range_coder_datagram:
  assumes sender: "h_compressor h = range_coder context syms" "compress_datagram h = (n, h1)" "0 < n"
    and bytes: "bytes = readable (map (buffer_bytes h []) (tl (used_buffers h)))" "[] \<notin> set (tl bytes)"
    and receiver: "h_compressor r = range_coder context' syms'" "hi_headerSize hi = length header"
      "hi_flags hi AND ENET_PROTOCOL_HEADER_FLAG_COMPRESSED \<noteq> 0"
      "h_receivedData r = header @ take (unat n) (h_packetData1 h1) @ stale"
      "h_receivedDataLength r = of_nat (length header) + n"
    and fits: "length (h_packetData1 r) = ENET_PROTOCOL_MAXIMUM_MTU"
      "length header + length (concat bytes) \<le> ENET_PROTOCOL_MAXIMUM_MTU"
  shows "\<exists>r'. decompress_datagram hi r = (True, r') \<and>
    take (unat (h_receivedDataLength r')) (h_receivedData r') = header @ concat bytes"
  by (rule range_codec.datagram_restored [OF _ _ sender(2,3) bytes _ _ receiver(2-5) fits])
     (simp_all add: sender(1) receiver(1) range_coder_def)

section \<open>The properties at work\<close>

lemma blank_compress:
  "enet_range_coder_compress (Some blank) [[65], [65]] 2 100 = Some [65, 254, 252, 230]"
  "enet_range_coder_compress (Some blank) [[65]] 1 100 = Some [65, 190, 65, 190]"
  "enet_range_coder_compress (Some blank) [[7, 7, 7, 7, 7, 7, 7, 7]] 8 8 = Some [8, 3, 196, 191, 157, 133]"
  by code_simp+

theorem range_coder_roundtrip_witness:
  "enet_range_coder_compress (Some blank) [[65], [65]] 2 100 = Some [65, 254, 252, 230] \<and>
   enet_range_coder_decompress (Some (\<lambda>_. new_symbol 1 2)) [65, 254, 252, 230] 2 = Some [65, 65]"
  using range_coder_roundtrip [OF blank_compress(1), of 2 "\<lambda>_. new_symbol 1 2"] blank_compress(1) by simp

theorem range_compress_refines_model_witness:
  "(case encode_all 100 (all_intervals fresh [65, 65]) new_encoder of
      Some (Some e) \<Rightarrow> ENET_RANGE_CODER_FLUSH 100 (encodeLow e) (outData e) = Some (Some [65, 254, 252, 230])
    | _ \<Rightarrow> False)"
  using range_compress_refines_model [of "[[65]]" 2 blank "[65]" 100] blank_compress(1)
  by (auto split: option.splits)

theorem range_compress_empty_buffer_witness:
  "enet_range_coder_compress (Some blank) [[65], []] 1 100 = None"
  using range_compress_empty_buffer [of "[]" None 1 100 blank "[65]" "[65, 190, 65, 190]" "[]"] blank_compress(2) by simp

text \<open>A host that sends the packet of eight bytes, and one that receives it.\<close>

definition coded_packet :: ENetPacket where
  "coded_packet = \<lparr>pk_referenceCount = 1, pk_flags = 0, pk_data = Some [7, 7, 7, 7, 7, 7, 7, 7], pk_dataLength = 8,
     pk_freeCallback = None, pk_userData = 0\<rparr>"

definition coding_host :: ENetHost where
  "coding_host = (zero_host (fresh_heap\<lparr>hp_packets := [0 \<mapsto> coded_packet]\<rparr>) quiet_world)
     \<lparr>h_compressor := range_coder 1 blank, h_packetSize := 12, h_bufferCount := 2,
      h_buffers := [HeaderBuffer 2, PacketBuffer 0 0 8]\<rparr>"

definition decoding_host :: ENetHost where
  "decoding_host = (zero_host fresh_heap quiet_world)
     \<lparr>h_compressor := range_coder 2 blank, h_receivedData := [64, 0] @ [8, 3, 196, 191, 157, 133],
      h_receivedDataLength := 8\<rparr>"


lemma coding_host_compresses:
  "readable (map (buffer_bytes coding_host []) (tl (used_buffers coding_host))) = [[7, 7, 7, 7, 7, 7, 7, 7]]"
  "compress_datagram coding_host = (6, coding_host\<lparr>h_packetData1 := [8, 3, 196, 191, 157, 133] @ replicate 4090 0,
     h_headerFlags := ENET_PROTOCOL_HEADER_FLAG_COMPRESSED\<rparr>)"
proof -
  show *: "readable (map (buffer_bytes coding_host []) (tl (used_buffers coding_host))) = [[7, 7, 7, 7, 7, 7, 7, 7]]"
    by (simp add: coding_host_def zero_host_def used_buffers_def readable_def buffer_bytes_def fresh_heap_def
        coded_packet_def)
  have "range_coder_compress blank [[7, 7, 7, 7, 7, 7, 7, 7]] 8 8 = (6, [8, 3, 196, 191, 157, 133])"
    by (simp add: range_coder_compress_def blank_compress(3))
  moreover have "overwrite 0 [8, 3, 196, 191, 157, 133] (replicate 4096 0) =
      ([8, 3, 196, 191, 157, 133] @ replicate 4090 0 :: u8 list)"
    by (simp add: overwrite_def)
  ultimately show "compress_datagram coding_host = (6, coding_host\<lparr>h_packetData1 := [8, 3, 196, 191, 157, 133] @ replicate 4090 0,
     h_headerFlags := ENET_PROTOCOL_HEADER_FLAG_COMPRESSED\<rparr>)"
    using * by (simp add: compress_datagram_def coding_host_def range_coder_def zero_host_def Let_def)
qed

theorem range_coder_datagram_witness:
  "\<exists>r'. decompress_datagram \<lparr>hi_peerID = 0, hi_sessionID = 0, hi_flags = ENET_PROTOCOL_HEADER_FLAG_COMPRESSED, hi_headerSize = 2\<rparr>
       decoding_host = (True, r') \<and>
     take (unat (h_receivedDataLength r')) (h_receivedData r') = [64, 0, 7, 7, 7, 7, 7, 7, 7, 7]"
  using range_coder_datagram [OF _ coding_host_compresses(2) _ coding_host_compresses(1) [symmetric],
      of 1 blank decoding_host 2 blank
        "\<lparr>hi_peerID = 0, hi_sessionID = 0, hi_flags = ENET_PROTOCOL_HEADER_FLAG_COMPRESSED, hi_headerSize = 2\<rparr>" "[64, 0]" "[]"]
  by (simp add: coding_host_def decoding_host_def zero_host_def)

end
