(* ===== verification/EnetService.thy ===== *)
theory EnetService
  imports EnetHost
begin

text \<open>
  Servicing a host (\<^verbatim>\<open>enet_host_check_events\<close> and \<^verbatim>\<open>enet_host_service\<close> of \<^verbatim>\<open>enet/protocol.cpp\<close>): one
  round sends, receives, sends what the received commands called for and collects an event; between
  two rounds the host waits for a datagram, until the time is up.  What \<^verbatim>\<open>enet_socket_wait\<close> answers is
  part of the world.
\<close>

section \<open>The model\<close>

abbreviation (input) ENET_SOCKET_WAIT_RECEIVE :: u32 where
  "ENET_SOCKET_WAIT_RECEIVE \<equiv> 2"
abbreviation (input) ENET_SOCKET_WAIT_INTERRUPT :: u32 where
  "ENET_SOCKET_WAIT_INTERRUPT \<equiv> 4"

definition no_event :: "ENetEvent \<Rightarrow> ENetEvent" where
  "no_event e = e\<lparr>ev_type := ENET_EVENT_TYPE_NONE, ev_peer := None, ev_packet := None\<rparr>"

definition dispatch_to :: "ENetEvent option \<Rightarrow> ENetHost \<Rightarrow> (int \<times> ENetEvent option \<times> ENetHost) option" where
  "dispatch_to event h =
     (case event of
        None \<Rightarrow> Some (0, None, h)
      | Some e \<Rightarrow> map_option (\<lambda>(r, e, h). (r, Some e, h)) (enet_protocol_dispatch_incoming_commands e h))"

definition enet_host_check_events :: "ENetEvent option \<Rightarrow> ENetHost \<Rightarrow> (int \<times> ENetEvent option \<times> ENetHost) option" where
  "enet_host_check_events event h =
     (if event = None then Some (-1, None, h) else dispatch_to (map_option no_event event) h)"

text \<open>The \<^verbatim>\<open>switch\<close> behind every call of a round: 1 and -1 return at once.\<close>

definition unless_settled ::
    "(int \<times> ENetEvent option \<times> ENetHost) option \<Rightarrow>
     (ENetEvent option \<Rightarrow> ENetHost \<Rightarrow> (int \<times> ENetEvent option \<times> ENetHost) option) \<Rightarrow>
     (int \<times> ENetEvent option \<times> ENetHost) option" where
  "unless_settled result continue =
     (case result of
        None \<Rightarrow> None
      | Some (r, event, h) \<Rightarrow> if r = 1 \<or> r = -1 then Some (r, event, h) else continue event h)"

definition throttle_if_due :: "ENetHost \<Rightarrow> ENetHost" where
  "throttle_if_due h =
     (if ENET_TIME_DIFFERENCE (h_serviceTime h) (h_bandwidthThrottleEpoch h) \<ge> ENET_HOST_BANDWIDTH_THROTTLE_INTERVAL
      then enet_host_bandwidth_throttle h else h)"

definition service_round :: "ENetEvent option \<Rightarrow> ENetHost \<Rightarrow> (int \<times> ENetEvent option \<times> ENetHost) option" where
  "service_round event h =
     unless_settled (enet_protocol_send_outgoing_commands event True (throttle_if_due h)) (\<lambda>event h.
     unless_settled (enet_protocol_receive_incoming_commands event h) (\<lambda>event h.
     unless_settled (enet_protocol_send_outgoing_commands event True h) (\<lambda>event h.
     unless_settled (dispatch_to event h) (\<lambda>event h. Some (0, event, h)))))"

text \<open>The result and the answered condition.\<close>

definition enet_socket_wait :: "ENetHost \<Rightarrow> int \<times> u32 \<times> ENetHost" where
  "enet_socket_wait h =
     (let w = h_world h; (r, condition) = w_waitResult w (w_waitCalls w)
      in (r, condition, h\<lparr>h_world := w\<lparr>w_waitCalls := Suc (w_waitCalls w)\<rparr>\<rparr>))"

text \<open>Waiting: \<open>Inl\<close> the value the function returns, or \<open>Inr\<close> the condition that ended the wait;
  \<open>None\<close> when interrupts keep coming for ever.\<close>

partial_function (option) wait_loop :: "u32 \<Rightarrow> ENetHost \<Rightarrow> ((int + u32) \<times> ENetHost) option" where
  "wait_loop timeout h =
     (case enet_time_get h of (now, h) \<Rightarrow>
        let h = h\<lparr>h_serviceTime := now\<rparr>
        in if ENET_TIME_GREATER_EQUAL now timeout then Some (Inl 0, h)
           else case enet_socket_wait h of (r, condition, h) \<Rightarrow>
             if r \<noteq> 0 then Some (Inl (-1), h)
             else if condition AND ENET_SOCKET_WAIT_INTERRUPT \<noteq> 0 then wait_loop timeout h
             else Some (Inr condition, h))"

partial_function (option) service_loop ::
    "u32 \<Rightarrow> ENetEvent option \<Rightarrow> ENetHost \<Rightarrow> (int \<times> ENetEvent option \<times> ENetHost) option" where
  "service_loop timeout event h =
     (case service_round event h of
        None \<Rightarrow> None
      | Some (r, event, h) \<Rightarrow>
          if r = 1 \<or> r = -1 then Some (r, event, h)
          else if ENET_TIME_GREATER_EQUAL (h_serviceTime h) timeout then Some (0, event, h)
          else case wait_loop timeout h of
                 None \<Rightarrow> None
               | Some (Inl r, h) \<Rightarrow> Some (r, event, h)
               | Some (Inr condition, h) \<Rightarrow>
                   (case enet_time_get h of (now, h) \<Rightarrow>
                      let h = h\<lparr>h_serviceTime := now\<rparr>
                      in if condition AND ENET_SOCKET_WAIT_RECEIVE \<noteq> 0 then service_loop timeout event h
                         else Some (0, event, h)))"

definition enet_host_service ::
    "ENetEvent option \<Rightarrow> u32 \<Rightarrow> ENetHost \<Rightarrow> (int \<times> ENetEvent option \<times> ENetHost) option" where
  "enet_host_service event timeout h =
     unless_settled (dispatch_to (map_option no_event event) h) (\<lambda>event h.
       case enet_time_get h of (now, h) \<Rightarrow>
         service_loop (timeout + now) event (h\<lparr>h_serviceTime := now\<rparr>))"


section \<open>What a call reports\<close>

text \<open>A call that returns 1 has filled the event.\<close>

definition reports :: "int \<Rightarrow> ENetEvent option \<Rightarrow> bool" where
  "reports r event \<longleftrightarrow> (r = 1 \<longrightarrow> (\<exists>e. event = Some e \<and> ev_type e \<noteq> ENET_EVENT_TYPE_NONE))"

lemma send_to_peer_reports:
  "send_to_peer check i event h = (Some r, event', h') \<Longrightarrow> reports r event'"
  by (auto simp: send_to_peer_def reports_def Let_def
      split: if_split_asm bool.split_asm option.split_asm prod.split_asm)

lemma send_to_peers_reports:
  "send_to_peers check is event h = (Some r, event', h') \<Longrightarrow> reports r event'"
  by (induction "is" arbitrary: event h)
    (auto dest: send_to_peer_reports split: prod.split_asm option.split_asm)

lemma send_outgoing_reports:
  assumes "enet_protocol_send_outgoing_commands event check h = Some (r, event', h')"
  shows "reports r event'"
proof -
  have "reports (fst a) (fst (snd a))" if "send_loop check event h = Some a" for a h
  proof (rule send_loop.raw_induct [where P = "\<lambda>check event h a. reports (fst a) (fst (snd a))", OF _ that], goal_cases)
    case (1 f check event h a)
    then show ?case
      using send_to_peers_reports [of check "[0..<length (h_peers h)]" event "h\<lparr>h_continueSending := False\<rparr>"]
      by (auto simp: send_pass_def split: if_split_asm prod.split_asm option.split_asm) (auto simp: reports_def)
  qed
  from this [OF assms [unfolded enet_protocol_send_outgoing_commands_def]] show ?thesis by simp
qed

lemma handle_incoming_reports:
  "enet_protocol_handle_incoming_commands event h = Some (r, event', h') \<Longrightarrow> reports r event'"
  by (auto simp: enet_protocol_handle_incoming_commands_def reports_def
      split: prod.split_asm option.split_asm if_split_asm)

lemma receive_loop_reports:
  "receive_loop packets event h = Some (r, event', h') \<Longrightarrow> reports r event'"
proof (induction packets arbitrary: event h)
  case 0
  then show ?case by (simp add: receive_loop.simps reports_def)
next
  case (Suc packets)
  from Suc.prems show ?case
    by (auto simp: receive_loop.simps Let_def dest: Suc.IH handle_incoming_reports
        split: if_split_asm prod.split_asm option.split_asm) (auto simp: reports_def)
qed

lemma event_matches_type: "event_matches e h \<Longrightarrow> ev_type e \<noteq> ENET_EVENT_TYPE_NONE"
  by (auto simp: event_matches_def split: option.split_asm)

lemma dispatch_queue_loop_length:
  "dispatch_queue_loop fuel e h = Some (r, e', h') \<Longrightarrow> length (h_peers h') = length (h_peers h)"
proof (induction fuel arbitrary: e h)
  case (Suc fuel)
  have receive: "length (h_peers g) = length (h_peers h)" if "enet_peer_receive i h = (a, g)" for i h a g
    using receive.same_peers [of i h] that by simp
  from Suc.prems show ?case
    by (subst (asm) dispatch_queue_loop.simps)
      (auto simp: Let_def dest!: Suc.IH receive
        split: list.split_asm if_split_asm option.split_asm prod.split_asm)
qed (auto simp: dispatch_queue_loop.simps split: list.split_asm)

lemma dispatch_to_result:
  assumes "host_ok h" "dispatch_to event h = Some (r, event', h')"
  shows "host_ok h' \<and> length (h_peers h') = length (h_peers h) \<and> reports r event' \<and> (r = 1 \<or> r = 0 \<and> event' = event \<and> (event \<noteq> None \<longrightarrow> h_dispatchQueue h' = []))"
proof (cases event)
  case None
  then show ?thesis using assms by (auto simp: dispatch_to_def reports_def)
next
  case (Some e)
  obtain r' e' g where d: "enet_protocol_dispatch_incoming_commands e h = Some (r', e', g)" "host_ok g"
    "r' = 0 \<and> h_dispatchQueue g = [] \<and> e' = e \<or> r' = 1 \<and> event_matches e' g"
    using dispatch_queue_loop_result [OF assms(1) order_refl, of e]
    by (auto simp: enet_protocol_dispatch_incoming_commands_def)
  then show ?thesis
    using assms(2) Some dispatch_queue_loop_length
    by (auto simp: dispatch_to_def enet_protocol_dispatch_incoming_commands_def reports_def event_matches_type)
qed

lemma dispatch_to_returns: "host_ok h \<Longrightarrow> dispatch_to event h \<noteq> None"
  using dispatch_queue_loop_result [OF _ order_refl, of h]
  by (fastforce simp: dispatch_to_def enet_protocol_dispatch_incoming_commands_def split: option.split)


lemma receive_world: "enet_peer_receive i h = (r, g) \<Longrightarrow> h_world g = h_world h"
  by (auto simp: enet_peer_receive_def Let_def split: list.split_asm if_split_asm)

lemma dispatch_to_world:
  assumes "dispatch_to event h = Some (0, event', h')"
  shows "h_world h' = h_world h"
proof -
  have "dispatch_queue_loop fuel e h = Some (0, e', h') \<Longrightarrow> h_world h' = h_world h" for fuel e e' h'
  proof (induction fuel arbitrary: e h)
    case (Suc fuel)
    from Suc.prems show ?case
      by (subst (asm) dispatch_queue_loop.simps)
        (auto simp: Let_def dest!: Suc.IH receive_world split: list.split_asm ENetPeerState.split_asm if_split_asm
          option.split_asm prod.split_asm)
  qed (auto simp: dispatch_queue_loop.simps split: list.split_asm)
  then show ?thesis
    using assms by (auto simp: dispatch_to_def enet_protocol_dispatch_incoming_commands_def split: option.split_asm)
qed

section \<open>A round\<close>

lemma throttle_if_due_keeps: "host_ok h \<Longrightarrow> host_ok (throttle_if_due h) \<and> length (h_peers (throttle_if_due h)) = length (h_peers h)"
  using bandwidth_throttle_keeps by (simp add: throttle_if_due_def)

lemma receive_served:
  assumes "host_ok h" "length (h_peers h) = n"
    and "enet_protocol_receive_incoming_commands event h = Some (r, event', h')"
  shows "host_ok h' \<and> length (h_peers h') = n \<and> reports r event'"
  using receive_loop_step [OF assms(1), of 256 event] assms(2,3)
    receive_loop_reports [OF assms(3) [unfolded enet_protocol_receive_incoming_commands_def]]
  by (auto simp: enet_protocol_receive_incoming_commands_def)

text \<open>What holds when the service has come to an end with the result \<open>r\<close>, and nothing is left to
  report if it is 0.\<close>

definition served :: "nat \<Rightarrow> int \<Rightarrow> ENetEvent option \<Rightarrow> ENetHost \<Rightarrow> bool" where
  "served n r event h \<longleftrightarrow> host_ok h \<and> length (h_peers h) = n \<and> r \<in> {-1, 0, 1} \<and> reports r event \<and>
     (r = 0 \<longrightarrow> event \<noteq> None \<longrightarrow> h_dispatchQueue h = [])"

lemma unless_settled_served:
  assumes "unless_settled result continue = Some (r, event, h)"
    and "\<And>r' event' h'. result = Some (r', event', h') \<Longrightarrow> host_ok h' \<and> length (h_peers h') = n \<and> reports r' event'"
    and "\<And>r' event' h'. result = Some (r', event', h') \<Longrightarrow> host_ok h' \<Longrightarrow> length (h_peers h') = n \<Longrightarrow>
      r' \<noteq> 1 \<Longrightarrow> continue event' h' = Some (r, event, h) \<Longrightarrow> served n r event h"
  shows "served n r event h"
proof -
  obtain r' event' h' where result: "result = Some (r', event', h')"
    using assms(1) by (auto simp: unless_settled_def split: option.split_asm)
  show ?thesis
  proof (cases "r' = 1 \<or> r' = -1")
    case True
    then show ?thesis using assms(1) assms(2) [OF result] result by (auto simp: unless_settled_def served_def)
  next
    case False
    then show ?thesis using assms(1) assms(2) [OF result] assms(3) [OF result] result by (simp add: unless_settled_def)
  qed
qed

lemma send_served:
  "host_ok h \<Longrightarrow> length (h_peers h) = n \<Longrightarrow>
   enet_protocol_send_outgoing_commands event check h = Some (r, event', h') \<Longrightarrow>
   host_ok h' \<and> length (h_peers h') = n \<and> reports r event'"
  using send_outgoing_keeps send_outgoing_reports by blast

lemma service_round_served:
  assumes "host_ok h" "length (h_peers h) = n" "service_round event h = Some (r, event', h')"
  shows "served n r event' h'"
proof (rule unless_settled_served [OF assms(3) [unfolded service_round_def]])
  fix r1 e1 h1 assume ok1: "host_ok h1" "length (h_peers h1) = n" and c1: "unless_settled (enet_protocol_receive_incoming_commands e1 h1) (\<lambda>event h.
     unless_settled (enet_protocol_send_outgoing_commands event True h) (\<lambda>event h.
     unless_settled (dispatch_to event h) (\<lambda>event h. Some (0, event, h)))) = Some (r, event', h')"
  show "served n r event' h'"
  proof (rule unless_settled_served [OF c1 receive_served [OF ok1]])
    fix r2 e2 h2 assume ok2: "host_ok h2" "length (h_peers h2) = n" and c2: "unless_settled (enet_protocol_send_outgoing_commands e2 True h2) (\<lambda>event h.
       unless_settled (dispatch_to event h) (\<lambda>event h. Some (0, event, h))) = Some (r, event', h')"
    show "served n r event' h'"
    proof (rule unless_settled_served [OF c2 send_served [OF ok2]])
      fix r3 e3 h3 assume ok3: "host_ok h3" "length (h_peers h3) = n" and c3: "unless_settled (dispatch_to e3 h3) (\<lambda>event h. Some (0, event, h)) = Some (r, event', h')"
      show "served n r event' h'"
        by (rule unless_settled_served [OF c3])
          (auto simp: served_def reports_def ok3(2) dest!: dispatch_to_result [OF ok3(1)])
    qed
  qed
qed (use send_served throttle_if_due_keeps [OF assms(1)] assms(2) in blast)

section \<open>Waiting\<close>

text \<open>The last wait was answered without an error and without a datagram.\<close>

definition idle_wait :: "world \<Rightarrow> bool" where
  "idle_wait w \<longleftrightarrow> 0 < w_waitCalls w \<and>
     (case w_waitResult w (w_waitCalls w - 1) of (r, condition) \<Rightarrow>
        r = 0 \<and> condition AND ENET_SOCKET_WAIT_RECEIVE = 0)"

lemma served_same: "served n r event h \<Longrightarrow> h_peers h' = h_peers h \<Longrightarrow> host_frame h h' \<Longrightarrow> served n r event h'"
  using host_ok_same_peers [of h h'] by (simp add: served_def) (simp add: host_frame_def)

definition waited :: "u32 \<Rightarrow> ENetHost \<Rightarrow> int + u32 \<Rightarrow> ENetHost \<Rightarrow> bool" where
  "waited timeout h result h' \<longleftrightarrow> h_peers h' = h_peers h \<and> host_frame h h' \<and>
     (case result of
        Inl r \<Rightarrow> r = 0 \<and> ENET_TIME_GREATER_EQUAL (h_serviceTime h') timeout \<or> r = -1
      | Inr condition \<Rightarrow> 0 < w_waitCalls (h_world h') \<and>
          w_waitResult (h_world h') (w_waitCalls (h_world h') - 1) = (0, condition))"

lemma waited_after:
  "waited timeout g result k \<Longrightarrow> h_peers g = h_peers h \<Longrightarrow> host_frame h g \<Longrightarrow> waited timeout h result k"
  by (simp add: waited_def host_frame_def)

text \<open>The host after a reading of the clock and an answered wait.\<close>

definition after_wait :: "ENetHost \<Rightarrow> ENetHost" where
  "after_wait h = (let w = h_world h in h\<lparr>h_serviceTime := w_clock w (w_clockCalls w),
     h_world := w\<lparr>w_clockCalls := Suc (w_clockCalls w), w_waitCalls := Suc (w_waitCalls w)\<rparr>\<rparr>)"

lemma after_wait_simps [simp]:
  "h_peers (after_wait h) = h_peers h" "host_frame h (after_wait h)"
  "w_clock (h_world (after_wait h)) = w_clock (h_world h)"
  "w_clockCalls (h_world (after_wait h)) = Suc (w_clockCalls (h_world h))"
  "w_waitCalls (h_world (after_wait h)) = Suc (w_waitCalls (h_world h))"
  "w_waitResult (h_world (after_wait h)) = w_waitResult (h_world h)"
  by (simp_all add: after_wait_def Let_def host_frame_def)

text \<open>What a turn of the loop does, with \<open>f\<close> for the rest of the loop.\<close>

lemma wait_turn:
  "(case enet_time_get h of (now, h) \<Rightarrow>
      let h = h\<lparr>h_serviceTime := now\<rparr>
      in if ENET_TIME_GREATER_EQUAL now timeout then Some (Inl 0, h)
         else case enet_socket_wait h of (r, condition, h) \<Rightarrow>
           if r \<noteq> 0 then Some (Inl (-1), h)
           else if condition AND ENET_SOCKET_WAIT_INTERRUPT \<noteq> 0 then f h else Some (Inr condition, h)) =
   (let w = h_world h; now = w_clock w (w_clockCalls w); (r, condition) = w_waitResult w (w_waitCalls w)
    in if ENET_TIME_GREATER_EQUAL now timeout
       then Some (Inl 0, h\<lparr>h_serviceTime := now, h_world := w\<lparr>w_clockCalls := Suc (w_clockCalls w)\<rparr>\<rparr>)
       else if r \<noteq> 0 then Some (Inl (-1), after_wait h)
       else if condition AND ENET_SOCKET_WAIT_INTERRUPT \<noteq> 0 then f (after_wait h)
       else Some (Inr condition, after_wait h))"
  by (simp add: enet_time_get_def enet_socket_wait_def Let_def after_wait_def split: prod.split)

lemma wait_loop_waited:
  assumes "wait_loop timeout h = Some (result, h')"
  shows "waited timeout h result h'"
proof -
  have "waited timeout h (fst a) (snd a)" if "wait_loop timeout h = Some a" for a
  proof (rule wait_loop.raw_induct [where P = "\<lambda>timeout h a. waited timeout h (fst a) (snd a)", OF _ that], goal_cases)
    case (1 f timeout h a)
    obtain r condition where w: "w_waitResult (h_world h) (w_waitCalls (h_world h)) = (r, condition)" by (meson surj_pair)
    have frame: "host_frame h (h\<lparr>h_serviceTime := t, h_world := x\<rparr>)" for t x by (simp add: host_frame_def)
    have ih: "waited timeout h (fst a) (snd a)" if "f timeout (after_wait h) = Some a"
      using waited_after [OF 1(1) [OF that]] by simp
    show ?case
      using 1(2) ih unfolding wait_turn
      by (auto simp: Let_def w waited_def frame split: if_split_asm)
  qed
  from this [OF assms] show ?thesis by simp
qed

lemma wait_loop_ends:
  assumes "w_clockCalls (h_world h) \<le> n" "ENET_TIME_GREATER_EQUAL (w_clock (h_world h) n) timeout"
  shows "\<exists>result h'. wait_loop timeout h = Some (result, h')"
  using assms
proof (induction "n - w_clockCalls (h_world h)" arbitrary: h)
  case 0
  then show ?case by (subst wait_loop.simps) (simp add: enet_time_get_def Let_def)
next
  case (Suc d)
  have "d = n - w_clockCalls (h_world (after_wait h))" "w_clockCalls (h_world (after_wait h)) \<le> n"
    using Suc(2,3) by auto
  then obtain result k where IH: "wait_loop timeout (after_wait h) = Some (result, k)"
    using Suc(1) [of "after_wait h"] Suc(4) by auto
  show ?case
    by (subst wait_loop.simps, unfold wait_turn) (simp add: Let_def IH split: prod.split)
qed

section \<open>Servicing\<close>

definition service_ends :: "nat \<Rightarrow> u32 \<Rightarrow> int \<Rightarrow> ENetEvent option \<Rightarrow> ENetHost \<Rightarrow> bool" where
  "service_ends n timeout r event h \<longleftrightarrow> served n r event h \<and>
     (r = 0 \<longrightarrow> ENET_TIME_GREATER_EQUAL (h_serviceTime h) timeout \<or> idle_wait (h_world h))"

lemma service_loop_ends:
  assumes "service_loop timeout event h = Some (r, event', h')" "host_ok h" "length (h_peers h) = n"
  shows "service_ends n timeout r event' h'"
proof -
  let ?Q = "\<lambda>timeout a. service_ends n timeout (fst a) (fst (snd a)) (snd (snd a))"
  have "host_ok h \<longrightarrow> length (h_peers h) = n \<longrightarrow> ?Q timeout a" if "service_loop timeout event h = Some a" for a
  proof (rule service_loop.raw_induct [where P = "\<lambda>timeout event h a. host_ok h \<longrightarrow> length (h_peers h) = n \<longrightarrow> ?Q timeout a", OF _ that], goal_cases)
    case (1 f timeout event h a)
    show ?case
    proof (intro impI)
      assume ok: "host_ok h" "length (h_peers h) = n"
      obtain r e g where round: "service_round event h = Some (r, e, g)"
        using 1(2) by (auto split: option.split_asm)
      have g: "served n r e g" by (rule service_round_served [OF ok round])
      have r: "r = 0" if "r \<noteq> 1" "r \<noteq> -1" using g that by (simp add: served_def)
      consider "r = 1 \<or> r = -1" "a = (r, e, g)" | "r = 0" "ENET_TIME_GREATER_EQUAL (h_serviceTime g) timeout" "a = (0, e, g)"
        | result k where "r = 0" "wait_loop timeout g = Some (result, k)"
          "(case result of Inl r' \<Rightarrow> Some (r', e, k)
             | Inr condition \<Rightarrow> (case enet_time_get k of (now, k) \<Rightarrow>
                  if condition AND ENET_SOCKET_WAIT_RECEIVE \<noteq> 0 then f timeout e (k\<lparr>h_serviceTime := now\<rparr>)
                  else Some (0, e, k\<lparr>h_serviceTime := now\<rparr>))) = Some a"
        using 1(2) r unfolding round Let_def by (auto split: if_split_asm option.split_asm sum.split_asm prod.split_asm)
      then show "?Q timeout a"
      proof cases
        case 3
        note w = wait_loop_waited [OF 3(2)]
        have k: "served n 0 e k" using served_same [of n 0 e g k] g w 3(1) by (simp add: waited_def)
        show ?thesis
        proof (cases result)
          case (Inl r')
          then show ?thesis using 3(3) w k by (auto simp: service_ends_def waited_def served_def reports_def)
        next
          case (Inr condition)
          obtain now l where t: "enet_time_get k = (now, l)" by (meson surj_pair)
          define m where "m = l\<lparr>h_serviceTime := now\<rparr>"
          have m: "h_peers m = h_peers k" "host_frame k m" "idle_wait (h_world m) = idle_wait (h_world k)"
            using t by (auto simp: m_def enet_time_get_def Let_def host_frame_def idle_wait_def)
          have "served n 0 e m" using served_same [OF k m(1,2)] .
          moreover have "f timeout e m = Some a \<or> a = (0, e, m) \<and> idle_wait (h_world m)"
            using 3(3) w Inr t m(3) by (auto simp: waited_def idle_wait_def simp flip: m_def split: if_split_asm)
          ultimately show ?thesis
            using 1(1) [of timeout e m a] by (auto simp: service_ends_def served_def)
        qed
      qed (use g in \<open>auto simp: service_ends_def\<close>)
    qed
  qed
  from this [OF assms(1)] assms(2,3) show ?thesis by simp
qed

lemma service_result:
  assumes "host_ok h" "enet_host_service event timeout h = Some (r, event', h')"
  shows "service_ends (length (h_peers h)) (timeout + w_clock (h_world h) (w_clockCalls (h_world h))) r event' h'"
proof -
  obtain r1 e1 h1 where d: "dispatch_to (map_option no_event event) h = Some (r1, e1, h1)"
    using assms(2) by (auto simp: enet_host_service_def unless_settled_def split: option.split_asm)
  note h1 = dispatch_to_result [OF assms(1) d]
  show ?thesis
  proof (cases "r1 = 1")
    case True
    then show ?thesis using assms(2) h1 d by (auto simp: enet_host_service_def unless_settled_def service_ends_def served_def)
  next
    case False
    then have r1: "r1 = 0" using h1 by simp
    let ?now = "w_clock (h_world h) (w_clockCalls (h_world h))"
    define g where "g = (snd (enet_time_get h1))\<lparr>h_serviceTime := ?now\<rparr>"
    have "service_loop (timeout + ?now) e1 g = Some (r, event', h')"
      using assms(2) d r1 dispatch_to_world [of _ h e1 h1]
      by (simp add: enet_host_service_def unless_settled_def enet_time_get_def Let_def g_def)
    moreover have "host_ok g" "length (h_peers g) = length (h_peers h)"
      using h1 host_ok_same_peers [of h1 g] by (simp_all add: g_def enet_time_get_def Let_def host_frame_def)
    ultimately show ?thesis by (rule service_loop_ends)
  qed
qed

text \<open>What holds when the service has returned.  It returns 1 only with an event, and 0 only when no event
  is left to collect and the time given has passed or the last wait was answered without a datagram: it
  neither swallows an event nor gives up early.\<close>

theorem service_outcome:
  assumes "host_ok h" "enet_host_service event timeout h = Some (r, event', h')"
  shows "host_ok h' \<and> r \<in> {-1, 0, 1} \<and>
    (r = 1 \<longrightarrow> (\<exists>e. event' = Some e \<and> ev_type e \<noteq> ENET_EVENT_TYPE_NONE)) \<and>
    (r = 0 \<longrightarrow> (event' \<noteq> None \<longrightarrow> h_dispatchQueue h' = []) \<and>
       (ENET_TIME_GREATER_EQUAL (h_serviceTime h') (timeout + w_clock (h_world h) (w_clockCalls (h_world h))) \<or>
        idle_wait (h_world h')))"
  using service_result [OF assms] by (simp add: service_ends_def served_def reports_def)

text \<open>A host whose peer has been acknowledged, and the same host when there is nothing to collect.\<close>

theorem service_outcome_witness:
  "\<exists>r event' h'. enet_host_service (Some empty_event) 5 (peer_example ENET_PEER_STATE_CONNECTION_PENDING)
      = Some (r, event', h') \<and> r = 1 \<and> host_ok h'"
proof -
  obtain r event' h' where s: "enet_host_service (Some empty_event) 5 (peer_example ENET_PEER_STATE_CONNECTION_PENDING)
      = Some (r, event', h')" "r = 1"
    by (simp add: enet_host_service_def unless_settled_def dispatch_to_def no_event_def empty_event_def
        enet_protocol_dispatch_incoming_commands_def dispatch_queue_loop.simps Let_def)
  then show ?thesis using service_outcome [OF peer_example_ok s(1)] by blast
qed

text \<open>The wait ends as soon as the clock, which is read once a turn, shows a time past the
  deadline, however many interrupts arrive and whatever they are; it then returns 0 unless an error or
  an answer ended it before.  Waiting changes no peer.\<close>

theorem wait_returns:
  assumes "w_clockCalls (h_world h) \<le> n" "ENET_TIME_GREATER_EQUAL (w_clock (h_world h) n) timeout"
  shows "\<exists>result h'. wait_loop timeout h = Some (result, h') \<and> h_peers h' = h_peers h \<and>
    (case result of
       Inl r \<Rightarrow> r = 0 \<and> ENET_TIME_GREATER_EQUAL (h_serviceTime h') timeout \<or> r = -1
     | Inr condition \<Rightarrow> 0 < w_waitCalls (h_world h') \<and>
         w_waitResult (h_world h') (w_waitCalls (h_world h') - 1) = (0, condition))"
  using wait_loop_ends [OF assms] wait_loop_waited by (fastforce simp: waited_def)

text \<open>Every wait is interrupted; the clock shows the number of its readings.\<close>

theorem wait_returns_witness:
  "\<exists>result h'. wait_loop 2 ((peer_example ENET_PEER_STATE_CONNECTED)\<lparr>h_world :=
     quiet_world\<lparr>w_clock := of_nat, w_waitResult := (\<lambda>_. (0, 4))\<rparr>\<rparr>) = Some (result, h')"
  using wait_returns [of "(peer_example ENET_PEER_STATE_CONNECTED)\<lparr>h_world :=
     quiet_world\<lparr>w_clock := of_nat, w_waitResult := (\<lambda>_. (0, 4))\<rparr>\<rparr>" 2 2]
  by (auto simp: quiet_world_def ENET_TIME_GREATER_EQUAL_def ENET_TIME_LESS_def)


section \<open>Collecting ends\<close>

text \<open>What is left to collect: the peers in the dispatch queue and the commands they can hand out.\<close>

definition dispatch_work :: "ENetHost \<Rightarrow> nat" where
  "dispatch_work h = length (h_dispatchQueue h) + sum_list (map (\<lambda>p. length (p_dispatchedCommands p)) (h_peers h))"

lemma sum_list_update_le:
  "i < length xs \<Longrightarrow> sum_list (map g (xs[i := x])) + g (xs ! i) = sum_list (map g xs) + g x" for g :: "'a \<Rightarrow> nat"
proof (induction xs arbitrary: i)
  case (Cons a xs)
  then show ?case using Cons.IH [of "i - 1"] by (cases i) auto
qed simp

lemma dispatch_work_upd:
  assumes "i < length (h_peers h)" "length (p_dispatchedCommands (f (peer_at h i))) \<le> length (p_dispatchedCommands (peer_at h i))"
  shows "dispatch_work (upd_peer i f h) +
    (length (p_dispatchedCommands (peer_at h i)) - length (p_dispatchedCommands (f (peer_at h i)))) = dispatch_work h"
  using sum_list_update_le [OF assms(1), of "\<lambda>p. length (p_dispatchedCommands p)" "f (peer_at h i)"] assms(2)
  by (simp add: dispatch_work_def)

lemma pop_dispatch_work:
  "host_ok h \<Longrightarrow> h_dispatchQueue h = i # queue \<Longrightarrow> Suc (dispatch_work (pop_dispatch h i queue)) = dispatch_work h"
  using dispatch_work_upd [of i "h\<lparr>h_dispatchQueue := queue\<rparr>" "p_needsDispatch_update (\<lambda>_. False)"]
    pop_dispatch_keeps(2) [of h i queue]
  by (simp add: pop_dispatch_def) (simp add: dispatch_work_def)

lemma change_state_work:
  "i < length (h_peers h) \<Longrightarrow> dispatch_work (enet_protocol_change_state i s h) = dispatch_work h"
proof -
  define g where "g = (if is_connected s then enet_peer_on_connect i h else enet_peer_on_disconnect i h)"
  assume "i < length (h_peers h)"
  moreover have "h_peers g = h_peers h" "h_dispatchQueue g = h_dispatchQueue h"
    by (simp_all add: g_def enet_peer_on_connect_def enet_peer_on_disconnect_def Let_def)
  moreover have "enet_protocol_change_state i s h = upd_peer i (p_state_update (\<lambda>_. s)) g"
    by (simp add: enet_protocol_change_state_def g_def Let_def)
  ultimately show ?thesis using dispatch_work_upd [of i g "p_state_update (\<lambda>_. s)"] by (simp add: dispatch_work_def)
qed

lemma reset_queues_work:
  assumes "i < length (h_peers h)"
  shows "dispatch_work (enet_peer_reset_queues i h) \<le> dispatch_work h"
proof -
  obtain hp f where r: "enet_peer_reset_queues i h = upd_peer i f
      ((if p_needsDispatch (peer_at h i) then h\<lparr>h_dispatchQueue := remove1 i (h_dispatchQueue h)\<rparr> else h)\<lparr>h_heap := hp\<rparr>)"
    and f: "p_dispatchedCommands (f p) = []" for p
    by (rule that [OF enet_peer_reset_queues_def [of i h, unfolded Let_def]]) simp
  define k where "k = (if p_needsDispatch (peer_at h i)
      then h\<lparr>h_dispatchQueue := remove1 i (h_dispatchQueue h)\<rparr> else h)\<lparr>h_heap := hp\<rparr>"
  have k: "h_peers k = h_peers h" "length (h_dispatchQueue k) \<le> length (h_dispatchQueue h)"
    by (simp_all add: k_def length_remove1)
  then have "dispatch_work (upd_peer i f k) \<le> dispatch_work k" "dispatch_work k \<le> dispatch_work h"
    using dispatch_work_upd [of i k f] assms f by (simp, simp add: dispatch_work_def)
  then show ?thesis by (simp add: r flip: k_def)
qed

lemma reset_work:
  assumes "i < length (h_peers h)"
  shows "dispatch_work (enet_peer_reset i h) \<le> dispatch_work h"
proof -
  define g where "g = enet_peer_on_disconnect i h"
  define k where "k = upd_peer i (reset_fields (h_mtu g)) g"
  have g: "h_peers g = h_peers h" "h_dispatchQueue g = h_dispatchQueue h"
    by (simp_all add: g_def enet_peer_on_disconnect_def Let_def)
  then have "dispatch_work k = dispatch_work h"
    using dispatch_work_upd [of i g "reset_fields (h_mtu g)"] assms
    by (simp add: dispatch_work_def k_def reset_fields_def)
  then show ?thesis
    using reset_queues_work [of i k] assms g by (simp add: enet_peer_reset_def Let_def k_def g_def)
qed

lemma receive_work:
  assumes "i < length (h_peers h)" "enet_peer_receive i h = (Some a, g)"
  shows "Suc (dispatch_work g) = dispatch_work h"
proof -
  obtain ic rest where c: "p_dispatchedCommands (peer_at h i) = ic # rest"
    using assms(2) by (auto simp: enet_peer_receive_def split: list.split_asm)
  have "g = snd (enet_peer_receive i h)" using assms(2) by simp
  note g' = trans [OF this, unfolded enet_peer_receive_def c list.case Let_def snd_conv]
  obtain f hp where g: "g = upd_peer i f (h\<lparr>h_heap := hp\<rparr>)" and f: "p_dispatchedCommands (f p) = rest" for p
    by (rule that [OF g' [OF refl]]) simp
  show ?thesis
    using dispatch_work_upd [of i "h\<lparr>h_heap := hp\<rparr>" f] assms(1) c f by (simp add: g) (simp add: dispatch_work_def)
qed

lemma append_dispatch_work:
  assumes "i < length (h_peers h)"
  shows "dispatch_work (upd_peer i (p_needsDispatch_update (\<lambda>_. True)) (h\<lparr>h_dispatchQueue := h_dispatchQueue h @ [i]\<rparr>))
    = Suc (dispatch_work h)"
  using dispatch_work_upd [of i "h\<lparr>h_dispatchQueue := h_dispatchQueue h @ [i]\<rparr>" "p_needsDispatch_update (\<lambda>_. True)"]
    assms by simp (simp add: dispatch_work_def)

text \<open>Every event collected leaves less to collect.\<close>

lemma dispatch_queue_loop_work:
  "host_ok h \<Longrightarrow> dispatch_queue_loop fuel e h = Some (1, e', h') \<Longrightarrow> dispatch_work h' < dispatch_work h"
proof (induction fuel arbitrary: e h)
  case 0
  then show ?case by (auto simp: dispatch_queue_loop.simps split: list.split_asm)
next
  case (Suc fuel)
  obtain i queue where q: "h_dispatchQueue h = i # queue"
    using Suc.prems(2) by (auto simp: dispatch_queue_loop.simps split: list.split_asm)
  note pop = pop_dispatch_keeps [OF Suc.prems(1) q]
  define g where "g = pop_dispatch h i queue"
  have g: "host_ok g" "i < length (h_peers g)" "Suc (dispatch_work g) = dispatch_work h"
    using pop pop_dispatch_work [OF Suc.prems(1) q] by (simp_all add: g_def)
  note unfold = dispatch_queue_loop.simps [of "Suc fuel" e h, unfolded q, simplified, folded pop_dispatch_def g_def]
  have ih: "dispatch_work h' < dispatch_work h" if "dispatch_queue_loop fuel e0 g = Some (1, e', h')" for e0
    using Suc.IH [OF g(1) that] g(3) by simp
  have recv: "dispatch_work k < dispatch_work h" "dispatch_work (upd_peer i (p_needsDispatch_update (\<lambda>_. True))
      (k\<lparr>h_dispatchQueue := h_dispatchQueue k @ [i]\<rparr>)) < dispatch_work h"
    if "enet_peer_receive i g = (Some a, k)" for a k
    using receive_work [OF g(2) that] g(3) append_dispatch_work [of i k] receive_fields(2) [of i g] g(2) that by simp_all
  have none: "k = g" if "enet_peer_receive i g = (None, k)" for k
    using that by (simp add: enet_peer_receive_def Let_def split: list.split_asm)
  have "dispatch_work (g\<lparr>h_recalculateBandwidthLimits := True\<rparr>) = dispatch_work g" by (simp add: dispatch_work_def)
  then have reset: "dispatch_work (enet_peer_reset i (g\<lparr>h_recalculateBandwidthLimits := True\<rparr>)) < dispatch_work h"
    using reset_work [of i "g\<lparr>h_recalculateBandwidthLimits := True\<rparr>"] g(2,3) by simp
  have connect: "dispatch_work (enet_protocol_change_state i s g) < dispatch_work h" for s
    using change_state_work [OF g(2), of s] g(3) by simp
  show ?case
    using Suc.prems(2) ih recv reset connect none
    by (auto simp: unfold Let_def split: if_split_asm prod.split_asm option.split_asm)
qed

lemma check_events_work:
  assumes "host_ok h" "enet_host_check_events (Some e) h = Some (r, event', h')"
  shows "host_ok h' \<and> (r = 1 \<and> (\<exists>e'. event' = Some e' \<and> event_matches e' h') \<and> dispatch_work h' < dispatch_work h \<or>
    r = 0 \<and> h_dispatchQueue h' = [])"
proof -
  obtain r' e' g where d: "enet_protocol_dispatch_incoming_commands (no_event e) h = Some (r', e', g)" "host_ok g"
    "r' = 0 \<and> h_dispatchQueue g = [] \<and> e' = no_event e \<or> r' = 1 \<and> event_matches e' g"
    using dispatch_queue_loop_result [OF assms(1) order_refl, of "no_event e"]
    by (auto simp: enet_protocol_dispatch_incoming_commands_def)
  then show ?thesis
    using assms dispatch_queue_loop_work [OF assms(1), of "length (h_dispatchQueue h)" "no_event e" e' g]
    by (auto simp: enet_host_check_events_def dispatch_to_def enet_protocol_dispatch_incoming_commands_def)
qed

end
