(* ===== verification/EnetProgress.thy ===== *)
theory EnetProgress
  imports EnetReliable
begin

text \<open>
  The loop of \<^verbatim>\<open>enet_protocol_send_outgoing_commands\<close> (\<^verbatim>\<open>enet/protocol.cpp\<close>) ends.  It repeats its pass over
  the peers while something did not fit into a datagram.  What a peer has waiting is measured by its
  \<open>load\<close>; a datagram takes off the load at least as much as it has commands, and one that was full has some.
\<close>

section \<open>The load of a peer\<close>

definition good_peer :: "ENetPeer \<Rightarrow> bool" where
  "good_peer p \<longleftrightarrow> ENET_PROTOCOL_MINIMUM_MTU \<le> p_mtu p \<and> p_mtu p \<le> ENET_PROTOCOL_MAXIMUM_MTU \<and>
     p_channelCount p \<le> ENET_PROTOCOL_MAXIMUM_CHANNEL_COUNT \<and>
     p_roundTripTime p + 4 * p_roundTripTimeVariance p \<noteq> 0 \<and>
     (\<forall>oc\<in>set (p_outgoingReliableCommands p) \<union> set (p_outgoingUnreliableCommands p) \<union> set (p_sentReliableCommands p).
        fits (p_mtu p) oc)"

text \<open>The invariant of the host is enough.\<close>

lemma peer_ok_good:
  assumes "peer_ok p"
  shows "good_peer p"
proof -
  have r: "7 \<le> unat (p_roundTripTime p)" "unat (p_roundTripTime p) < 86400000" "unat (p_roundTripTimeVariance p) < 86400000"
    using assms by (simp_all add: peer_ok_def sending_ok_def word_le_nat_alt word_less_nat_alt)
  then have "unat (p_roundTripTime p + 4 * p_roundTripTimeVariance p) =
      unat (p_roundTripTime p) + 4 * unat (p_roundTripTimeVariance p)"
    by (simp add: unat_word_ariths)
  then have "p_roundTripTime p + 4 * p_roundTripTimeVariance p \<noteq> 0" using r(1) by (metis add_is_0 not_numeral_le_zero unat_0)
  then show ?thesis
    using assms queued_fits by (auto simp: good_peer_def peer_ok_def queued_commands_def)
qed

text \<open>An acknowledgement counts two; a sent command that is overdue counts four, because it may come back and
  leave the list of sent commands empty, and an empty list calls for a ping; a peer that is to disconnect
  later will queue the command for it.\<close>

definition load :: "u32 \<Rightarrow> ENetPeer \<Rightarrow> nat" where
  "load t p = 2 * length (p_acknowledgements p) + length (p_outgoingReliableCommands p) +
     length (p_outgoingUnreliableCommands p) + 4 * length (filter (overdue t) (p_sentReliableCommands p)) +
     (if p_sentReliableCommands p = [] then 2 else 0) +
     (if p_state p = ENET_PEER_STATE_DISCONNECT_LATER then 4 else 0)"

definition is_live :: "ENetPeer \<Rightarrow> bool" where
  "is_live p \<longleftrightarrow> p_state p \<noteq> ENET_PEER_STATE_DISCONNECTED \<and> p_state p \<noteq> ENET_PEER_STATE_ZOMBIE"

section \<open>Steps of a datagram\<close>

text \<open>The datagram of a peer only concerns this peer.\<close>

definition aside :: "nat \<Rightarrow> ENetHost \<Rightarrow> ENetHost \<Rightarrow> bool" where
  "aside i h h' \<longleftrightarrow> length (h_peers h') = length (h_peers h) \<and> h_serviceTime h' = h_serviceTime h \<and>
     (\<forall>j. j \<noteq> i \<longrightarrow> peer_at h' j = peer_at h j)"

lemma aside_refl [simp]: "aside i h h"
  by (simp add: aside_def)

lemma aside_index: "aside i h h' \<Longrightarrow> i < length (h_peers h) \<Longrightarrow> i < length (h_peers h')"
  by (simp add: aside_def)

lemma aside_time: "aside i h h' \<Longrightarrow> h_serviceTime h' = h_serviceTime h"
  by (simp add: aside_def)

lemma aside_trans: "aside i g h \<Longrightarrow> aside i h k \<Longrightarrow> aside i g k"
  by (simp add: aside_def)

text \<open>While no command has been put into it, the datagram is empty.\<close>

definition fresh_datagram :: "ENetHost \<Rightarrow> bool" where
  "fresh_datagram h \<longleftrightarrow> (h_commandCount h = 0 \<longrightarrow> h_bufferCount h = 1 \<and> h_packetSize h = 4)"

text \<open>The flag is raised only for a datagram that holds a command.\<close>

definition raised :: "ENetHost \<Rightarrow> ENetHost \<Rightarrow> bool" where
  "raised h h' \<longleftrightarrow> (h_continueSending h' \<longrightarrow> h_continueSending h \<or> 0 < h_commandCount h') \<and>
     h_commandCount h \<le> h_commandCount h'"

lemma raised_refl [simp]: "raised h h"
  by (simp add: raised_def)

lemma raised_trans: "raised g h \<Longrightarrow> raised h k \<Longrightarrow> raised g k"
  by (auto simp: raised_def)

lemma upd_peer_sending [simp]:
  "h_commandCount (upd_peer i f h) = h_commandCount h" "h_bufferCount (upd_peer i f h) = h_bufferCount h"
  "h_packetSize (upd_peer i f h) = h_packetSize h" "h_continueSending (upd_peer i f h) = h_continueSending h"
  by (simp_all add: upd_peer_def)

lemma put_outgoing_sending [simp]:
  "h_commandCount (put_outgoing oc len h) = Suc (h_commandCount h)"
  "h_continueSending (put_outgoing oc len h) = h_continueSending h"
  by (simp_all add: put_outgoing_def put_command_def put_packet_def Let_def split: option.split)

lemma put_command_sending [simp]:
  "h_commandCount (put_command c len h) = Suc (h_commandCount h)"
  "h_continueSending (put_command c len h) = h_continueSending h"
  "h_serviceTime (put_command c len h) = h_serviceTime h"
  by (simp_all add: put_command_def)

lemma fresh_put [simp]: "fresh_datagram (put_outgoing oc len h)" "fresh_datagram (put_command c len h)"
  by (simp_all add: fresh_datagram_def)

lemma fresh_upd_peer [simp]: "fresh_datagram (upd_peer i f h) = fresh_datagram h"
  by (simp add: fresh_datagram_def)

lemma fresh_fields [simp]:
  "fresh_datagram (h\<lparr>h_continueSending := b\<rparr>) = fresh_datagram h" "fresh_datagram (h\<lparr>h_headerFlags := w\<rparr>) = fresh_datagram h"
  "fresh_datagram (h\<lparr>h_heap := hp\<rparr>) = fresh_datagram h"
  by (simp_all add: fresh_datagram_def)

lemma empty_space:
  assumes "fresh_datagram h" "h_commandCount h = 0" "576 \<le> p_mtu (peer_at h i)"
  shows "unat (space_left i h) = unat (p_mtu (peer_at h i)) - 4"
proof -
  have "unat (4 :: size_t) \<le> unat (ucast (p_mtu (peer_at h i)) :: size_t)"
    using assms(3) by (simp add: word_le_nat_alt)
  then show ?thesis
    using assms(1,2) by (simp add: space_left_def fresh_datagram_def unat_sub word_le_nat_alt)
qed

lemma size_of_command_nat:
  assumes "number_of c < ENET_PROTOCOL_COMMAND_COUNT"
  shows "unat (size_of_command c) = commandSizes ! unat (number_of c)"
  using commandSizes_le [OF assms] by (simp add: size_of_command_def unsigned_of_nat take_bit_nat_eq_self)

lemma full_not_empty:
  assumes "fresh_datagram h" "fits (p_mtu (peer_at h i)) oc" "576 \<le> p_mtu (peer_at h i)" "p_mtu (peer_at h i) \<le> 4096"
    "datagram_full_reliable i oc h \<or> datagram_full_unreliable i oc h"
  shows "0 < h_commandCount h"
proof (rule ccontr)
  assume "\<not> 0 < h_commandCount h"
  then have c: "h_commandCount h = 0" "h_bufferCount h = 1" using assms(1) by (auto simp: fresh_datagram_def)
  let ?M = "unat (p_mtu (peer_at h i))" and ?s = "size_of_command (oc_command oc)"
  have M: "576 \<le> ?M" "?M \<le> 4096" using assms(3,4) by (simp_all add: word_le_nat_alt)
  have sp: "unat (space_left i h) = ?M - 4" using empty_space [OF assms(1) c(1) assms(3)] .
  have f: "unat ?s + unat (oc_fragmentLength oc) + 4 \<le> ?M"
    using assms(2) by (simp add: fits_def size_of_command_nat)
  have small: "\<not> space_left i h < ?s" using f sp by (simp add: word_less_nat_alt split: if_split_asm)
  have sum: "unat (?s + ucast (oc_fragmentLength oc)) = unat ?s + unat (oc_fragmentLength oc)" if "oc_packet oc \<noteq> None"
    using f M that by (simp add: unat_word_ariths(1))
  have big: "\<not> space_left i h < ?s + ucast (oc_fragmentLength oc)" if "oc_packet oc \<noteq> None"
    using f sp sum [OF that] that by (simp add: word_less_nat_alt)
  have big16: "\<not> (ucast (space_left i h) :: u16) < ucast (?s + ucast (oc_fragmentLength oc))" if "oc_packet oc \<noteq> None"
  proof -
    have "unat (ucast (space_left i h) :: u16) = ?M - 4" using sp M by (subst unat_ucast_le) simp_all
    moreover have "unat (ucast (?s + ucast (oc_fragmentLength oc)) :: u16) = unat ?s + unat (oc_fragmentLength oc)"
      using sum [OF that] f M that by (subst unat_ucast_le) simp_all
    ultimately show ?thesis using f that by (simp add: word_less_nat_alt)
  qed
  show False
    using assms(5) c small big big16 by (auto simp: datagram_full_reliable_def datagram_full_unreliable_def Let_def)
qed

section \<open>Reliable commands\<close>

text \<open>The fields of a peer that sending leaves alone.\<close>

definition same_timing :: "ENetPeer \<Rightarrow> ENetPeer \<Rightarrow> bool" where
  "same_timing p q \<longleftrightarrow> p_mtu q = p_mtu p \<and> p_roundTripTime q = p_roundTripTime p \<and>
     p_roundTripTimeVariance q = p_roundTripTimeVariance p \<and> p_channelCount q = p_channelCount p \<and>
     p_acknowledgements q = p_acknowledgements p \<and> p_state q = p_state p"

lemma same_timing_refl [simp]: "same_timing p p"
  by (simp add: same_timing_def)

lemma same_timing_trans: "same_timing p q \<Longrightarrow> same_timing q r \<Longrightarrow> same_timing p r"
  by (simp add: same_timing_def)

lemma fits_start_timeout [simp]: "fits M (start_timeout t p oc) = fits M oc"
  using start_timeout_stamped [of t oc p] by (simp add: stamped_def fits_def)

lemma start_timeout_not_overdue:
  assumes "p_roundTripTime p + 4 * p_roundTripTimeVariance p \<noteq> 0"
  shows "\<not> overdue t (start_timeout t p oc)"
proof -
  have "oc_roundTripTimeout (start_timeout t p oc) \<noteq> 0" "oc_sentTime (start_timeout t p oc) = t"
    using assms by (simp_all add: start_timeout_def Let_def)
  then show ?thesis by (simp add: overdue_def ENET_TIME_DIFFERENCE_def)
qed

lemma same_timing_record_sent:
  "same_timing p (record_sent t oc p)" "p_outgoingUnreliableCommands (record_sent t oc p) = p_outgoingUnreliableCommands p"
  by (simp_all add: same_timing_def record_sent_def Let_def upd_channel_def)

text \<open>A command that no window holds back: it has no packet, and belongs to no channel.\<close>

definition urgent :: "ENetOutgoingCommand \<Rightarrow> bool" where
  "urgent oc \<longleftrightarrow> oc_packet oc = None \<and> channel_of (oc_command oc) = 0xFF"

definition reliable_ready :: "nat \<Rightarrow> ENetOutgoingCommand list \<Rightarrow> ENetHost \<Rightarrow> bool" where
  "reliable_ready i ocs h \<longleftrightarrow> i < length (h_peers h) \<and> fresh_datagram h \<and> good_peer (peer_at h i) \<and>
     (\<forall>oc\<in>set ocs. fits (p_mtu (peer_at h i)) oc)"

definition reliable_progress :: "nat \<Rightarrow> ENetOutgoingCommand list \<Rightarrow> ENetOutgoingCommand list \<Rightarrow> ENetHost \<Rightarrow> ENetHost \<Rightarrow> bool" where
  "reliable_progress i ocs rest h h' \<longleftrightarrow>
     (\<exists>new. p_sentReliableCommands (peer_at h' i) = p_sentReliableCommands (peer_at h i) @ new \<and>
        length ocs = length rest + length new \<and> h_commandCount h' = h_commandCount h + length new \<and>
        (\<forall>oc\<in>set new. fits (p_mtu (peer_at h i)) oc \<and> \<not> overdue (h_serviceTime h) oc)) \<and>
     same_timing (peer_at h i) (peer_at h' i) \<and>
     p_outgoingReliableCommands (peer_at h' i) = p_outgoingReliableCommands (peer_at h i) \<and>
     p_outgoingUnreliableCommands (peer_at h' i) = p_outgoingUnreliableCommands (peer_at h i) \<and>
     set rest \<subseteq> set ocs \<and> fresh_datagram h' \<and> raised h h' \<and> aside i h h' \<and>
     ((\<exists>oc\<in>set ocs. urgent oc) \<longrightarrow> 0 < h_commandCount h')"

lemma reliable_progress_keep:
  assumes "reliable_progress i ocs rest h h'" "\<not> urgent oc"
  shows "reliable_progress i (oc # ocs) (oc # rest) h h'"
  using assms by (auto simp: reliable_progress_def)

lemma reliable_progress_sent:
  assumes ready: "reliable_ready i (oc # ocs) h"
    and rest: "reliable_ready i ocs (reliable_sent i oc h) \<Longrightarrow> reliable_progress i ocs rest (reliable_sent i oc h) h'"
  shows "reliable_progress i (oc # ocs) rest h h'"
proof -
  define g where "g = reliable_sent i oc h"
  define p where "p = peer_at h i"
  define t where "t = h_serviceTime h"
  have i: "i < length (h_peers h)" using ready by (simp add: reliable_ready_def)
  have g: "peer_at g i = record_sent t oc p" "h_commandCount g = Suc (h_commandCount h)" "h_serviceTime g = t"
    "fresh_datagram g" "aside i h g" "raised h g" "i < length (h_peers g)"
    using i by (simp_all add: g_def p_def t_def aside_def raised_def)
  have st: "same_timing p (peer_at g i)" "p_outgoingUnreliableCommands (peer_at g i) = p_outgoingUnreliableCommands p"
    "p_outgoingReliableCommands (peer_at g i) = p_outgoingReliableCommands p"
    "p_sentReliableCommands (peer_at g i) = p_sentReliableCommands p @ [start_timeout t p oc]"
    by (simp_all add: g(1) same_timing_record_sent)
  have ok: "p_roundTripTime p + 4 * p_roundTripTimeVariance p \<noteq> 0" "fits (p_mtu p) oc" "p_mtu (peer_at g i) = p_mtu p"
    using ready st(1) by (simp_all add: reliable_ready_def good_peer_def p_def same_timing_def)
  have "good_peer (peer_at g i)"
    using ready st ok by (auto simp: reliable_ready_def good_peer_def same_timing_def p_def)
  then have "reliable_ready i ocs g"
    using ready g ok(3) by (simp add: reliable_ready_def p_def)
  from rest [folded g_def, OF this] have R: "reliable_progress i ocs rest g h'" .
  then obtain new where new: "p_sentReliableCommands (peer_at h' i) = p_sentReliableCommands (peer_at g i) @ new"
    "length ocs = length rest + length new" "h_commandCount h' = h_commandCount g + length new"
    "\<forall>oc\<in>set new. fits (p_mtu p) oc \<and> \<not> overdue t oc"
    unfolding reliable_progress_def ok(3) g(3) by blast
  have "\<exists>new. p_sentReliableCommands (peer_at h' i) = p_sentReliableCommands p @ new \<and>
      length (oc # ocs) = length rest + length new \<and> h_commandCount h' = h_commandCount h + length new \<and>
      (\<forall>oc\<in>set new. fits (p_mtu p) oc \<and> \<not> overdue t oc)"
    using new g(2) st(4) ok(2) start_timeout_not_overdue [OF ok(1), of t oc]
    by (intro exI [of _ "start_timeout t p oc # new"]) simp
  moreover have "0 < h_commandCount h'" using new(3) g(2) by simp
  ultimately show ?thesis
    using R st g same_timing_trans aside_trans raised_trans unfolding reliable_progress_def
    by (simp add: p_def t_def) blast
qed

lemma send_reliable_loop_progress:
  assumes "send_reliable_loop i we ww cp ocs h = (rest, cp', h')" "reliable_ready i ocs h"
  shows "reliable_progress i ocs rest h h'"
proof -
  let ?R = "\<lambda>ocs rest h h'. reliable_ready i ocs h \<longrightarrow> reliable_progress i ocs rest h h'"
  have "?R ocs rest h h'"
    using assms(1)
  proof (rule send_reliable_loop_rule [where R = ?R])
    show "?R [] [] h h" for h by (simp add: reliable_progress_def reliable_ready_def)
    show "?R (oc # ocs) (oc # rest) h h'"
      if "oc_packet oc \<noteq> None \<or> ucast (channel_of (oc_command oc)) < p_channelCount (peer_at h i)" "?R ocs rest h h'"
      for oc ocs rest h h'
    proof
      assume r: "reliable_ready i (oc # ocs) h"
      then have "p_channelCount (peer_at h i) \<le> 255" by (simp add: reliable_ready_def good_peer_def)
      then have "\<not> urgent oc" using that(1) by (auto simp: urgent_def)
      moreover have "reliable_ready i ocs h" using r by (simp add: reliable_ready_def)
      ultimately show "reliable_progress i (oc # ocs) (oc # rest) h h'"
        using that(2) reliable_progress_keep by blast
    qed
    show "?R (oc # ocs) (oc # ocs) h (h\<lparr>h_continueSending := True\<rparr>)" if "datagram_full_reliable i oc h" for oc ocs h
      using full_not_empty [of h i oc] that
      by (auto simp: reliable_ready_def good_peer_def reliable_progress_def raised_def aside_def)
    show "?R (oc # ocs) rest h h'" if "?R ocs rest (reliable_sent i oc h) h'" for oc ocs rest h h'
      using reliable_progress_sent that by blast
  qed
  then show ?thesis using assms(2) by blast
qed

lemma load_sent:
  assumes "p_sentReliableCommands q = p_sentReliableCommands p @ new" "\<forall>oc\<in>set new. \<not> overdue t oc" "same_timing p q"
    "length (p_outgoingReliableCommands p) = length (p_outgoingReliableCommands q) + length new"
    "p_outgoingUnreliableCommands q = p_outgoingUnreliableCommands p"
  shows "load t q + length new + (if p_sentReliableCommands p = [] \<and> new \<noteq> [] then 2 else 0) = load t p"
proof -
  have "filter (overdue t) new = []" using assms(2) by simp
  then show ?thesis using assms by (simp add: load_def same_timing_def)
qed

text \<open>What one of the functions that fill the datagram does to the peer and the datagram.\<close>

definition fills :: "nat \<Rightarrow> ENetHost \<Rightarrow> ENetHost \<Rightarrow> bool" where
  "fills i h h' \<longleftrightarrow> good_peer (peer_at h' i) \<and> fresh_datagram h' \<and> raised h h' \<and> aside i h h'"

lemma fills_refl: "good_peer (peer_at h i) \<Longrightarrow> fresh_datagram h \<Longrightarrow> fills i h h"
  by (simp add: fills_def)

lemma fills_trans: "fills i g h \<Longrightarrow> fills i h k \<Longrightarrow> fills i g k"
  using raised_trans aside_trans unfolding fills_def by blast

lemma fills_length: "fills i h h' \<Longrightarrow> length (h_peers h') = length (h_peers h) \<and> h_serviceTime h' = h_serviceTime h"
  by (simp add: fills_def aside_def)

lemma send_reliable_fills:
  assumes "i < length (h_peers h)" "fresh_datagram h" "good_peer (peer_at h i)"
    "h' = snd (enet_protocol_send_reliable_outgoing_commands i h)" "t = h_serviceTime h"
  obtains r where "fills i h h'" "same_timing (peer_at h i) (peer_at h' i)" "h_commandCount h' = h_commandCount h + r"
    "load t (peer_at h' i) + r + (if p_sentReliableCommands (peer_at h i) = [] \<and> 0 < r then 2 else 0) = load t (peer_at h i)"
    "(\<exists>oc\<in>set (p_outgoingReliableCommands (peer_at h i)). urgent oc) \<longrightarrow> 0 < h_commandCount h'"
    "p_sentReliableCommands (peer_at h' i) = [] \<longrightarrow> r = 0"
proof -
  let ?p = "peer_at h i"
  obtain rest cp g where l: "send_reliable_loop i False False True (p_outgoingReliableCommands ?p) h = (rest, cp, g)"
    by (metis prod_cases3)
  have "reliable_ready i (p_outgoingReliableCommands ?p) h"
    using assms(1-3) by (auto simp: reliable_ready_def good_peer_def)
  note R = send_reliable_loop_progress [OF l this, unfolded reliable_progress_def]
  then obtain new where new: "p_sentReliableCommands (peer_at g i) = p_sentReliableCommands ?p @ new"
    "length (p_outgoingReliableCommands ?p) = length rest + length new" "h_commandCount g = h_commandCount h + length new"
    "\<forall>oc\<in>set new. fits (p_mtu ?p) oc \<and> \<not> overdue t oc"
    unfolding assms(5) by blast
  have h': "h' = upd_peer i (p_outgoingReliableCommands_update (\<lambda>_. rest)) g"
    by (simp add: assms(4) enet_protocol_send_reliable_outgoing_commands_def l)
  have "i < length (h_peers g)" using R assms(1) by (simp add: aside_def)
  then have p': "peer_at h' i = (peer_at g i)\<lparr>p_outgoingReliableCommands := rest\<rparr>" by (simp add: h')
  have st: "same_timing ?p (peer_at h' i)" using R by (simp add: p' same_timing_def)
  have "good_peer (peer_at h' i)"
    using assms(3) R new(1,4) st by (auto simp: good_peer_def p' same_timing_def)
  moreover have "aside i h h'" "raised h h'" "fresh_datagram h'"
    using R by (auto simp: h' aside_def raised_def)
  ultimately have "fills i h h'" by (simp add: fills_def)
  moreover have "load t (peer_at h' i) + length new + (if p_sentReliableCommands ?p = [] \<and> new \<noteq> [] then 2 else 0) = load t ?p"
    using new st R by (intro load_sent) (simp_all add: p')
  moreover have "h_commandCount h' = h_commandCount h + length new" using new(3) by (simp add: h')
  moreover have "p_sentReliableCommands (peer_at h' i) = [] \<longrightarrow> length new = 0" using new(1) by (simp add: p')
  moreover have "(\<exists>oc\<in>set (p_outgoingReliableCommands ?p). urgent oc) \<longrightarrow> 0 < h_commandCount h'"
    using R by (simp add: h')
  ultimately show thesis
    using that [of "length new"] st by simp
qed

text \<open>Commands that the host queues for itself: the ping, and the disconnection.\<close>

lemma setup_urgent:
  assumes "c AND ENET_PROTOCOL_COMMAND_FLAG_ACKNOWLEDGE \<noteq> 0" "c AND ENET_PROTOCOL_COMMAND_MASK < ENET_PROTOCOL_COMMAND_COUNT"
    "576 \<le> p_mtu p" "q = enet_peer_setup_outgoing_command p (new_outgoing (make_command c 0xFF body) None 0 0)"
  obtains oc where "p_outgoingReliableCommands q = p_outgoingReliableCommands p @ [oc]" "urgent oc" "fits (p_mtu p) oc"
    "p_sentReliableCommands q = p_sentReliableCommands p" "p_outgoingUnreliableCommands q = p_outgoingUnreliableCommands p"
    "same_timing p q"
proof -
  define oc where "oc = new_outgoing (make_command c 0xFF body) None 0 0"
  obtain r oc' where pr: "prepare_outgoing p oc = (r, oc')" by (meson surj_pair)
  have r: "p_outgoingReliableCommands r = p_outgoingReliableCommands p" "p_sentReliableCommands r = p_sentReliableCommands p"
    "p_outgoingUnreliableCommands r = p_outgoingUnreliableCommands p" "same_timing p r" "urgent oc'"
    "command_of (oc_command oc') = c" "oc_fragmentLength oc' = 0"
    using pr by (auto simp: prepare_outgoing_def number_outgoing_def Let_def oc_def new_outgoing_def make_command_def
        same_timing_def urgent_def)
  have q: "q = r\<lparr>p_outgoingReliableCommands := p_outgoingReliableCommands r @ [oc']\<rparr>"
    using assms(1,4) r(6) by (simp add: enet_peer_setup_outgoing_command_def pr flip: oc_def)
  have "576 \<le> unat (p_mtu p)" using assms(3) by (simp add: word_le_nat_alt)
  then have "fits (p_mtu p) oc'"
    using commandSizes_le [of "oc_command oc'"] assms(2) r(6,7) by (simp add: fits_def)
  then show thesis
    using that [of oc'] r by (simp add: q same_timing_def)
qed

text \<open>The ping.\<close>

lemma ping_good:
  assumes "i < length (h_peers h)" "good_peer (peer_at h i)" "h' = snd (on_peer i enet_peer_ping h)"
  shows "good_peer (peer_at h' i)" "same_timing (peer_at h i) (peer_at h' i)"
    "p_sentReliableCommands (peer_at h' i) = p_sentReliableCommands (peer_at h i)"
    "peer_at h' i = peer_at h i \<or> load t (peer_at h' i) = load t (peer_at h i) + 1 \<and>
       (\<exists>oc\<in>set (p_outgoingReliableCommands (peer_at h' i)). urgent oc)"
    "aside i h h'" "fresh_datagram h' = fresh_datagram h" "raised h h'" "h_commandCount h' = h_commandCount h"
proof -
  let ?p = "peer_at h i"
  define q where "q = enet_peer_setup_outgoing_command ?p (new_outgoing
      (make_command (ENET_PROTOCOL_COMMAND_PING OR ENET_PROTOCOL_COMMAND_FLAG_ACKNOWLEDGE) 0xFF Ping) None 0 0)"
  have "576 \<le> p_mtu ?p" using assms(2) by (simp add: good_peer_def)
  then obtain oc where q: "p_outgoingReliableCommands q = p_outgoingReliableCommands ?p @ [oc]" "urgent oc"
    "fits (p_mtu ?p) oc" "p_sentReliableCommands q = p_sentReliableCommands ?p"
    "p_outgoingUnreliableCommands q = p_outgoingUnreliableCommands ?p" "same_timing ?p q"
    by (rule setup_urgent [OF _ _ _ q_def, rotated 2]) simp_all
  have "snd (snd (enet_peer_ping hp ?p)) = ?p \<or> snd (snd (enet_peer_ping hp ?p)) = q" for hp
    by (auto simp: enet_peer_ping_def enet_peer_queue_outgoing_command_def split_beta q_def)
  moreover have "peer_at h' i = snd (snd (enet_peer_ping (h_heap h) ?p))"
    using assms(1,3) by (simp add: on_peer_def split_beta)
  ultimately consider "peer_at h' i = ?p" | "peer_at h' i = q" by metis
  then show "good_peer (peer_at h' i)" "same_timing ?p (peer_at h' i)"
    "p_sentReliableCommands (peer_at h' i) = p_sentReliableCommands ?p"
    "peer_at h' i = ?p \<or> load t (peer_at h' i) = load t ?p + 1 \<and>
       (\<exists>oc\<in>set (p_outgoingReliableCommands (peer_at h' i)). urgent oc)"
    using assms(2) q by (cases; auto simp: good_peer_def same_timing_def load_def)+
  show "aside i h h'" "fresh_datagram h' = fresh_datagram h" "raised h h'" "h_commandCount h' = h_commandCount h"
    by (simp_all add: assms(3) on_peer_def split_beta aside_def raised_def fresh_datagram_def)
qed

lemma send_or_ping_fills:
  assumes "i < length (h_peers h)" "fresh_datagram h" "good_peer (peer_at h i)"
    "h' = send_or_ping i h" "t = h_serviceTime h"
  shows "fills i h h'" "same_timing (peer_at h i) (peer_at h' i)"
    "load t (peer_at h' i) + h_commandCount h' \<le>
     load t (peer_at h i) + h_commandCount h + (if 0 < h_commandCount h then 1 else 0)"
proof -
  define h1 where "h1 = (if p_outgoingReliableCommands (peer_at h i) = [] then h
      else snd (enet_protocol_send_reliable_outgoing_commands i h))"
  define h2 where "h2 = snd (on_peer i enet_peer_ping h1)"
  define h3 where "h3 = snd (enet_protocol_send_reliable_outgoing_commands i h2)"
  obtain r where h1: "fills i h h1" "same_timing (peer_at h i) (peer_at h1 i)" "h_commandCount h1 = h_commandCount h + r"
    "load t (peer_at h1 i) + r \<le> load t (peer_at h i)" "p_sentReliableCommands (peer_at h1 i) = [] \<longrightarrow> r = 0"
  proof (cases "p_outgoingReliableCommands (peer_at h i) = []")
    case True
    then show ?thesis using that [of 0] fills_refl assms(2,3) by (simp add: h1_def)
  next
    case False
    then have "h1 = snd (enet_protocol_send_reliable_outgoing_commands i h)" by (simp add: h1_def)
    from send_reliable_fills [OF assms(1-3) this assms(5)] that show ?thesis by (metis le_add1)
  qed
  have i1: "i < length (h_peers h1)" "h_serviceTime h1 = t" "good_peer (peer_at h1 i)" "fresh_datagram h1"
    using h1(1) assms(1,5) by (simp_all add: fills_def aside_def)
  note h2 = ping_good [OF i1(1) i1(3) h2_def]
  have i2: "i < length (h_peers h2)" "h_serviceTime h2 = t" "fresh_datagram h2" "fills i h h2"
    using h2 i1 h1(1) fills_trans [of i h h1 h2] by (simp_all add: fills_def aside_def)
  obtain s where h3: "fills i h2 h3" "same_timing (peer_at h2 i) (peer_at h3 i)" "h_commandCount h3 = h_commandCount h2 + s"
    "load t (peer_at h3 i) + s + (if p_sentReliableCommands (peer_at h2 i) = [] \<and> 0 < s then 2 else 0) = load t (peer_at h2 i)"
    "(\<exists>oc\<in>set (p_outgoingReliableCommands (peer_at h2 i)). urgent oc) \<longrightarrow> 0 < h_commandCount h3"
    using send_reliable_fills [OF i2(1) i2(3) h2(1) h3_def i2(2) [symmetric]] by metis
  have "h' = h1 \<or> h' = h3 \<and> p_sentReliableCommands (peer_at h1 i) = []"
    by (auto simp: assms(4) send_or_ping_def h1_def h2_def h3_def Let_def split_beta ping_due_def)
  then show "fills i h h'" "same_timing (peer_at h i) (peer_at h' i)"
    "load t (peer_at h' i) + h_commandCount h' \<le>
     load t (peer_at h i) + h_commandCount h + (if 0 < h_commandCount h then 1 else 0)"
  proof (atomize (full), elim disjE conjE)
    assume "h' = h1"
    then show "fills i h h' \<and> same_timing (peer_at h i) (peer_at h' i) \<and> load t (peer_at h' i) + h_commandCount h' \<le>
      load t (peer_at h i) + h_commandCount h + (if 0 < h_commandCount h then 1 else 0)"
      using h1 by simp
  next
    assume c: "h' = h3" "p_sentReliableCommands (peer_at h1 i) = []"
    have "load t (peer_at h3 i) + h_commandCount h3 \<le>
      load t (peer_at h i) + h_commandCount h + (if 0 < h_commandCount h then 1 else 0)"
      using h2(3,8) h2(4) [of t] h3(3-5) h1(3-5) c(2) by (auto split: if_split_asm)
    then show "fills i h h' \<and> same_timing (peer_at h i) (peer_at h' i) \<and> load t (peer_at h' i) + h_commandCount h' \<le>
      load t (peer_at h i) + h_commandCount h + (if 0 < h_commandCount h then 1 else 0)"
      using fills_trans [OF i2(4) h3(1)] same_timing_trans [OF h1(2) same_timing_trans [OF h2(2) h3(2)]] c(1) by simp
  qed
qed

section \<open>Acknowledgements\<close>

text \<open>An acknowledgement of a disconnection makes the peer a zombie while its datagram is being filled.\<close>

definition same_queues :: "ENetPeer \<Rightarrow> ENetPeer \<Rightarrow> bool" where
  "same_queues p q \<longleftrightarrow> p_mtu q = p_mtu p \<and> p_roundTripTime q = p_roundTripTime p \<and>
     p_roundTripTimeVariance q = p_roundTripTimeVariance p \<and> p_channelCount q = p_channelCount p \<and>
     p_outgoingReliableCommands q = p_outgoingReliableCommands p \<and>
     p_outgoingUnreliableCommands q = p_outgoingUnreliableCommands p \<and>
     p_sentReliableCommands q = p_sentReliableCommands p \<and>
     (p_state q = p_state p \<or> p_state q = ENET_PEER_STATE_ZOMBIE)"

lemma same_queues_refl [simp]: "same_queues p p"
  by (simp add: same_queues_def)

lemma same_queues_trans: "same_queues p q \<Longrightarrow> same_queues q r \<Longrightarrow> same_queues p r"
  by (auto simp: same_queues_def)

lemma same_queues_good: "same_queues p q \<Longrightarrow> good_peer q = good_peer p"
  by (simp add: same_queues_def good_peer_def)

lemma dispatch_state_sending [simp]:
  "h_commandCount (enet_protocol_dispatch_state i s h) = h_commandCount h"
  "h_continueSending (enet_protocol_dispatch_state i s h) = h_continueSending h"
  "fresh_datagram (enet_protocol_dispatch_state i s h) = fresh_datagram h"
  by (simp_all add: enet_protocol_dispatch_state_def enet_needs_dispatch_def enet_protocol_change_state_def
      enet_peer_on_connect_def enet_peer_on_disconnect_def Let_def fresh_datagram_def)

lemma dispatch_state_aside [simp]: "aside i h (enet_protocol_dispatch_state i s h)"
  by (simp add: enet_protocol_dispatch_state_def enet_needs_dispatch_def enet_protocol_change_state_def
      enet_peer_on_connect_def enet_peer_on_disconnect_def Let_def aside_def)

lemma dispatch_state_queues:
  assumes "i < length (h_peers h)"
  shows "same_queues (peer_at h i) (peer_at (enet_protocol_dispatch_state i ENET_PEER_STATE_ZOMBIE h) i)"
    "state_at (enet_protocol_dispatch_state i ENET_PEER_STATE_ZOMBIE h) i = ENET_PEER_STATE_ZOMBIE"
  using assms
  by (simp_all add: enet_protocol_dispatch_state_def enet_needs_dispatch_def enet_protocol_change_state_def
      enet_peer_on_connect_def enet_peer_on_disconnect_def Let_def same_queues_def)

lemma put_command_aside [simp]: "aside i h (put_command c len h)"
  by (simp add: aside_def)

lemma acknowledgements_progress:
  assumes "send_acknowledgements_loop i acks h = (rest, h')" "i < length (h_peers h)" "fresh_datagram h"
    "576 \<le> p_mtu (peer_at h i)"
  shows "length acks + h_commandCount h = length rest + h_commandCount h' \<and> fresh_datagram h' \<and> raised h h' \<and>
    aside i h h' \<and> same_queues (peer_at h i) (peer_at h' i)"
  using assms
proof (induction acks arbitrary: h)
  case Nil
  then show ?case by simp
next
  case (Cons ack acks)
  let ?full = "h_commandCount h \<ge> ENET_PROTOCOL_MAXIMUM_PACKET_COMMANDS \<or> h_bufferCount h \<ge> ENET_BUFFER_MAXIMUM \<or>
      space_left i h < 8"
  show ?case
  proof (cases ?full)
    case True
    have "0 < h_commandCount h"
    proof (rule ccontr)
      assume "\<not> 0 < h_commandCount h"
      then have "h_commandCount h = 0" "h_bufferCount h = 1" using Cons.prems(3) by (auto simp: fresh_datagram_def)
      moreover have "576 \<le> unat (p_mtu (peer_at h i))" using Cons.prems(4) by (simp add: word_le_nat_alt)
      ultimately show False
        using True empty_space [OF Cons.prems(3) _ Cons.prems(4)] by (simp add: word_less_nat_alt)
    qed
    moreover have "rest = ack # acks" "h' = h\<lparr>h_continueSending := True\<rparr>" using Cons.prems(1) True by simp_all
    ultimately show ?thesis using Cons.prems(3) by (simp add: raised_def aside_def)
  next
    case False
    define h1 where "h1 = put_command (acknowledge_protocol ack) 8 h"
    define h2 where "h2 = (if number_of (ak_command ack) = ENET_PROTOCOL_COMMAND_DISCONNECT
        then enet_protocol_dispatch_state i ENET_PEER_STATE_ZOMBIE h1 else h1)"
    have h1: "aside i h h1" "same_queues (peer_at h i) (peer_at h1 i)" "raised h h1" "fresh_datagram h1"
      "h_commandCount h1 = Suc (h_commandCount h)" "i < length (h_peers h1)"
      using Cons.prems(2) by (simp_all add: h1_def raised_def)
    have h2: "aside i h1 h2" "same_queues (peer_at h1 i) (peer_at h2 i)" "raised h1 h2" "fresh_datagram h2"
      "h_commandCount h2 = Suc (h_commandCount h)"
      using h1(4-6) dispatch_state_queues(1) [OF h1(6)] by (simp_all add: h2_def raised_def)
    have s: "aside i h h2" "same_queues (peer_at h i) (peer_at h2 i)" "raised h h2"
      using aside_trans [OF h1(1) h2(1)] same_queues_trans [OF h1(2) h2(2)] raised_trans [OF h1(3) h2(3)] .
    have "send_acknowledgements_loop i acks h2 = (rest, h')"
      using Cons.prems(1) False unfolding send_acknowledgements_loop.simps h2_def h1_def Let_def by argo
    note IH = Cons.IH [OF this _ h2(4)]
    have "i < length (h_peers h2)" "576 \<le> p_mtu (peer_at h2 i)"
      using s(1,2) Cons.prems(2,4) by (simp_all add: aside_def same_queues_def)
    note IH = IH [OF this]
    show ?thesis
      using IH h2(5) aside_trans [OF s(1)] same_queues_trans [OF s(2)] raised_trans [OF s(3)] by simp
  qed
qed

lemma start_datagram_fills:
  assumes "i < length (h_peers h)" "good_peer (peer_at h i)" "h' = start_datagram i h"
  shows "good_peer (peer_at h' i)" "fresh_datagram h'" "aside i h h'"
    "load t (peer_at h' i) + 2 * h_commandCount h' \<le> load t (peer_at h i)"
    "h_continueSending h' \<longrightarrow> h_continueSending h \<or> 0 < h_commandCount h'"
proof -
  let ?h = "h\<lparr>h_headerFlags := 0, h_commandCount := 0, h_bufferCount := 1, h_packetSize := 4\<rparr>"
  obtain acks k where l: "send_acknowledgements_loop i (p_acknowledgements (peer_at h i)) ?h = (acks, k)"
    by (meson surj_pair)
  have "576 \<le> p_mtu (peer_at h i)" using assms(2) by (simp add: good_peer_def)
  then have k: "length (p_acknowledgements (peer_at h i)) = length acks + h_commandCount k" "fresh_datagram k" "raised ?h k"
    "aside i ?h k" "same_queues (peer_at h i) (peer_at k i)"
    using acknowledgements_progress [OF l] assms(1) by (simp_all add: fresh_datagram_def)
  have "i < length (h_peers k)" using k(4) assms(1) by (simp add: aside_def)
  moreover have "h' = upd_peer i (p_acknowledgements_update (\<lambda>_. acks)) k \<or> h' = ?h \<and> p_acknowledgements (peer_at h i) = []"
    using l by (simp add: assms(3) start_datagram_def enet_protocol_send_acknowledgements_def Let_def)
  ultimately consider "h' = upd_peer i (p_acknowledgements_update (\<lambda>_. acks)) k"
      "peer_at h' i = (peer_at k i)\<lparr>p_acknowledgements := acks\<rparr>" "h_commandCount h' = h_commandCount k"
    | "h' = ?h" "p_acknowledgements (peer_at h i) = []" by force
  then have R: "good_peer (peer_at h' i) \<and> load t (peer_at h' i) + 2 * h_commandCount h' \<le> load t (peer_at h i) \<and>
      fresh_datagram h' \<and> aside i h h' \<and> (h_continueSending h' \<longrightarrow> h_continueSending h \<or> 0 < h_commandCount h')"
  proof cases
    case 1
    have "good_peer (peer_at h' i)" using same_queues_good [OF k(5)] assms(2) by (simp add: 1(2) good_peer_def)
    moreover have "load t (peer_at h' i) + 2 * h_commandCount h' \<le> load t (peer_at h i)"
      using k(1,5) by (auto simp: 1(2,3) load_def same_queues_def)
    ultimately show ?thesis using k(2-4) by (simp add: 1(1) aside_def raised_def)
  next
    case 2
    then show ?thesis using assms(2) by (simp add: aside_def fresh_datagram_def)
  qed
  show "good_peer (peer_at h' i)" "fresh_datagram h'" "aside i h h'"
    "load t (peer_at h' i) + 2 * h_commandCount h' \<le> load t (peer_at h i)"
    "h_continueSending h' \<longrightarrow> h_continueSending h \<or> 0 < h_commandCount h'"
    using R by simp_all
qed

section \<open>Steps that do not touch the datagram\<close>

definition quiet :: "nat \<Rightarrow> ENetHost \<Rightarrow> ENetHost \<Rightarrow> bool" where
  "quiet i h h' \<longleftrightarrow> aside i h h' \<and> h_commandCount h' = h_commandCount h \<and> h_continueSending h' = h_continueSending h \<and>
     fresh_datagram h' = fresh_datagram h"

lemma quiet_trans: "quiet i g h \<Longrightarrow> quiet i h k \<Longrightarrow> quiet i g k"
  by (auto simp: quiet_def intro: aside_trans)

lemma quiet_upd_peer [simp]: "quiet i h (upd_peer i f h)"
  by (simp add: quiet_def aside_def)

lemma quiet_fields [simp]:
  "quiet i h h" "quiet i h (h\<lparr>h_recalculateBandwidthLimits := b\<rparr>)"
  by (simp_all add: quiet_def aside_def fresh_datagram_def)

lemma quiet_on_disconnect [simp]: "quiet i h (enet_peer_on_disconnect i h)"
  by (simp add: enet_peer_on_disconnect_def Let_def quiet_def aside_def fresh_datagram_def)

lemma quiet_reset_queues [simp]: "quiet i h (enet_peer_reset_queues i h)"
  by (simp add: enet_peer_reset_queues_def Let_def quiet_def aside_def fresh_datagram_def)

lemma quiet_on_peer [simp]: "quiet i h (snd (on_peer i f h))"
  by (simp add: on_peer_def split_beta quiet_def aside_def fresh_datagram_def)

lemma quiet_dispatch_state [simp]: "quiet i h (enet_protocol_dispatch_state i s h)"
  by (simp add: quiet_def)

lemma quiet_reset [simp]: "quiet i h (enet_peer_reset i h)"
  unfolding enet_peer_reset_def Let_def
  by (rule quiet_trans [OF quiet_trans [OF quiet_on_disconnect quiet_upd_peer] quiet_reset_queues])

lemma quiet_disconnect_connected [simp]: "quiet i h (disconnect_connected i data h)"
  unfolding disconnect_connected_def Let_def queue_outgoing_def
  by (rule quiet_trans [OF quiet_trans [OF quiet_trans [OF quiet_reset_queues quiet_on_peer] quiet_on_disconnect] quiet_upd_peer])

lemma notify_disconnect_ends:
  assumes "i < length (h_peers h)"
  shows "quiet i h (snd (enet_protocol_notify_disconnect i event h))"
    "\<not> is_live (peer_at (snd (enet_protocol_notify_disconnect i event h)) i)"
proof -
  define h1 where "h1 = (if state_at h i \<ge> ENET_PEER_STATE_CONNECTION_PENDING
      then h\<lparr>h_recalculateBandwidthLimits := True\<rparr> else h)"
  define h2 where "h2 = enet_protocol_dispatch_state i ENET_PEER_STATE_ZOMBIE (upd_peer i (p_eventData_update (\<lambda>_. 0)) h1)"
  have h1: "quiet i h h1" "i < length (h_peers h1)" using assms by (simp_all add: h1_def)
  have "snd (enet_protocol_notify_disconnect i event h) \<in> {enet_peer_reset i h1, h2}"
    by (simp add: enet_protocol_notify_disconnect_def Let_def h2_def split: option.split flip: h1_def)
  moreover have "quiet i h (enet_peer_reset i h1)" "quiet i h h2"
    using quiet_trans [OF h1(1) quiet_reset]
      quiet_trans [OF quiet_trans [OF h1(1) quiet_upd_peer] quiet_dispatch_state] by (simp_all add: h2_def)
  moreover have "\<not> is_live (peer_at (enet_peer_reset i h1) i)" "\<not> is_live (peer_at h2 i)"
    using h1(2) dispatch_state_queues(2) [of i "upd_peer i (p_eventData_update (\<lambda>_. 0)) h1"]
    by (simp_all add: is_live_def h2_def del: peers_upd_peer, simp)
  ultimately show "quiet i h (snd (enet_protocol_notify_disconnect i event h))"
    "\<not> is_live (peer_at (snd (enet_protocol_notify_disconnect i event h)) i)"
    by auto
qed

section \<open>Timeouts\<close>

lemma same_timing_fields:
  "same_timing p (p\<lparr>p_earliestTimeout := a\<rparr>)" "same_timing p (p\<lparr>p_reliableDataInTransit := b\<rparr>)"
  "same_timing p (p\<lparr>p_packetsLost := c\<rparr>)" "same_timing p (p\<lparr>p_nextTimeout := d\<rparr>)"
  by (simp_all add: same_timing_def)

lemma check_timeouts_loop_same_timing:
  "check_timeouts_loop t kept moved ocs p = (r, kept', moved', p') \<Longrightarrow>
   same_timing p p' \<and> p_outgoingUnreliableCommands p' = p_outgoingUnreliableCommands p"
proof (induction t kept moved ocs p rule: check_timeouts_loop.induct)
  case (1 t kept moved p)
  then show ?case by simp
next
  case (2 t kept moved oc ocs p)
  define p1 where "p1 = (if p_earliestTimeout p = 0 \<or> ENET_TIME_LESS (oc_sentTime oc) (p_earliestTimeout p)
      then p\<lparr>p_earliestTimeout := oc_sentTime oc\<rparr> else p)"
  define p2 where "p2 = (if oc_packet oc \<noteq> None
      then p1\<lparr>p_reliableDataInTransit := p_reliableDataInTransit p1 - ucast (oc_fragmentLength oc)\<rparr> else p1)"
  define p3 where "p3 = p2\<lparr>p_packetsLost := p_packetsLost p2 + 1\<rparr>"
  define p4 where "p4 = (if kept = [] then case ocs of [] \<Rightarrow> p3
      | next # _ \<Rightarrow> p3\<lparr>p_nextTimeout := oc_sentTime next + oc_roundTripTimeout next\<rparr> else p3)"
  have p1: "same_timing p p1" "p_outgoingUnreliableCommands p1 = p_outgoingUnreliableCommands p"
    by (simp_all add: p1_def same_timing_fields)
  have "same_timing p1 p2" "same_timing p2 p3" "same_timing p3 p4"
    by (auto simp: p2_def p3_def p4_def same_timing_fields split: list.split)
  then have p4: "same_timing p p4" using p1(1) by (blast intro: same_timing_trans)
  have "p_outgoingUnreliableCommands p4 = p_outgoingUnreliableCommands p"
    using p1(2) by (simp add: p4_def p3_def p2_def split: list.split)
  note p4 = p4 this
  have eq: "check_timeouts_loop t kept moved (oc # ocs) p =
      (if ENET_TIME_DIFFERENCE t (oc_sentTime oc) < oc_roundTripTimeout oc
       then check_timeouts_loop t (kept @ [oc]) moved ocs p
       else if give_up t oc p1 then (True, kept @ oc # ocs, moved, p1)
       else check_timeouts_loop t kept (moved @ [oc\<lparr>oc_roundTripTimeout := oc_roundTripTimeout oc * 2\<rparr>]) ocs p4)"
    unfolding check_timeouts_loop.simps Let_def p4_def p3_def p2_def p1_def by (rule refl)
  show ?case
    using 2(3) 2(1) 2(2) [OF _ p1_def _ p2_def p3_def p4_def] p1 p4
    unfolding eq by (auto split: if_split_asm intro: same_timing_trans)
qed

lemma length_overdue_shuffle:
  assumes "xs \<in> shuffles k m" "\<forall>x\<in>set k. \<not> P x" "\<forall>x\<in>set m. P x"
  shows "length (filter P xs) = length m"
proof -
  have "filter P k = []" "filter P m = m" using assms(2,3) by simp_all
  then have "filter P xs \<in> shuffles [] m"
    using filter_shuffles [of P k m] assms(1) by (metis imageI)
  then show ?thesis by simp
qed

lemma check_timeouts_kept:
  assumes "enet_protocol_check_timeouts i event h = (False, event', h')" "i < length (h_peers h)" "good_peer (peer_at h i)"
    "t = h_serviceTime h"
  shows "good_peer (peer_at h' i)" "quiet i h h'" "load t (peer_at h' i) \<le> load t (peer_at h i)"
proof -
  obtain g kept moved p where l: "check_timeouts_loop t [] [] (p_sentReliableCommands (peer_at h i)) (peer_at h i) =
      (g, kept, moved, p)" by (metis prod_cases4)
  let ?q = "p\<lparr>p_sentReliableCommands := kept, p_outgoingReliableCommands := moved @ p_outgoingReliableCommands p\<rparr>"
  have g: "\<not> g" "h' = upd_peer i (\<lambda>_. ?q) h"
    using assms(1) l by (auto simp: enet_protocol_check_timeouts_def assms(4) Let_def split: if_split_asm prod.split_asm)
  have q: "peer_at h' i = ?q" using g(2) assms(2) by simp
  obtain m where m: "p_sentReliableCommands (peer_at h i) \<in> shuffles kept m" "moved = map backed_off m"
    "\<forall>oc\<in>set kept. \<not> overdue t oc" "\<forall>oc\<in>set m. overdue t oc"
    "p_outgoingReliableCommands p = p_outgoingReliableCommands (peer_at h i)"
    using check_timeouts_loop_spec [OF l] g(1) by (auto simp: same_timeouts_def)
  have st: "same_timing (peer_at h i) p" "p_outgoingUnreliableCommands p = p_outgoingUnreliableCommands (peer_at h i)"
    using check_timeouts_loop_same_timing [OF l] by simp_all
  have set: "set (p_sentReliableCommands (peer_at h i)) = set kept \<union> set m" using set_shuffles [OF m(1)] .
  have "fits M (backed_off oc) = fits M oc" for M oc by (simp add: fits_def)
  then show "good_peer (peer_at h' i)"
    using assms(3) st m(2,5) set by (auto simp: q good_peer_def same_timing_def)
  show "quiet i h h'" by (simp add: g(2))
  have "filter (overdue t) kept = []" using m(3) by simp
  moreover have "length (filter (overdue t) (p_sentReliableCommands (peer_at h i))) = length m"
    using length_overdue_shuffle [OF m(1,3,4)] .
  moreover have "p_sentReliableCommands (peer_at h i) = [] \<longleftrightarrow> kept = [] \<and> m = []"
    using set by auto
  ultimately show "load t (peer_at h' i) \<le> load t (peer_at h i)"
    using st m(2,5) by (cases m) (auto simp: q load_def same_timing_def)
qed

lemma check_timeouts_gave_up:
  assumes "enet_protocol_check_timeouts i event h = (True, event', h')" "i < length (h_peers h)"
  shows "quiet i h h'" "\<not> is_live (peer_at h' i)"
proof -
  obtain g kept moved p where l: "check_timeouts_loop (h_serviceTime h) [] [] (p_sentReliableCommands (peer_at h i))
      (peer_at h i) = (g, kept, moved, p)" by (metis prod_cases4)
  let ?h = "upd_peer i (\<lambda>_. p\<lparr>p_sentReliableCommands := kept,
      p_outgoingReliableCommands := moved @ p_outgoingReliableCommands p\<rparr>) h"
  have "h' = snd (enet_protocol_notify_disconnect i event ?h)"
    using assms(1) l by (auto simp: enet_protocol_check_timeouts_def Let_def split: if_split_asm prod.split_asm)
  moreover have "i < length (h_peers ?h)" using assms(2) by simp
  ultimately show "quiet i h h'" "\<not> is_live (peer_at h' i)"
    using notify_disconnect_ends [of i ?h event] quiet_trans [OF quiet_upd_peer] by simp_all
qed

section \<open>Unreliable commands\<close>

definition same_load :: "ENetPeer \<Rightarrow> ENetPeer \<Rightarrow> bool" where
  "same_load p q \<longleftrightarrow> same_timing p q \<and> p_outgoingReliableCommands q = p_outgoingReliableCommands p \<and>
     p_outgoingUnreliableCommands q = p_outgoingUnreliableCommands p \<and> p_sentReliableCommands q = p_sentReliableCommands p"

lemma same_load_refl [simp]: "same_load p p"
  by (simp add: same_load_def)

lemma same_load_trans: "same_load p q \<Longrightarrow> same_load q r \<Longrightarrow> same_load p r"
  by (auto simp: same_load_def intro: same_timing_trans)

lemma same_load_good: "same_load p q \<Longrightarrow> good_peer q = good_peer p"
  by (simp add: same_load_def same_timing_def good_peer_def)

lemma same_load_eq: "same_load p q \<Longrightarrow> load t q = load t p"
  by (simp add: same_load_def same_timing_def load_def)

definition unreliable_progress :: "nat \<Rightarrow> ENetOutgoingCommand list \<Rightarrow> ENetOutgoingCommand list \<Rightarrow> ENetHost \<Rightarrow> ENetHost \<Rightarrow> bool" where
  "unreliable_progress i ocs rest h h' \<longleftrightarrow> h_commandCount h' + length rest \<le> h_commandCount h + length ocs \<and>
     set rest \<subseteq> set ocs \<and> same_load (peer_at h i) (peer_at h' i) \<and> fresh_datagram h' \<and> raised h h' \<and> aside i h h'"

lemma unreliable_progress_step:
  assumes ready: "reliable_ready i (oc # ocs) h"
    and g: "fresh_datagram g" "aside i h g" "raised h g" "same_load (peer_at h i) (peer_at g i)"
    and le: "h_commandCount g + length ocs' \<le> h_commandCount h + length (oc # ocs)" "set ocs' \<subseteq> set ocs"
    and rest: "reliable_ready i ocs' g \<longrightarrow> unreliable_progress i ocs' rest g h'"
  shows "unreliable_progress i (oc # ocs) rest h h'"
proof -
  have "reliable_ready i ocs' g"
    using ready g le(2) same_load_good [OF g(4)]
    by (auto simp: reliable_ready_def aside_def same_load_def same_timing_def)
  then have "unreliable_progress i ocs' rest g h'" using rest by simp
  then show ?thesis
    using le same_load_trans [OF g(4)] aside_trans [OF g(2)] raised_trans [OF g(3)]
    unfolding unreliable_progress_def by auto
qed

lemma throttled_steps:
  assumes "h' = throttled i oc h" "i < length (h_peers h)"
  shows "quiet i h h'" "same_load (peer_at h i) (peer_at h' i)"
  using assms by (simp_all add: throttle_packet_def Let_def same_load_def same_timing_def)

lemma unreliable_sent_steps:
  assumes "h' = unreliable_sent i oc h" "i < length (h_peers h)"
  shows "aside i h h'" "same_load (peer_at h i) (peer_at h' i)" "fresh_datagram h'" "raised h h'"
    "h_commandCount h' = Suc (h_commandCount h)"
  using assms by (simp_all add: aside_def same_load_def same_timing_def raised_def)

lemma quiet_release_all [simp]: "quiet i h (release_all ocs h)"
  by (simp add: release_all_def quiet_def aside_def fresh_datagram_def)

lemma quiet_raised: "quiet i h h' \<Longrightarrow> raised h h'"
  by (simp add: quiet_def raised_def)

lemma send_unreliable_progress:
  assumes "send_unreliable_loop i ocs h = (rest, h')" "reliable_ready i ocs h"
  shows "unreliable_progress i ocs rest h h'"
proof -
  let ?R = "\<lambda>ocs rest h h'. reliable_ready i ocs h \<longrightarrow> unreliable_progress i ocs rest h h'"
  have "?R ocs rest h h'"
    using assms(1)
  proof (rule send_unreliable_loop_rule [where R = ?R])
    show "?R [] [] h h" for h by (simp add: unreliable_progress_def reliable_ready_def)
    show "?R (oc # ocs) (oc # ocs) h (h\<lparr>h_continueSending := True\<rparr>)" if "datagram_full_unreliable i oc h" for oc ocs h
      using full_not_empty [of h i oc] that
      by (auto simp: reliable_ready_def good_peer_def unreliable_progress_def raised_def aside_def)
    show "?R (oc # ocs) rest h h'"
      if IH: "?R (dropWhile (same_numbers oc) ocs) rest
          (release_all (oc # takeWhile (same_numbers oc) ocs) (throttled i oc h)) h'" for oc ocs rest h h'
    proof
      assume r: "reliable_ready i (oc # ocs) h"
      define g where "g = throttled i oc h"
      define k where "k = release_all (oc # takeWhile (same_numbers oc) ocs) g"
      have g: "quiet i h g" "same_load (peer_at h i) (peer_at g i)"
        using throttled_steps [OF g_def] r by (simp_all add: reliable_ready_def)
      have q: "quiet i h k" using quiet_trans [OF g(1)] by (simp add: k_def)
      then have "fresh_datagram k" "aside i h k" "raised h k" "h_commandCount k = h_commandCount h"
        using r quiet_raised [OF q] by (simp_all add: quiet_def reliable_ready_def)
      then show "unreliable_progress i (oc # ocs) rest h h'"
        using unreliable_progress_step [OF r, of k "dropWhile (same_numbers oc) ocs" rest h'] g(2) IH [folded g_def k_def]
          length_dropWhile_le [of "same_numbers oc" ocs] set_dropWhileD [of _ "same_numbers oc" ocs]
        by (auto simp: k_def)
    qed
    show "?R (oc # ocs) rest h h'" if IH: "?R ocs rest (unreliable_sent i oc (throttled i oc h)) h'" for oc ocs rest h h'
    proof
      assume r: "reliable_ready i (oc # ocs) h"
      define g where "g = throttled i oc h"
      define k where "k = unreliable_sent i oc g"
      have g: "quiet i h g" "same_load (peer_at h i) (peer_at g i)"
        using throttled_steps [OF g_def] r by (simp_all add: reliable_ready_def)
      then have "i < length (h_peers g)" using r by (simp add: quiet_def aside_def reliable_ready_def)
      note k = unreliable_sent_steps [OF k_def this]
      have IHk: "reliable_ready i ocs k \<longrightarrow> unreliable_progress i ocs rest k h'" unfolding k_def g_def by (rule IH)
      have "aside i h k" "raised h k" "same_load (peer_at h i) (peer_at k i)" "h_commandCount k = Suc (h_commandCount h)"
        using aside_trans [OF _ k(1)] raised_trans [OF quiet_raised [OF g(1)] k(4)] same_load_trans [OF g(2) k(2)] g(1) k(5)
        by (simp_all add: quiet_def)
      then show "unreliable_progress i (oc # ocs) rest h h'"
        using unreliable_progress_step [OF r k(3) _ _ _ _ _ IHk] by simp
    qed
  qed
  then show ?thesis using assms(2) by blast
qed

text \<open>A peer that is to disconnect later does so when nothing is left; it then has one command waiting.\<close>

lemma disconnect_connected_load:
  assumes "i < length (h_peers h)" "good_peer (peer_at h i)" "h' = disconnect_connected i data h"
  shows "good_peer (peer_at h' i)" "load t (peer_at h' i) \<le> 3"
proof -
  let ?p = "peer_at h i"
  define h1 where "h1 = enet_peer_reset_queues i h"
  define p1 where "p1 = peer_at h1 i"
  define h2 where "h2 = queue_outgoing i (disconnect_command ENET_PROTOCOL_COMMAND_FLAG_ACKNOWLEDGE data) h1"
  define q where "q = enet_peer_setup_outgoing_command p1 (new_outgoing (make_command
      (ENET_PROTOCOL_COMMAND_DISCONNECT OR ENET_PROTOCOL_COMMAND_FLAG_ACKNOWLEDGE) 0xFF
      (Disconnect (ENET_HOST_TO_NET_32 data))) None 0 0)"
  have i1: "i < length (h_peers h1)" using assms(1) by (simp add: h1_def)
  have p1: "p_mtu p1 = p_mtu ?p" "p_roundTripTime p1 = p_roundTripTime ?p"
    "p_roundTripTimeVariance p1 = p_roundTripTimeVariance ?p" "p_channelCount p1 = 0" "p_acknowledgements p1 = []"
    "p_outgoingReliableCommands p1 = []" "p_outgoingUnreliableCommands p1 = []" "p_sentReliableCommands p1 = []"
    using assms(1) by (simp_all add: p1_def h1_def enet_peer_reset_queues_def Let_def)
  have M: "576 \<le> p_mtu p1" using assms(2) p1(1) by (simp add: good_peer_def)
  obtain oc where q: "p_outgoingReliableCommands q = p_outgoingReliableCommands p1 @ [oc]" "fits (p_mtu p1) oc"
    "p_sentReliableCommands q = p_sentReliableCommands p1"
    "p_outgoingUnreliableCommands q = p_outgoingUnreliableCommands p1" "same_timing p1 q"
    by (rule setup_urgent [OF _ _ M q_def]) simp_all
  have "snd (snd (enet_peer_queue_outgoing_command (disconnect_command ENET_PROTOCOL_COMMAND_FLAG_ACKNOWLEDGE data)
      None 0 0 hp p1)) \<in> {p1, q}" for hp
    by (simp add: enet_peer_queue_outgoing_command_def split_beta q_def disconnect_command_def)
  then have "peer_at h2 i \<in> {p1, q}"
    using i1 by (simp add: h2_def queue_outgoing_def on_peer_def split_beta p1_def)
  moreover have "peer_at h' i = (peer_at h2 i)\<lparr>p_state := ENET_PEER_STATE_DISCONNECTING\<rparr>"
    using i1 by (simp add: assms(3) disconnect_connected_def Let_def enet_peer_on_disconnect_def queue_outgoing_def
        on_peer_def split_beta h2_def h1_def)
  ultimately consider "peer_at h' i = p1\<lparr>p_state := ENET_PEER_STATE_DISCONNECTING\<rparr>"
    | "peer_at h' i = q\<lparr>p_state := ENET_PEER_STATE_DISCONNECTING\<rparr>" by auto
  then show "good_peer (peer_at h' i)" "load t (peer_at h' i) \<le> 3"
    using assms(2) p1 q by (cases; simp add: good_peer_def same_timing_def load_def)+
qed

lemma send_unreliable_fills:
  assumes "i < length (h_peers h)" "fresh_datagram h" "good_peer (peer_at h i)"
    "h' = enet_protocol_send_unreliable_outgoing_commands i h"
  shows "fills i h h'" "load t (peer_at h' i) + h_commandCount h' \<le> load t (peer_at h i) + h_commandCount h"
proof -
  let ?p = "peer_at h i"
  obtain rest g where l: "send_unreliable_loop i (p_outgoingUnreliableCommands ?p) h = (rest, g)" by (meson surj_pair)
  have "reliable_ready i (p_outgoingUnreliableCommands ?p) h"
    using assms(1-3) by (auto simp: reliable_ready_def good_peer_def)
  note R = send_unreliable_progress [OF l this, unfolded unreliable_progress_def]
  define k where "k = upd_peer i (p_outgoingUnreliableCommands_update (\<lambda>_. rest)) g"
  have i: "i < length (h_peers g)" "i < length (h_peers k)" using R assms(1) by (simp_all add: aside_def k_def)
  have k: "peer_at k i = (peer_at g i)\<lparr>p_outgoingUnreliableCommands := rest\<rparr>" "quiet i g k"
    using i(1) by (simp_all add: k_def)
  have good: "good_peer (peer_at k i)"
    using assms(3) R by (auto simp: k(1) good_peer_def same_load_def same_timing_def)
  have fk: "fills i h k"
    using good R k(2) raised_trans [OF _ quiet_raised [OF k(2)]] aside_trans by (auto simp: fills_def quiet_def)
  have le: "load t (peer_at k i) + h_commandCount k \<le> load t ?p + h_commandCount h"
    using R k(2) by (simp add: k(1) load_def same_load_def same_timing_def quiet_def)
  define d where "d = disconnect_connected i (p_eventData (peer_at k i)) k"
  have d: "good_peer (peer_at d i)" "load t (peer_at d i) \<le> 3" "quiet i k d"
    using disconnect_connected_load [OF i(2) good d_def] by (simp_all add: d_def)
  have eq: "h' = (if p_state (peer_at k i) = ENET_PEER_STATE_DISCONNECT_LATER \<and> p_outgoingReliableCommands (peer_at k i) = [] \<and>
      p_outgoingUnreliableCommands (peer_at k i) = [] \<and> p_sentReliableCommands (peer_at k i) = [] then d else k)"
    by (simp add: assms(4) enet_protocol_send_unreliable_outgoing_commands_def l Let_def k_def d_def)
  have "fills i k d" using d fk quiet_raised [OF d(3)] by (simp add: fills_def quiet_def)
  then show "fills i h h'" using fk fills_trans by (simp add: eq)
  have "load t (peer_at d i) + h_commandCount d \<le> load t (peer_at k i) + h_commandCount k"
    if "p_state (peer_at k i) = ENET_PEER_STATE_DISCONNECT_LATER"
    using that d(2,3) by (simp add: quiet_def load_def)
  then show "load t (peer_at h' i) + h_commandCount h' \<le> load t ?p + h_commandCount h"
    using le order_trans by (fastforce simp: eq)
qed

lemma send_commands_fills:
  assumes "i < length (h_peers h)" "fresh_datagram h" "good_peer (peer_at h i)" "h' = send_commands i h" "t = h_serviceTime h"
  shows "fills i h h'"
    "load t (peer_at h' i) + h_commandCount h' \<le>
     load t (peer_at h i) + h_commandCount h + (if 0 < h_commandCount h then 1 else 0)"
proof -
  define h1 where "h1 = send_or_ping i h"
  note h1 = send_or_ping_fills [OF assms(1-3) h1_def assms(5)]
  define h2 where "h2 = enet_protocol_send_unreliable_outgoing_commands i h1"
  have "i < length (h_peers h1)" "fresh_datagram h1" "good_peer (peer_at h1 i)"
    using h1(1) assms(1) by (simp_all add: fills_def aside_def)
  note h2 = send_unreliable_fills [OF this h2_def]
  have "h' = h1 \<or> h' = h2" by (simp add: assms(4) send_commands_def Let_def flip: h1_def h2_def)
  then show "fills i h h'" "load t (peer_at h' i) + h_commandCount h' \<le>
     load t (peer_at h i) + h_commandCount h + (if 0 < h_commandCount h then 1 else 0)"
    using h1(1,3) h2(1) h2(2) [of t] fills_trans [OF h1(1) h2(1)] by (elim disjE; simp)+
qed

section \<open>The datagram is sent\<close>

lemma finish_datagram_keeps_peers:
  assumes "finish_datagram i h = (header, h')"
  shows "h_peers h' = h_peers h" "h_serviceTime h' = h_serviceTime h" "h_continueSending h' = h_continueSending h"
proof -
  have c: "h_peers k' = h_peers k \<and> h_serviceTime k' = h_serviceTime k \<and> h_continueSending k' = h_continueSending k"
    if "compress_datagram k = (n, k')" for k n k'
    using that by (auto simp: compress_datagram_def Let_def split: option.split_asm prod.split_asm if_split_asm)
  show "h_peers h' = h_peers h" "h_serviceTime h' = h_serviceTime h" "h_continueSending h' = h_continueSending h"
    using assms c by (auto simp: finish_datagram_def set_buffer_def Let_def
        split: prod.split_asm option.split_asm if_split_asm)
qed

lemma transmit_progress:
  assumes "i < length (h_peers h)" "h' = snd (transmit i h)"
  shows "aside i h h'" "h_continueSending h' = h_continueSending h" "same_load (peer_at h i) (peer_at h' i)"
proof -
  let ?h = "upd_peer i (update_packetLoss (h_serviceTime h)) h"
  obtain header g where f: "finish_datagram i ?h = (header, g)" by (meson surj_pair)
  note g = finish_datagram_keeps_peers [OF f]
  have loss: "same_load p (update_packetLoss t p)" for t p
    by (simp add: update_packetLoss_def Let_def same_load_def same_timing_def)
  show "aside i h h'" "h_continueSending h' = h_continueSending h"
    using g by (simp_all add: assms(2) transmit_def Let_def f split_beta enet_socket_send_def on_peer_def aside_def)
  have "same_load (peer_at ?h i) (peer_at h' i)"
    using g assms(1) by (simp add: assms(2) transmit_def Let_def f split_beta enet_socket_send_def on_peer_def
        enet_protocol_remove_sent_unreliable_commands_def same_load_def same_timing_def)
  then show "same_load (peer_at h i) (peer_at h' i)"
    using same_load_trans [OF loss] assms(1) by simp
qed

section \<open>The pass, and the loop\<close>

text \<open>A peer that is not live is left out.\<close>

definition live_load :: "u32 \<Rightarrow> ENetPeer \<Rightarrow> nat" where
  "live_load t p = (if is_live p then load t p else 0)"

definition good_live :: "ENetPeer \<Rightarrow> bool" where
  "good_live p \<longleftrightarrow> (is_live p \<longrightarrow> good_peer p)"

lemma send_to_peer_progress:
  assumes "send_to_peer check i event h = (r, event', h')" "i < length (h_peers h)" "good_live (peer_at h i)"
    "t = h_serviceTime h"
  shows "good_live (peer_at h' i)" "aside i h h'"
    "live_load t (peer_at h' i) + (if h_continueSending h' \<and> \<not> h_continueSending h then 1 else 0) \<le>
     live_load t (peer_at h i)"
proof -
  let ?goal = "good_live (peer_at h' i) \<and> aside i h h' \<and>
    live_load t (peer_at h' i) + (if h_continueSending h' \<and> \<not> h_continueSending h then 1 else 0) \<le> live_load t (peer_at h i)"
  have ?goal
  proof (cases "is_live (peer_at h i)")
    case False
    then have "h' = h" using assms(1) by (auto simp: send_to_peer_def is_live_def)
    then show ?thesis using assms(3) by simp
  next
    case True
    then have good: "good_peer (peer_at h i)" using assms(3) by (simp add: good_live_def)
    define h1 where "h1 = start_datagram i h"
    note h1 = start_datagram_fills [OF assms(2) good h1_def]
    have i1: "i < length (h_peers h1)" "h_serviceTime h1 = t" using h1(3) assms(2,4) by (simp_all add: aside_def)
    obtain gaveUp e h2 where c: "(if check \<and> p_sentReliableCommands (peer_at h1 i) \<noteq> [] \<and>
        ENET_TIME_GREATER_EQUAL (h_serviceTime h1) (p_nextTimeout (peer_at h1 i))
        then enet_protocol_check_timeouts i event h1 else (False, event, h1)) = (gaveUp, e, h2)"
      by (metis prod_cases3)
    show ?thesis
    proof (cases gaveUp)
      case True
      then have "enet_protocol_check_timeouts i event h1 = (True, e, h2)" using c by (auto split: if_split_asm)
      note h2 = check_timeouts_gave_up [OF this i1(1)]
      have "h' = h2"
        using assms(1) \<open>is_live (peer_at h i)\<close> True unfolding send_to_peer_def Let_def h1_def [symmetric] c
        by (auto simp: is_live_def)
      then show ?thesis
        using h2 h1(3,5) h1(4) [of t] aside_trans [OF h1(3)] \<open>is_live (peer_at h i)\<close>
        by (auto simp: quiet_def live_load_def good_live_def)
    next
      case False
      have h2: "good_peer (peer_at h2 i)" "quiet i h1 h2" "load t (peer_at h2 i) \<le> load t (peer_at h1 i)"
        using c False check_timeouts_kept [of i event h1 e h2 t] i1 h1(1) by (auto split: if_split_asm)
      have a: "aside i h1 h2" "fresh_datagram h2" "h_commandCount h2 = h_commandCount h1"
        "h_continueSending h2 = h_continueSending h1"
        using h2(2) h1(2) by (simp_all add: quiet_def)
      have i2: "i < length (h_peers h2)" "t = h_serviceTime h2" using a(1) i1 aside_index aside_time by simp_all
      note i2 = i2(1) a(2) i2(2) a(3,4) aside_trans [OF h1(3) a(1)]
      define h3 where "h3 = send_commands i h2"
      note h3 = send_commands_fills [OF i2(1,2) h2(1) h3_def i2(3)]
      have a3: "aside i h2 h3" "good_peer (peer_at h3 i)" using h3(1) by (simp_all add: fills_def)
      note i3 = aside_index [OF a3(1) i2(1)] aside_trans [OF i2(6) a3(1)] a3(2)
      note h4 = transmit_progress [OF i3(1) refl]
      have "h' = h3 \<or> h' = snd (transmit i h3)"
        using assms(1) \<open>is_live (peer_at h i)\<close> False unfolding send_to_peer_def Let_def h1_def [symmetric] c
        by (auto simp: is_live_def split_beta simp flip: h3_def split: if_split_asm)
      then have h': "aside i h h'" "h_continueSending h' = h_continueSending h3" "same_load (peer_at h3 i) (peer_at h' i)"
        using h4 i3(2) aside_trans [OF i3(2) h4(1)] by auto
      have "load t (peer_at h' i) + h_commandCount h3 \<le> load t (peer_at h i)"
        using same_load_eq [OF h'(3), of t] h3(2) i2(4) h2(3) h1(4) [of t] by (auto split: if_split_asm)
      moreover have "h_continueSending h' \<longrightarrow> h_continueSending h \<or> 0 < h_commandCount h3"
        using h'(2) h3(1) h1(5) i2(4,5) by (auto simp: fills_def raised_def)
      ultimately show ?thesis
        using h'(1) same_load_good [OF h'(3)] i3(3) \<open>is_live (peer_at h i)\<close>
        by (auto simp: live_load_def good_live_def)
    qed
  qed
  then show "good_live (peer_at h' i)" "aside i h h'"
    "live_load t (peer_at h' i) + (if h_continueSending h' \<and> \<not> h_continueSending h then 1 else 0) \<le>
     live_load t (peer_at h i)"
    by blast+
qed

text \<open>The load of the host.\<close>

definition host_load :: "ENetHost \<Rightarrow> nat" where
  "host_load h = sum_list (map (live_load (h_serviceTime h)) (h_peers h))"

definition good_host :: "ENetHost \<Rightarrow> bool" where
  "good_host h \<longleftrightarrow> (\<forall>p\<in>set (h_peers h). good_live p)"

lemma aside_update:
  assumes "aside i h h'" "i < length (h_peers h)"
  shows "h_peers h' = (h_peers h)[i := peer_at h' i]"
  using assms by (auto simp: aside_def nth_list_update intro!: nth_equalityI)

lemma sum_list_update_pays:
  fixes f :: "'a \<Rightarrow> nat"
  assumes "i < length xs" "f y + d \<le> f (xs ! i)"
  shows "sum_list (map f (xs[i := y])) + d \<le> sum_list (map f xs)"
proof -
  have "sum_list (map f (xs[i := y])) = sum_list (map f xs) + f y - f (xs ! i)"
    using assms(1) by (simp add: map_update sum_list_update)
  moreover have "f (xs ! i) \<le> sum_list (map f xs)"
    using member_le_sum_list [of "f (xs ! i)" "map f xs"] assms(1) by simp
  ultimately show ?thesis using assms(2) by simp
qed

lemma send_to_peer_host:
  assumes "send_to_peer check i event h = (r, event', h')" "i < length (h_peers h)" "good_host h"
  shows "good_host h'" "length (h_peers h') = length (h_peers h)"
    "host_load h' + (if h_continueSending h' \<and> \<not> h_continueSending h then 1 else 0) \<le> host_load h"
proof -
  have "good_live (peer_at h i)" using assms(2,3) by (simp add: good_host_def)
  note s = send_to_peer_progress [OF assms(1,2) this refl]
  note u = aside_update [OF s(2) assms(2)]
  have "set (h_peers h') \<subseteq> insert (peer_at h' i) (set (h_peers h))"
    using set_update_subset_insert [of "h_peers h" i "peer_at h' i", folded u] .
  then show "good_host h'" using assms(3) s(1) unfolding good_host_def by blast
  show "length (h_peers h') = length (h_peers h)" using s(2) by (simp add: aside_def)
  have "h_serviceTime h' = h_serviceTime h" using s(2) by (simp add: aside_def)
  then show "host_load h' + (if h_continueSending h' \<and> \<not> h_continueSending h then 1 else 0) \<le> host_load h"
    using sum_list_update_pays [OF assms(2) s(3), folded u] by (simp only: host_load_def)
qed

lemma send_to_peers_host:
  "send_to_peers check is event h = (r, event', h') \<Longrightarrow> \<forall>i\<in>set is. i < length (h_peers h) \<Longrightarrow> good_host h \<Longrightarrow>
   good_host h' \<and> length (h_peers h') = length (h_peers h) \<and>
   host_load h' + (if h_continueSending h' \<and> \<not> h_continueSending h then 1 else 0) \<le> host_load h"
proof (induction "is" arbitrary: event h)
  case Nil
  then show ?case by simp
next
  case (Cons i "is")
  obtain r1 e1 h1 where s: "send_to_peer check i event h = (r1, e1, h1)" by (metis prod_cases3)
  have "i < length (h_peers h)" using Cons.prems(2) by simp
  note h1 = send_to_peer_host [OF s this Cons.prems(3)]
  show ?case
  proof (cases r1)
    case None
    then have "send_to_peers check is e1 h1 = (r, event', h')" using Cons.prems(1) s by simp
    from Cons.IH [OF this _ h1(1)] show ?thesis
      using h1(2,3) Cons.prems(2) by (auto split: if_split_asm)
  next
    case (Some a)
    then show ?thesis using h1 Cons.prems(1) s by simp
  qed
qed

lemma send_loop_returns:
  "good_host h \<Longrightarrow> \<exists>r. send_loop check event h = Some r"
proof (induction "if h_continueSending h then Suc (host_load h) else 0" arbitrary: h event rule: less_induct)
  case less
  show ?case
  proof (cases "h_continueSending h")
    case False
    then show ?thesis by (simp add: send_loop.simps)
  next
    case True
    let ?h = "h\<lparr>h_continueSending := False\<rparr>"
    obtain r e h1 where s: "send_pass check event h = (r, e, h1)" by (metis prod_cases3)
    have "good_host ?h" "host_load ?h = host_load h" using less(2) by (simp_all add: good_host_def host_load_def)
    then have h1: "good_host h1" "host_load h1 + (if h_continueSending h1 then 1 else 0) \<le> host_load h"
      using send_to_peers_host [OF s [unfolded send_pass_def]] by simp_all
    show ?thesis
    proof (cases r)
      case None
      have "(if h_continueSending h1 then Suc (host_load h1) else 0) < (if h_continueSending h then Suc (host_load h) else 0)"
        using h1(2) True by (auto split: if_split_asm)
      then obtain x where "send_loop check e h1 = Some x" using less(1) h1(1) by blast
      then show ?thesis using True s None by (cases x) (simp add: send_loop.simps [of check event h])
    next
      case (Some a)
      then show ?thesis using True s by (simp add: send_loop.simps [of check event h])
    qed
  qed
qed

lemma host_ok_good: "host_ok h \<Longrightarrow> good_host h"
  by (simp add: host_ok_def good_host_def good_live_def peer_ok_good)

lemma send_outgoing_ends:
  assumes "host_ok h"
  shows "(\<exists>r event' h'. enet_protocol_send_outgoing_commands event check h = Some (r, event', h') \<and> host_ok h') \<and>
    (\<exists>h'. enet_host_flush h = Some h' \<and> host_ok h')"
proof -
  have send: "\<exists>x. enet_protocol_send_outgoing_commands e c g = Some x" if "h_peers g = h_peers h" for e c g
    using send_loop_returns [of "g\<lparr>h_continueSending := True\<rparr>" c e] host_ok_good [OF assms] that
    by (simp add: enet_protocol_send_outgoing_commands_def good_host_def)
  have "h_peers ((snd (enet_time_get h))\<lparr>h_serviceTime := fst (enet_time_get h)\<rparr>) = h_peers h"
    by (simp add: enet_time_get_def Let_def)
  then obtain h' where "enet_host_flush h = Some h'"
    using send [of _ None False] by (fastforce simp: enet_host_flush_def split_beta)
  moreover obtain r event' h'' where "enet_protocol_send_outgoing_commands event check h = Some (r, event', h'')"
    using send [OF refl, of event check] by (metis prod_cases3)
  ultimately show ?thesis using flush_keeps [OF assms] send_outgoing_keeps [OF assms] by blast
qed

text \<open>Property C25.  Sending ends: in a host that satisfies the invariant, whatever the socket and the clock
  answer, the loop over the peers that is repeated while a datagram was full comes to an end, and so does
  \<^verbatim>\<open>enet_host_flush\<close>; the host they leave satisfies the invariant again.\<close>

theorem send_outgoing_returns:
  assumes "host_ok h"
  shows "(\<exists>r event' h'. enet_protocol_send_outgoing_commands event check h = Some (r, event', h') \<and> host_ok h') \<and>
    (\<exists>h'. enet_host_flush h = Some h' \<and> host_ok h')"
  by (rule send_outgoing_ends [OF assms])

theorem send_outgoing_returns_witness:
  "\<exists>r event' h'. enet_protocol_send_outgoing_commands None True (send_example ENET_PEER_STATE_CONNECTED) =
     Some (r, event', h') \<and> host_ok h'"
  using send_outgoing_returns [OF send_example_ok, of ENET_PEER_STATE_CONNECTED None True] by simp

end
