(* ===== verification/EnetReturns.thy ===== *)
theory EnetReturns
  imports EnetService EnetProgress
begin

text \<open>
  Servicing a host ends (\<^verbatim>\<open>enet_host_service\<close> of \<^verbatim>\<open>enet/protocol.cpp\<close>).  Every part of a round returns in a
  host that satisfies the invariant; the rounds are repeated only until the clock has passed the deadline.
  For this the theory follows the clock, the number of its readings and \<^verbatim>\<open>serviceTime\<close> through a round.
\<close>

section \<open>The clock during a round\<close>

text \<open>What a part of a round leaves alone: the clock, its readings and the service time.\<close>

definition clock_state :: "ENetHost \<Rightarrow> (nat \<Rightarrow> u32) \<times> nat \<times> u32" where
  "clock_state h = (w_clock (h_world h), w_clockCalls (h_world h), h_serviceTime h)"

lemma clock_input: "host_input h' = host_input h \<Longrightarrow> clock_state h' = clock_state h"
  by (simp add: host_input_def clock_state_def)

lemma clock_upd_peer [simp]: "clock_state (upd_peer i f h) = clock_state h"
  by (simp add: clock_state_def)

lemma input_sending [input_frame]:
  "host_input (h\<lparr>h_continueSending := b\<rparr>) = host_input h" "host_input (h\<lparr>h_headerFlags := flags\<rparr>) = host_input h"
  "host_input (h\<lparr>h_bufferCount := n\<rparr>) = host_input h" "host_input (h\<lparr>h_packetData1 := bytes\<rparr>) = host_input h"
  "host_input (h\<lparr>h_headerFlags := flags, h_commandCount := n, h_bufferCount := n', h_packetSize := s\<rparr>) = host_input h"
  "host_input (set_buffer n buffer h) = host_input h" "host_input (release_all ocs h) = host_input h"
  by (simp_all add: host_input_def set_buffer_def release_all_def)

lemma input_put_command [input_frame]: "host_input (put_command c len h) = host_input h"
  by (simp add: host_input_def put_command_def)

lemma input_put_outgoing [input_frame]: "host_input (put_outgoing oc len h) = host_input h"
  by (simp add: host_input_def put_outgoing_def put_command_def put_packet_def Let_def split: option.split)

lemma send_acknowledgements_input: "host_input (snd (send_acknowledgements_loop i acks h)) = host_input h"
  by (induction acks arbitrary: h) (simp_all add: Let_def input_frame)

lemma send_unreliable_input: "host_input (snd (send_unreliable_loop i ocs h)) = host_input h"
proof (induction "length ocs" arbitrary: ocs h rule: less_induct)
  case less
  show ?case
  proof (cases ocs)
    case (Cons oc rest)
    have "host_input (snd (send_unreliable_loop i rest g)) = host_input g"
      "host_input (snd (send_unreliable_loop i (dropWhile (same_numbers oc) rest) g)) = host_input g" for g
      using less Cons length_dropWhile_le [of "same_numbers oc" rest] by simp_all
    then show ?thesis
      unfolding Cons by (simp add: Let_def input_frame split_beta)
  qed simp
qed

lemma send_reliable_input:
  assumes "send_reliable_loop i exceeded wrap canPing ocs h = (rest, canPing', h')"
  shows "host_input h' = host_input h"
  using assms
  by (rule send_reliable_loop_rule [where R = "\<lambda>_ _ h h'. host_input h' = host_input h"])
    (simp_all add: input_frame)

lemma input_send_reliable [input_frame]:
  "host_input (snd (enet_protocol_send_reliable_outgoing_commands i h)) = host_input h"
  by (auto simp: enet_protocol_send_reliable_outgoing_commands_def input_frame dest: send_reliable_input split: prod.split)

lemma input_disconnect_connected [input_frame]: "host_input (disconnect_connected i data h) = host_input h"
  by (simp add: disconnect_connected_def Let_def input_frame)

lemma input_send_unreliable [input_frame]:
  "host_input (enet_protocol_send_unreliable_outgoing_commands i h) = host_input h"
  by (simp add: enet_protocol_send_unreliable_outgoing_commands_def send_unreliable_input Let_def input_frame split_beta
      del: peers_upd_peer)

lemma input_send_or_ping [input_frame]: "host_input (send_or_ping i h) = host_input h"
  by (simp add: send_or_ping_def Let_def input_frame split_beta)

lemma send_commands_input: "host_input (send_commands i h) = host_input h"
  by (simp add: send_commands_def Let_def input_frame)

lemma check_timeouts_input:
  "host_input (snd (snd (enet_protocol_check_timeouts i event h))) = host_input h"
  by (simp add: enet_protocol_check_timeouts_def Let_def input_frame split_beta)

lemma start_datagram_input: "host_input (start_datagram i h) = host_input h"
  by (simp add: start_datagram_def enet_protocol_send_acknowledgements_def send_acknowledgements_input
      Let_def input_frame split_beta)

lemma compress_input: "host_input (snd (compress_datagram h)) = host_input h"
  by (simp add: compress_datagram_def Let_def input_frame split: option.split prod.split)

lemma finish_datagram_input: "host_input (snd (finish_datagram i h)) = host_input h"
  by (simp add: finish_datagram_def Let_def input_frame compress_input split_beta split: option.split)

lemma transmit_clock: "clock_state (snd (transmit i h)) = clock_state h"
proof -
  define h1 where "h1 = upd_peer i (update_packetLoss (h_serviceTime h)) h"
  obtain header h2 where f: "finish_datagram i h1 = (header, h2)" by (meson surj_pair)
  define h3 where "h3 = upd_peer i (p_lastSendTime_update (\<lambda>_. h_serviceTime h2)) h2"
  obtain n h4 where s: "enet_socket_send (p_address (peer_at h3 i)) header h3 = (n, h4)" by (meson surj_pair)
  define h5 where "h5 = snd (on_peer i enet_protocol_remove_sent_unreliable_commands h4)"
  have "clock_state h5 = clock_state h4" unfolding h5_def by (rule clock_input) (rule input_on_peer)
  moreover have "clock_state h4 = clock_state h3" using s by (auto simp: enet_socket_send_def Let_def clock_state_def)
  moreover have "clock_state h2 = clock_state h1" using clock_input [OF finish_datagram_input [of i h1]] f by simp
  moreover have "clock_state (snd (transmit i h)) = clock_state h5"
    by (simp add: transmit_def Let_def f s clock_state_def flip: h1_def h3_def h5_def del: peers_upd_peer)
  ultimately show ?thesis by (simp add: h1_def h3_def)
qed

lemma send_to_peer_clock: "clock_state (snd (snd (send_to_peer check i event h))) = clock_state h"
proof -
  have "clock_state h' = clock_state h" if "send_to_peer check i event h = (r, event', h')" for r event' h'
  proof (cases "state_at h i = ENET_PEER_STATE_DISCONNECTED \<or> state_at h i = ENET_PEER_STATE_ZOMBIE")
    case True
    then show ?thesis using that by (auto simp: send_to_peer_def)
  next
    case False
    define g where "g = start_datagram i h"
    obtain gaveUp e k where c: "(if check \<and> p_sentReliableCommands (peer_at g i) \<noteq> [] \<and>
        ENET_TIME_GREATER_EQUAL (h_serviceTime g) (p_nextTimeout (peer_at g i))
      then enet_protocol_check_timeouts i event g else (False, event, g)) = (gaveUp, e, k)" by (metis prod_cases3)
    have "host_input k = host_input h"
      using check_timeouts_input [of i event g] start_datagram_input [of i h] c
      by (auto simp flip: g_def split: if_split_asm)
    then have k: "clock_state k = clock_state h" by (rule clock_input)
    have "clock_state (send_commands i k) = clock_state k"
      by (rule clock_input) (rule send_commands_input)
    then show ?thesis
      using that False k transmit_clock [of i "send_commands i k"]
      by (auto simp: send_to_peer_def Let_def c simp flip: g_def split: bool.split_asm if_split_asm prod.split_asm)
  qed
  then show ?thesis by (metis prod_cases3 snd_conv)
qed

lemma send_to_peers_clock: "clock_state (snd (snd (send_to_peers check is event h))) = clock_state h"
proof (induction "is" arbitrary: event h)
  case (Cons i "is")
  then show ?case
    using send_to_peer_clock [of check i event h] by (auto split: prod.split option.split) 
qed simp

lemma send_outgoing_clock:
  assumes "enet_protocol_send_outgoing_commands event check h = Some (r, event', h')"
  shows "clock_state h' = clock_state h"
proof -
  have flag: "clock_state (g\<lparr>h_continueSending := b\<rparr>) = clock_state g" for g b by (simp add: clock_state_def)
  have "clock_state (snd (snd a)) = clock_state g" if "send_loop check event g = Some a" for a g
  proof (rule send_loop.raw_induct [where P = "\<lambda>check event g a. clock_state (snd (snd a)) = clock_state g", OF _ that], goal_cases)
    case (1 f check event g a)
    then show ?case
      using send_to_peers_clock [of check "[0..<length (h_peers g)]" event "g\<lparr>h_continueSending := False\<rparr>"]
      by (auto simp: send_pass_def flag split: if_split_asm prod.split_asm option.split_asm)
  qed
  from this [OF assms [unfolded enet_protocol_send_outgoing_commands_def]] show ?thesis by (simp add: flag)
qed

lemma accept_datagram_clock: "accept_datagram h = (r, h') \<Longrightarrow> clock_state h' = clock_state h"
proof -
  have d: "decompress_datagram hi g = (ok, g') \<Longrightarrow> clock_state g' = clock_state g" for hi ok g g'
    by (auto simp: decompress_datagram_def Let_def clock_state_def split: if_split_asm option.split_asm prod.split_asm)
  have c: "verify_checksum peer n g = (ok, g') \<Longrightarrow> clock_state g' = clock_state g" for peer n ok g g'
    by (auto simp: verify_checksum_def Let_def clock_state_def split: option.split_asm)
  show "accept_datagram h = (r, h') \<Longrightarrow> clock_state h' = clock_state h"
    by (auto simp: accept_datagram_def Let_def dest!: d c split: if_split_asm option.split_asm prod.split_asm)
qed

lemma handle_incoming_clock:
  assumes "host_ok h" "enet_protocol_handle_incoming_commands event h = Some (r, event', h')"
  shows "clock_state h' = clock_state h"
proof -
  obtain a g where g: "accept_datagram h = (a, g)" by (meson surj_pair)
  note ok = accept_datagram_keeps [OF assms(1) g]
  show ?thesis
  proof (cases a)
    case None
    then show ?thesis using assms(2) g accept_datagram_clock [OF g] by (simp add: enet_protocol_handle_incoming_commands_def)
  next
    case (Some x)
    obtain sent peer n where x: "x = (sent, peer, n)" by (metis prod_cases3)
    have i: "\<forall>i. peer = Some i \<longrightarrow> i < length (h_peers g)" using ok(2,3) Some x by auto
    obtain e k where k: "command_loop (unat (h_receivedDataLength g)) sent peer n event g = Some (e, k)" "step_ok g k"
      using command_loop_step [OF ok(1) i le_add2, of sent n event] by blast
    then have "clock_state k = clock_state h" using accept_datagram_clock [OF g] clock_input [of k g] by (simp add: step_ok_def)
    then show ?thesis
      using assms(2) k(1) g Some x by (simp add: enet_protocol_handle_incoming_commands_def)
  qed
qed

lemma receive_loop_clock:
  "host_ok h \<Longrightarrow> receive_loop packets event h = Some (r, event', h') \<Longrightarrow> clock_state h' = clock_state h"
proof (induction packets arbitrary: event h)
  case 0
  then show ?case by (simp add: receive_loop.simps)
next
  case (Suc packets)
  obtain n g where s: "enet_socket_receive h = (n, g)" by (meson surj_pair)
  define g' where "g' = g\<lparr>h_receivedDataLength := of_int n,
      h_totalReceivedData := h_totalReceivedData g + of_int n,
      h_totalReceivedPackets := h_totalReceivedPackets g + 1\<rparr>"
  have "host_ok g'" by (rule host_ok_same_peers [OF Suc.prems(1)])
    (use socket_receive_peers [OF s] in \<open>simp_all add: g'_def host_frame_def\<close>)
  moreover have t: "clock_state g = clock_state h" "clock_state g' = clock_state h"
    using s by (auto simp: enet_socket_receive_def Let_def clock_state_def g'_def split: received.split_asm)
  ultimately have again: "receive_loop packets e g' = Some (r, event', h') \<Longrightarrow> clock_state h' = clock_state h"
    and handle: "enet_protocol_handle_incoming_commands e g' = Some (r', e', k) \<Longrightarrow> clock_state k = clock_state h \<and>
      (receive_loop packets e' k = Some (r, event', h') \<longrightarrow> clock_state h' = clock_state h)" for r' e e' k
    using Suc.IH [of g' e] Suc.IH [of k e'] handle_incoming_clock [of g' e r' e' k] handle_incoming_step [of g' e] by auto
  from Suc.prems(2) t show ?case
    by (auto simp: receive_loop.simps s Let_def simp flip: g'_def dest!: again handle
        split: if_split_asm prod.split_asm option.split_asm)
qed

section \<open>The rounds\<close>

text \<open>From a host to one that has read the clock at most once more.\<close>

definition reads_once :: "ENetHost \<Rightarrow> ENetHost \<Rightarrow> bool" where
  "reads_once h h' \<longleftrightarrow> w_clock (h_world h') = w_clock (h_world h) \<and> h_serviceTime h' = h_serviceTime h \<and>
     w_clockCalls (h_world h) \<le> w_clockCalls (h_world h') \<and> w_clockCalls (h_world h') \<le> Suc (w_clockCalls (h_world h))"

lemma reads_once_same: "clock_state h' = clock_state h \<Longrightarrow> reads_once h h'"
  by (simp add: reads_once_def clock_state_def)

lemma reads_once_then: "reads_once g h \<Longrightarrow> clock_state k = clock_state h \<Longrightarrow> reads_once g k"
  by (simp add: reads_once_def clock_state_def)

lemma throttle_reads_once: "reads_once h (throttle_if_due h)"
proof -
  have fold: "host_input (fold (announce_limit now limit) is g) = host_input g" for now limit "is" g
    by (induction "is" arbitrary: g) (simp_all add: announce_limit_def input_frame)
  have "host_input (recalculate_limits now g) = host_input g" for now g
    by (simp add: recalculate_limits_def Let_def fold split_beta) (simp add: host_input_def)
  then have limits: "clock_state (recalculate_limits now g) = clock_state g" for now g by (rule clock_input)
  have "clock_state (throttle_outgoing now elapsed g) = clock_state g" for now elapsed g
    by (simp add: throttle_outgoing_def Let_def clock_state_def split_beta)
  then show ?thesis
    using limits
    by (auto simp: throttle_if_due_def enet_host_bandwidth_throttle_def enet_time_get_def Let_def reads_once_def)
      (simp_all add: clock_state_def)
qed

lemma dispatch_to_clock:
  assumes "dispatch_to event h = Some (0, event', h')"
  shows "clock_state h' = clock_state h"
proof -
  have receive: "enet_peer_receive i g = (r, g') \<Longrightarrow> host_input g' = host_input g" for i g r g'
    by (auto simp: enet_peer_receive_def Let_def input_frame split: list.split_asm if_split_asm)
  have "dispatch_queue_loop fuel e h = Some (0, e', h') \<Longrightarrow> host_input h' = host_input h" for fuel e e' h'
  proof (induction fuel arbitrary: e h)
    case (Suc fuel)
    from Suc.prems show ?case
      by (subst (asm) dispatch_queue_loop.simps)
        (auto simp: Let_def input_frame dest!: Suc.IH receive split: list.split_asm ENetPeerState.split_asm if_split_asm
          option.split_asm prod.split_asm)
  qed (auto simp: dispatch_queue_loop.simps split: list.split_asm)
  then show ?thesis
    using assms
    by (auto simp: dispatch_to_def enet_protocol_dispatch_incoming_commands_def intro!: clock_input split: option.split_asm)
qed

lemma service_round_returns:
  assumes "host_ok h"
  shows "\<exists>r event' h'. service_round event h = Some (r, event', h') \<and> (r \<noteq> 1 \<longrightarrow> r \<noteq> -1 \<longrightarrow> reads_once h h')"
proof -
  define g where "g = throttle_if_due h"
  have g: "host_ok g" "reads_once h g"
    using throttle_if_due_keeps [OF assms] throttle_reads_once by (simp_all add: g_def)
  obtain r1 e1 h1 where s1: "enet_protocol_send_outgoing_commands event True g = Some (r1, e1, h1)" and "host_ok h1"
    using send_outgoing_ends [OF g(1)] by blast
  then have h1: "host_ok h1" "reads_once h h1" using send_outgoing_clock reads_once_then [OF g(2)] by blast+
  obtain r2 e2 h2 where s2: "enet_protocol_receive_incoming_commands e1 h1 = Some (r2, e2, h2)" and "host_ok h2"
    using receive_loop_step [OF h1(1), of 256 e1] by (auto simp: enet_protocol_receive_incoming_commands_def)
  then have h2: "host_ok h2" "reads_once h h2"
    using receive_loop_clock [OF h1(1)] reads_once_then [OF h1(2)]
    unfolding enet_protocol_receive_incoming_commands_def by blast+
  obtain r3 e3 h3 where s3: "enet_protocol_send_outgoing_commands e2 True h2 = Some (r3, e3, h3)" and "host_ok h3"
    using send_outgoing_ends [OF h2(1)] by blast
  then have h3: "host_ok h3" "reads_once h h3" using send_outgoing_clock reads_once_then [OF h2(2)] by blast+
  obtain r4 e4 h4 where s4: "dispatch_to e3 h3 = Some (r4, e4, h4)"
    using dispatch_to_returns [OF h3(1), of e3] by (cases "dispatch_to e3 h3") auto
  have "reads_once h h4" if "r4 \<noteq> 1"
  proof -
    have "r4 = 0" using dispatch_to_result [OF h3(1) s4] that by simp
    with s4 show ?thesis using dispatch_to_clock reads_once_then [OF h3(2)] by blast
  qed
  then show ?thesis
    by (auto simp: service_round_def unless_settled_def s1 s2 s3 s4 simp flip: g_def)
qed

section \<open>Waiting\<close>

text \<open>The wait reads the clock once a turn.  When an answer ends it, no reading was past the deadline.\<close>

definition read_early :: "u32 \<Rightarrow> ENetHost \<Rightarrow> (int + u32) \<Rightarrow> ENetHost \<Rightarrow> bool" where
  "read_early timeout h result h' \<longleftrightarrow> w_clock (h_world h') = w_clock (h_world h) \<and>
     w_clockCalls (h_world h) < w_clockCalls (h_world h') \<and>
     (\<forall>condition. result = Inr condition \<longrightarrow>
        (\<forall>k. w_clockCalls (h_world h) \<le> k \<longrightarrow> k < w_clockCalls (h_world h') \<longrightarrow>
           \<not> ENET_TIME_GREATER_EQUAL (w_clock (h_world h) k) timeout))"

lemma wait_loop_clock:
  assumes "wait_loop timeout h = Some (result, h')"
  shows "read_early timeout h result h'"
proof -
  have "read_early timeout h (fst a) (snd a)" if "wait_loop timeout h = Some a" for a
  proof (rule wait_loop.raw_induct [where P = "\<lambda>timeout h a. read_early timeout h (fst a) (snd a)", OF _ that], goal_cases)
    case (1 f timeout h a)
    obtain r condition where w: "w_waitResult (h_world h) (w_waitCalls (h_world h)) = (r, condition)" by (meson surj_pair)
    have ih: "read_early timeout h (fst a) (snd a)"
      if "f timeout (after_wait h) = Some a" "\<not> ENET_TIME_GREATER_EQUAL (w_clock (h_world h) (w_clockCalls (h_world h))) timeout"
    proof -
      have "\<not> ENET_TIME_GREATER_EQUAL (w_clock (h_world h) k) timeout"
        if "fst a = Inr condition" "w_clockCalls (h_world h) \<le> k" "k < w_clockCalls (h_world (snd a))" for condition k
        using 1(1) [OF \<open>f timeout (after_wait h) = Some a\<close>] that
          \<open>\<not> ENET_TIME_GREATER_EQUAL (w_clock (h_world h) (w_clockCalls (h_world h))) timeout\<close>
        by (cases "k = w_clockCalls (h_world h)") (auto simp: read_early_def)
      then show ?thesis using 1(1) [OF that(1)] by (auto simp: read_early_def)
    qed
    show ?case
      using 1(2) ih unfolding wait_turn
      by (auto simp: Let_def w read_early_def less_Suc_eq_le split: if_split_asm)
  qed
  from this [OF assms] show ?thesis by simp
qed

section \<open>Servicing\<close>

abbreviation past :: "u32 \<Rightarrow> ENetHost \<Rightarrow> nat \<Rightarrow> bool" where
  "past timeout h k \<equiv> ENET_TIME_GREATER_EQUAL (w_clock (h_world h) k) timeout"

lemma service_loop_returns:
  assumes "host_ok h" "past timeout h n" "past timeout h (Suc n)"
    "w_clockCalls (h_world h) \<le> n \<or>
      ENET_TIME_GREATER_EQUAL (h_serviceTime h) timeout \<and> w_clockCalls (h_world h) \<le> Suc n"
  shows "\<exists>x. service_loop timeout event h = Some x"
  using assms
proof (induction "Suc n - w_clockCalls (h_world h)" arbitrary: event h rule: less_induct)
  case less
  obtain r e g where round: "service_round event h = Some (r, e, g)"
    and reads: "r \<noteq> 1 \<longrightarrow> r \<noteq> -1 \<longrightarrow> reads_once h g"
    using service_round_returns [OF less(2)] by blast
  have g_ok: "host_ok g" using service_round_served [OF less(2) refl round] by (simp add: served_def)
  show ?case
  proof (cases "r = 1 \<or> r = -1 \<or> ENET_TIME_GREATER_EQUAL (h_serviceTime g) timeout")
    case True
    then show ?thesis by (subst service_loop.simps) (auto simp: round)
  next
    case False
    with reads have g: "w_clock (h_world g) = w_clock (h_world h)" "h_serviceTime g = h_serviceTime h"
      "w_clockCalls (h_world h) \<le> w_clockCalls (h_world g)" "w_clockCalls (h_world g) \<le> Suc (w_clockCalls (h_world h))"
      by (auto simp: reads_once_def)
    have "w_clockCalls (h_world h) \<le> n" using less(5) False g(2) by auto
    then have "w_clockCalls (h_world g) \<le> n \<or> w_clockCalls (h_world g) \<le> Suc n" using g(4) by auto
    then obtain result k where w: "wait_loop timeout g = Some (result, k)"
      using wait_loop_ends less(3,4) g(1) by metis
    note early = wait_loop_clock [OF w]
    show ?thesis
    proof (cases result)
      case (Inl r')
      then show ?thesis using False by (subst service_loop.simps) (simp add: round w)
    next
      case (Inr condition)
      define k' where "k' = (snd (enet_time_get k))\<lparr>h_serviceTime := fst (enet_time_get k)\<rparr>"
      have k: "w_clock (h_world k) = w_clock (h_world h)" "w_clockCalls (h_world g) < w_clockCalls (h_world k)"
        "\<forall>j. w_clockCalls (h_world g) \<le> j \<longrightarrow> j < w_clockCalls (h_world k) \<longrightarrow> \<not> past timeout h j"
        using early Inr g(1) by (simp_all add: read_early_def)
      have before: "w_clockCalls (h_world k) \<le> n"
      proof (rule ccontr)
        assume "\<not> w_clockCalls (h_world k) \<le> n"
        then have "w_clockCalls (h_world g) \<le> n \<and> n < w_clockCalls (h_world k) \<or>
            w_clockCalls (h_world g) \<le> Suc n \<and> Suc n < w_clockCalls (h_world k)"
          using k(2) \<open>w_clockCalls (h_world g) \<le> n \<or> w_clockCalls (h_world g) \<le> Suc n\<close> by auto
        then show False using k(3) less(3,4) by blast
      qed
      have k': "w_clock (h_world k') = w_clock (h_world h)" "w_clockCalls (h_world k') = Suc (w_clockCalls (h_world k))"
        "h_serviceTime k' = w_clock (h_world h) (w_clockCalls (h_world k))" "h_peers k' = h_peers g" "host_frame g k'"
        using k(1) wait_loop_waited [OF w] by (simp_all add: k'_def enet_time_get_def Let_def waited_def host_frame_def)
      have "\<exists>x. service_loop timeout e k' = Some x"
      proof (rule less(1))
        show "host_ok k'" using host_ok_same_peers [OF g_ok k'(4,5)] .
        show "Suc n - w_clockCalls (h_world k') < Suc n - w_clockCalls (h_world h)" using before g(3) k(2) k'(2) by simp
        show "w_clockCalls (h_world k') \<le> n \<or>
            ENET_TIME_GREATER_EQUAL (h_serviceTime k') timeout \<and> w_clockCalls (h_world k') \<le> Suc n"
          using before k'(2,3) less(3) by (cases "w_clockCalls (h_world k) = n") auto
      qed (use less(3,4) k'(1) in simp_all)
      then show ?thesis
        using False Inr by (subst service_loop.simps) (simp add: round w k'_def split_beta Let_def)
    qed
  qed
qed



end
