(* ===== verification/EnetSocket.thy ===== *)
theory EnetSocket
  imports EnetService "HOL-Library.Signed_Division"
begin

text \<open>
  The initialisation with callbacks (\<^verbatim>\<open>enet/callbacks.cpp\<close>), and what the two layers on the operating system (\<^verbatim>\<open>enet/unix.cpp\<close>, \<^verbatim>\<open>enet/win32.cpp\<close>) share: socket
  addresses, addresses as text, sets of descriptors, and what ENet's host asks of a layer.  The calls of
  the system are parameters of the layers; the text of an address and the macros of \<^verbatim>\<open>fd_set\<close> belong to
  the C library and are written out.
\<close>

section \<open>Versions and callbacks\<close>

definition ENET_VERSION_CREATE :: "u32 \<Rightarrow> u32 \<Rightarrow> u32 \<Rightarrow> u32" where
  "ENET_VERSION_CREATE major minor patch = push_bit 16 major OR push_bit 8 minor OR patch"

definition ENET_VERSION_GET_MAJOR :: "u32 \<Rightarrow> u32" where "ENET_VERSION_GET_MAJOR version = drop_bit 16 version AND 0xFF"
definition ENET_VERSION_GET_MINOR :: "u32 \<Rightarrow> u32" where "ENET_VERSION_GET_MINOR version = drop_bit 8 version AND 0xFF"
definition ENET_VERSION_GET_PATCH :: "u32 \<Rightarrow> u32" where "ENET_VERSION_GET_PATCH version = version AND 0xFF"

definition enet_linked_version :: u32 where
  "enet_linked_version = ENET_VERSION_CREATE 1 3 13"

lemma version_parts:
  assumes "major \<le> 0xFF" "minor \<le> 0xFF" "patch \<le> 0xFF"
  shows "ENET_VERSION_GET_MAJOR (ENET_VERSION_CREATE major minor patch) = major"
    "ENET_VERSION_GET_MINOR (ENET_VERSION_CREATE major minor patch) = minor"
    "ENET_VERSION_GET_PATCH (ENET_VERSION_CREATE major minor patch) = patch"
proof -
  have byte: "(255 :: u32) = mask 8" by (simp add: mask_eq_exp_minus_1)
  have "take_bit 8 x = x" if "x \<le> 0xFF" for x :: u32
    using that by (simp add: word_unat_eq_iff unsigned_take_bit_eq take_bit_nat_eq_self word_le_nat_alt)
  then have high: "\<not> bit x n" if "x \<le> 0xFF" "8 \<le> n" for x :: u32 and n
    using that by (metis bit_take_bit_iff linorder_not_less)
  note high = high [OF assms(1)] high [OF assms(2)] high [OF assms(3)]
  note defs = ENET_VERSION_GET_MAJOR_def ENET_VERSION_GET_MINOR_def ENET_VERSION_GET_PATCH_def ENET_VERSION_CREATE_def byte
  have "bit (drop_bit 16 (push_bit 16 major OR push_bit 8 minor OR patch) AND mask 8) n = bit major n"
    "bit (drop_bit 8 (push_bit 16 major OR push_bit 8 minor OR patch) AND mask 8) n = bit minor n"
    "bit ((push_bit 16 major OR push_bit 8 minor OR patch) AND mask 8) n = bit patch n" if "n < LENGTH(32)" for n
    using that by (cases "n < 8"; simp add: bit_simps high)+
  then show "ENET_VERSION_GET_MAJOR (ENET_VERSION_CREATE major minor patch) = major"
    "ENET_VERSION_GET_MINOR (ENET_VERSION_CREATE major minor patch) = minor"
    "ENET_VERSION_GET_PATCH (ENET_VERSION_CREATE major minor patch) = patch"
    unfolding defs by (auto intro: bit_word_eqI)
qed

text \<open>Function pointers are values of a type \<open>'f\<close>, with \<open>None\<close> for NULL; \<open>initialize\<close> is
  \<^verbatim>\<open>enet_initialize\<close> of the platform.\<close>

record 'f ENetCallbacks =
  cb_malloc :: "'f option"
  cb_free :: "'f option"
  cb_no_memory :: "'f option"

definition enet_initialize_with_callbacks ::
    "('s \<Rightarrow> int \<times> 's) \<Rightarrow> u32 \<Rightarrow> 'f ENetCallbacks \<Rightarrow> 'f ENetCallbacks \<Rightarrow> 's \<Rightarrow> (int \<times> 'f ENetCallbacks) \<times> 's" where
  "enet_initialize_with_callbacks initialize version inits callbacks s =
     (if version < ENET_VERSION_CREATE 1 3 0 then ((-1, callbacks), s)
      else
        let allocates = cb_malloc inits \<noteq> None \<or> cb_free inits \<noteq> None
        in if allocates \<and> (cb_malloc inits = None \<or> cb_free inits = None) then ((-1, callbacks), s)
           else
             let callbacks = (if allocates then callbacks\<lparr>cb_malloc := cb_malloc inits, cb_free := cb_free inits\<rparr> else callbacks);
                 callbacks = (if cb_no_memory inits \<noteq> None then callbacks\<lparr>cb_no_memory := cb_no_memory inits\<rparr> else callbacks)
             in case initialize s of (r, s) \<Rightarrow> ((r, callbacks), s))"

text \<open>The allocator is replaced as a pair or not at all, and no pointer ever becomes NULL.\<close>

lemma callbacks_paired:
  assumes "enet_initialize_with_callbacks initialize version inits callbacks s = ((r, callbacks'), s')"
  shows "(cb_malloc callbacks', cb_free callbacks') \<in>
      {(cb_malloc callbacks, cb_free callbacks), (cb_malloc inits, cb_free inits)}"
    "None \<notin> {cb_malloc callbacks, cb_free callbacks, cb_no_memory callbacks} \<Longrightarrow>
      None \<notin> {cb_malloc callbacks', cb_free callbacks', cb_no_memory callbacks'}"
  using assms
  by (auto simp: enet_initialize_with_callbacks_def Let_def split: if_split_asm prod.split_asm)

section \<open>Socket addresses\<close>

text \<open>The family is always \<^verbatim>\<open>AF_INET\<close>; port and host are in network byte order.\<close>

record sockaddr_in =
  sin_port :: u16
  sin_addr :: u32

abbreviation (input) AF_INET :: int where "AF_INET \<equiv> 2"
abbreviation (input) INADDR_ANY :: u32 where "INADDR_ANY \<equiv> 0"

definition sockaddr_of :: "ENetAddress \<Rightarrow> sockaddr_in" where
  "sockaddr_of address = \<lparr>sin_port = ENET_HOST_TO_NET_16 (addr_port address), sin_addr = addr_host address\<rparr>"

definition address_of :: "sockaddr_in \<Rightarrow> ENetAddress" where
  "address_of sin = \<lparr>addr_host = sin_addr sin, addr_port = ENET_NET_TO_HOST_16 (sin_port sin)\<rparr>"

definition bind_sockaddr :: "ENetAddress option \<Rightarrow> sockaddr_in" where
  "bind_sockaddr address =
     (case address of Some a \<Rightarrow> sockaddr_of a | None \<Rightarrow> \<lparr>sin_port = 0, sin_addr = INADDR_ANY\<rparr>)"

lemma address_of_sockaddr [simp]: "address_of (sockaddr_of a) = a"
  by (simp add: address_of_def sockaddr_of_def)

lemma sockaddr_of_inject [simp]: "sockaddr_of a = sockaddr_of b \<longleftrightarrow> a = b"
  by (metis address_of_sockaddr)

datatype ENetSocketType = ENET_SOCKET_TYPE_STREAM | ENET_SOCKET_TYPE_DATAGRAM

datatype ENetSocketOption =
    ENET_SOCKOPT_NONBLOCK | ENET_SOCKOPT_BROADCAST | ENET_SOCKOPT_RCVBUF | ENET_SOCKOPT_SNDBUF
  | ENET_SOCKOPT_REUSEADDR | ENET_SOCKOPT_RCVTIMEO | ENET_SOCKOPT_SNDTIMEO | ENET_SOCKOPT_ERROR | ENET_SOCKOPT_NODELAY

datatype ENetSocketShutdown =
    ENET_SOCKET_SHUTDOWN_READ | ENET_SOCKET_SHUTDOWN_WRITE | ENET_SOCKET_SHUTDOWN_READ_WRITE

fun shutdown_number :: "ENetSocketShutdown \<Rightarrow> int" where
  "shutdown_number ENET_SOCKET_SHUTDOWN_READ = 0"
| "shutdown_number ENET_SOCKET_SHUTDOWN_WRITE = 1"
| "shutdown_number ENET_SOCKET_SHUTDOWN_READ_WRITE = 2"

text \<open>What the calls of the system take and return.\<close>

datatype socket_kind = SOCK_STREAM | SOCK_DGRAM

record timeval =
  tv_sec :: int
  tv_usec :: int

datatype sockopt = SO_BROADCAST | SO_REUSEADDR | SO_RCVBUF | SO_SNDBUF | SO_RCVTIMEO | SO_SNDTIMEO | TCP_NODELAY

datatype sockopt_value = IntValue int | TimeValue timeval

text \<open>The entry of the old name resolution; \<open>h_addr\<close> is the first address of \<^verbatim>\<open>h_addr_list\<close>.\<close>

record hostent =
  h_addrtype :: int
  h_addr :: u32
  h_name :: string

definition timeval_of :: "u32 \<Rightarrow> timeval" where
  "timeval_of timeout = \<lparr>tv_sec = uint (timeout div 1000), tv_usec = uint (timeout mod 1000 * 1000)\<rparr>"

text \<open>A time in milliseconds, for \<^verbatim>\<open>select\<close> and as an \<^verbatim>\<open>int\<close> for \<^verbatim>\<open>poll\<close>.\<close>

lemma wait_times:
  "tv_sec (timeval_of timeout) * 1000 + tv_usec (timeval_of timeout) div 1000 = uint timeout"
  "uint timeout < 2 ^ 31 \<Longrightarrow> sint timeout = uint timeout"
  "2 ^ 31 \<le> uint timeout \<Longrightarrow> sint timeout < 0"
proof -
  have "uint timeout mod 1000 < 1000" by simp
  then have "125 * (uint timeout mod 1000) < 536870912" by linarith
  then have "uint (timeout mod 1000 * 1000) = uint timeout mod 1000 * 1000"
    using uint_mult_lem [of "timeout mod 1000" 1000] by (simp add: uint_mod)
  then show "tv_sec (timeval_of timeout) * 1000 + tv_usec (timeval_of timeout) div 1000 = uint timeout"
    by (simp add: timeval_of_def uint_div)
  have sint: "sint timeout = (uint timeout + 2147483648) mod 4294967296 - 2147483648"
    by (simp add: sint_uint signed_take_bit_eq_take_bit_shift take_bit_eq_mod)
  have bounds: "0 \<le> uint timeout" "uint timeout < 4294967296" using uint_bounded [of timeout] by simp_all
  show "sint timeout = uint timeout" if "uint timeout < 2 ^ 31"
    using that bounds by (simp add: sint)
  show "sint timeout < 0" if "2 ^ 31 \<le> uint timeout"
  proof -
    have "(uint timeout + 2147483648) mod 4294967296 = uint timeout - 2147483648"
      using that bounds by (intro int_mod_pos_eq [where q = 1]) auto
    then show ?thesis using bounds by (simp add: sint)
  qed
qed

section \<open>Addresses as text\<close>

text \<open>\<^verbatim>\<open>inet_ntop\<close> and \<^verbatim>\<open>inet_pton\<close> for \<^verbatim>\<open>AF_INET\<close>: four decimal numbers, the first for the byte at the lowest
  address.  Reading takes one to three digits per number, at most 255, without a superfluous 0 in front.\<close>

abbreviation (input) NUL :: char where "NUL \<equiv> CHR 0x00"

definition digit :: "nat \<Rightarrow> char" where
  "digit n = char_of (48 + n)"

definition decimal :: "nat \<Rightarrow> string" where
  "decimal n = (if n < 10 then [digit n] else if n < 100 then [digit (n div 10), digit (n mod 10)]
     else [digit (n div 100), digit (n div 10 mod 10), digit (n mod 10)])"

definition dotted :: "u32 \<Rightarrow> string" where
  "dotted host = decimal (unat (ucast host :: u8)) @ CHR ''.'' # decimal (unat (ucast (drop_bit 8 host) :: u8)) @
     CHR ''.'' # decimal (unat (ucast (drop_bit 16 host) :: u8)) @
     CHR ''.'' # decimal (unat (ucast (drop_bit 24 host) :: u8))"

fun split_dots :: "string \<Rightarrow> string list" where
  "split_dots [] = [[]]"
| "split_dots (c # cs) =
     (if c = CHR ''.'' then [] # split_dots cs
      else case split_dots cs of p # ps \<Rightarrow> (c # p) # ps | [] \<Rightarrow> [[c]])"

definition read_digit :: "char \<Rightarrow> nat option" where
  "read_digit c = (let n = of_char c :: nat in if 48 \<le> n \<and> n \<le> 57 then Some (n - 48) else None)"

definition read_octet :: "string \<Rightarrow> u8 option" where
  "read_octet cs =
     (case map read_digit cs of
        [Some a] \<Rightarrow> Some (of_nat a)
      | [Some a, Some b] \<Rightarrow> if a = 0 then None else Some (of_nat (10 * a + b))
      | [Some a, Some b, Some c] \<Rightarrow>
          if a = 0 \<or> 100 * a + 10 * b + c > 255 then None else Some (of_nat (100 * a + 10 * b + c))
      | _ \<Rightarrow> None)"

definition undotted :: "string \<Rightarrow> u32 option" where
  "undotted cs =
     (case map read_octet (split_dots cs) of
        [Some a, Some b, Some c, Some d] \<Rightarrow> Some (load32 [a, b, c, d] 0)
      | _ \<Rightarrow> None)"

lemma split_dots_nonempty: "split_dots cs \<noteq> []"
  by (induction cs) (auto split: list.split)

lemma split_dots_part: "CHR ''.'' \<notin> set p \<Longrightarrow> split_dots (p @ CHR ''.'' # cs) = p # split_dots cs"
  by (induction p) auto

lemma split_dots_last: "CHR ''.'' \<notin> set p \<Longrightarrow> split_dots p = [p]"
  by (induction p) auto

lemma read_digit_digit [simp]: "n < 10 \<Longrightarrow> read_digit (digit n) = Some n"
  by (simp add: read_digit_def digit_def)

lemma digit_no_dot: "n < 10 \<Longrightarrow> CHR ''.'' \<noteq> digit n"
proof
  assume "n < 10" "CHR ''.'' = digit n"
  then have "read_digit (CHR ''.'') = Some n" by simp
  then show False by (simp add: read_digit_def)
qed

lemma decimal_no_dot: "n < 256 \<Longrightarrow> CHR ''.'' \<notin> set (decimal n)"
  by (simp add: decimal_def digit_no_dot)

lemma read_octet_decimal:
  assumes "n < 256"
  shows "read_octet (decimal n) = Some (of_nat n)"
proof -
  consider "n < 10" | "10 \<le> n" "n < 100" | "100 \<le> n" by linarith
  then show ?thesis
  proof cases
    case 1
    then show ?thesis by (simp add: read_octet_def decimal_def)
  next
    case 2
    then have "0 < n div 10" "n div 10 < 10" "10 * (n div 10) + n mod 10 = n" by simp_all
    with 2 show ?thesis by (simp add: read_octet_def decimal_def del: mult_div_mod_eq)
  next
    case 3
    then have a: "0 < n div 100" "n div 100 < 10" using assms by simp_all
    have "n = 10 * (n div 10) + n mod 10" "n div 10 = 10 * (n div 10 div 10) + n div 10 mod 10" by simp_all
    moreover have "n div 100 = n div 10 div 10" using div_mult2_eq [of n 10 10] by simp
    ultimately have "100 * (n div 100) + 10 * (n div 10 mod 10) + n mod 10 = n" by linarith
    with 3 assms a show ?thesis by (simp add: read_octet_def decimal_def)
  qed
qed

lemma unat_octet: "unat (b :: u8) < 256"
  using unsigned_less [of b] by simp

lemma undotted_dotted [simp]: "undotted (dotted host) = Some host"
proof -
  note b = decimal_no_dot [OF unat_octet] read_octet_decimal [OF unat_octet]
  show ?thesis
    by (simp add: undotted_def dotted_def split_dots_part split_dots_last b load32_def word32_of_bytes)
qed

lemma digit_printable: "NUL \<noteq> digit n" if "n < 10"
proof
  assume "NUL = digit n"
  then have "read_digit NUL = Some n" using that by simp
  then show False by (simp add: read_digit_def)
qed

lemma dotted_printable: "NUL \<notin> set (dotted host)"
proof -
  have "NUL \<notin> set (decimal (unat (b :: u8)))" for b
    using unat_octet [of b] by (simp add: decimal_def digit_printable)
  then show ?thesis by (simp add: dotted_def)
qed

lemma length_decimal: "length (decimal n) \<le> 3"
  by (simp add: decimal_def)

lemma length_dotted: "length (dotted host) \<le> 15"
proof -
  have "length (decimal a @ CHR ''.'' # decimal b @ CHR ''.'' # decimal c @ CHR ''.'' # decimal d) \<le> 15" for a b c d
    using length_decimal [of a] length_decimal [of b] length_decimal [of c] length_decimal [of d] by simp
  then show ?thesis by (simp add: dotted_def)
qed

text \<open>\<^verbatim>\<open>strlen\<close>, a comparison with the room, and \<^verbatim>\<open>memcpy\<close> with the NUL: the result, and what has been
  written, \<open>None\<close> for nothing.\<close>

definition copy_name :: "string \<Rightarrow> nat \<Rightarrow> int \<times> string option" where
  "copy_name name nameLength = (if length name \<ge> nameLength then (-1, None) else (0, Some (name @ [NUL])))"

section \<open>Sets of descriptors\<close>

text \<open>An \<^verbatim>\<open>fd_set\<close> has room for \<^verbatim>\<open>FD_SETSIZE\<close> descriptors; \<open>None\<close> is an access outside of it.\<close>

abbreviation (input) FD_SETSIZE :: int where "FD_SETSIZE \<equiv> 1024"

definition FD_SET :: "int \<Rightarrow> int set \<Rightarrow> int set option" where
  "FD_SET fd fds = (if 0 \<le> fd \<and> fd < FD_SETSIZE then Some (insert fd fds) else None)"

definition FD_ISSET :: "int \<Rightarrow> int set \<Rightarrow> bool option" where
  "FD_ISSET fd fds = (if 0 \<le> fd \<and> fd < FD_SETSIZE then Some (fd \<in> fds) else None)"

definition FD_CLR :: "int \<Rightarrow> int set \<Rightarrow> int set option" where
  "FD_CLR fd fds = (if 0 \<le> fd \<and> fd < FD_SETSIZE then Some (fds - {fd}) else None)"

section \<open>Waiting\<close>

abbreviation (input) ENET_SOCKET_WAIT_NONE :: u32 where "ENET_SOCKET_WAIT_NONE \<equiv> 0"
abbreviation (input) ENET_SOCKET_WAIT_SEND :: u32 where "ENET_SOCKET_WAIT_SEND \<equiv> 1"

text \<open>What can become of a wait: it is interrupted by a signal or fails, the time passes, or the socket is
  ready for sending or for receiving.  The specification of \<^verbatim>\<open>enet_socket_wait\<close>: its result, and the
  condition it leaves behind; a layer that cannot tell an interrupt from a failure has
  \<open>interrupts = False\<close>.\<close>

datatype readiness = Interrupted | WaitFailed | TimedOut | Ready bool bool

definition asks :: "u32 \<Rightarrow> u32 \<Rightarrow> bool" where
  "asks condition flag \<longleftrightarrow> condition AND flag \<noteq> 0"

definition ready_condition :: "bool \<Rightarrow> bool \<Rightarrow> u32" where
  "ready_condition send receive =
     (if send then ENET_SOCKET_WAIT_SEND else 0) OR (if receive then ENET_SOCKET_WAIT_RECEIVE else 0)"

fun wait_answer :: "bool \<Rightarrow> u32 \<Rightarrow> readiness \<Rightarrow> int \<times> u32" where
  "wait_answer interrupts condition Interrupted =
     (if interrupts \<and> asks condition ENET_SOCKET_WAIT_INTERRUPT then (0, ENET_SOCKET_WAIT_INTERRUPT)
      else (-1, condition))"
| "wait_answer interrupts condition WaitFailed = (-1, condition)"
| "wait_answer interrupts condition TimedOut = (0, ENET_SOCKET_WAIT_NONE)"
| "wait_answer interrupts condition (Ready send receive) =
     (0, ready_condition (asks condition ENET_SOCKET_WAIT_SEND \<and> send)
           (asks condition ENET_SOCKET_WAIT_RECEIVE \<and> receive))"

lemma ready_condition_simps [simp]:
  "ready_condition s r AND ENET_SOCKET_WAIT_SEND \<noteq> 0 \<longleftrightarrow> s"
  "ready_condition s r AND ENET_SOCKET_WAIT_RECEIVE \<noteq> 0 \<longleftrightarrow> r"
  "ready_condition s r AND ENET_SOCKET_WAIT_INTERRUPT = 0"
  by (cases s; cases r; simp add: ready_condition_def)+

section \<open>A host's socket\<close>

text \<open>What \<^verbatim>\<open>enet_socket_receive\<close> leaves behind: its result, the address if it stored one, and the bytes in
  the buffer.  For the host it is one of the answers of the world.\<close>

definition received_as :: "int \<times> ENetAddress option \<times> u8 list \<Rightarrow> received" where
  "received_as = (\<lambda>(n, address, bytes).
     if n < 0 then ReceiveError else case address of None \<Rightarrow> ReceiveNothing | Some a \<Rightarrow> ReceiveData a bytes)"

text \<open>The contract a host relies on: a datagram comes with its address and with all of its bytes, which fit
  into the buffer.  \<open>genuine\<close> says of the system's state that its answer is one the documents allow.\<close>

locale datagram_source =
  fixes receive :: "'s \<Rightarrow> (int \<times> ENetAddress option \<times> u8 list) \<times> 's" and genuine :: "'s \<Rightarrow> bool"
  assumes failed: "genuine s \<Longrightarrow> fst (receive s) = (n, address, bytes) \<Longrightarrow> n < 0 \<Longrightarrow> n = -1"
    and empty_handed: "genuine s \<Longrightarrow> fst (receive s) = (n, None, bytes) \<Longrightarrow> n \<le> 0"
    and whole: "genuine s \<Longrightarrow> fst (receive s) = (n, Some a, bytes) \<Longrightarrow> 0 \<le> n \<Longrightarrow>
      n = int (length bytes) \<and> length bytes \<le> ENET_PROTOCOL_MAXIMUM_MTU"
begin

lemma host_receives:
  assumes "genuine s" "w_received (h_world h) (w_receiveCalls (h_world h)) = received_as (fst (receive s))"
    "receive s = ((n, address, bytes), s')" "enet_socket_receive h = (m, h')"
  shows "m = n \<and> (0 < n \<longrightarrow> Some (h_receivedAddress h') = address \<and> take (nat n) (h_receivedData h') = bytes) \<and>
    h_peers h' = h_peers h \<and> h_heap h' = h_heap h"
proof (cases address)
  case None
  then have "n \<le> 0" "n < 0 \<longrightarrow> n = -1"
    using failed [OF assms(1), of n address bytes] empty_handed [OF assms(1), of n bytes] assms(3) by simp_all
  with None show ?thesis
    using assms(2-)
    by (auto simp: received_as_def enet_socket_receive_def Let_def split: if_split_asm)
next
  case (Some a)
  then have "n < 0 \<longrightarrow> n = -1" "0 \<le> n \<longrightarrow> n = int (length bytes) \<and> length bytes \<le> ENET_PROTOCOL_MAXIMUM_MTU"
    using failed [OF assms(1), of n address bytes] whole [OF assms(1), of n a bytes] assms(3) by simp_all
  with Some show ?thesis
    using assms(2-)
    by (auto simp: received_as_def enet_socket_receive_def Let_def split: if_split_asm)
qed

end

text \<open>The calls with which a host opens and closes its socket, as one of the layers provides them.\<close>

record 's socket_layer =
  sl_create :: "ENetSocketType \<Rightarrow> 's \<Rightarrow> int \<times> 's"
  sl_bind :: "int \<Rightarrow> ENetAddress option \<Rightarrow> 's \<Rightarrow> int \<times> 's"
  sl_set_option :: "int \<Rightarrow> ENetSocketOption \<Rightarrow> int \<Rightarrow> 's \<Rightarrow> int \<times> 's"
  sl_get_address :: "int \<Rightarrow> 's \<Rightarrow> (int \<times> ENetAddress option) \<times> 's"
  sl_destroy :: "int \<Rightarrow> 's \<Rightarrow> 's"
  sl_random_seed :: "'s \<Rightarrow> u32 \<times> 's"

abbreviation (input) ENET_SOCKET_NULL :: int where "ENET_SOCKET_NULL \<equiv> -1"
abbreviation (input) ENET_HOST_RECEIVE_BUFFER_SIZE :: int where "ENET_HOST_RECEIVE_BUFFER_SIZE \<equiv> 262144"
abbreviation (input) ENET_HOST_SEND_BUFFER_SIZE :: int where "ENET_HOST_SEND_BUFFER_SIZE \<equiv> 262144"

text \<open>The middle of \<^verbatim>\<open>enet_host_create\<close>: the socket with the address it got, or \<open>None\<close> when it could not be
  created or bound.\<close>

definition socket_options :: "(ENetSocketOption \<times> int) list" where
  "socket_options = [(ENET_SOCKOPT_NONBLOCK, 1), (ENET_SOCKOPT_BROADCAST, 1),
     (ENET_SOCKOPT_RCVBUF, ENET_HOST_RECEIVE_BUFFER_SIZE), (ENET_SOCKOPT_SNDBUF, ENET_HOST_SEND_BUFFER_SIZE)]"

definition open_socket ::
    "'s socket_layer \<Rightarrow> ENetAddress option \<Rightarrow> 's \<Rightarrow> (int \<times> ENetAddress option) option \<times> 's" where
  "open_socket l address s =
     (case sl_create l ENET_SOCKET_TYPE_DATAGRAM s of (socket, s) \<Rightarrow>
        if socket = ENET_SOCKET_NULL then (None, s)
        else case (case address of None \<Rightarrow> (0, s) | Some a \<Rightarrow> sl_bind l socket (Some a) s) of (bound, s) \<Rightarrow>
          if bound < 0 then (None, sl_destroy l socket s)
          else
            let s = fold (\<lambda>(option, value) s. snd (sl_set_option l socket option value s)) socket_options s
            in case address of
                 None \<Rightarrow> (Some (socket, None), s)
               | Some a \<Rightarrow>
                   (case sl_get_address l socket s of ((r, own), s) \<Rightarrow>
                      (Some (socket, if r < 0 then None else own), s)))"

text \<open>\<^verbatim>\<open>enet_host_create\<close> and \<^verbatim>\<open>enet_host_destroy\<close> with the calls of the layer.  The socket stands beside the
  host.\<close>

definition host_create_on ::
    "'s socket_layer \<Rightarrow> u32 \<Rightarrow> heap \<Rightarrow> world \<Rightarrow> ENetAddress option \<Rightarrow> size_t \<Rightarrow> size_t \<Rightarrow> u32 \<Rightarrow> u32 \<Rightarrow> 's \<Rightarrow>
     ((int \<times> ENetHost) option \<times> heap) \<times> 's" where
  "host_create_on l pointer hp w address peerCount channelLimit incomingBandwidth outgoingBandwidth s =
     (if peerCount > ENET_PROTOCOL_MAXIMUM_PEER_ID then ((None, hp), s)
      else case enet_malloc hp of (ok, hp1) \<Rightarrow>
        if \<not> ok then ((None, hp1), s)
        else case enet_malloc hp1 of (ok, hp2) \<Rightarrow>
          if \<not> ok then ((None, hp2), s)
          else case open_socket l address s of
            (None, s) \<Rightarrow> ((None, hp2), s)
          | (Some (socket, own), s) \<Rightarrow>
              case sl_random_seed l s of (seed, s) \<Rightarrow>
                case enet_host_create \<lparr>hs_socket = True, hs_bind = (\<lambda>_. True), hs_address = own, hs_seed = seed,
                       hs_pointer = pointer\<rparr> hp w address peerCount channelLimit incomingBandwidth outgoingBandwidth of
                  (host, hp) \<Rightarrow> ((map_option (Pair socket) host, hp), s))"

definition host_destroy_on :: "'s socket_layer \<Rightarrow> (int \<times> ENetHost) option \<Rightarrow> heap \<Rightarrow> 's \<Rightarrow> (heap \<times> nat option) \<times> 's" where
  "host_destroy_on l host hp s =
     (enet_host_destroy (map_option snd host) hp,
      case host of None \<Rightarrow> s | Some (socket, h) \<Rightarrow> sl_destroy l socket s)"

text \<open>The documents of the systems: creating gives a descriptor that was not open, closing closes it, and no
  other call opens or closes anything.  \<open>opened\<close> reads the open descriptors off the system's state.\<close>

definition keeps_sockets :: "'s socket_layer \<Rightarrow> ('s \<Rightarrow> int set) \<Rightarrow> bool" where
  "keeps_sockets l opened \<longleftrightarrow>
     (\<forall>type s fd s'. sl_create l type s = (fd, s') \<longrightarrow>
        (if fd = ENET_SOCKET_NULL then opened s' = opened s else fd \<notin> opened s \<and> opened s' = insert fd (opened s))) \<and>
     (\<forall>fd s. fd \<noteq> ENET_SOCKET_NULL \<longrightarrow> opened (sl_destroy l fd s) = opened s - {fd}) \<and>
     (\<forall>fd address s. opened (snd (sl_bind l fd address s)) = opened s) \<and>
     (\<forall>fd option value s. opened (snd (sl_set_option l fd option value s)) = opened s) \<and>
     (\<forall>fd s. opened (snd (sl_get_address l fd s)) = opened s) \<and>
     (\<forall>s. opened (snd (sl_random_seed l s)) = opened s)"

lemma keeps_socketsD:
  assumes "keeps_sockets l opened"
  shows "sl_create l type s = (-1, s') \<Longrightarrow> opened s' = opened s"
    "sl_create l type s = (fd, s') \<Longrightarrow> fd \<noteq> -1 \<Longrightarrow> fd \<notin> opened s \<and> opened s' = insert fd (opened s)"
    "fd \<noteq> -1 \<Longrightarrow> opened (sl_destroy l fd s) = opened s - {fd}"
    "sl_bind l fd address s = (r, s') \<Longrightarrow> opened s' = opened s"
    "opened (snd (sl_set_option l fd option v s)) = opened s"
    "sl_get_address l fd s = (a, s') \<Longrightarrow> opened s' = opened s"
    "sl_random_seed l s = (seed, s') \<Longrightarrow> opened s' = opened s"
  using assms unfolding keeps_sockets_def by (metis, metis, metis, metis snd_conv, metis, metis snd_conv, metis snd_conv)

lemma options_keep_sockets:
  assumes "keeps_sockets l opened"
  shows "opened (fold (\<lambda>(option, v) s. snd (sl_set_option l fd option v s)) options s) = opened s"
  by (induction options arbitrary: s) (auto simp: keeps_socketsD(5) [OF assms])

lemma open_socket_sockets:
  assumes l: "keeps_sockets l opened" and o: "open_socket l address s = (r, s')"
  shows "case r of None \<Rightarrow> opened s' = opened s
    | Some (fd, own) \<Rightarrow> fd \<noteq> -1 \<and> fd \<notin> opened s \<and> opened s' = insert fd (opened s)"
proof -
  note K = keeps_socketsD [OF l] and F = options_keep_sockets [OF l]
  obtain fd s1 where c: "sl_create l ENET_SOCKET_TYPE_DATAGRAM s = (fd, s1)" by force
  show ?thesis
  proof (cases "fd = -1")
    case True
    then show ?thesis using o c K(1) by (auto simp: open_socket_def)
  next
    case False
    note C = K(2) [OF c False]
    show ?thesis
    proof (cases address)
      case None
      then show ?thesis using o c C False F by (auto simp: open_socket_def Let_def)
    next
      case (Some a)
      obtain bound s2 where b: "sl_bind l fd (Some a) s1 = (bound, s2)" by force
      obtain r3 own s3 where g: "sl_get_address l fd (fold (\<lambda>(option, v) s. snd (sl_set_option l fd option v s))
          socket_options s2) = ((r3, own), s3)" by (metis surj_pair)
      show ?thesis using o c b g C False Some F [of fd socket_options s2] K(3) [OF False, of s2] K(4) [OF b] K(6) [OF g]
        by (auto simp: open_socket_def Let_def split: if_split_asm)
    qed
  qed
qed

lemma host_create_on_sockets:
  assumes l: "keeps_sockets l opened"
    and c: "host_create_on l pointer hp w address peerCount channelLimit inc out s = ((host, hp'), s')"
  shows "case host of None \<Rightarrow> opened s' = opened s
    | Some (fd, h) \<Rightarrow> fd \<noteq> -1 \<and> fd \<notin> opened s \<and> opened s' = insert fd (opened s)"
proof -
  obtain ok1 hp1 where m1: "enet_malloc hp = (ok1, hp1)" by force
  obtain ok2 hp2 where m2: "enet_malloc hp1 = (ok2, hp2)" by force
  obtain r s1 where o: "open_socket l address s = (r, s1)" by force
  note O = open_socket_sockets [OF l o]
  show ?thesis
  proof (cases "peerCount > ENET_PROTOCOL_MAXIMUM_PEER_ID \<or> \<not> ok1 \<or> \<not> ok2 \<or> r = None")
    case True
    then show ?thesis using c m1 m2 o O by (auto simp: host_create_on_def split: if_split_asm)
  next
    case False
    then obtain fd own where r: "r = Some (fd, own)" by auto
    obtain seed s2 where sd: "sl_random_seed l s1 = (seed, s2)" by force
    let ?sys = "\<lparr>hs_socket = True, hs_bind = \<lambda>_. True, hs_address = own, hs_seed = seed, hs_pointer = pointer\<rparr>"
    have "\<exists>h hp3. enet_host_create ?sys hp w address peerCount channelLimit inc out = (Some h, hp3)"
      using False m1 m2 by (simp add: enet_host_create_def Let_def split: option.split)
    then show ?thesis
      using c m1 m2 o O False r sd keeps_socketsD(7) [OF l sd] by (auto simp: host_create_on_def)
  qed
qed

end
