(* ===== verification/EnetUnix.thy ===== *)
theory EnetUnix
  imports EnetSocket
begin

text \<open>
  The layer on Unix (\<^verbatim>\<open>enet/unix.cpp\<close>).  The calls of the system are the functions of the record
  \<open>posix\<close>: from the arguments the code passes and a state of the system to the results the code looks at
  and the next state.  A definition carries the name of its function with \<open>unix_\<close> for \<^verbatim>\<open>enet_\<close>.

  What is compiled depends on the platform: \<^verbatim>\<open>enet/SCsub\<close> defines the \<^verbatim>\<open>HAS_\<close> macros on Linux and OS X, on
  OS X the file itself takes \<^verbatim>\<open>HAS_POLL\<close> back, and on Android none is defined.  The record \<open>build\<close> holds
  them, so that the theorems are about all of them.
\<close>

section \<open>The build and the system\<close>

record build =
  HAS_FCNTL :: bool
  HAS_POLL :: bool
  HAS_GETADDRINFO :: bool
  HAS_GETNAMEINFO :: bool
  HAS_INET_PTON :: bool
  HAS_INET_NTOP :: bool
  HAS_MSGHDR_FLAGS :: bool

definition x11_build :: build where
  "x11_build = \<lparr>HAS_FCNTL = True, HAS_POLL = True, HAS_GETADDRINFO = True, HAS_GETNAMEINFO = True,
     HAS_INET_PTON = True, HAS_INET_NTOP = True, HAS_MSGHDR_FLAGS = True\<rparr>"

definition apple_build :: build where
  "apple_build = x11_build\<lparr>HAS_POLL := False\<rparr>"

definition android_build :: build where
  "android_build = \<lparr>HAS_FCNTL = False, HAS_POLL = False, HAS_GETADDRINFO = False, HAS_GETNAMEINFO = False,
     HAS_INET_PTON = False, HAS_INET_NTOP = False, HAS_MSGHDR_FLAGS = False\<rparr>"

datatype errno = EWOULDBLOCK | EINTR | EINPROGRESS | other_errno int

text \<open>An entry of the list of \<^verbatim>\<open>getaddrinfo\<close>; \<open>ai_addr\<close> is \<open>None\<close> for NULL.\<close>

record addrinfo =
  ai_family :: int
  ai_addr :: "sockaddr_in option"
  ai_addrlen :: nat

text \<open>What \<^verbatim>\<open>recvmsg\<close> answers: result, \<^verbatim>\<open>errno\<close>, whether \<^verbatim>\<open>MSG_TRUNC\<close> is set, the name and the bytes.\<close>

record recvmsg_reply =
  rm_result :: int
  rm_errno :: errno
  rm_truncated :: bool
  rm_name :: sockaddr_in
  rm_bytes :: "u8 list"

record 's posix =
  sys_gettimeofday :: "'s \<Rightarrow> timeval \<times> 's"
  sys_time :: "'s \<Rightarrow> int \<times> 's"
  sys_getaddrinfo :: "string \<Rightarrow> 's \<Rightarrow> (int \<times> addrinfo list) \<times> 's"
  sys_gethostbyname :: "string \<Rightarrow> 's \<Rightarrow> hostent option \<times> 's"
  sys_getnameinfo :: "sockaddr_in \<Rightarrow> nat \<Rightarrow> 's \<Rightarrow> (int \<times> string) \<times> 's"
  sys_gethostbyaddr :: "u32 \<Rightarrow> 's \<Rightarrow> hostent option \<times> 's"
  sys_inet_aton :: "string \<Rightarrow> u32 option"
  sys_socket :: "socket_kind \<Rightarrow> 's \<Rightarrow> int \<times> 's"
  sys_bind :: "int \<Rightarrow> sockaddr_in \<Rightarrow> 's \<Rightarrow> int \<times> 's"
  sys_getsockname :: "int \<Rightarrow> 's \<Rightarrow> (int \<times> sockaddr_in) \<times> 's"
  sys_listen :: "int \<Rightarrow> int \<Rightarrow> 's \<Rightarrow> int \<times> 's"
  sys_SOMAXCONN :: int
  sys_F_GETFL :: "int \<Rightarrow> 's \<Rightarrow> 32 word \<times> 's"
  sys_F_SETFL :: "int \<Rightarrow> 32 word \<Rightarrow> 's \<Rightarrow> int \<times> 's"
  sys_O_NONBLOCK :: "32 word"
  sys_FIONBIO :: "int \<Rightarrow> int \<Rightarrow> 's \<Rightarrow> int \<times> 's"
  sys_setsockopt :: "int \<Rightarrow> sockopt \<Rightarrow> sockopt_value \<Rightarrow> 's \<Rightarrow> int \<times> 's"
  sys_SO_ERROR :: "int \<Rightarrow> 's \<Rightarrow> (int \<times> int) \<times> 's"
  sys_connect :: "int \<Rightarrow> sockaddr_in \<Rightarrow> 's \<Rightarrow> (int \<times> errno) \<times> 's"
  sys_accept :: "int \<Rightarrow> 's \<Rightarrow> (int \<times> sockaddr_in) \<times> 's"
  sys_shutdown :: "int \<Rightarrow> int \<Rightarrow> 's \<Rightarrow> int \<times> 's"
  sys_close :: "int \<Rightarrow> 's \<Rightarrow> 's"
  sys_sendmsg :: "int \<Rightarrow> sockaddr_in option \<Rightarrow> u8 list list \<Rightarrow> 's \<Rightarrow> (int \<times> errno) \<times> 's"
  sys_recvmsg :: "int \<Rightarrow> nat list \<Rightarrow> 's \<Rightarrow> recvmsg_reply \<times> 's"
  sys_poll :: "int \<Rightarrow> 16 word \<Rightarrow> int \<Rightarrow> 's \<Rightarrow> (int \<times> errno \<times> 16 word) \<times> 's"
  sys_select :: "int \<Rightarrow> int set \<Rightarrow> int set \<Rightarrow> timeval \<Rightarrow> 's \<Rightarrow> (int \<times> errno \<times> int set \<times> int set) \<times> 's"

section \<open>Initialisation and time\<close>

definition unix_initialize :: "'s \<Rightarrow> int \<times> 's" where
  "unix_initialize s = (0, s)"


text \<open>The time in milliseconds.  \<^verbatim>\<open>timeBase\<close> is a static variable of the file: an argument of
  \<open>unix_time_get\<close>, and what \<open>unix_time_set\<close> returns.\<close>

definition milliseconds :: "timeval \<Rightarrow> int" where
  "milliseconds tv = tv_sec tv * 1000 + tv_usec tv sdiv 1000"

definition unix_time_get :: "'s posix \<Rightarrow> u32 \<Rightarrow> 's \<Rightarrow> u32 \<times> 's" where
  "unix_time_get k timeBase s =
     (case sys_gettimeofday k s of (tv, s) \<Rightarrow> (word_of_int (milliseconds tv - uint timeBase), s))"

definition unix_time_set :: "'s posix \<Rightarrow> u32 \<Rightarrow> 's \<Rightarrow> u32 \<times> 's" where
  "unix_time_set k newTimeBase s =
     (case sys_gettimeofday k s of (tv, s) \<Rightarrow> (word_of_int (milliseconds tv - uint newTimeBase), s))"

definition unix_host_random_seed :: "'s posix \<Rightarrow> 's \<Rightarrow> u32 \<times> 's" where
  "unix_host_random_seed k s = (case sys_time k s of (t, s) \<Rightarrow> (word_of_int t, s))"

section \<open>Names\<close>

fun first_ipv4 :: "addrinfo list \<Rightarrow> u32 option" where
  "first_ipv4 [] = None"
| "first_ipv4 (r # rs) =
     (case ai_addr r of
        Some sin \<Rightarrow> if ai_family r = AF_INET \<and> ai_addrlen r \<ge> 16 then Some (sin_addr sin) else first_ipv4 rs
      | None \<Rightarrow> first_ipv4 rs)"

text \<open>The result and the address; \<open>numeric_host\<close> is the end of the function, which reads a number.\<close>

definition numeric_host :: "build \<Rightarrow> 's posix \<Rightarrow> ENetAddress \<Rightarrow> string \<Rightarrow> int \<times> ENetAddress" where
  "numeric_host b k address name =
     (case (if HAS_INET_PTON b then undotted name else sys_inet_aton k name) of
        None \<Rightarrow> (-1, address)
      | Some host \<Rightarrow> (0, address\<lparr>addr_host := host\<rparr>))"

definition unix_address_set_host ::
    "build \<Rightarrow> 's posix \<Rightarrow> ENetAddress \<Rightarrow> string \<Rightarrow> 's \<Rightarrow> (int \<times> ENetAddress) \<times> 's" where
  "unix_address_set_host b k address name s =
     (if HAS_GETADDRINFO b then
        (case sys_getaddrinfo k name s of ((err, results), s) \<Rightarrow>
           if err \<noteq> 0 then ((-1, address), s)
           else case first_ipv4 results of
                  Some host \<Rightarrow> ((0, address\<lparr>addr_host := host\<rparr>), s)
                | None \<Rightarrow> (numeric_host b k address name, s))
      else
        (case sys_gethostbyname k name s of (entry, s) \<Rightarrow>
           (case entry of
              Some e \<Rightarrow> if h_addrtype e = AF_INET then ((0, address\<lparr>addr_host := h_addr e\<rparr>), s)
                        else (numeric_host b k address name, s)
            | None \<Rightarrow> (numeric_host b k address name, s))))"

text \<open>The result, and what has been written into the buffer of \<open>nameLength\<close> bytes: \<open>None\<close> for nothing.\<close>

abbreviation (input) EAI_NONAME :: int where "EAI_NONAME \<equiv> -2"

definition inet_ntop :: "u32 \<Rightarrow> nat \<Rightarrow> string option" where
  "inet_ntop host room = (if length (dotted host) < room then Some (dotted host @ [NUL]) else None)"

definition unix_address_get_host_ip :: "build \<Rightarrow> ENetAddress \<Rightarrow> nat \<Rightarrow> int \<times> string option" where
  "unix_address_get_host_ip b address nameLength =
     (if HAS_INET_NTOP b then
        (case inet_ntop (addr_host address) nameLength of None \<Rightarrow> (-1, None) | Some text \<Rightarrow> (0, Some text))
      else copy_name (dotted (addr_host address)) nameLength)"

definition unix_address_get_host :: "build \<Rightarrow> 's posix \<Rightarrow> ENetAddress \<Rightarrow> nat \<Rightarrow> 's \<Rightarrow> (int \<times> string option) \<times> 's" where
  "unix_address_get_host b k address nameLength s =
     (if HAS_GETNAMEINFO b then
        (case sys_getnameinfo k (sockaddr_of address) nameLength s of ((err, name), s) \<Rightarrow>
           if err = 0 then
             (if nameLength > 0 \<and> NUL \<notin> set (take nameLength name) then ((-1, Some name), s) else ((0, Some name), s))
           else if err \<noteq> EAI_NONAME then ((0, None), s)
           else (unix_address_get_host_ip b address nameLength, s))
      else
        (case sys_gethostbyaddr k (addr_host address) s of (entry, s) \<Rightarrow>
           (case entry of
              Some e \<Rightarrow> (copy_name (h_name e) nameLength, s)
            | None \<Rightarrow> (unix_address_get_host_ip b address nameLength, s))))"

section \<open>Sockets\<close>

definition unix_socket_bind :: "'s posix \<Rightarrow> int \<Rightarrow> ENetAddress option \<Rightarrow> 's \<Rightarrow> int \<times> 's" where
  "unix_socket_bind k socket address = sys_bind k socket (bind_sockaddr address)"

definition unix_socket_get_address :: "'s posix \<Rightarrow> int \<Rightarrow> 's \<Rightarrow> (int \<times> ENetAddress option) \<times> 's" where
  "unix_socket_get_address k socket s =
     (case sys_getsockname k socket s of ((r, sin), s) \<Rightarrow>
        if r = -1 then ((-1, None), s) else ((0, Some (address_of sin)), s))"

definition unix_socket_listen :: "'s posix \<Rightarrow> int \<Rightarrow> int \<Rightarrow> 's \<Rightarrow> int \<times> 's" where
  "unix_socket_listen k socket backlog = sys_listen k socket (if backlog < 0 then sys_SOMAXCONN k else backlog)"

definition unix_socket_create :: "'s posix \<Rightarrow> ENetSocketType \<Rightarrow> 's \<Rightarrow> int \<times> 's" where
  "unix_socket_create k type = sys_socket k (if type = ENET_SOCKET_TYPE_DATAGRAM then SOCK_DGRAM else SOCK_STREAM)"

definition option_time :: "int \<Rightarrow> timeval" where
  "option_time value = \<lparr>tv_sec = value sdiv 1000, tv_usec = value smod 1000 * 1000\<rparr>"

text \<open>The arm of \<^verbatim>\<open>ENET_SOCKOPT_NONBLOCK\<close>.\<close>

definition set_nonblock :: "build \<Rightarrow> 's posix \<Rightarrow> int \<Rightarrow> int \<Rightarrow> 's \<Rightarrow> int \<times> 's" where
  "set_nonblock b k socket value s =
     (if HAS_FCNTL b then
        (case sys_F_GETFL k socket s of (flags, s) \<Rightarrow>
           sys_F_SETFL k socket ((if value \<noteq> 0 then sys_O_NONBLOCK k else 0) OR (flags AND NOT (sys_O_NONBLOCK k))) s)
      else sys_FIONBIO k socket value s)"

definition unix_set_option :: "build \<Rightarrow> 's posix \<Rightarrow> int \<Rightarrow> ENetSocketOption \<Rightarrow> int \<Rightarrow> 's \<Rightarrow> int \<times> 's" where
  "unix_set_option b k socket option value s =
     (case option of
        ENET_SOCKOPT_NONBLOCK \<Rightarrow> set_nonblock b k socket value s
      | ENET_SOCKOPT_BROADCAST \<Rightarrow> sys_setsockopt k socket SO_BROADCAST (IntValue value) s
      | ENET_SOCKOPT_REUSEADDR \<Rightarrow> sys_setsockopt k socket SO_REUSEADDR (IntValue value) s
      | ENET_SOCKOPT_RCVBUF \<Rightarrow> sys_setsockopt k socket SO_RCVBUF (IntValue value) s
      | ENET_SOCKOPT_SNDBUF \<Rightarrow> sys_setsockopt k socket SO_SNDBUF (IntValue value) s
      | ENET_SOCKOPT_RCVTIMEO \<Rightarrow> sys_setsockopt k socket SO_RCVTIMEO (TimeValue (option_time value)) s
      | ENET_SOCKOPT_SNDTIMEO \<Rightarrow> sys_setsockopt k socket SO_SNDTIMEO (TimeValue (option_time value)) s
      | ENET_SOCKOPT_NODELAY \<Rightarrow> sys_setsockopt k socket TCP_NODELAY (IntValue value) s
      | ENET_SOCKOPT_ERROR \<Rightarrow> (-1, s))"

definition unix_socket_set_option :: "build \<Rightarrow> 's posix \<Rightarrow> int \<Rightarrow> ENetSocketOption \<Rightarrow> int \<Rightarrow> 's \<Rightarrow> int \<times> 's" where
  "unix_socket_set_option b k socket option value s =
     (case unix_set_option b k socket option value s of (result, s) \<Rightarrow> (if result = -1 then -1 else 0, s))"

text \<open>The result and the value, when one has been written.\<close>

definition unix_socket_get_option :: "'s posix \<Rightarrow> int \<Rightarrow> ENetSocketOption \<Rightarrow> 's \<Rightarrow> (int \<times> int option) \<times> 's" where
  "unix_socket_get_option k socket option s =
     (if option = ENET_SOCKOPT_ERROR then
        (case sys_SO_ERROR k socket s of ((result, value), s) \<Rightarrow>
           if result = -1 then ((-1, None), s) else ((0, Some value), s))
      else ((-1, None), s))"

definition unix_socket_connect :: "'s posix \<Rightarrow> int \<Rightarrow> ENetAddress \<Rightarrow> 's \<Rightarrow> int \<times> 's" where
  "unix_socket_connect k socket address s =
     (case sys_connect k socket (sockaddr_of address) s of ((result, errno), s) \<Rightarrow>
        (if result = -1 \<and> errno = EINPROGRESS then 0 else result, s))"

definition unix_socket_accept :: "'s posix \<Rightarrow> int \<Rightarrow> bool \<Rightarrow> 's \<Rightarrow> (int \<times> ENetAddress option) \<times> 's" where
  "unix_socket_accept k socket wanted s =
     (case sys_accept k socket s of ((result, sin), s) \<Rightarrow>
        if result = -1 then ((ENET_SOCKET_NULL, None), s) else ((result, if wanted then Some (address_of sin) else None), s))"

definition unix_socket_shutdown :: "'s posix \<Rightarrow> int \<Rightarrow> ENetSocketShutdown \<Rightarrow> 's \<Rightarrow> int \<times> 's" where
  "unix_socket_shutdown k socket how = sys_shutdown k socket (shutdown_number how)"

definition unix_socket_destroy :: "'s posix \<Rightarrow> int \<Rightarrow> 's \<Rightarrow> 's" where
  "unix_socket_destroy k socket s = (if socket \<noteq> -1 then sys_close k socket s else s)"

section \<open>Datagrams\<close>

definition unix_socket_send :: "'s posix \<Rightarrow> int \<Rightarrow> ENetAddress option \<Rightarrow> u8 list list \<Rightarrow> 's \<Rightarrow> int \<times> 's" where
  "unix_socket_send k socket address buffers s =
     (case sys_sendmsg k socket (map_option sockaddr_of address) buffers s of ((sentLength, errno), s) \<Rightarrow>
        (if sentLength = -1 then (if errno = EWOULDBLOCK then 0 else -1) else sentLength, s))"

text \<open>The buffers are given by their sizes; \<open>wanted\<close> tells whether the caller gives a pointer for the address.
  Result, address and bytes.\<close>

definition unix_receive_result :: "build \<Rightarrow> bool \<Rightarrow> recvmsg_reply \<Rightarrow> int \<times> ENetAddress option \<times> u8 list" where
  "unix_receive_result b wanted r =
     (if rm_result r = -1 then (if rm_errno r = EWOULDBLOCK then 0 else -1, None, [])
      else if HAS_MSGHDR_FLAGS b \<and> rm_truncated r then (-1, None, rm_bytes r)
      else (rm_result r, if wanted then Some (address_of (rm_name r)) else None, rm_bytes r))"

definition unix_socket_receive ::
    "build \<Rightarrow> 's posix \<Rightarrow> int \<Rightarrow> bool \<Rightarrow> nat list \<Rightarrow> 's \<Rightarrow> (int \<times> ENetAddress option \<times> u8 list) \<times> 's" where
  "unix_socket_receive b k socket wanted sizes s =
     (case sys_recvmsg k socket sizes s of (r, s) \<Rightarrow> (unix_receive_result b wanted r, s))"

section \<open>Waiting\<close>

abbreviation (input) POLLIN :: "16 word" where "POLLIN \<equiv> 1"
abbreviation (input) POLLOUT :: "16 word" where "POLLOUT \<equiv> 4"

definition unix_socketset_select ::
    "'s posix \<Rightarrow> int \<Rightarrow> int set \<Rightarrow> int set \<Rightarrow> u32 \<Rightarrow> 's \<Rightarrow> (int \<times> errno \<times> int set \<times> int set) \<times> 's" where
  "unix_socketset_select k maxSocket readSet writeSet timeout =
     sys_select k (maxSocket + 1) readSet writeSet (timeval_of timeout)"

definition wait_events :: "u32 \<Rightarrow> 16 word" where
  "wait_events condition = (if asks condition ENET_SOCKET_WAIT_SEND then POLLOUT else 0) OR
     (if asks condition ENET_SOCKET_WAIT_RECEIVE then POLLIN else 0)"

text \<open>A negative count: the call has failed or was interrupted.\<close>

definition wait_failed :: "errno \<Rightarrow> u32 \<Rightarrow> int \<times> u32" where
  "wait_failed errno condition =
     (if errno = EINTR \<and> asks condition ENET_SOCKET_WAIT_INTERRUPT then (0, ENET_SOCKET_WAIT_INTERRUPT)
      else (-1, condition))"

text \<open>The variant with \<^verbatim>\<open>poll\<close>.  It takes the time as an \<^verbatim>\<open>int\<close>.\<close>

definition wait_poll :: "'s posix \<Rightarrow> int \<Rightarrow> u32 \<Rightarrow> u32 \<Rightarrow> 's \<Rightarrow> (int \<times> u32) \<times> 's" where
  "wait_poll k socket condition timeout s =
     (case sys_poll k socket (wait_events condition) (sint timeout) s of ((pollCount, errno, revents), s) \<Rightarrow>
        if pollCount < 0 then (wait_failed errno condition, s)
        else if pollCount = 0 then ((0, ENET_SOCKET_WAIT_NONE), s)
        else ((0, ready_condition (revents AND POLLOUT \<noteq> 0) (revents AND POLLIN \<noteq> 0)), s))"

text \<open>The variant with \<^verbatim>\<open>select\<close>; \<open>None\<close> when the descriptor is outside of the sets.\<close>

definition select_set :: "u32 \<Rightarrow> u32 \<Rightarrow> int \<Rightarrow> int set option" where
  "select_set condition flag socket = (if asks condition flag then FD_SET socket {} else Some {})"

definition wait_select :: "'s posix \<Rightarrow> int \<Rightarrow> u32 \<Rightarrow> u32 \<Rightarrow> 's \<Rightarrow> ((int \<times> u32) \<times> 's) option" where
  "wait_select k socket condition timeout s =
     (case (select_set condition ENET_SOCKET_WAIT_SEND socket, select_set condition ENET_SOCKET_WAIT_RECEIVE socket) of
        (Some writeSet, Some readSet) \<Rightarrow>
          (case sys_select k (socket + 1) readSet writeSet (timeval_of timeout) s of
             ((selectCount, errno, readSet, writeSet), s) \<Rightarrow>
               if selectCount < 0 then Some (wait_failed errno condition, s)
               else if selectCount = 0 then Some ((0, ENET_SOCKET_WAIT_NONE), s)
               else case (FD_ISSET socket writeSet, FD_ISSET socket readSet) of
                      (Some send, Some receive) \<Rightarrow> Some ((0, ready_condition send receive), s)
                    | _ \<Rightarrow> None)
      | _ \<Rightarrow> None)"

definition unix_socket_wait :: "build \<Rightarrow> 's posix \<Rightarrow> int \<Rightarrow> u32 \<Rightarrow> u32 \<Rightarrow> 's \<Rightarrow> ((int \<times> u32) \<times> 's) option" where
  "unix_socket_wait b k socket condition timeout s =
     (if HAS_POLL b then Some (wait_poll k socket condition timeout s) else wait_select k socket condition timeout s)"

definition unix_layer :: "build \<Rightarrow> 's posix \<Rightarrow> 's socket_layer" where
  "unix_layer b k = \<lparr>sl_create = unix_socket_create k, sl_bind = unix_socket_bind k,
     sl_set_option = unix_socket_set_option b k, sl_get_address = unix_socket_get_address k,
     sl_destroy = unix_socket_destroy k, sl_random_seed = unix_host_random_seed k\<rparr>"

section \<open>The clock\<close>

lemma time_passed:
  fixes new :: u32
  assumes "0 \<le> d" "d < 86400000"
  shows "ENET_TIME_GREATER_EQUAL (new + word_of_int d) new \<and> uint (ENET_TIME_DIFFERENCE (new + word_of_int d) new) = d"
proof -
  have d: "uint (word_of_int d :: u32) = d" using assms by (simp add: uint_word_of_int)
  have "\<not> (word_of_int d :: u32) \<ge> 86400000" using assms by (simp add: word_le_def d)
  then show ?thesis by (simp add: ENET_TIME_GREATER_EQUAL_def ENET_TIME_LESS_def ENET_TIME_DIFFERENCE_def d)
qed

section \<open>Names\<close>

text \<open>The documents of the name services: a numeric address resolves to itself.\<close>

definition numeric_names :: "'s posix \<Rightarrow> bool" where
  "numeric_names k \<longleftrightarrow> (\<forall>name host s. undotted name = Some host \<longrightarrow>
     (\<exists>results. fst (sys_getaddrinfo k name s) = (0, results) \<and>
        (\<forall>r\<in>set results. \<forall>sin. ai_family r = AF_INET \<longrightarrow> ai_addr r = Some sin \<longrightarrow> sin_addr sin = host)) \<and>
     (\<forall>e. fst (sys_gethostbyname k name s) = Some e \<longrightarrow> h_addrtype e = AF_INET \<longrightarrow> h_addr e = host) \<and>
     sys_inet_aton k name = Some host)"

lemma first_ipv4_numeric:
  "\<forall>r\<in>set results. \<forall>sin. ai_family r = AF_INET \<longrightarrow> ai_addr r = Some sin \<longrightarrow> sin_addr sin = host \<Longrightarrow>
   first_ipv4 results = None \<or> first_ipv4 results = Some host"
  by (induction results) (auto split: option.split)

lemma set_host_numeric:
  assumes "numeric_names k" "undotted name = Some host"
  shows "fst (unix_address_set_host b k a name s) = (0, a\<lparr>addr_host := host\<rparr>)"
proof -
  note N = assms(1) [unfolded numeric_names_def, rule_format, OF assms(2), of s]
  from N obtain results where r: "fst (sys_getaddrinfo k name s) = (0, results)"
    "\<forall>r\<in>set results. \<forall>sin. ai_family r = AF_INET \<longrightarrow> ai_addr r = Some sin \<longrightarrow> sin_addr sin = host"
    by blast
  from N have h: "\<forall>e. fst (sys_gethostbyname k name s) = Some e \<longrightarrow> h_addrtype e = AF_INET \<longrightarrow> h_addr e = host"
    and i: "sys_inet_aton k name = Some host" by blast+
  from first_ipv4_numeric [OF r(2)] r(1) h i assms(2) show ?thesis
    by (auto simp: unix_address_set_host_def numeric_host_def split: prod.split option.split)
qed

definition c_string :: "string \<Rightarrow> string" where
  "c_string buffer = takeWhile (\<lambda>c. c \<noteq> NUL) buffer"

lemma get_host_ip_text:
  "unix_address_get_host_ip b a n =
     (if length (dotted (addr_host a)) < n then (0, Some (dotted (addr_host a) @ [NUL])) else (-1, None))"
  by (simp add: unix_address_get_host_ip_def inet_ntop_def copy_name_def)

lemma c_string_dotted: "c_string (dotted host @ [NUL]) = dotted host"
proof -
  have "NUL \<notin> set (dotted host)" using dotted_printable by blast
  then show ?thesis unfolding c_string_def by (subst takeWhile_append2) auto
qed

section \<open>Waiting\<close>

text \<open>How \<^verbatim>\<open>poll\<close> and \<^verbatim>\<open>select\<close> report the state of the socket, for what they have been asked.\<close>

fun poll_reports :: "u32 \<Rightarrow> int \<times> errno \<times> 16 word \<Rightarrow> readiness \<Rightarrow> bool" where
  "poll_reports condition (n, errno, revents) Interrupted \<longleftrightarrow> n < 0 \<and> errno = EINTR"
| "poll_reports condition (n, errno, revents) WaitFailed \<longleftrightarrow> n < 0 \<and> errno \<noteq> EINTR"
| "poll_reports condition (n, errno, revents) TimedOut \<longleftrightarrow> n = 0"
| "poll_reports condition (n, errno, revents) (Ready send receive) \<longleftrightarrow> n > 0 \<and>
     (revents AND POLLOUT \<noteq> 0 \<longleftrightarrow> wait_events condition AND POLLOUT \<noteq> 0 \<and> send) \<and>
     (revents AND POLLIN \<noteq> 0 \<longleftrightarrow> wait_events condition AND POLLIN \<noteq> 0 \<and> receive)"

fun select_reports :: "int \<Rightarrow> int set \<Rightarrow> int set \<Rightarrow> int \<times> errno \<times> int set \<times> int set \<Rightarrow> readiness \<Rightarrow> bool" where
  "select_reports fd R W (n, errno, R', W') Interrupted \<longleftrightarrow> n < 0 \<and> errno = EINTR"
| "select_reports fd R W (n, errno, R', W') WaitFailed \<longleftrightarrow> n < 0 \<and> errno \<noteq> EINTR"
| "select_reports fd R W (n, errno, R', W') TimedOut \<longleftrightarrow> n = 0"
| "select_reports fd R W (n, errno, R', W') (Ready send receive) \<longleftrightarrow> n > 0 \<and>
     (fd \<in> W' \<longleftrightarrow> fd \<in> W \<and> send) \<and> (fd \<in> R' \<longleftrightarrow> fd \<in> R \<and> receive)"

lemma wait_events_simps [simp]:
  "wait_events condition AND POLLOUT \<noteq> 0 \<longleftrightarrow> asks condition ENET_SOCKET_WAIT_SEND"
  "wait_events condition AND POLLIN \<noteq> 0 \<longleftrightarrow> asks condition ENET_SOCKET_WAIT_RECEIVE"
  by (auto simp: wait_events_def)

lemma wait_poll_answer:
  assumes "poll_reports condition (fst (sys_poll k fd (wait_events condition) (sint timeout) s)) r"
  shows "fst (wait_poll k fd condition timeout s) = wait_answer True condition r"
proof -
  obtain n errno revents s' where p: "sys_poll k fd (wait_events condition) (sint timeout) s = ((n, errno, revents), s')"
    by (metis surj_pair)
  show ?thesis using assms by (cases r) (auto simp: wait_poll_def wait_failed_def p)
qed

lemma wait_select_answer:
  assumes "0 \<le> fd" "fd < FD_SETSIZE"
    "R = (if asks condition ENET_SOCKET_WAIT_RECEIVE then {fd} else {})"
    "W = (if asks condition ENET_SOCKET_WAIT_SEND then {fd} else {})"
    "select_reports fd R W (fst (sys_select k (fd + 1) R W (timeval_of timeout) s)) r"
  shows "map_option fst (wait_select k fd condition timeout s) = Some (wait_answer True condition r)"
proof -
  obtain n errno R' W' s' where q: "sys_select k (fd + 1) R W (timeval_of timeout) s = ((n, errno, R', W'), s')"
    by (metis surj_pair)
  have sets: "select_set condition ENET_SOCKET_WAIT_SEND fd = Some W" "select_set condition ENET_SOCKET_WAIT_RECEIVE fd = Some R"
    using assms(1-4) by (simp_all add: select_set_def FD_SET_def)
  show ?thesis using assms q by (cases r) (auto simp: wait_select_def wait_failed_def sets FD_ISSET_def)
qed

lemma wait_select_outside:
  assumes "fd < 0 \<or> FD_SETSIZE \<le> fd" "asks condition ENET_SOCKET_WAIT_SEND \<or> asks condition ENET_SOCKET_WAIT_RECEIVE"
  shows "wait_select k fd condition timeout s = None"
  using assms by (auto simp: wait_select_def select_set_def FD_SET_def split: option.split)

text \<open>\<^verbatim>\<open>enet_host_service\<close> waits for \<^verbatim>\<open>ENET_TIME_DIFFERENCE (timeout, serviceTime)\<close>.  When a day or more is
  left, the difference is the negative of it, and \<^verbatim>\<open>poll\<close> is called with a negative time, for which it
  waits without end.\<close>

lemma long_wait_negative:
  assumes "86400000 \<le> timeout - now" "uint (timeout - now) \<le> 2 ^ 31"
  shows "\<not> ENET_TIME_GREATER_EQUAL now timeout" "sint (ENET_TIME_DIFFERENCE timeout now) < 0"
proof -
  define left where "left = timeout - now"
  have left: "86400000 \<le> uint left" "uint left \<le> 2 ^ 31" using assms by (simp_all add: left_def word_le_def)
  have "uint (- left) = 2 ^ 32 - uint left"
    using left by (simp add: uint_word_ariths zmod_zminus1_eq_if)
  then have neg: "2 ^ 31 \<le> uint (- left)" using left by simp
  have now: "now - timeout = - left" by (simp add: left_def)
  show "sint (ENET_TIME_DIFFERENCE timeout now) < 0"
    using assms(1) neg wait_times(3) by (simp add: ENET_TIME_DIFFERENCE_def now)
  have "86400000 \<le> - left" using neg by (simp add: word_le_def)
  then show "\<not> ENET_TIME_GREATER_EQUAL now timeout"
    by (simp add: ENET_TIME_GREATER_EQUAL_def ENET_TIME_LESS_def now)
qed

section \<open>A host's socket\<close>

text \<open>The documents of \<^verbatim>\<open>recvmsg\<close>: -1, or the number of bytes it has put into the buffer.\<close>

definition recvmsg_documented :: "nat \<Rightarrow> recvmsg_reply \<Rightarrow> bool" where
  "recvmsg_documented room r \<longleftrightarrow>
     rm_result r = -1 \<or> rm_result r = int (length (rm_bytes r)) \<and> length (rm_bytes r) \<le> room"

interpretation unix_source: datagram_source "unix_socket_receive b k fd True [ENET_PROTOCOL_MAXIMUM_MTU]"
    "\<lambda>s. recvmsg_documented ENET_PROTOCOL_MAXIMUM_MTU (fst (sys_recvmsg k fd [ENET_PROTOCOL_MAXIMUM_MTU] s))"
  for b k fd
  by unfold_locales
    (auto simp: unix_socket_receive_def unix_receive_result_def recvmsg_documented_def split: prod.split_asm if_split_asm)

text \<open>The documents of the calls that open and close descriptors.\<close>

definition posix_keeps :: "'s posix \<Rightarrow> ('s \<Rightarrow> int set) \<Rightarrow> bool" where
  "posix_keeps k opened \<longleftrightarrow>
     (\<forall>kind s fd s'. sys_socket k kind s = (fd, s') \<longrightarrow>
        (if fd = -1 then opened s' = opened s else fd \<notin> opened s \<and> opened s' = insert fd (opened s))) \<and>
     (\<forall>fd s. opened (sys_close k fd s) = opened s - {fd}) \<and>
     (\<forall>fd sin s. opened (snd (sys_bind k fd sin s)) = opened s) \<and>
     (\<forall>fd s. opened (snd (sys_F_GETFL k fd s)) = opened s) \<and>
     (\<forall>fd flags s. opened (snd (sys_F_SETFL k fd flags s)) = opened s) \<and>
     (\<forall>fd v s. opened (snd (sys_FIONBIO k fd v s)) = opened s) \<and>
     (\<forall>fd option v s. opened (snd (sys_setsockopt k fd option v s)) = opened s) \<and>
     (\<forall>fd s. opened (snd (sys_getsockname k fd s)) = opened s) \<and>
     (\<forall>s. opened (snd (sys_time k s)) = opened s)"

lemma unix_layer_keeps:
  assumes "posix_keeps k opened"
  shows "keeps_sockets (unix_layer b k) opened"
proof -
  have option: "opened (snd (unix_socket_set_option b k fd option v s)) = opened s" for fd option v s
    using assms by (cases option)
      (auto simp: posix_keeps_def unix_socket_set_option_def unix_set_option_def set_nonblock_def split_beta)
  show ?thesis
    using assms unfolding keeps_sockets_def
    by (auto simp: option unix_layer_def posix_keeps_def unix_socket_create_def unix_socket_destroy_def unix_socket_bind_def
        unix_socket_get_address_def unix_host_random_seed_def split_beta)
qed

section \<open>A small system\<close>

text \<open>A system for examples: a clock that a call moves on by 5 milliseconds, a list of open descriptors, names
  that are numbers, and a datagram of three bytes that is always waiting.\<close>

definition fresh_descriptor :: "int list \<Rightarrow> int" where
  "fresh_descriptor fds = fold max fds 2 + 1"

definition small_system :: "(int \<times> int list) posix" where
  "small_system = \<lparr>
     sys_gettimeofday = (\<lambda>(t, fds). (\<lparr>tv_sec = t div 1000, tv_usec = t mod 1000 * 1000\<rparr>, (t + 5, fds))),
     sys_time = (\<lambda>(t, fds). (t div 1000, (t, fds))),
     sys_getaddrinfo = (\<lambda>name s. case undotted name of None \<Rightarrow> ((EAI_NONAME, []), s)
        | Some host \<Rightarrow> ((0, [\<lparr>ai_family = AF_INET, ai_addr = Some \<lparr>sin_port = 0, sin_addr = host\<rparr>, ai_addrlen = 16\<rparr>]), s)),
     sys_gethostbyname = (\<lambda>name s. (None, s)),
     sys_getnameinfo = (\<lambda>sin room s. ((-3, []), s)),
     sys_gethostbyaddr = (\<lambda>host s. (None, s)),
     sys_inet_aton = undotted,
     sys_socket = (\<lambda>kind (t, fds). (fresh_descriptor fds, (t, fresh_descriptor fds # fds))),
     sys_bind = (\<lambda>fd sin s. (0, s)),
     sys_getsockname = (\<lambda>fd s. ((0, \<lparr>sin_port = 0, sin_addr = 0\<rparr>), s)),
     sys_listen = (\<lambda>fd n s. (0, s)),
     sys_SOMAXCONN = 4096,
     sys_F_GETFL = (\<lambda>fd s. (2, s)),
     sys_F_SETFL = (\<lambda>fd flags s. (0, s)),
     sys_O_NONBLOCK = 0x800,
     sys_FIONBIO = (\<lambda>fd v s. (0, s)),
     sys_setsockopt = (\<lambda>fd option v s. (0, s)),
     sys_SO_ERROR = (\<lambda>fd s. ((0, 0), s)),
     sys_connect = (\<lambda>fd sin s. ((-1, EINPROGRESS), s)),
     sys_accept = (\<lambda>fd s. ((-1, \<lparr>sin_port = 0, sin_addr = 0\<rparr>), s)),
     sys_shutdown = (\<lambda>fd how s. (0, s)),
     sys_close = (\<lambda>fd (t, fds). (t, removeAll fd fds)),
     sys_sendmsg = (\<lambda>fd sin buffers s. ((int (length (concat buffers)), EINTR), s)),
     sys_recvmsg = (\<lambda>fd sizes s. (\<lparr>rm_result = 3, rm_errno = EINTR, rm_truncated = False,
        rm_name = \<lparr>sin_port = 0x6107, sin_addr = 0x0100007F\<rparr>, rm_bytes = [1, 2, 3]\<rparr>, s)),
     sys_poll = (\<lambda>fd events time s. ((1, EINTR, events AND POLLIN), s)),
     sys_select = (\<lambda>n R W time s. ((1, EINTR, R, {}), s))\<rparr>"

lemma small_system_keeps: "posix_keeps small_system (set \<circ> snd)"
proof -
  have "fd < fresh_descriptor fds" if "fd \<in> set fds" for fd fds
  proof -
    have "x \<le> fold max fds x" "\<forall>fd\<in>set fds. fd \<le> fold max fds x" for x
      by (induction fds arbitrary: x) (auto, meson max.boundedE, (meson max.boundedE)+)
    with that show ?thesis by (auto simp: fresh_descriptor_def)
  qed
  then have new: "fresh_descriptor fds \<notin> set fds" for fds by (metis less_irrefl)
  have "2 < fresh_descriptor fds" for fds
  proof -
    have "x \<le> fold max fds x" for x :: int by (induction fds arbitrary: x) (auto, meson max.boundedE)
    from this [of 2] show ?thesis by (simp add: fresh_descriptor_def)
  qed
  then have "-1 < fresh_descriptor fds" for fds by (rule less_trans [rotated]) simp
  then have "fresh_descriptor fds \<noteq> -1" for fds by (metis less_irrefl)
  with new show ?thesis by (auto simp: posix_keeps_def small_system_def)
qed

lemma small_system_numeric: "numeric_names small_system"
  by (simp add: numeric_names_def small_system_def)

section \<open>Properties\<close>

text \<open>After \<open>enet_time_set\<close> the time counts on from the given one by the milliseconds the system
  clock has moved, modulo \<open>2 ^ 32\<close>, across every wrap of the clock and of the base.  While less than a day has
  passed, the comparisons of times see it as later and their difference is the time that has passed.\<close>

theorem unix_clock:
  assumes "unix_time_set k new s0 = (timeBase, s1)" "unix_time_get k timeBase s2 = (now, s3)"
    "d = milliseconds (fst (sys_gettimeofday k s2)) - milliseconds (fst (sys_gettimeofday k s0))"
  shows "now = new + word_of_int d \<and>
    (0 \<le> d \<and> d < 86400000 \<longrightarrow> ENET_TIME_GREATER_EQUAL now new \<and> uint (ENET_TIME_DIFFERENCE now new) = d)"
proof -
  have "now = new + word_of_int d"
    using assms by (auto simp: unix_time_set_def unix_time_get_def split: prod.split_asm)
  with time_passed [of d new] show ?thesis by simp
qed

lemma unix_clock_witness:
  "unix_time_set small_system 1000 (123456, []) = (word_of_int (123456 - 1000), (123461, [])) \<and>
   ENET_TIME_GREATER_EQUAL (1000 + word_of_int 544) 1000 \<and> uint (ENET_TIME_DIFFERENCE (1000 + word_of_int 544) 1000) = 544"
proof -
  have set: "unix_time_set small_system 1000 (123456, []) = (word_of_int (123456 - 1000), (123461, []))"
    by (simp add: unix_time_set_def small_system_def milliseconds_def)
  have get: "unix_time_get small_system (word_of_int (123456 - 1000)) (124000, []) = (1544, (124005, []))"
    by (simp add: unix_time_get_def small_system_def milliseconds_def)
  have "544 = milliseconds (fst (sys_gettimeofday small_system (124000, []))) -
      milliseconds (fst (sys_gettimeofday small_system (123456, [])))"
    by (simp add: small_system_def milliseconds_def)
  from unix_clock [OF set get this] set show ?thesis by simp
qed

text \<open>An address printed by \<open>enet_address_get_host_ip\<close> and read back by \<open>enet_address_set_host\<close> is
  the same address, in every build and whichever of the functions of the system they use.  Printing succeeds
  exactly when text and NUL fit, which 16 bytes always do, and otherwise writes nothing.\<close>

theorem address_text_roundtrip:
  assumes "numeric_names k" "unix_address_get_host_ip b a nameLength = (r, written)"
  shows "(r = 0 \<longleftrightarrow> length (dotted (addr_host a)) < nameLength) \<and> (nameLength \<ge> 16 \<longrightarrow> r = 0) \<and>
    (case written of
       None \<Rightarrow> r = -1
     | Some buffer \<Rightarrow> r = 0 \<and> length buffer \<le> nameLength \<and>
         fst (unix_address_set_host b' k a' (c_string buffer) s) = (0, a'\<lparr>addr_host := addr_host a\<rparr>))"
  using assms(2) length_dotted [of "addr_host a"] set_host_numeric [OF assms(1), of "dotted (addr_host a)"]
  by (auto simp: get_host_ip_text c_string_dotted split: if_split_asm)

lemma address_text_roundtrip_witness:
  "unix_address_get_host_ip x11_build \<lparr>addr_host = 0x0100007F, addr_port = 1\<rparr> 64 = (0, Some (''127.0.0.1'' @ [NUL])) \<and>
   fst (unix_address_set_host android_build small_system \<lparr>addr_host = 0, addr_port = 2\<rparr>
     (c_string (''127.0.0.1'' @ [NUL])) (0, [])) = (0, \<lparr>addr_host = 0x0100007F, addr_port = 2\<rparr>)"
proof -
  have "dotted 0x0100007F = ''127.0.0.1''" by code_simp
  then have p: "unix_address_get_host_ip x11_build \<lparr>addr_host = 0x0100007F, addr_port = 1\<rparr> 64 = (0, Some (''127.0.0.1'' @ [NUL]))"
    by (simp add: get_host_ip_text)
  from address_text_roundtrip [OF small_system_numeric p, of android_build "\<lparr>addr_host = 0, addr_port = 2\<rparr>" "(0, [])"] p
  show ?thesis by simp
qed

text \<open>Property C34.  \<open>enet_socket_wait\<close> does the same with \<^verbatim>\<open>poll\<close> and with \<^verbatim>\<open>select\<close>: it answers as
  \<open>wait_answer\<close> says for what has become of the socket, with no condition that was not asked for, an
  interrupt only to who asked for it, and the condition unchanged after a failure.  Both hand the system
  the same time while it fits into an \<^verbatim>\<open>int\<close>.  A build with \<^verbatim>\<open>select\<close> and a descriptor of 1024 or more
  writes outside of the set.\<close>

theorem unix_wait_meets_spec:
  assumes "HAS_POLL b \<Longrightarrow> poll_reports condition (fst (sys_poll k fd (wait_events condition) (sint timeout) s)) ready"
    "\<not> HAS_POLL b \<Longrightarrow> select_reports fd readSet writeSet
       (fst (sys_select k (fd + 1) readSet writeSet (timeval_of timeout) s)) ready"
    "readSet = (if asks condition ENET_SOCKET_WAIT_RECEIVE then {fd} else {})"
    "writeSet = (if asks condition ENET_SOCKET_WAIT_SEND then {fd} else {})"
    "asks condition ENET_SOCKET_WAIT_SEND \<or> asks condition ENET_SOCKET_WAIT_RECEIVE"
  shows "map_option fst (unix_socket_wait b k fd condition timeout s) =
      (if HAS_POLL b \<or> 0 \<le> fd \<and> fd < FD_SETSIZE then Some (wait_answer True condition ready) else None) \<and>
    (uint timeout < 2 ^ 31 \<longrightarrow>
      sint timeout = tv_sec (timeval_of timeout) * 1000 + tv_usec (timeval_of timeout) div 1000)"
proof -
  have "map_option fst (unix_socket_wait b k fd condition timeout s) =
      (if HAS_POLL b \<or> 0 \<le> fd \<and> fd < FD_SETSIZE then Some (wait_answer True condition ready) else None)"
  proof (cases "HAS_POLL b")
    case True
    then show ?thesis using wait_poll_answer [OF assms(1)] by (simp add: unix_socket_wait_def)
  next
    case False
    then show ?thesis
      using wait_select_answer [OF _ _ assms(3,4) assms(2)] wait_select_outside [OF _ assms(5), of fd k timeout s]
      by (simp add: unix_socket_wait_def not_le not_less)
  qed
  then show ?thesis using wait_times [of timeout] by simp
qed

lemma unix_wait_meets_spec_witness:
  "map_option fst (unix_socket_wait x11_build small_system 3 (ENET_SOCKET_WAIT_RECEIVE OR ENET_SOCKET_WAIT_INTERRUPT) 10 (0, [3])) =
     Some (0, ENET_SOCKET_WAIT_RECEIVE) \<and>
   map_option fst (unix_socket_wait apple_build small_system 3 (ENET_SOCKET_WAIT_RECEIVE OR ENET_SOCKET_WAIT_INTERRUPT) 10 (0, [3])) =
     Some (0, ENET_SOCKET_WAIT_RECEIVE)"
proof -
  let ?c = "ENET_SOCKET_WAIT_RECEIVE OR ENET_SOCKET_WAIT_INTERRUPT" and ?s = "(0 :: int, [3 :: int])"
  have a: "asks ?c ENET_SOCKET_WAIT_RECEIVE" "\<not> asks ?c ENET_SOCKET_WAIT_SEND" by (simp_all add: asks_def)
  have p: "poll_reports ?c (fst (sys_poll small_system 3 (wait_events ?c) (sint (10 :: u32)) ?s)) (Ready False True)"
    by (simp add: small_system_def wait_events_def a)
  have q: "select_reports 3 {3} {} (fst (sys_select small_system (3 + 1) {3} {} (timeval_of 10) ?s)) (Ready False True)"
    by (simp add: small_system_def)
  from unix_wait_meets_spec [of _ ?c small_system 3 10 ?s "Ready False True" "{3}" "{}"] p q a
  have "map_option fst (unix_socket_wait b small_system 3 ?c 10 ?s) = Some (wait_answer True ?c (Ready False True))" for b
    by simp
  then show ?thesis using a by (simp add: ready_condition_def)
qed

text \<open>Property C35.  What a host receives over a Unix socket is what \<open>enet_socket_receive\<close> of the host's model
  describes: the result is the same, a datagram that is not empty comes with the address of its sender and
  all of its bytes, which fit into the buffer, and peers and packets are untouched.  A datagram that the
  system has cut off is an error, if the build can see that.\<close>

theorem unix_datagram_received:
  assumes "recvmsg_documented ENET_PROTOCOL_MAXIMUM_MTU (fst (sys_recvmsg k fd [ENET_PROTOCOL_MAXIMUM_MTU] s))"
    "w_received (h_world h) (w_receiveCalls (h_world h)) =
       received_as (fst (unix_socket_receive b k fd True [ENET_PROTOCOL_MAXIMUM_MTU] s))"
    "unix_socket_receive b k fd True [ENET_PROTOCOL_MAXIMUM_MTU] s = ((n, address, bytes), s')"
    "enet_socket_receive h = (m, h')"
  shows "m = n \<and>
    (0 < n \<longrightarrow> Some (h_receivedAddress h') = address \<and> take (nat n) (h_receivedData h') = bytes \<and>
       length bytes \<le> ENET_PROTOCOL_MAXIMUM_MTU \<and>
       h_receivedAddress h' = address_of (rm_name (fst (sys_recvmsg k fd [ENET_PROTOCOL_MAXIMUM_MTU] s)))) \<and>
    (HAS_MSGHDR_FLAGS b \<and> rm_truncated (fst (sys_recvmsg k fd [ENET_PROTOCOL_MAXIMUM_MTU] s)) \<longrightarrow> m \<le> 0) \<and>
    h_peers h' = h_peers h \<and> h_heap h' = h_heap h"
  using unix_source.host_receives [OF assms] assms(1,3)
  by (auto simp: unix_socket_receive_def unix_receive_result_def recvmsg_documented_def split: prod.split_asm if_split_asm)

lemma unix_datagram_received_witness:
  "unix_socket_receive x11_build small_system 3 True [ENET_PROTOCOL_MAXIMUM_MTU] (0, [3]) =
     ((3, Some \<lparr>addr_host = 0x0100007F, addr_port = 1889\<rparr>, [1, 2, 3]), (0, [3])) \<and>
   fst (enet_socket_receive ((peer_example ENET_PEER_STATE_DISCONNECTED)\<lparr>h_world := quiet_world\<lparr>w_received :=
     (\<lambda>_. ReceiveData \<lparr>addr_host = 0x0100007F, addr_port = 1889\<rparr> [1, 2, 3])\<rparr>\<rparr>)) = 3"
proof -
  let ?a = "\<lparr>addr_host = 0x0100007F, addr_port = 1889\<rparr>"
  let ?h = "(peer_example ENET_PEER_STATE_DISCONNECTED)\<lparr>h_world := quiet_world\<lparr>w_received := (\<lambda>_. ReceiveData ?a [1, 2, 3])\<rparr>\<rparr>"
  have port: "ENET_NET_TO_HOST_16 0x6107 = 1889" by (simp add: ENET_NET_TO_HOST_16_def)
  have r: "unix_socket_receive x11_build small_system 3 True [ENET_PROTOCOL_MAXIMUM_MTU] (0, [3]) = ((3, Some ?a, [1, 2, 3]), (0, [3]))"
    by (simp add: unix_socket_receive_def unix_receive_result_def small_system_def address_of_def port)
  have d: "recvmsg_documented ENET_PROTOCOL_MAXIMUM_MTU
      (fst (sys_recvmsg small_system 3 [ENET_PROTOCOL_MAXIMUM_MTU] (0, [3])))"
    by (simp add: recvmsg_documented_def small_system_def)
  have w: "w_received (h_world ?h) (w_receiveCalls (h_world ?h)) =
      received_as (fst (unix_socket_receive x11_build small_system 3 True [ENET_PROTOCOL_MAXIMUM_MTU] (0, [3])))"
    by (simp add: r received_as_def)
  obtain m h' where m: "enet_socket_receive ?h = (m, h')" by force
  from unix_datagram_received [OF d w r m] r m show ?thesis by simp
qed

text \<open>Property C33.  A host owns exactly one socket: when \<open>enet_host_create\<close> succeeds, one descriptor more is
  open than before, and it is the host's; when it fails, at whichever step, none is left open; and
  \<open>enet_host_destroy\<close> closes what \<open>enet_host_create\<close> has opened.\<close>

theorem unix_host_socket:
  assumes "posix_keeps k opened"
    "host_create_on (unix_layer b k) pointer hp w address peerCount channelLimit inc out s = ((host, hp'), s')"
  shows "(case host of None \<Rightarrow> opened s' = opened s
      | Some (fd, h) \<Rightarrow> fd \<noteq> ENET_SOCKET_NULL \<and> fd \<notin> opened s \<and> opened s' = insert fd (opened s)) \<and>
    opened (snd (host_destroy_on (unix_layer b k) host hp' s')) = opened s"
  using host_create_on_sockets [OF unix_layer_keeps [OF assms(1)] assms(2)]
    keeps_socketsD(3) [OF unix_layer_keeps [OF assms(1), of b]]
  by (auto simp: host_destroy_on_def split: option.splits)

lemma unix_host_socket_witness:
  "\<exists>host hp' s'. host_create_on (unix_layer x11_build small_system) 0 fresh_heap quiet_world None 2 1 0 0 (0, [3, 5]) =
      ((host, hp'), s') \<and>
    set (snd (snd (host_destroy_on (unix_layer x11_build small_system) host hp' s'))) = {3, 5}"
proof -
  obtain host hp' s' where c: "host_create_on (unix_layer x11_build small_system) 0 fresh_heap quiet_world None 2 1 0 0
      (0, [3, 5]) = ((host, hp'), s')"
    by (metis surj_pair)
  from unix_host_socket [OF small_system_keeps c]
  have "set (snd (snd (host_destroy_on (unix_layer x11_build small_system) host hp' s'))) = {3, 5}" by simp
  with c show ?thesis by blast
qed

text \<open>When \<open>enet_address_get_host\<close> reports success, the buffer holds a terminated name, with one
  exception: if \<^verbatim>\<open>getnameinfo\<close> fails with any error but \<^verbatim>\<open>EAI_NONAME\<close>, the function returns 0 although it
  has written nothing.\<close>

theorem unix_get_host_result:
  assumes "unix_address_get_host b k a nameLength s = ((0, written), s')" "0 < nameLength"
    "err = fst (fst (sys_getnameinfo k (sockaddr_of a) nameLength s))"
  shows "(written = None \<longleftrightarrow> HAS_GETNAMEINFO b \<and> err \<noteq> 0 \<and> err \<noteq> EAI_NONAME) \<and>
    (case written of None \<Rightarrow> True | Some buffer \<Rightarrow> NUL \<in> set (take nameLength buffer))"
proof -
  have copied: "copy_name name nameLength = (0, w) \<Longrightarrow> w = Some (name @ [NUL]) \<and> length name < nameLength" for name w
    by (auto simp: copy_name_def split: if_split_asm)
  have ip: "unix_address_get_host_ip b a nameLength = (0, w) \<Longrightarrow>
      w = Some (dotted (addr_host a) @ [NUL]) \<and> length (dotted (addr_host a)) < nameLength" for w
    by (auto simp: get_host_ip_text split: if_split_asm)
  show ?thesis
    using assms ip copied
    by (fastforce simp: unix_address_get_host_def split: if_split_asm prod.split_asm option.split_asm)
qed

lemma unix_get_host_result_witness:
  "unix_address_get_host x11_build small_system \<lparr>addr_host = 1, addr_port = 2\<rparr> 64 (0, []) = ((0, None), (0, [])) \<and>
   fst (fst (sys_getnameinfo small_system (sockaddr_of \<lparr>addr_host = 1, addr_port = 2\<rparr>) 64 (0, []))) \<notin> {0, EAI_NONAME}"
proof -
  have g: "unix_address_get_host x11_build small_system \<lparr>addr_host = 1, addr_port = 2\<rparr> 64 (0, []) = ((0, None), (0, []))"
    by (simp add: unix_address_get_host_def x11_build_def small_system_def)
  from unix_get_host_result [OF g _ refl] g show ?thesis by simp
qed

end
