(* ===== verification/EnetWin32.thy ===== *)
theory EnetWin32
  imports EnetSocket
begin

text \<open>
  The layer on Windows (\<^verbatim>\<open>enet/win32.cpp\<close>).  The calls of Winsock and of the multimedia timer are the
  functions of the record \<open>winsock\<close>; a definition carries the name of its function with \<open>win32_\<close> for
  \<^verbatim>\<open>enet_\<close>.  \<^verbatim>\<open>INVALID_SOCKET\<close> and \<^verbatim>\<open>SOCKET_ERROR\<close> are -1.  A set of descriptors is an array of sockets that
  has room for the one the code puts into it.
\<close>

section \<open>The system\<close>

datatype wsa_error = WSAEWOULDBLOCK | WSAECONNRESET | other_wsa_error int

abbreviation (input) SOCKET_ERROR :: int where "SOCKET_ERROR \<equiv> -1"
abbreviation (input) INVALID_SOCKET :: int where "INVALID_SOCKET \<equiv> -1"
abbreviation (input) INADDR_NONE :: u32 where "INADDR_NONE \<equiv> 0xFFFFFFFF"

text \<open>What \<^verbatim>\<open>WSARecvFrom\<close> answers: result, error, length, whether \<^verbatim>\<open>MSG_PARTIAL\<close> is set, the name and the bytes.\<close>

record wsa_reply =
  wr_result :: int
  wr_error :: wsa_error
  wr_length :: u32
  wr_partial :: bool
  wr_name :: sockaddr_in
  wr_bytes :: "u8 list"

record 's winsock =
  ws_WSAStartup :: "u16 \<Rightarrow> 's \<Rightarrow> (int \<times> u16) \<times> 's"
  ws_WSACleanup :: "'s \<Rightarrow> 's"
  ws_timeBeginPeriod :: "'s \<Rightarrow> 's"
  ws_timeEndPeriod :: "'s \<Rightarrow> 's"
  ws_timeGetTime :: "'s \<Rightarrow> u32 \<times> 's"
  ws_gethostbyname :: "string \<Rightarrow> 's \<Rightarrow> hostent option \<times> 's"
  ws_gethostbyaddr :: "u32 \<Rightarrow> 's \<Rightarrow> hostent option \<times> 's"
  ws_inet_addr :: "string \<Rightarrow> u32"
  ws_socket :: "socket_kind \<Rightarrow> 's \<Rightarrow> int \<times> 's"
  ws_bind :: "int \<Rightarrow> sockaddr_in \<Rightarrow> 's \<Rightarrow> int \<times> 's"
  ws_getsockname :: "int \<Rightarrow> 's \<Rightarrow> (int \<times> sockaddr_in) \<times> 's"
  ws_listen :: "int \<Rightarrow> int \<Rightarrow> 's \<Rightarrow> int \<times> 's"
  ws_SOMAXCONN :: int
  ws_FIONBIO :: "int \<Rightarrow> u32 \<Rightarrow> 's \<Rightarrow> int \<times> 's"
  ws_setsockopt :: "int \<Rightarrow> sockopt \<Rightarrow> int \<Rightarrow> 's \<Rightarrow> int \<times> 's"
  ws_SO_ERROR :: "int \<Rightarrow> 's \<Rightarrow> (int \<times> int) \<times> 's"
  ws_connect :: "int \<Rightarrow> sockaddr_in \<Rightarrow> 's \<Rightarrow> (int \<times> wsa_error) \<times> 's"
  ws_accept :: "int \<Rightarrow> 's \<Rightarrow> (int \<times> sockaddr_in) \<times> 's"
  ws_shutdown :: "int \<Rightarrow> int \<Rightarrow> 's \<Rightarrow> int \<times> 's"
  ws_closesocket :: "int \<Rightarrow> 's \<Rightarrow> 's"
  ws_WSASendTo :: "int \<Rightarrow> sockaddr_in option \<Rightarrow> u8 list list \<Rightarrow> 's \<Rightarrow> (int \<times> wsa_error \<times> u32) \<times> 's"
  ws_WSARecvFrom :: "int \<Rightarrow> nat list \<Rightarrow> 's \<Rightarrow> wsa_reply \<times> 's"
  ws_select :: "int set \<Rightarrow> int set \<Rightarrow> timeval \<Rightarrow> 's \<Rightarrow> (int \<times> int set \<times> int set) \<times> 's"

section \<open>Initialisation and time\<close>

text \<open>\<^verbatim>\<open>MAKEWORD\<close>, \<^verbatim>\<open>LOBYTE\<close> and \<^verbatim>\<open>HIBYTE\<close>.\<close>

definition MAKEWORD :: "u8 \<Rightarrow> u8 \<Rightarrow> u16" where
  "MAKEWORD low high = ucast low OR push_bit 8 (ucast high)"

definition LOBYTE :: "u16 \<Rightarrow> u8" where "LOBYTE w = ucast w"
definition HIBYTE :: "u16 \<Rightarrow> u8" where "HIBYTE w = ucast (drop_bit 8 w)"

definition win32_initialize :: "'s winsock \<Rightarrow> 's \<Rightarrow> int \<times> 's" where
  "win32_initialize k s =
     (case ws_WSAStartup k (MAKEWORD 1 1) s of ((r, version), s) \<Rightarrow>
        if r \<noteq> 0 then (-1, s)
        else if LOBYTE version \<noteq> 1 \<or> HIBYTE version \<noteq> 1 then (-1, ws_WSACleanup k s)
        else (0, ws_timeBeginPeriod k s))"

definition win32_deinitialize :: "'s winsock \<Rightarrow> 's \<Rightarrow> 's" where
  "win32_deinitialize k s = ws_WSACleanup k (ws_timeEndPeriod k s)"

definition win32_host_random_seed :: "'s winsock \<Rightarrow> 's \<Rightarrow> u32 \<times> 's" where
  "win32_host_random_seed k = ws_timeGetTime k"

definition win32_time_get :: "'s winsock \<Rightarrow> u32 \<Rightarrow> 's \<Rightarrow> u32 \<times> 's" where
  "win32_time_get k timeBase s = (case ws_timeGetTime k s of (t, s) \<Rightarrow> (t - timeBase, s))"

definition win32_time_set :: "'s winsock \<Rightarrow> u32 \<Rightarrow> 's \<Rightarrow> u32 \<times> 's" where
  "win32_time_set k newTimeBase s = (case ws_timeGetTime k s of (t, s) \<Rightarrow> (t - newTimeBase, s))"

section \<open>Names\<close>

definition win32_address_set_host :: "'s winsock \<Rightarrow> ENetAddress \<Rightarrow> string \<Rightarrow> 's \<Rightarrow> (int \<times> ENetAddress) \<times> 's" where
  "win32_address_set_host k address name s =
     (case ws_gethostbyname k name s of (entry, s) \<Rightarrow>
        let numeric = (let host = ws_inet_addr k name
                       in if host = INADDR_NONE then (-1, address) else (0, address\<lparr>addr_host := host\<rparr>))
        in case entry of
             None \<Rightarrow> (numeric, s)
           | Some e \<Rightarrow> if h_addrtype e \<noteq> AF_INET then (numeric, s) else ((0, address\<lparr>addr_host := h_addr e\<rparr>), s))"

definition win32_address_get_host_ip :: "ENetAddress \<Rightarrow> nat \<Rightarrow> int \<times> string option" where
  "win32_address_get_host_ip address = copy_name (dotted (addr_host address))"

definition win32_address_get_host :: "'s winsock \<Rightarrow> ENetAddress \<Rightarrow> nat \<Rightarrow> 's \<Rightarrow> (int \<times> string option) \<times> 's" where
  "win32_address_get_host k address nameLength s =
     (case ws_gethostbyaddr k (addr_host address) s of (entry, s) \<Rightarrow>
        (case entry of
           None \<Rightarrow> (win32_address_get_host_ip address nameLength, s)
         | Some e \<Rightarrow> (copy_name (h_name e) nameLength, s)))"

section \<open>Sockets\<close>

definition as_result :: "int \<times> 's \<Rightarrow> int \<times> 's" where
  "as_result = (\<lambda>(r, s). (if r = SOCKET_ERROR then -1 else 0, s))"

definition win32_socket_bind :: "'s winsock \<Rightarrow> int \<Rightarrow> ENetAddress option \<Rightarrow> 's \<Rightarrow> int \<times> 's" where
  "win32_socket_bind k socket address s = as_result (ws_bind k socket (bind_sockaddr address) s)"

definition win32_socket_get_address :: "'s winsock \<Rightarrow> int \<Rightarrow> 's \<Rightarrow> (int \<times> ENetAddress option) \<times> 's" where
  "win32_socket_get_address k socket s =
     (case ws_getsockname k socket s of ((r, sin), s) \<Rightarrow>
        if r = -1 then ((-1, None), s) else ((0, Some (address_of sin)), s))"

definition win32_socket_listen :: "'s winsock \<Rightarrow> int \<Rightarrow> int \<Rightarrow> 's \<Rightarrow> int \<times> 's" where
  "win32_socket_listen k socket backlog s =
     as_result (ws_listen k socket (if backlog < 0 then ws_SOMAXCONN k else backlog) s)"

definition win32_socket_create :: "'s winsock \<Rightarrow> ENetSocketType \<Rightarrow> 's \<Rightarrow> int \<times> 's" where
  "win32_socket_create k type = ws_socket k (if type = ENET_SOCKET_TYPE_DATAGRAM then SOCK_DGRAM else SOCK_STREAM)"

definition win32_socket_set_option :: "'s winsock \<Rightarrow> int \<Rightarrow> ENetSocketOption \<Rightarrow> int \<Rightarrow> 's \<Rightarrow> int \<times> 's" where
  "win32_socket_set_option k socket option value s = as_result
     (case option of
        ENET_SOCKOPT_NONBLOCK \<Rightarrow> ws_FIONBIO k socket (word_of_int value) s
      | ENET_SOCKOPT_BROADCAST \<Rightarrow> ws_setsockopt k socket SO_BROADCAST value s
      | ENET_SOCKOPT_REUSEADDR \<Rightarrow> ws_setsockopt k socket SO_REUSEADDR value s
      | ENET_SOCKOPT_RCVBUF \<Rightarrow> ws_setsockopt k socket SO_RCVBUF value s
      | ENET_SOCKOPT_SNDBUF \<Rightarrow> ws_setsockopt k socket SO_SNDBUF value s
      | ENET_SOCKOPT_RCVTIMEO \<Rightarrow> ws_setsockopt k socket SO_RCVTIMEO value s
      | ENET_SOCKOPT_SNDTIMEO \<Rightarrow> ws_setsockopt k socket SO_SNDTIMEO value s
      | ENET_SOCKOPT_NODELAY \<Rightarrow> ws_setsockopt k socket TCP_NODELAY value s
      | ENET_SOCKOPT_ERROR \<Rightarrow> (SOCKET_ERROR, s))"

definition win32_socket_get_option :: "'s winsock \<Rightarrow> int \<Rightarrow> ENetSocketOption \<Rightarrow> 's \<Rightarrow> (int \<times> int option) \<times> 's" where
  "win32_socket_get_option k socket option s =
     (if option = ENET_SOCKOPT_ERROR then
        (case ws_SO_ERROR k socket s of ((result, value), s) \<Rightarrow>
           if result = SOCKET_ERROR then ((-1, None), s) else ((0, Some value), s))
      else ((-1, None), s))"

definition win32_socket_connect :: "'s winsock \<Rightarrow> int \<Rightarrow> ENetAddress \<Rightarrow> 's \<Rightarrow> int \<times> 's" where
  "win32_socket_connect k socket address s =
     (case ws_connect k socket (sockaddr_of address) s of ((result, error), s) \<Rightarrow>
        (if result = SOCKET_ERROR \<and> error \<noteq> WSAEWOULDBLOCK then -1 else 0, s))"

definition win32_socket_accept :: "'s winsock \<Rightarrow> int \<Rightarrow> bool \<Rightarrow> 's \<Rightarrow> (int \<times> ENetAddress option) \<times> 's" where
  "win32_socket_accept k socket wanted s =
     (case ws_accept k socket s of ((result, sin), s) \<Rightarrow>
        if result = INVALID_SOCKET then ((ENET_SOCKET_NULL, None), s) else ((result, if wanted then Some (address_of sin) else None), s))"

definition win32_socket_shutdown :: "'s winsock \<Rightarrow> int \<Rightarrow> ENetSocketShutdown \<Rightarrow> 's \<Rightarrow> int \<times> 's" where
  "win32_socket_shutdown k socket how s = as_result (ws_shutdown k socket (shutdown_number how) s)"

definition win32_socket_destroy :: "'s winsock \<Rightarrow> int \<Rightarrow> 's \<Rightarrow> 's" where
  "win32_socket_destroy k socket s = (if socket \<noteq> INVALID_SOCKET then ws_closesocket k socket s else s)"

section \<open>Datagrams\<close>

text \<open>Buffers and address of a received datagram are given as on Unix.\<close>

definition win32_socket_send :: "'s winsock \<Rightarrow> int \<Rightarrow> ENetAddress option \<Rightarrow> u8 list list \<Rightarrow> 's \<Rightarrow> int \<times> 's" where
  "win32_socket_send k socket address buffers s =
     (case ws_WSASendTo k socket (map_option sockaddr_of address) buffers s of ((r, error, sentLength), s) \<Rightarrow>
        (if r = SOCKET_ERROR then (if error = WSAEWOULDBLOCK then 0 else -1) else sint sentLength, s))"

definition win32_receive_result :: "bool \<Rightarrow> wsa_reply \<Rightarrow> int \<times> ENetAddress option \<times> u8 list" where
  "win32_receive_result wanted r =
     (if wr_result r = SOCKET_ERROR then
        (if wr_error r = WSAEWOULDBLOCK \<or> wr_error r = WSAECONNRESET then 0 else -1, None, [])
      else if wr_partial r then (-1, None, wr_bytes r)
      else (sint (wr_length r), if wanted then Some (address_of (wr_name r)) else None, wr_bytes r))"

definition win32_socket_receive ::
    "'s winsock \<Rightarrow> int \<Rightarrow> bool \<Rightarrow> nat list \<Rightarrow> 's \<Rightarrow> (int \<times> ENetAddress option \<times> u8 list) \<times> 's" where
  "win32_socket_receive k socket wanted sizes s =
     (case ws_WSARecvFrom k socket sizes s of (r, s) \<Rightarrow> (win32_receive_result wanted r, s))"

section \<open>Waiting\<close>

definition win32_socketset_select ::
    "'s winsock \<Rightarrow> int set \<Rightarrow> int set \<Rightarrow> u32 \<Rightarrow> 's \<Rightarrow> (int \<times> int set \<times> int set) \<times> 's" where
  "win32_socketset_select k readSet writeSet timeout = ws_select k readSet writeSet (timeval_of timeout)"

definition win32_socket_wait :: "'s winsock \<Rightarrow> int \<Rightarrow> u32 \<Rightarrow> u32 \<Rightarrow> 's \<Rightarrow> (int \<times> u32) \<times> 's" where
  "win32_socket_wait k socket condition timeout s =
     (let writeSet = (if asks condition ENET_SOCKET_WAIT_SEND then {socket} else {});
          readSet = (if asks condition ENET_SOCKET_WAIT_RECEIVE then {socket} else {})
      in case ws_select k readSet writeSet (timeval_of timeout) s of ((selectCount, readSet, writeSet), s) \<Rightarrow>
           if selectCount < 0 then ((-1, condition), s)
           else if selectCount = 0 then ((0, ENET_SOCKET_WAIT_NONE), s)
           else ((0, ready_condition (socket \<in> writeSet) (socket \<in> readSet)), s))"

definition win32_layer :: "'s winsock \<Rightarrow> 's socket_layer" where
  "win32_layer k = \<lparr>sl_create = win32_socket_create k, sl_bind = win32_socket_bind k,
     sl_set_option = win32_socket_set_option k, sl_get_address = win32_socket_get_address k,
     sl_destroy = win32_socket_destroy k, sl_random_seed = win32_host_random_seed k\<rparr>"

section \<open>What the layer promises\<close>

text \<open>The documents of \<^verbatim>\<open>WSARecvFrom\<close>: an error, or the number of bytes in the buffer; \<^verbatim>\<open>select\<close> and the
  calls that open and close sockets.\<close>

definition wsa_documented :: "nat \<Rightarrow> wsa_reply \<Rightarrow> bool" where
  "wsa_documented room r \<longleftrightarrow>
     wr_result r = SOCKET_ERROR \<or> uint (wr_length r) = int (length (wr_bytes r)) \<and> length (wr_bytes r) \<le> room"

interpretation win32_source: datagram_source "win32_socket_receive k fd True [ENET_PROTOCOL_MAXIMUM_MTU]"
    "\<lambda>s. wsa_documented ENET_PROTOCOL_MAXIMUM_MTU (fst (ws_WSARecvFrom k fd [ENET_PROTOCOL_MAXIMUM_MTU] s))"
  for k fd
proof -
  have "sint n = uint n" if "uint n = int m" "m \<le> ENET_PROTOCOL_MAXIMUM_MTU" for n :: u32 and m
    using that by (intro wait_times(2)) simp
  then show "datagram_source (win32_socket_receive k fd True [ENET_PROTOCOL_MAXIMUM_MTU])
      (\<lambda>s. wsa_documented ENET_PROTOCOL_MAXIMUM_MTU (fst (ws_WSARecvFrom k fd [ENET_PROTOCOL_MAXIMUM_MTU] s)))"
    by unfold_locales
      (auto simp: win32_socket_receive_def win32_receive_result_def wsa_documented_def split: prod.split_asm if_split_asm)
qed

fun winsock_reports :: "int \<Rightarrow> int set \<Rightarrow> int set \<Rightarrow> int \<times> int set \<times> int set \<Rightarrow> readiness \<Rightarrow> bool" where
  "winsock_reports fd R W (n, R', W') TimedOut \<longleftrightarrow> n = 0"
| "winsock_reports fd R W (n, R', W') (Ready send receive) \<longleftrightarrow> n > 0 \<and>
     (fd \<in> W' \<longleftrightarrow> fd \<in> W \<and> send) \<and> (fd \<in> R' \<longleftrightarrow> fd \<in> R \<and> receive)"
| "winsock_reports fd R W (n, R', W') failure \<longleftrightarrow> n < 0"

lemma win32_wait_answer:
  assumes "R = (if asks condition ENET_SOCKET_WAIT_RECEIVE then {fd} else {})"
    "W = (if asks condition ENET_SOCKET_WAIT_SEND then {fd} else {})"
    "winsock_reports fd R W (fst (ws_select k R W (timeval_of timeout) s)) r"
  shows "fst (win32_socket_wait k fd condition timeout s) = wait_answer False condition r"
proof -
  obtain n R' W' s' where q: "ws_select k R W (timeval_of timeout) s = ((n, R', W'), s')"
    by (metis surj_pair)
  show ?thesis
    unfolding win32_socket_wait_def Let_def assms(1,2) [symmetric] using assms q by (cases r) auto
qed

definition winsock_keeps :: "'s winsock \<Rightarrow> ('s \<Rightarrow> int set) \<Rightarrow> bool" where
  "winsock_keeps k opened \<longleftrightarrow>
     (\<forall>kind s fd s'. ws_socket k kind s = (fd, s') \<longrightarrow>
        (if fd = INVALID_SOCKET then opened s' = opened s else fd \<notin> opened s \<and> opened s' = insert fd (opened s))) \<and>
     (\<forall>fd s. opened (ws_closesocket k fd s) = opened s - {fd}) \<and>
     (\<forall>fd sin s. opened (snd (ws_bind k fd sin s)) = opened s) \<and>
     (\<forall>fd v s. opened (snd (ws_FIONBIO k fd v s)) = opened s) \<and>
     (\<forall>fd option v s. opened (snd (ws_setsockopt k fd option v s)) = opened s) \<and>
     (\<forall>fd s. opened (snd (ws_getsockname k fd s)) = opened s) \<and>
     (\<forall>s. opened (snd (ws_timeGetTime k s)) = opened s)"

lemma win32_layer_keeps:
  assumes "winsock_keeps k opened"
  shows "keeps_sockets (win32_layer k) opened"
proof -
  have option: "opened (snd (win32_socket_set_option k fd option v s)) = opened s" for fd option v s
    using assms by (cases option) (auto simp: winsock_keeps_def win32_socket_set_option_def as_result_def split_beta)
  show ?thesis
    using assms unfolding keeps_sockets_def
    by (auto simp: option win32_layer_def winsock_keeps_def win32_socket_create_def win32_socket_destroy_def
        win32_socket_bind_def as_result_def win32_socket_get_address_def win32_host_random_seed_def split_beta)
qed

text \<open>The clock: as on Unix.\<close>

lemma win32_clock:
  assumes "win32_time_set k new s0 = (timeBase, s1)" "win32_time_get k timeBase s2 = (now, s3)"
  shows "now = new + (fst (ws_timeGetTime k s2) - fst (ws_timeGetTime k s0))"
  using assms by (auto simp: win32_time_set_def win32_time_get_def split: prod.split_asm)

text \<open>\<^verbatim>\<open>inet_addr\<close> reads a dotted address and has the broadcast address for an error, so this one cannot be
  set by its number.\<close>

lemma win32_set_host_numeric:
  assumes "ws_gethostbyname k (dotted host) s = (None, s')"
    "\<And>name. ws_inet_addr k name = (case undotted name of Some h \<Rightarrow> h | None \<Rightarrow> INADDR_NONE)"
  shows "win32_address_set_host k a (dotted host) s =
    (if host = INADDR_NONE then (-1, a) else (0, a\<lparr>addr_host := host\<rparr>), s')"
  using assms by (simp add: win32_address_set_host_def)

end
