(* ===== verification/GdQueue.thy ===== *)
theory GdQueue
  imports EnetBase
begin

text \<open>
  The ring buffer between the game's threads and the network thread (\<^verbatim>\<open>gdnet_queue.h\<close>).  The lock makes
  each of \<^verbatim>\<open>is_empty\<close>, \<^verbatim>\<open>is_full\<close>, \<^verbatim>\<open>size\<close> and the second halves of \<^verbatim>\<open>push\<close> and \<^verbatim>\<open>pop\<close> atomic, but
  \<^verbatim>\<open>push\<close> and \<^verbatim>\<open>pop\<close> test the queue before they take the lock; the step relation at the end runs the two
  halves of any number of producers and consumers in any order.

  \<open>SIZE\<close> is the template's parameter, 1024 where the code does not say otherwise.
\<close>

section \<open>The queue\<close>

text \<open>\<open>None\<close> is the NULL pointer, or an entry that has not been written.\<close>

record 'a GDNetQueue =
  q_items :: "'a option list"
  q_read_pos :: nat
  q_write_pos :: nat

definition new_queue :: "nat \<Rightarrow> 'a GDNetQueue" where
  "new_queue SIZE = \<lparr>q_items = replicate SIZE None, q_read_pos = 0, q_write_pos = 0\<rparr>"

definition queue_is_empty :: "'a GDNetQueue \<Rightarrow> bool" where
  "queue_is_empty q \<longleftrightarrow> q_read_pos q = q_write_pos q"

definition queue_is_full :: "nat \<Rightarrow> 'a GDNetQueue \<Rightarrow> bool" where
  "queue_is_full SIZE q \<longleftrightarrow> (q_write_pos q + 1) mod SIZE = q_read_pos q"

definition queue_size :: "nat \<Rightarrow> 'a GDNetQueue \<Rightarrow> nat" where
  "queue_size SIZE q =
     (if q_write_pos q > q_read_pos q then q_write_pos q - q_read_pos q
      else if q_write_pos q < q_read_pos q then (SIZE - q_read_pos q) + q_write_pos q
      else 0)"

text \<open>The parts of \<^verbatim>\<open>push\<close> and \<^verbatim>\<open>pop\<close> under the lock.\<close>

definition queue_store :: "nat \<Rightarrow> 'a \<Rightarrow> 'a GDNetQueue \<Rightarrow> 'a GDNetQueue" where
  "queue_store SIZE item q =
     q\<lparr>q_items := (q_items q)[q_write_pos q := Some item], q_write_pos := (q_write_pos q + 1) mod SIZE\<rparr>"

definition queue_fetch :: "nat \<Rightarrow> 'a GDNetQueue \<Rightarrow> 'a option \<times> 'a GDNetQueue" where
  "queue_fetch SIZE q = (q_items q ! q_read_pos q, q\<lparr>q_read_pos := (q_read_pos q + 1) mod SIZE\<rparr>)"

text \<open>A full queue drops the item with an error message.\<close>

definition queue_push :: "nat \<Rightarrow> 'a \<Rightarrow> 'a GDNetQueue \<Rightarrow> 'a GDNetQueue" where
  "queue_push SIZE item q = (if queue_is_full SIZE q then q else queue_store SIZE item q)"

definition queue_pop :: "nat \<Rightarrow> 'a GDNetQueue \<Rightarrow> 'a option \<times> 'a GDNetQueue" where
  "queue_pop SIZE q = (if queue_is_empty q then (None, q) else queue_fetch SIZE q)"

text \<open>\<open>deleted\<close> collects the items that \<^verbatim>\<open>memdelete\<close> has been given; \<open>None\<close> when the loop does not end.\<close>

partial_function (option) clear_loop ::
    "nat \<Rightarrow> 'a option list \<Rightarrow> 'a GDNetQueue \<Rightarrow> ('a option list \<times> 'a GDNetQueue) option" where
  "clear_loop SIZE deleted q =
     (if queue_is_empty q then Some (deleted, q)
      else case queue_pop SIZE q of (item, q) \<Rightarrow> clear_loop SIZE (deleted @ [item]) q)"

definition queue_clear :: "nat \<Rightarrow> 'a GDNetQueue \<Rightarrow> ('a option list \<times> 'a GDNetQueue) option" where
  "queue_clear SIZE q = clear_loop SIZE [] q"

section \<open>A bounded queue\<close>

text \<open>What the client of a bounded queue relies on.\<close>

locale bounded_queue =
  fixes valid :: "'q \<Rightarrow> bool"
    and contents :: "'q \<Rightarrow> 'a list"
    and room :: nat
    and store :: "'a \<Rightarrow> 'q \<Rightarrow> 'q"
    and fetch :: "'q \<Rightarrow> 'a option \<times> 'q"
  assumes store: "valid q \<Longrightarrow> length (contents q) < room \<Longrightarrow> valid (store x q) \<and> contents (store x q) = contents q @ [x]"
    and fetch: "valid q \<Longrightarrow> contents q = x # xs \<Longrightarrow>
      \<exists>q'. fetch q = (Some x, q') \<and> valid q' \<and> contents q' = xs"
    and bounded: "valid q \<Longrightarrow> length (contents q) \<le> room"
begin

lemma stores:
  "valid q \<Longrightarrow> length (contents q) + length xs \<le> room \<Longrightarrow>
   valid (fold store xs q) \<and> contents (fold store xs q) = contents q @ xs"
proof (induction xs arbitrary: q)
  case (Cons x xs)
  then show ?case using store [of q x] Cons.IH [of "store x q"] by simp
qed simp

lemma fetch_store_commute:
  assumes "valid q" "length (contents q) < room" "contents q = y # ys"
  shows "contents (snd (fetch (store x q))) = contents (store x (snd (fetch q)))"
proof -
  have "valid (store x q)" "contents (store x q) = y # (ys @ [x])" using store [OF assms(1,2)] assms(3) by simp_all
  from fetch [OF this] have "contents (snd (fetch (store x q))) = ys @ [x]" by auto
  moreover obtain q' where "fetch q = (Some y, q')" "valid q'" "contents q' = ys" using fetch [OF assms(1,3)] by blast
  ultimately show ?thesis using store [of q' x] assms(2,3) by simp
qed

end

section \<open>The ring buffer is one\<close>

definition queue_valid :: "nat \<Rightarrow> 'a GDNetQueue \<Rightarrow> bool" where
  "queue_valid SIZE q \<longleftrightarrow> length (q_items q) = SIZE \<and> q_read_pos q < SIZE \<and> q_write_pos q < SIZE \<and>
     (\<forall>i<queue_size SIZE q. q_items q ! ((q_read_pos q + i) mod SIZE) \<noteq> None)"

definition queue_contents :: "nat \<Rightarrow> 'a GDNetQueue \<Rightarrow> 'a list" where
  "queue_contents SIZE q = map (\<lambda>i. the (q_items q ! ((q_read_pos q + i) mod SIZE))) [0..<queue_size SIZE q]"

lemma length_queue_contents [simp]: "length (queue_contents SIZE q) = queue_size SIZE q"
  by (simp add: queue_contents_def)

lemma mod_once: "a < n \<Longrightarrow> b \<le> n \<Longrightarrow> (a + b) mod n = (if a + b < n then a + b else a + b - n)" for a b n :: nat
  by (simp add: mod_if)

lemma mod_next: "a < n \<Longrightarrow> Suc a mod n = (if Suc a = n then 0 else Suc a)" for a n :: nat
  by auto

lemma queue_size_bound: "queue_valid SIZE q \<Longrightarrow> queue_size SIZE q < SIZE"
  by (auto simp: queue_valid_def queue_size_def)

lemma queue_full_iff: "queue_valid SIZE q \<Longrightarrow> queue_is_full SIZE q \<longleftrightarrow> queue_size SIZE q = SIZE - 1"
  unfolding queue_valid_def queue_is_full_def queue_size_def by (auto simp: mod_next)

lemma queue_empty_iff: "queue_valid SIZE q \<Longrightarrow> queue_is_empty q \<longleftrightarrow> queue_size SIZE q = 0"
  unfolding queue_valid_def queue_is_empty_def queue_size_def by auto

lemma queue_write_pos: "queue_valid SIZE q \<Longrightarrow> q_write_pos q = (q_read_pos q + queue_size SIZE q) mod SIZE"
  unfolding queue_valid_def queue_size_def by (auto simp: mod_once)

lemma queue_slot_distinct:
  "r < n \<Longrightarrow> i < s \<Longrightarrow> s < n \<Longrightarrow> (r + i) mod n \<noteq> (r + s) mod n" for r i s n :: nat
  by (auto simp: mod_once)

lemma queue_store_valid:
  assumes "queue_valid SIZE q" "queue_size SIZE q < SIZE - 1"
  shows "queue_valid SIZE (queue_store SIZE x q) \<and> queue_contents SIZE (queue_store SIZE x q) = queue_contents SIZE q @ [x]"
proof -
  let ?q = "queue_store SIZE x q" and ?s = "queue_size SIZE q"
  have v: "q_read_pos q < SIZE" "q_write_pos q < SIZE" "length (q_items q) = SIZE"
    using assms(1) by (simp_all add: queue_valid_def)
  have s: "queue_size SIZE ?q = Suc ?s"
    using assms(2) v by (auto simp: queue_size_def queue_store_def mod_next split: if_split_asm)
  have w: "q_write_pos q = (q_read_pos q + ?s) mod SIZE" by (rule queue_write_pos [OF assms(1)])
  have old: "q_items ?q ! ((q_read_pos q + i) mod SIZE) = q_items q ! ((q_read_pos q + i) mod SIZE)" if "i < ?s" for i
    using queue_slot_distinct [OF v(1) that] assms(2) w by (simp add: queue_store_def nth_list_update_neq eq_commute)
  have new: "q_items ?q ! ((q_read_pos q + ?s) mod SIZE) = Some x"
    using v by (simp add: queue_store_def flip: w)
  have r: "q_read_pos ?q = q_read_pos q" by (simp add: queue_store_def)
  have "queue_valid SIZE ?q"
    using assms(1) v old new unfolding queue_valid_def s r by (auto simp: queue_store_def less_Suc_eq)
  moreover have "queue_contents SIZE ?q = queue_contents SIZE q @ [x]"
    using old new unfolding queue_contents_def s r by simp
  ultimately show ?thesis by blast
qed

lemma queue_fetch_valid:
  assumes "queue_valid SIZE q" "queue_contents SIZE q = x # xs"
  shows "\<exists>q'. queue_fetch SIZE q = (Some x, q') \<and> queue_valid SIZE q' \<and> queue_contents SIZE q' = xs"
proof -
  define q' where "q' = q\<lparr>q_read_pos := (q_read_pos q + 1) mod SIZE\<rparr>"
  let ?s = "queue_size SIZE q"
  have v: "q_read_pos q < SIZE" "q_write_pos q < SIZE" using assms(1) by (simp_all add: queue_valid_def)
  obtain n where n: "?s = Suc n" using arg_cong [OF assms(2), of length] by simp
  have s: "queue_size SIZE q' = n"
    using n v by (auto simp: queue_size_def q'_def mod_next split: if_split_asm)
  have slot: "(q_read_pos q' + i) mod SIZE = (q_read_pos q + Suc i) mod SIZE" for i
    by (simp add: q'_def mod_add_left_eq)
  have all: "queue_contents SIZE q = the (q_items q ! q_read_pos q) # queue_contents SIZE q'"
    using v by (simp add: queue_contents_def n s slot upt_conv_Cons map_Suc_upt [symmetric] o_def del: upt_Suc)
      (simp add: q'_def)
  have "q_items q ! ((q_read_pos q + 0) mod SIZE) \<noteq> None" using assms(1) n by (auto simp: queue_valid_def)
  then have "q_items q ! q_read_pos q = Some x" using all assms(2) v by auto
  moreover have "queue_valid SIZE q'"
    using assms(1) n v unfolding queue_valid_def s slot by (auto simp: q'_def)
  ultimately show ?thesis using all assms(2) by (auto simp: queue_fetch_def q'_def)
qed

interpretation ring: bounded_queue "queue_valid SIZE" "queue_contents SIZE" "SIZE - 1" "queue_store SIZE" "queue_fetch SIZE"
  for SIZE
  using queue_size_bound by unfold_locales (fastforce simp: queue_store_valid dest: queue_fetch_valid)+

lemma new_queue_valid:
  "0 < SIZE \<Longrightarrow> queue_valid SIZE (new_queue SIZE)" "queue_contents SIZE (new_queue SIZE) = []"
  "queue_size SIZE (new_queue n) = 0"
  by (simp_all add: new_queue_def queue_valid_def queue_size_def queue_contents_def)

lemma queue_empty_contents: "queue_valid SIZE q \<Longrightarrow> queue_is_empty q \<longleftrightarrow> queue_contents SIZE q = []"
  by (simp add: queue_empty_iff queue_contents_def)

lemma queue_pop_result:
  assumes "queue_valid SIZE q"
  shows "case queue_contents SIZE q of
      [] \<Rightarrow> queue_pop SIZE q = (None, q)
    | x # xs \<Rightarrow> \<exists>q'. queue_pop SIZE q = (Some x, q') \<and> queue_valid SIZE q' \<and> queue_contents SIZE q' = xs"
  using queue_empty_contents [OF assms] ring.fetch [OF assms]
  by (auto simp: queue_pop_def split: list.split)

lemma queue_push_result:
  assumes "queue_valid SIZE q"
  shows "queue_valid SIZE (queue_push SIZE x q) \<and> queue_contents SIZE (queue_push SIZE x q) =
    (if length (queue_contents SIZE q) = SIZE - 1 then queue_contents SIZE q else queue_contents SIZE q @ [x])"
  using ring.store [OF assms, of x] queue_full_iff [OF assms] queue_size_bound [OF assms] assms
  by (auto simp: queue_push_def)

lemma queue_pushes:
  "queue_valid SIZE q \<Longrightarrow> queue_valid SIZE (fold (queue_push SIZE) xs q) \<and>
     queue_contents SIZE (fold (queue_push SIZE) xs q) = take (SIZE - 1) (queue_contents SIZE q @ xs)"
proof (induction xs arbitrary: q)
  case Nil
  then show ?case using queue_size_bound [OF Nil] by simp
next
  case (Cons x xs)
  show ?case
    using Cons.IH [of "queue_push SIZE x q"] queue_push_result [OF Cons.prems, of x] queue_size_bound [OF Cons.prems]
    by (auto simp: take_Cons' Suc_diff_Suc)
qed

lemma clear_loop_result:
  "queue_valid SIZE q \<Longrightarrow> \<exists>q'. clear_loop SIZE deleted q = Some (deleted @ map Some (queue_contents SIZE q), q') \<and>
     queue_valid SIZE q' \<and> queue_is_empty q'"
proof (induction "queue_contents SIZE q" arbitrary: deleted q)
  case Nil
  then show ?case using queue_empty_contents [OF Nil(2)] by (subst clear_loop.simps) simp
next
  case (Cons x xs)
  obtain q' where q': "queue_pop SIZE q = (Some x, q')" "queue_valid SIZE q'" "queue_contents SIZE q' = xs"
    using queue_pop_result [OF Cons(3)] Cons(2) [symmetric] by auto
  show ?case
    using Cons(1) [OF q'(3) [symmetric] q'(2), of "deleted @ [Some x]"] q' Cons(2) [symmetric]
      queue_empty_contents [OF Cons(3)] by (subst clear_loop.simps) auto
qed

text \<open>Property C36.  The ring buffer is a first-in first-out queue of at most \<open>SIZE - 1\<close> items: a push
  appends, or drops the item when the queue is full; a pop takes the oldest item, or returns NULL from
  an empty queue; \<^verbatim>\<open>size\<close>, \<^verbatim>\<open>is_empty\<close> and \<^verbatim>\<open>is_full\<close> tell its length; \<^verbatim>\<open>clear\<close> ends and deletes exactly
  what is in it, in order.\<close>

theorem queue_refines_fifo:
  assumes "queue_valid SIZE q"
  shows "queue_valid SIZE (queue_push SIZE x q) \<and>
    queue_contents SIZE (queue_push SIZE x q) =
      (if length (queue_contents SIZE q) = SIZE - 1 then queue_contents SIZE q else queue_contents SIZE q @ [x]) \<and>
    (case queue_contents SIZE q of
       [] \<Rightarrow> queue_pop SIZE q = (None, q)
     | y # ys \<Rightarrow> \<exists>q'. queue_pop SIZE q = (Some y, q') \<and> queue_valid SIZE q' \<and> queue_contents SIZE q' = ys) \<and>
    queue_size SIZE q = length (queue_contents SIZE q) \<and>
    (queue_is_empty q \<longleftrightarrow> queue_contents SIZE q = []) \<and>
    (queue_is_full SIZE q \<longleftrightarrow> length (queue_contents SIZE q) = SIZE - 1) \<and>
    (\<exists>q'. queue_clear SIZE q = Some (map Some (queue_contents SIZE q), q') \<and> queue_is_empty q' \<and> queue_valid SIZE q')"
  using queue_push_result [OF assms] queue_pop_result [OF assms] queue_empty_contents [OF assms]
    queue_full_iff [OF assms] clear_loop_result [OF assms, of "[]"]
  by (auto simp: queue_clear_def)

definition queue_example :: "nat GDNetQueue" where
  "queue_example = fold (queue_push 4) [10, 20, 30, 40] (new_queue 4)"

theorem queue_refines_fifo_witness:
  "queue_valid 4 queue_example \<and> queue_contents 4 queue_example = [10, 20, 30] \<and>
   (\<exists>q'. queue_pop 4 queue_example = (Some 10, q') \<and> queue_contents 4 q' = [20, 30])"
proof -
  have v: "queue_valid 4 queue_example" and c: "queue_contents 4 queue_example = [10, 20, 30]"
    using queue_pushes [of 4 "new_queue 4" "[10, 20, 30, 40 :: nat]"] new_queue_valid(1) [of 4, where 'a = nat]
    by (simp_all add: queue_example_def new_queue_valid(2,3))
  then show ?thesis using queue_refines_fifo [OF v] by auto
qed


section \<open>Threads\<close>

text \<open>The queue and the threads that use it.  A producer that has found the queue not full carries the
  item it is about to store; a consumer that has found it not empty is about to fetch.  The last two
  fields record what has been stored and fetched so far.\<close>

record 'a threads =
  t_queue :: "'a GDNetQueue"
  t_producers :: "'a option list"
  t_consumers :: "bool list"
  t_pushed :: "'a list"
  t_popped :: "'a option list"

definition start_threads :: "nat \<Rightarrow> nat \<Rightarrow> nat \<Rightarrow> 'a threads" where
  "start_threads SIZE producers consumers =
     \<lparr>t_queue = new_queue SIZE, t_producers = replicate producers None, t_consumers = replicate consumers False,
      t_pushed = [], t_popped = []\<rparr>"

inductive thread_step :: "nat \<Rightarrow> 'a threads \<Rightarrow> 'a threads \<Rightarrow> bool" for SIZE where
  test_push:
    "i < length (t_producers t) \<Longrightarrow> t_producers t ! i = None \<Longrightarrow> \<not> queue_is_full SIZE (t_queue t) \<Longrightarrow>
     thread_step SIZE t (t\<lparr>t_producers := (t_producers t)[i := Some x]\<rparr>)"
| store:
    "i < length (t_producers t) \<Longrightarrow> t_producers t ! i = Some x \<Longrightarrow>
     thread_step SIZE t (t\<lparr>t_producers := (t_producers t)[i := None], t_queue := queue_store SIZE x (t_queue t),
       t_pushed := t_pushed t @ [x]\<rparr>)"
| test_pop:
    "j < length (t_consumers t) \<Longrightarrow> \<not> t_consumers t ! j \<Longrightarrow> \<not> queue_is_empty (t_queue t) \<Longrightarrow>
     thread_step SIZE t (t\<lparr>t_consumers := (t_consumers t)[j := True]\<rparr>)"
| fetch:
    "j < length (t_consumers t) \<Longrightarrow> t_consumers t ! j \<Longrightarrow> queue_fetch SIZE (t_queue t) = (item, q) \<Longrightarrow>
     thread_step SIZE t (t\<lparr>t_consumers := (t_consumers t)[j := False], t_queue := q,
       t_popped := t_popped t @ [item]\<rparr>)"

inductive_cases thread_stepE: "thread_step SIZE t t'"

definition threads_ok :: "nat \<Rightarrow> 'a threads \<Rightarrow> bool" where
  "threads_ok SIZE t \<longleftrightarrow> length (t_producers t) = 1 \<and> length (t_consumers t) = 1 \<and>
     queue_valid SIZE (t_queue t) \<and>
     (t_producers t ! 0 \<noteq> None \<longrightarrow> queue_size SIZE (t_queue t) < SIZE - 1) \<and>
     (t_consumers t ! 0 \<longrightarrow> queue_contents SIZE (t_queue t) \<noteq> []) \<and>
     map Some (t_pushed t) = t_popped t @ map Some (queue_contents SIZE (t_queue t))"

lemma thread_step_ok:
  assumes "thread_step SIZE t t'" "threads_ok SIZE t"
  shows "threads_ok SIZE t'"
  using assms
proof cases
  case (test_push i x)
  have "queue_valid SIZE (t_queue t)" using assms(2) by (simp add: threads_ok_def)
  then show ?thesis
    using assms(2) test_push queue_full_iff [of SIZE "t_queue t"] queue_size_bound [of SIZE "t_queue t"]
    by (auto simp: threads_ok_def)
next
  case (store i x)
  then show ?thesis
    using assms(2) queue_store_valid [of SIZE "t_queue t" x] by (auto simp: threads_ok_def)
next
  case (test_pop j)
  then show ?thesis using assms(2) queue_empty_contents [of SIZE "t_queue t"] by (auto simp: threads_ok_def)
next
  case (fetch j item q)
  have "t_consumers t ! 0" "j = 0" using fetch(2,3) assms(2) by (auto simp: threads_ok_def)
  then obtain x xs where c: "queue_contents SIZE (t_queue t) = x # xs"
    using assms(2) by (cases "queue_contents SIZE (t_queue t)") (auto simp: threads_ok_def)
  have "queue_valid SIZE (t_queue t)" using assms(2) by (simp add: threads_ok_def)
  from queue_fetch_valid [OF this c] fetch(4)
  have q: "item = Some x" "queue_valid SIZE q" "queue_contents SIZE q = xs" by auto
  have "queue_size SIZE q = length xs" "queue_size SIZE (t_queue t) = Suc (length xs)"
    using arg_cong [OF q(3), of length] arg_cong [OF c, of length] by simp_all
  then show ?thesis using assms(2) fetch(1) q c \<open>j = 0\<close> by (auto simp: threads_ok_def)
qed

lemma threads_reach_ok: "(thread_step SIZE)\<^sup>*\<^sup>* t t' \<Longrightarrow> threads_ok SIZE t \<Longrightarrow> threads_ok SIZE t'"
  by (induction rule: rtranclp_induct) (auto dest: thread_step_ok)

text \<open>Property C37.  With one producer and one consumer the tests outside the lock are harmless: in every
  interleaving the items fetched are exactly the items stored, in order and each once, followed by what is
  still in the queue, which never overflows.\<close>

theorem single_producer_fifo:
  assumes "0 < SIZE" "(thread_step SIZE)\<^sup>*\<^sup>* (start_threads SIZE 1 1) t"
  shows "map Some (t_pushed t) = t_popped t @ map Some (queue_contents SIZE (t_queue t)) \<and>
    queue_valid SIZE (t_queue t) \<and> length (queue_contents SIZE (t_queue t)) < SIZE"
  using threads_reach_ok [OF assms(2)] assms(1) new_queue_valid [of SIZE] queue_size_bound
  by (auto simp: threads_ok_def start_threads_def)

lemma push_steps:
  assumes "t_producers t ! i = None" "i < length (t_producers t)" "\<not> queue_is_full SIZE (t_queue t)"
  shows "(thread_step SIZE)\<^sup>*\<^sup>* t
    (t\<lparr>t_queue := queue_store SIZE x (t_queue t), t_pushed := t_pushed t @ [x]\<rparr>)"
proof -
  let ?t1 = "t\<lparr>t_producers := (t_producers t)[i := Some x]\<rparr>"
  have "thread_step SIZE ?t1 (?t1\<lparr>t_producers := (t_producers ?t1)[i := None],
      t_queue := queue_store SIZE x (t_queue ?t1), t_pushed := t_pushed ?t1 @ [x]\<rparr>)"
    using assms(2) by (intro thread_step.store) simp_all
  moreover have "(t_producers t)[i := None] = t_producers t" by (metis assms(1) list_update_id)
  ultimately show ?thesis
    using thread_step.test_push [OF assms(2,1,3), of x] by (auto intro: converse_rtranclp_into_rtranclp)
qed

theorem single_producer_fifo_witness:
  "\<exists>t. (thread_step 1024)\<^sup>*\<^sup>* (start_threads 1024 1 1) t \<and> t_pushed t = [7 :: nat] \<and>
     map Some (t_pushed t) = t_popped t @ map Some (queue_contents 1024 (t_queue t))"
proof -
  let ?t = "start_threads 1024 1 1 :: nat threads"
  have "(thread_step 1024)\<^sup>*\<^sup>* ?t (?t\<lparr>t_queue := queue_store 1024 7 (t_queue ?t), t_pushed := [7]\<rparr>)"
    using push_steps [of ?t 0 1024 7] by (simp add: start_threads_def queue_is_full_def new_queue_def)
  from this single_producer_fifo [OF _ this] show ?thesis by (intro exI conjI) (assumption, simp, simp)
qed

text \<open>Every number of items that fits can be stored.\<close>

lemma fill_steps:
  assumes "0 < SIZE" "0 < m" "n < SIZE"
  shows "\<exists>q. (thread_step SIZE)\<^sup>*\<^sup>* (start_threads SIZE m k)
    ((start_threads SIZE m k)\<lparr>t_queue := q, t_pushed := replicate n x\<rparr>) \<and> queue_valid SIZE q \<and> queue_size SIZE q = n"
  using assms(3)
proof (induction n)
  case 0
  have "start_threads SIZE m k = (start_threads SIZE m k)\<lparr>t_queue := new_queue SIZE, t_pushed := replicate 0 x\<rparr>"
    by (simp add: start_threads_def)
  then show ?case using new_queue_valid(1,3) assms(1) by (metis rtranclp.rtrancl_refl)
next
  case (Suc n)
  then obtain q where q: "(thread_step SIZE)\<^sup>*\<^sup>* (start_threads SIZE m k)
      ((start_threads SIZE m k)\<lparr>t_queue := q, t_pushed := replicate n x\<rparr>)" "queue_valid SIZE q" "queue_size SIZE q = n"
    by auto
  let ?t = "(start_threads SIZE m k)\<lparr>t_queue := q, t_pushed := replicate n x\<rparr>"
  let ?q = "queue_store SIZE x q"
  have "\<not> queue_is_full SIZE q" using Suc.prems queue_full_iff [OF q(2)] q(3) by simp
  then have "(thread_step SIZE)\<^sup>*\<^sup>* ?t (?t\<lparr>t_queue := ?q, t_pushed := replicate n x @ [x]\<rparr>)"
    using push_steps [of ?t 0 SIZE x] assms(2) by (simp add: start_threads_def)
  then have "(thread_step SIZE)\<^sup>*\<^sup>* (start_threads SIZE m k)
      ((start_threads SIZE m k)\<lparr>t_queue := ?q, t_pushed := replicate (Suc n) x\<rparr>)"
    using q(1) by (simp add: replicate_append_same)
  moreover have "queue_valid SIZE ?q" "queue_size SIZE ?q = Suc n"
    using queue_store_valid [OF q(2), of x] Suc.prems q(3) length_queue_contents [of SIZE ?q]
      length_queue_contents [of SIZE q] by (auto simp del: length_queue_contents)
  ultimately show ?case by blast
qed

text \<open>With two producers they are not: the threads can store \<open>SIZE\<close> items, none of which is
  ever fetched, and leave a queue that counts as empty.  Both producers find one free entry and both store,
  so that the write position catches up with the read position.\<close>

theorem two_producers_lose_everything:
  assumes "2 \<le> SIZE"
  shows "\<exists>t :: 'a threads. (thread_step SIZE)\<^sup>*\<^sup>* (start_threads SIZE 2 1) t \<and> length (t_pushed t) = SIZE \<and>
    t_popped t = [] \<and> queue_is_empty (t_queue t) \<and> queue_size SIZE (t_queue t) = 0"
proof -
  obtain x :: 'a where "x = undefined" by simp
  obtain q where q: "(thread_step SIZE)\<^sup>*\<^sup>* (start_threads SIZE 2 1)
      ((start_threads SIZE 2 1)\<lparr>t_queue := q, t_pushed := replicate (SIZE - 2) x\<rparr>)"
    "queue_valid SIZE q" "queue_size SIZE q = SIZE - 2"
    using fill_steps [of SIZE 2 "SIZE - 2" 1 x] assms by auto
  let ?t = "(start_threads SIZE 2 1)\<lparr>t_queue := q, t_pushed := replicate (SIZE - 2) x\<rparr>"
  have full: "\<not> queue_is_full SIZE q" using queue_full_iff [OF q(2)] q(3) assms by simp
  let ?q1 = "queue_store SIZE x q"
  let ?q2 = "queue_store SIZE x ?q1"
  let ?t1 = "?t\<lparr>t_producers := [Some x, None]\<rparr>" and ?t2 = "?t\<lparr>t_producers := [Some x, Some x]\<rparr>"
  let ?t3 = "?t2\<lparr>t_producers := [None, Some x], t_queue := ?q1, t_pushed := t_pushed ?t @ [x]\<rparr>"
  let ?t4 = "?t3\<lparr>t_producers := [None, None], t_queue := ?q2, t_pushed := t_pushed ?t @ [x, x]\<rparr>"
  have ps: "t_producers ?t = [None, None]" by (simp add: start_threads_def numeral_2_eq_2)
  have "thread_step SIZE ?t ?t1" using thread_step.test_push [of 0 ?t SIZE x] full ps by simp
  moreover have "thread_step SIZE ?t1 ?t2" using thread_step.test_push [of 1 ?t1 SIZE x] full ps by simp
  moreover have "thread_step SIZE ?t2 ?t3" using thread_step.store [of 0 ?t2 x SIZE] ps by simp
  moreover have "thread_step SIZE ?t3 ?t4" using thread_step.store [of 1 ?t3 x SIZE] ps by simp
  ultimately have "(thread_step SIZE)\<^sup>*\<^sup>* (start_threads SIZE 2 1) ?t4"
    using q(1) by (meson rtranclp.rtrancl_into_rtrancl)
  moreover have "q_write_pos ?q2 = q_read_pos ?q2"
  proof -
    have "q_write_pos ?q2 = (q_write_pos q + 2) mod SIZE" by (simp add: queue_store_def mod_simps)
    also have "\<dots> = (q_read_pos q + (SIZE - 2) + 2) mod SIZE"
      unfolding queue_write_pos [OF q(2)] q(3) by (rule mod_add_left_eq)
    also have "q_read_pos q + (SIZE - 2) + 2 = q_read_pos q + SIZE" using assms by simp
    finally show ?thesis using q(2) by (simp add: queue_store_def queue_valid_def)
  qed
  ultimately show ?thesis
    using assms by (intro exI [of _ ?t4]) (simp add: queue_is_empty_def queue_size_def start_threads_def)
qed

theorem two_producers_lose_everything_witness:
  "\<exists>t :: nat threads. (thread_step 1024)\<^sup>*\<^sup>* (start_threads 1024 2 1) t \<and> length (t_pushed t) = 1024 \<and>
     queue_is_empty (t_queue t)"
  using two_producers_lose_everything [of 1024] by auto

end
