(* ===== verification/GdNet.thy ===== *)
theory GdNet
  imports EnetService GdQueue
begin

text \<open>
  The Godot side (\<^verbatim>\<open>gdnet_host.cpp\<close>, \<^verbatim>\<open>gdnet_peer.cpp\<close> and the classes of messages, events and addresses
  they use).  The game's threads put messages into one queue and take events out of another; the network
  thread sends the messages, services the host and fills the queue of events.

  A call that holds the host mutex is one step; a turn of the network thread is one step.  What the
  engine does outside this program is a parameter: the clock of the events, the name resolution, and the
  encoding of a \<^verbatim>\<open>Variant\<close>, of which the code uses the error and the bytes (it encodes twice and gets
  the same result).
\<close>

section \<open>Messages and events\<close>

text \<open>The type is the integer the script gave, as the code casts it without a check.\<close>

record GDNetMessage =
  msg_type :: int
  msg_broadcast :: bool
  msg_peer_id :: int
  msg_channel_id :: int
  msg_packet :: "u8 list"

abbreviation (input) GDNetMessage_UNSEQUENCED :: int where "GDNetMessage_UNSEQUENCED \<equiv> 0"
abbreviation (input) GDNetMessage_SEQUENCED :: int where "GDNetMessage_SEQUENCED \<equiv> 1"
abbreviation (input) GDNetMessage_RELIABLE :: int where "GDNetMessage_RELIABLE \<equiv> 2"

definition new_message :: "int \<Rightarrow> GDNetMessage" where
  "new_message type = \<lparr>msg_type = type, msg_broadcast = False, msg_peer_id = 0, msg_channel_id = 0, msg_packet = []\<rparr>"

datatype GDNetEventType = GDNetEvent_NONE | GDNetEvent_CONNECT | GDNetEvent_DISCONNECT | GDNetEvent_RECEIVE

record GDNetEvent =
  ge_type :: GDNetEventType
  ge_time :: int
  ge_peer_id :: int
  ge_channel_id :: int
  ge_packet :: "u8 list"
  ge_data :: int

definition blank_event :: GDNetEvent where
  "blank_event = \<lparr>ge_type = GDNetEvent_NONE, ge_time = 0, ge_peer_id = 0, ge_channel_id = 0, ge_packet = [], ge_data = 0\<rparr>"

record GDNetAddress =
  ga_host :: string
  ga_port :: int

section \<open>The host\<close>

abbreviation (input) QUEUE_SIZE :: nat where "QUEUE_SIZE \<equiv> 1024"

text \<open>\<open>g_host\<close> is \<open>None\<close> for NULL; while it is, \<open>g_heap\<close> and \<open>g_world\<close> are the heap and the outside.
  \<open>g_ticks\<close> is \<^verbatim>\<open>OS::get_ticks_msec\<close> by the number of the call.\<close>

record GDNetHost =
  g_host :: "ENetHost option"
  g_running :: bool
  g_event_wait :: int
  g_max_peers :: int
  g_max_channels :: int
  g_max_bandwidth_in :: int
  g_max_bandwidth_out :: int
  g_event_queue :: "GDNetEvent GDNetQueue"
  g_message_queue :: "GDNetMessage GDNetQueue"
  g_ticks :: "nat \<Rightarrow> int"
  g_tickCalls :: nat
  g_heap :: heap
  g_world :: world

definition new_gdnet_host :: "(nat \<Rightarrow> int) \<Rightarrow> heap \<Rightarrow> world \<Rightarrow> GDNetHost" where
  "new_gdnet_host ticks hp w =
     \<lparr>g_host = None, g_running = False, g_event_wait = 1, g_max_peers = 32, g_max_channels = 1,
      g_max_bandwidth_in = 0, g_max_bandwidth_out = 0, g_event_queue = new_queue QUEUE_SIZE,
      g_message_queue = new_queue QUEUE_SIZE, g_ticks = ticks, g_tickCalls = 0, g_heap = hp, g_world = w\<rparr>"

definition message_flags :: "GDNetMessage \<Rightarrow> u32" where
  "message_flags m =
     (if msg_type m = GDNetMessage_UNSEQUENCED then ENET_PACKET_FLAG_UNSEQUENCED
      else if msg_type m = GDNetMessage_RELIABLE then ENET_PACKET_FLAG_RELIABLE else 0)"

text \<open>One message; \<open>None\<close> when the call of ENet does not return.\<close>

definition send_message :: "GDNetMessage \<Rightarrow> ENetHost \<Rightarrow> ENetHost option" where
  "send_message m h =
     (case enet_packet_create (h_heap h) (Some (msg_packet m)) (of_nat (length (msg_packet m))) (message_flags m) of
        (packet, hp) \<Rightarrow>
          let h = h\<lparr>h_heap := hp\<rparr>
          in case packet of
               None \<Rightarrow> Some h
             | Some k \<Rightarrow>
                 if msg_broadcast m then enet_host_broadcast (of_int (msg_channel_id m)) k h
                 else map_option snd (enet_peer_send (nat (msg_peer_id m)) (of_int (msg_channel_id m)) k h))"

partial_function (option) send_messages :: "GDNetMessage GDNetQueue \<Rightarrow> ENetHost \<Rightarrow> (GDNetMessage GDNetQueue \<times> ENetHost) option" where
  "send_messages q h =
     (if queue_is_empty q then Some (q, h)
      else case queue_pop QUEUE_SIZE q of (message, q) \<Rightarrow>
        (case send_message (the message) h of
           None \<Rightarrow> None
         | Some h \<Rightarrow> send_messages q h))"

text \<open>The event for the script, and the heap without the packet.\<close>

definition new_event :: "int \<Rightarrow> ENetEvent \<Rightarrow> heap \<Rightarrow> GDNetEvent \<times> heap" where
  "new_event time e hp =
     (let event = blank_event\<lparr>ge_time := time, ge_peer_id := int (the (ev_peer e))\<rparr>
      in case ev_type e of
           ENET_EVENT_TYPE_CONNECT \<Rightarrow> (event\<lparr>ge_type := GDNetEvent_CONNECT, ge_data := sint (ev_data e)\<rparr>, hp)
         | ENET_EVENT_TYPE_RECEIVE \<Rightarrow>
             (let packet = the (ev_packet e)
              in (event\<lparr>ge_type := GDNetEvent_RECEIVE, ge_channel_id := uint (ev_channelID e),
                        ge_packet := packet_bytes hp packet\<rparr>, enet_packet_destroy (Some packet) hp))
         | ENET_EVENT_TYPE_DISCONNECT \<Rightarrow> (event\<lparr>ge_type := GDNetEvent_DISCONNECT, ge_data := sint (ev_data e)\<rparr>, hp)
         | _ \<Rightarrow> (event, hp))"

text \<open>\<open>_event_queue.push(new_event(event))\<close>; a full queue drops the event.\<close>

definition push_event :: "ENetEvent \<Rightarrow> ENetHost \<Rightarrow> GDNetHost \<Rightarrow> ENetHost \<times> GDNetHost" where
  "push_event e h g =
     (case new_event (g_ticks g (g_tickCalls g)) e (h_heap h) of
        (event, hp) \<Rightarrow>
          (h\<lparr>h_heap := hp\<rparr>, g\<lparr>g_tickCalls := Suc (g_tickCalls g),
                              g_event_queue := queue_push QUEUE_SIZE event (g_event_queue g)\<rparr>))"

text \<open>The loop of \<^verbatim>\<open>poll_events\<close> behind the first event.\<close>

partial_function (option) poll_loop :: "ENetEvent \<Rightarrow> ENetHost \<Rightarrow> GDNetHost \<Rightarrow> (ENetHost \<times> GDNetHost) option" where
  "poll_loop e h g =
     (case enet_host_check_events (Some e) h of
        None \<Rightarrow> None
      | Some (r, event, h) \<Rightarrow>
          if r > 0 then (case push_event (the event) h g of (h, g) \<Rightarrow> poll_loop (the event) h g)
          else Some (h, g))"

text \<open>\<open>e\<close> is the event on the stack, which the code does not initialise.\<close>

definition poll_events :: "ENetEvent \<Rightarrow> ENetHost \<Rightarrow> GDNetHost \<Rightarrow> (ENetHost \<times> GDNetHost) option" where
  "poll_events e h g =
     (case enet_host_service (Some e) (of_int (g_event_wait g)) h of
        None \<Rightarrow> None
      | Some (r, event, h) \<Rightarrow>
          if r > 0 then (case push_event (the event) h g of (h, g) \<Rightarrow> poll_loop (the event) h g)
          else Some (h, g))"

text \<open>A turn of the network thread.\<close>

definition thread_turn :: "ENetEvent \<Rightarrow> GDNetHost \<Rightarrow> GDNetHost option" where
  "thread_turn e g =
     (case send_messages (g_message_queue g) (the (g_host g)) of
        None \<Rightarrow> None
      | Some (q, h) \<Rightarrow>
          map_option (\<lambda>(h, g). g\<lparr>g_host := Some h\<rparr>) (poll_events e h (g\<lparr>g_message_queue := q\<rparr>)))"

section \<open>The calls of the script\<close>

text \<open>The name resolution of \<^verbatim>\<open>enet_address_set_host\<close> is the argument \<open>resolve\<close>; a result is the code's
  \<open>OK\<close> or \<open>FAILED\<close>.  A NULL address is \<open>None\<close>.\<close>

datatype gd_error = OK | FAILED

definition bind_address :: "(string \<Rightarrow> u32 option) \<Rightarrow> GDNetAddress \<Rightarrow> ENetAddress option" where
  "bind_address resolve addr =
     (let port = of_int (ga_port addr)
      in if ga_host addr = [] then Some \<lparr>addr_host = ENET_HOST_ANY, addr_port = port\<rparr>
         else map_option (\<lambda>a. \<lparr>addr_host = a, addr_port = port\<rparr>) (resolve (ga_host addr)))"

definition create_host :: "host_system \<Rightarrow> ENetAddress option \<Rightarrow> GDNetHost \<Rightarrow> ENetHost option \<times> heap" where
  "create_host s address g =
     enet_host_create s (g_heap g) (g_world g) address (of_int (g_max_peers g)) (of_int (g_max_channels g))
       (of_int (g_max_bandwidth_in g)) (of_int (g_max_bandwidth_out g))"

definition gd_bind ::
    "host_system \<Rightarrow> (string \<Rightarrow> u32 option) \<Rightarrow> GDNetAddress option \<Rightarrow> GDNetHost \<Rightarrow> gd_error \<times> GDNetHost" where
  "gd_bind s resolve addr g =
     (if g_host g \<noteq> None then (FAILED, g)
      else case (case addr of None \<Rightarrow> Some None | Some a \<Rightarrow> map_option Some (bind_address resolve a)) of
             None \<Rightarrow> (FAILED, g)
           | Some address \<Rightarrow>
               (case create_host s address g of
                  (None, hp) \<Rightarrow> (FAILED, g\<lparr>g_heap := hp\<rparr>)
                | (Some h, hp) \<Rightarrow> (OK, g\<lparr>g_host := Some h, g_running := True\<rparr>)))"

text \<open>The thread has come to its end when \<^verbatim>\<open>thread_stop\<close> returns.\<close>

definition gd_unbind :: "GDNetHost \<Rightarrow> GDNetHost option" where
  "gd_unbind g =
     (case g_host g of
        None \<Rightarrow> Some g
      | Some h \<Rightarrow>
          (case enet_host_flush h of
             None \<Rightarrow> None
           | Some h \<Rightarrow>
               (case queue_clear QUEUE_SIZE (g_message_queue g) of
                  None \<Rightarrow> None
                | Some (_, messages) \<Rightarrow>
                    map_option (\<lambda>(_, events).
                        g\<lparr>g_running := False, g_heap := fst (enet_host_destroy (Some h) (h_heap h)), g_world := h_world h,
                          g_host := None, g_message_queue := messages, g_event_queue := events\<rparr>)
                      (queue_clear QUEUE_SIZE (g_event_queue g)))))"

text \<open>The index of the new peer.\<close>

definition gd_connect ::
    "(string \<Rightarrow> u32 option) \<Rightarrow> GDNetAddress \<Rightarrow> int \<Rightarrow> GDNetHost \<Rightarrow> nat option \<times> GDNetHost" where
  "gd_connect resolve addr data g =
     (case g_host g of
        None \<Rightarrow> (None, g)
      | Some h \<Rightarrow>
          (case resolve (ga_host addr) of
             None \<Rightarrow> (None, g)
           | Some a \<Rightarrow>
               (case enet_host_connect \<lparr>addr_host = a, addr_port = of_int (ga_port addr)\<rparr>
                       (of_int (g_max_channels g)) (of_int data) h of
                  (peer, h) \<Rightarrow> (peer, g\<lparr>g_host := Some h\<rparr>))))"

definition gd_get_peer :: "u32 \<Rightarrow> GDNetHost \<Rightarrow> nat option" where
  "gd_get_peer i g =
     (case g_host g of None \<Rightarrow> None | Some h \<Rightarrow> if unat i < length (h_peers h) then Some (unat i) else None)"

definition push_message :: "GDNetMessage \<Rightarrow> GDNetHost \<Rightarrow> GDNetHost" where
  "push_message m g = g\<lparr>g_message_queue := queue_push QUEUE_SIZE m (g_message_queue g)\<rparr>"

definition gd_broadcast_packet :: "u8 list \<Rightarrow> int \<Rightarrow> int \<Rightarrow> GDNetHost \<Rightarrow> GDNetHost" where
  "gd_broadcast_packet packet channel_id type g =
     (if g_host g = None then g
      else push_message ((new_message type)\<lparr>msg_broadcast := True, msg_channel_id := channel_id, msg_packet := packet\<rparr>) g)"

text \<open>\<open>var\<close> is the encoded value, or \<open>None\<close> when the engine reports an error; an empty encoding is refused.\<close>

definition gd_broadcast_var :: "u8 list option \<Rightarrow> int \<Rightarrow> int \<Rightarrow> GDNetHost \<Rightarrow> GDNetHost" where
  "gd_broadcast_var var channel_id type g =
     (case var of
        None \<Rightarrow> g
      | Some bytes \<Rightarrow> if g_host g = None \<or> bytes = [] then g else gd_broadcast_packet bytes channel_id type g)"

definition gd_is_event_available :: "GDNetHost \<Rightarrow> bool" where
  "gd_is_event_available g \<longleftrightarrow> \<not> queue_is_empty (g_event_queue g)"

definition gd_get_event_count :: "GDNetHost \<Rightarrow> nat" where
  "gd_get_event_count g = queue_size QUEUE_SIZE (g_event_queue g)"

definition gd_get_event :: "GDNetHost \<Rightarrow> GDNetEvent option \<times> GDNetHost" where
  "gd_get_event g =
     (case queue_pop QUEUE_SIZE (g_event_queue g) of (e, q) \<Rightarrow> (e, g\<lparr>g_event_queue := q\<rparr>))"

text \<open>The settings, which count from the next \<^verbatim>\<open>bind\<close> or turn on.\<close>

definition gd_set_event_wait :: "int \<Rightarrow> GDNetHost \<Rightarrow> GDNetHost" where
  "gd_set_event_wait n g = g\<lparr>g_event_wait := n\<rparr>"
definition gd_set_max_peers :: "int \<Rightarrow> GDNetHost \<Rightarrow> GDNetHost" where
  "gd_set_max_peers n g = g\<lparr>g_max_peers := n\<rparr>"
definition gd_set_max_channels :: "int \<Rightarrow> GDNetHost \<Rightarrow> GDNetHost" where
  "gd_set_max_channels n g = g\<lparr>g_max_channels := n\<rparr>"
definition gd_set_max_bandwidth_in :: "int \<Rightarrow> GDNetHost \<Rightarrow> GDNetHost" where
  "gd_set_max_bandwidth_in n g = g\<lparr>g_max_bandwidth_in := n\<rparr>"
definition gd_set_max_bandwidth_out :: "int \<Rightarrow> GDNetHost \<Rightarrow> GDNetHost" where
  "gd_set_max_bandwidth_out n g = g\<lparr>g_max_bandwidth_out := n\<rparr>"

section \<open>The calls on a peer\<close>

text \<open>A \<open>GDNetPeer\<close> is the pair of its host and the index \<open>i\<close> of its peer.  All calls but \<^verbatim>\<open>get_address\<close>
  check that the host is still bound.\<close>

definition peer_get_peer_id :: "nat \<Rightarrow> GDNetHost \<Rightarrow> int" where
  "peer_get_peer_id i g = (if g_host g = None then -1 else int i)"

definition peer_get_avg_rtt :: "nat \<Rightarrow> GDNetHost \<Rightarrow> int" where
  "peer_get_avg_rtt i g = (case g_host g of None \<Rightarrow> -1 | Some h \<Rightarrow> sint (p_roundTripTime (peer_at h i)))"

text \<open>\<open>ip\<close> stands for \<^verbatim>\<open>enet_address_get_host_ip\<close>.  The code does not ask whether the host is bound.\<close>

definition peer_get_address :: "(u32 \<Rightarrow> string) \<Rightarrow> nat \<Rightarrow> ENetHost \<Rightarrow> GDNetAddress" where
  "peer_get_address ip i h =
     \<lparr>ga_host = ip (addr_host (p_address (peer_at h i))), ga_port = uint (addr_port (p_address (peer_at h i)))\<rparr>"

text \<open>An operation under the host mutex.\<close>

definition with_host :: "(ENetHost \<Rightarrow> ENetHost option) \<Rightarrow> GDNetHost \<Rightarrow> GDNetHost option" where
  "with_host f g =
     (case g_host g of None \<Rightarrow> Some g | Some h \<Rightarrow> map_option (\<lambda>h. g\<lparr>g_host := Some h\<rparr>) (f h))"

definition peer_ping :: "nat \<Rightarrow> GDNetHost \<Rightarrow> GDNetHost option" where
  "peer_ping i = with_host (\<lambda>h. Some (snd (on_peer i enet_peer_ping h)))"

definition peer_reset :: "nat \<Rightarrow> GDNetHost \<Rightarrow> GDNetHost option" where
  "peer_reset i = with_host (\<lambda>h. Some (enet_peer_reset i h))"

definition peer_disconnect :: "nat \<Rightarrow> int \<Rightarrow> GDNetHost \<Rightarrow> GDNetHost option" where
  "peer_disconnect i data = with_host (enet_peer_disconnect i (of_int data))"

definition peer_disconnect_later :: "nat \<Rightarrow> int \<Rightarrow> GDNetHost \<Rightarrow> GDNetHost option" where
  "peer_disconnect_later i data = with_host (enet_peer_disconnect_later i (of_int data))"

definition peer_disconnect_now :: "nat \<Rightarrow> int \<Rightarrow> GDNetHost \<Rightarrow> GDNetHost option" where
  "peer_disconnect_now i data = with_host (enet_peer_disconnect_now i (of_int data))"

definition peer_set_timeout :: "nat \<Rightarrow> int \<Rightarrow> int \<Rightarrow> int \<Rightarrow> GDNetHost \<Rightarrow> GDNetHost option" where
  "peer_set_timeout i limit min_timeout max_timeout =
     with_host (\<lambda>h. Some (upd_peer i (enet_peer_timeout (of_int limit) (of_int min_timeout) (of_int max_timeout)) h))"

definition peer_send_packet :: "nat \<Rightarrow> u8 list \<Rightarrow> int \<Rightarrow> int \<Rightarrow> GDNetHost \<Rightarrow> GDNetHost" where
  "peer_send_packet i packet channel_id type g =
     (if g_host g = None then g
      else push_message ((new_message type)\<lparr>msg_peer_id := peer_get_peer_id i g, msg_channel_id := channel_id,
             msg_packet := packet\<rparr>) g)"

definition peer_send_var :: "nat \<Rightarrow> u8 list option \<Rightarrow> int \<Rightarrow> int \<Rightarrow> GDNetHost \<Rightarrow> GDNetHost" where
  "peer_send_var i var channel_id type g =
     (case var of
        None \<Rightarrow> g
      | Some bytes \<Rightarrow> if g_host g = None \<or> bytes = [] then g else peer_send_packet i bytes channel_id type g)"

section \<open>The messages\<close>

lemma broadcast_loop_Some_keeps:
  "host_ok h \<Longrightarrow> \<forall>j\<in>set js. j < length (h_peers h) \<Longrightarrow> broadcast_loop c packet js h = Some h' \<Longrightarrow>
   host_ok h' \<and> length (h_peers h') = length (h_peers h)"
proof (induction js arbitrary: h)
  case (Cons j js)
  show ?case
  proof (cases "state_at h j = ENET_PEER_STATE_CONNECTED")
    case True
    then obtain r g where s: "enet_peer_send j c packet h = Some (r, g)" and g: "broadcast_loop c packet js g = Some h'"
      using Cons.prems(3) by (auto split: option.split_asm)
    then show ?thesis
      using peer_send_keeps [OF Cons.prems(1) _ s] Cons.IH [of g] Cons.prems(2) by auto
  qed (use Cons in simp)
qed simp

lemma broadcast_Some_keeps:
  assumes "host_ok h" "enet_host_broadcast c packet h = Some h'"
  shows "host_ok h' \<and> length (h_peers h') = length (h_peers h)"
proof -
  obtain g where g: "broadcast_loop c packet [0..<length (h_peers h)] h = Some g"
    using assms(2) by (auto simp: enet_host_broadcast_def)
  then have "host_ok g" "length (h_peers g) = length (h_peers h)"
    using broadcast_loop_Some_keeps [OF assms(1) _ g] by simp_all
  then show ?thesis
    using assms(2) g host_ok_same_peers [of g h'] by (auto simp: enet_host_broadcast_def host_frame_def)
qed

text \<open>A message for all peers, or for one that the host has.\<close>

definition message_ok :: "nat \<Rightarrow> GDNetMessage \<Rightarrow> bool" where
  "message_ok n m \<longleftrightarrow> msg_broadcast m \<or> nat (msg_peer_id m) < n"

lemma heap_keeps: "host_ok h \<Longrightarrow> host_ok (h\<lparr>h_heap := hp\<rparr>)"
  by (rule host_ok_same_peers [of h]) (simp_all add: host_frame_def)

lemma send_message_keeps:
  assumes "host_ok h" "message_ok (length (h_peers h)) m" "send_message m h = Some h'"
  shows "host_ok h' \<and> length (h_peers h') = length (h_peers h)"
proof -
  obtain packet hp where p: "enet_packet_create (h_heap h) (Some (msg_packet m)) (of_nat (length (msg_packet m)))
      (message_flags m) = (packet, hp)" by (meson surj_pair)
  let ?h = "h\<lparr>h_heap := hp\<rparr>"
  have ok: "host_ok ?h" "length (h_peers ?h) = length (h_peers h)" using heap_keeps [OF assms(1)] by simp_all
  show ?thesis
  proof (cases packet)
    case None
    then show ?thesis using assms(3) p ok by (auto simp: send_message_def)
  next
    case (Some k)
    show ?thesis
    proof (cases "msg_broadcast m")
      case True
      then show ?thesis
        using assms(3) p Some broadcast_Some_keeps [OF ok(1)] ok(2) by (auto simp: send_message_def)
    next
      case False
      then obtain r where "enet_peer_send (nat (msg_peer_id m)) (of_int (msg_channel_id m)) k ?h = Some (r, h')"
        using assms(3) p Some by (auto simp: send_message_def)
      then show ?thesis using peer_send_keeps [OF ok(1)] False assms(2) ok(2) by (auto simp: message_ok_def)
    qed
  qed
qed

lemma send_message_returns:
  assumes "host_ok h" "message_ok (length (h_peers h)) m" "h_maximumPacketSize h < 2 ^ 32"
  shows "\<exists>h'. send_message m h = Some h' \<and> host_ok h' \<and> length (h_peers h') = length (h_peers h) \<and>
    h_maximumPacketSize h' = h_maximumPacketSize h"
proof -
  obtain packet hp where p: "enet_packet_create (h_heap h) (Some (msg_packet m)) (of_nat (length (msg_packet m)))
      (message_flags m) = (packet, hp)" by (meson surj_pair)
  let ?h = "h\<lparr>h_heap := hp\<rparr>" and ?c = "of_int (msg_channel_id m) :: u8" and ?i = "nat (msg_peer_id m)"
  have ok: "host_ok ?h" "length (h_peers ?h) = length (h_peers h)" "h_maximumPacketSize ?h < 2 ^ 32"
    using heap_keeps [OF assms(1)] assms(3) by simp_all
  consider "packet = None" | k where "packet = Some k" "msg_broadcast m" | k where "packet = Some k" "\<not> msg_broadcast m"
    by (cases packet) auto
  then show ?thesis
  proof cases
    case 1
    then show ?thesis using ok p by (simp add: send_message_def)
  next
    case (2 k)
    obtain h' where "enet_host_broadcast ?c k ?h = Some h'" "host_ok h'" "length (h_peers h') = length (h_peers ?h)"
      "h_maximumPacketSize h' = h_maximumPacketSize ?h"
      by (rule broadcast_keeps [OF ok(1,3)])
    then show ?thesis using p 2 by (simp add: send_message_def)
  next
    case (3 k)
    have i: "?i < length (h_peers ?h)" using 3 assms(2) by (simp add: message_ok_def)
    obtain r g where s: "enet_peer_send ?i ?c k ?h = Some (r, g)"
      using peer_send_terminates [OF ok(1) i ok(3), of ?c k] by auto
    then show ?thesis
      using peer_send_keeps [OF ok(1) i s] p 3 by (simp add: send_message_def)
  qed
qed

text \<open>The messages one after the other.\<close>

fun send_all :: "GDNetMessage list \<Rightarrow> ENetHost \<Rightarrow> ENetHost option" where
  "send_all [] h = Some h"
| "send_all (m # ms) h = (case send_message m h of None \<Rightarrow> None | Some h \<Rightarrow> send_all ms h)"

lemma send_messages_send_all:
  assumes "queue_valid QUEUE_SIZE q"
  shows "case send_all (queue_contents QUEUE_SIZE q) h of
      None \<Rightarrow> send_messages q h = None
    | Some h' \<Rightarrow> \<exists>q'. send_messages q h = Some (q', h') \<and> queue_valid QUEUE_SIZE q' \<and> queue_contents QUEUE_SIZE q' = []"
  using assms
proof (induction "queue_contents QUEUE_SIZE q" arbitrary: q h)
  case Nil
  then show ?case using queue_empty_contents [OF Nil(2)] by (subst send_messages.simps) simp
next
  case (Cons m ms)
  obtain q' where q': "queue_pop QUEUE_SIZE q = (Some m, q')" "queue_valid QUEUE_SIZE q'" "queue_contents QUEUE_SIZE q' = ms"
    using queue_pop_result [OF Cons(3)] Cons(2) [symmetric] by auto
  have unfold: "send_messages q h = (case send_message m h of None \<Rightarrow> None | Some h \<Rightarrow> send_messages q' h)"
    using queue_empty_contents [OF Cons(3)] Cons(2) [symmetric] q'(1) by (subst send_messages.simps) simp
  show ?case
  proof (cases "send_message m h")
    case (Some g)
    then show ?thesis using Cons(1) [OF q'(3) [symmetric] q'(2), of g] Cons(2) [symmetric] q'(3) by (simp add: unfold split: option.splits)
  qed (simp add: unfold flip: Cons(2))
qed

lemma send_all_keeps:
  "host_ok h \<Longrightarrow> \<forall>m\<in>set ms. message_ok (length (h_peers h)) m \<Longrightarrow> send_all ms h = Some h' \<Longrightarrow>
   host_ok h' \<and> length (h_peers h') = length (h_peers h)"
proof (induction ms arbitrary: h)
  case (Cons m ms)
  obtain g where g: "send_message m h = Some g" "send_all ms g = Some h'"
    using Cons.prems(3) by (auto split: option.split_asm)
  then show ?case using send_message_keeps [OF Cons.prems(1) _ g(1)] Cons.IH [of g] Cons.prems(2) by auto
qed simp

lemma send_all_returns:
  "host_ok h \<Longrightarrow> \<forall>m\<in>set ms. message_ok (length (h_peers h)) m \<Longrightarrow> h_maximumPacketSize h < 2 ^ 32 \<Longrightarrow>
   send_all ms h \<noteq> None"
proof (induction ms arbitrary: h)
  case (Cons m ms)
  obtain g where "send_message m h = Some g" "host_ok g" "length (h_peers g) = length (h_peers h)"
    "h_maximumPacketSize g = h_maximumPacketSize h"
    using send_message_returns [OF Cons.prems(1) _ Cons.prems(3), of m] Cons.prems(2) by auto
  then show ?case using Cons.IH [of g] Cons.prems by simp
qed simp


definition message_example :: "GDNetMessage list" where
  "message_example = [(new_message GDNetMessage_RELIABLE)\<lparr>msg_packet := [1, 2]\<rparr>,
     (new_message GDNetMessage_UNSEQUENCED)\<lparr>msg_broadcast := True, msg_packet := [3]\<rparr>]"


section \<open>The events\<close>

lemma push_event_result:
  assumes "queue_valid QUEUE_SIZE (g_event_queue g)" "push_event e h g = (h', g')"
  shows "(\<exists>hp. h' = h\<lparr>h_heap := hp\<rparr>) \<and>
    (\<exists>q calls. g' = g\<lparr>g_tickCalls := calls, g_event_queue := q\<rparr> \<and> queue_valid QUEUE_SIZE q \<and>
       queue_contents QUEUE_SIZE q = take (QUEUE_SIZE - 1) (queue_contents QUEUE_SIZE (g_event_queue g) @
         [fst (new_event (g_ticks g (g_tickCalls g)) e (h_heap h))]))"
proof -
  obtain event hp where n: "new_event (g_ticks g (g_tickCalls g)) e (h_heap h) = (event, hp)" by (meson surj_pair)
  have "fold (queue_push QUEUE_SIZE) [event] (g_event_queue g) = queue_push QUEUE_SIZE event (g_event_queue g)" by simp
  then show ?thesis
    using queue_pushes [OF assms(1), of "[event]"] assms(2) n by (auto simp: push_event_def)
qed

text \<open>What collecting events does to the Godot host: only its event queue and its clock change, and the
  queue has taken \<open>es\<close>, as far as there was room.\<close>

definition collected :: "GDNetEvent list \<Rightarrow> GDNetHost \<Rightarrow> GDNetHost \<Rightarrow> bool" where
  "collected es g g' \<longleftrightarrow> (\<exists>q calls. g' = g\<lparr>g_tickCalls := calls, g_event_queue := q\<rparr> \<and> queue_valid QUEUE_SIZE q \<and>
     queue_contents QUEUE_SIZE q = take (QUEUE_SIZE - 1) (queue_contents QUEUE_SIZE (g_event_queue g) @ es))"

lemma collected_Nil: "queue_valid QUEUE_SIZE (g_event_queue g) \<Longrightarrow> collected [] g g"
  using queue_size_bound [of QUEUE_SIZE "g_event_queue g"]
  by (auto simp: collected_def intro!: exI [of _ "g_event_queue g"] exI [of _ "g_tickCalls g"])

lemma collected_valid: "collected es g g' \<Longrightarrow> queue_valid QUEUE_SIZE (g_event_queue g')"
  by (auto simp: collected_def)

lemma take_take_append: "take n (take n xs @ ys) = take n (xs @ ys)"
  by (simp add: min_def)

lemma collected_trans:
  assumes "collected es g g'" "collected es' g' g''"
  shows "collected (es @ es') g g''"
proof -
  obtain q calls where g': "g' = g\<lparr>g_tickCalls := calls, g_event_queue := q\<rparr>"
    "queue_contents QUEUE_SIZE q = take (QUEUE_SIZE - 1) (queue_contents QUEUE_SIZE (g_event_queue g) @ es)"
    using assms(1) by (auto simp: collected_def)
  obtain q' calls' where g'': "g'' = g'\<lparr>g_tickCalls := calls', g_event_queue := q'\<rparr>" "queue_valid QUEUE_SIZE q'"
    "queue_contents QUEUE_SIZE q' = take (QUEUE_SIZE - 1) (queue_contents QUEUE_SIZE q @ es')"
    using assms(2) g'(1) by (auto simp: collected_def)
  have "queue_contents QUEUE_SIZE q' = take (QUEUE_SIZE - 1) (queue_contents QUEUE_SIZE (g_event_queue g) @ es @ es')"
    unfolding g''(3) g'(2) take_take_append by simp
  then show ?thesis using g''(1,2) g'(1) by (auto simp: collected_def)
qed

lemma push_event_collected:
  assumes "queue_valid QUEUE_SIZE (g_event_queue g)" "push_event e h g = (h', g')"
  shows "collected [fst (new_event (g_ticks g (g_tickCalls g)) e (h_heap h))] g g'"
  using push_event_result [OF assms] by (auto simp: collected_def)

definition real_event :: "GDNetEvent \<Rightarrow> bool" where
  "real_event e \<longleftrightarrow> ge_type e \<noteq> GDNetEvent_NONE"

lemma new_event_real: "ev_type e \<noteq> ENET_EVENT_TYPE_NONE \<Longrightarrow> real_event (fst (new_event t e hp))"
  by (cases "ev_type e") (simp_all add: new_event_def real_event_def Let_def)

lemma poll_loop_result:
  assumes "host_ok h" "queue_valid QUEUE_SIZE (g_event_queue g)"
  shows "\<exists>es h' g'. poll_loop e h g = Some (h', g') \<and> host_ok h' \<and> length (h_peers h') = length (h_peers h) \<and>
    h_dispatchQueue h' = [] \<and> collected es g g' \<and> (\<forall>e\<in>set es. real_event e)"
  using assms
proof (induction "dispatch_work h" arbitrary: e h g rule: less_induct)
  case less
  obtain r event h1 where c: "enet_host_check_events (Some e) h = Some (r, event, h1)"
    using dispatch_to_returns [OF less.prems(1), of "Some (no_event e)"] by (auto simp: enet_host_check_events_def)
  note w = check_events_work [OF less.prems(1) c]
  have len: "length (h_peers h1) = length (h_peers h)"
    using dispatch_to_result [OF less.prems(1)] c by (auto simp: enet_host_check_events_def)
  show ?case
  proof (cases "r = 1")
    case True
    then obtain e1 where e1: "event = Some e1" "ev_type e1 \<noteq> ENET_EVENT_TYPE_NONE" "dispatch_work h1 < dispatch_work h"
      using w event_matches_type by auto
    obtain h2 g2 where p: "push_event e1 h1 g = (h2, g2)" by (meson surj_pair)
    have h2: "host_ok h2" "length (h_peers h2) = length (h_peers h)" "dispatch_work h2 = dispatch_work h1"
      using push_event_result [OF less.prems(2) p] w len heap_keeps by (auto simp: dispatch_work_def)
    note g2 = push_event_collected [OF less.prems(2) p]
    obtain es h' g' where IH: "poll_loop e1 h2 g2 = Some (h', g')" "host_ok h'" "length (h_peers h') = length (h_peers h)"
      "h_dispatchQueue h' = []" "collected es g2 g'" "\<forall>e\<in>set es. real_event e"
      using less.hyps [of h2 g2 e1] e1(3) h2 collected_valid [OF g2] by auto
    have "poll_loop e h g = Some (h', g')"
      using c True e1(1) p IH(1) by (subst poll_loop.simps) simp
    then show ?thesis
      using IH collected_trans [OF g2 IH(5)] new_event_real [OF e1(2)] by (intro exI conjI) (assumption | simp)+
  next
    case False
    then have "r = 0" using w by simp
    then show ?thesis
      using c w len collected_Nil [OF less.prems(2)] by (subst poll_loop.simps) (auto intro!: exI [of _ "[]"])
  qed
qed

lemma poll_events_result:
  assumes "host_ok h" "queue_valid QUEUE_SIZE (g_event_queue g)"
    and "enet_host_service (Some e) (of_int (g_event_wait g)) h = Some (r, event, h1)"
  shows "\<exists>es h' g'. poll_events e h g = Some (h', g') \<and> host_ok h' \<and> length (h_peers h') = length (h_peers h) \<and>
    queue_valid QUEUE_SIZE (g_event_queue g') \<and>
    queue_contents QUEUE_SIZE (g_event_queue g') = take (QUEUE_SIZE - 1) (queue_contents QUEUE_SIZE (g_event_queue g) @ es) \<and>
    (\<forall>e\<in>set es. ge_type e \<noteq> GDNetEvent_NONE) \<and> g_message_queue g' = g_message_queue g \<and>
    (r = 1 \<longrightarrow> es \<noteq> [] \<and> h_dispatchQueue h' = []) \<and> (r \<noteq> 1 \<longrightarrow> es = [])"
proof -
  note s = service_result [OF assms(1,3)]
  have h1: "host_ok h1" "length (h_peers h1) = length (h_peers h)" "r \<in> {-1, 0, 1}" "reports r event"
    using s by (simp_all add: service_ends_def served_def)
  show ?thesis
  proof (cases "r = 1")
    case False
    then have "poll_events e h g = Some (h1, g)" using assms(3) h1(3) by (auto simp: poll_events_def)
    then show ?thesis using h1 False assms(2) queue_size_bound [OF assms(2)] by (auto intro!: exI [of _ "[]"])
  next
    case True
    then obtain e1 where e1: "event = Some e1" "ev_type e1 \<noteq> ENET_EVENT_TYPE_NONE" using h1(4) by (auto simp: reports_def)
    obtain h2 g2 where p: "push_event e1 h1 g = (h2, g2)" by (meson surj_pair)
    have h2: "host_ok h2" "length (h_peers h2) = length (h_peers h)"
      using push_event_result [OF assms(2) p] h1 heap_keeps by auto
    note g2 = push_event_collected [OF assms(2) p]
    obtain es h' g' where l: "poll_loop e1 h2 g2 = Some (h', g')" "host_ok h'" "length (h_peers h') = length (h_peers h)"
      "h_dispatchQueue h' = []" "collected es g2 g'" "\<forall>e\<in>set es. real_event e"
      using poll_loop_result [OF h2(1) collected_valid [OF g2], of e1] h2(2) by auto
    have "poll_events e h g = Some (h', g')" using assms(3) True e1(1) p l(1) by (simp add: poll_events_def)
    then show ?thesis
      using l(2-4,6) collected_trans [OF g2 l(5)] new_event_real [OF e1(2)] True
      by (intro exI [of _ "fst (new_event (g_ticks g (g_tickCalls g)) e1 (h_heap h1)) # es"] exI [of _ h'] exI [of _ g'])
        (auto simp: collected_def real_event_def)
  qed
qed

lemma poll_events_keeps:
  assumes "host_ok h" "queue_valid QUEUE_SIZE (g_event_queue g)" "poll_events e h g = Some (h', g')"
  shows "host_ok h' \<and> length (h_peers h') = length (h_peers h) \<and> queue_valid QUEUE_SIZE (g_event_queue g') \<and>
    g_message_queue g' = g_message_queue g"
proof -
  obtain r event h1 where "enet_host_service (Some e) (of_int (g_event_wait g)) h = Some (r, event, h1)"
    using assms(3) by (auto simp: poll_events_def split: option.split_asm)
  from poll_events_result [OF assms(1,2) this] assms(3) show ?thesis by auto
qed



end
