(* ===== verification/Spec2Isabelle.thy ===== *)
theory Spec2Isabelle
  imports EnetList EnetFragments EnetRangeCoder EnetReturns EnetUnix EnetWin32 GdNet
begin

text \<open>
  GDNet is a module for the Godot engine that wraps the ENet library, whose C++ sources the
  repository contains.  ENet gives its client reliable and unreliable, sequenced and unsequenced
  packets on the channels of a peer, over UDP; GDNet runs an ENet host on a thread of its own, between
  a queue of messages and a queue of events.  This library models ENet's protocol and GDNet's thread,
  and proves what makes them correct.

  The theories follow the source files (under \<^verbatim>\<open>src/\<close>); definitions keep the names of the code.

    \<^item> \<open>EnetBase\<close>: integers, times and byte order (\<^verbatim>\<open>time.h\<close>, \<^verbatim>\<open>utility.h\<close>, \<^verbatim>\<open>unix.h\<close>) and the lemmas
      all theories share.
    \<^item> \<open>EnetList\<close> (\<^verbatim>\<open>list.cpp\<close>): the linked lists as assignments to a store of nodes, and their
      refinement to HOL lists.  The other theories use HOL lists on the strength of it.
    \<^item> \<open>EnetPacket\<close> (\<^verbatim>\<open>packet.cpp\<close>): packets on a heap with an allocator that may fail; CRC32.
    \<^item> \<open>EnetCommand\<close> (\<^verbatim>\<open>protocol.h\<close>): the commands and their bytes.
    \<^item> \<open>EnetState\<close> (\<^verbatim>\<open>enet.h\<close>): channels, peers, the host and events as records, field by field.
    \<^item> \<open>EnetOutgoing\<close>, \<open>EnetIncoming\<close>, \<open>EnetPeer\<close> (\<^verbatim>\<open>peer.cpp\<close> and the events of \<^verbatim>\<open>protocol.cpp\<close>): what a
      peer sends and receives, its life, and the invariant \<open>host_ok\<close>.
    \<^item> \<open>EnetControl\<close>, \<open>EnetReceive\<close>, \<open>EnetFragments\<close> (\<^verbatim>\<open>protocol.cpp\<close>): the handlers of the commands,
      receiving a datagram, the unsequenced window and the reassembly of fragments.
    \<^item> \<open>EnetSend\<close>, \<open>EnetDatagram\<close>, \<open>EnetReliable\<close> (\<^verbatim>\<open>protocol.cpp\<close>): filling and sending a datagram, its
      size, time outs and the bytes in transit.  \<open>EnetProgress\<close>: sending ends.
    \<^item> \<open>EnetHost\<close> (\<^verbatim>\<open>host.cpp\<close>): creating a host, connecting, broadcasting and the bandwidth throttle.
    \<^item> \<open>EnetService\<close>, \<open>EnetReturns\<close> (\<^verbatim>\<open>protocol.cpp\<close>): the service loop, and that it ends.
    \<^item> \<open>EnetCoder\<close> (\<^verbatim>\<open>compress.cpp\<close>): the range coder, with the array of symbols and every macro.
      \<open>EnetRange\<close> has the arithmetic of its interval, \<open>EnetSymbols\<close> the trees of symbols as search
      trees, \<open>EnetContexts\<close> the contexts, the whole memory and what it knows, \<open>EnetCompress\<close> and
      \<open>EnetDecompress\<close> the two directions, \<open>EnetRangeCoder\<close> its use by a host and its properties.
    \<^item> \<open>EnetSocket\<close> (\<^verbatim>\<open>callbacks.cpp\<close>, \<^verbatim>\<open>host.cpp\<close>): what the layers on the operating system share: addresses
      and their text, sets of descriptors, the specification of waiting, and the sockets of a host.
      \<open>EnetUnix\<close> (\<^verbatim>\<open>unix.cpp\<close>) has the layer on Unix in all builds, \<open>EnetWin32\<close> (\<^verbatim>\<open>win32.cpp\<close>) the one on
      Windows.
    \<^item> \<open>GdQueue\<close> (\<^verbatim>\<open>gdnet_queue.h\<close>): the ring buffer and the threads that use it.
    \<^item> \<open>GdNet\<close> (\<^verbatim>\<open>gdnet_host.cpp\<close>, \<^verbatim>\<open>gdnet_peer.cpp\<close>): the thread and the calls of the script.
    \<^item> This theory: the steps of the whole program and its invariant.

  State.  A host is a record of its fields, with the heap and the world outside added; a pointer to a
  peer is its index, a pointer to a packet its address.  An operation takes the host and returns it.
  The world gives the clock and the results of the socket calls by the number of the call, so a theorem
  for all worlds is one for everything the network and the system can do; that a datagram received through
  a layer is one of the world's answers is what \<open>datagram_source\<close> shows.  The layers themselves pass a state
  of the system through the calls they make, which are the fields of \<open>posix\<close> and \<open>winsock\<close>.  \<open>None\<close> as the result of an
  operation is a loop that does not end.

  Interfaces.  \<open>host_operation\<close> is the contract of everything that works on one peer of a host: it keeps
  \<open>host_ok\<close> and the number of peers; \<open>peer_operation\<close> and \<open>host_sequence\<close> give it.  \<open>bounded_queue\<close>
  is the contract of the ring buffer, \<open>host_call\<close> that of a call of the script, \<open>datagram_codec\<close> what two
  hosts rely on when one decompresses what the other has compressed, \<open>datagram_source\<close> what a host relies on
  when it receives, which both layers give it.

  What is shown, by groups: the lists, the checksum, the wire format and the ring buffer implement their
  specifications; every operation keeps the invariant, through \<open>receive_incoming_safe\<close>,
  \<open>service_returns\<close> and \<open>program_invariant\<close> up to the whole program; reliable commands are delivered
  in order, without gaps and duplicates, and are neither lost nor reordered by sending and time outs;
  datagrams stay within the arrays and the MTU; fragments carry and restore exactly the bytes of a
  packet; failures of the allocator, the socket and the peer leave the state they should.  The range coder
  restores what it has compressed: its memory represents a model of what it has seen (\<open>represents\<close>), both
  directions teach the model the same (\<open>advance\<close>), and the decoder's interval follows the encoder's
  (\<open>encode_decode\<close>).  On arbitrary data the memory stays intact (\<open>wf\<close>), which is why it returns.
  The layers on the operating system refine what the host assumes of them: sockets are closed again,
  waiting meets one specification with \<^verbatim>\<open>poll\<close> and with \<^verbatim>\<open>select\<close>, a datagram arrives whole, and addresses
  survive their text.

  Bounds and fuel.  The receive loop takes at most 256 datagrams, as the code does.  Collecting events
  runs with the length of the dispatch queue as fuel, because every turn takes a peer off the queue; the
  loop over the commands of a datagram with the number of its bytes, because every command takes at least
  one: that this is enough is part of the theorems.  The loops that need not end (sending until all peers
  are served, the service, waiting, the loops over a queue) are partial functions.  The ones over the queues
  are shown to end, and so is sending: by the invariant, every command that waits fits into a datagram of
  its own and the time after which it is sent again is never zero.  Waiting and the service end when the
  clock has passed the deadline.

  Not modelled: the operating systems, whose calls are parameters; the engine's classes, the registration of the module (\<^verbatim>\<open>register_types.cpp\<close>) and of its methods; the
  parts of \<^verbatim>\<open>compress.cpp\<close> that are not compiled (\<^verbatim>\<open>ENET_CONTEXT_EXCLUSION\<close>).  A call that runs
  under the host mutex is one step; the mutexes themselves, and the call that misses one
  (\<^verbatim>\<open>GDNetHost::connect\<close>), are not interleaved further.
\<close>

section \<open>The program\<close>

text \<open>The steps of the program: a turn of the network thread, or a call of the script.  A peer is named by
  an index the host has.\<close>

definition has_peer :: "nat \<Rightarrow> GDNetHost \<Rightarrow> bool" where
  "has_peer i g \<longleftrightarrow> (case g_host g of None \<Rightarrow> True | Some h \<Rightarrow> i < length (h_peers h))"

inductive gd_step :: "GDNetHost \<Rightarrow> GDNetHost \<Rightarrow> bool" where
  turn: "g_running g \<Longrightarrow> g_host g \<noteq> None \<Longrightarrow> thread_turn e g = Some g' \<Longrightarrow> gd_step g g'"
| bind: "gd_bind s resolve addr g = (r, g') \<Longrightarrow> gd_step g g'"
| unbind: "gd_unbind g = Some g' \<Longrightarrow> gd_step g g'"
| connect: "gd_connect resolve address data g = (peer, g') \<Longrightarrow> gd_step g g'"
| broadcast_packet: "gd_step g (gd_broadcast_packet packet channel type g)"
| broadcast_var: "gd_step g (gd_broadcast_var var channel type g)"
| get_event: "gd_get_event g = (event, g') \<Longrightarrow> gd_step g g'"
| set_event_wait: "gd_step g (gd_set_event_wait n g)"
| set_max_peers: "gd_step g (gd_set_max_peers n g)"
| set_max_channels: "gd_step g (gd_set_max_channels n g)"
| set_max_bandwidth_in: "gd_step g (gd_set_max_bandwidth_in n g)"
| set_max_bandwidth_out: "gd_step g (gd_set_max_bandwidth_out n g)"
| ping: "has_peer i g \<Longrightarrow> peer_ping i g = Some g' \<Longrightarrow> gd_step g g'"
| reset: "has_peer i g \<Longrightarrow> peer_reset i g = Some g' \<Longrightarrow> gd_step g g'"
| disconnect: "has_peer i g \<Longrightarrow> peer_disconnect i data g = Some g' \<Longrightarrow> gd_step g g'"
| disconnect_later: "has_peer i g \<Longrightarrow> peer_disconnect_later i data g = Some g' \<Longrightarrow> gd_step g g'"
| disconnect_now: "has_peer i g \<Longrightarrow> peer_disconnect_now i data g = Some g' \<Longrightarrow> gd_step g g'"
| set_timeout: "has_peer i g \<Longrightarrow> peer_set_timeout i limit low high g = Some g' \<Longrightarrow> gd_step g g'"
| send_packet: "has_peer i g \<Longrightarrow> gd_step g (peer_send_packet i packet channel type g)"
| send_var: "has_peer i g \<Longrightarrow> gd_step g (peer_send_var i var channel type g)"

definition messages_ok :: "GDNetHost \<Rightarrow> bool" where
  "messages_ok g \<longleftrightarrow> (case g_host g of
       None \<Rightarrow> queue_contents QUEUE_SIZE (g_message_queue g) = []
     | Some h \<Rightarrow> host_ok h \<and> (\<forall>m\<in>set (queue_contents QUEUE_SIZE (g_message_queue g)). message_ok (length (h_peers h)) m))"

definition gd_ok :: "GDNetHost \<Rightarrow> bool" where
  "gd_ok g \<longleftrightarrow> queue_valid QUEUE_SIZE (g_event_queue g) \<and> queue_valid QUEUE_SIZE (g_message_queue g) \<and> messages_ok g"

lemma gd_ok_cases:
  "gd_ok g \<longleftrightarrow> queue_valid QUEUE_SIZE (g_event_queue g) \<and> queue_valid QUEUE_SIZE (g_message_queue g) \<and>
     (g_host g = None \<and> queue_contents QUEUE_SIZE (g_message_queue g) = [] \<or>
      (\<exists>h. g_host g = Some h \<and> host_ok h \<and>
        (\<forall>m\<in>set (queue_contents QUEUE_SIZE (g_message_queue g)). message_ok (length (h_peers h)) m)))"
  by (auto simp: gd_ok_def messages_ok_def split: option.split)

lemma push_message_ok:
  assumes "gd_ok g" "g_host g = Some h" "message_ok (length (h_peers h)) m"
  shows "gd_ok (push_message m g)"
  using assms queue_push_result [of QUEUE_SIZE "g_message_queue g" m]
  by (auto simp: gd_ok_def messages_ok_def push_message_def)

text \<open>A call under the mutex that keeps ENet's invariant keeps the program's.\<close>

locale host_call =
  fixes f :: "nat \<Rightarrow> ENetHost \<Rightarrow> ENetHost option"
  assumes keeps: "host_ok h \<Longrightarrow> i < length (h_peers h) \<Longrightarrow> f i h = Some h' \<Longrightarrow>
    host_ok h' \<and> length (h_peers h') = length (h_peers h)"
begin

lemma call_keeps:
  assumes "gd_ok g" "has_peer i g" "with_host (f i) g = Some g'"
  shows "gd_ok g'"
proof (cases "g_host g")
  case None
  then show ?thesis using assms(1,3) by (simp add: with_host_def)
next
  case (Some h)
  then obtain h' where h': "f i h = Some h'" "g' = g\<lparr>g_host := Some h'\<rparr>" using assms(3) by (auto simp: with_host_def)
  have "host_ok h" "i < length (h_peers h)" using assms(1,2) Some by (simp_all add: gd_ok_def messages_ok_def has_peer_def)
  from keeps [OF this h'(1)] show ?thesis using assms(1) Some h'(2) by (simp add: gd_ok_def messages_ok_def)
qed

end

interpretation call_ping: host_call "\<lambda>i h. Some (snd (on_peer i enet_peer_ping h))"
  using ping.keeps ping.same_peers by unfold_locales auto

interpretation call_reset: host_call "\<lambda>i h. Some (enet_peer_reset i h)"
  using reset.keeps by unfold_locales auto

interpretation call_disconnect: host_call "\<lambda>i. enet_peer_disconnect i data" for data
  using disconnect_keeps by unfold_locales

interpretation call_disconnect_later: host_call "\<lambda>i. enet_peer_disconnect_later i data" for data
  using disconnect_later_keeps by unfold_locales

interpretation call_disconnect_now: host_call "\<lambda>i. enet_peer_disconnect_now i data" for data
  using disconnect_now_keeps by unfold_locales

interpretation call_timeout: host_call "\<lambda>i h. Some (upd_peer i (enet_peer_timeout limit low high) h)" for limit low high
proof
  fix h h' i assume a: "host_ok h" "i < length (h_peers h)" "Some (upd_peer i (enet_peer_timeout limit low high) h) = Some h'"
  have "peer_frame (peer_at h i) (enet_peer_timeout limit low high (peer_at h i))"
    by (rule peer_frame_same) (simp_all add: enet_peer_timeout_def)
  from host_ok_frame [OF a(1,2) this, of h'] a(3)
  show "host_ok h' \<and> length (h_peers h') = length (h_peers h)" by (auto simp: upd_peer_def host_frame_def)
qed

lemma thread_turn_ok:
  assumes "gd_ok g" "g_host g = Some h" "thread_turn e g = Some g'"
  shows "gd_ok g'"
proof -
  have g: "queue_valid QUEUE_SIZE (g_event_queue g)" "queue_valid QUEUE_SIZE (g_message_queue g)" "host_ok h"
    "\<forall>m\<in>set (queue_contents QUEUE_SIZE (g_message_queue g)). message_ok (length (h_peers h)) m"
    using assms(1,2) by (simp_all add: gd_ok_def messages_ok_def)
  obtain q h1 h2 g2 where s: "send_messages (g_message_queue g) h = Some (q, h1)"
    and p: "poll_events e h1 (g\<lparr>g_message_queue := q\<rparr>) = Some (h2, g2)" "g' = g2\<lparr>g_host := Some h2\<rparr>"
    using assms(2,3) by (auto simp: thread_turn_def split: option.split_asm)
  obtain h1' where "send_all (queue_contents QUEUE_SIZE (g_message_queue g)) h = Some h1'"
    using send_messages_send_all [OF g(2), of h] s by (cases "send_all (queue_contents QUEUE_SIZE (g_message_queue g)) h") auto
  then have h1: "host_ok h1" "length (h_peers h1) = length (h_peers h)" "queue_valid QUEUE_SIZE q"
    "queue_contents QUEUE_SIZE q = []"
    using send_messages_send_all [OF g(2), of h] s send_all_keeps [OF g(3,4)] by auto
  have "host_ok h2 \<and> queue_valid QUEUE_SIZE (g_event_queue g2) \<and> g_message_queue g2 = q"
    using poll_events_keeps [OF h1(1) _ p(1)] g(1) by simp
  then show ?thesis using h1 p(2) by (simp add: gd_ok_def messages_ok_def)
qed

lemma bind_ok:
  assumes "gd_ok g" "gd_bind s resolve addr g = (r, g')"
  shows "gd_ok g'"
proof -
  have "host_ok h" if "create_host s address g = (Some h, hp)" for address h hp
    using that created_host_ok
    by (auto simp: create_host_def enet_host_create_def Let_def split: if_split_asm prod.split_asm)
  then show ?thesis
    using assms by (auto simp: gd_bind_def gd_ok_cases split: if_split_asm option.split_asm prod.split_asm)
qed

lemma unbind_ok:
  assumes "gd_ok g" "gd_unbind g = Some g'"
  shows "gd_ok g'"
proof (cases "g_host g")
  case None
  then show ?thesis using assms by (simp add: gd_unbind_def)
next
  case (Some h)
  obtain ms q1 es q2 where q: "queue_clear QUEUE_SIZE (g_message_queue g) = Some (ms, q1)"
      "queue_clear QUEUE_SIZE (g_event_queue g) = Some (es, q2)"
    "g_message_queue g' = q1" "g_event_queue g' = q2" "g_host g' = None"
    using assms(2) Some by (auto simp: gd_unbind_def split: option.split_asm)
  then have "queue_valid QUEUE_SIZE q1" "queue_is_empty q1" "queue_valid QUEUE_SIZE q2"
    using assms(1) clear_loop_result [of QUEUE_SIZE "g_message_queue g" "[]"]
      clear_loop_result [of QUEUE_SIZE "g_event_queue g" "[]"] by (auto simp: gd_ok_def queue_clear_def)
  then show ?thesis using q queue_empty_contents [of QUEUE_SIZE q1] by (simp add: gd_ok_def messages_ok_def)
qed

lemma connect_ok:
  assumes "gd_ok g" "gd_connect resolve address data g = (peer, g')"
  shows "gd_ok g'"
proof (cases "g' = g")
  case False
  then obtain h a r h' where h: "g_host g = Some h" "enet_host_connect a (of_int (g_max_channels g)) (of_int data) h = (r, h')"
    "g' = g\<lparr>g_host := Some h'\<rparr>"
    using assms(2) by (auto simp: gd_connect_def split: option.split_asm prod.split_asm)
  have "host_ok h" using assms(1) h(1) by (simp add: gd_ok_def messages_ok_def)
  from host_connect_result [OF this h(2)] show ?thesis using assms(1) h by (simp add: gd_ok_def messages_ok_def)
qed (use assms in simp)

lemma get_event_ok:
  assumes "gd_ok g" "gd_get_event g = (event, g')"
  shows "gd_ok g'"
proof -
  have "queue_valid QUEUE_SIZE (g_event_queue g)" using assms(1) by (simp add: gd_ok_def)
  from queue_pop_result [OF this] assms show ?thesis
    by (auto simp: gd_get_event_def gd_ok_cases split: list.split_asm prod.split_asm)
qed

lemma broadcast_packet_ok: "gd_ok g \<Longrightarrow> gd_ok (gd_broadcast_packet packet channel type g)"
  by (cases "g_host g") (auto simp: gd_broadcast_packet_def message_ok_def intro!: push_message_ok)

lemma send_packet_ok: "gd_ok g \<Longrightarrow> has_peer i g \<Longrightarrow> gd_ok (peer_send_packet i packet channel type g)"
  by (cases "g_host g")
    (auto simp: peer_send_packet_def peer_get_peer_id_def message_ok_def has_peer_def intro!: push_message_ok)

lemma settings_ok:
  "gd_ok g \<Longrightarrow> gd_ok (gd_set_event_wait n g)" "gd_ok g \<Longrightarrow> gd_ok (gd_set_max_peers n g)"
  "gd_ok g \<Longrightarrow> gd_ok (gd_set_max_channels n g)" "gd_ok g \<Longrightarrow> gd_ok (gd_set_max_bandwidth_in n g)"
  "gd_ok g \<Longrightarrow> gd_ok (gd_set_max_bandwidth_out n g)"
  by (simp_all add: gd_ok_cases gd_set_event_wait_def gd_set_max_peers_def gd_set_max_channels_def
      gd_set_max_bandwidth_in_def gd_set_max_bandwidth_out_def)

lemma gd_step_ok: "gd_step g g' \<Longrightarrow> gd_ok g \<Longrightarrow> gd_ok g'"
proof (induction rule: gd_step.induct)
  case (turn g e g')
  then show ?case using thread_turn_ok by auto
next
  case (broadcast_var g var channel type)
  then show ?case by (auto simp: gd_broadcast_var_def broadcast_packet_ok split: option.split)
next
  case (send_var i g var channel type)
  then show ?case by (auto simp: peer_send_var_def send_packet_ok split: option.split)
next
  case (ping i g g')
  then show ?case using call_ping.call_keeps by (simp add: peer_ping_def)
next
  case (reset i g g')
  then show ?case using call_reset.call_keeps by (simp add: peer_reset_def)
next
  case (disconnect i g data g')
  then show ?case using call_disconnect.call_keeps by (simp add: peer_disconnect_def)
next
  case (disconnect_later i g data g')
  then show ?case using call_disconnect_later.call_keeps by (simp add: peer_disconnect_later_def)
next
  case (disconnect_now i g data g')
  then show ?case using call_disconnect_now.call_keeps by (simp add: peer_disconnect_now_def)
next
  case (set_timeout i g limit low high g')
  then show ?case using call_timeout.call_keeps by (simp add: peer_set_timeout_def)
next
  case (bind s resolve addr g r g')
  show ?case by (rule bind_ok [OF bind(2,1)])
next
  case (unbind g g')
  show ?case by (rule unbind_ok [OF unbind(2,1)])
next
  case (connect resolve address data g peer g')
  show ?case by (rule connect_ok [OF connect(2,1)])
next
  case (get_event g event g')
  show ?case by (rule get_event_ok [OF get_event(2,1)])
qed (simp_all add: broadcast_packet_ok send_packet_ok settings_ok)

lemma gd_steps_ok: "gd_step\<^sup>*\<^sup>* g g' \<Longrightarrow> gd_ok g \<Longrightarrow> gd_ok g'"
  by (induction rule: rtranclp_induct) (auto dest: gd_step_ok)

lemma new_gdnet_host_ok: "gd_ok (new_gdnet_host ticks hp w)"
  using new_queue_valid(1) [of QUEUE_SIZE, where 'a = GDNetMessage] new_queue_valid(1) [of QUEUE_SIZE, where 'a = GDNetEvent]
  by (simp add: gd_ok_def messages_ok_def new_gdnet_host_def new_queue_valid(2))



end
